(* ===== verification/Gnet_Prelude.thy ===== *)
theory Gnet_Prelude
  imports Main "HOL-Library.Word"
begin

text \<open>
  Shared vocabulary of the development: the machine integers of the sources, the
  error type of src/src/error.rs, the result of a Rust call (a value, an error or a
  panic), sequencing of calls that can fail, with and without a mutable state, slices
  and indexing with their range checks, saturating and checked arithmetic, and the
  big-endian byte codecs that every wire format uses.
\<close>

unbundle bit_operations_syntax

named_theorems result_simps \<open>inversion of results and of sequenced calls\<close>
named_theorems wire_simps \<open>byte and bit-field rewriting\<close>

section \<open>Machine integers\<close>

type_synonym u8 = "8 word"
type_synonym u16 = "16 word"
type_synonym u32 = "32 word"
type_synonym u64 = "64 word"
type_synonym bytes = "8 word list"

section \<open>Errors and results\<close>

datatype error =
    InvalidLength | InvalidField | InvalidCrc | InvalidAddressForm | InvalidSizeClass
  | Unsupported | NonCanonical | BufferFull | NoCredit | NoRoute | CreditViolation
  | LinkDown | Desynchronized | UnknownService | UnknownTunnel | UnknownStream
  | InvalidState | DirectionViolation | ProfileViolation | MessageTooLarge | WouldBlock

text \<open>A Rust call returns a value, returns an error, or panics (an index or a slice
  out of range, an overflow of plain arithmetic, a failed \<open>unwrap\<close>).\<close>

datatype 'a result = Ok 'a | Err error | Panic

primrec is_ok :: "'a result \<Rightarrow> bool" where
  "is_ok (Ok x) = True"
| "is_ok (Err e) = False"
| "is_ok Panic = False"

primrec rbind :: "'a result \<Rightarrow> ('a \<Rightarrow> 'b result) \<Rightarrow> 'b result" where
  "rbind (Ok x) f = f x"
| "rbind (Err e) f = Err e"
| "rbind Panic f = Panic"

definition ok_or :: "'a option \<Rightarrow> error \<Rightarrow> 'a result" where
  "ok_or x e = (case x of None \<Rightarrow> Err e | Some v \<Rightarrow> Ok v)"

definition unwrap :: "'a option \<Rightarrow> 'a result" where
  "unwrap x = (case x of None \<Rightarrow> Panic | Some v \<Rightarrow> Ok v)"

text \<open>A method on \<open>&mut self\<close> returns its result together with the state it leaves, also when
  it fails: what was written before an early return stays written.\<close>

type_synonym ('s, 'a) outcome = "'a result \<times> 's"

definition sbind :: "('s, 'a) outcome \<Rightarrow> ('a \<Rightarrow> 's \<Rightarrow> ('s, 'b) outcome) \<Rightarrow> ('s, 'b) outcome" where
  "sbind m k = (case m of (Ok x, s) \<Rightarrow> k x s | (Err e, s) \<Rightarrow> (Err e, s) | (Panic, s) \<Rightarrow> (Panic, s))"

definition lift_r :: "'a result \<Rightarrow> 's \<Rightarrow> ('s, 'a) outcome" where
  "lift_r r s = (r, s)"

lemma is_ok_iff [result_simps]: "is_ok r \<longleftrightarrow> (\<exists>x. r = Ok x)"
  by (cases r) auto

lemma rbind_eq_Ok [result_simps]: "rbind r f = Ok y \<longleftrightarrow> (\<exists>x. r = Ok x \<and> f x = Ok y)"
  by (cases r) auto

lemma rbind_eq_Err [result_simps]:
  "rbind r f = Err e \<longleftrightarrow> r = Err e \<or> (\<exists>x. r = Ok x \<and> f x = Err e)"
  by (cases r) auto

lemma rbind_eq_Panic [result_simps]:
  "rbind r f = Panic \<longleftrightarrow> r = Panic \<or> (\<exists>x. r = Ok x \<and> f x = Panic)"
  by (cases r) auto

lemma rbind_assoc: "rbind (rbind r f) g = rbind r (\<lambda>x. rbind (f x) g)"
  by (cases r) auto

lemma rbind_cong [fundef_cong]:
  "r = r' \<Longrightarrow> (\<And>x. r' = Ok x \<Longrightarrow> f x = g x) \<Longrightarrow> rbind r f = rbind r' g"
  by (cases r') auto

lemma ok_or_simps [simp]: "ok_or None e = Err e" "ok_or (Some v) e = Ok v"
  by (simp_all add: ok_or_def)

lemma ok_or_eq [result_simps]:
  "ok_or x e = Ok v \<longleftrightarrow> x = Some v"
  "ok_or x e = Err d \<longleftrightarrow> x = None \<and> d = e"
  "ok_or x e \<noteq> Panic"
  by (auto simp: ok_or_def split: option.splits)

lemma unwrap_simps [simp]: "unwrap None = Panic" "unwrap (Some v) = Ok v"
  by (simp_all add: unwrap_def)

lemma sbind_simps [simp]:
  "sbind (Ok x, s) k = k x s"
  "sbind (Err e, s) k = (Err e, s)"
  "sbind (Panic, s) k = (Panic, s)"
  by (simp_all add: sbind_def)

lemma sbind_lift_Ok [simp]: "sbind (lift_r (Ok x) s) k = k x s"
  by (simp add: lift_r_def)

lemma sbind_eq_Ok [result_simps]:
  "sbind m k = (Ok y, t) \<longleftrightarrow> (\<exists>x s. m = (Ok x, s) \<and> k x s = (Ok y, t))"
  by (cases m; cases "fst m") (auto simp: sbind_def)

lemma sbind_cong [fundef_cong]:
  "m = m' \<Longrightarrow> (\<And>x s. m' = (Ok x, s) \<Longrightarrow> k x s = k' x s) \<Longrightarrow> sbind m k = sbind m' k'"
  by (cases m'; cases "fst m'") (auto simp: sbind_def)

text \<open>The part of the state a failing call leaves is covered by this induction-like rule: an
  invariant kept by both halves is kept by their sequence.\<close>

lemma sbind_invar:
  assumes "I (snd m)" and "\<And>x s. m = (Ok x, s) \<Longrightarrow> I s \<Longrightarrow> I (snd (k x s))"
  shows "I (snd (sbind m k))"
  using assms by (cases m; cases "fst m") (auto simp: sbind_def)

section \<open>Slices and indexing\<close>

definition idx :: "'a list \<Rightarrow> nat \<Rightarrow> 'a result" where
  "idx xs i = (if i < length xs then Ok (xs ! i) else Panic)"

definition slice :: "'a list \<Rightarrow> nat \<Rightarrow> nat \<Rightarrow> 'a list result" where
  "slice xs a b = (if a \<le> b \<and> b \<le> length xs then Ok (take (b - a) (drop a xs)) else Panic)"

text \<open>\<open>dst[a..a + src.len()].copy_from_slice(src)\<close>.\<close>

definition copy_at :: "'a list \<Rightarrow> nat \<Rightarrow> 'a list \<Rightarrow> 'a list result" where
  "copy_at dst a src = (if a + length src \<le> length dst
     then Ok (take a dst @ src @ drop (a + length src) dst) else Panic)"

definition upd :: "'a list \<Rightarrow> nat \<Rightarrow> 'a \<Rightarrow> 'a list result" where
  "upd xs i v = (if i < length xs then Ok (xs[i := v]) else Panic)"

lemma upd_Ok [simp]: "i < length xs \<Longrightarrow> upd xs i v = Ok (xs[i := v])"
  by (simp add: upd_def)

lemma idx_Ok [simp]: "i < length xs \<Longrightarrow> idx xs i = Ok (xs ! i)"
  by (simp add: idx_def)

lemma idx_eq_Ok [result_simps]: "idx xs i = Ok x \<longleftrightarrow> i < length xs \<and> x = xs ! i"
  by (auto simp: idx_def)

lemma idx_eq_Panic [result_simps]: "idx xs i = Panic \<longleftrightarrow> \<not> i < length xs"
  by (simp add: idx_def)

lemma slice_Ok [simp]:
  "a \<le> b \<Longrightarrow> b \<le> length xs \<Longrightarrow> slice xs a b = Ok (take (b - a) (drop a xs))"
  by (simp add: slice_def)

lemma copy_at_Ok [simp]:
  "a + length src \<le> length dst \<Longrightarrow>
   copy_at dst a src = Ok (take a dst @ src @ drop (a + length src) dst)"
  by (simp add: copy_at_def)

lemma copy_at_append:
  "length pre = a \<Longrightarrow> length src \<le> length post \<Longrightarrow> copy_at (pre @ post) a src = Ok (pre @ src @ drop (length src) post)"
  by simp

lemma idx_not_Err [result_simps]: "idx xs i \<noteq> Err e" "slice xs a b \<noteq> Err e"
  by (simp_all add: idx_def slice_def)

text \<open>A write outside a region leaves its bytes alone.\<close>

lemma copy_outside:
  assumes "off + length d \<le> length p" "o' + n \<le> off \<or> off + length d \<le> o'" "o' + n \<le> length p"
  shows "take n (drop o' (take off p @ d @ drop (off + length d) p)) = take n (drop o' p)"
  using assms(2)
proof
  assume "o' + n \<le> off"
  then show ?thesis using assms by (auto simp: take_drop min_def)
next
  assume a: "off + length d \<le> o'"
  then have "drop o' (take off p @ d @ drop (off + length d) p) = drop o' p"
    using assms by (simp add: drop_append)
  then show ?thesis by simp
qed

lemma copy_inside:
  "off + length d \<le> length p \<Longrightarrow> take (length d) (drop off (take off p @ d @ drop (off + length d) p)) = d"
  by simp

section \<open>Saturating and checked arithmetic\<close>

definition saturating_add :: "'a::len word \<Rightarrow> 'a word \<Rightarrow> 'a word" where
  "saturating_add a b = (if a + b < a then - 1 else a + b)"

definition saturating_sub :: "'a::len word \<Rightarrow> 'a word \<Rightarrow> 'a word" where
  "saturating_sub a b = (if a < b then 0 else a - b)"

definition checked_add :: "'a::len word \<Rightarrow> 'a word \<Rightarrow> 'a word option" where
  "checked_add a b = (if a + b < a then None else Some (a + b))"

text \<open>Plain \<open>+\<close> and \<open>-\<close> on an unsigned type, which panic on overflow in a checked build.\<close>

definition add_r :: "'a::len word \<Rightarrow> 'a word \<Rightarrow> 'a word result" where
  "add_r a b = unwrap (checked_add a b)"

definition sub_r :: "'a::len word \<Rightarrow> 'a word \<Rightarrow> 'a word result" where
  "sub_r a b = (if a < b then Panic else Ok (a - b))"

definition nat_sub_r :: "nat \<Rightarrow> nat \<Rightarrow> nat result" where
  "nat_sub_r a b = (if a < b then Panic else Ok (a - b))"

lemma no_carry_iff: "\<not> a + b < a \<longleftrightarrow> unat a + unat b < 2 ^ LENGTH('a)" for a b :: "'a::len word"
  by (metis no_olen_add_nat not_le word_le_nat_alt word_less_nat_alt)

lemma unat_saturating_add:
  "unat (saturating_add a b) = min (unat a + unat b) (2 ^ LENGTH('a) - 1)" for a b :: "'a::len word"
proof (cases "a + b < a")
  case True
  then have "\<not> unat a + unat b < 2 ^ LENGTH('a)" using no_carry_iff by blast
  then show ?thesis using True by (simp add: saturating_add_def unsigned_minus_1_eq_mask mask_eq_exp_minus_1)
next
  case False
  then have "unat a + unat b < 2 ^ LENGTH('a)" using no_carry_iff by blast
  moreover from this have "unat a + unat b \<le> 2 ^ LENGTH('a) - 1" by linarith
  ultimately show ?thesis using False by (simp add: saturating_add_def unat_word_ariths)
qed

lemma unat_saturating_sub: "unat (saturating_sub a b) = unat a - unat b" for a b :: "'a::len word"
  by (auto simp: saturating_sub_def word_less_nat_alt unat_sub word_le_nat_alt)

lemma checked_add_eq:
  "checked_add a b = (if unat a + unat b < 2 ^ LENGTH('a) then Some (a + b) else None)"
  for a b :: "'a::len word"
  by (metis checked_add_def no_carry_iff)

lemma checked_add_SomeD:
  "checked_add a b = Some c \<Longrightarrow> unat c = unat a + unat b" for a b :: "'a::len word"
  by (auto simp: checked_add_eq unat_word_ariths split: if_splits)

lemma add_r_eq_Ok [result_simps]:
  "add_r a b = Ok c \<longleftrightarrow> unat a + unat b < 2 ^ LENGTH('a) \<and> c = a + b" for a b :: "'a::len word"
  by (auto simp: add_r_def checked_add_eq)

lemma sub_r_eq_Ok [result_simps]: "sub_r a b = Ok c \<longleftrightarrow> b \<le> a \<and> c = a - b"
  by (auto simp: sub_r_def)

section \<open>Big-endian byte codecs\<close>

text \<open>\<open>from_be\<close> is \<open>uN::from_be_bytes\<close> on a slice, \<open>to_be n\<close> is \<open>to_be_bytes\<close> of an integer of
  \<open>n\<close> bytes.\<close>

fun from_be :: "u8 list \<Rightarrow> 'a::len word" where
  "from_be [] = 0"
| "from_be (b # bs) = push_bit (8 * length bs) (ucast b) OR from_be bs"

fun to_be :: "nat \<Rightarrow> 'a::len word \<Rightarrow> u8 list" where
  "to_be 0 w = []"
| "to_be (Suc n) w = ucast (drop_bit (8 * n) w) # to_be n w"

lemma length_to_be [simp]: "length (to_be n w) = n"
  by (induction n) auto

lemma bit_from_be:
  "bit (from_be bs :: 'a::len word) k \<longleftrightarrow>
   k < LENGTH('a) \<and> k div 8 < length bs \<and> bit (bs ! (length bs - 1 - k div 8)) (k mod 8)"
proof (induction bs)
  case Nil
  then show ?case by simp
next
  case (Cons b bs)
  show ?case
  proof (cases "k < 8 * length bs")
    case True
    then have "k div 8 < length bs" by auto
    then show ?thesis using Cons True
      by (auto simp: bit_simps nth_Cons' Suc_diff_Suc)
  next
    case False
    then have d: "length bs \<le> k div 8" by auto
    have "bit b (k - 8 * length bs) \<longleftrightarrow> k div 8 = length bs \<and> bit b (k mod 8)"
    proof (cases "k div 8 = length bs")
      case True
      then have "k - 8 * length bs = k mod 8" by (metis minus_mult_div_eq_mod)
      then show ?thesis using True by simp
    next
      case f: False
      then have "k - 8 * length bs \<ge> 8" using d by auto
      then show ?thesis using f by (simp add: bit_word.rep_eq)
    qed
    then show ?thesis using Cons False d by (auto simp: bit_simps nth_Cons')
  qed
qed

lemma div8_less_iff: "k div 8 < n \<longleftrightarrow> k < 8 * n" for k n :: nat
  by auto

lemma nth_to_be: "i < n \<Longrightarrow> to_be n w ! i = ucast (drop_bit (8 * (n - 1 - i)) w)"
  by (induction n arbitrary: i) (auto simp: nth_Cons' split: nat.splits)

lemma from_be_to_be: "from_be (to_be n w) = take_bit (8 * n) w" for w :: "'a::len word"
proof (rule bit_word_eqI)
  fix k assume k: "k < LENGTH('a)"
  have r: "8 * (k div 8) + k mod 8 = k" by simp
  show "bit (from_be (to_be n w) :: 'a word) k = bit (take_bit (8 * n) w) k"
  proof (cases "k div 8 < n")
    case True
    then have "k < 8 * n" by auto
    then show ?thesis using k r
      by (simp add: bit_from_be nth_to_be bit_simps Suc_leI div8_less_iff)
  next
    case False
    then have "\<not> k < 8 * n" by auto
    then show ?thesis using False k by (simp add: bit_from_be bit_simps)
  qed
qed

lemma from_be_to_be_id [simp]:
  "LENGTH('a) \<le> 8 * n \<Longrightarrow> from_be (to_be n w) = w" for w :: "'a::len word"
  by (simp add: from_be_to_be take_bit_word_eq_self)

lemma to_be_from_be [simp]:
  assumes "length bs = n" "8 * n \<le> LENGTH('a)"
  shows "to_be n (from_be bs :: 'a::len word) = bs"
proof (rule nth_equalityI)
  fix i assume "i < length (to_be n (from_be bs :: 'a word))"
  then have i: "i < n" by simp
  show "to_be n (from_be bs :: 'a word) ! i = bs ! i"
  proof (rule bit_word_eqI)
    fix k assume "k < LENGTH(8)"
    then have k: "k < 8" by simp
    have lt: "8 * (n - Suc i) + k < 8 * n" using i k by auto
    have d: "(8 * (n - Suc i) + k) div 8 = n - Suc i" "(8 * (n - Suc i) + k) mod 8 = k"
      using k by auto
    show "bit (to_be n (from_be bs :: 'a word) ! i) k = bit (bs ! i) k"
      using i k lt d assms by (simp add: nth_to_be bit_simps bit_from_be)
  qed
qed (use assms in simp)

section \<open>Bitwise cancellation\<close>

lemma xor_left_cancel_iff [wire_simps]: "c XOR a = c XOR b \<longleftrightarrow> a = b" for a b c :: "'a::len word"
  by (metis bit.xor_self xor.assoc xor.left_neutral)

lemma xor_right_cancel_iff [wire_simps]: "a XOR c = b XOR c \<longleftrightarrow> a = b" for a b c :: "'a::len word"
  by (metis bit.xor_self xor.assoc xor.right_neutral)

lemma unat_bounds [simp]:
  "unat (a :: u8) < 256" "unat (b :: u16) < 65536" "unat (c :: u32) < 4294967296"
  using unsigned_less[of a, where ?'a = nat] unsigned_less[of b, where ?'a = nat]
    unsigned_less[of c, where ?'a = nat] by simp_all

section \<open>Bit fields\<close>

text \<open>The masks of the sources read as truncations, so that a packed field is recovered by
  comparing bits.\<close>

lemma and_mask_take_bit [wire_simps]:
  fixes x :: "'a::len word"
  shows "x AND 1 = take_bit 1 x"
    and "x AND 3 = take_bit 2 x"
    and "x AND 0x07 = take_bit 3 x"
    and "x AND 0x0f = take_bit 4 x"
    and "x AND 0x1f = take_bit 5 x"
    and "x AND 0x3f = take_bit 6 x"
    and "x AND 0x7f = take_bit 7 x"
    and "x AND 0xff = take_bit 8 x"
    and "x AND 0xffff = take_bit 16 x"
  by (simp_all add: take_bit_eq_mask mask_eq_exp_minus_1)

lemma bit_high [wire_simps]:
  "8 \<le> k \<Longrightarrow> \<not> bit (a :: u8) k" "16 \<le> k \<Longrightarrow> \<not> bit (b :: u16) k"
  "32 \<le> k \<Longrightarrow> \<not> bit (c :: u32) k" "64 \<le> k \<Longrightarrow> \<not> bit (d :: u64) k"
  using bit_imp_le_length[of a k] bit_imp_le_length[of b k] bit_imp_le_length[of c k]
    bit_imp_le_length[of d k] by auto

lemma take_bit_1_neq_0_iff [wire_simps]: "take_bit 1 x = 0 \<longleftrightarrow> \<not> bit x 0" for x :: "'a::len word"
  using and_exp_eq_0_iff_not_bit[of x 0] by (simp add: take_bit_eq_mask)

lemma drop_bit_and_1_iff: "drop_bit i v AND 1 \<noteq> 0 \<longleftrightarrow> bit v i" for v :: "'a::len word"
  using and_exp_eq_0_iff_not_bit[of "drop_bit i v" 0] by (simp add: bit_simps)

lemma bit_of_bool_word [wire_simps]: "bit (of_bool b :: 'a::len word) k \<longleftrightarrow> b \<and> k = 0"
  by (cases b) (auto simp: bit_simps)

lemma bit_imp_less:
  fixes x :: "'a::len word"
  assumes "bit x k" "unat x < 2 ^ n"
  shows "k < n"
proof (rule ccontr)
  assume "\<not> k < n"
  then have "unat x < 2 ^ k" using assms(2) by (meson less_le_trans not_less one_le_numeral power_increasing)
  then have "\<not> bit (unat x) k" by (simp add: bit_iff_odd)
  then show False using assms(1) by (simp add: bit_unsigned_iff)
qed

lemma to_be_unfold:
  "to_be 1 w = [ucast w]"
  "to_be 2 w = [ucast (drop_bit 8 w), ucast w]"
  "to_be 4 w = [ucast (drop_bit 24 w), ucast (drop_bit 16 w), ucast (drop_bit 8 w), ucast w]"
  by (simp_all add: eval_nat_numeral)

end
