(* ===== verification/Crc.thy ===== *)
theory Crc
  imports Gnet_Prelude
begin

text \<open>
  The checksums of src/src/wire/crc.rs: CRC-8-GNET (polynomial 0x07) and CRC-32-GNET
  (polynomial 0x04c11db7, initial value and final complement all ones), each with its
  bit-serial update, its generated 256-entry table and its table-driven update. The locale
  \<open>crc_engine\<close> states what the two implementations have in common and carries the theory of
  the linear shift register once; both are interpretations of it.
\<close>

section \<open>The generated tables\<close>

definition crc8_shift :: "u8 \<Rightarrow> u8" where
  "crc8_shift crc = (if crc AND 0x80 \<noteq> 0 then push_bit 1 crc XOR 0x07 else push_bit 1 crc)"

definition make_crc8_table :: "u8 list" where
  "make_crc8_table = map (\<lambda>i. (crc8_shift ^^ 8) (of_nat i)) [0..<256]"

definition crc32_shift :: "u32 \<Rightarrow> u32" where
  "crc32_shift crc = (if crc AND 0x80000000 \<noteq> 0 then push_bit 1 crc XOR 0x04c11db7 else push_bit 1 crc)"

definition make_crc32_table :: "u32 list" where
  "make_crc32_table = map (\<lambda>i. (crc32_shift ^^ 8) (push_bit 24 (of_nat i))) [0..<256]"

section \<open>CRC-8\<close>

record Crc8 =
  crc8_value :: u8

definition crc8_new :: Crc8 where
  "crc8_new = \<lparr>crc8_value = 0\<rparr>"

definition crc8_update_bit :: "Crc8 \<Rightarrow> bool \<Rightarrow> Crc8" where
  "crc8_update_bit c b =
    (let top = crc8_value c AND 0x80 \<noteq> 0;
         v = push_bit 1 (crc8_value c)
     in c\<lparr>crc8_value := if top \<noteq> b then v XOR 0x07 else v\<rparr>)"

text \<open>\<open>value >> i\<close> panics for a shift of 64 or more, which the first iteration reaches when
  \<open>bits > 64\<close>.\<close>

definition crc8_update_bits :: "Crc8 \<Rightarrow> u64 \<Rightarrow> nat \<Rightarrow> Crc8 result" where
  "crc8_update_bits c val bits =
    (if 64 < bits then Panic
     else Ok (foldl (\<lambda>c i. crc8_update_bit c (drop_bit i val AND 1 \<noteq> 0)) c (rev [0..<bits])))"

definition crc8_update_byte :: "Crc8 \<Rightarrow> u8 \<Rightarrow> Crc8" where
  "crc8_update_byte c b = c\<lparr>crc8_value := make_crc8_table ! unat (crc8_value c XOR b)\<rparr>"

definition crc8_update_bytes :: "Crc8 \<Rightarrow> bytes \<Rightarrow> Crc8" where
  "crc8_update_bytes c bs = foldl crc8_update_byte c bs"

definition crc8_finalize :: "Crc8 \<Rightarrow> u8" where
  "crc8_finalize c = crc8_value c"

definition crc8_gnet :: "bytes \<Rightarrow> u8" where
  "crc8_gnet bs = crc8_finalize (crc8_update_bytes crc8_new bs)"

section \<open>CRC-32\<close>

record Crc32 =
  crc32_value :: u32

definition crc32_new :: Crc32 where
  "crc32_new = \<lparr>crc32_value = 0xffffffff\<rparr>"

definition crc32_update_bit :: "Crc32 \<Rightarrow> bool \<Rightarrow> Crc32" where
  "crc32_update_bit c b =
    (let top = crc32_value c AND 0x80000000 \<noteq> 0;
         v = push_bit 1 (crc32_value c)
     in c\<lparr>crc32_value := if top \<noteq> b then v XOR 0x04c11db7 else v\<rparr>)"

definition crc32_update_bits :: "Crc32 \<Rightarrow> u64 \<Rightarrow> nat \<Rightarrow> Crc32 result" where
  "crc32_update_bits c val bits =
    (if 64 < bits then Panic
     else Ok (foldl (\<lambda>c i. crc32_update_bit c (drop_bit i val AND 1 \<noteq> 0)) c (rev [0..<bits])))"

definition crc32_update_byte :: "Crc32 \<Rightarrow> u8 \<Rightarrow> Crc32" where
  "crc32_update_byte c b =
    (let i = unat ((ucast (drop_bit 24 (crc32_value c)) :: u8) XOR b)
     in c\<lparr>crc32_value := push_bit 8 (crc32_value c) XOR make_crc32_table ! i\<rparr>)"

definition crc32_update_bytes :: "Crc32 \<Rightarrow> bytes \<Rightarrow> Crc32" where
  "crc32_update_bytes c bs = foldl crc32_update_byte c bs"

definition crc32_finalize :: "Crc32 \<Rightarrow> u32" where
  "crc32_finalize c = crc32_value c XOR 0xffffffff"

definition crc32_gnet :: "bytes \<Rightarrow> u32" where
  "crc32_gnet bs = crc32_finalize (crc32_update_bytes crc32_new bs)"

section \<open>The linear shift register behind both\<close>

definition byte_bits :: "u8 \<Rightarrow> bool list" where
  "byte_bits x = map (bit x) (rev [0..<8])"

text \<open>A CRC implementation keeps its register in a state; \<open>reg\<close> reads it. The locale asks that the
  bit update be the shift register with feedback \<open>poly\<close>, that the table step use a table that
  holds the register after eight zero bits, that the register be as wide as a byte at least and
  that the polynomial have its constant term.\<close>

locale crc_engine =
  fixes poly :: "'w::len word"
    and reg :: "'s \<Rightarrow> 'w word"
    and update_bit :: "'s \<Rightarrow> bool \<Rightarrow> 's"
    and update_byte :: "'s \<Rightarrow> u8 \<Rightarrow> 's"
    and shift :: "'w word \<Rightarrow> 'w word"
  assumes width: "8 \<le> LENGTH('w)"
    and odd_poly: "bit poly 0"
    and reg_inject: "reg s = reg t \<Longrightarrow> s = t"
    and shift_law: "shift v = (if bit v (LENGTH('w) - 1) then push_bit 1 v XOR poly else push_bit 1 v)"
    and bit_law: "reg (update_bit s b) =
      (if bit (reg s) (LENGTH('w) - 1) \<noteq> b then push_bit 1 (reg s) XOR poly else push_bit 1 (reg s))"
    and byte_law: "reg (update_byte s x) = push_bit 8 (reg s) XOR
      (shift ^^ 8) (push_bit (LENGTH('w) - 8) (ucast ((ucast (drop_bit (LENGTH('w) - 8) (reg s)) :: u8) XOR x)))"
begin

lemma shift_0: "shift 0 = 0"
  by (simp add: shift_law)

lemma shift_xor: "shift (a XOR b) = shift a XOR shift b"
  by (auto simp: shift_law bit_simps simp del: push_bit_Suc intro!: bit_word_eqI)

lemma shift_pow_xor: "(shift ^^ k) (a XOR b) = (shift ^^ k) a XOR (shift ^^ k) b"
  by (induction k) (simp_all add: shift_xor)

lemma shift_inject: "shift a = shift b \<Longrightarrow> a = b"
proof -
  assume eq: "shift a = shift b"
  have "shift (a XOR b) = 0" using eq by (simp add: shift_xor)
  moreover have "shift v = 0 \<Longrightarrow> v = 0" for v
  proof -
    assume z: "shift v = 0"
    have "bit (shift v) 0 \<longleftrightarrow> bit v (LENGTH('w) - 1)"
      using odd_poly by (simp add: shift_law bit_simps del: push_bit_Suc)
    then have top: "\<not> bit v (LENGTH('w) - 1)" using z by simp
    then have "push_bit 1 v = 0" using z by (simp add: shift_law)
    show "v = 0"
    proof (rule bit_word_eqI)
      fix k assume k: "k < LENGTH('w)"
      have "bit (push_bit 1 v) (Suc k) \<longleftrightarrow> Suc k < LENGTH('w) \<and> bit v k"
        by (simp add: bit_simps del: push_bit_Suc)
      then show "bit v k = bit 0 k" using \<open>push_bit 1 v = 0\<close> top k
        by (cases "Suc k < LENGTH('w)") (auto simp: less_Suc_eq not_less_eq Suc_lessI le_less_Suc_eq
            dest!: Suc_leI le_neq_implies_less)
    qed
  qed
  ultimately have "a XOR b = 0" by blast
  then show "a = b" by (metis xor.left_neutral xor.right_neutral bit.xor_self xor.assoc)
qed

lemma shift_pow_inject: "(shift ^^ k) a = (shift ^^ k) b \<Longrightarrow> a = b"
  by (induction k) (auto dest: shift_inject)

text \<open>As long as no set bit reaches the top, the register only shifts.\<close>

lemma shift_pow_low:
  assumes "\<And>i. LENGTH('w) - k \<le> i \<Longrightarrow> \<not> bit v i" "k \<le> LENGTH('w)"
  shows "(shift ^^ k) v = push_bit k v"
  using assms
proof (induction k)
  case 0
  then show ?case by simp
next
  case (Suc k)
  have IH: "(shift ^^ k) v = push_bit k v"
    using Suc.prems by (intro Suc.IH) auto
  have "\<not> bit (push_bit k v) (LENGTH('w) - 1)"
    using Suc.prems by (auto simp: bit_simps)
  then show ?case by (simp add: IH) (simp add: shift_law)
qed

lemma reg_update_bit: "reg (update_bit s b) = shift (reg s XOR (if b then push_bit (LENGTH('w) - 1) 1 else 0))"
  by (auto simp: bit_law shift_law bit_simps simp del: push_bit_Suc intro!: bit_word_eqI)

lemma reg_bits:
  assumes "length bs = k" "k \<le> LENGTH('w)"
  shows "reg (foldl update_bit s bs) =
    (shift ^^ k) (reg s XOR push_bit (LENGTH('w) - k) (horner_sum of_bool 2 (rev bs)))"
  using assms
proof (induction bs arbitrary: k rule: rev_induct)
  case Nil
  then show ?case by simp
next
  case (snoc b bs)
  then obtain j where k: "k = Suc j" and j: "length bs = j" "j \<le> LENGTH('w)" "j < LENGTH('w)" by auto
  let ?n = "LENGTH('w)" and ?H = "horner_sum of_bool 2 (rev bs) :: 'w word"
  let ?b = "of_bool b :: 'w word"
  have top: "(if b then push_bit (?n - 1) 1 else 0) = (shift ^^ j) (push_bit (?n - Suc j) ?b)"
  proof -
    have "(shift ^^ j) (push_bit (?n - Suc j) ?b) = push_bit j (push_bit (?n - Suc j) ?b)"
      using j by (intro shift_pow_low) (auto simp: bit_simps)
    then show ?thesis using j by (simp add: push_bit_push_bit)
  qed
  have H: "push_bit (?n - j) ?H XOR push_bit (?n - Suc j) ?b
      = push_bit (?n - Suc j) (horner_sum of_bool 2 (rev (bs @ [b])))"
    using j by (intro bit_word_eqI)
      (auto simp: bit_simps bit_horner_sum_bit_iff nth_Cons' simp del: horner_sum_simps)
  have "reg (foldl update_bit s (bs @ [b])) =
      shift ((shift ^^ j) (reg s XOR push_bit (?n - j) ?H) XOR (shift ^^ j) (push_bit (?n - Suc j) ?b))"
    using snoc.IH[OF j(1,2)] by (simp add: reg_update_bit top)
  also have "\<dots> = (shift ^^ k) (reg s XOR (push_bit (?n - j) ?H XOR push_bit (?n - Suc j) ?b))"
    by (simp add: k shift_pow_xor[symmetric] xor.assoc)
  finally show ?case by (simp add: H k)
qed

lemma byte_horner: "horner_sum of_bool 2 (rev (byte_bits x)) = (ucast x :: 'w word)"
proof (rule bit_word_eqI)
  fix k assume "k < LENGTH('w)"
  then show "bit (horner_sum of_bool 2 (rev (byte_bits x)) :: 'w word) k = bit (ucast x :: 'w word) k"
    using bit_imp_le_length[of x k]
    by (auto simp: byte_bits_def rev_map bit_horner_sum_bit_iff bit_simps simp del: horner_sum_simps upt_rec_numeral)
qed

lemma reg_update_byte: "reg (update_byte s x) = (shift ^^ 8) (reg s XOR push_bit (LENGTH('w) - 8) (ucast x))"
proof -
  let ?n = "LENGTH('w)" and ?v = "reg s"
  let ?hi = "push_bit (?n - 8) (drop_bit (?n - 8) ?v)"
  have split: "?v = take_bit (?n - 8) ?v XOR ?hi"
    by (intro bit_word_eqI) (auto simp: bit_simps)
  have idx: "push_bit (?n - 8) (ucast ((ucast (drop_bit (?n - 8) ?v) :: u8) XOR x)) =
      ?hi XOR push_bit (?n - 8) (ucast x :: 'w word)"
    using width by (intro bit_word_eqI) (auto simp: bit_simps)
  have low: "(shift ^^ 8) (take_bit (?n - 8) ?v) = push_bit 8 ?v"
  proof -
    have "(shift ^^ 8) (take_bit (?n - 8) ?v) = push_bit 8 (take_bit (?n - 8) ?v)"
      using width by (intro shift_pow_low) (auto simp: bit_simps)
    also have "\<dots> = push_bit 8 ?v"
      using width by (intro bit_word_eqI) (auto simp: bit_simps)
    finally show ?thesis .
  qed
  have "(shift ^^ 8) (?v XOR push_bit (?n - 8) (ucast x)) =
      (shift ^^ 8) (take_bit (?n - 8) ?v XOR (?hi XOR push_bit (?n - 8) (ucast x)))"
    using split by (metis xor.assoc)
  also have "\<dots> = push_bit 8 ?v XOR (shift ^^ 8) (?hi XOR push_bit (?n - 8) (ucast x))"
    by (simp only: shift_pow_xor[of 8 "take_bit (?n - 8) ?v"] low)
  finally show ?thesis by (simp only: byte_law idx)
qed

text \<open>The table step is eight bit steps, most significant bit first.\<close>

lemma byte_as_bits: "update_byte s x = foldl update_bit s (byte_bits x)"
proof (rule reg_inject)
  have "length (byte_bits x) = 8" by (simp add: byte_bits_def)
  then show "reg (update_byte s x) = reg (foldl update_bit s (byte_bits x))"
    using width by (simp add: reg_bits[where k = 8] byte_horner reg_update_byte)
qed

lemma bytes_as_bits: "foldl update_byte s bs = foldl update_bit s (concat (map byte_bits bs))"
  by (induction bs arbitrary: s) (simp_all add: byte_as_bits)

lemma reg_bytes:
  assumes "8 * length bs \<le> LENGTH('w)"
  shows "reg (foldl update_byte s bs) =
    (shift ^^ (8 * length bs)) (reg s XOR push_bit (LENGTH('w) - 8 * length bs)
       (horner_sum of_bool 2 (rev (concat (map byte_bits bs)))))"
proof -
  have "length (concat (map byte_bits bs)) = 8 * length bs"
    by (induction bs) (simp_all add: byte_bits_def)
  then show ?thesis using assms by (simp add: bytes_as_bits reg_bits[where k = "8 * length bs"])
qed

lemma update_byte_inject:
  assumes "update_byte s x = update_byte t x"
  shows "s = t"
proof (rule reg_inject)
  have "(shift ^^ 8) (reg s XOR push_bit (LENGTH('w) - 8) (ucast x)) =
      (shift ^^ 8) (reg t XOR push_bit (LENGTH('w) - 8) (ucast x))"
    using assms by (simp only: reg_update_byte[symmetric])
  from shift_pow_inject[OF this] show "reg s = reg t" by (simp only: xor_right_cancel_iff)
qed

lemma update_bytes_inject: "foldl update_byte s bs = foldl update_byte t bs \<Longrightarrow> s = t"
  by (induction bs arbitrary: s t) (auto dest: update_byte_inject)

lemma byte_bits_inject: "byte_bits x = byte_bits y \<Longrightarrow> x = y"
proof (rule bit_word_eqI)
  fix k assume "byte_bits x = byte_bits y" "k < LENGTH(8)"
  then show "bit x k = bit y k"
    by (auto simp: byte_bits_def map_eq_conv)
qed

lemma bits_inject:
  assumes "length xs = length ys" "concat (map byte_bits xs) = concat (map byte_bits ys)"
  shows "xs = ys"
  using assms
proof (induction xs ys rule: list_induct2)
  case (Cons x xs y ys)
  have "byte_bits x @ concat (map byte_bits xs) = byte_bits y @ concat (map byte_bits ys)"
    using Cons.prems by simp
  moreover have "length (byte_bits x) = length (byte_bits y)" by (simp add: byte_bits_def)
  ultimately show ?case using Cons.IH byte_bits_inject by auto
qed simp

text \<open>Two messages that differ only in a window no longer than the register have different
  checksums: every such burst error is detected.\<close>

lemma burst_detected:
  assumes len: "length xs = length ys" "8 * length xs \<le> LENGTH('w)" and diff: "xs \<noteq> ys"
  shows "foldl update_byte s (pre @ xs @ post) \<noteq> foldl update_byte s (pre @ ys @ post)"
proof
  let ?t = "foldl update_byte s pre" and ?k = "8 * length xs"
  let ?bits = "\<lambda>bs. concat (map byte_bits bs)"
  let ?H = "\<lambda>bs. horner_sum of_bool 2 (rev (?bits bs)) :: 'w word"
  assume "foldl update_byte s (pre @ xs @ post) = foldl update_byte s (pre @ ys @ post)"
  then have "foldl update_byte ?t xs = foldl update_byte ?t ys"
    by (auto dest: update_bytes_inject)
  then have "reg (foldl update_byte ?t xs) = reg (foldl update_byte ?t ys)" by simp
  then have "(shift ^^ ?k) (reg ?t XOR push_bit (LENGTH('w) - ?k) (?H xs)) =
      (shift ^^ ?k) (reg ?t XOR push_bit (LENGTH('w) - ?k) (?H ys))"
    using len by (simp only: reg_bytes)
  from shift_pow_inject[OF this]
  have eq: "push_bit (LENGTH('w) - ?k) (?H xs) = push_bit (LENGTH('w) - ?k) (?H ys)"
    by (simp only: xor_left_cancel_iff)
  have l: "length (?bits bs) = 8 * length bs" for bs
    by (induction bs) (simp_all add: byte_bits_def)
  have "rev (?bits xs) ! i = rev (?bits ys) ! i" if "i < ?k" for i
  proof -
    have "bit (push_bit (LENGTH('w) - ?k) (?H bs)) (LENGTH('w) - ?k + i) \<longleftrightarrow> rev (?bits bs) ! i"
      if "length bs = length xs" for bs
      using that \<open>i < ?k\<close> len(2) by (auto simp: bit_simps bit_horner_sum_bit_iff l)
    then show ?thesis using eq len(1) by metis
  qed
  then have "rev (?bits xs) = rev (?bits ys)" using len l by (intro nth_equalityI) auto
  then show False using bits_inject[OF len(1)] diff by simp
qed

end

section \<open>Both checksums are instances\<close>

lemma crc8_msb: "v AND 0x80 \<noteq> 0 \<longleftrightarrow> bit v 7" for v :: u8
  using and_exp_eq_0_iff_not_bit[of v 7] by simp

lemma crc32_msb: "v AND 0x80000000 \<noteq> 0 \<longleftrightarrow> bit v 31" for v :: u32
  using and_exp_eq_0_iff_not_bit[of v 31] by simp

lemma crc8_table_nth: "make_crc8_table ! unat x = (crc8_shift ^^ 8) x" for x :: u8
  by (simp add: make_crc8_table_def del: upt_rec_numeral)

lemma crc32_table_nth: "make_crc32_table ! unat x = (crc32_shift ^^ 8) (push_bit 24 (ucast x))" for x :: u8
  by (simp add: make_crc32_table_def del: upt_rec_numeral)

interpretation crc8: crc_engine "0x07 :: u8" crc8_value crc8_update_bit crc8_update_byte crc8_shift
proof
  show "s = t" if "crc8_value s = crc8_value t" for s t :: Crc8
    using that by (cases s; cases t) simp
  show "crc8_shift v = (if bit v (LENGTH(8) - 1) then push_bit 1 v XOR 7 else push_bit 1 v)" for v
    by (simp add: crc8_shift_def crc8_msb)
  show "crc8_value (crc8_update_bit s b) =
      (if bit (crc8_value s) (LENGTH(8) - 1) \<noteq> b then push_bit 1 (crc8_value s) XOR 7
       else push_bit 1 (crc8_value s))" for s :: Crc8 and b
    by (simp add: crc8_update_bit_def Let_def crc8_msb)
  have "push_bit 8 v = 0" for v :: u8
    by (rule bit_word_eqI) (simp add: bit_simps)
  then show "crc8_value (crc8_update_byte s x) = push_bit 8 (crc8_value s) XOR
      (crc8_shift ^^ 8) (push_bit (LENGTH(8) - 8)
        (ucast ((ucast (drop_bit (LENGTH(8) - 8) (crc8_value s)) :: u8) XOR x)))" for s :: Crc8 and x
    by (simp add: crc8_update_byte_def crc8_table_nth)
qed simp_all

interpretation crc32: crc_engine "0x04c11db7 :: u32" crc32_value crc32_update_bit crc32_update_byte crc32_shift
proof
  show "s = t" if "crc32_value s = crc32_value t" for s t :: Crc32
    using that by (cases s; cases t) simp
  show "crc32_shift v = (if bit v (LENGTH(32) - 1) then push_bit 1 v XOR 0x04c11db7 else push_bit 1 v)" for v
    by (simp add: crc32_shift_def crc32_msb)
  show "crc32_value (crc32_update_bit s b) =
      (if bit (crc32_value s) (LENGTH(32) - 1) \<noteq> b then push_bit 1 (crc32_value s) XOR 0x04c11db7
       else push_bit 1 (crc32_value s))" for s :: Crc32 and b
    by (simp add: crc32_update_bit_def Let_def crc32_msb)
  show "crc32_value (crc32_update_byte s x) = push_bit 8 (crc32_value s) XOR
      (crc32_shift ^^ 8) (push_bit (LENGTH(32) - 8)
        (ucast ((ucast (drop_bit (LENGTH(32) - 8) (crc32_value s)) :: u8) XOR x)))" for s :: Crc32 and x
    by (simp add: crc32_update_byte_def Let_def crc32_table_nth)
qed simp_all

text \<open>The table is not rebuilt when a checksum is evaluated: one entry is eight shifts.\<close>

lemma crc8_update_byte_code [code]:
  "crc8_update_byte c b = c\<lparr>crc8_value := (crc8_shift ^^ 8) (crc8_value c XOR b)\<rparr>"
  by (simp add: crc8_update_byte_def crc8_table_nth)

lemma crc32_update_byte_code [code]:
  "crc32_update_byte c b = c\<lparr>crc32_value := push_bit 8 (crc32_value c) XOR
     (crc32_shift ^^ 8) (push_bit 24 (ucast ((ucast (drop_bit 24 (crc32_value c)) :: u8) XOR b)))\<rparr>"
  by (simp add: crc32_update_byte_def Let_def crc32_table_nth)

lemma crc8_update_append: "crc8_update_bytes c (xs @ ys) = crc8_update_bytes (crc8_update_bytes c xs) ys"
  by (simp add: crc8_update_bytes_def)

lemma crc32_update_append: "crc32_update_bytes c (xs @ ys) = crc32_update_bytes (crc32_update_bytes c xs) ys"
  by (simp add: crc32_update_bytes_def)

lemma crc8_update_concat: "foldl crc8_update_bytes c spans = crc8_update_bytes c (concat spans)"
  by (induction spans arbitrary: c) (simp_all add: crc8_update_bytes_def)

lemma crc32_update_concat: "foldl crc32_update_bytes c spans = crc32_update_bytes c (concat spans)"
  by (induction spans arbitrary: c) (simp_all add: crc32_update_bytes_def)

section \<open>Properties\<close>

text \<open>The bit-serial reference the unit tests compare with: every bit of every byte through the
  shift register, most significant first.\<close>

definition slow_crc32 :: "bytes \<Rightarrow> u32" where
  "slow_crc32 bs = crc32_finalize (foldl crc32_update_bit crc32_new (concat (map byte_bits bs)))"

definition slow_crc8 :: "bytes \<Rightarrow> u8" where
  "slow_crc8 bs = crc8_finalize (foldl crc8_update_bit crc8_new (concat (map byte_bits bs)))"

text \<open>C16. The table-driven CRC-32 over any sequence of discontiguous spans is the bit-serial CRC-32
  of their concatenation: neither the generated table nor the chunking changes the checksum.\<close>

theorem crc32_spans_bitwise:
  "crc32_finalize (foldl crc32_update_bytes crc32_new spans) = slow_crc32 (concat spans)"
  by (simp add: crc32_update_concat slow_crc32_def crc32_update_bytes_def crc32.bytes_as_bits)

text \<open>C27. Any burst of corruption confined to four consecutive bytes changes the CRC-32, wherever it
  is in the message.\<close>

theorem crc32_burst_detected:
  assumes "length xs = length ys" "length xs \<le> 4" "xs \<noteq> ys"
  shows "crc32_gnet (pre @ xs @ post) \<noteq> crc32_gnet (pre @ ys @ post)"
proof -
  have "foldl crc32_update_byte crc32_new (pre @ xs @ post) \<noteq> foldl crc32_update_byte crc32_new (pre @ ys @ post)"
    using assms by (intro crc32.burst_detected) auto
  then have "crc32_value (foldl crc32_update_byte crc32_new (pre @ xs @ post)) \<noteq>
      crc32_value (foldl crc32_update_byte crc32_new (pre @ ys @ post))"
    using crc32.reg_inject by blast
  then show ?thesis
    by (simp only: crc32_gnet_def crc32_finalize_def crc32_update_bytes_def xor_right_cancel_iff not_False_eq_True)
qed

theorem crc32_burst_detected_witness:
  "crc32_gnet ([1, 2] @ [3, 4, 5, 6] @ [7]) \<noteq> crc32_gnet ([1, 2] @ [3, 4, 5, 7] @ [7])"
  by (rule crc32_burst_detected) simp_all

lemma crc8_byte_detected:
  assumes "x \<noteq> y"
  shows "crc8_gnet (pre @ x # post) \<noteq> crc8_gnet (pre @ y # post)"
proof -
  have "foldl crc8_update_byte crc8_new (pre @ [x] @ post) \<noteq> foldl crc8_update_byte crc8_new (pre @ [y] @ post)"
    using assms by (intro crc8.burst_detected) auto
  then show ?thesis
    using crc8.reg_inject by (auto simp: crc8_gnet_def crc8_finalize_def crc8_update_bytes_def)
qed

lemma crc8_bitwise: "crc8_gnet bs = slow_crc8 bs"
  by (simp add: crc8_gnet_def slow_crc8_def crc8_update_bytes_def crc8.bytes_as_bits)

text \<open>Feeding the low bits of an integer is feeding its big-endian bytes.\<close>

lemma byte_bits_to_be: "concat (map byte_bits (to_be n v)) = map (bit v) (rev [0..<8 * n])" for v :: "'a::len word"
proof (induction n)
  case (Suc n)
  have "byte_bits (ucast (drop_bit (8 * n) v)) = map (bit v) (rev [8 * n..<8 * n + 8])"
    by (rule nth_equalityI) (auto simp: byte_bits_def rev_nth bit_simps simp del: upt_rec_numeral)
  moreover have "[0..<8 * Suc n] = [0..<8 * n] @ [8 * n..<8 * n + 8]"
    by (metis add.commute le_add_same_cancel1 mult_Suc_right upt_add_eq_append zero_le)
  ultimately show ?case using Suc by simp
qed simp

lemma crc8_update_bits_eq:
  "bits \<le> 64 \<Longrightarrow> crc8_update_bits c v bits = Ok (foldl crc8_update_bit c (map (bit v) (rev [0..<bits])))"
  by (simp add: crc8_update_bits_def drop_bit_and_1_iff foldl_map)

lemma crc8_update_bits_bytes:
  "n \<le> 8 \<Longrightarrow> crc8_update_bits c v (8 * n) = Ok (crc8_update_bytes c (to_be n v))"
  by (simp only: crc8_update_bits_eq crc8_update_bytes_def crc8.bytes_as_bits byte_bits_to_be)

end
