(* ===== verification/Crc_Vectors.thy ===== *)
theory Crc_Vectors
  imports Crc
begin

text \<open>
  The check values of the unit tests of src/src/wire/crc.rs, evaluated on the model: they pin the
  polynomials, the initial values and the bit order.
\<close>

lemma crc8_check_value: "crc8_gnet [0x31, 0x32, 0x33, 0x34, 0x35, 0x36, 0x37, 0x38, 0x39] = 0xF4"
  by code_simp

lemma crc32_check_value: "crc32_gnet [0x31, 0x32, 0x33, 0x34, 0x35, 0x36, 0x37, 0x38, 0x39] = 0xFC891918"
  by code_simp

end
