(* ===== verification/Css.thy ===== *)
theory Css
  imports Gnet_Prelude
begin

text \<open>
  Service selectors, src/src/wire/css.rs: a 16-byte selector travels in its canonical form, which is a
  registered one-byte code, a four-character short name or all sixteen bytes. The lemmas show that the
  canonical encoding round-trips, that the decoder accepts canonical encodings only, and that it never
  panics.
\<close>

section \<open>Definitions\<close>

text \<open>The arrays \<open>[u8; 16]\<close> and \<open>[u8; 4]\<close> are byte lists; \<open>selector_array\<close> states the length their type
  carries.\<close>

datatype ServiceSelector = ServiceSelector bytes

primrec selector_bytes :: "ServiceSelector \<Rightarrow> bytes" where
  "selector_bytes (ServiceSelector v) = v"

datatype CssWire = CssRegistered u8 | CssShort bytes | CssFull bytes

definition is_ascii_uppercase :: "u8 \<Rightarrow> bool" where
  "is_ascii_uppercase b \<longleftrightarrow> 0x41 \<le> b \<and> b \<le> 0x5a"

definition is_ascii_digit :: "u8 \<Rightarrow> bool" where
  "is_ascii_digit b \<longleftrightarrow> 0x30 \<le> b \<and> b \<le> 0x39"

definition valid_short :: "bytes \<Rightarrow> bool" where
  "valid_short bs = list_all (\<lambda>b. is_ascii_uppercase b \<or> is_ascii_digit b) bs"

definition FILE :: bytes where
  "FILE = [0x46, 0x49, 0x4c, 0x45]"

definition GRPC :: bytes where
  "GRPC = [0x47, 0x52, 0x50, 0x43]"

definition registered_to_short :: "u8 \<Rightarrow> bytes option" where
  "registered_to_short code = (if code = 1 then Some FILE else if code = 2 then Some GRPC else None)"

definition short_to_registered :: "bytes \<Rightarrow> u8 option" where
  "short_to_registered v = (if v = FILE then Some 1 else if v = GRPC then Some 2 else None)"

definition selector_zero :: ServiceSelector where
  "selector_zero = ServiceSelector (replicate 16 0)"

definition short_raw :: "bytes \<Rightarrow> ServiceSelector result" where
  "short_raw v = (if \<not> valid_short v then Err InvalidField
     else rbind (copy_at (replicate 16 0) 0 v) (\<lambda>x. Ok (ServiceSelector x)))"

definition selector_registered :: "u8 \<Rightarrow> ServiceSelector result" where
  "selector_registered code = rbind (ok_or (registered_to_short code) InvalidField) short_raw"

definition selector_short :: "bytes \<Rightarrow> ServiceSelector result" where
  "selector_short v = (if short_to_registered v \<noteq> None then Err NonCanonical else short_raw v)"

definition selector_full :: "bytes \<Rightarrow> ServiceSelector result" where
  "selector_full v =
    (if v = replicate 16 0 then Err InvalidField
     else rbind (slice v 4 (length v)) (\<lambda>tl. rbind (slice v 0 4) (\<lambda>a.
       if list_all (\<lambda>b. b = 0) tl \<and> valid_short a then Err NonCanonical else Ok (ServiceSelector v))))"

definition canonical_wire :: "ServiceSelector \<Rightarrow> CssWire result" where
  "canonical_wire s =
    (let v = selector_bytes s in
     if v = replicate 16 0 then Err InvalidField
     else rbind (slice v 4 (length v)) (\<lambda>tl. rbind (slice v 0 4) (\<lambda>a.
       if list_all (\<lambda>b. b = 0) tl \<and> valid_short a
       then (case short_to_registered a of Some c \<Rightarrow> Ok (CssRegistered c) | None \<Rightarrow> Ok (CssShort a))
       else Ok (CssFull v))))"

primrec css_need :: "CssWire \<Rightarrow> nat" where
  "css_need (CssRegistered c) = 2"
| "css_need (CssShort s) = 5"
| "css_need (CssFull v) = 17"

definition css_encoded_len :: "ServiceSelector \<Rightarrow> nat result" where
  "css_encoded_len s = rbind (canonical_wire s) (\<lambda>w. Ok (css_need w))"

definition css_encode_into :: "ServiceSelector \<Rightarrow> bytes \<Rightarrow> (bytes \<times> nat) result" where
  "css_encode_into s out =
    rbind (canonical_wire s) (\<lambda>wire.
      let need = css_need wire in
      if length out < need then Err BufferFull
      else rbind (case wire of
          CssRegistered c \<Rightarrow> copy_at out 0 [0, c]
        | CssShort v \<Rightarrow> rbind (copy_at out 0 [0x40]) (\<lambda>out. copy_at out 1 v)
        | CssFull v \<Rightarrow> rbind (copy_at out 0 [0x80]) (\<lambda>out. copy_at out 1 v))
      (\<lambda>out. Ok (out, need)))"

definition css_encode :: "ServiceSelector \<Rightarrow> bytes result" where
  "css_encode s =
    rbind (css_encoded_len s) (\<lambda>n.
    rbind (css_encode_into s (replicate n 0)) (\<lambda>(out, m). Ok (take m out)))"

definition css_decode :: "bytes \<Rightarrow> (ServiceSelector \<times> nat) result" where
  "css_decode buf =
    (if buf = [] then Err InvalidLength
     else rbind (idx buf 0) (\<lambda>b0.
       if b0 AND 0x3f \<noteq> 0 then Err InvalidField
       else if drop_bit 6 b0 = 0 then
         (if length buf < 2 then Err InvalidLength
          else rbind (idx buf 1) (\<lambda>c. rbind (selector_registered c) (\<lambda>s. Ok (s, 2))))
       else if drop_bit 6 b0 = 1 then
         (if length buf < 5 then Err InvalidLength
          else rbind (slice buf 1 5) (\<lambda>v.
            if short_to_registered v \<noteq> None then Err NonCanonical
            else rbind (selector_short v) (\<lambda>s. Ok (s, 5))))
       else if drop_bit 6 b0 = 2 then
         (if length buf < 17 then Err InvalidLength
          else rbind (slice buf 1 17) (\<lambda>v. rbind (selector_full v) (\<lambda>s. Ok (s, 17))))
       else Err InvalidField))"

section \<open>Canonical forms\<close>

definition selector_array :: "ServiceSelector \<Rightarrow> bool" where
  "selector_array s \<longleftrightarrow> length (selector_bytes s) = 16"

text \<open>The bytes of the canonical form.\<close>

primrec css_wire_bytes :: "CssWire \<Rightarrow> bytes" where
  "css_wire_bytes (CssRegistered c) = [0, c]"
| "css_wire_bytes (CssShort v) = 0x40 # v"
| "css_wire_bytes (CssFull v) = 0x80 # v"

lemma short_to_registered_inverse:
  "short_to_registered v = Some c \<longleftrightarrow> registered_to_short c = Some v"
  by (auto simp: short_to_registered_def registered_to_short_def FILE_def GRPC_def)

lemma registered_short_valid: "registered_to_short c = Some v \<Longrightarrow> valid_short v \<and> length v = 4"
  by (auto simp: registered_to_short_def FILE_def GRPC_def valid_short_def is_ascii_uppercase_def split: if_splits)

lemma zero_not_short: "valid_short v \<Longrightarrow> v \<noteq> [] \<Longrightarrow> v @ w \<noteq> replicate n 0"
  by (cases v; cases n) (auto simp: valid_short_def is_ascii_uppercase_def is_ascii_digit_def)

lemma short_raw_Ok:
  assumes "length v = 4"
  shows "short_raw v = (if valid_short v then Ok (ServiceSelector (v @ replicate 12 0)) else Err InvalidField)"
  using assms by (simp add: short_raw_def)

lemma canonical_wire_cases:
  assumes "selector_array s"
  obtains "selector_bytes s = replicate 16 0" "canonical_wire s = Err InvalidField"
  | v c where "selector_bytes s = v @ replicate 12 0" "length v = 4" "valid_short v"
      "registered_to_short c = Some v" "canonical_wire s = Ok (CssRegistered c)"
  | v where "selector_bytes s = v @ replicate 12 0" "length v = 4" "valid_short v"
      "short_to_registered v = None" "canonical_wire s = Ok (CssShort v)"
  | v where "selector_bytes s = v" "length v = 16" "v \<noteq> replicate 16 0"
      "\<not> (list_all (\<lambda>b. b = 0) (drop 4 v) \<and> valid_short (take 4 v))" "canonical_wire s = Ok (CssFull v)"
proof -
  let ?v = "selector_bytes s"
  have len: "length ?v = 16" using assms by (simp add: selector_array_def)
  have split: "?v = take 4 ?v @ replicate 12 0" if "list_all (\<lambda>b. b = 0) (drop 4 ?v)"
  proof -
    have "drop 4 ?v = replicate 12 0"
      using that len by (intro replicate_eqI) (auto simp: list_all_iff)
    then show ?thesis by (metis append_take_drop_id)
  qed
  consider (zero) "?v = replicate 16 0" | (full) "?v \<noteq> replicate 16 0"
      "\<not> (list_all (\<lambda>b. b = 0) (drop 4 ?v) \<and> valid_short (take 4 ?v))"
    | (short) "?v \<noteq> replicate 16 0" "list_all (\<lambda>b. b = 0) (drop 4 ?v)" "valid_short (take 4 ?v)"
    by blast
  then show thesis
  proof cases
    case zero
    then show thesis using that(1) by (simp add: canonical_wire_def)
  next
    case full
    then have "canonical_wire s = Ok (CssFull ?v)" using len by (auto simp: canonical_wire_def Let_def)
    then show thesis using that(4)[of ?v] len full by blast
  next
    case short
    then show thesis using that(2)[of "take 4 ?v"] that(3)[of "take 4 ?v"] len split
      by (cases "short_to_registered (take 4 ?v)")
         (simp_all add: canonical_wire_def flip: short_to_registered_inverse)
  qed
qed

lemma css_encode_eq:
  assumes "selector_array s" "selector_bytes s \<noteq> replicate 16 0"
  shows "\<exists>w. canonical_wire s = Ok w \<and> css_encode s = Ok (css_wire_bytes w) \<and> length (css_wire_bytes w) = css_need w"
  using assms(1)
  by (cases rule: canonical_wire_cases)
     (use assms(2) in \<open>auto simp: css_encode_def css_encoded_len_def css_encode_into_def\<close>)

lemma css_decode_wire:
  assumes "selector_array s" "canonical_wire s = Ok w"
  shows "css_decode (css_wire_bytes w @ rest) = Ok (s, css_need w)"
  using assms(1)
proof (cases rule: canonical_wire_cases)
  case 1
  then show ?thesis using assms(2) by simp
next
  case (2 v c)
  then have "selector_registered c = Ok s"
    by (cases s) (simp add: selector_registered_def short_raw_Ok)
  then show ?thesis using 2 assms(2) by (simp add: css_decode_def)
next
  case (3 v)
  then have "selector_short v = Ok s"
    by (cases s) (simp add: selector_short_def short_raw_Ok)
  then show ?thesis using 3 assms(2) by (simp add: css_decode_def)
next
  case (4 v)
  then have "selector_full v = Ok s"
    by (cases s) (auto simp: selector_full_def)
  then show ?thesis using 4 assms(2) by (simp add: css_decode_def)
qed

lemma css_tag:
  assumes "b AND 0x3f = (0 :: u8)"
  shows "b = push_bit 6 (drop_bit 6 b)"
proof -
  have "b = (b AND 0x3f) OR push_bit 6 (drop_bit 6 b)"
    unfolding and_mask_take_bit 
    by (rule bit_word_eqI) (auto simp: bit_simps, metis le_add_diff_inverse not_less)
  then show ?thesis using assms by simp
qed

lemma css_decode_Ok_cases:
  assumes "css_decode buf = Ok (s, n)"
  obtains c v where "2 \<le> length buf" "buf ! 0 = 0" "buf ! 1 = c" "n = 2" "registered_to_short c = Some v"
      "s = ServiceSelector (v @ replicate 12 0)" "length v = 4" "valid_short v"
  | v where "5 \<le> length buf" "buf ! 0 = 0x40" "v = take 4 (drop 1 buf)" "n = 5" "short_to_registered v = None"
      "valid_short v" "s = ServiceSelector (v @ replicate 12 0)"
  | v where "17 \<le> length buf" "buf ! 0 = 0x80" "v = take 16 (drop 1 buf)" "n = 17" "v \<noteq> replicate 16 0"
      "\<not> (list_all (\<lambda>b. b = 0) (drop 4 v) \<and> valid_short (take 4 v))" "s = ServiceSelector v"
proof -
  have ne: "buf \<noteq> []" and tag: "buf ! 0 AND 0x3f = 0" using assms by (auto simp: css_decode_def split: if_splits)
  note t = css_tag[OF tag]
  consider "drop_bit 6 (buf ! 0) = 0" | "drop_bit 6 (buf ! 0) = 1" | "drop_bit 6 (buf ! 0) = 2"
    using assms ne tag by (auto simp: css_decode_def split: if_splits)
  then show thesis
  proof cases
    case 1
    then obtain v where v: "registered_to_short (buf ! 1) = Some v" and r: "short_raw v = Ok s" "n = 2" "2 \<le> length buf"
      using assms ne tag by (auto simp: css_decode_def selector_registered_def result_simps split: if_splits)
    then show thesis using that(1)[of "buf ! 1" v] 1 t registered_short_valid[OF v]
      by (simp add: short_raw_Ok)
  next
    case 2
    then show thesis using assms ne tag t that(2)[of "take 4 (drop 1 buf)"]
      by (auto simp: css_decode_def selector_short_def result_simps short_raw_Ok split: if_splits)
  next
    case 3
    then show thesis using assms ne tag t that(3)[of "take 16 (drop 1 buf)"]
      by (auto simp: css_decode_def selector_full_def result_simps split: if_splits)
  qed
qed

lemma list_head_take: "0 < n \<Longrightarrow> n \<le> length xs \<Longrightarrow> take n xs = xs ! 0 # take (n - 1) (drop 1 xs)"
  by (cases xs; cases n) auto

lemma css_decode_canonical_form:
  assumes "css_decode buf = Ok (s, n)"
  shows "selector_array s" "n \<le> length buf" "\<exists>w. canonical_wire s = Ok w \<and> css_wire_bytes w = take n buf \<and> n = css_need w"
proof -
  have "selector_array s \<and> n \<le> length buf \<and> (\<exists>w. canonical_wire s = Ok w \<and> css_wire_bytes w = take n buf \<and> n = css_need w)"
    using assms
  proof (cases rule: css_decode_Ok_cases)
    case (1 c v)
    moreover from this have "v @ replicate 12 0 \<noteq> replicate 16 0"
      by (intro zero_not_short) auto
    ultimately have "canonical_wire s = Ok (CssRegistered c)"
      by (auto simp: canonical_wire_def Let_def list_all_iff simp flip: short_to_registered_inverse)
    moreover have "take 2 buf = [0, c]" using 1 list_head_take[of 2 buf] by (simp add: take_Suc_conv_app_nth)
    ultimately show ?thesis using 1 by (simp add: selector_array_def)
  next
    case (2 v)
    then have "canonical_wire s = Ok (CssShort v)"
      using zero_not_short[of v] by (auto simp: canonical_wire_def list_all_iff)
    then show ?thesis using 2 list_head_take[of 5 buf] by (simp add: selector_array_def)
  next
    case (3 v)
    then have "canonical_wire s = Ok (CssFull v)" by (auto simp: canonical_wire_def Let_def)
    then show ?thesis using 3 list_head_take[of 17 buf] by (simp add: selector_array_def)
  qed
  then show "selector_array s" "n \<le> length buf" "\<exists>w. canonical_wire s = Ok w \<and> css_wire_bytes w = take n buf \<and> n = css_need w"
    by auto
qed

lemma css_decode_no_panic: "css_decode buf \<noteq> Panic"
proof -
  have "selector_registered c \<noteq> Panic" for c
    by (auto simp: selector_registered_def result_simps short_raw_def ok_or_eq dest: registered_short_valid)
  then show ?thesis
    by (auto simp: css_decode_def result_simps selector_short_def selector_full_def short_raw_def)
qed

section \<open>Properties\<close>

text \<open>Every selector but the all-zero one encodes, and decoding its encoding, whatever follows it in the
  buffer, gives the selector back and consumes exactly the bytes written.\<close>

theorem css_roundtrip:
  assumes "selector_array s" "selector_bytes s \<noteq> replicate 16 0"
  shows "\<exists>bs. css_encode s = Ok bs \<and> css_decode (bs @ rest) = Ok (s, length bs)"
  using css_encode_eq[OF assms] css_decode_wire[OF assms(1)] by auto

theorem css_roundtrip_witness:
  "\<exists>bs. css_encode (ServiceSelector (GRPC @ replicate 12 0)) = Ok bs \<and>
    css_decode (bs @ [7]) = Ok (ServiceSelector (GRPC @ replicate 12 0), length bs)"
proof (rule css_roundtrip)
  show "selector_array (ServiceSelector (GRPC @ replicate 12 0))" by (simp add: selector_array_def GRPC_def)
  have "valid_short GRPC" "GRPC \<noteq> []" by (simp_all add: GRPC_def valid_short_def is_ascii_uppercase_def)
  then show "selector_bytes (ServiceSelector (GRPC @ replicate 12 0)) \<noteq> replicate 16 0"
    using zero_not_short by simp
qed

text \<open>Encodings are canonical: the decoder never panics, and whenever it accepts a prefix of a buffer that
  prefix is the one encoding of the selector it returns, so no selector has two accepted wire forms.\<close>

theorem css_decode_canonical:
  "css_decode buf \<noteq> Panic \<and>
   (\<forall>s n. css_decode buf = Ok (s, n) \<longrightarrow> n \<le> length buf \<and> css_encode s = Ok (take n buf))"
proof (intro conjI allI impI)
  show "css_decode buf \<noteq> Panic" by (rule css_decode_no_panic)
next
  fix s n assume d: "css_decode buf = Ok (s, n)"
  note c = css_decode_canonical_form[OF d]
  show "n \<le> length buf" by (rule c)
  have "selector_bytes s \<noteq> replicate 16 0" using c(3) by (auto simp: canonical_wire_def)
  then show "css_encode s = Ok (take n buf)" using css_encode_eq[OF c(1)] c(3) by auto
qed

theorem css_decode_canonical_witness:
  "css_decode [0, 1, 9] = Ok (ServiceSelector (FILE @ replicate 12 0), 2) \<and>
   css_encode (ServiceSelector (FILE @ replicate 12 0)) = Ok [0, 1]"
proof -
  have "css_decode [0, 1, 9] = Ok (ServiceSelector (FILE @ replicate 12 0), 2)"
    by (simp add: css_decode_def selector_registered_def registered_to_short_def short_raw_def FILE_def valid_short_def
        is_ascii_uppercase_def)
  then show ?thesis using css_decode_canonical[of "[0, 1, 9]"] by auto
qed

end
