(* ===== verification/Gdp.thy ===== *)
theory Gdp
  imports Crc
begin

text \<open>
  The GDP datagram header: src/src/wire/gdp_common.rs (types, size classes, address forms, the
  header checksum), src/src/wire/gdp_handwritten.rs (the header codec) and src/src/wire/gdp.rs
  (packets). The lemmas show that size class selection is minimal, that encoding and decoding
  are inverse on well-formed headers and packets, that decoding never panics and only yields
  well-formed headers, and what the checksum protects.
\<close>

section \<open>Types and size classes\<close>

type_synonym GdpAddress = u64

datatype GdpType = Gctl | Gts | Reserved u8

primrec gdp_type_to_wire :: "GdpType \<Rightarrow> u8" where
  "gdp_type_to_wire Gctl = 0x1"
| "gdp_type_to_wire Gts = 0x2"
| "gdp_type_to_wire (Reserved v) = v AND 0x0f"

definition gdp_type_from_wire :: "u8 \<Rightarrow> GdpType" where
  "gdp_type_from_wire v =
    (let x = v AND 0x0f in if x = 1 then Gctl else if x = 2 then Gts else Reserved x)"

datatype SizeClass =
    Empty | Tiny3 | Ctrl32 | Ctrl64 | Msg128 | Msg192 | Msg256 | Msg384
  | Medium512 | Medium768 | Bulk1K | Bulk1280 | Legacy1500 | Xmtu2K | Jumbo4K | Jumbo8K

definition size_class_all :: "SizeClass list" where
  "size_class_all = [Empty, Tiny3, Ctrl32, Ctrl64, Msg128, Msg192, Msg256, Msg384,
     Medium512, Medium768, Bulk1K, Bulk1280, Legacy1500, Xmtu2K, Jumbo4K, Jumbo8K]"

primrec size_class_index :: "SizeClass \<Rightarrow> nat" where
  "size_class_index Empty = 0"
| "size_class_index Tiny3 = 1"
| "size_class_index Ctrl32 = 2"
| "size_class_index Ctrl64 = 3"
| "size_class_index Msg128 = 4"
| "size_class_index Msg192 = 5"
| "size_class_index Msg256 = 6"
| "size_class_index Msg384 = 7"
| "size_class_index Medium512 = 8"
| "size_class_index Medium768 = 9"
| "size_class_index Bulk1K = 10"
| "size_class_index Bulk1280 = 11"
| "size_class_index Legacy1500 = 12"
| "size_class_index Xmtu2K = 13"
| "size_class_index Jumbo4K = 14"
| "size_class_index Jumbo8K = 15"

definition size_class_bytes :: "SizeClass \<Rightarrow> nat" where
  "size_class_bytes c =
    [0, 3, 32, 64, 128, 192, 256, 384, 512, 768, 1024, 1280, 1500, 2048, 4096, 8192] ! size_class_index c"

definition size_class_from_wire :: "u8 \<Rightarrow> SizeClass result" where
  "size_class_from_wire v =
    (let i = unat (v AND 0x0f)
     in ok_or (if i < length size_class_all then Some (size_class_all ! i) else None) InvalidSizeClass)"

definition smallest_for :: "nat \<Rightarrow> SizeClass option" where
  "smallest_for required = List.find (\<lambda>c. required \<le> size_class_bytes c) size_class_all"

section \<open>Addresses and headers\<close>

datatype AddressForm = FormGlobal | FormLocal

record GdpWireConfig =
  local_form_bit :: bool

definition gdp_wire_config_default :: GdpWireConfig where
  "gdp_wire_config_default = \<lparr>local_form_bit = True\<rparr>"

primrec form_bit :: "GdpWireConfig \<Rightarrow> AddressForm \<Rightarrow> bool" where
  "form_bit cfg FormLocal = local_form_bit cfg"
| "form_bit cfg FormGlobal = (\<not> local_form_bit cfg)"

definition form_from_bit :: "GdpWireConfig \<Rightarrow> bool \<Rightarrow> AddressForm" where
  "form_from_bit cfg b = (if b = local_form_bit cfg then FormLocal else FormGlobal)"

text \<open>\<open>AddrGlobal destination source\<close> and \<open>AddrLocal destination source prefix\<close>.\<close>

datatype GdpAddresses =
    AddrGlobal GdpAddress GdpAddress
  | AddrLocal u16 u16 u64

primrec gdp_form :: "GdpAddresses \<Rightarrow> AddressForm" where
  "gdp_form (AddrGlobal d s) = FormGlobal"
| "gdp_form (AddrLocal d s p) = FormLocal"

primrec effective_destination :: "GdpAddresses \<Rightarrow> GdpAddress" where
  "effective_destination (AddrGlobal d s) = d"
| "effective_destination (AddrLocal d s p) = (p AND NOT 0xffff) OR ucast d"

primrec effective_source :: "GdpAddresses \<Rightarrow> GdpAddress" where
  "effective_source (AddrGlobal d s) = s"
| "effective_source (AddrLocal d s p) = (p AND NOT 0xffff) OR ucast s"

record GdpHeader =
  gdp_version :: u8
  packet_type :: GdpType
  size_class :: SizeClass
  hop_limit :: u8
  addresses :: GdpAddresses

definition gdp_header_global ::
    "GdpType \<Rightarrow> SizeClass \<Rightarrow> u8 \<Rightarrow> GdpAddress \<Rightarrow> GdpAddress \<Rightarrow> GdpHeader" where
  "gdp_header_global ty sc hop source destination =
    \<lparr>gdp_version = 0, packet_type = ty, size_class = sc, hop_limit = hop,
     addresses = AddrGlobal destination source\<rparr>"

definition gdp_header_local ::
    "GdpType \<Rightarrow> SizeClass \<Rightarrow> u8 \<Rightarrow> u64 \<Rightarrow> u16 \<Rightarrow> u16 \<Rightarrow> GdpHeader result" where
  "gdp_header_local ty sc hop prefix source destination =
    (if 15 < hop then Err InvalidField
     else Ok \<lparr>gdp_version = 0, packet_type = ty, size_class = sc, hop_limit = hop,
       addresses = AddrLocal destination source (prefix AND NOT 0xffff)\<rparr>)"

definition header_len :: "GdpHeader \<Rightarrow> nat" where
  "header_len h = (case addresses h of AddrGlobal _ _ \<Rightarrow> 20 | AddrLocal _ _ _ \<Rightarrow> 8)"

definition gdp_source :: "GdpHeader \<Rightarrow> GdpAddress" where
  "gdp_source h = effective_source (addresses h)"

definition gdp_destination :: "GdpHeader \<Rightarrow> GdpAddress" where
  "gdp_destination h = effective_destination (addresses h)"

definition gdp_crc8 :: "GdpHeader \<Rightarrow> GdpWireConfig \<Rightarrow> u8 result" where
  "gdp_crc8 h cfg =
    rbind (crc8_update_bits crc8_new (ucast (gdp_version h AND 0x03)) 2) (\<lambda>c.
    rbind (crc8_update_bits c (ucast (gdp_type_to_wire (packet_type h))) 4) (\<lambda>c.
    rbind (crc8_update_bits c (of_nat (size_class_index (size_class h))) 4) (\<lambda>c.
    let c = crc8_update_bit c (form_bit cfg (gdp_form (addresses h))) in
    rbind (case addresses h of
        AddrGlobal d s \<Rightarrow> rbind (crc8_update_bits c d 64) (\<lambda>c. crc8_update_bits c s 64)
      | AddrLocal d s _ \<Rightarrow> rbind (crc8_update_bits c (ucast d) 16) (\<lambda>c. crc8_update_bits c (ucast s) 16)) (\<lambda>c.
    Ok (crc8_finalize c)))))"

section \<open>The header codec\<close>

definition gdp_word1 :: "GdpHeader \<Rightarrow> GdpWireConfig \<Rightarrow> u8 \<Rightarrow> u32" where
  "gdp_word1 h cfg crc =
    (let form = of_bool (form_bit cfg (gdp_form (addresses h)));
         hop = (case addresses h of AddrGlobal _ _ \<Rightarrow> ucast (hop_limit h)
                  | AddrLocal _ _ _ \<Rightarrow> ucast (hop_limit h AND 0x0f))
     in push_bit 30 (ucast (gdp_version h) AND 3)
        OR push_bit 26 (ucast (gdp_type_to_wire (packet_type h)) AND 0x0f)
        OR push_bit 22 (of_nat (size_class_index (size_class h)) AND 0x0f)
        OR push_bit 21 form OR push_bit 8 (ucast crc) OR hop)"

text \<open>The buffer \<open>out\<close> is returned with the length written; on an error nothing was written.\<close>

definition encode_header_into :: "GdpHeader \<Rightarrow> GdpWireConfig \<Rightarrow> bytes \<Rightarrow> (bytes \<times> nat) result" where
  "encode_header_into h cfg out =
    (if 3 < gdp_version h \<or> 15 < gdp_type_to_wire (packet_type h) then Err InvalidField
     else if gdp_form (addresses h) = FormLocal \<and> 15 < hop_limit h then Err InvalidField
     else let need = header_len h in
     if length out < need then Err BufferFull
     else rbind (gdp_crc8 h cfg) (\<lambda>crc.
       rbind (copy_at out 0 (to_be 4 (gdp_word1 h cfg crc))) (\<lambda>out.
       rbind (case addresses h of
           AddrGlobal d s \<Rightarrow>
             rbind (copy_at out 4 (to_be 8 d)) (\<lambda>out. copy_at out 12 (to_be 8 s))
         | AddrLocal d s _ \<Rightarrow>
             copy_at out 4 (to_be 4 (push_bit 16 (ucast d) OR ucast s :: u32))) (\<lambda>out.
       Ok (out, need)))))"

definition decode_header :: "bytes \<Rightarrow> GdpWireConfig \<Rightarrow> u64 \<Rightarrow> GdpHeader result" where
  "decode_header buf cfg local_prefix =
    (if length buf < 4 then Err InvalidLength
     else rbind (slice buf 0 4) (\<lambda>w4.
       let word = from_be w4 :: u32;
           ver = ucast (drop_bit 30 word AND 3);
           ty = gdp_type_from_wire (ucast (drop_bit 26 word AND 0x0f))
       in rbind (size_class_from_wire (ucast (drop_bit 22 word AND 0x0f))) (\<lambda>sc.
       let form = form_from_bit cfg (drop_bit 21 word AND 1 \<noteq> 0);
           received_crc = ucast (drop_bit 8 word AND 0xff) :: u8
       in rbind (case form of
           FormGlobal \<Rightarrow>
             if length buf < 20 then Err InvalidLength
             else rbind (slice buf 4 12) (\<lambda>d. rbind (slice buf 12 20) (\<lambda>s.
               Ok \<lparr>gdp_version = ver, packet_type = ty, size_class = sc,
                   hop_limit = ucast (word AND 0xff), addresses = AddrGlobal (from_be d) (from_be s)\<rparr>))
         | FormLocal \<Rightarrow>
             if length buf < 8 then Err InvalidLength
             else rbind (slice buf 4 8) (\<lambda>b.
               let ids = from_be b :: u32 in
               Ok \<lparr>gdp_version = ver, packet_type = ty, size_class = sc,
                   hop_limit = ucast (word AND 0x0f),
                   addresses = AddrLocal (ucast (drop_bit 16 ids)) (ucast ids) (local_prefix AND NOT 0xffff)\<rparr>))
       (\<lambda>header.
       rbind (gdp_crc8 header cfg) (\<lambda>crc.
       if crc \<noteq> received_crc then Err InvalidCrc else Ok header)))))"

definition gdp_header_encode :: "GdpHeader \<Rightarrow> GdpWireConfig \<Rightarrow> bytes result" where
  "gdp_header_encode h cfg =
    rbind (encode_header_into h cfg (replicate (header_len h) 0)) (\<lambda>(out, n). Ok out)"

section \<open>Packets\<close>

record GdpPacket =
  pkt_header :: GdpHeader
  pkt_payload :: bytes

definition gdp_packet_new :: "GdpHeader \<Rightarrow> bytes \<Rightarrow> GdpPacket result" where
  "gdp_packet_new h p =
    (if length p \<noteq> size_class_bytes (size_class h) then Err InvalidLength
     else Ok \<lparr>pkt_header = h, pkt_payload = p\<rparr>)"

definition gdp_packet_encode_into :: "GdpPacket \<Rightarrow> GdpWireConfig \<Rightarrow> bytes \<Rightarrow> (bytes \<times> nat) result" where
  "gdp_packet_encode_into p cfg out =
    (let total = header_len (pkt_header p) + length (pkt_payload p) in
     if length out < total then Err BufferFull
     else rbind (encode_header_into (pkt_header p) cfg out) (\<lambda>(out, hl).
       rbind (copy_at out hl (pkt_payload p)) (\<lambda>out. Ok (out, total))))"

definition gdp_packet_encode :: "GdpPacket \<Rightarrow> GdpWireConfig \<Rightarrow> bytes result" where
  "gdp_packet_encode p cfg =
    (let out = replicate (header_len (pkt_header p) + length (pkt_payload p)) 0 in
     rbind (gdp_packet_new (pkt_header p) (pkt_payload p)) (\<lambda>r.
     rbind (gdp_packet_encode_into r cfg out) (\<lambda>(out, n). Ok (take n out))))"

definition gdp_packet_decode :: "bytes \<Rightarrow> GdpWireConfig \<Rightarrow> u64 \<Rightarrow> GdpPacket result" where
  "gdp_packet_decode buf cfg local_prefix =
    rbind (decode_header buf cfg local_prefix) (\<lambda>h.
      let total = header_len h + size_class_bytes (size_class h) in
      if length buf \<noteq> total then Err InvalidLength
      else rbind (slice buf (header_len h) (length buf)) (\<lambda>p. Ok \<lparr>pkt_header = h, pkt_payload = p\<rparr>))"

section \<open>The header checksum\<close>

text \<open>The register after the eleven covered bits of the first word, and the address bytes that follow
  them.\<close>

definition gdp_crc_prefix :: "GdpHeader \<Rightarrow> GdpWireConfig \<Rightarrow> Crc8" where
  "gdp_crc_prefix h cfg = foldl crc8_update_bit crc8_new
    (map (bit (gdp_version h AND 3)) [1, 0] @
     map (bit (gdp_type_to_wire (packet_type h))) [3, 2, 1, 0] @
     map (bit (of_nat (size_class_index (size_class h)) :: u64)) [3, 2, 1, 0] @
     [form_bit cfg (gdp_form (addresses h))])"

primrec address_bytes :: "GdpAddresses \<Rightarrow> bytes" where
  "address_bytes (AddrGlobal d s) = to_be 8 d @ to_be 8 s"
| "address_bytes (AddrLocal d s p) = to_be 2 d @ to_be 2 s"

lemma to_be_ucast:
  assumes "8 * n \<le> LENGTH('a)" "LENGTH('a) \<le> 64"
  shows "to_be n (ucast (x :: 'a::len word) :: u64) = to_be n x"
  using assms by (induction n) (auto intro!: bit_word_eqI simp: bit_simps)

lemma gdp_crc8_eq:
  "gdp_crc8 h cfg = Ok (crc8_finalize (crc8_update_bytes (gdp_crc_prefix h cfg) (address_bytes (addresses h))))"
proof -
  have e: "rev [0..<2] = [1, 0 :: nat]" "rev [0..<4] = [3, 2, 1, 0 :: nat]"
    by (simp_all add: upt_conv_Cons)
  have b: "crc8_update_bits c v 64 = Ok (crc8_update_bytes c (to_be 8 v))"
    "crc8_update_bits c v 16 = Ok (crc8_update_bytes c (to_be 2 v))" for c v
    using crc8_update_bits_bytes[of 8 c v] crc8_update_bits_bytes[of 2 c v] by simp_all
  show ?thesis
    by (cases "addresses h")
       (simp_all add: gdp_crc8_def crc8_update_bits_eq e b crc8_update_append gdp_crc_prefix_def
          to_be_ucast bit_simps Let_def)
qed

section \<open>The fields of the first word\<close>

primrec gdp_type_wf :: "GdpType \<Rightarrow> bool" where
  "gdp_type_wf Gctl = True"
| "gdp_type_wf Gts = True"
| "gdp_type_wf (Reserved v) = (v \<le> 15 \<and> v \<noteq> 1 \<and> v \<noteq> 2)"

text \<open>A header the constructors and the decoder produce: the version and type fit their fields, the
  type is canonical, and a local header has a 4-bit hop limit and a prefix whose low 16 bits are
  clear.\<close>

definition gdp_header_wf :: "GdpHeader \<Rightarrow> bool" where
  "gdp_header_wf h \<longleftrightarrow> gdp_version h \<le> 3 \<and> gdp_type_wf (packet_type h) \<and>
    (case addresses h of AddrGlobal _ _ \<Rightarrow> True
       | AddrLocal _ _ p \<Rightarrow> hop_limit h \<le> 15 \<and> p AND NOT 0xffff = p)"

lemma u8_le_bit:
  fixes x :: u8
  shows "x \<le> 3 \<Longrightarrow> bit x k \<Longrightarrow> k < 2" and "x \<le> 15 \<Longrightarrow> bit x k \<Longrightarrow> k < 4"
  using bit_imp_less[of x k 2] bit_imp_less[of x k 4] by (auto simp: word_le_nat_alt)

lemma u8_and_mask_id:
  fixes x :: u8
  shows "x \<le> 3 \<Longrightarrow> x AND 3 = x" and "x \<le> 15 \<Longrightarrow> x AND 0x0f = x"
  by (auto intro!: bit_word_eqI simp: wire_simps bit_take_bit_iff dest: u8_le_bit)

lemma and_15_le: "x AND 0x0f \<le> (15 :: u8)"
  by (rule word_and_le1)

lemma size_class_index_less: "size_class_index c < 16"
  by (cases c) simp_all

lemma bit_size_class: "4 \<le> k \<Longrightarrow> \<not> bit (size_class_index c) k"
proof -
  assume "4 \<le> k"
  then have "2 ^ 4 \<le> (2 :: nat) ^ k" by (rule power_increasing) simp
  then have "size_class_index c < 2 ^ k" using size_class_index_less[of c] by simp
  then show ?thesis by (simp add: bit_iff_odd)
qed

lemma word1_fields:
  fixes h cfg crc
  defines "w \<equiv> gdp_word1 h cfg crc"
  shows "ucast (drop_bit 30 w AND 3) = gdp_version h AND 3"
    and "ucast (drop_bit 26 w AND 0x0f) = gdp_type_to_wire (packet_type h) AND 0x0f"
    and "ucast (drop_bit 22 w AND 0x0f) = (of_nat (size_class_index (size_class h)) :: u8)"
    and "drop_bit 21 w AND 1 \<noteq> 0 \<longleftrightarrow> form_bit cfg (gdp_form (addresses h))"
    and "ucast (drop_bit 8 w AND 0xff) = crc"
    and "ucast (w AND 0x0f) = hop_limit h AND 0x0f"
proof -
  show "drop_bit 21 w AND 1 \<noteq> 0 \<longleftrightarrow> form_bit cfg (gdp_form (addresses h))"
    unfolding drop_bit_and_1_iff w_def gdp_word1_def Let_def
    by (auto simp: bit_simps wire_simps bit_size_class split: GdpAddresses.splits)
qed (auto intro!: bit_word_eqI simp: w_def gdp_word1_def Let_def bit_simps wire_simps bit_size_class
      split: GdpAddresses.splits)

lemma word1_hop:
  "addresses h = AddrGlobal d s \<Longrightarrow> ucast (gdp_word1 h cfg crc AND 0xff) = hop_limit h"
  by (auto intro!: bit_word_eqI simp: gdp_word1_def bit_simps wire_simps bit_size_class)

section \<open>Encoding and decoding are inverse\<close>

lemma gdp_type_roundtrip:
  "gdp_type_wf t \<Longrightarrow> gdp_type_from_wire (gdp_type_to_wire t AND 0x0f) = t"
  by (cases t) (auto simp: gdp_type_from_wire_def u8_and_mask_id and.assoc)

lemma gdp_type_from_wire_wf: "gdp_type_wf (gdp_type_from_wire v)"
  by (auto simp: gdp_type_from_wire_def Let_def and_15_le)

lemma gdp_type_to_wire_le: "gdp_type_to_wire t \<le> 15"
  by (cases t) (auto simp: and_15_le)

lemma size_class_roundtrip: "size_class_from_wire (of_nat (size_class_index c)) = Ok c"
  by (cases c) (simp_all add: size_class_from_wire_def size_class_all_def)

lemma size_class_wire_index:
  assumes "size_class_from_wire v = Ok c"
  shows "size_class_index c = unat (v AND 0x0f)"
proof -
  have "map size_class_index size_class_all = [0..<16]" by (simp add: size_class_all_def upt_conv_Cons)
  then have "size_class_index (size_class_all ! i) = i" if "i < 16" for i
    using that by (metis add_0 length_map length_upt minus_nat.diff_0 nth_map nth_upt)
  then show ?thesis using assms
    by (auto simp: size_class_from_wire_def Let_def result_simps size_class_all_def split: if_splits)
qed

lemma size_class_from_wire_total: "\<exists>c. size_class_from_wire v = Ok c"
proof -
  have "unat (v AND 0x0f) < 16" using and_15_le[of v] by (simp add: word_le_nat_alt)
  then show ?thesis by (simp add: size_class_from_wire_def size_class_all_def)
qed

lemma ids_roundtrip:
  fixes d s :: u16
  shows "ucast (drop_bit 16 (push_bit 16 (ucast d) OR ucast s :: u32)) = d"
    and "ucast (push_bit 16 (ucast d) OR ucast s :: u32) = s"
  by (auto intro!: bit_word_eqI simp: bit_simps wire_simps)

text \<open>What an encoded header looks like on the wire.\<close>

definition gdp_header_bytes :: "GdpHeader \<Rightarrow> GdpWireConfig \<Rightarrow> bytes" where
  "gdp_header_bytes h cfg =
    to_be 4 (gdp_word1 h cfg (crc8_finalize (crc8_update_bytes (gdp_crc_prefix h cfg) (address_bytes (addresses h)))))
    @ address_bytes (addresses h)"

lemma length_gdp_header_bytes: "length (gdp_header_bytes h cfg) = header_len h"
  by (cases "addresses h") (simp_all add: gdp_header_bytes_def header_len_def)

lemma to_be_4_pair: "to_be 4 (push_bit 16 (ucast d) OR ucast s :: u32) = to_be 2 d @ to_be 2 s" for d s :: u16
  unfolding to_be_unfold by (auto intro!: bit_word_eqI simp: bit_simps wire_simps)

lemma encode_header_into_eq:
  assumes "gdp_header_wf h"
  shows "encode_header_into h cfg out =
    (if length out < header_len h then Err BufferFull
     else Ok (gdp_header_bytes h cfg @ drop (header_len h) out, header_len h))"
proof -
  have "\<not> 3 < gdp_version h" "\<not> 15 < gdp_type_to_wire (packet_type h)"
    "\<not> (gdp_form (addresses h) = FormLocal \<and> 15 < hop_limit h)"
    using assms gdp_type_to_wire_le by (auto simp: gdp_header_wf_def not_less split: GdpAddresses.splits)
  then show ?thesis
    by (cases "addresses h")
       (simp_all add: encode_header_into_def gdp_crc8_eq header_len_def gdp_header_bytes_def to_be_4_pair
          not_less)
qed

abbreviation gdp_true_crc :: "GdpHeader \<Rightarrow> GdpWireConfig \<Rightarrow> u8" where
  "gdp_true_crc h cfg \<equiv> crc8_finalize (crc8_update_bytes (gdp_crc_prefix h cfg) (address_bytes (addresses h)))"

text \<open>A header word with any checksum in it, followed by the address bytes, decodes to the header
  exactly when the checksum is the true one.\<close>

lemma decode_header_words:
  assumes wf: "gdp_header_wf h"
    and pre: "\<And>d s p. addresses h = AddrLocal d s p \<Longrightarrow> local_prefix AND NOT 0xffff = p"
  shows "decode_header (to_be 4 (gdp_word1 h cfg crc) @ address_bytes (addresses h) @ rest) cfg local_prefix =
    (if gdp_true_crc h cfg \<noteq> crc then Err InvalidCrc else Ok h)"
proof (cases "addresses h")
  case (AddrGlobal d s)
  have f: "form_from_bit cfg (form_bit cfg FormGlobal) = FormGlobal" by (simp add: form_from_bit_def)
  have eta: "\<lparr>gdp_version = gdp_version h, packet_type = packet_type h, size_class = size_class h,
      hop_limit = hop_limit h, addresses = AddrGlobal d s\<rparr> = h"
    using AddrGlobal by simp
  show ?thesis
    using wf AddrGlobal f
    by (simp add: decode_header_def word1_fields word1_hop[OF AddrGlobal] Let_def eta
        u8_and_mask_id gdp_header_wf_def gdp_type_roundtrip size_class_roundtrip gdp_crc8_eq)
next
  case (AddrLocal d s p)
  have f: "form_from_bit cfg (form_bit cfg FormLocal) = FormLocal" by (simp add: form_from_bit_def)
  have hop: "hop_limit h AND 0x0f = hop_limit h"
    using wf AddrLocal by (simp add: gdp_header_wf_def u8_and_mask_id)
  have eta: "\<lparr>gdp_version = gdp_version h, packet_type = packet_type h, size_class = size_class h,
      hop_limit = hop_limit h, addresses = AddrLocal d s p\<rparr> = h"
    using AddrLocal by simp
  have pair: "from_be (to_be 2 d @ to_be 2 s) = (push_bit 16 (ucast d) OR ucast s :: u32)"
    by (simp flip: to_be_4_pair)
  show ?thesis
    using wf AddrLocal f hop pre[OF AddrLocal]
    by (simp add: decode_header_def word1_fields Let_def pair ids_roundtrip ids_roundtrip[simplified] eta
        u8_and_mask_id gdp_header_wf_def gdp_type_roundtrip size_class_roundtrip gdp_crc8_eq)
qed

lemma decode_header_bytes:
  assumes "gdp_header_wf h"
    and "\<And>d s p. addresses h = AddrLocal d s p \<Longrightarrow> local_prefix AND NOT 0xffff = p"
  shows "decode_header (gdp_header_bytes h cfg @ rest) cfg local_prefix = Ok h"
  using decode_header_words[OF assms] by (simp add: gdp_header_bytes_def)

lemma decode_header_wf:
  assumes "decode_header buf cfg local_prefix = Ok h"
  shows "gdp_header_wf h" "header_len h \<le> length buf"
proof -
  have 1: "(ucast (drop_bit 30 w AND 3) :: u8) \<le> 3" "(ucast (w AND 0x0f) :: u8) \<le> 15" for w :: u32
  proof -
    have "ucast (drop_bit 30 w AND 3) = (ucast (drop_bit 30 w) AND 3 :: u8)"
      "ucast (w AND 0x0f) = (ucast w AND 0x0f :: u8)"
      by (auto intro!: bit_word_eqI simp: bit_simps wire_simps)
    then show "(ucast (drop_bit 30 w AND 3) :: u8) \<le> 3" "(ucast (w AND 0x0f) :: u8) \<le> 15"
      by (simp_all only: word_and_le1)
  qed
  show "gdp_header_wf h"
    using assms 1 by (auto simp: decode_header_def gdp_header_wf_def Let_def result_simps gdp_type_from_wire_wf and.assoc
        split: if_splits AddressForm.splits)
  show "header_len h \<le> length buf"
    using assms by (auto simp: decode_header_def header_len_def Let_def result_simps
        split: if_splits AddressForm.splits)
qed

lemma decode_header_no_panic: "decode_header buf cfg local_prefix \<noteq> Panic"
  using size_class_from_wire_total
  by (auto simp: decode_header_def Let_def result_simps gdp_crc8_eq split: AddressForm.splits)
     (metis result.distinct)+

section \<open>Packets and properties\<close>

definition gdp_packet_wf :: "GdpPacket \<Rightarrow> bool" where
  "gdp_packet_wf p \<longleftrightarrow> gdp_header_wf (pkt_header p) \<and>
    length (pkt_payload p) = size_class_bytes (size_class (pkt_header p))"

text \<open>A local packet is decoded with the prefix of the link it came from.\<close>

definition prefix_matches :: "GdpHeader \<Rightarrow> u64 \<Rightarrow> bool" where
  "prefix_matches h local_prefix =
    (case addresses h of AddrGlobal _ _ \<Rightarrow> True | AddrLocal _ _ p \<Rightarrow> local_prefix AND NOT 0xffff = p)"

lemma gdp_packet_encode_eq:
  assumes "gdp_packet_wf p"
  shows "gdp_packet_encode p cfg = Ok (gdp_header_bytes (pkt_header p) cfg @ pkt_payload p)"
  using assms
  by (simp add: gdp_packet_encode_def gdp_packet_new_def gdp_packet_encode_into_def gdp_packet_wf_def Let_def
      encode_header_into_eq length_gdp_header_bytes)

lemma gdp_packet_decode_eq:
  assumes "gdp_packet_wf p" "prefix_matches (pkt_header p) local_prefix"
  shows "gdp_packet_decode (gdp_header_bytes (pkt_header p) cfg @ pkt_payload p) cfg local_prefix = Ok p"
proof -
  have "decode_header (gdp_header_bytes (pkt_header p) cfg @ pkt_payload p) cfg local_prefix = Ok (pkt_header p)"
    using assms by (intro decode_header_bytes) (auto simp: gdp_packet_wf_def prefix_matches_def)
  then show ?thesis using assms
    by (simp add: gdp_packet_decode_def gdp_packet_wf_def length_gdp_header_bytes)
qed

text \<open>C18. Round trip: a well-formed GDP packet encodes, to header and payload bytes of exactly the declared
  length, and decoding those bytes with the same wire configuration and link prefix gives the packet
  back.\<close>

theorem gdp_packet_roundtrip:
  assumes "gdp_packet_wf p" "prefix_matches (pkt_header p) local_prefix"
  shows "\<exists>bs. gdp_packet_encode p cfg = Ok bs \<and>
    length bs = header_len (pkt_header p) + size_class_bytes (size_class (pkt_header p)) \<and>
    gdp_packet_decode bs cfg local_prefix = Ok p"
  using assms gdp_packet_encode_eq[OF assms(1)] gdp_packet_decode_eq[OF assms]
  by (simp add: length_gdp_header_bytes gdp_packet_wf_def)

theorem gdp_packet_roundtrip_witness:
  "\<exists>bs. gdp_packet_encode \<lparr>pkt_header = \<lparr>gdp_version = 0, packet_type = Gts, size_class = Tiny3, hop_limit = 9,
        addresses = AddrLocal 0x102 0x304 0xabcd0000\<rparr>, pkt_payload = [1, 2, 3]\<rparr> gdp_wire_config_default = Ok bs \<and>
    length bs = 11 \<and>
    gdp_packet_decode bs gdp_wire_config_default 0xabcd1234 = Ok \<lparr>pkt_header = \<lparr>gdp_version = 0, packet_type = Gts,
        size_class = Tiny3, hop_limit = 9, addresses = AddrLocal 0x102 0x304 0xabcd0000\<rparr>, pkt_payload = [1, 2, 3]\<rparr>"
  using gdp_packet_roundtrip[of "\<lparr>pkt_header = \<lparr>gdp_version = 0, packet_type = Gts, size_class = Tiny3, hop_limit = 9,
      addresses = AddrLocal 0x102 0x304 0xabcd0000\<rparr>, pkt_payload = [1, 2, 3]\<rparr>" "0xabcd1234" gdp_wire_config_default]
  by (simp add: gdp_packet_wf_def gdp_header_wf_def size_class_bytes_def prefix_matches_def header_len_def)

text \<open>Decoding is total and sound: whatever bytes arrive, the packet decoder returns a packet or an error
  and never panics; a packet it returns is well-formed, has a payload of exactly its size class, and can be
  sent on (it encodes to as many bytes as arrived).\<close>

theorem gdp_packet_decode_sound:
  "gdp_packet_decode buf cfg local_prefix \<noteq> Panic \<and>
   (\<forall>p. gdp_packet_decode buf cfg local_prefix = Ok p \<longrightarrow>
     gdp_packet_wf p \<and> (\<exists>bs. gdp_packet_encode p cfg = Ok bs \<and> length bs = length buf))"
proof (intro conjI allI impI)
  show "gdp_packet_decode buf cfg local_prefix \<noteq> Panic"
    using decode_header_no_panic[of buf cfg local_prefix]
    by (auto simp: gdp_packet_decode_def Let_def result_simps)
next
  fix p assume d: "gdp_packet_decode buf cfg local_prefix = Ok p"
  then have wf: "gdp_header_wf (pkt_header p)" "length buf = header_len (pkt_header p) + length (pkt_payload p)"
    "length (pkt_payload p) = size_class_bytes (size_class (pkt_header p))"
    by (auto simp: gdp_packet_decode_def Let_def result_simps dest: decode_header_wf split: if_splits)
  then show "gdp_packet_wf p" by (simp add: gdp_packet_wf_def)
  then show "\<exists>bs. gdp_packet_encode p cfg = Ok bs \<and> length bs = length buf"
    using wf by (simp add: gdp_packet_encode_eq length_gdp_header_bytes)
qed

theorem gdp_packet_decode_sound_witness:
  "gdp_packet_decode [] gdp_wire_config_default 0 \<noteq> Panic \<and> gdp_packet_decode [] gdp_wire_config_default 0 = Err InvalidLength"
  using gdp_packet_decode_sound[of "[]" gdp_wire_config_default 0]
  by (simp add: gdp_packet_decode_def decode_header_def)

lemma gdp_word1_cong:
  "gdp_form a = gdp_form (addresses h) \<Longrightarrow> gdp_word1 (h\<lparr>addresses := a\<rparr>) cfg crc = gdp_word1 h cfg crc"
  by (cases a; cases "addresses h") (simp_all add: gdp_word1_def)

lemma gdp_crc_prefix_cong:
  "gdp_form a = gdp_form (addresses h) \<Longrightarrow> gdp_crc_prefix (h\<lparr>addresses := a\<rparr>) cfg = gdp_crc_prefix h cfg"
  by (simp add: gdp_crc_prefix_def)

lemma address_bytes_onto:
  assumes "length bs = length (address_bytes a)"
  shows "\<exists>a'. address_bytes a' = bs \<and> gdp_form a' = gdp_form a \<and>
    (\<forall>d s p. a' = AddrLocal d s p \<longrightarrow> (\<exists>d s. a = AddrLocal d s p))"
proof (cases a)
  case (AddrGlobal d s)
  then show ?thesis using assms
    by (intro exI[of _ "AddrGlobal (from_be (take 8 bs)) (from_be (drop 8 bs))"]) simp
next
  case (AddrLocal d s p)
  then show ?thesis using assms
    by (intro exI[of _ "AddrLocal (from_be (take 2 bs)) (from_be (drop 2 bs)) p"]) simp
qed

lemma crc8_list_update_detected:
  assumes "i < length xs" "xs ! i \<noteq> b"
  shows "crc8_update_bytes c (xs[i := b]) \<noteq> crc8_update_bytes c xs"
  unfolding crc8_update_bytes_def upd_conv_take_nth_drop[OF assms(1)]
  using crc8.burst_detected[of "[b]" "[xs ! i]" c "take i xs" "drop (Suc i) xs"] assms
  by (simp add: id_take_nth_drop[OF assms(1), symmetric])

text \<open>The header checksum protects the addresses: if any single byte of the destination or source of a
  well-formed encoded header is changed, in any way, decoding fails with \<open>InvalidCrc\<close>.\<close>

theorem gdp_address_corruption_detected:
  assumes wf: "gdp_header_wf h" and pre: "prefix_matches h local_prefix"
    and enc: "gdp_header_encode h cfg = Ok bs"
    and i: "4 \<le> i" "i < length bs" and b: "bs ! i \<noteq> b"
  shows "decode_header (bs[i := b]) cfg local_prefix = Err InvalidCrc"
proof -
  let ?A = "address_bytes (addresses h)" and ?j = "i - 4"
  have bs: "bs = to_be 4 (gdp_word1 h cfg (gdp_true_crc h cfg)) @ ?A"
    using enc wf by (simp add: gdp_header_encode_def encode_header_into_eq gdp_header_bytes_def)
  have j: "?j < length ?A" "?A ! ?j \<noteq> b" using i b by (auto simp: bs nth_append)
  obtain a where a: "address_bytes a = ?A[?j := b]" "gdp_form a = gdp_form (addresses h)"
    "\<forall>d s p. a = AddrLocal d s p \<longrightarrow> (\<exists>d s. addresses h = AddrLocal d s p)"
    using address_bytes_onto[of "?A[?j := b]" "addresses h"] by auto
  let ?h = "h\<lparr>addresses := a\<rparr>"
  have "gdp_header_wf ?h" "\<And>d s p. addresses ?h = AddrLocal d s p \<Longrightarrow> local_prefix AND NOT 0xffff = p"
    using wf a pre by (auto simp: gdp_header_wf_def prefix_matches_def split: GdpAddresses.splits)
  from decode_header_words[OF this, where rest = "[]" and crc = "gdp_true_crc h cfg" and cfg = cfg]
  have "decode_header (to_be 4 (gdp_word1 h cfg (gdp_true_crc h cfg)) @ ?A[?j := b]) cfg local_prefix =
     (if gdp_true_crc ?h cfg \<noteq> gdp_true_crc h cfg then Err InvalidCrc else Ok ?h)"
    using a gdp_word1_cong[OF a(2)] by simp
  moreover have "gdp_true_crc ?h cfg \<noteq> gdp_true_crc h cfg"
    using crc8_list_update_detected[OF j, of "gdp_crc_prefix h cfg"] a
    by (auto simp: crc8_finalize_def gdp_crc_prefix_cong dest: crc8.reg_inject)
  moreover have "bs[i := b] = to_be 4 (gdp_word1 h cfg (gdp_true_crc h cfg)) @ ?A[?j := b]"
    using i by (simp add: bs list_update_append)
  ultimately show ?thesis by simp
qed

theorem gdp_address_corruption_detected_witness:
  "\<exists>bs. gdp_header_encode (gdp_header_global Gts Tiny3 7 1 2) gdp_wire_config_default = Ok bs \<and> length bs = 20 \<and>
    (\<exists>b. decode_header (bs[19 := b]) gdp_wire_config_default 0 = Err InvalidCrc)"
proof -
  let ?h = "gdp_header_global Gts Tiny3 7 1 2" and ?c = gdp_wire_config_default
  have wf: "gdp_header_wf ?h" "prefix_matches ?h 0"
    by (simp_all add: gdp_header_wf_def gdp_header_global_def prefix_matches_def)
  have enc: "gdp_header_encode ?h ?c = Ok (gdp_header_bytes ?h ?c)"
    using wf by (simp add: gdp_header_encode_def encode_header_into_eq)
  have len: "length (gdp_header_bytes ?h ?c) = 20"
    by (simp add: length_gdp_header_bytes header_len_def gdp_header_global_def)
  have "gdp_header_bytes ?h ?c ! 19 \<noteq> gdp_header_bytes ?h ?c ! 19 + 1" by simp
  from gdp_address_corruption_detected[OF wf enc _ _ this] enc len show ?thesis by auto
qed

lemma header_bytes_hop:
  "gdp_header_bytes (h\<lparr>hop_limit := n\<rparr>) cfg =
   (gdp_header_bytes h cfg)[3 := ucast (gdp_word1 (h\<lparr>hop_limit := n\<rparr>) cfg (gdp_true_crc h cfg))]"
proof -
  let ?h = "h\<lparr>hop_limit := n\<rparr>"
  have crc: "gdp_crc_prefix ?h cfg = gdp_crc_prefix h cfg" by (simp add: gdp_crc_prefix_def)
  have hi: "drop_bit k (gdp_word1 ?h cfg c) = drop_bit k (gdp_word1 h cfg c)" if "8 \<le> k" for k c
    using that by (cases "addresses h")
      (auto intro!: bit_word_eqI simp: gdp_word1_def bit_simps wire_simps)
  have "to_be 4 (gdp_word1 ?h cfg c) = (to_be 4 (gdp_word1 h cfg c))[3 := ucast (gdp_word1 ?h cfg c)]" for c
    by (simp add: to_be_unfold hi)
  then show ?thesis by (simp add: gdp_header_bytes_def crc list_update_append del: to_be.simps)
qed

text \<open>In a header with global addresses, byte 3 is the hop limit.\<close>

lemma word1_hop_byte: "addresses h = AddrGlobal d s \<Longrightarrow> ucast (gdp_word1 h cfg c) = hop_limit h"
proof (rule bit_word_eqI)
  fix n
  assume "addresses h = AddrGlobal d s" "n < LENGTH(8)"
  then show "bit (ucast (gdp_word1 h cfg c) :: u8) n = bit (hop_limit h) n"
    by (simp add: gdp_word1_def Let_def bit_simps)
qed

lemma header_bytes_hop_byte: "addresses h = AddrGlobal d s \<Longrightarrow> gdp_header_bytes h cfg ! 3 = hop_limit h"
  using word1_hop_byte[of h d s cfg] by (simp add: gdp_header_bytes_def to_be_unfold)

text \<open>Forwarding may rewrite the hop limit in place: the encodings of a well-formed header before and after
  the hop limit changes differ at most in byte 3, so the checksum of the untouched bytes stays valid.\<close>

theorem gdp_hop_limit_local_change:
  assumes "gdp_header_wf h" "gdp_header_wf (h\<lparr>hop_limit := n\<rparr>)"
  shows "\<exists>bs b. gdp_header_encode h cfg = Ok bs \<and> gdp_header_encode (h\<lparr>hop_limit := n\<rparr>) cfg = Ok (bs[3 := b])"
proof -
  have "gdp_header_encode h cfg = Ok (gdp_header_bytes h cfg)"
      "gdp_header_encode (h\<lparr>hop_limit := n\<rparr>) cfg = Ok (gdp_header_bytes (h\<lparr>hop_limit := n\<rparr>) cfg)"
    using assms by (simp_all add: gdp_header_encode_def encode_header_into_eq)
  then show ?thesis using header_bytes_hop by metis
qed

theorem gdp_hop_limit_local_change_witness:
  "\<exists>bs b. gdp_header_encode (gdp_header_global Gctl Empty 7 1 2) gdp_wire_config_default = Ok bs \<and>
    gdp_header_encode ((gdp_header_global Gctl Empty 7 1 2)\<lparr>hop_limit := 6\<rparr>) gdp_wire_config_default = Ok (bs[3 := b])"
  by (rule gdp_hop_limit_local_change) (simp_all add: gdp_header_wf_def gdp_header_global_def)

lemma find_sorted:
  fixes f :: "'a \<Rightarrow> nat"
  shows "sorted_wrt (\<lambda>x y. f x < f y) xs \<Longrightarrow> List.find (\<lambda>x. n \<le> f x) xs = Some c \<longleftrightarrow>
    c \<in> set xs \<and> n \<le> f c \<and> (\<forall>c' \<in> set xs. n \<le> f c' \<longrightarrow> f c \<le> f c')"
  by (induction xs) (auto simp: not_le dest: less_imp_le)

lemma size_class_sorted: "sorted_wrt (\<lambda>x y. size_class_bytes x < size_class_bytes y) size_class_all"
  by (simp add: size_class_all_def size_class_bytes_def)

lemma size_class_all_UNIV: "c \<in> set size_class_all"
  by (cases c) (simp_all add: size_class_all_def)

lemma size_class_bytes_max: "size_class_bytes c \<le> 8192"
  by (cases c) (simp_all add: size_class_bytes_def)

lemma Jumbo8K_bytes: "size_class_bytes Jumbo8K = 8192"
  by (simp add: size_class_bytes_def)

text \<open>\<open>smallest_for\<close> finds the tightest class: the class it returns holds the required bytes and no class
  that holds them is smaller; it fails exactly above 8192 bytes.\<close>

theorem smallest_for_correct:
  "(smallest_for n = Some c \<longleftrightarrow>
      n \<le> size_class_bytes c \<and> (\<forall>c'. n \<le> size_class_bytes c' \<longrightarrow> size_class_bytes c \<le> size_class_bytes c')) \<and>
   (smallest_for n = None \<longleftrightarrow> 8192 < n)"
proof (rule conjI)
  have U: "set size_class_all = UNIV" using size_class_all_UNIV by blast
  show "smallest_for n = Some c \<longleftrightarrow>
      n \<le> size_class_bytes c \<and> (\<forall>c'. n \<le> size_class_bytes c' \<longrightarrow> size_class_bytes c \<le> size_class_bytes c')"
    using find_sorted[OF size_class_sorted, of n c] by (simp add: smallest_for_def U)
  have "smallest_for n = None \<longleftrightarrow> (\<forall>c. size_class_bytes c < n)"
    by (simp add: smallest_for_def find_None_iff U not_le)
  also have "\<dots> \<longleftrightarrow> 8192 < n"
    using size_class_bytes_max Jumbo8K_bytes le_less_trans by metis
  finally show "smallest_for n = None \<longleftrightarrow> 8192 < n" .
qed

theorem smallest_for_correct_witness: "smallest_for 100 = Some Msg128 \<and> smallest_for 9000 = None"
  using smallest_for_correct[of 100 Msg128] smallest_for_correct[of 9000 Empty]
  by (simp add: smallest_for_def size_class_all_def size_class_bytes_def)

end
