(* ===== verification/Ring_Buffer.thy ===== *)
theory Ring_Buffer
  imports Gnet_Prelude
begin

text \<open>
  The fixed-capacity FIFO over caller-owned storage of src/src/storage.rs. The locale \<open>bounded_fifo\<close> is
  the contract of a bounded queue with a list abstraction: a client's runs of pushes and pops are proved
  once, in the locale, to be those of a list with a capacity. \<open>RingBuffer\<close> is an interpretation.
\<close>

section \<open>The ring buffer\<close>

record 'a RingBuffer =
  rb_storage :: "'a list"
  rb_head :: nat
  rb_len :: nat

definition rb_new :: "'a list \<Rightarrow> 'a RingBuffer" where
  "rb_new storage = \<lparr>rb_storage = storage, rb_head = 0, rb_len = 0\<rparr>"

definition rb_is_empty :: "'a RingBuffer \<Rightarrow> bool" where
  "rb_is_empty r = (rb_len r = 0)"

definition rb_capacity :: "'a RingBuffer \<Rightarrow> nat" where
  "rb_capacity r = length (rb_storage r)"

definition rb_free :: "'a RingBuffer \<Rightarrow> nat" where
  "rb_free r = rb_capacity r - rb_len r"

definition rb_clear :: "'a RingBuffer \<Rightarrow> 'a RingBuffer" where
  "rb_clear r = r\<lparr>rb_head := 0, rb_len := 0\<rparr>"

definition rb_push_back :: "'a RingBuffer \<Rightarrow> 'a \<Rightarrow> ('a RingBuffer, unit) outcome" where
  "rb_push_back r v =
    (if rb_len r = length (rb_storage r) \<or> rb_storage r = [] then (Err BufferFull, r)
     else let i = (rb_head r + rb_len r) mod length (rb_storage r) in
     sbind (lift_r (upd (rb_storage r) i v) r) (\<lambda>st r.
       (Ok (), r\<lparr>rb_storage := st, rb_len := rb_len r + 1\<rparr>)))"

definition rb_pop_front :: "'a RingBuffer \<Rightarrow> ('a RingBuffer, 'a option) outcome" where
  "rb_pop_front r =
    (if rb_len r = 0 then (Ok None, r)
     else sbind (lift_r (idx (rb_storage r) (rb_head r)) r) (\<lambda>v r.
       let r = r\<lparr>rb_head := (rb_head r + 1) mod length (rb_storage r)\<rparr>;
           r = r\<lparr>rb_len := rb_len r - 1\<rparr>;
           r = (if rb_len r = 0 then r\<lparr>rb_head := 0\<rparr> else r)
       in (Ok (Some v), r)))"

definition rb_front :: "'a RingBuffer \<Rightarrow> 'a option result" where
  "rb_front r = (if rb_len r = 0 then Ok None else rbind (idx (rb_storage r) (rb_head r)) (\<lambda>v. Ok (Some v)))"

section \<open>Bounded queues\<close>

datatype 'a queue_op = Push 'a | Pop

datatype 'a queue_out = Pushed | Rejected | Popped "'a option" | Crashed

text \<open>The specification: a list with a capacity.\<close>

fun spec_step :: "nat \<Rightarrow> 'a list \<Rightarrow> 'a queue_op \<Rightarrow> 'a queue_out \<times> 'a list" where
  "spec_step c xs (Push x) = (if length xs < c then (Pushed, xs @ [x]) else (Rejected, xs))"
| "spec_step c [] Pop = (Popped None, [])"
| "spec_step c (x # xs) Pop = (Popped (Some x), xs)"

fun spec_run :: "nat \<Rightarrow> 'a list \<Rightarrow> 'a queue_op list \<Rightarrow> 'a queue_out list \<times> 'a list" where
  "spec_run c xs [] = ([], xs)"
| "spec_run c xs (q # qs) =
    (let (out, ys) = spec_step c xs q; (outs, zs) = spec_run c ys qs in (out # outs, zs))"

text \<open>A run of an implementation, given its push and pop.\<close>

definition impl_step ::
    "('s \<Rightarrow> 'a \<Rightarrow> ('s, unit) outcome) \<Rightarrow> ('s \<Rightarrow> ('s, 'a option) outcome) \<Rightarrow> 's \<Rightarrow> 'a queue_op \<Rightarrow> 'a queue_out \<times> 's" where
  "impl_step push pop s q = (case q of
      Push x \<Rightarrow> (case push s x of (Ok _, t) \<Rightarrow> (Pushed, t) | (Err _, t) \<Rightarrow> (Rejected, t) | (Panic, t) \<Rightarrow> (Crashed, t))
    | Pop \<Rightarrow> (case pop s of (Ok v, t) \<Rightarrow> (Popped v, t) | (Err _, t) \<Rightarrow> (Rejected, t) | (Panic, t) \<Rightarrow> (Crashed, t)))"

fun impl_run ::
    "('s \<Rightarrow> 'a \<Rightarrow> ('s, unit) outcome) \<Rightarrow> ('s \<Rightarrow> ('s, 'a option) outcome) \<Rightarrow> 's \<Rightarrow> 'a queue_op list \<Rightarrow> 'a queue_out list \<times> 's" where
  "impl_run push pop s [] = ([], s)"
| "impl_run push pop s (q # qs) =
    (let (out, t) = impl_step push pop s q; (outs, u) = impl_run push pop t qs in (out # outs, u))"

locale bounded_fifo =
  fixes inv_q :: "'s \<Rightarrow> bool"
    and contents :: "'s \<Rightarrow> 'a list"
    and capacity :: "'s \<Rightarrow> nat"
    and push :: "'s \<Rightarrow> 'a \<Rightarrow> ('s, unit) outcome"
    and pop :: "'s \<Rightarrow> ('s, 'a option) outcome"
  assumes push_accepts: "inv_q s \<Longrightarrow> length (contents s) < capacity s \<Longrightarrow>
      \<exists>t. push s x = (Ok (), t) \<and> inv_q t \<and> contents t = contents s @ [x] \<and> capacity t = capacity s"
    and push_full: "inv_q s \<Longrightarrow> \<not> length (contents s) < capacity s \<Longrightarrow> \<exists>e. push s x = (Err e, s)"
    and pop_empty: "inv_q s \<Longrightarrow> contents s = [] \<Longrightarrow> pop s = (Ok None, s)"
    and pop_cons: "inv_q s \<Longrightarrow> contents s = x # xs \<Longrightarrow>
      \<exists>t. pop s = (Ok (Some x), t) \<and> inv_q t \<and> contents t = xs \<and> capacity t = capacity s"
begin

lemma step_refines:
  assumes "inv_q s" "impl_step push pop s q = (out, t)"
  shows "inv_q t \<and> capacity t = capacity s \<and> spec_step (capacity s) (contents s) q = (out, contents t)"
proof (cases q)
  case (Push x)
  show ?thesis
  proof (cases "length (contents s) < capacity s")
    case True
    then show ?thesis using assms Push push_accepts[of s x] by (auto simp: impl_step_def)
  next
    case False
    then show ?thesis using assms Push push_full[of s x] by (auto simp: impl_step_def)
  qed
next
  case Pop
  show ?thesis
  proof (cases "contents s")
    case Nil
    then show ?thesis using assms Pop pop_empty[of s] by (auto simp: impl_step_def)
  next
    case (Cons x xs)
    then show ?thesis using assms Pop pop_cons[of s x xs] by (auto simp: impl_step_def)
  qed
qed

lemma run_refines:
  "inv_q s \<Longrightarrow> impl_run push pop s qs = (outs, t) \<Longrightarrow>
   inv_q t \<and> capacity t = capacity s \<and> spec_run (capacity s) (contents s) qs = (outs, contents t)"
proof (induction qs arbitrary: s outs)
  case (Cons q qs)
  obtain out u where s: "impl_step push pop s q = (out, u)" by fastforce
  obtain outs' where r: "impl_run push pop u qs = (outs', t)" and o: "outs = out # outs'"
    using Cons.prems(2) s by (auto split: prod.splits)
  have "inv_q u \<and> capacity u = capacity s \<and> spec_step (capacity s) (contents s) q = (out, contents u)"
    using step_refines[OF Cons.prems(1) s] .
  moreover from this have "inv_q t \<and> capacity t = capacity u \<and> spec_run (capacity u) (contents u) qs = (outs', contents t)"
    using Cons.IH[OF _ r] by blast
  ultimately show ?case using o by simp
qed simp

end

section \<open>The ring buffer is a bounded queue\<close>

definition rb_inv :: "'a RingBuffer \<Rightarrow> bool" where
  "rb_inv r \<longleftrightarrow> rb_len r \<le> length (rb_storage r) \<and> (rb_storage r \<noteq> [] \<longrightarrow> rb_head r < length (rb_storage r))"

definition rb_contents :: "'a RingBuffer \<Rightarrow> 'a list" where
  "rb_contents r = map (\<lambda>i. rb_storage r ! ((rb_head r + i) mod length (rb_storage r))) [0..<rb_len r]"

lemma mod_add_inject:
  fixes n :: nat
  assumes "(h + i) mod n = (h + j) mod n" "i < n" "j < n"
  shows "i = j"
proof -
  have "b = a" if "a \<le> b" "b < n" "(h + a) mod n = (h + b) mod n" for a b
  proof -
    have "n dvd (h + b) - (h + a)" using that by (metis add_left_mono mod_eq_dvd_iff_nat)
    then have "n dvd b - a" by simp
    moreover have "b - a < n" using that by simp
    ultimately have "b - a = 0" by (metis dvd_imp_le not_gr_zero not_le)
    then show ?thesis using that by simp
  qed
  then show ?thesis using assms linear[of i j] by metis
qed

lemma rb_push_back_appends:
  assumes "rb_inv r" "rb_len r < length (rb_storage r)"
  shows "\<exists>t. rb_push_back r v = (Ok (), t) \<and> rb_inv t \<and> rb_contents t = rb_contents r @ [v] \<and> rb_capacity t = rb_capacity r"
proof -
  let ?n = "length (rb_storage r)" and ?i = "(rb_head r + rb_len r) mod length (rb_storage r)"
  have i: "?i < ?n" using assms by (intro mod_less_divisor) auto
  let ?t = "r\<lparr>rb_storage := (rb_storage r)[?i := v], rb_len := rb_len r + 1\<rparr>"
  have "rb_push_back r v = (Ok (), ?t)" using assms i by (auto simp: rb_push_back_def)
  moreover have "rb_inv ?t" using assms by (auto simp: rb_inv_def)
  moreover have "?i \<noteq> (rb_head r + k) mod ?n" if "k < rb_len r" for k
    using mod_add_inject[of "rb_head r" k ?n "rb_len r"] that assms by auto
  then have "rb_contents ?t = rb_contents r @ [v]"
    using i by (auto simp: rb_contents_def)
  ultimately show ?thesis by (auto simp: rb_capacity_def)
qed

lemma rb_pop_front_uncons:
  assumes "rb_inv r" "rb_len r \<noteq> 0"
  shows "\<exists>t. rb_pop_front r = (Ok (Some (hd (rb_contents r))), t) \<and> rb_inv t \<and> rb_contents t = tl (rb_contents r) \<and>
    rb_capacity t = rb_capacity r"
proof -
  let ?n = "length (rb_storage r)"
  have n: "0 < ?n" "rb_head r < ?n" using assms by (auto simp: rb_inv_def)
  let ?t = "r\<lparr>rb_head := (if rb_len r = 1 then 0 else (rb_head r + 1) mod ?n), rb_len := rb_len r - 1\<rparr>"
  have "hd (rb_contents r) = rb_storage r ! rb_head r"
    using n assms by (simp add: rb_contents_def hd_map upt_conv_Cons)
  then have "rb_pop_front r = (Ok (Some (hd (rb_contents r))), ?t)"
    using assms n by (auto simp: rb_pop_front_def Let_def)
  moreover have "rb_inv ?t" using assms n by (auto simp: rb_inv_def)
  moreover have "rb_contents ?t = tl (rb_contents r)"
  proof (rule nth_equalityI)
    fix i assume "i < length (rb_contents ?t)"
    then have i: "i < rb_len r - 1" by (simp add: rb_contents_def)
    then show "rb_contents ?t ! i = tl (rb_contents r) ! i"
      by (auto simp: rb_contents_def nth_tl mod_add_left_eq)
  qed (simp add: rb_contents_def)
  ultimately show ?thesis by (auto simp: rb_capacity_def)
qed

interpretation rb: bounded_fifo rb_inv rb_contents rb_capacity rb_push_back rb_pop_front
proof
  fix s :: "'a RingBuffer" and x xs
  have len: "length (rb_contents s) = rb_len s" by (simp add: rb_contents_def)
  assume inv: "rb_inv s"
  show "\<exists>t. rb_push_back s x = (Ok (), t) \<and> rb_inv t \<and> rb_contents t = rb_contents s @ [x] \<and> rb_capacity t = rb_capacity s"
    if "length (rb_contents s) < rb_capacity s"
    using rb_push_back_appends[OF inv] that len by (simp add: rb_capacity_def)
  show "\<exists>e. rb_push_back s x = (Err e, s)" if "\<not> length (rb_contents s) < rb_capacity s"
    using that inv len by (auto simp: rb_push_back_def rb_capacity_def rb_inv_def)
  show "rb_pop_front s = (Ok None, s)" if "rb_contents s = []"
    using that len by (simp add: rb_pop_front_def)
  show "\<exists>t. rb_pop_front s = (Ok (Some x), t) \<and> rb_inv t \<and> rb_contents t = xs \<and> rb_capacity t = rb_capacity s"
    if "rb_contents s = x # xs"
    using rb_pop_front_uncons[OF inv] that len by auto
qed

section \<open>Properties\<close>

text \<open>A ring buffer over any caller-owned slice refines a list bounded by the length of the slice: every
  sequence of pushes and pops gives the outputs of the list, in particular it never panics, never loses or
  reorders an element and rejects a push exactly when the slice is full.\<close>

theorem ring_buffer_refines_list:
  "\<exists>t. impl_run rb_push_back rb_pop_front (rb_new storage) qs = (fst (spec_run (length storage) [] qs), t) \<and>
    rb_contents t = snd (spec_run (length storage) [] qs)"
proof -
  obtain outs t where r: "impl_run rb_push_back rb_pop_front (rb_new storage) qs = (outs, t)" by fastforce
  have "rb_inv (rb_new storage)" by (simp add: rb_inv_def rb_new_def)
  from rb.run_refines[OF this r] r show ?thesis
    by (simp add: rb_contents_def rb_new_def rb_capacity_def)
qed

lemma rb_front_hd: "rb_inv r \<Longrightarrow> rb_front r = Ok (case rb_contents r of [] \<Rightarrow> None | x # _ \<Rightarrow> Some x)"
  by (auto simp: rb_front_def rb_contents_def rb_inv_def upt_conv_Cons)

lemma rb_clear_empty: "rb_inv r \<Longrightarrow> rb_inv (rb_clear r) \<and> rb_contents (rb_clear r) = []"
  by (auto simp: rb_clear_def rb_inv_def rb_contents_def)

end
