(* ===== verification/Packet_Buffer.thy ===== *)
theory Packet_Buffer
  imports Ring_Buffer
begin

text \<open>
  The variable-length packet FIFO \<open>PacketBuffer\<close> of src/src/storage.rs: a ring of metadata slots and a byte
  arena in which every packet is contiguous. The invariant says how the queued regions lie in the arena:
  one contiguous run, or a run at the back followed by a run that restarted at offset 0 and has not passed
  the first. Enqueue and dequeue are those of a list of packets, provided the arena is not wrapped and
  exactly full; in that state the code takes the wrapped arena for an unwrapped one, and the last
  theorem shows that the oldest packet is overwritten.
\<close>

section \<open>Definitions\<close>

record 'm PacketMetadata =
  pm_meta :: "'m option"
  pm_offset :: nat
  pm_len :: nat

definition pm_empty :: "'m PacketMetadata" where
  "pm_empty = \<lparr>pm_meta = None, pm_offset = 0, pm_len = 0\<rparr>"

definition pm_is_used :: "'m PacketMetadata \<Rightarrow> bool" where
  "pm_is_used m = (pm_meta m \<noteq> None)"

record 'm PacketBuffer =
  pb_metadata :: "'m PacketMetadata list"
  pb_payload :: bytes
  pb_head :: nat
  pb_len :: nat
  pb_used_bytes :: nat

definition pb_new :: "'m PacketMetadata list \<Rightarrow> bytes \<Rightarrow> 'm PacketBuffer" where
  "pb_new metadata payload = \<lparr>pb_metadata = map (\<lambda>_. pm_empty) metadata, pb_payload = payload,
     pb_head = 0, pb_len = 0, pb_used_bytes = 0\<rparr>"

definition pb_free_payload_bytes :: "'m PacketBuffer \<Rightarrow> nat" where
  "pb_free_payload_bytes b = length (pb_payload b) - pb_used_bytes b"

definition pb_meta_index :: "'m PacketBuffer \<Rightarrow> nat \<Rightarrow> nat result" where
  "pb_meta_index b logical =
    (if pb_metadata b = [] then Panic else Ok ((pb_head b + logical) mod length (pb_metadata b)))"

definition pb_allocation_offset :: "'m PacketBuffer \<Rightarrow> nat \<Rightarrow> nat option result" where
  "pb_allocation_offset b n =
    (if length (pb_payload b) < n then Ok None
     else if pb_len b = 0 then Ok (Some 0)
     else rbind (idx (pb_metadata b) (pb_head b)) (\<lambda>first.
       rbind (pb_meta_index b (pb_len b - 1)) (\<lambda>i.
       rbind (idx (pb_metadata b) i) (\<lambda>last.
       let first_off = pm_offset first;
           last_end = pm_offset last + pm_len last
       in Ok (if first_off \<le> last_end then
                (if n \<le> length (pb_payload b) - last_end then Some last_end
                 else if n \<le> first_off then Some 0
                 else None)
              else if n \<le> first_off - last_end then Some last_end
              else None)))))"

definition pb_enqueue :: "'m PacketBuffer \<Rightarrow> 'm \<Rightarrow> bytes \<Rightarrow> ('m PacketBuffer, unit) outcome" where
  "pb_enqueue b meta data =
    (if pb_metadata b = [] \<or> pb_len b = length (pb_metadata b) then (Err BufferFull, b)
     else sbind (lift_r (rbind (pb_allocation_offset b (length data)) (\<lambda>x. ok_or x BufferFull)) b) (\<lambda>off b.
       sbind (lift_r (pb_meta_index b (pb_len b)) b) (\<lambda>i b.
       sbind (lift_r (copy_at (pb_payload b) off data) b) (\<lambda>p b.
       let b = b\<lparr>pb_payload := p\<rparr> in
       sbind (lift_r (upd (pb_metadata b) i \<lparr>pm_meta = Some meta, pm_offset = off, pm_len = length data\<rparr>) b) (\<lambda>ms b.
       (Ok (), b\<lparr>pb_metadata := ms, pb_len := pb_len b + 1, pb_used_bytes := pb_used_bytes b + length data\<rparr>))))))"

definition pb_peek :: "'m PacketBuffer \<Rightarrow> ('m \<times> bytes) option result" where
  "pb_peek b =
    (if pb_len b = 0 then Ok None
     else rbind (idx (pb_metadata b) (pb_head b)) (\<lambda>slot.
       case pm_meta slot of None \<Rightarrow> Ok None
       | Some m \<Rightarrow> rbind (slice (pb_payload b) (pm_offset slot) (pm_offset slot + pm_len slot)) (\<lambda>d. Ok (Some (m, d)))))"

text \<open>The common tail of \<open>dequeue_into\<close> and \<open>drop_front\<close>: release the head slot.\<close>

definition pb_advance :: "'m PacketBuffer \<Rightarrow> 'm PacketMetadata \<Rightarrow> 'm PacketBuffer" where
  "pb_advance b slot =
    (let b = b\<lparr>pb_metadata := (pb_metadata b)[pb_head b := pm_empty]\<rparr>;
         b = b\<lparr>pb_head := (pb_head b + 1) mod length (pb_metadata b)\<rparr>;
         b = b\<lparr>pb_len := pb_len b - 1, pb_used_bytes := pb_used_bytes b - pm_len slot\<rparr>
     in if pb_len b = 0 then b\<lparr>pb_head := 0\<rparr> else b)"

text \<open>The caller's buffer is the second part of the returned value.\<close>

definition pb_dequeue_into :: "'m PacketBuffer \<Rightarrow> bytes \<Rightarrow> ('m PacketBuffer, ('m \<times> nat) option \<times> bytes) outcome" where
  "pb_dequeue_into b out =
    (if pb_len b = 0 then (Ok (None, out), b)
     else sbind (lift_r (idx (pb_metadata b) (pb_head b)) b) (\<lambda>slot b.
       sbind (lift_r (ok_or (pm_meta slot) InvalidState) b) (\<lambda>meta b.
       if length out < pm_len slot then (Err BufferFull, b)
       else sbind (lift_r (slice (pb_payload b) (pm_offset slot) (pm_offset slot + pm_len slot)) b) (\<lambda>d b.
         sbind (lift_r (copy_at out 0 d) b) (\<lambda>out b.
         (Ok (Some (meta, pm_len slot), out), pb_advance b slot))))))"

definition pb_drop_front :: "'m PacketBuffer \<Rightarrow> ('m PacketBuffer, 'm option) outcome" where
  "pb_drop_front b =
    (if pb_len b = 0 then (Ok None, b)
     else sbind (lift_r (idx (pb_metadata b) (pb_head b)) b) (\<lambda>slot b.
       case pm_meta slot of None \<Rightarrow> (Ok None, b)
       | Some meta \<Rightarrow> (Ok (Some meta), pb_advance b slot)))"

definition pb_clear :: "'m PacketBuffer \<Rightarrow> 'm PacketBuffer" where
  "pb_clear b = b\<lparr>pb_metadata := map (\<lambda>_. pm_empty) (pb_metadata b), pb_head := 0, pb_len := 0, pb_used_bytes := 0\<rparr>"

section \<open>Regions of the arena\<close>

type_synonym region = "nat \<times> nat"

definition rend :: "region \<Rightarrow> nat" where
  "rend r = fst r + snd r"

fun chain :: "region list \<Rightarrow> bool" where
  "chain [] = True"
| "chain [r] = True"
| "chain (r # q # rs) = (rend r = fst q \<and> chain (q # rs))"

lemma chain_bounds: "chain rs \<Longrightarrow> r \<in> set rs \<Longrightarrow> fst (hd rs) \<le> fst r \<and> rend r \<le> rend (last rs)"
proof (induction rs arbitrary: r rule: chain.induct)
  case (3 a b rs)
  have IH: "fst b \<le> fst x \<and> rend x \<le> rend (last (b # rs))" if "x \<in> set (b # rs)" for x
    using 3 that by auto
  have step: "fst a \<le> fst b" "rend a = fst b" using 3(2) by (auto simp: rend_def)
  show ?case
  proof (cases "r = a")
    case True
    have "fst b \<le> rend (last (b # rs))" using IH[of b] by (auto simp: rend_def)
    then show ?thesis using True step by simp
  next
    case False
    then show ?thesis using IH[of r] 3(3) step by (auto intro: order.trans)
  qed
qed auto

lemma chain_snoc: "chain rs \<Longrightarrow> rs \<noteq> [] \<Longrightarrow> chain (rs @ [(rend (last rs), n)])"
  by (induction rs rule: chain.induct) auto

lemma chain_tl: "chain rs \<Longrightarrow> chain (tl rs)"
  by (cases rs rule: chain.cases) auto

lemma chain_tl_hd: "chain rs \<Longrightarrow> tl rs \<noteq> [] \<Longrightarrow> fst (hd rs) \<le> fst (hd (tl rs))"
  by (cases rs rule: chain.cases) (auto simp: rend_def)

text \<open>\<open>xs\<close> is the older run, \<open>ys\<close> the run that restarted at 0.\<close>

definition arena :: "nat \<Rightarrow> region list \<Rightarrow> region list \<Rightarrow> bool" where
  "arena n xs ys \<longleftrightarrow> chain xs \<and> chain ys \<and> (xs \<noteq> [] \<longrightarrow> rend (last xs) \<le> n) \<and>
    (ys \<noteq> [] \<longrightarrow> xs \<noteq> [] \<and> fst (hd ys) = 0 \<and> rend (last ys) \<le> fst (hd xs) \<and> 0 < sum_list (map snd ys))"

lemma arena_in_range:
  assumes "arena n xs ys" "r \<in> set (xs @ ys)"
  shows "rend r \<le> n"
proof -
  have x: "q \<in> set xs \<Longrightarrow> fst (hd xs) \<le> fst q \<and> rend q \<le> n" for q
    using assms(1) chain_bounds[of xs q] by (auto simp: arena_def intro: order.trans)
  show ?thesis
  proof (cases "r \<in> set xs")
    case False
    then have "r \<in> set ys" "ys \<noteq> []" using assms by auto
    then have "rend r \<le> fst (hd xs)" "xs \<noteq> []" using assms(1) chain_bounds[of ys r] by (auto simp: arena_def)
    moreover have "fst (hd xs) \<le> n" using x[of "hd xs"] \<open>xs \<noteq> []\<close> by (auto simp: rend_def)
    ultimately show ?thesis by simp
  qed (use x in auto)
qed

lemma arena_tl:
  assumes "arena n (r # xs) ys"
  shows "if xs = [] then arena n ys [] else arena n xs ys"
proof -
  have "ys \<noteq> [] \<Longrightarrow> rend (last ys) \<le> n" using arena_in_range[OF assms, of "last ys"] by auto
  then show ?thesis
    using assms chain_tl[of "r # xs"] chain_tl_hd[of "r # xs"] by (auto simp: arena_def)
qed

text \<open>Where the allocator may put a new region of \<open>n\<close> bytes, given the arena is not wrapped and exactly full.\<close>

lemma arena_extend:
  assumes ar: "arena N xs ys" and ne: "xs \<noteq> []" and n: "n \<le> N"
    and free: "ys \<noteq> [] \<Longrightarrow> rend (last ys) \<noteq> fst (hd xs)"
    and "first = fst (hd xs)" "end = rend (last (xs @ ys))"
    and alloc: "(if first \<le> end then if n \<le> N - end then Some end else if n \<le> first then Some 0 else None
        else if n \<le> first - end then Some end else None) = Some off"
  shows "\<exists>xs' ys'. xs @ ys @ [(off, n)] = xs' @ ys' \<and> arena N xs' ys' \<and> off + n \<le> N \<and>
    (\<forall>r \<in> set (xs @ ys). rend r \<le> off \<or> off + n \<le> fst r)"
proof (cases "ys = []")
  case True
  let ?e = "rend (last xs)"
  have e: "fst (hd xs) \<le> ?e" "?e \<le> N" "end = ?e"
    using ar ne True chain_bounds[of xs "last xs"] assms(6) by (auto simp: arena_def rend_def)
  have b: "fst (hd xs) \<le> fst r" "rend r \<le> ?e" if "r \<in> set xs" for r
    using chain_bounds[of xs r] ar that by (auto simp: arena_def)
  show ?thesis
  proof (cases "n \<le> N - ?e")
    case fits: True
    then have off: "off = ?e" using alloc e assms(5) by simp
    have "arena N (xs @ [(off, n)]) []"
      using ar ne fits off e chain_snoc[of xs n] by (auto simp: arena_def rend_def)
    then show ?thesis using True b off fits e by (intro exI[of _ "xs @ [(off, n)]"] exI[of _ "[]"]) auto
  next
    case False
    then have off: "off = 0" "n \<le> fst (hd xs)" "0 < n" using alloc e assms(5) by (auto split: if_splits)
    have "arena N xs [(0, n)]" using ar ne off True by (auto simp: arena_def rend_def)
    then show ?thesis using True b off n by (intro exI[of _ xs] exI[of _ "[(0, n)]"]) (auto intro: order.trans)
  qed
next
  case False
  let ?e = "rend (last ys)"
  have e: "?e < fst (hd xs)" "end = ?e" using ar False free assms(6) by (auto simp: arena_def)
  have off: "off = ?e" "?e + n \<le> fst (hd xs)" using alloc e assms(5) by (auto split: if_splits)
  have bx: "fst (hd xs) \<le> fst r" "rend r \<le> N" if "r \<in> set xs" for r
    using chain_bounds[of xs r] ar that ne by (auto simp: arena_def intro: order.trans)
  have "by": "rend r \<le> ?e" if "r \<in> set ys" for r
    using chain_bounds[of ys r] ar that by (auto simp: arena_def)
  have "arena N xs (ys @ [(off, n)])"
    using ar False off chain_snoc[of ys n] by (auto simp: arena_def rend_def)
  moreover have "fst (hd xs) \<le> N" using bx[of "hd xs"] ne by (auto simp: rend_def)
  ultimately show ?thesis using bx "by" off
    by (intro exI[of _ xs] exI[of _ "ys @ [(off, n)]"]) (auto intro: order.trans)
qed

section \<open>The queue of packets\<close>

text \<open>The metadata slots in use, oldest first: the contents of the metadata ring.\<close>

definition pb_ring :: "'m PacketBuffer \<Rightarrow> 'm PacketMetadata RingBuffer" where
  "pb_ring b = \<lparr>rb_storage = pb_metadata b, rb_head = pb_head b, rb_len = pb_len b\<rparr>"

definition pb_slots :: "'m PacketBuffer \<Rightarrow> 'm PacketMetadata list" where
  "pb_slots b = rb_contents (pb_ring b)"

definition slot_region :: "'m PacketMetadata \<Rightarrow> region" where
  "slot_region m = (pm_offset m, pm_len m)"

definition slot_packet :: "bytes \<Rightarrow> 'm PacketMetadata \<Rightarrow> 'm \<times> bytes" where
  "slot_packet p m = (the (pm_meta m), take (pm_len m) (drop (pm_offset m) p))"

definition pb_packets :: "'m PacketBuffer \<Rightarrow> ('m \<times> bytes) list" where
  "pb_packets b = map (slot_packet (pb_payload b)) (pb_slots b)"

definition pb_inv :: "'m PacketBuffer \<Rightarrow> bool" where
  "pb_inv b \<longleftrightarrow> rb_inv (pb_ring b) \<and> list_all pm_is_used (pb_slots b) \<and>
    pb_used_bytes b = sum_list (map pm_len (pb_slots b)) \<and>
    (\<exists>xs ys. map slot_region (pb_slots b) = xs @ ys \<and> arena (length (pb_payload b)) xs ys \<and> (xs = [] \<longrightarrow> ys = []))"

text \<open>The arena is exactly full: the newest packet ends where the oldest begins.\<close>

definition pb_exactly_full :: "'m PacketBuffer \<Rightarrow> bool" where
  "pb_exactly_full b \<longleftrightarrow> pb_slots b \<noteq> [] \<and> 0 < pb_used_bytes b \<and>
    pm_offset (last (pb_slots b)) + pm_len (last (pb_slots b)) = pm_offset (hd (pb_slots b))"

lemma length_pb_slots: "length (pb_slots b) = pb_len b"
  by (simp add: pb_slots_def rb_contents_def pb_ring_def)

lemma pb_ends:
  assumes "rb_inv (pb_ring b)" "pb_len b \<noteq> 0"
  shows "idx (pb_metadata b) (pb_head b) = Ok (hd (pb_slots b))"
    and "rbind (pb_meta_index b (pb_len b - 1)) (idx (pb_metadata b)) = Ok (last (pb_slots b))"
proof -
  have ne: "pb_metadata b \<noteq> []" and h: "pb_head b < length (pb_metadata b)"
    using assms by (auto simp: rb_inv_def pb_ring_def)
  show "idx (pb_metadata b) (pb_head b) = Ok (hd (pb_slots b))"
    using h assms(2) by (simp add: pb_slots_def rb_contents_def pb_ring_def hd_map upt_conv_Cons)
  show "rbind (pb_meta_index b (pb_len b - 1)) (idx (pb_metadata b)) = Ok (last (pb_slots b))"
    using ne assms(2) by (simp add: pb_meta_index_def pb_slots_def rb_contents_def pb_ring_def last_map)
qed

lemma pb_allocation_offset_eq:
  assumes "rb_inv (pb_ring b)"
  shows "pb_allocation_offset b n = Ok (if length (pb_payload b) < n then None else if pb_len b = 0 then Some 0 else
    (let first = pm_offset (hd (pb_slots b)); e = rend (slot_region (last (pb_slots b))) in
     if first \<le> e then if n \<le> length (pb_payload b) - e then Some e else if n \<le> first then Some 0 else None
     else if n \<le> first - e then Some e else None))"
proof (cases "pb_len b = 0")
  case False
  note e = pb_ends[OF assms False]
  have "rbind (pb_meta_index b (pb_len b - 1)) (\<lambda>i. rbind (idx (pb_metadata b) i) f) = f (last (pb_slots b))" for f :: "'a PacketMetadata \<Rightarrow> nat option result"
    using e(2) rbind_assoc[of "pb_meta_index b (pb_len b - 1)" "idx (pb_metadata b)" f] by simp
  then show ?thesis using e(1) False
    by (simp add: pb_allocation_offset_def Let_def rend_def slot_region_def)
qed (simp add: pb_allocation_offset_def)

lemma pb_slots_push:
  assumes "rb_inv (pb_ring b)" "pb_len b < length (pb_metadata b)"
  shows "\<exists>i. pb_meta_index b (pb_len b) = Ok i \<and> i < length (pb_metadata b) \<and>
    rb_inv (pb_ring (b\<lparr>pb_payload := p, pb_metadata := (pb_metadata b)[i := m], pb_len := pb_len b + 1, pb_used_bytes := u\<rparr>)) \<and>
    pb_slots (b\<lparr>pb_payload := p, pb_metadata := (pb_metadata b)[i := m], pb_len := pb_len b + 1, pb_used_bytes := u\<rparr>) =
      pb_slots b @ [m]"
proof -
  let ?i = "(pb_head b + pb_len b) mod length (pb_metadata b)"
  have ne: "pb_metadata b \<noteq> []" using assms by auto
  then have i: "?i < length (pb_metadata b)" by simp
  obtain t where t: "rb_push_back (pb_ring b) m = (Ok (), t)" "rb_inv t" "rb_contents t = rb_contents (pb_ring b) @ [m]"
    using rb_push_back_appends[OF assms(1), of m] assms(2) by (auto simp: pb_ring_def)
  have "t = \<lparr>rb_storage = (pb_metadata b)[?i := m], rb_head = pb_head b, rb_len = pb_len b + 1\<rparr>"
    using t(1) i ne assms(2) by (auto simp: rb_push_back_def pb_ring_def Let_def)
  then show ?thesis using t i ne by (intro exI[of _ ?i]) (auto simp: pb_meta_index_def pb_slots_def pb_ring_def)
qed

lemma arena_exactly_full:
  assumes "map slot_region (pb_slots b) = xs @ ys" "arena n xs ys" "ys \<noteq> []"
    "pb_used_bytes b = sum_list (map pm_len (pb_slots b))" "\<not> pb_exactly_full b"
  shows "rend (last ys) \<noteq> fst (hd xs)"
proof
  assume eq: "rend (last ys) = fst (hd xs)"
  have ne: "pb_slots b \<noteq> []" "xs \<noteq> []" using assms(1-3) by (auto simp: arena_def)
  have l: "slot_region (last (pb_slots b)) = last ys" "slot_region (hd (pb_slots b)) = hd xs"
    using assms(1,3) ne by (metis last_appendR last_map, metis hd_append2 hd_map)
  have "map pm_len (pb_slots b) = map snd (xs @ ys)"
    unfolding assms(1)[symmetric] by (simp add: slot_region_def comp_def)
  then have "0 < pb_used_bytes b" using assms(2,3,4) by (simp add: arena_def)
  moreover have "pm_offset (last (pb_slots b)) + pm_len (last (pb_slots b)) = pm_offset (hd (pb_slots b))"
    using eq unfolding l[symmetric] by (simp add: rend_def slot_region_def)
  ultimately show False using assms(5) ne by (simp add: pb_exactly_full_def)
qed

text \<open>The allocator's answer extends the arena and touches no queued packet.\<close>

lemma pb_alloc_extends:
  assumes inv: "pb_inv b" "\<not> pb_exactly_full b"
    and alloc: "pb_allocation_offset b n = Ok (Some off)"
  shows "\<exists>xs ys. map slot_region (pb_slots b) @ [(off, n)] = xs @ ys \<and> arena (length (pb_payload b)) xs ys \<and> xs \<noteq> []"
    and "off + n \<le> length (pb_payload b)"
    and "\<And>m. m \<in> set (pb_slots b) \<Longrightarrow> pm_offset m + pm_len m \<le> off \<or> off + n \<le> pm_offset m"
    and "\<And>m. m \<in> set (pb_slots b) \<Longrightarrow> pm_offset m + pm_len m \<le> length (pb_payload b)"
proof -
  let ?N = "length (pb_payload b)"
  obtain xs ys where q: "map slot_region (pb_slots b) = xs @ ys" "arena ?N xs ys" "xs = [] \<longrightarrow> ys = []"
    and ring: "rb_inv (pb_ring b)" using inv by (auto simp: pb_inv_def)
  have reg: "m \<in> set (pb_slots b) \<Longrightarrow> slot_region m \<in> set (xs @ ys)" for m
    unfolding q(1)[symmetric] by simp
  show "pm_offset m + pm_len m \<le> ?N" if "m \<in> set (pb_slots b)" for m
    using arena_in_range[OF q(2) reg[OF that]] by (simp add: rend_def slot_region_def)
  note al = alloc[unfolded pb_allocation_offset_eq[OF ring] Let_def]
  have n: "n \<le> ?N" using al by (auto split: if_splits)
  have "\<exists>xs' ys'. xs @ ys @ [(off, n)] = xs' @ ys' \<and> arena ?N xs' ys' \<and> off + n \<le> ?N \<and>
    (\<forall>r \<in> set (xs @ ys). rend r \<le> off \<or> off + n \<le> fst r)"
  proof (cases "xs = []")
    case True
    then have "pb_len b = 0" using q length_pb_slots[of b] by auto
    then have "off = 0" using al n by simp
    then show ?thesis using True q n by (intro exI[of _ "[(0, n)]"] exI[of _ "[]"]) (auto simp: arena_def rend_def)
  next
    case False
    then have "pb_slots b \<noteq> []" using q(1) by auto
    then have len: "pb_len b \<noteq> 0" "pb_slots b \<noteq> []" using length_pb_slots[of b] by (metis length_0_conv)+
    have "slot_region (last (pb_slots b)) = last (xs @ ys)" "slot_region (hd (pb_slots b)) = hd xs"
      using q(1) len False by (metis last_map, metis hd_append2 hd_map)
    then have "pm_offset (hd (pb_slots b)) = fst (hd xs)"
      "rend (slot_region (last (pb_slots b))) = rend (last (xs @ ys))"
      by (metis fst_conv slot_region_def, simp)
    from this al show ?thesis
      using arena_extend[OF q(2) False n arena_exactly_full[OF q(1,2)]] inv len n
      by (simp add: pb_inv_def)
  qed
  then obtain xs' ys' where e: "xs @ ys @ [(off, n)] = xs' @ ys'" "arena ?N xs' ys'" "off + n \<le> ?N"
    "\<forall>r \<in> set (xs @ ys). rend r \<le> off \<or> off + n \<le> fst r" by blast
  have "xs' \<noteq> []" using e(1,2) by (auto simp: arena_def)
  then show "\<exists>xs ys. map slot_region (pb_slots b) @ [(off, n)] = xs @ ys \<and> arena ?N xs ys \<and> xs \<noteq> []"
    using q(1) e by (metis append.assoc)
  show "off + n \<le> ?N" by (rule e)
  show "pm_offset m + pm_len m \<le> off \<or> off + n \<le> pm_offset m" if "m \<in> set (pb_slots b)" for m
    using bspec[OF e(4) reg[OF that]] by (simp add: rend_def slot_region_def)
qed

lemma pb_enqueue_step:
  assumes inv: "pb_inv b" "\<not> pb_exactly_full b"
  shows "pb_enqueue b m d = (Err BufferFull, b) \<or>
    (\<exists>t. pb_enqueue b m d = (Ok (), t) \<and> pb_inv t \<and> pb_packets t = pb_packets b @ [(m, d)])"
proof (cases "pb_metadata b = [] \<or> pb_len b = length (pb_metadata b)")
  case False
  have ring: "rb_inv (pb_ring b)" and len: "pb_len b < length (pb_metadata b)"
    using inv False by (auto simp: pb_inv_def rb_inv_def pb_ring_def)
  let ?n = "length d"
  obtain r where r: "pb_allocation_offset b ?n = Ok r" using pb_allocation_offset_eq[OF ring] by simp
  show ?thesis
  proof (cases r)
    case None
    then show ?thesis using False r by (simp add: pb_enqueue_def lift_r_def)
  next
    case (Some off)
    note ext = pb_alloc_extends[OF inv r[unfolded Some]]
    let ?p = "take off (pb_payload b) @ d @ drop (off + ?n) (pb_payload b)"
    let ?m = "\<lparr>pm_meta = Some m, pm_offset = off, pm_len = ?n\<rparr>"
    obtain i where i: "pb_meta_index b (pb_len b) = Ok i" "i < length (pb_metadata b)"
      and push: "rb_inv (pb_ring (b\<lparr>pb_payload := ?p, pb_metadata := (pb_metadata b)[i := ?m], pb_len := pb_len b + 1,
          pb_used_bytes := pb_used_bytes b + ?n\<rparr>))"
        "pb_slots (b\<lparr>pb_payload := ?p, pb_metadata := (pb_metadata b)[i := ?m], pb_len := pb_len b + 1,
          pb_used_bytes := pb_used_bytes b + ?n\<rparr>) = pb_slots b @ [?m]"
      using pb_slots_push[OF ring len, where p = ?p and m = ?m and u = "pb_used_bytes b + ?n"] by blast
    let ?t = "b\<lparr>pb_payload := ?p, pb_metadata := (pb_metadata b)[i := ?m], pb_len := pb_len b + 1,
          pb_used_bytes := pb_used_bytes b + ?n\<rparr>"
    have enq: "pb_enqueue b m d = (Ok (), ?t)"
      using False r Some i ext(2) by (simp add: pb_enqueue_def)
    have "length ?p = length (pb_payload b)" using ext(2) by simp
    then have "pb_inv ?t"
      using inv push ext(1) by (auto simp: pb_inv_def pm_is_used_def slot_region_def)
    moreover have "slot_packet ?p s = slot_packet (pb_payload b) s" if "s \<in> set (pb_slots b)" for s
      using copy_outside[OF ext(2) ext(3)[OF that] ext(4)[OF that]] by (simp add: slot_packet_def)
    moreover have "slot_packet ?p ?m = (m, d)" using ext(2) by (simp add: slot_packet_def)
    ultimately have "pb_inv ?t \<and> pb_packets ?t = pb_packets b @ [(m, d)]"
      using push(2) by (simp add: pb_packets_def)
    then show ?thesis using enq by blast
  qed
qed (simp add: pb_enqueue_def)

lemma pb_advance_step:
  assumes inv: "pb_inv b" "pb_len b \<noteq> 0"
  shows "pb_inv (pb_advance b (hd (pb_slots b)))" "pb_packets (pb_advance b (hd (pb_slots b))) = tl (pb_packets b)"
proof -
  let ?n = "length (pb_metadata b)" and ?t = "pb_advance b (hd (pb_slots b))"
  have ring: "rb_inv (pb_ring b)" using inv by (simp add: pb_inv_def)
  have h: "pb_head b < ?n" "pb_len b \<le> ?n" using ring inv(2) by (auto simp: rb_inv_def pb_ring_def)
  have ne: "pb_head b \<noteq> (pb_head b + Suc i) mod ?n" if "i < pb_len b - 1" for i
  proof
    assume eq: "pb_head b = (pb_head b + Suc i) mod ?n"
    have "Suc i < ?n" using that h by linarith
    moreover have "(pb_head b + 0) mod ?n = (pb_head b + Suc i) mod ?n" using eq h by simp
    moreover have "0 < ?n" using h by linarith
    ultimately show False using mod_add_inject[of "pb_head b" 0 ?n "Suc i"] by blast
  qed
  have slots: "pb_slots ?t = tl (pb_slots b)"
  proof (rule nth_equalityI)
    fix i assume "i < length (pb_slots ?t)"
    then have "i < pb_len b - 1" by (simp add: length_pb_slots pb_advance_def Let_def split: if_splits)
    then show "pb_slots ?t ! i = tl (pb_slots b) ! i"
      using ne[of i] by (auto simp: pb_slots_def rb_contents_def pb_ring_def pb_advance_def Let_def nth_tl mod_add_left_eq)
  qed (simp add: length_pb_slots pb_advance_def Let_def)
  have pay: "pb_payload ?t = pb_payload b" by (simp add: pb_advance_def Let_def)
  show "pb_packets ?t = tl (pb_packets b)" by (simp add: pb_packets_def slots pay map_tl)
  have "pb_slots b \<noteq> []" using inv(2) length_pb_slots[of b] by auto
  then obtain s ss where s: "pb_slots b = s # ss" by (cases "pb_slots b") auto
  obtain xs ys where q: "map slot_region (pb_slots b) = xs @ ys" "arena (length (pb_payload b)) xs ys" "xs = [] \<longrightarrow> ys = []"
    using inv by (auto simp: pb_inv_def)
  then obtain r rs where x: "xs = r # rs" using s by (cases xs) auto
  have "map slot_region ss = rs @ ys" using q s x by simp
  then have "\<exists>xs ys. map slot_region ss = xs @ ys \<and> arena (length (pb_payload b)) xs ys \<and> (xs = [] \<longrightarrow> ys = [])"
    using arena_tl[of _ r rs ys] q(2) x by (cases "rs = []") force+
  moreover have "rb_inv (pb_ring ?t)" using h by (auto simp: rb_inv_def pb_ring_def pb_advance_def Let_def)
  moreover have "pb_used_bytes ?t = sum_list (map pm_len ss)"
    using inv s by (auto simp: pb_inv_def pb_advance_def Let_def)
  ultimately show "pb_inv ?t" using inv slots pay s by (simp add: pb_inv_def)
qed

lemma pb_head_packet:
  assumes "pb_inv b" "pb_packets b = (m, d) # ps"
  shows "pm_meta (hd (pb_slots b)) = Some m" "d = take (pm_len (hd (pb_slots b))) (drop (pm_offset (hd (pb_slots b))) (pb_payload b))"
    "pm_offset (hd (pb_slots b)) + pm_len (hd (pb_slots b)) \<le> length (pb_payload b)"
proof -
  let ?s = "hd (pb_slots b)"
  obtain ss where s: "pb_slots b = ?s # ss" using assms(2) by (cases "pb_slots b") (auto simp: pb_packets_def)
  show "pm_meta ?s = Some m" "d = take (pm_len ?s) (drop (pm_offset ?s) (pb_payload b))"
    using assms s by (auto simp: pb_inv_def pb_packets_def slot_packet_def pm_is_used_def list_all_iff)
  obtain xs ys where "map slot_region (pb_slots b) = xs @ ys" "arena (length (pb_payload b)) xs ys"
    using assms(1) by (auto simp: pb_inv_def)
  then have "rend (slot_region ?s) \<le> length (pb_payload b)"
    using arena_in_range[of _ xs ys "slot_region ?s"] s by (metis list.set_intros(1) list.simps(9))
  then show "pm_offset ?s + pm_len ?s \<le> length (pb_payload b)" by (simp add: rend_def slot_region_def)
qed

lemma pb_dequeue_step:
  assumes inv: "pb_inv b" and ne: "pb_packets b = (m, d) # ps" and room: "length d \<le> length out"
  shows "\<exists>t. pb_dequeue_into b out = (Ok (Some (m, length d), d @ drop (length d) out), t) \<and> pb_inv t \<and> pb_packets t = ps"
proof -
  have len: "pb_len b \<noteq> 0" using ne length_pb_slots[of b] by (auto simp: pb_packets_def)
  have ring: "rb_inv (pb_ring b)" using inv by (simp add: pb_inv_def)
  let ?s = "hd (pb_slots b)"
  note used = pb_head_packet(1)[OF inv ne] and dd = pb_head_packet(2)[OF inv ne] and fit = pb_head_packet(3)[OF inv ne]
  then have ld: "length d = pm_len ?s" by (subst dd) simp
  have sl: "slice (pb_payload b) (pm_offset ?s) (pm_offset ?s + pm_len ?s) = Ok d"
    using fit by (subst dd) simp
  have "pb_dequeue_into b out = (Ok (Some (m, length d), d @ drop (length d) out), pb_advance b ?s)"
    using len pb_ends(1)[OF ring len] used sl ld room by (simp add: pb_dequeue_into_def lift_r_def)
  then show ?thesis using pb_advance_step[OF inv len] ne by simp
qed

section \<open>Properties\<close>

text \<open>C25. A packet buffer is a FIFO of packets as long as the arena is not wrapped and exactly full: from any
  state the invariant allows, an enqueue either reports \<open>BufferFull\<close> and changes nothing, or appends the packet
  and leaves every queued packet intact; a dequeue with enough room returns the oldest packet, metadata and
  payload, and removes just that one.\<close>

theorem packet_buffer_fifo:
  assumes "pb_inv b"
  shows "(\<not> pb_exactly_full b \<longrightarrow> pb_enqueue b m d = (Err BufferFull, b) \<or>
      (\<exists>t. pb_enqueue b m d = (Ok (), t) \<and> pb_inv t \<and> pb_packets t = pb_packets b @ [(m, d)])) \<and>
    (\<forall>m d ps. pb_packets b = (m, d) # ps \<and> length d \<le> length out \<longrightarrow>
      (\<exists>t. pb_dequeue_into b out = (Ok (Some (m, length d), d @ drop (length d) out), t) \<and> pb_inv t \<and> pb_packets t = ps))"
  using pb_enqueue_step[OF assms] pb_dequeue_step[OF assms] by blast

lemma pb_new_inv: "pb_inv (pb_new ms p)" "pb_packets (pb_new ms p) = []"
proof -
  have "pb_slots (pb_new ms p) = []" by (simp add: pb_slots_def rb_contents_def pb_ring_def pb_new_def)
  then show "pb_inv (pb_new ms p)" "pb_packets (pb_new ms p) = []"
    by (auto simp: pb_inv_def rb_inv_def pb_ring_def pb_new_def arena_def pb_packets_def intro!: exI[of _ "[]"])
qed

theorem packet_buffer_fifo_witness:
  "\<exists>t. pb_enqueue (pb_new [pm_empty, pm_empty] [0, 0, 0, 0]) True [1, 2] = (Ok (), t) \<and> pb_inv t \<and> pb_packets t = [(True, [1, 2])]"
proof -
  have "\<not> pb_exactly_full (pb_new [pm_empty :: bool PacketMetadata, pm_empty] [0, 0, 0, 0])"
    by (simp add: pb_exactly_full_def pb_new_def)
  moreover have "pb_enqueue (pb_new [pm_empty, pm_empty] [0, 0, 0, 0]) True [1, 2] \<noteq>
      (Err BufferFull, pb_new [pm_empty, pm_empty] [0, 0, 0, 0])"
    by (simp add: pb_enqueue_def pb_new_def pb_allocation_offset_def pb_meta_index_def)
  ultimately show ?thesis
    using packet_buffer_fifo[OF pb_new_inv(1), of "[pm_empty, pm_empty]" "[0, 0, 0, 0]" True "[1, 2]" "[]"]
    by (simp add: pb_new_inv)
qed

text \<open>C29. In the exactly full state the allocator takes the arena for empty. Whenever the newest queued packet ends where the
  oldest begins, a metadata slot is free and the data fits between the oldest packet's offset and the end of the arena,
  \<open>enqueue\<close> succeeds and writes the data over the oldest packet, which is still queued: the next packet to come out
  has the metadata of the oldest packet and the bytes of the new one, followed by what the new one left of the old.\<close>

theorem packet_buffer_overwrites_oldest:
  assumes "pb_inv b" "pb_exactly_full b" "pb_len b < length (pb_metadata b)" "pb_packets b = (m\<^sub>0, d\<^sub>0) # ps"
    and "pm_offset (hd (pb_slots b)) + length d \<le> length (pb_payload b)"
  shows "\<exists>t. pb_enqueue b m d = (Ok (), t) \<and> pb_len t = pb_len b + 1 \<and>
    pb_peek t = Ok (Some (m\<^sub>0, take (length d\<^sub>0) (d @ drop (length d) d\<^sub>0)))"
proof -
  let ?s = "hd (pb_slots b)" and ?n = "length d"
  let ?o = "pm_offset ?s"
  have ring: "rb_inv (pb_ring b)" using assms(1) by (simp add: pb_inv_def)
  have len: "pb_len b \<noteq> 0" using assms(4) length_pb_slots[of b] by (auto simp: pb_packets_def)
  have head: "pm_meta ?s = Some m\<^sub>0" "d\<^sub>0 = take (pm_len ?s) (drop ?o (pb_payload b))" "?o + pm_len ?s \<le> length (pb_payload b)"
    using pb_head_packet[OF assms(1,4)] by simp_all
  have "rend (slot_region (last (pb_slots b))) = ?o" using assms(2) by (simp add: pb_exactly_full_def rend_def slot_region_def)
  then have alloc: "pb_allocation_offset b ?n = Ok (Some ?o)"
    using assms(5) len by (simp add: pb_allocation_offset_eq[OF ring] Let_def)
  let ?p = "take ?o (pb_payload b) @ d @ drop (?o + ?n) (pb_payload b)"
  let ?m = "\<lparr>pm_meta = Some m, pm_offset = ?o, pm_len = ?n\<rparr>"
  obtain i where i: "pb_meta_index b (pb_len b) = Ok i" "i < length (pb_metadata b)"
    and push: "rb_inv (pb_ring (b\<lparr>pb_payload := ?p, pb_metadata := (pb_metadata b)[i := ?m], pb_len := pb_len b + 1,
        pb_used_bytes := pb_used_bytes b + ?n\<rparr>))"
      "pb_slots (b\<lparr>pb_payload := ?p, pb_metadata := (pb_metadata b)[i := ?m], pb_len := pb_len b + 1,
        pb_used_bytes := pb_used_bytes b + ?n\<rparr>) = pb_slots b @ [?m]"
    using pb_slots_push[OF ring assms(3), where p = ?p and m = ?m and u = "pb_used_bytes b + ?n"] by blast
  let ?t = "b\<lparr>pb_payload := ?p, pb_metadata := (pb_metadata b)[i := ?m], pb_len := pb_len b + 1,
        pb_used_bytes := pb_used_bytes b + ?n\<rparr>"
  have enq: "pb_enqueue b m d = (Ok (), ?t)" using assms(3,5) alloc i by (auto simp: pb_enqueue_def)
  have "hd (pb_slots ?t) = ?s" using push(2) assms(4) by (auto simp: pb_packets_def hd_append)
  then have "idx (pb_metadata ?t) (pb_head ?t) = Ok ?s" using pb_ends(1)[OF push(1)] by simp
  moreover have "take (pm_len ?s) (drop ?o ?p) = take (length d\<^sub>0) (d @ drop ?n d\<^sub>0)"
    using head(2,3) assms(5) by (cases "?n \<le> pm_len ?s") (simp_all add: drop_take add.commute)
  ultimately have "pb_peek ?t = Ok (Some (m\<^sub>0, take (length d\<^sub>0) (d @ drop ?n d\<^sub>0)))"
    using head(1,3) assms(5) by (simp add: pb_peek_def)
  then show ?thesis using enq by (intro exI[of _ ?t]) simp
qed

text \<open>The state is reachable: packets A and B of four bytes in an arena of twelve, A dequeued, C and D enqueued (D wraps to
  offset 0 and ends where B begins); then E is accepted and written over B.\<close>

definition overwrite_run :: "nat PacketBuffer" where
  "overwrite_run =
    (let b = pb_new (replicate 4 pm_empty) (replicate 12 0);
         b = snd (pb_enqueue b 0 [10, 10, 10, 10]);
         b = snd (pb_enqueue b 1 [11, 11, 11, 11]);
         b = snd (pb_dequeue_into b [0, 0, 0, 0]);
         b = snd (pb_enqueue b 2 [12, 12, 12, 12])
     in snd (pb_enqueue b 3 [13, 13, 13, 13]))"

lemma overwrite_run_state:
  "pb_exactly_full overwrite_run" "pb_len overwrite_run = 3" "length (pb_metadata overwrite_run) = 4"
  "pb_packets overwrite_run = [(1, [11, 11, 11, 11]), (2, [12, 12, 12, 12]), (3, [13, 13, 13, 13])]"
  "map slot_region (pb_slots overwrite_run) = [(4, 4), (8, 4)] @ [(0, 4)]" "length (pb_payload overwrite_run) = 12"
  "pb_used_bytes overwrite_run = 12" "list_all pm_is_used (pb_slots overwrite_run)" "pb_head overwrite_run = 1"
  "map pm_len (pb_slots overwrite_run) = [4, 4, 4]" "pm_offset (hd (pb_slots overwrite_run)) = 4"
  by code_simp+

lemma overwrite_run_inv: "pb_inv overwrite_run"
proof -
  have "arena 12 [(4, 4), (8, 4)] [(0, 4)]" by (simp add: arena_def rend_def)
  then have "\<exists>xs ys. map slot_region (pb_slots overwrite_run) = xs @ ys \<and> arena (length (pb_payload overwrite_run)) xs ys \<and>
      (xs = [] \<longrightarrow> ys = [])"
    unfolding overwrite_run_state(5,6) by blast
  moreover have "rb_inv (pb_ring overwrite_run)" by (simp add: rb_inv_def pb_ring_def overwrite_run_state)
  ultimately show ?thesis by (simp add: pb_inv_def overwrite_run_state(7,8,10))
qed

theorem packet_buffer_overwrites_oldest_witness:
  "pb_packets overwrite_run = [(1, [11, 11, 11, 11]), (2, [12, 12, 12, 12]), (3, [13, 13, 13, 13])] \<and>
   (\<exists>t. pb_enqueue overwrite_run 4 [14, 14, 14, 14] = (Ok (), t) \<and> pb_peek t = Ok (Some (1, [14, 14, 14, 14])))"
  using packet_buffer_overwrites_oldest[OF overwrite_run_inv overwrite_run_state(1) _ overwrite_run_state(4), of "[14, 14, 14, 14]" 4]
    overwrite_run_state by auto

end
