(* ===== verification/Handle_Store.thy ===== *)
theory Handle_Store
  imports Gnet_Prelude
begin

text \<open>
  The contract shared by the slot stores of the sources (\<open>MessagePool\<close> of src/src/storage.rs, \<open>SocketSet\<close> and
  \<open>OwnedSocketSet\<close> of src/src/socket.rs): a value is stored under a handle the store chooses, can be read back
  under that handle until it is removed, and no operation disturbs another handle. The runs of a client are
  proved once to be those of a finite map with fresh keys.
\<close>

datatype ('h, 'v) store_op = Store 'v | Release 'h

datatype ('h, 'v) store_event = Stored 'h 'v | Released 'h | Refused error | Aborted

text \<open>One call of a client, and the event it observes.\<close>

definition store_step ::
    "('s \<Rightarrow> 'v \<Rightarrow> ('s, 'h) outcome) \<Rightarrow> ('s \<Rightarrow> 'h \<Rightarrow> ('s, 'r) outcome) \<Rightarrow> 's \<Rightarrow> ('h, 'v) store_op \<Rightarrow>
     ('h, 'v) store_event \<times> 's" where
  "store_step put del s c = (case c of
      Store v \<Rightarrow> (case put s v of (Ok h, t) \<Rightarrow> (Stored h v, t) | (Err e, t) \<Rightarrow> (Refused e, t) | (Panic, t) \<Rightarrow> (Aborted, t))
    | Release h \<Rightarrow> (case del s h of (Ok _, t) \<Rightarrow> (Released h, t) | (Err e, t) \<Rightarrow> (Refused e, t) | (Panic, t) \<Rightarrow> (Aborted, t)))"

fun store_run ::
    "('s \<Rightarrow> 'v \<Rightarrow> ('s, 'h) outcome) \<Rightarrow> ('s \<Rightarrow> 'h \<Rightarrow> ('s, 'r) outcome) \<Rightarrow> 's \<Rightarrow> ('h, 'v) store_op list \<Rightarrow>
     ('h, 'v) store_event list \<times> 's" where
  "store_run put del s [] = ([], s)"
| "store_run put del s (c # cs) =
    (let (ev, t) = store_step put del s c; (evs, u) = store_run put del t cs in (ev # evs, u))"

text \<open>The finite map the events describe, and when an event is legal for it: a stored handle is fresh, a
  released one is live, nothing aborts.\<close>

fun event_map :: "('h \<Rightarrow> 'v option) \<Rightarrow> ('h, 'v) store_event \<Rightarrow> 'h \<Rightarrow> 'v option" where
  "event_map m (Stored h v) = m(h \<mapsto> v)"
| "event_map m (Released h) = m(h := None)"
| "event_map m (Refused e) = m"
| "event_map m Aborted = m"

fun event_ok :: "('h \<Rightarrow> 'v option) \<Rightarrow> ('h, 'v) store_event \<Rightarrow> bool" where
  "event_ok m (Stored h v) = (m h = None)"
| "event_ok m (Released h) = (m h \<noteq> None)"
| "event_ok m (Refused e) = True"
| "event_ok m Aborted = False"

fun events_ok :: "('h \<Rightarrow> 'v option) \<Rightarrow> ('h, 'v) store_event list \<Rightarrow> bool" where
  "events_ok m [] = True"
| "events_ok m (e # es) = (event_ok m e \<and> events_ok (event_map m e) es)"

locale handle_store =
  fixes inv_s :: "'s \<Rightarrow> bool"
    and lookup :: "'s \<Rightarrow> 'h \<Rightarrow> 'v option"
    and put :: "'s \<Rightarrow> 'v \<Rightarrow> ('s, 'h) outcome"
    and del :: "'s \<Rightarrow> 'h \<Rightarrow> ('s, 'r) outcome"
  assumes insert_ok: "inv_s s \<Longrightarrow> put s v = (Ok h, t) \<Longrightarrow> inv_s t \<and> lookup s h = None \<and> lookup t = (lookup s)(h \<mapsto> v)"
    and insert_err: "inv_s s \<Longrightarrow> put s v = (Err e, t) \<Longrightarrow> t = s"
    and insert_safe: "inv_s s \<Longrightarrow> fst (put s v) \<noteq> Panic"
    and remove_live: "inv_s s \<Longrightarrow> lookup s h \<noteq> None \<Longrightarrow> \<exists>r t. del s h = (Ok r, t) \<and> inv_s t \<and> lookup t = (lookup s)(h := None)"
    and remove_dead: "inv_s s \<Longrightarrow> lookup s h = None \<Longrightarrow> \<exists>e. del s h = (Err e, s)"
begin

lemma store_step_refines:
  assumes "inv_s s" "store_step put del s c = (ev, t)"
  shows "inv_s t \<and> event_ok (lookup s) ev \<and> lookup t = event_map (lookup s) ev"
proof (cases c)
  case (Store v)
  obtain r u where i: "put s v = (r, u)" by fastforce
  show ?thesis
    using assms Store i insert_ok[OF assms(1), of v] insert_err[OF assms(1), of v] insert_safe[OF assms(1), of v]
    by (cases r) (auto simp: store_step_def)
next
  case (Release h)
  then show ?thesis
    using assms remove_live[OF assms(1), of h] remove_dead[OF assms(1), of h]
    by (cases "lookup s h = None") (auto simp: store_step_def)
qed

lemma store_run_refines:
  "inv_s s \<Longrightarrow> store_run put del s cs = (evs, t) \<Longrightarrow>
   inv_s t \<and> events_ok (lookup s) evs \<and> lookup t = foldl event_map (lookup s) evs"
proof (induction cs arbitrary: s evs)
  case (Cons c cs)
  obtain ev u where s: "store_step put del s c = (ev, u)" by fastforce
  obtain es where r: "store_run put del u cs = (es, t)" and e: "evs = ev # es"
    using Cons.prems(2) s by (auto split: prod.splits)
  show ?case using store_step_refines[OF Cons.prems(1) s] Cons.IH[OF _ r] e by auto
qed simp

end

end
