(* ===== verification/Message_Pool.thy ===== *)
theory Message_Pool
  imports Handle_Store
begin

text \<open>
  The random-access message pool of src/src/storage.rs: a byte arena divided evenly between slots. It is a
  \<open>handle_store\<close> whose handles are slot indices and whose values are a message and its metadata.
\<close>

section \<open>Definitions\<close>

record 'm MessageSlot =
  ms_meta :: "'m option"
  ms_len :: nat

definition ms_empty :: "'m MessageSlot" where
  "ms_empty = \<lparr>ms_meta = None, ms_len = 0\<rparr>"

definition ms_is_used :: "'m MessageSlot \<Rightarrow> bool" where
  "ms_is_used s = (ms_meta s \<noteq> None)"

record 'm MessagePool =
  mp_slots :: "'m MessageSlot list"
  mp_bytes :: bytes
  mp_slot_size :: nat

definition mp_new :: "'m MessageSlot list \<Rightarrow> bytes \<Rightarrow> 'm MessagePool result" where
  "mp_new slots bs =
    (if slots = [] \<or> length bs < length slots then Err InvalidLength
     else let slot_size = length bs div length slots in
     if slot_size = 0 then Err InvalidLength
     else Ok \<lparr>mp_slots = map (\<lambda>_. ms_empty) slots, mp_bytes = bs, mp_slot_size = slot_size\<rparr>)"

definition mp_capacity :: "'m MessagePool \<Rightarrow> nat" where
  "mp_capacity p = length (mp_slots p)"

definition mp_used :: "'m MessagePool \<Rightarrow> nat" where
  "mp_used p = length (filter (\<lambda>s. ms_meta s \<noteq> None) (mp_slots p))"

definition mp_free :: "'m MessagePool \<Rightarrow> nat" where
  "mp_free p = mp_capacity p - mp_used p"

text \<open>\<open>iter().position(f)\<close>.\<close>

fun position :: "('a \<Rightarrow> bool) \<Rightarrow> 'a list \<Rightarrow> nat option" where
  "position f [] = None"
| "position f (x # xs) = (if f x then Some 0 else map_option Suc (position f xs))"

definition mp_insert :: "'m MessagePool \<Rightarrow> 'm \<times> bytes \<Rightarrow> ('m MessagePool, nat) outcome" where
  "mp_insert p md = (case md of (meta, data) \<Rightarrow>
    (if mp_slot_size p < length data then (Err MessageTooLarge, p)
     else sbind (lift_r (ok_or (position (\<lambda>s. ms_meta s = None) (mp_slots p)) BufferFull) p) (\<lambda>i p.
       sbind (lift_r (copy_at (mp_bytes p) (i * mp_slot_size p) data) p) (\<lambda>bs p.
       let p = p\<lparr>mp_bytes := bs\<rparr> in
       sbind (lift_r (upd (mp_slots p) i \<lparr>ms_meta = Some meta, ms_len = length data\<rparr>) p) (\<lambda>ss p.
       (Ok i, p\<lparr>mp_slots := ss\<rparr>))))))"

definition mp_get :: "'m MessagePool \<Rightarrow> nat \<Rightarrow> ('m \<times> bytes) option result" where
  "mp_get p i =
    (if \<not> i < length (mp_slots p) then Ok None
     else case ms_meta (mp_slots p ! i) of None \<Rightarrow> Ok None
     | Some meta \<Rightarrow>
         let start = i * mp_slot_size p in
         rbind (slice (mp_bytes p) start (start + ms_len (mp_slots p ! i))) (\<lambda>d. Ok (Some (meta, d))))"

definition mp_meta :: "'m MessagePool \<Rightarrow> nat \<Rightarrow> 'm option" where
  "mp_meta p i = (if i < length (mp_slots p) then ms_meta (mp_slots p ! i) else None)"

definition mp_set_meta :: "'m MessagePool \<Rightarrow> nat \<Rightarrow> 'm \<Rightarrow> ('m MessagePool, unit) outcome" where
  "mp_set_meta p i meta =
    (if \<not> i < length (mp_slots p) then (Err InvalidField, p)
     else if ms_meta (mp_slots p ! i) = None then (Err InvalidState, p)
     else (Ok (), p\<lparr>mp_slots := (mp_slots p)[i := (mp_slots p ! i)\<lparr>ms_meta := Some meta\<rparr>]\<rparr>))"

definition mp_remove_into :: "'m MessagePool \<Rightarrow> nat \<Rightarrow> bytes \<Rightarrow> ('m MessagePool, ('m \<times> nat) \<times> bytes) outcome" where
  "mp_remove_into p i out =
    (if \<not> i < length (mp_slots p) then (Err InvalidField, p)
     else let slot = mp_slots p ! i in
     sbind (lift_r (ok_or (ms_meta slot) InvalidState) p) (\<lambda>meta p.
       if length out < ms_len slot then (Err BufferFull, p)
       else let start = i * mp_slot_size p in
       sbind (lift_r (slice (mp_bytes p) start (start + ms_len slot)) p) (\<lambda>d p.
       sbind (lift_r (copy_at out 0 d) p) (\<lambda>out p.
       (Ok ((meta, ms_len slot), out), p\<lparr>mp_slots := (mp_slots p)[i := ms_empty]\<rparr>)))))"

definition mp_remove :: "'m MessagePool \<Rightarrow> nat \<Rightarrow> ('m MessagePool, 'm) outcome" where
  "mp_remove p i =
    (if \<not> i < length (mp_slots p) then (Err InvalidField, p)
     else sbind (lift_r (ok_or (ms_meta (mp_slots p ! i)) InvalidState) p) (\<lambda>meta p.
       (Ok meta, p\<lparr>mp_slots := (mp_slots p)[i := ms_empty]\<rparr>)))"

definition mp_clear :: "'m MessagePool \<Rightarrow> 'm MessagePool" where
  "mp_clear p = p\<lparr>mp_slots := map (\<lambda>_. ms_empty) (mp_slots p)\<rparr>"

definition mp_find :: "'m MessagePool \<Rightarrow> ('m \<Rightarrow> bool) \<Rightarrow> nat option" where
  "mp_find p f = position (\<lambda>s. case ms_meta s of None \<Rightarrow> False | Some m \<Rightarrow> f m) (mp_slots p)"

text \<open>\<open>for_each\<close> visits the used slots in index order; the visits are the returned list.\<close>

definition mp_for_each :: "'m MessagePool \<Rightarrow> (nat \<times> 'm) list" where
  "mp_for_each p = concat (map (\<lambda>i. case ms_meta (mp_slots p ! i) of None \<Rightarrow> [] | Some m \<Rightarrow> [(i, m)]) [0..<length (mp_slots p)])"

section \<open>Invariant and refinement\<close>

definition mp_inv :: "'m MessagePool \<Rightarrow> bool" where
  "mp_inv p \<longleftrightarrow> length (mp_slots p) * mp_slot_size p \<le> length (mp_bytes p) \<and>
    (\<forall>i < length (mp_slots p). ms_len (mp_slots p ! i) \<le> mp_slot_size p)"

definition mp_lookup :: "'m MessagePool \<Rightarrow> nat \<Rightarrow> ('m \<times> bytes) option" where
  "mp_lookup p i = (if i < length (mp_slots p)
     then map_option (\<lambda>m. (m, take (ms_len (mp_slots p ! i)) (drop (i * mp_slot_size p) (mp_bytes p)))) (ms_meta (mp_slots p ! i))
     else None)"

lemma position_Some: "position f xs = Some i \<Longrightarrow> i < length xs \<and> f (xs ! i)"
  by (induction xs arbitrary: i) (auto split: if_splits)

lemma position_None: "position f xs = None \<longleftrightarrow> (\<forall>x \<in> set xs. \<not> f x)"
  by (induction xs) auto

lemma slot_in_arena: "mp_inv p \<Longrightarrow> i < length (mp_slots p) \<Longrightarrow> n \<le> mp_slot_size p \<Longrightarrow> i * mp_slot_size p + n \<le> length (mp_bytes p)"
proof -
  assume a: "mp_inv p" "i < length (mp_slots p)" "n \<le> mp_slot_size p"
  have "i * mp_slot_size p + n \<le> Suc i * mp_slot_size p" using a by simp
  also have "\<dots> \<le> length (mp_slots p) * mp_slot_size p" using a by (intro mult_le_mono1) simp
  finally show ?thesis using a by (simp add: mp_inv_def)
qed

lemma slots_disjoint:
  fixes i j :: nat
  assumes "i \<noteq> j" "n \<le> z" "m \<le> z"
  shows "i * z + n \<le> j * z \<or> j * z + m \<le> i * z"
proof (cases "i < j")
  case True
  then have "i * z + z \<le> j * z" using mult_le_mono1[of "Suc i" j z] by simp
  then show ?thesis using assms by linarith
next
  case False
  then have "j * z + z \<le> i * z" using mult_le_mono1[of "Suc j" i z] assms by simp
  then show ?thesis using assms by linarith
qed

lemma mp_get_lookup: "mp_inv p \<Longrightarrow> mp_get p i = Ok (mp_lookup p i)"
  using slot_in_arena[of p i]
  by (auto simp: mp_get_def mp_lookup_def mp_inv_def split: option.splits)

lemma mp_insert_ok:
  assumes inv: "mp_inv p" and ins: "mp_insert p (m, d) = (Ok i, t)"
  shows "mp_inv t" "mp_lookup p i = None" "mp_lookup t = (mp_lookup p)(i \<mapsto> (m, d))"
proof -
  let ?z = "mp_slot_size p" and ?p = "take (i * mp_slot_size p) (mp_bytes p) @ d @ drop (i * mp_slot_size p + length d) (mp_bytes p)"
  have d: "length d \<le> ?z" and pos: "position (\<lambda>s. ms_meta s = None) (mp_slots p) = Some i"
    using ins by (auto simp: mp_insert_def lift_r_def result_simps split: if_splits)
  have i: "i < length (mp_slots p)" "ms_meta (mp_slots p ! i) = None" using position_Some[OF pos] by auto
  have fit: "i * ?z + length d \<le> length (mp_bytes p)" using slot_in_arena[OF inv i(1) d] .
  have t: "t = p\<lparr>mp_bytes := ?p, mp_slots := (mp_slots p)[i := \<lparr>ms_meta = Some m, ms_len = length d\<rparr>]\<rparr>"
    using ins pos d fit i by (simp add: mp_insert_def)
  show "mp_inv t" using inv fit d i by (auto simp: mp_inv_def t nth_list_update)
  show "mp_lookup p i = None" using i by (simp add: mp_lookup_def)
  show "mp_lookup t = (mp_lookup p)(i \<mapsto> (m, d))"
  proof
    fix k
    show "mp_lookup t k = ((mp_lookup p)(i \<mapsto> (m, d))) k"
    proof (cases "k = i")
      case True
      then show ?thesis using i fit by (simp add: mp_lookup_def t)
    next
      case False
      show ?thesis
      proof (cases "k < length (mp_slots p)")
        case True
        let ?n = "ms_len (mp_slots p ! k)"
        have n: "?n \<le> ?z" using inv True by (simp add: mp_inv_def)
        have "take ?n (drop (k * ?z) ?p) = take ?n (drop (k * ?z) (mp_bytes p))"
          using copy_outside[OF fit, of "k * ?z" ?n] slots_disjoint[OF False n d] slot_in_arena[OF inv True n] by blast
        then show ?thesis using False True by (simp add: mp_lookup_def t)
      qed (use False in \<open>simp add: mp_lookup_def t\<close>)
    qed
  qed
qed

interpretation mp: handle_store mp_inv mp_lookup mp_insert mp_remove
proof
  fix s t :: "'m MessagePool" and v :: "'m \<times> bytes" and h e
  assume inv: "mp_inv s"
  obtain m d where v: "v = (m, d)" by fastforce
  show "mp_inv t \<and> mp_lookup s h = None \<and> mp_lookup t = (mp_lookup s)(h \<mapsto> v)" if "mp_insert s v = (Ok h, t)"
    using mp_insert_ok[OF inv] that v by blast
  have safe: "fst (mp_insert s v) \<noteq> Panic \<and> (\<forall>e t. mp_insert s v = (Err e, t) \<longrightarrow> t = s)"
  proof (cases "position (\<lambda>s. ms_meta s = None) (mp_slots s)")
    case (Some i)
    then show ?thesis using slot_in_arena[OF inv, of i "length d"] position_Some[OF Some]
      by (simp add: mp_insert_def v)
  qed (auto simp: mp_insert_def v lift_r_def)
  then show "t = s" if "mp_insert s v = (Err e, t)" using that by blast
  show "fst (mp_insert s v) \<noteq> Panic" using safe by blast
  show "\<exists>r t. mp_remove s h = (Ok r, t) \<and> mp_inv t \<and> mp_lookup t = (mp_lookup s)(h := None)" if "mp_lookup s h \<noteq> None"
    using that inv by (auto simp: mp_remove_def mp_lookup_def mp_inv_def ms_empty_def nth_list_update fun_eq_iff split: if_splits)
  show "\<exists>e. mp_remove s h = (Err e, s)" if "mp_lookup s h = None"
    using that by (auto simp: mp_remove_def mp_lookup_def lift_r_def split: if_splits)
qed

section \<open>Properties\<close>

lemma mp_new_inv: "mp_new slots bs = Ok p \<Longrightarrow> mp_inv p \<and> mp_lookup p = (\<lambda>_. None)"
  by (auto simp: mp_new_def Let_def mp_inv_def mp_lookup_def ms_empty_def mult.commute[of "length slots"]
      times_div_less_eq_dividend split: if_splits)

text \<open>A message pool is a finite map from slot indices to messages: over any sequence of inserts and removes
  on a new pool nothing panics, every index handed out was free, every removed index was in use, and \<open>get\<close> on the
  final pool returns for each index exactly the message and metadata last inserted there and not removed.\<close>

theorem message_pool_refines_map:
  assumes "mp_new slots bs = Ok p" "store_run mp_insert mp_remove p cs = (evs, t)"
  shows "events_ok (\<lambda>_. None) evs \<and> (\<forall>i. mp_get t i = Ok (foldl event_map (\<lambda>_. None) evs i))"
  using mp.store_run_refines[OF _ assms(2)] mp_new_inv[OF assms(1)] mp_get_lookup by metis

theorem message_pool_refines_map_witness:
  "\<exists>p evs t. mp_new [ms_empty, ms_empty :: nat MessageSlot] (replicate 8 0) = Ok p \<and>
    store_run mp_insert mp_remove p [Store (5, [1, 2]), Store (6, [3]), Release 0] = (evs, t) \<and>
    evs = [Stored 0 (5, [1, 2]), Stored 1 (6, [3]), Released 0] \<and> mp_get t 1 = Ok (Some (6, [3]))"
proof -
  let ?p = "\<lparr>mp_slots = [ms_empty, ms_empty], mp_bytes = replicate 8 0, mp_slot_size = 4\<rparr> :: nat MessagePool"
  have p: "mp_new [ms_empty, ms_empty] (replicate 8 0) = Ok ?p" by (simp add: mp_new_def Let_def flip: numeral_2_eq_2)
  obtain evs t where r: "store_run mp_insert mp_remove ?p [Store (5, [1, 2]), Store (6, [3]), Release 0] = (evs, t)"
    by fastforce
  have "evs = [Stored 0 (5, [1, 2]), Stored 1 (6, [3]), Released 0]"
    using r by (auto simp: store_step_def mp_insert_def mp_remove_def ms_empty_def)
  then show ?thesis using message_pool_refines_map[OF p r] p r by auto
qed

end
