(* ===== verification/Sockets.thy ===== *)
theory Sockets
  imports Message_Pool
begin

text \<open>
  Socket collections, src/src/socket.rs: slots with a generation counter, over caller-owned slots
  (\<open>SocketSet\<close>) or a growing vector (\<open>OwnedSocketSet\<close>). Both are \<open>handle_store\<close>s. The generation argument is
  made exact: a handle that was removed stays invalid until its slot has been released 65535 times, when
  the counter has gone round.
\<close>

section \<open>Definitions\<close>

record SocketHandle =
  sh_index :: u16
  sh_generation :: u16

record 'a SocketStorage =
  st_generation :: u16
  st_value :: "'a option"

definition st_empty :: "'a SocketStorage" where
  "st_empty = \<lparr>st_generation = 1, st_value = None\<rparr>"

record 'a SocketSet =
  ss_storage :: "'a SocketStorage list"

definition ss_capacity :: "'a SocketSet \<Rightarrow> nat" where
  "ss_capacity s = length (ss_storage s)"

definition ss_len :: "'a SocketSet \<Rightarrow> nat" where
  "ss_len s = length (filter (\<lambda>x. st_value x \<noteq> None) (ss_storage s))"

definition ss_add :: "'a SocketSet \<Rightarrow> 'a \<Rightarrow> ('a SocketSet, SocketHandle) outcome" where
  "ss_add s v =
    sbind (lift_r (ok_or (position (\<lambda>x. st_value x = None) (ss_storage s)) BufferFull) s) (\<lambda>index s.
      if 65535 < index then (Err BufferFull, s)
      else (let slot = ss_storage s ! index in
        (Ok \<lparr>sh_index = of_nat index, sh_generation = st_generation slot\<rparr>,
         s\<lparr>ss_storage := (ss_storage s)[index := slot\<lparr>st_value := Some v\<rparr>]\<rparr>)))"

definition ss_checked_slot :: "'a SocketSet \<Rightarrow> SocketHandle \<Rightarrow> 'a SocketStorage result" where
  "ss_checked_slot s h =
    (let i = unat (sh_index h) in
     if \<not> i < length (ss_storage s) then Err InvalidField
     else let slot = ss_storage s ! i in
     if st_generation slot \<noteq> sh_generation h \<or> st_value slot = None then Err InvalidState else Ok slot)"

definition ss_get :: "'a SocketSet \<Rightarrow> SocketHandle \<Rightarrow> 'a result" where
  "ss_get s h = rbind (ss_checked_slot s h) (\<lambda>slot. ok_or (st_value slot) InvalidState)"

text \<open>A caller of \<open>get_mut\<close> replaces the value through the reference; \<open>f\<close> is what it writes.\<close>

definition ss_get_mut :: "'a SocketSet \<Rightarrow> SocketHandle \<Rightarrow> ('a \<Rightarrow> 'a) \<Rightarrow> ('a SocketSet, unit) outcome" where
  "ss_get_mut s h f =
    sbind (lift_r (ss_checked_slot s h) s) (\<lambda>slot s.
    sbind (lift_r (ok_or (st_value slot) InvalidState) s) (\<lambda>v s.
      (Ok (), s\<lparr>ss_storage := (ss_storage s)[unat (sh_index h) := slot\<lparr>st_value := Some (f v)\<rparr>]\<rparr>)))"

definition next_generation :: "u16 \<Rightarrow> u16" where
  "next_generation g = max (g + 1) 1"

definition ss_remove :: "'a SocketSet \<Rightarrow> SocketHandle \<Rightarrow> ('a SocketSet, 'a) outcome" where
  "ss_remove s h =
    sbind (lift_r (ss_checked_slot s h) s) (\<lambda>slot s.
    sbind (lift_r (ok_or (st_value slot) InvalidState) s) (\<lambda>v s.
      (Ok v, s\<lparr>ss_storage := (ss_storage s)[unat (sh_index h) :=
         \<lparr>st_generation = next_generation (st_generation slot), st_value = None\<rparr>]\<rparr>)))"

definition slots_iter :: "'a SocketStorage list \<Rightarrow> (SocketHandle \<times> 'a) list" where
  "slots_iter xs = concat (map (\<lambda>i. case st_value (xs ! i) of None \<Rightarrow> []
     | Some v \<Rightarrow> [(\<lparr>sh_index = of_nat i, sh_generation = st_generation (xs ! i)\<rparr>, v)]) [0..<length xs])"

definition ss_iter :: "'a SocketSet \<Rightarrow> (SocketHandle \<times> 'a) list" where
  "ss_iter s = slots_iter (ss_storage s)"

definition ss_find :: "'a SocketSet \<Rightarrow> ('a \<Rightarrow> bool) \<Rightarrow> SocketHandle option" where
  "ss_find s f = map_option fst (List.find (\<lambda>(h, v). f v) (ss_iter s))"

record 'a OwnedSocketSet =
  os_storage :: "'a SocketStorage list"

definition os_new :: "'a OwnedSocketSet" where
  "os_new = \<lparr>os_storage = []\<rparr>"

definition os_add :: "'a OwnedSocketSet \<Rightarrow> 'a \<Rightarrow> ('a OwnedSocketSet, SocketHandle) outcome" where
  "os_add s v = (case position (\<lambda>x. st_value x = None) (os_storage s) of
      Some index \<Rightarrow>
        if 65535 < index then (Err BufferFull, s)
        else (let slot = os_storage s ! index in
          (Ok \<lparr>sh_index = of_nat index, sh_generation = st_generation slot\<rparr>,
           s\<lparr>os_storage := (os_storage s)[index := slot\<lparr>st_value := Some v\<rparr>]\<rparr>))
    | None \<Rightarrow>
        if 65535 < length (os_storage s) then (Err BufferFull, s)
        else (let index = length (os_storage s); slot = st_empty\<lparr>st_value := Some v\<rparr> in
          (Ok \<lparr>sh_index = of_nat index, sh_generation = st_generation slot\<rparr>,
           s\<lparr>os_storage := os_storage s @ [slot]\<rparr>)))"

definition os_get :: "'a OwnedSocketSet \<Rightarrow> SocketHandle \<Rightarrow> 'a result" where
  "os_get s h =
    (let i = unat (sh_index h) in
     if \<not> i < length (os_storage s) then Err InvalidField
     else let slot = os_storage s ! i in
     if st_generation slot \<noteq> sh_generation h then Err InvalidState else ok_or (st_value slot) InvalidState)"

definition os_get_mut :: "'a OwnedSocketSet \<Rightarrow> SocketHandle \<Rightarrow> ('a \<Rightarrow> 'a) \<Rightarrow> ('a OwnedSocketSet, unit) outcome" where
  "os_get_mut s h f =
    sbind (lift_r (os_get s h) s) (\<lambda>v s.
      let i = unat (sh_index h) in
      (Ok (), s\<lparr>os_storage := (os_storage s)[i := (os_storage s ! i)\<lparr>st_value := Some (f v)\<rparr>]\<rparr>))"

definition os_remove :: "'a OwnedSocketSet \<Rightarrow> SocketHandle \<Rightarrow> ('a OwnedSocketSet, 'a) outcome" where
  "os_remove s h =
    sbind (lift_r (os_get s h) s) (\<lambda>v s.
      let i = unat (sh_index h) in
      (Ok v, s\<lparr>os_storage := (os_storage s)[i :=
         \<lparr>st_generation = next_generation (st_generation (os_storage s ! i)), st_value = None\<rparr>]\<rparr>))"

definition os_iter :: "'a OwnedSocketSet \<Rightarrow> (SocketHandle \<times> 'a) list" where
  "os_iter s = slots_iter (os_storage s)"

section \<open>Both are handle stores\<close>

definition slots_lookup :: "'a SocketStorage list \<Rightarrow> SocketHandle \<Rightarrow> 'a option" where
  "slots_lookup xs h =
    (let i = unat (sh_index h) in
     if i < length xs \<and> st_generation (xs ! i) = sh_generation h then st_value (xs ! i) else None)"

lemma slots_lookup_handle:
  assumes "i < length xs" "i \<le> 65535"
  shows "slots_lookup xs \<lparr>sh_index = of_nat i, sh_generation = g\<rparr> = (if st_generation (xs ! i) = g then st_value (xs ! i) else None)"
proof -
  have "unat (of_nat i :: u16) = i" using assms(2) by (simp add: unsigned_of_nat take_bit_nat_eq_self_iff)
  then show ?thesis using assms by (simp add: slots_lookup_def)
qed

lemma slots_lookup_fill:
  assumes "i < length xs" "i \<le> 65535" "st_value (xs ! i) = None"
  shows "slots_lookup (xs[i := (xs ! i)\<lparr>st_value := Some v\<rparr>]) =
    (slots_lookup xs)(\<lparr>sh_index = of_nat i, sh_generation = st_generation (xs ! i)\<rparr> \<mapsto> v)"
proof
  fix h :: SocketHandle
  have i: "unat (of_nat i :: u16) = i" using assms(2) by (simp add: unsigned_of_nat take_bit_nat_eq_self_iff)
  show "slots_lookup (xs[i := (xs ! i)\<lparr>st_value := Some v\<rparr>]) h =
    ((slots_lookup xs)(\<lparr>sh_index = of_nat i, sh_generation = st_generation (xs ! i)\<rparr> \<mapsto> v)) h"
  proof (cases "unat (sh_index h) = i")
    case True
    then have "sh_index h = of_nat i" by (metis of_nat_unat ucast_id)
    then show ?thesis using assms i by (cases h) (auto simp: slots_lookup_def Let_def)
  next
    case False
    then have "h \<noteq> \<lparr>sh_index = of_nat i, sh_generation = st_generation (xs ! i)\<rparr>" using i by auto
    then show ?thesis using False by (simp add: slots_lookup_def Let_def)
  qed
qed

lemma slots_lookup_release:
  assumes "unat (sh_index h) < length xs" "st_generation (xs ! unat (sh_index h)) = sh_generation h"
  shows "slots_lookup (xs[unat (sh_index h) := \<lparr>st_generation = g, st_value = None\<rparr>]) = (slots_lookup xs)(h := None)"
proof
  fix k :: SocketHandle
  show "slots_lookup (xs[unat (sh_index h) := \<lparr>st_generation = g, st_value = None\<rparr>]) k = ((slots_lookup xs)(h := None)) k"
  proof (cases "sh_index k = sh_index h")
    case True
    then have "sh_generation k \<noteq> sh_generation h" if "k \<noteq> h" using that by (cases k; cases h) simp
    then show ?thesis using True assms by (cases "k = h") (simp_all add: slots_lookup_def Let_def)
  next
    case False
    then have "k \<noteq> h" "unat (sh_index k) \<noteq> unat (sh_index h)" by (auto simp: word_unat_eq_iff)
    then show ?thesis by (simp add: slots_lookup_def Let_def)
  qed
qed

lemma ss_get_lookup: "ss_get s h = Ok v \<longleftrightarrow> slots_lookup (ss_storage s) h = Some v"
  by (auto simp: ss_get_def ss_checked_slot_def slots_lookup_def Let_def result_simps ok_or_def split: option.splits)

lemma os_get_lookup: "os_get s h = Ok v \<longleftrightarrow> slots_lookup (os_storage s) h = Some v"
  by (auto simp: os_get_def slots_lookup_def Let_def ok_or_def split: option.splits)

interpretation ss: handle_store "\<lambda>_. True" "\<lambda>s. slots_lookup (ss_storage s)" ss_add ss_remove
proof
  fix s t :: "'a SocketSet" and v h e
  show "True \<and> slots_lookup (ss_storage s) h = None \<and> slots_lookup (ss_storage t) = (slots_lookup (ss_storage s))(h \<mapsto> v)"
    if a: "ss_add s v = (Ok h, t)"
  proof -
    obtain i where i: "position (\<lambda>x. st_value x = None) (ss_storage s) = Some i" "i \<le> 65535"
      and h: "h = \<lparr>sh_index = of_nat i, sh_generation = st_generation (ss_storage s ! i)\<rparr>"
      and t: "ss_storage t = (ss_storage s)[i := (ss_storage s ! i)\<lparr>st_value := Some v\<rparr>]"
      using a by (auto simp: ss_add_def lift_r_def result_simps Let_def split: if_splits)
    show ?thesis
      using position_Some[OF i(1)] i(2) slots_lookup_fill[of i "ss_storage s" v] slots_lookup_handle[of i "ss_storage s"]
      unfolding t h by simp
  qed
  show "t = s" if "ss_add s v = (Err e, t)" "True"
    using that by (cases "position (\<lambda>x. st_value x = None) (ss_storage s)")
      (auto simp: ss_add_def lift_r_def Let_def split: if_splits)
  show "fst (ss_add s v) \<noteq> Panic"
    by (cases "position (\<lambda>x. st_value x = None) (ss_storage s)") (auto simp: ss_add_def lift_r_def Let_def)
  show "\<exists>r t. ss_remove s h = (Ok r, t) \<and> True \<and> slots_lookup (ss_storage t) = (slots_lookup (ss_storage s))(h := None)"
    if "slots_lookup (ss_storage s) h \<noteq> None"
  proof -
    let ?i = "unat (sh_index h)"
    have g: "?i < length (ss_storage s)" "st_generation (ss_storage s ! ?i) = sh_generation h"
      "st_value (ss_storage s ! ?i) \<noteq> None"
      using that by (auto simp: slots_lookup_def Let_def split: if_splits)
    then show ?thesis using slots_lookup_release[OF g(1,2)]
      by (auto simp: ss_remove_def ss_checked_slot_def)
  qed
  show "\<exists>e. ss_remove s h = (Err e, s)" if "slots_lookup (ss_storage s) h = None"
    using that by (auto simp: ss_remove_def ss_checked_slot_def lift_r_def slots_lookup_def Let_def)
qed

interpretation os: handle_store "\<lambda>_. True" "\<lambda>s. slots_lookup (os_storage s)" os_add os_remove
proof
  fix s t :: "'a OwnedSocketSet" and v h e
  let ?pos = "position (\<lambda>x. st_value x = None) (os_storage s)"
  show "True \<and> slots_lookup (os_storage s) h = None \<and> slots_lookup (os_storage t) = (slots_lookup (os_storage s))(h \<mapsto> v)"
    if a: "os_add s v = (Ok h, t)"
  proof (cases ?pos)
    case (Some i)
    then have i: "i \<le> 65535" and h: "h = \<lparr>sh_index = of_nat i, sh_generation = st_generation (os_storage s ! i)\<rparr>"
      and t: "os_storage t = (os_storage s)[i := (os_storage s ! i)\<lparr>st_value := Some v\<rparr>]"
      using a by (auto simp: os_add_def Let_def split: if_splits)
    show ?thesis
      using position_Some[OF Some] i slots_lookup_fill[of i "os_storage s" v] slots_lookup_handle[of i "os_storage s"]
      unfolding t h by simp
  next
    case None
    let ?n = "length (os_storage s)"
    have n: "?n \<le> 65535" and h: "h = \<lparr>sh_index = of_nat ?n, sh_generation = 1\<rparr>"
      and t: "os_storage t = os_storage s @ [st_empty\<lparr>st_value := Some v\<rparr>]"
      using a None by (auto simp: os_add_def Let_def st_empty_def split: if_splits)
    have u: "unat (of_nat ?n :: u16) = ?n" using n by (simp add: unsigned_of_nat take_bit_nat_eq_self_iff)
    have "slots_lookup (os_storage t) k = ((slots_lookup (os_storage s))(h \<mapsto> v)) k" for k
    proof (cases "unat (sh_index k) = ?n")
      case True
      then have "sh_index k = of_nat ?n" by (metis of_nat_unat ucast_id)
      then show ?thesis using u h t by (cases k) (auto simp: slots_lookup_def Let_def st_empty_def)
    next
      case False
      then have "k \<noteq> h" using u h by auto
      then show ?thesis using False t by (auto simp: slots_lookup_def Let_def nth_append)
    qed
    then show ?thesis using u h by (auto simp: slots_lookup_def)
  qed
  show "t = s" if "os_add s v = (Err e, t)" "True"
    using that by (cases ?pos) (auto simp: os_add_def Let_def split: if_splits)
  show "fst (os_add s v) \<noteq> Panic"
    by (cases ?pos) (auto simp: os_add_def Let_def)
  show "\<exists>r t. os_remove s h = (Ok r, t) \<and> True \<and> slots_lookup (os_storage t) = (slots_lookup (os_storage s))(h := None)"
    if "slots_lookup (os_storage s) h \<noteq> None"
  proof -
    let ?i = "unat (sh_index h)"
    have g: "?i < length (os_storage s)" "st_generation (os_storage s ! ?i) = sh_generation h"
      "st_value (os_storage s ! ?i) \<noteq> None"
      using that by (auto simp: slots_lookup_def Let_def split: if_splits)
    then show ?thesis using slots_lookup_release[OF g(1,2)]
      by (auto simp: os_remove_def os_get_def)
  qed
  show "\<exists>e. os_remove s h = (Err e, s)" if "slots_lookup (os_storage s) h = None"
    using that by (auto simp: os_remove_def os_get_def lift_r_def slots_lookup_def Let_def)
qed

section \<open>Generations\<close>

lemma unat_next_generation: "g \<noteq> 0 \<Longrightarrow> unat (next_generation g) = unat g mod 65535 + 1"
proof -
  assume g: "g \<noteq> 0"
  show ?thesis
  proof (cases "g = 65535")
    case False
    then have "unat g \<noteq> 65535" by (simp add: word_unat_eq_iff)
    moreover have "unat g < 65536" by (rule unat_bounds)
    ultimately have lt: "unat g < 65535" by linarith
    then have "unat (g + 1) = unat g + 1" by (simp add: unat_word_ariths)
    moreover from this have "1 \<le> g + 1" by (simp add: word_le_nat_alt)
    ultimately show ?thesis using lt by (simp add: next_generation_def max_def)
  qed (simp add: next_generation_def)
qed

lemma unat_generation_pow:
  assumes "g \<noteq> 0"
  shows "unat ((next_generation ^^ k) g) = (unat g - 1 + k) mod 65535 + 1"
proof (induction k)
  case 0
  have "unat g \<noteq> 0" using assms by (simp add: unat_eq_zero)
  moreover have "unat g < 65536" by (rule unat_bounds)
  ultimately have "unat g - 1 < 65535" "unat g = unat g - 1 + 1" by linarith+
  then show ?case by (metis add_0_right funpow_0 mod_less)
next
  case (Suc k)
  have "(next_generation ^^ k) g \<noteq> 0" using Suc by (metis unat_0 add_is_0 one_neq_zero)
  then show ?case using Suc by (simp add: unat_next_generation mod_Suc_eq)
qed

lemma generation_pow_eq_iff:
  assumes "g \<noteq> 0"
  shows "(next_generation ^^ k) g = g \<longleftrightarrow> 65535 dvd k"
proof -
  let ?a = "unat g - 1"
  have "unat g \<noteq> 0" using assms by (simp add: unat_eq_zero)
  moreover have "unat g < 65536" by (rule unat_bounds)
  ultimately have a: "?a < 65535" "unat g = ?a + 1" by linarith+
  have "(next_generation ^^ k) g = g \<longleftrightarrow> (?a + k) mod 65535 = ?a mod 65535"
    using unat_generation_pow[OF assms, of k] a by (auto simp: word_unat_eq_iff)
  also have "\<dots> \<longleftrightarrow> 65535 dvd k"
    using mod_eq_dvd_iff_nat[of ?a "?a + k" 65535] by auto
  finally show ?thesis .
qed

fun releases :: "u16 \<Rightarrow> (SocketHandle, 'a) store_event list \<Rightarrow> nat" where
  "releases i [] = 0"
| "releases i (Released h # es) = (if sh_index h = i then Suc (releases i es) else releases i es)"
| "releases i (_ # es) = releases i es"

definition ss_generation :: "'a SocketSet \<Rightarrow> u16 \<Rightarrow> u16" where
  "ss_generation s i = st_generation (ss_storage s ! unat i)"

lemma ss_step_generation:
  assumes "store_step ss_add ss_remove s c = (ev, t)" "unat i < length (ss_storage s)"
  shows "length (ss_storage t) = length (ss_storage s) \<and> ss_generation t i = (next_generation ^^ releases i [ev]) (ss_generation s i)"
proof (cases c)
  case (Store v)
  show ?thesis
  proof (cases "position (\<lambda>x. st_value x = None) (ss_storage s)")
    case None
    then show ?thesis using assms Store by (auto simp: store_step_def ss_add_def lift_r_def)
  next
    case (Some j)
    then show ?thesis using assms Store position_Some[OF Some]
      by (auto simp: store_step_def ss_add_def lift_r_def ss_generation_def nth_list_update Let_def split: if_splits)
  qed
next
  case (Release h)
  have "ss_checked_slot s h \<noteq> Panic" by (simp add: ss_checked_slot_def Let_def)
  then consider e where "ss_checked_slot s h = Err e" | slot where "ss_checked_slot s h = Ok slot"
    by (cases "ss_checked_slot s h") auto
  then show ?thesis
  proof cases
    case (2 slot)
    then have "unat (sh_index h) < length (ss_storage s)" "slot = ss_storage s ! unat (sh_index h)" "st_value slot \<noteq> None"
      by (auto simp: ss_checked_slot_def Let_def split: if_splits)
    then show ?thesis using assms Release 2
      by (cases "sh_index h = i")
         (auto simp: store_step_def ss_remove_def lift_r_def ss_generation_def nth_list_update word_unat_eq_iff)
  qed (use assms Release in \<open>auto simp: store_step_def ss_remove_def lift_r_def\<close>)
qed

lemma releases_Cons: "releases i (e # es) = releases i [e] + releases i es"
  by (cases e) auto

lemma ss_run_generation:
  "store_run ss_add ss_remove s cs = (evs, t) \<Longrightarrow> unat i < length (ss_storage s) \<Longrightarrow>
   length (ss_storage t) = length (ss_storage s) \<and> ss_generation t i = (next_generation ^^ releases i evs) (ss_generation s i)"
proof (induction cs arbitrary: s evs)
  case (Cons c cs)
  obtain ev u where s: "store_step ss_add ss_remove s c = (ev, u)" by fastforce
  obtain es where r: "store_run ss_add ss_remove u cs = (es, t)" and e: "evs = ev # es"
    using Cons.prems(1) s by (auto split: prod.splits)
  note st = ss_step_generation[OF s Cons.prems(2)]
  have "unat i < length (ss_storage u)" using st Cons.prems(2) by simp
  from Cons.IH[OF r this] st show ?case
    unfolding e releases_Cons[of i ev es] by (simp add: funpow_add add.commute[of "releases i [ev]"])
qed simp

section \<open>Properties\<close>

text \<open>A socket set is a finite map from handles to sockets: over any sequence of adds and removes nothing
  panics, every handle handed out was dead, every removed one was live, and afterwards \<open>get\<close> finds exactly the
  sockets that were added and not removed, under their own handles.\<close>

theorem socket_set_refines_map:
  assumes "ss_storage s = replicate n st_empty" "store_run ss_add ss_remove s cs = (evs, t)"
  shows "events_ok (\<lambda>_. None) evs \<and> (\<forall>h v. ss_get t h = Ok v \<longleftrightarrow> foldl event_map (\<lambda>_. None) evs h = Some v)"
proof -
  have "slots_lookup (ss_storage s) = (\<lambda>_. None)" using assms(1) by (auto simp: slots_lookup_def st_empty_def fun_eq_iff Let_def)
  then show ?thesis using ss.store_run_refines[OF _ assms(2)] by (simp add: ss_get_lookup)
qed

theorem socket_set_refines_map_witness:
  "\<exists>evs t. store_run ss_add ss_remove \<lparr>ss_storage = replicate 1 st_empty\<rparr> [Store (7 :: nat), Store 8] = (evs, t) \<and>
    evs = [Stored \<lparr>sh_index = 0, sh_generation = 1\<rparr> 7, Refused BufferFull] \<and> ss_get t \<lparr>sh_index = 0, sh_generation = 1\<rparr> = Ok 7"
proof -
  obtain evs t where r: "store_run ss_add ss_remove \<lparr>ss_storage = replicate 1 st_empty\<rparr> [Store (7 :: nat), Store 8] = (evs, t)"
    by fastforce
  then have "evs = [Stored \<lparr>sh_index = 0, sh_generation = 1\<rparr> 7, Refused BufferFull]"
    by (auto simp: store_step_def ss_add_def st_empty_def lift_r_def)
  then show ?thesis using socket_set_refines_map[of _ 1, OF _ r] r by auto
qed

text \<open>C26. Stale handles are rejected, exactly as far as the 16-bit generation allows: once the slot of a live
  handle has been released \<open>n\<close> times, with \<open>n\<close> not a multiple of 65535, the handle is refused with
  \<open>InvalidState\<close>, whatever sockets were added in between.\<close>

theorem socket_stale_handle_rejected:
  assumes "ss_get s h = Ok v" "sh_generation h \<noteq> 0" "store_run ss_add ss_remove s cs = (evs, t)"
    and "\<not> 65535 dvd releases (sh_index h) evs"
  shows "ss_get t h = Err InvalidState"
proof -
  let ?i = "unat (sh_index h)"
  have i: "?i < length (ss_storage s)" "ss_generation s (sh_index h) = sh_generation h"
    using assms(1) by (auto simp: ss_get_lookup slots_lookup_def Let_def ss_generation_def split: if_splits)
  from ss_run_generation[OF assms(3) i(1)] generation_pow_eq_iff[OF assms(2)] assms(4)
  have "?i < length (ss_storage t)" "st_generation (ss_storage t ! ?i) \<noteq> sh_generation h"
    using i by (auto simp: ss_generation_def)
  then show ?thesis by (simp add: ss_get_def ss_checked_slot_def)
qed

theorem socket_stale_handle_rejected_witness:
  "\<exists>evs t. store_run ss_add ss_remove \<lparr>ss_storage = [\<lparr>st_generation = 9, st_value = Some (1 :: nat)\<rparr>]\<rparr>
      [Release \<lparr>sh_index = 0, sh_generation = 9\<rparr>, Store 2] = (evs, t) \<and>
    ss_get t \<lparr>sh_index = 0, sh_generation = 9\<rparr> = Err InvalidState"
proof -
  let ?s = "\<lparr>ss_storage = [\<lparr>st_generation = 9, st_value = Some (1 :: nat)\<rparr>]\<rparr>" and ?h = "\<lparr>sh_index = 0, sh_generation = 9\<rparr>"
  obtain evs t where r: "store_run ss_add ss_remove ?s [Release ?h, Store 2] = (evs, t)" by fastforce
  then have "evs = [Released ?h, Stored \<lparr>sh_index = 0, sh_generation = 10\<rparr> 2]"
    by (auto simp: store_step_def ss_add_def ss_remove_def ss_checked_slot_def lift_r_def next_generation_def)
  then have "\<not> 65535 dvd releases (sh_index ?h) evs" by simp
  from socket_stale_handle_rejected[OF _ _ r this, of 1] r show ?thesis
    by (auto simp: ss_get_def ss_checked_slot_def)
qed

text \<open>Generations repeat: after 65535 releases a slot has the generation it started with, so a handle that old
  addresses the slot's new occupant again.\<close>

theorem generation_comes_round: "g \<noteq> 0 \<Longrightarrow> (next_generation ^^ 65535) g = g"
  using generation_pow_eq_iff[of g 65535] by simp

theorem generation_comes_round_witness: "(next_generation ^^ 65535) 1 = 1"
  using generation_comes_round[of 1] by simp

end
