(* ===== verification/Gnet_Time.thy ===== *)
theory Gnet_Time
  imports Gnet_Prelude
begin

text \<open>
  Monotonic time, src/src/time.rs: instants and durations are 64-bit milliseconds with saturating
  arithmetic. The lemmas give the arithmetic over the natural numbers and that deadlines computed from a
  later instant are not earlier.
\<close>

datatype Instant = Instant u64

datatype Duration = Duration u64

primrec instant_millis :: "Instant \<Rightarrow> u64" where
  "instant_millis (Instant m) = m"

primrec duration_millis :: "Duration \<Rightarrow> u64" where
  "duration_millis (Duration m) = m"

definition instant_zero :: Instant where
  "instant_zero = Instant 0"

definition duration_zero :: Duration where
  "duration_zero = Duration 0"

definition saturating_mul :: "u64 \<Rightarrow> u64 \<Rightarrow> u64" where
  "saturating_mul a b = (if 2 ^ 64 \<le> unat a * unat b then - 1 else a * b)"

definition duration_from_secs :: "u64 \<Rightarrow> Duration" where
  "duration_from_secs s = Duration (saturating_mul s 1000)"

definition duration_total_secs :: "Duration \<Rightarrow> u64" where
  "duration_total_secs d = duration_millis d div 1000"

definition saturating_duration_since :: "Instant \<Rightarrow> Instant \<Rightarrow> Duration" where
  "saturating_duration_since t earlier = Duration (saturating_sub (instant_millis t) (instant_millis earlier))"

definition instant_checked_add :: "Instant \<Rightarrow> Duration \<Rightarrow> Instant option" where
  "instant_checked_add t d = map_option Instant (checked_add (instant_millis t) (duration_millis d))"

definition instant_add :: "Instant \<Rightarrow> Duration \<Rightarrow> Instant" where
  "instant_add t d = Instant (saturating_add (instant_millis t) (duration_millis d))"

definition instant_sub :: "Instant \<Rightarrow> Duration \<Rightarrow> Instant" where
  "instant_sub t d = Instant (saturating_sub (instant_millis t) (duration_millis d))"

definition instant_diff :: "Instant \<Rightarrow> Instant \<Rightarrow> Duration" where
  "instant_diff t u = Duration (saturating_sub (instant_millis t) (instant_millis u))"

datatype PollAt = PollNow | PollTime Instant | PollIngress

primrec delay_from :: "PollAt \<Rightarrow> Instant \<Rightarrow> Duration option" where
  "delay_from PollNow now = Some duration_zero"
| "delay_from (PollTime at) now = Some (saturating_duration_since at now)"
| "delay_from PollIngress now = None"

text \<open>The derived order on \<open>Instant\<close> is that of the milliseconds.\<close>

instantiation Instant :: linorder
begin

definition less_eq_Instant :: "Instant \<Rightarrow> Instant \<Rightarrow> bool" where
  "less_eq_Instant a b \<longleftrightarrow> instant_millis a \<le> instant_millis b"

definition less_Instant :: "Instant \<Rightarrow> Instant \<Rightarrow> bool" where
  "less_Instant a b \<longleftrightarrow> instant_millis a < instant_millis b"

instance
proof
  fix x y z :: Instant
  show "(x < y) = (x \<le> y \<and> \<not> y \<le> x)" by (auto simp: less_eq_Instant_def less_Instant_def)
  show "x \<le> x" by (simp add: less_eq_Instant_def)
  show "x \<le> y \<Longrightarrow> y \<le> z \<Longrightarrow> x \<le> z" by (auto simp: less_eq_Instant_def intro: order.trans)
  show "x \<le> y \<Longrightarrow> y \<le> x \<Longrightarrow> x = y" by (cases x; cases y) (simp add: less_eq_Instant_def)
  show "x \<le> y \<or> y \<le> x" by (auto simp: less_eq_Instant_def)
qed

end

definition ms :: "Instant \<Rightarrow> nat" where
  "ms t = unat (instant_millis t)"

lemma ms_add: "ms (instant_add t d) = min (ms t + unat (duration_millis d)) (2 ^ 64 - 1)"
  by (simp add: ms_def instant_add_def unat_saturating_add)

lemma ms_sub: "ms (instant_sub t d) = ms t - unat (duration_millis d)"
  by (simp add: ms_def instant_sub_def unat_saturating_sub)

lemma ms_less_eq: "t \<le> u \<longleftrightarrow> ms t \<le> ms u"
  by (simp add: less_eq_Instant_def ms_def word_le_nat_alt)

lemma instant_add_mono: "t \<le> u \<Longrightarrow> instant_add t d \<le> instant_add u d"
  by (simp add: ms_less_eq ms_add)

lemma instant_add_increasing: "t \<le> instant_add t d"
proof -
  have "ms t < 2 ^ 64" unfolding ms_def using unsigned_less[of "instant_millis t", where ?'a = nat] by simp
  then show ?thesis by (simp add: ms_less_eq ms_add)
qed

text \<open>A poll deadline is due exactly when its delay is zero.\<close>

lemma delay_from_due: "delay_from (PollTime at) now = Some duration_zero \<longleftrightarrow> at \<le> now"
proof -
  have "saturating_sub a b = 0 \<longleftrightarrow> a \<le> b" for a b :: u64
    using unat_saturating_sub[of a b] by (metis diff_is_0_eq unat_eq_zero word_le_nat_alt)
  then show ?thesis by (simp add: saturating_duration_since_def duration_zero_def less_eq_Instant_def)
qed

end
