(* ===== verification/Routing.thy ===== *)
theory Routing
  imports Gnet_Time Gdp "HOL-Library.Multiset"
begin

text \<open>
  The fixed-capacity route table of src/src/routing.rs: canonical prefixes, routes with expiry, an array of
  optional routes. The lemmas characterise prefix membership by the agreeing high bits, show that the
  length field counts the occupied slots under every operation, that lookup is longest-prefix match over
  the routes that have not expired with ties to the lowest slot, and that replacing the default route either
  succeeds or changes nothing.
\<close>

section \<open>Prefixes\<close>

record GdpPrefix =
  network :: GdpAddress
  prefix_len :: u8

datatype PrefixLengthError = PrefixLengthError

text \<open>\<open>64 - prefix_len\<close> panics above 64; the shift itself is then in range.\<close>

definition prefix_mask :: "u8 \<Rightarrow> u64 result" where
  "prefix_mask len =
    (if len = 0 then Ok 0
     else rbind (sub_r 64 len) (\<lambda>n. Ok (push_bit (unat n) (- 1))))"

definition gdp_prefix_new :: "GdpAddress \<Rightarrow> u8 \<Rightarrow> (PrefixLengthError + GdpPrefix) result" where
  "gdp_prefix_new address len =
    (if 64 < len then Ok (Inl PrefixLengthError)
     else rbind (prefix_mask len) (\<lambda>mask. Ok (Inr \<lparr>network = address AND mask, prefix_len = len\<rparr>)))"

definition prefix_contains :: "GdpPrefix \<Rightarrow> GdpAddress \<Rightarrow> bool result" where
  "prefix_contains p address = rbind (prefix_mask (prefix_len p)) (\<lambda>mask. Ok (address AND mask = network p))"

definition default_route :: GdpPrefix where
  "default_route = \<lparr>network = 0, prefix_len = 0\<rparr>"

definition prefix_wf :: "GdpPrefix \<Rightarrow> bool" where
  "prefix_wf p \<longleftrightarrow> prefix_len p \<le> 64 \<and> (\<forall>k. k < 64 - unat (prefix_len p) \<longrightarrow> \<not> bit (network p) k)"

lemma prefix_mask_eq:
  assumes "len \<le> 64"
  shows "prefix_mask len = Ok (push_bit (64 - unat len) (- 1))"
proof (cases "len = 0")
  case True
  have "push_bit 64 (- 1) = (0 :: u64)" by (rule bit_word_eqI) (simp add: bit_simps)
  then show ?thesis using True by (simp add: prefix_mask_def)
next
  case False
  have "unat (64 - len) = 64 - unat len" using assms by (simp add: unat_sub)
  then show ?thesis using False assms by (simp add: prefix_mask_def sub_r_def not_less)
qed

lemma gdp_prefix_new_wf: "gdp_prefix_new a len = Ok (Inr p) \<Longrightarrow> prefix_wf p"
  by (auto simp: gdp_prefix_new_def prefix_mask_eq not_less prefix_wf_def bit_simps split: if_splits)

lemma prefix_contains_eq:
  assumes "prefix_wf p"
  shows "prefix_contains p a = Ok (\<forall>k. 64 - unat (prefix_len p) \<le> k \<and> k < 64 \<longrightarrow> (bit a k \<longleftrightarrow> bit (network p) k))"
proof -
  let ?n = "unat (prefix_len p)"
  have "a AND push_bit (64 - ?n) (- 1) = network p \<longleftrightarrow>
      (\<forall>k < 64. (bit a k \<and> 64 - ?n \<le> k) \<longleftrightarrow> bit (network p) k)"
    by (subst bit_eq_iff) (auto simp: bit_simps dest: bit_imp_le_length)
  also have "\<dots> \<longleftrightarrow> (\<forall>k. 64 - ?n \<le> k \<and> k < 64 \<longrightarrow> (bit a k \<longleftrightarrow> bit (network p) k))"
    using assms unfolding prefix_wf_def by (metis not_le)
  finally show ?thesis using assms by (simp add: prefix_contains_def prefix_wf_def prefix_mask_eq)
qed

lemma default_route_wf: "prefix_wf default_route"
  by (simp add: prefix_wf_def default_route_def)

lemma prefix_len_0_default: "prefix_wf p \<Longrightarrow> prefix_len p = 0 \<longleftrightarrow> p = default_route"
proof -
  assume wf: "prefix_wf p"
  have "network p = 0" if "prefix_len p = 0"
  proof (rule bit_word_eqI)
    fix k assume "k < LENGTH(64)"
    then show "bit (network p) k = bit 0 k" using wf that by (simp add: prefix_wf_def)
  qed
  then show ?thesis by (cases p) (auto simp: default_route_def)
qed

section \<open>Routes and the table\<close>

record Route =
  rt_prefix :: GdpPrefix
  via_router :: GdpAddress
  preferred_until :: "Instant option"
  expires_at :: "Instant option"

definition route_new :: "GdpPrefix \<Rightarrow> GdpAddress \<Rightarrow> Route" where
  "route_new p via = \<lparr>rt_prefix = p, via_router = via, preferred_until = None, expires_at = None\<rparr>"

definition route_new_default :: "GdpAddress \<Rightarrow> Route" where
  "route_new_default via = route_new default_route via"

definition route_is_default :: "Route \<Rightarrow> bool" where
  "route_is_default r = (prefix_len (rt_prefix r) = 0)"

definition route_is_expired :: "Route \<Rightarrow> Instant \<Rightarrow> bool" where
  "route_is_expired r now = (case expires_at r of Some e \<Rightarrow> e < now | None \<Rightarrow> False)"

datatype RouteTableFull = RouteTableFull

record RouteTable =
  rt_routes :: "Route option list"
  rt_len :: nat

definition rt_new :: "nat \<Rightarrow> RouteTable" where
  "rt_new n = \<lparr>rt_routes = replicate n None, rt_len = 0\<rparr>"

definition rt_is_empty :: "RouteTable \<Rightarrow> bool" where
  "rt_is_empty t = (rt_len t = 0)"

text \<open>The loops over the slots: store into the first empty one, clear the first that matches.\<close>

fun slots_add :: "Route option list \<Rightarrow> Route \<Rightarrow> Route option list option" where
  "slots_add [] r = None"
| "slots_add (None # ss) r = Some (Some r # ss)"
| "slots_add (Some q # ss) r = map_option ((#) (Some q)) (slots_add ss r)"

fun slots_remove :: "Route option list \<Rightarrow> GdpPrefix \<Rightarrow> (Route \<times> Route option list) option" where
  "slots_remove [] p = None"
| "slots_remove (None # ss) p = map_option (\<lambda>(r, ss). (r, None # ss)) (slots_remove ss p)"
| "slots_remove (Some q # ss) p =
    (if rt_prefix q = p then Some (q, None # ss)
     else map_option (\<lambda>(r, ss). (r, Some q # ss)) (slots_remove ss p))"

definition rt_add :: "RouteTable \<Rightarrow> Route \<Rightarrow> (RouteTableFull + unit) \<times> RouteTable" where
  "rt_add t r = (case slots_add (rt_routes t) r of
      Some ss \<Rightarrow> (Inr (), \<lparr>rt_routes = ss, rt_len = rt_len t + 1\<rparr>)
    | None \<Rightarrow> (Inl RouteTableFull, t))"

definition rt_remove :: "RouteTable \<Rightarrow> GdpPrefix \<Rightarrow> Route option \<times> RouteTable" where
  "rt_remove t p = (case slots_remove (rt_routes t) p of
      Some (r, ss) \<Rightarrow> (Some r, \<lparr>rt_routes = ss, rt_len = rt_len t - 1\<rparr>)
    | None \<Rightarrow> (None, t))"

definition rt_remove_default_route :: "RouteTable \<Rightarrow> Route option \<times> RouteTable" where
  "rt_remove_default_route t = rt_remove t default_route"

definition rt_add_default_route :: "RouteTable \<Rightarrow> GdpAddress \<Rightarrow> (RouteTableFull + Route option) \<times> RouteTable" where
  "rt_add_default_route t via =
    (case rt_remove_default_route t of (old, t) \<Rightarrow>
     (case rt_add t (route_new_default via) of
        (Inr _, t) \<Rightarrow> (Inr old, t)
      | (Inl err, t) \<Rightarrow> (case old of Some o' \<Rightarrow> (Inl err, snd (rt_add t o')) | None \<Rightarrow> (Inl err, t))))"

definition flatten_opt :: "'a option list \<Rightarrow> 'a list" where
  "flatten_opt xs = map the (filter (\<lambda>x. x \<noteq> None) xs)"

definition rt_get_default_route :: "RouteTable \<Rightarrow> Route option" where
  "rt_get_default_route t = List.find route_is_default (flatten_opt (rt_routes t))"

definition lookup_step :: "GdpAddress \<Rightarrow> Instant \<Rightarrow> Route option result \<Rightarrow> Route \<Rightarrow> Route option result" where
  "lookup_step destination now acc r =
    rbind acc (\<lambda>best.
      if route_is_expired r now then Ok best
      else rbind (prefix_contains (rt_prefix r) destination) (\<lambda>c.
        if \<not> c then Ok best
        else case best of
            None \<Rightarrow> Ok (Some r)
          | Some current \<Rightarrow>
              Ok (if prefix_len (rt_prefix current) < prefix_len (rt_prefix r) then Some r else Some current)))"

definition rt_lookup :: "RouteTable \<Rightarrow> GdpAddress \<Rightarrow> Instant \<Rightarrow> GdpAddress option result" where
  "rt_lookup t destination now =
    rbind (foldl (lookup_step destination now) (Ok None) (flatten_opt (rt_routes t)))
      (\<lambda>best. Ok (map_option via_router best))"

definition rt_next_expiry :: "RouteTable \<Rightarrow> Instant option" where
  "rt_next_expiry t =
    (let es = flatten_opt (map expires_at (flatten_opt (rt_routes t)))
     in if es = [] then None else Some (Min (set es)))"

fun prune_slots :: "Instant \<Rightarrow> Route option list \<Rightarrow> Route option list \<times> nat" where
  "prune_slots now [] = ([], 0)"
| "prune_slots now (s # ss) =
    (let (ss', n) = prune_slots now ss in
     case s of Some r \<Rightarrow> if route_is_expired r now then (None # ss', Suc n) else (s # ss', n)
     | None \<Rightarrow> (s # ss', n))"

definition rt_prune_expired :: "RouteTable \<Rightarrow> Instant \<Rightarrow> nat \<times> RouteTable" where
  "rt_prune_expired t now =
    (case prune_slots now (rt_routes t) of (ss, n) \<Rightarrow> (n, \<lparr>rt_routes = ss, rt_len = rt_len t - n\<rparr>))"

section \<open>The table invariant\<close>

definition rt_inv :: "RouteTable \<Rightarrow> bool" where
  "rt_inv t \<longleftrightarrow> rt_len t = length (flatten_opt (rt_routes t)) \<and> (\<forall>r \<in> set (flatten_opt (rt_routes t)). prefix_wf (rt_prefix r))"

lemma flatten_opt_simps [simp]:
  "flatten_opt [] = []" "flatten_opt (None # xs) = flatten_opt xs" "flatten_opt (Some x # xs) = x # flatten_opt xs"
  by (simp_all add: flatten_opt_def)

lemma slots_add_Some:
  "slots_add ss r = Some ss' \<Longrightarrow> \<exists>xs ys. ss = xs @ None # ys \<and> None \<notin> set xs \<and> ss' = xs @ Some r # ys"
proof (induction ss r arbitrary: ss' rule: slots_add.induct)
  case (2 ss r)
  then show ?case by (intro exI[of _ "[]"] exI[of _ ss]) auto
next
  case (3 q ss r)
  then obtain xs ys where "ss = xs @ None # ys" "None \<notin> set xs" "tl ss' = xs @ Some r # ys" "ss' = Some q # tl ss'" by fastforce
  then show ?case by (intro exI[of _ "Some q # xs"] exI[of _ ys]) auto
qed simp

lemma slots_add_None: "slots_add ss r = None \<longleftrightarrow> None \<notin> set ss"
  by (induction ss r rule: slots_add.induct) auto

lemma slots_remove_Some:
  "slots_remove ss p = Some (r, ss') \<Longrightarrow> \<exists>xs ys. ss = xs @ Some r # ys \<and> ss' = xs @ None # ys \<and> rt_prefix r = p \<and>
    (\<forall>q. Some q \<in> set xs \<longrightarrow> rt_prefix q \<noteq> p)"
proof (induction ss p arbitrary: ss' rule: slots_remove.induct)
  case (2 ss p)
  then obtain zs where z: "slots_remove ss p = Some (r, zs)" "ss' = None # zs" by auto
  from "2.IH"[OF z(1)] obtain xs ys where "ss = xs @ Some r # ys" "zs = xs @ None # ys" "rt_prefix r = p"
    "\<forall>q. Some q \<in> set xs \<longrightarrow> rt_prefix q \<noteq> p" by blast
  then show ?case using z by (intro exI[of _ "None # xs"] exI[of _ ys]) auto
next
  case (3 q ss p)
  show ?case
  proof (cases "rt_prefix q = p")
    case True
    then show ?thesis using 3 by (intro exI[of _ "[]"] exI[of _ ss]) auto
  next
    case False
    then obtain zs where z: "slots_remove ss p = Some (r, zs)" "ss' = Some q # zs" using 3 by auto
    from "3.IH"[OF False z(1)] obtain xs ys where "ss = xs @ Some r # ys" "zs = xs @ None # ys" "rt_prefix r = p"
      "\<forall>q. Some q \<in> set xs \<longrightarrow> rt_prefix q \<noteq> p" by blast
    then show ?thesis using z False by (intro exI[of _ "Some q # xs"] exI[of _ ys]) auto
  qed
qed simp

lemma slots_remove_None: "slots_remove ss p = None \<longleftrightarrow> (\<forall>r. Some r \<in> set ss \<longrightarrow> rt_prefix r \<noteq> p)"
  by (induction ss p rule: slots_remove.induct) auto

lemma flatten_opt_append [simp]: "flatten_opt (xs @ ys) = flatten_opt xs @ flatten_opt ys"
  by (simp add: flatten_opt_def)

lemma set_flatten_opt: "x \<in> set (flatten_opt xs) \<longleftrightarrow> Some x \<in> set xs"
  by (induction xs) (auto simp: flatten_opt_def)

lemma prune_slots_eq:
  "prune_slots now ss = (map (\<lambda>s. case s of Some r \<Rightarrow> if route_is_expired r now then None else s | None \<Rightarrow> None) ss,
     length (filter (\<lambda>r. route_is_expired r now) (flatten_opt ss)))"
  by (induction ss) (auto split: option.splits)

lemma flatten_prune: "flatten_opt (fst (prune_slots now ss)) = filter (\<lambda>r. \<not> route_is_expired r now) (flatten_opt ss)"
  unfolding prune_slots_eq by (induction ss) (auto split: option.splits)

lemma rt_add_inv: "rt_inv t \<Longrightarrow> prefix_wf (rt_prefix r) \<Longrightarrow> rt_inv (snd (rt_add t r))"
  by (auto simp: rt_add_def rt_inv_def dest!: slots_add_Some split: option.splits)

lemma rt_remove_inv: "rt_inv t \<Longrightarrow> rt_inv (snd (rt_remove t p))"
  by (auto simp: rt_remove_def rt_inv_def dest!: slots_remove_Some split: option.splits)

lemma rt_prune_inv: "rt_inv t \<Longrightarrow> rt_inv (snd (rt_prune_expired t now))"
proof -
  assume inv: "rt_inv t"
  let ?f = "flatten_opt (rt_routes t)"
  have f: "flatten_opt (rt_routes (snd (rt_prune_expired t now))) = filter (\<lambda>r. \<not> route_is_expired r now) ?f"
    using flatten_prune[of now "rt_routes t"] by (simp add: rt_prune_expired_def split_beta)
  have "length (filter (\<lambda>r. route_is_expired r now) ?f) + length (filter (\<lambda>r. \<not> route_is_expired r now) ?f) = length ?f"
    by (rule sum_length_filter_compl)
  then have "rt_len (snd (rt_prune_expired t now)) = length (filter (\<lambda>r. \<not> route_is_expired r now) ?f)"
    using inv by (simp add: rt_prune_expired_def prune_slots_eq rt_inv_def)
  then show ?thesis using inv f by (auto simp: rt_inv_def)
qed

section \<open>Longest prefix match\<close>

text \<open>A route that may carry a packet to \<open>d\<close> at time \<open>now\<close>.\<close>

definition route_applies :: "GdpAddress \<Rightarrow> Instant \<Rightarrow> Route \<Rightarrow> bool" where
  "route_applies d now r \<longleftrightarrow> \<not> route_is_expired r now \<and> prefix_contains (rt_prefix r) d = Ok True"

definition better :: "Route option \<Rightarrow> Route \<Rightarrow> Route option" where
  "better best r = (case best of None \<Rightarrow> Some r
     | Some b \<Rightarrow> if prefix_len (rt_prefix b) < prefix_len (rt_prefix r) then Some r else Some b)"

lemma lookup_step_eq:
  assumes "prefix_wf (rt_prefix r)"
  shows "lookup_step d now (Ok best) r = Ok (if route_applies d now r then better best r else best)"
  using prefix_contains_eq[OF assms, of d]
  by (auto simp: lookup_step_def route_applies_def better_def split: option.splits)

lemma lookup_fold:
  "\<forall>r \<in> set rs. prefix_wf (rt_prefix r) \<Longrightarrow>
   foldl (lookup_step d now) (Ok best) rs = Ok (foldl (\<lambda>b r. if route_applies d now r then better b r else b) best rs)"
  by (induction rs arbitrary: best) (auto simp: lookup_step_eq)

text \<open>\<open>rs ! i\<close> is the first of the longest among the routes of \<open>rs\<close> that satisfy \<open>P\<close>.\<close>

definition first_longest :: "(Route \<Rightarrow> bool) \<Rightarrow> Route list \<Rightarrow> nat \<Rightarrow> bool" where
  "first_longest P rs i \<longleftrightarrow> i < length rs \<and> P (rs ! i) \<and>
    (\<forall>j < length rs. P (rs ! j) \<longrightarrow> prefix_len (rt_prefix (rs ! j)) \<le> prefix_len (rt_prefix (rs ! i)) \<and>
      (prefix_len (rt_prefix (rs ! j)) = prefix_len (rt_prefix (rs ! i)) \<longrightarrow> i \<le> j))"

lemma first_longest_snoc_keep:
  "first_longest P rs i \<Longrightarrow> (P r \<Longrightarrow> prefix_len (rt_prefix r) \<le> prefix_len (rt_prefix (rs ! i))) \<Longrightarrow> first_longest P (rs @ [r]) i"
  by (auto simp: first_longest_def nth_append less_Suc_eq)

lemma first_longest_snoc_new:
  "P r \<Longrightarrow> (\<And>q. q \<in> set rs \<Longrightarrow> P q \<Longrightarrow> prefix_len (rt_prefix q) < prefix_len (rt_prefix r)) \<Longrightarrow>
   first_longest P (rs @ [r]) (length rs)"
  by (auto simp: first_longest_def nth_append less_Suc_eq dest: nth_mem intro: less_imp_le) (metis less_irrefl nth_mem)

lemma better_fold:
  "case foldl (\<lambda>b r. if P r then better b r else b) None rs of
     None \<Rightarrow> \<forall>r \<in> set rs. \<not> P r
   | Some b \<Rightarrow> \<exists>i. first_longest P rs i \<and> b = rs ! i"
proof (induction rs rule: rev_induct)
  case (snoc r rs)
  let ?f = "foldl (\<lambda>b r. if P r then better b r else b) None"
  show ?case
  proof (cases "?f rs")
    case None
    then show ?thesis using snoc first_longest_snoc_new[of P r rs] by (auto simp: better_def intro!: exI[of _ "length rs"])
  next
    case (Some b)
    then obtain i where i: "first_longest P rs i" "b = rs ! i" using snoc by auto
    have lt: "i < length rs" using i by (simp add: first_longest_def)
    show ?thesis
    proof (cases "P r \<and> prefix_len (rt_prefix b) < prefix_len (rt_prefix r)")
      case True
      have "prefix_len (rt_prefix q) < prefix_len (rt_prefix r)" if "q \<in> set rs" "P q" for q
        using i that True unfolding first_longest_def by (metis in_set_conv_nth le_less_trans)
      then show ?thesis using True Some first_longest_snoc_new[of P r rs]
        by (auto simp: better_def intro!: exI[of _ "length rs"])
    next
      case False
      then have "first_longest P (rs @ [r]) i" using i first_longest_snoc_keep[of P rs i r] by (auto simp: not_less)
      then show ?thesis using False Some i lt by (auto simp: better_def nth_append intro!: exI[of _ i])
    qed
  qed
qed simp

section \<open>Properties\<close>

text \<open>C9. Lookup is longest-prefix match: on every table the operations build it never panics; it returns nothing
  exactly when no route that has not expired covers the destination, and otherwise the router of the covering
  unexpired route with the longest prefix, the one in the lowest slot among equals.\<close>

theorem rt_lookup_longest_prefix:
  assumes "rt_inv t" "rs = flatten_opt (rt_routes t)"
  shows "\<exists>res. rt_lookup t d now = Ok res \<and>
    (case res of
       None \<Rightarrow> \<forall>r \<in> set rs. \<not> route_applies d now r
     | Some v \<Rightarrow> \<exists>i. first_longest (route_applies d now) rs i \<and> v = via_router (rs ! i))"
proof -
  have "\<forall>r \<in> set rs. prefix_wf (rt_prefix r)" using assms by (simp add: rt_inv_def)
  then show ?thesis using better_fold[where P = "route_applies d now" and rs = rs] assms(2)
    by (auto simp: rt_lookup_def lookup_fold split: option.splits)
qed

theorem rt_lookup_longest_prefix_witness:
  "\<exists>res. rt_lookup \<lparr>rt_routes = [Some (route_new_default 1), None, Some (route_new \<lparr>network = 0x8000000000000000, prefix_len = 1\<rparr> 2)],
      rt_len = 2\<rparr> 0x8000000000000005 instant_zero = Ok res \<and> res = Some 2"
proof -
  let ?t = "\<lparr>rt_routes = [Some (route_new_default 1), None, Some (route_new \<lparr>network = 0x8000000000000000, prefix_len = 1\<rparr> 2)], rt_len = 2\<rparr>"
  have "gdp_prefix_new 0x8000000000000000 1 = Ok (Inr \<lparr>network = 0x8000000000000000, prefix_len = 1\<rparr>)" by code_simp
  then have "rt_inv ?t"
    using gdp_prefix_new_wf by (auto simp: rt_inv_def route_new_default_def route_new_def default_route_wf)
  from rt_lookup_longest_prefix[OF this refl, of "0x8000000000000005" instant_zero]
  obtain res where "rt_lookup ?t 0x8000000000000005 instant_zero = Ok res" by blast
  moreover have "rt_lookup ?t 0x8000000000000005 instant_zero = Ok (Some 2)" by code_simp
  ultimately show ?thesis by simp
qed

text \<open>Prefix membership: a prefix built by the constructor contains an address exactly when the two agree on the
  prefix's leading bits, and the constructor refuses exactly the lengths above 64.\<close>

theorem gdp_prefix_contains_spec:
  "case gdp_prefix_new a len of
     Ok (Inl PrefixLengthError) \<Rightarrow> 64 < len
   | Ok (Inr p) \<Rightarrow> len \<le> 64 \<and> (\<forall>b. prefix_contains p b = Ok (\<forall>k. 64 - unat len \<le> k \<and> k < 64 \<longrightarrow> (bit b k \<longleftrightarrow> bit a k)))
   | Err _ \<Rightarrow> False | Panic \<Rightarrow> False"
proof (cases "64 < len")
  case False
  then have len: "len \<le> 64" by simp
  let ?p = "\<lparr>network = a AND push_bit (64 - unat len) (- 1), prefix_len = len\<rparr>"
  have p: "gdp_prefix_new a len = Ok (Inr ?p)"
    using len by (auto simp: gdp_prefix_new_def prefix_mask_eq)
  have "prefix_contains ?p b = Ok (\<forall>k. 64 - unat len \<le> k \<and> k < 64 \<longrightarrow> (bit b k \<longleftrightarrow> bit a k))" for b
    using prefix_contains_eq[OF gdp_prefix_new_wf[OF p], of b] by (auto simp: bit_simps)
  then show ?thesis using p len by simp
qed (simp add: gdp_prefix_new_def)

theorem gdp_prefix_contains_spec_witness:
  "gdp_prefix_new 0xff00000000000000 65 = Ok (Inl PrefixLengthError) \<and> 64 < (65 :: u8)"
  using gdp_prefix_contains_spec[of "0xff00000000000000" 65] by (simp add: gdp_prefix_new_def)

lemma find_flatten_append:
  "List.find P (flatten_opt (xs @ ys)) =
     (case List.find P (flatten_opt xs) of Some r \<Rightarrow> Some r | None \<Rightarrow> List.find P (flatten_opt ys))"
  by (induction xs) (auto simp: flatten_opt_def)

lemma slots_default_iff:
  assumes "rt_inv t" "Some r \<in> set (rt_routes t)"
  shows "route_is_default r \<longleftrightarrow> rt_prefix r = default_route"
  using assms prefix_len_0_default by (auto simp: rt_inv_def route_is_default_def set_flatten_opt)

lemma rt_remove_default_found:
  assumes inv: "rt_inv t" and rem: "slots_remove (rt_routes t) default_route = Some (r, ss)"
  shows "rt_get_default_route t = Some r"
    and "\<exists>xs ys. rt_routes t = xs @ Some r # ys \<and> ss = xs @ None # ys \<and> List.find route_is_default (flatten_opt xs) = None"
proof -
  from slots_remove_Some[OF rem] obtain xs ys where x: "rt_routes t = xs @ Some r # ys" "ss = xs @ None # ys"
    "rt_prefix r = default_route" "\<forall>q. Some q \<in> set xs \<longrightarrow> rt_prefix q \<noteq> default_route" by blast
  have none: "List.find route_is_default (flatten_opt xs) = None"
    using x slots_default_iff[OF inv] by (auto simp: find_None_iff set_flatten_opt)
  have "route_is_default r" using x slots_default_iff[OF inv] by auto
  then show "rt_get_default_route t = Some r"
    using none unfolding rt_get_default_route_def x(1) find_flatten_append by simp
  show "\<exists>xs ys. rt_routes t = xs @ Some r # ys \<and> ss = xs @ None # ys \<and> List.find route_is_default (flatten_opt xs) = None"
    using x none by blast
qed

lemma rt_remove_default_absent:
  assumes "rt_inv t" "slots_remove (rt_routes t) default_route = None"
  shows "rt_get_default_route t = None"
  using assms slots_default_iff[OF assms(1)]
  by (auto simp: slots_remove_None rt_get_default_route_def find_None_iff set_flatten_opt)

lemma find_default_after_add:
  assumes add: "slots_add ss (route_new_default via) = Some ss'"
    and before: "ss = xs @ None # ys" "List.find route_is_default (flatten_opt xs) = None"
  shows "List.find route_is_default (flatten_opt ss') = Some (route_new_default via)"
proof -
  from slots_add_Some[OF add] obtain us vs where u: "ss = us @ None # vs" "None \<notin> set us" "ss' = us @ Some (route_new_default via) # vs"
    by blast
  have "\<exists>zs. xs = us @ zs"
  proof -
    have "us @ None # vs = xs @ None # ys" using u(1) before(1) by simp
    then consider z where "us = xs @ z" "z @ None # vs = None # ys" | z where "us @ z = xs"
      by (auto simp: append_eq_append_conv2)
    then show ?thesis
    proof cases
      case (1 z)
      then show ?thesis using u(2) by (cases z) auto
    qed auto
  qed
  then obtain zs where "xs = us @ zs" by blast
  then have "List.find route_is_default (flatten_opt us) = None"
    using before(2) by (auto simp: find_None_iff)
  then show ?thesis unfolding u(3) find_flatten_append
    by (simp add: route_is_default_def route_new_default_def route_new_def default_route_def)
qed

text \<open>Replacing the default route is all or nothing: on success the call returns the previous default route, the
  new one is the default, and the table holds the same routes with only that one exchanged or added; on
  failure the table was full without a default route and is left as it was.\<close>

theorem rt_add_default_route_spec:
  assumes inv: "rt_inv t"
  shows "case rt_add_default_route t via of
      (Inr old, t') \<Rightarrow> old = rt_get_default_route t \<and> rt_get_default_route t' = Some (route_new_default via) \<and> rt_inv t' \<and>
        mset (flatten_opt (rt_routes t')) =
          mset (flatten_opt (rt_routes t)) - (case old of None \<Rightarrow> {#} | Some r \<Rightarrow> {#r#}) + {#route_new_default via#}
    | (Inl RouteTableFull, t') \<Rightarrow> t' = t \<and> None \<notin> set (rt_routes t) \<and> rt_get_default_route t = None"
proof (cases "slots_remove (rt_routes t) default_route")
  case None
  note rem = this and absent = rt_remove_default_absent[OF inv this]
  show ?thesis
  proof (cases "slots_add (rt_routes t) (route_new_default via)")
    case None
    then have "None \<notin> set (rt_routes t)" by (simp add: slots_add_None)
    then show ?thesis using rem absent None
      by (simp add: rt_add_default_route_def rt_remove_default_route_def rt_remove_def rt_add_def)
  next
    case (Some ss)
    from slots_add_Some[OF Some] obtain xs ys where x: "rt_routes t = xs @ None # ys" "ss = xs @ Some (route_new_default via) # ys" by blast
    have "List.find route_is_default (flatten_opt xs) = None"
      using absent by (auto simp: rt_get_default_route_def x(1) find_None_iff)
    from find_default_after_add[OF Some x(1) this] have "List.find route_is_default (flatten_opt ss) = Some (route_new_default via)" .
    moreover have "rt_inv \<lparr>rt_routes = ss, rt_len = rt_len t + 1\<rparr>"
      using rt_add_inv[OF inv, of "route_new_default via"] Some by (simp add: rt_add_def route_new_default_def route_new_def default_route_wf)
    ultimately show ?thesis using rem absent Some x
      by (simp add: rt_add_default_route_def rt_remove_default_route_def rt_remove_def rt_add_def rt_get_default_route_def)
  qed
next
  case (Some rs)
  then obtain r ss where rem: "slots_remove (rt_routes t) default_route = Some (r, ss)" by (cases rs) auto
  note found = rt_remove_default_found[OF inv rem]
  from found(2) obtain xs ys where x: "rt_routes t = xs @ Some r # ys" "ss = xs @ None # ys"
    "List.find route_is_default (flatten_opt xs) = None" by blast
  obtain ss' where add: "slots_add ss (route_new_default via) = Some ss'"
    using slots_add_None[of ss "route_new_default via"] x(2) by (cases "slots_add ss (route_new_default via)") auto
  note fd = find_default_after_add[OF add x(2,3)]
  have "rt_inv (snd (rt_remove t default_route))" by (rule rt_remove_inv[OF inv])
  then have "rt_inv (snd (rt_add (snd (rt_remove t default_route)) (route_new_default via)))"
    by (rule rt_add_inv) (simp add: route_new_default_def route_new_def default_route_wf)
  moreover from slots_add_Some[OF add] have "mset (flatten_opt ss') = mset (flatten_opt ss) + {#route_new_default via#}" by auto
  ultimately show ?thesis using rem add found(1) fd x
    by (simp add: rt_add_default_route_def rt_remove_default_route_def rt_remove_def rt_add_def rt_get_default_route_def)
qed

theorem rt_add_default_route_spec_witness:
  "case rt_add_default_route (rt_new 1) 5 of
      (Inr old, t') \<Rightarrow> old = None \<and> rt_get_default_route t' = Some (route_new_default 5)
    | (Inl RouteTableFull, t') \<Rightarrow> False"
proof -
  have "rt_inv (rt_new 1)" by (simp add: rt_inv_def rt_new_def)
  moreover have "rt_get_default_route (rt_new 1) = None" "None \<in> set (rt_routes (rt_new 1))"
    by (simp_all add: rt_get_default_route_def rt_new_def)
  ultimately show ?thesis using rt_add_default_route_spec[of "rt_new 1" 5]
    by (auto split: prod.splits sum.splits RouteTableFull.splits)
qed

text \<open>Ties are resolved by slot order, which is not insertion order once a slot has been freed: of two routes for the
  same prefix the older is removed and a third takes its slot; the lookup then prefers the newest.\<close>

definition tie_run :: RouteTable where
  "tie_run = (let p = \<lparr>network = 0, prefix_len = 8\<rparr>;
     t = snd (rt_add (rt_new 2) (route_new p 1));
     t = snd (rt_add t (route_new p 2));
     t = snd (rt_remove t p)
   in snd (rt_add t (route_new p 3)))"

text \<open>Ties between equally long prefixes go to the lowest slot, not to the oldest route: with two routes for
  one prefix, removing the first and adding a third makes the third, the newest, the one that is found.\<close>

theorem rt_tie_newest_wins: "rt_lookup tie_run 7 instant_zero = Ok (Some 3)"
  by code_simp

end
