(* ===== verification/Gts_Wire.thy ===== *)
theory Gts_Wire
  imports Gdp Css
begin

text \<open>
  The profile-independent layer of the GTS transport format: packet types, stream profiles and the lower packet
  of src/src/wire/gts.rs, and the handwritten lower codec of src/src/wire/gts_handwritten.rs. A lower codec is an
  interface of the sources (traits \<open>GtsLowerEncoder\<close> and \<open>GtsLowerDecoder\<close>, also implemented by a generated P4
  pipeline); the locale \<open>gts_lower_codec\<close> states it and the handwritten codec is shown to satisfy it.
\<close>

section \<open>Packet types\<close>

datatype GtsType =
    TyReserved | TyConnect | TyConnectAck | TyStreamOpen | TyStreamAck | TyData | TyAck | TyDataEnd
  | TyStreamClose | TyStreamCloseAck | TyTunnelClose | TyTunnelCloseAck | TyReset | TyDatagram | TyStreamReset | TyStreamResetAck

definition gts_type_all :: "GtsType list" where
  "gts_type_all = [TyReserved, TyConnect, TyConnectAck, TyStreamOpen, TyStreamAck, TyData, TyAck, TyDataEnd, TyStreamClose, TyStreamCloseAck, TyTunnelClose, TyTunnelCloseAck, TyReset, TyDatagram, TyStreamReset, TyStreamResetAck]"

primrec gts_type_index :: "GtsType \<Rightarrow> nat" where
  "gts_type_index TyReserved = 0"
| "gts_type_index TyConnect = 1"
| "gts_type_index TyConnectAck = 2"
| "gts_type_index TyStreamOpen = 3"
| "gts_type_index TyStreamAck = 4"
| "gts_type_index TyData = 5"
| "gts_type_index TyAck = 6"
| "gts_type_index TyDataEnd = 7"
| "gts_type_index TyStreamClose = 8"
| "gts_type_index TyStreamCloseAck = 9"
| "gts_type_index TyTunnelClose = 10"
| "gts_type_index TyTunnelCloseAck = 11"
| "gts_type_index TyReset = 12"
| "gts_type_index TyDatagram = 13"
| "gts_type_index TyStreamReset = 14"
| "gts_type_index TyStreamResetAck = 15"

text \<open>\<open>unreachable!()\<close> would be the index past the sixteenth.\<close>

definition gts_type_from_wire :: "u8 \<Rightarrow> GtsType result" where
  "gts_type_from_wire v = idx gts_type_all (unat (v AND 0xf))"

section \<open>Directions and stream profiles\<close>

datatype Direction = OpenerToPeer | PeerToOpener | Bidirectional

primrec direction_bits :: "Direction \<Rightarrow> u16" where
  "direction_bits OpenerToPeer = 1"
| "direction_bits PeerToOpener = 2"
| "direction_bits Bidirectional = 3"

definition direction_from_bits :: "u16 \<Rightarrow> Direction result" where
  "direction_from_bits v =
    (if v = 1 then Ok OpenerToPeer else if v = 2 then Ok PeerToOpener else if v = 3 then Ok Bidirectional
     else Err ProfileViolation)"

definition opener_may_send :: "Direction \<Rightarrow> bool" where
  "opener_may_send d \<longleftrightarrow> d = OpenerToPeer \<or> d = Bidirectional"

definition peer_may_send :: "Direction \<Rightarrow> bool" where
  "peer_may_send d \<longleftrightarrow> d = PeerToOpener \<or> d = Bidirectional"

record StreamProfile =
  sp_unreliable :: bool
  sp_variable :: bool
  sp_sequenced :: bool
  sp_unchecked_payload :: bool
  sp_direction :: Direction
  sp_size_class :: SizeClass

definition reliable_fixed :: "SizeClass \<Rightarrow> Direction \<Rightarrow> StreamProfile" where
  "reliable_fixed c d = \<lparr>sp_unreliable = False, sp_variable = False, sp_sequenced = False,
     sp_unchecked_payload = False, sp_direction = d, sp_size_class = c\<rparr>"

definition reliable_variable :: "SizeClass \<Rightarrow> Direction \<Rightarrow> StreamProfile" where
  "reliable_variable c d = \<lparr>sp_unreliable = False, sp_variable = True, sp_sequenced = False,
     sp_unchecked_payload = False, sp_direction = d, sp_size_class = c\<rparr>"

definition unreliable_fixed :: "SizeClass \<Rightarrow> Direction \<Rightarrow> bool \<Rightarrow> bool \<Rightarrow> StreamProfile" where
  "unreliable_fixed c d sequenced unchecked = \<lparr>sp_unreliable = True, sp_variable = False, sp_sequenced = sequenced,
     sp_unchecked_payload = unchecked, sp_direction = d, sp_size_class = c\<rparr>"

definition unreliable_variable :: "SizeClass \<Rightarrow> Direction \<Rightarrow> bool \<Rightarrow> bool \<Rightarrow> StreamProfile" where
  "unreliable_variable c d sequenced unchecked = \<lparr>sp_unreliable = True, sp_variable = True, sp_sequenced = sequenced,
     sp_unchecked_payload = unchecked, sp_direction = d, sp_size_class = c\<rparr>"

definition profile_validate :: "StreamProfile \<Rightarrow> StreamProfile result" where
  "profile_validate p =
    (if \<not> sp_unreliable p \<and> (sp_sequenced p \<or> sp_unchecked_payload p) then Err ProfileViolation else Ok p)"

definition profile_to_wire :: "StreamProfile \<Rightarrow> u16 result" where
  "profile_to_wire p =
    rbind (profile_validate p) (\<lambda>_.
      Ok (push_bit 15 (of_bool (sp_unreliable p)) OR push_bit 14 (of_bool (sp_variable p))
          OR push_bit 13 (of_bool (sp_sequenced p)) OR push_bit 12 (of_bool (sp_unchecked_payload p))
          OR push_bit 10 (direction_bits (sp_direction p)) OR of_nat (size_class_index (sp_size_class p))))"

definition profile_from_wire :: "u16 \<Rightarrow> StreamProfile result" where
  "profile_from_wire v =
    (if v AND 0x03f0 \<noteq> 0 then Err ProfileViolation
     else rbind (direction_from_bits (drop_bit 10 v AND 3)) (\<lambda>d.
       rbind (size_class_from_wire (ucast (v AND 0xf))) (\<lambda>c.
       profile_validate \<lparr>sp_unreliable = v AND 0x8000 \<noteq> 0, sp_variable = v AND 0x4000 \<noteq> 0,
         sp_sequenced = v AND 0x2000 \<noteq> 0, sp_unchecked_payload = v AND 0x1000 \<noteq> 0,
         sp_direction = d, sp_size_class = c\<rparr>)))"

section \<open>Lower packets\<close>

text \<open>The fields are in the order of the source. The last flag of \<open>LData\<close> says whether the packet is a
  DATA_END, that of the close and reset packets whether they are acknowledgements.\<close>

datatype GtsLowerPacket =
    LConnect u32 u32 u16 u8
  | LConnectAck u32 u32 u32 u8 u8 u8
  | LStreamOpen u32 u8 u16 u8 u8
  | LStreamAck u32 u8 u8 u8 u8
  | LData u32 u8 u32 bool u16
  | LAck u32 u8 u32 u32 u8 u8
  | LDatagram u32 u8 bytes
  | LStreamClose u32 u8 u32 bool
  | LTunnelClose u32 bool
  | LReset u32 u32 u8
  | LStreamReset u32 u8 u8 u8 bool

primrec lower_packet_type :: "GtsLowerPacket \<Rightarrow> GtsType" where
  "lower_packet_type (LConnect a b p c) = TyConnect"
| "lower_packet_type (LConnectAck a b c s i r) = TyConnectAck"
| "lower_packet_type (LStreamOpen t s p i r) = TyStreamOpen"
| "lower_packet_type (LStreamAck t s st i r) = TyStreamAck"
| "lower_packet_type (LData t s q e o') = (if e then TyDataEnd else TyData)"
| "lower_packet_type (LAck t s b m c r) = TyAck"
| "lower_packet_type (LDatagram t s o') = TyDatagram"
| "lower_packet_type (LStreamClose t s f a) = (if a then TyStreamCloseAck else TyStreamClose)"
| "lower_packet_type (LTunnelClose t a) = (if a then TyTunnelCloseAck else TyTunnelClose)"
| "lower_packet_type (LReset t i r) = TyReset"
| "lower_packet_type (LStreamReset t s e r a) = (if a then TyStreamResetAck else TyStreamReset)"

primrec lower_prefix_len :: "GtsType \<Rightarrow> nat result" where
  "lower_prefix_len TyReserved = Err Unsupported"
| "lower_prefix_len TyConnect = Ok 12"
| "lower_prefix_len TyConnectAck = Ok 16"
| "lower_prefix_len TyStreamOpen = Ok 10"
| "lower_prefix_len TyStreamAck = Ok 9"
| "lower_prefix_len TyData = Ok 12"
| "lower_prefix_len TyAck = Ok 16"
| "lower_prefix_len TyDataEnd = Ok 12"
| "lower_prefix_len TyStreamClose = Ok 10"
| "lower_prefix_len TyStreamCloseAck = Ok 10"
| "lower_prefix_len TyTunnelClose = Ok 5"
| "lower_prefix_len TyTunnelCloseAck = Ok 5"
| "lower_prefix_len TyReset = Ok 10"
| "lower_prefix_len TyDatagram = Ok 12"
| "lower_prefix_len TyStreamReset = Ok 8"
| "lower_prefix_len TyStreamResetAck = Ok 8"

section \<open>The handwritten lower codec\<close>

text \<open>A reader returns the value and the advanced position.\<close>

definition read_u32 :: "bytes \<Rightarrow> nat \<Rightarrow> nat \<Rightarrow> (u32 \<times> nat) result" where
  "read_u32 buf pos limit =
    (if limit < pos + 4 then Err InvalidLength
     else rbind (slice buf pos (pos + 4)) (\<lambda>b. Ok (from_be b, pos + 4)))"

definition read_u16 :: "bytes \<Rightarrow> nat \<Rightarrow> nat \<Rightarrow> (u16 \<times> nat) result" where
  "read_u16 buf pos limit =
    (if limit < pos + 2 then Err InvalidLength
     else rbind (slice buf pos (pos + 2)) (\<lambda>b. Ok (from_be b, pos + 2)))"

definition read_u8 :: "bytes \<Rightarrow> nat \<Rightarrow> nat \<Rightarrow> (u8 \<times> nat) result" where
  "read_u8 buf pos limit =
    (if limit \<le> pos then Err InvalidLength else rbind (idx buf pos) (\<lambda>b. Ok (b, pos + 1)))"

fun read_octets :: "nat \<Rightarrow> bytes \<Rightarrow> nat \<Rightarrow> nat \<Rightarrow> (bytes \<times> nat) result" where
  "read_octets 0 buf pos limit = Ok ([], pos)"
| "read_octets (Suc n) buf pos limit =
    rbind (read_u8 buf pos limit) (\<lambda>(b, pos).
    rbind (read_octets n buf pos limit) (\<lambda>(bs, pos). Ok (b # bs, pos)))"

definition parse_lower_body :: "GtsType \<Rightarrow> bytes \<Rightarrow> nat \<Rightarrow> nat \<Rightarrow> GtsLowerPacket result" where
  "parse_lower_body ty buf pos limit = (case ty of
      TyConnect \<Rightarrow>
        rbind (read_u32 buf pos limit) (\<lambda>(a, pos). rbind (read_u32 buf pos limit) (\<lambda>(b, pos).
        rbind (read_u16 buf pos limit) (\<lambda>(p, pos). rbind (read_u8 buf pos limit) (\<lambda>(c, pos).
        Ok (LConnect a b p c)))))
    | TyConnectAck \<Rightarrow>
        rbind (read_u32 buf pos limit) (\<lambda>(a, pos). rbind (read_u32 buf pos limit) (\<lambda>(b, pos).
        rbind (read_u32 buf pos limit) (\<lambda>(c, pos). rbind (read_u8 buf pos limit) (\<lambda>(s, pos).
        rbind (read_u8 buf pos limit) (\<lambda>(i, pos). rbind (read_u8 buf pos limit) (\<lambda>(r, pos).
        Ok (LConnectAck a b c s i r)))))))
    | TyStreamOpen \<Rightarrow>
        rbind (read_u32 buf pos limit) (\<lambda>(t, pos). rbind (read_u8 buf pos limit) (\<lambda>(s, pos).
        rbind (read_u16 buf pos limit) (\<lambda>(p, pos). rbind (read_u8 buf pos limit) (\<lambda>(i, pos).
        rbind (read_u8 buf pos limit) (\<lambda>(r, pos). Ok (LStreamOpen t s p i r))))))
    | TyStreamAck \<Rightarrow>
        rbind (read_u32 buf pos limit) (\<lambda>(t, pos). rbind (read_u8 buf pos limit) (\<lambda>(s, pos).
        rbind (read_u8 buf pos limit) (\<lambda>(st, pos). rbind (read_u8 buf pos limit) (\<lambda>(i, pos).
        rbind (read_u8 buf pos limit) (\<lambda>(r, pos). Ok (LStreamAck t s st i r))))))
    | TyAck \<Rightarrow>
        rbind (read_u32 buf pos limit) (\<lambda>(t, pos). rbind (read_u8 buf pos limit) (\<lambda>(s, pos).
        rbind (read_u32 buf pos limit) (\<lambda>(b, pos). rbind (read_u32 buf pos limit) (\<lambda>(m, pos).
        rbind (read_u8 buf pos limit) (\<lambda>(c, pos). rbind (read_u8 buf pos limit) (\<lambda>(r, pos).
        Ok (LAck t s b m c r)))))))
    | TyDatagram \<Rightarrow>
        rbind (read_u32 buf pos limit) (\<lambda>(t, pos). rbind (read_u8 buf pos limit) (\<lambda>(s, pos).
        rbind (read_octets 6 buf pos limit) (\<lambda>(o', pos). Ok (LDatagram t s o'))))
    | TyReset \<Rightarrow>
        rbind (read_u32 buf pos limit) (\<lambda>(t, pos). rbind (read_u32 buf pos limit) (\<lambda>(i, pos).
        rbind (read_u8 buf pos limit) (\<lambda>(r, pos). Ok (LReset t i r))))
    | TyReserved \<Rightarrow> Err Unsupported
    | _ \<Rightarrow>
        if ty = TyData \<or> ty = TyDataEnd then
          rbind (read_u32 buf pos limit) (\<lambda>(t, pos). rbind (read_u8 buf pos limit) (\<lambda>(s, pos).
          rbind (read_u32 buf pos limit) (\<lambda>(q, pos). rbind (read_u16 buf pos limit) (\<lambda>(o', pos).
          Ok (LData t s q (ty = TyDataEnd) o')))))
        else if ty = TyStreamClose \<or> ty = TyStreamCloseAck then
          rbind (read_u32 buf pos limit) (\<lambda>(t, pos). rbind (read_u8 buf pos limit) (\<lambda>(s, pos).
          rbind (read_u32 buf pos limit) (\<lambda>(f, pos). Ok (LStreamClose t s f (ty = TyStreamCloseAck)))))
        else if ty = TyTunnelClose \<or> ty = TyTunnelCloseAck then
          rbind (read_u32 buf pos limit) (\<lambda>(t, pos). Ok (LTunnelClose t (ty = TyTunnelCloseAck)))
        else
          rbind (read_u32 buf pos limit) (\<lambda>(t, pos). rbind (read_u8 buf pos limit) (\<lambda>(s, pos).
          rbind (read_u8 buf pos limit) (\<lambda>(e, pos). rbind (read_u8 buf pos limit) (\<lambda>(r, pos).
          Ok (LStreamReset t s e r (ty = TyStreamResetAck)))))))"

definition parse_lower :: "bytes \<Rightarrow> GtsLowerPacket result" where
  "parse_lower buf =
    (if length buf < 5 then Err InvalidLength
     else rbind (idx buf 0) (\<lambda>b0.
       if drop_bit 4 b0 \<noteq> 0 then Err Unsupported
       else rbind (gts_type_from_wire (b0 AND 0x0f)) (\<lambda>ty.
         rbind (lower_prefix_len ty) (\<lambda>prefix_len.
         if length buf < prefix_len + 4 then Err InvalidLength
         else parse_lower_body ty buf 1 prefix_len))))"

text \<open>\<open>put_u32\<close>, \<open>put_u16\<close> and \<open>put_u8\<close> on the output buffer and the position.\<close>

definition put_chunk :: "bytes \<Rightarrow> bytes \<times> nat \<Rightarrow> (bytes \<times> nat) result" where
  "put_chunk c st = (case st of (out, pos) \<Rightarrow>
    if length out < pos + length c then Err InvalidLength
    else rbind (copy_at out pos c) (\<lambda>out. Ok (out, pos + length c)))"

fun put_chunks :: "bytes list \<Rightarrow> bytes \<times> nat \<Rightarrow> (bytes \<times> nat) result" where
  "put_chunks [] st = Ok st"
| "put_chunks (c # cs) st = rbind (put_chunk c st) (put_chunks cs)"

text \<open>The puts of each case of the encoder, in their order.\<close>

primrec lower_chunks :: "GtsLowerPacket \<Rightarrow> bytes list" where
  "lower_chunks (LConnect a b p c) = [to_be 4 a, to_be 4 b, to_be 2 p, [c]]"
| "lower_chunks (LConnectAck a b c s i r) = [to_be 4 a, to_be 4 b, to_be 4 c, [s], [i], [r]]"
| "lower_chunks (LStreamOpen t s p i r) = [to_be 4 t, [s], to_be 2 p, [i], [r]]"
| "lower_chunks (LStreamAck t s st i r) = [to_be 4 t, [s], [st], [i], [r]]"
| "lower_chunks (LData t s q e o') = [to_be 4 t, [s], to_be 4 q, to_be 2 o']"
| "lower_chunks (LAck t s b m c r) = [to_be 4 t, [s], to_be 4 b, to_be 4 m, [c], [r]]"
| "lower_chunks (LDatagram t s o') = [to_be 4 t, [s]] @ map (\<lambda>b. [b]) o'"
| "lower_chunks (LStreamClose t s f a) = [to_be 4 t, [s], to_be 4 f]"
| "lower_chunks (LTunnelClose t a) = [to_be 4 t]"
| "lower_chunks (LReset t i r) = [to_be 4 t, to_be 4 i, [r]]"
| "lower_chunks (LStreamReset t s e r a) = [to_be 4 t, [s], [e], [r]]"

definition encode_lower :: "GtsLowerPacket \<Rightarrow> bytes result" where
  "encode_lower lower =
    rbind (lower_prefix_len (lower_packet_type lower)) (\<lambda>len.
    rbind (upd (replicate len 0) 0 (of_nat (gts_type_index (lower_packet_type lower)))) (\<lambda>out.
    rbind (put_chunks (lower_chunks lower) (out, 1)) (\<lambda>(out, pos).
    if pos \<noteq> length out then Err InvalidLength else Ok out)))"

section \<open>Profiles round-trip\<close>

definition profile_valid :: "StreamProfile \<Rightarrow> bool" where
  "profile_valid p \<longleftrightarrow> (sp_sequenced p \<or> sp_unchecked_payload p \<longrightarrow> sp_unreliable p)"

lemma profile_validate_eq: "profile_validate p = (if profile_valid p then Ok p else Err ProfileViolation)"
  by (auto simp: profile_validate_def profile_valid_def)

abbreviation profile_word :: "StreamProfile \<Rightarrow> u16" where
  "profile_word p \<equiv> push_bit 15 (of_bool (sp_unreliable p)) OR push_bit 14 (of_bool (sp_variable p))
          OR push_bit 13 (of_bool (sp_sequenced p)) OR push_bit 12 (of_bool (sp_unchecked_payload p))
          OR push_bit 10 (direction_bits (sp_direction p)) OR of_nat (size_class_index (sp_size_class p))"

lemma and_exp_iff: "v AND 0x8000 \<noteq> 0 \<longleftrightarrow> bit v 15" "v AND 0x4000 \<noteq> 0 \<longleftrightarrow> bit v 14"
  "v AND 0x2000 \<noteq> 0 \<longleftrightarrow> bit v 13" "v AND 0x1000 \<noteq> 0 \<longleftrightarrow> bit v 12" for v :: u16
  using and_exp_eq_0_iff_not_bit[of v 15] and_exp_eq_0_iff_not_bit[of v 14]
    and_exp_eq_0_iff_not_bit[of v 13] and_exp_eq_0_iff_not_bit[of v 12] by simp_all

lemma and_3f0: "v AND 0x03f0 = push_bit 4 (take_bit 6 (drop_bit 4 v))" for v :: u16
proof -
  have e: "(0x03f0 :: u16) = push_bit 4 (mask 6)" by (simp add: mask_eq_exp_minus_1)
  show ?thesis unfolding e
  proof (rule bit_word_eqI)
    fix k
    show "bit (v AND push_bit 4 (mask 6)) k = bit (push_bit 4 (take_bit 6 (drop_bit 4 v))) k"
      by (cases "4 \<le> k") (auto simp: bit_simps)
  qed
qed

lemma bit_direction: "2 \<le> k \<Longrightarrow> \<not> bit (direction_bits d) k"
  using bit_imp_less[of "direction_bits d" k 2] by (cases d) auto

lemma bit_direction_less: "bit (direction_bits d) k \<Longrightarrow> k < 2"
  using bit_direction not_le by blast

lemma bit_size_class_less: "bit (size_class_index c) k \<Longrightarrow> k < 4"
  using bit_size_class not_le by blast

lemma direction_roundtrip: "direction_from_bits (direction_bits d) = Ok d"
  by (cases d) (simp_all add: direction_from_bits_def)

lemma profile_word_fields:
  "profile_word p AND 0x03f0 = 0"
  "drop_bit 10 (profile_word p) AND 3 = direction_bits (sp_direction p)"
  "ucast (profile_word p AND 0xf) = (of_nat (size_class_index (sp_size_class p)) :: u8)"
  "bit (profile_word p) 15 = sp_unreliable p" "bit (profile_word p) 14 = sp_variable p"
  "bit (profile_word p) 13 = sp_sequenced p" "bit (profile_word p) 12 = sp_unchecked_payload p"
proof -
  have "take_bit 6 (drop_bit 4 (profile_word p)) = 0"
    by (rule bit_word_eqI) (auto simp: bit_simps wire_simps bit_size_class)
  then show "profile_word p AND 0x03f0 = 0" unfolding and_3f0 by simp
  show "drop_bit 10 (profile_word p) AND 3 = direction_bits (sp_direction p)"
    "ucast (profile_word p AND 0xf) = (of_nat (size_class_index (sp_size_class p)) :: u8)"
    unfolding and_mask_take_bit
    by (auto intro!: bit_word_eqI simp: bit_simps wire_simps bit_size_class bit_direction dest: bit_size_class_less) (use bit_direction_less in fastforce)+
  show "bit (profile_word p) 15 = sp_unreliable p" "bit (profile_word p) 14 = sp_variable p"
    "bit (profile_word p) 13 = sp_sequenced p" "bit (profile_word p) 12 = sp_unchecked_payload p"
    by (auto simp: bit_simps wire_simps bit_size_class bit_direction)
qed

lemma profile_from_to_wire:
  assumes "profile_valid p"
  shows "profile_to_wire p = Ok (profile_word p)" "profile_from_wire (profile_word p) = Ok p"
proof -
  show "profile_to_wire p = Ok (profile_word p)"
    using assms by (simp add: profile_to_wire_def profile_validate_eq)
  show "profile_from_wire (profile_word p) = Ok p"
    unfolding profile_from_wire_def profile_word_fields and_exp_iff using assms
    by (auto simp: direction_roundtrip size_class_roundtrip profile_validate_def profile_valid_def)
qed

section \<open>Lower codecs\<close>

definition lower_wf :: "GtsLowerPacket \<Rightarrow> bool" where
  "lower_wf l = (case l of LDatagram t s o' \<Rightarrow> length o' = 6 | _ \<Rightarrow> True)"

text \<open>What the common encode and decode layers rely on: every lower packet has an encoding of its prefix length,
  which is parsed back from any buffer that starts with it and has room for the checksum, the octets a DATA or
  DATAGRAM probes come last, and parsing any bytes returns a lower packet that fits or an error.\<close>

locale gts_lower_codec =
  fixes enc :: "GtsLowerPacket \<Rightarrow> bytes result"
    and dec :: "bytes \<Rightarrow> GtsLowerPacket result"
  assumes enc_dec: "lower_wf l \<Longrightarrow> \<exists>bs. enc l = Ok bs \<and> lower_prefix_len (lower_packet_type l) = Ok (length bs) \<and>
      (\<forall>tail. 4 \<le> length tail \<longrightarrow> dec (bs @ tail) = Ok l)"
    and enc_data: "enc (LData t s q e w) = Ok bs \<Longrightarrow> drop 10 bs = to_be 2 w"
    and enc_datagram: "length p = 6 \<Longrightarrow> enc (LDatagram t s p) = Ok bs \<Longrightarrow> drop 6 bs = p"
    and dec_safe: "dec buf \<noteq> Panic"
    and dec_fits: "dec buf = Ok l \<Longrightarrow> lower_wf l \<and> (\<exists>n. lower_prefix_len (lower_packet_type l) = Ok n \<and> n + 4 \<le> length buf)"

definition lower_bytes :: "GtsLowerPacket \<Rightarrow> bytes" where
  "lower_bytes l = of_nat (gts_type_index (lower_packet_type l)) # concat (lower_chunks l)"

lemma put_chunks_eq:
  "pos + length (concat cs) \<le> length out \<Longrightarrow>
   put_chunks cs (out, pos) = Ok (take pos out @ concat cs @ drop (pos + length (concat cs)) out, pos + length (concat cs))"
proof (induction cs arbitrary: out pos)
  case (Cons c cs)
  let ?out = "take pos out @ c @ drop (pos + length c) out"
  have fit: "pos + length c \<le> length out" using Cons.prems by simp
  then have "put_chunks (c # cs) (out, pos) = put_chunks cs (?out, pos + length c)"
    by (simp add: put_chunk_def)
  also have "\<dots> = Ok (take (pos + length c) ?out @ concat cs @ drop (pos + length c + length (concat cs)) ?out,
      pos + length c + length (concat cs))"
    using Cons.prems by (intro Cons.IH) simp
  finally show ?case using fit by (simp add: ac_simps)
qed simp

lemma lower_bytes_length:
  "lower_wf l \<Longrightarrow> lower_prefix_len (lower_packet_type l) = Ok (length (lower_bytes l))"
  by (cases l) (simp_all add: lower_bytes_def lower_wf_def comp_def sum_list_triv)

lemma encode_lower_eq:
  assumes "lower_wf l"
  shows "encode_lower l = Ok (lower_bytes l)"
proof -
  let ?n = "length (concat (lower_chunks l))" and ?t = "of_nat (gts_type_index (lower_packet_type l)) :: u8"
  have len: "lower_prefix_len (lower_packet_type l) = Ok (Suc ?n)"
    using lower_bytes_length[OF assms] by (simp add: lower_bytes_def)
  have "put_chunks (lower_chunks l) (?t # replicate ?n 0, 1) = Ok (?t # concat (lower_chunks l), Suc ?n)"
    by (subst put_chunks_eq) simp_all
  then show ?thesis using len by (simp add: encode_lower_def lower_bytes_def)
qed

lemma read_octets_eq:
  "pos + n \<le> limit \<Longrightarrow> pos + n \<le> length buf \<Longrightarrow> read_octets n buf pos limit = Ok (take n (drop pos buf), pos + n)"
proof (induction n arbitrary: pos)
  case (Suc n)
  then have "read_octets n buf (pos + 1) limit = Ok (take n (drop (pos + 1) buf), pos + 1 + n)"
    by (intro Suc.IH) auto
  then show ?case using Suc.prems by (simp add: read_u8_def Cons_nth_drop_Suc[symmetric])
qed simp

lemma gts_type_roundtrip:
  "gts_type_from_wire (of_nat (gts_type_index ty) AND 0x0f) = Ok ty" "drop_bit 4 (of_nat (gts_type_index ty) :: u8) = 0"
  by (cases ty; simp add: gts_type_from_wire_def gts_type_all_def)+

lemma slice_parts: "length pre = n \<Longrightarrow> length mid = k \<Longrightarrow> slice (pre @ mid @ post) n (n + k) = Ok mid"
  by simp

lemma parse_lower_bytes:
  assumes wf: "lower_wf l" and tail: "4 \<le> length tail"
  shows "parse_lower (lower_bytes l @ tail) = Ok l"
proof -
  let ?ty = "lower_packet_type l"
  have len: "lower_prefix_len ?ty = Ok (length (lower_bytes l))" by (rule lower_bytes_length[OF wf])
  have "parse_lower_body ?ty (lower_bytes l @ tail) 1 (length (lower_bytes l)) = Ok l"
    using wf
    by (cases l)
       (simp_all add: parse_lower_body_def lower_bytes_def read_u32_def read_u16_def read_u8_def read_octets_eq
          lower_wf_def nth_append comp_def sum_list_triv concat_map_singleton)
  moreover have "5 \<le> length (lower_bytes l @ tail)" using tail by (simp add: lower_bytes_def)
  ultimately show ?thesis using tail len
    by (simp add: parse_lower_def) (simp add: lower_bytes_def gts_type_roundtrip)
qed

lemma read_octets_length: "read_octets n buf pos limit = Ok (bs, q) \<Longrightarrow> length bs = n"
  by (induction n arbitrary: pos bs q) (auto simp: result_simps)

lemma parse_lower_body_type:
  "parse_lower_body ty buf pos limit = Ok l \<Longrightarrow> lower_packet_type l = ty \<and> lower_wf l"
  by (cases ty) (auto simp: parse_lower_body_def result_simps lower_wf_def dest: read_octets_length)

lemma read_safe:
  "limit \<le> length buf \<Longrightarrow> read_u32 buf pos limit \<noteq> Panic"
  "limit \<le> length buf \<Longrightarrow> read_u16 buf pos limit \<noteq> Panic"
  "limit \<le> length buf \<Longrightarrow> read_u8 buf pos limit \<noteq> Panic"
  by (auto simp: read_u32_def read_u16_def read_u8_def)

lemma read_octets_safe: "limit \<le> length buf \<Longrightarrow> read_octets n buf pos limit \<noteq> Panic"
  by (induction n arbitrary: pos) (auto simp: result_simps read_safe)

lemma parse_lower_body_safe: "limit \<le> length buf \<Longrightarrow> parse_lower_body ty buf pos limit \<noteq> Panic"
  by (cases ty) (auto simp: parse_lower_body_def result_simps read_safe read_octets_safe)

lemma gts_type_from_wire_total: "\<exists>ty. gts_type_from_wire v = Ok ty"
proof -
  have "unat (v AND 0xf) < 16" using word_and_le1[of v "0xf"] by (simp add: word_le_nat_alt)
  then show ?thesis by (simp add: gts_type_from_wire_def gts_type_all_def idx_def)
qed

interpretation handwritten: gts_lower_codec encode_lower parse_lower
proof
  fix l :: GtsLowerPacket
  show "\<exists>bs. encode_lower l = Ok bs \<and> lower_prefix_len (lower_packet_type l) = Ok (length bs) \<and>
      (\<forall>tail. 4 \<le> length tail \<longrightarrow> parse_lower (bs @ tail) = Ok l)" if "lower_wf l"
    using encode_lower_eq[OF that] lower_bytes_length[OF that] parse_lower_bytes[OF that] by auto
next
  show "drop 10 bs = to_be 2 w" if "encode_lower (LData t s q e w) = Ok bs" for t s q e w bs
    using that encode_lower_eq[of "LData t s q e w"] by (auto simp: lower_wf_def lower_bytes_def)
  show "drop 6 bs = p" if "length p = 6" "encode_lower (LDatagram t s p) = Ok bs" for t s p bs
    using that encode_lower_eq[of "LDatagram t s p"] by (auto simp: lower_wf_def lower_bytes_def concat_map_singleton)
next
  fix buf :: bytes
  have "lower_prefix_len ty \<noteq> Panic" for ty by (cases ty) simp_all
  then show "parse_lower buf \<noteq> Panic"
    using gts_type_from_wire_total[of "buf ! 0 AND 0x0f"]
    by (auto simp: parse_lower_def result_simps parse_lower_body_safe)
next
  fix buf l assume "parse_lower buf = Ok l"
  then show "lower_wf l \<and> (\<exists>n. lower_prefix_len (lower_packet_type l) = Ok n \<and> n + 4 \<le> length buf)"
    by (auto simp: parse_lower_def result_simps dest!: parse_lower_body_type split: if_splits)
qed

section \<open>Properties\<close>

text \<open>Stream profiles and their 16-bit wire form are in one-to-one correspondence: a valid profile is written and
  read back unchanged, an invalid one is refused, and any word that is accepted is the wire form of the
  profile it is read as.\<close>

theorem profile_wire_bijection:
  "(case profile_to_wire p of Ok w \<Rightarrow> profile_valid p \<and> profile_from_wire w = Ok p
      | Err e \<Rightarrow> e = ProfileViolation \<and> \<not> profile_valid p | Panic \<Rightarrow> False) \<and>
   (\<forall>w. profile_from_wire w = Ok p \<longrightarrow> profile_to_wire p = Ok w)"
proof (intro conjI allI impI)
  show "case profile_to_wire p of Ok w \<Rightarrow> profile_valid p \<and> profile_from_wire w = Ok p
      | Err e \<Rightarrow> e = ProfileViolation \<and> \<not> profile_valid p | Panic \<Rightarrow> False"
  proof (cases "profile_valid p")
    case True
    then show ?thesis by (simp only: profile_from_to_wire result.case simp_thms)
  qed (simp add: profile_to_wire_def profile_validate_eq)
next
  fix w assume r: "profile_from_wire w = Ok p"
  then have v: "profile_valid p" by (auto simp: profile_from_wire_def result_simps profile_validate_eq split: if_splits)
  obtain d c where z: "w AND 0x03f0 = 0" and d: "direction_from_bits (drop_bit 10 w AND 3) = Ok d"
    and c: "size_class_from_wire (ucast (w AND 0xf)) = Ok c"
    and p: "p = \<lparr>sp_unreliable = bit w 15, sp_variable = bit w 14, sp_sequenced = bit w 13,
         sp_unchecked_payload = bit w 12, sp_direction = d, sp_size_class = c\<rparr>"
    using r by (auto simp: profile_from_wire_def result_simps profile_validate_eq and_exp_iff split: if_splits)
  have db: "direction_bits d = take_bit 2 (drop_bit 10 w)"
    using d by (auto simp: direction_from_bits_def and_mask_take_bit split: if_splits)
  have cb: "of_nat (size_class_index c) = take_bit 4 w"
  proof -
    have "ucast (w AND 0xf) AND 0x0f = (ucast (w AND 0xf) :: u8)"
      unfolding and_mask_take_bit by (rule bit_word_eqI) (auto simp: bit_simps)
    then have "size_class_index c = unat (ucast (w AND 0xf) :: u8)" using size_class_wire_index[OF c] by simp
    then have "(of_nat (size_class_index c) :: u16) = ucast (ucast (w AND 0xf) :: u8)" by simp
    then show ?thesis unfolding and_mask_take_bit by (auto intro!: bit_word_eqI simp: bit_simps)
  qed
  have z': "\<not> bit w k" if "4 \<le> k" "k < 10" for k
  proof -
    have "\<not> bit (push_bit 4 (take_bit 6 (drop_bit 4 w))) k" using z unfolding and_3f0 by simp
    then show ?thesis using that by (simp add: bit_simps)
  qed
  have "profile_word p = w"
  proof (rule bit_word_eqI)
    fix k assume "k < LENGTH(16)"
    then consider "k < 4" | "4 \<le> k" "k < 10" | "k = 10" | "k = 11" | "k = 12" | "k = 13" | "k = 14" | "k = 15"
      by fastforce
    then show "bit (profile_word p) k = bit w k"
      by cases (simp_all add: p db cb z' bit_simps wire_simps)
  qed
  then show "profile_to_wire p = Ok w" using profile_from_to_wire(1)[OF v] by simp
qed

theorem profile_wire_bijection_witness:
  "profile_to_wire (reliable_variable Msg128 Bidirectional) = Ok 0x4c04 \<and>
   profile_from_wire 0x4c04 = Ok (reliable_variable Msg128 Bidirectional)"
proof -
  have "profile_to_wire (reliable_variable Msg128 Bidirectional) = Ok 0x4c04" by code_simp
  then show ?thesis using profile_wire_bijection[of "reliable_variable Msg128 Bidirectional"] by simp
qed

end
