(* ===== verification/Gts_Packet.thy ===== *)
theory Gts_Packet
  imports Gts_Wire
begin

text \<open>
  GTS packets over any lower codec: src/src/wire/gts.rs (\<open>GtsPacket\<close>, size selection, \<open>finish_decode\<close>, the checksum
  with its pseudo-header) and src/src/wire/gts_tx.rs (\<open>prepare_encode\<close>, \<open>finish_encode\<close>). The round trip is proved in
  the locale of lower codecs and instantiated with the handwritten one.
\<close>

section \<open>Packets\<close>

datatype GtsPacket =
    PConnect u32 u32 StreamProfile u8 ServiceSelector
  | PConnectAck u32 u32 u32 u8 u8
  | PStreamOpen u32 u8 StreamProfile u8
  | PStreamAck u32 u8 u8 u8
  | PData u32 u8 u32 bytes bool
  | PAck u32 u8 u32 u32 u8
  | PDatagram u32 u8 "u32 option" bytes
  | PStreamClose u32 u8 u32 bool
  | PTunnelClose u32 bool
  | PReset u32 u32 u8
  | PStreamReset u32 u8 u8 bool

primrec gts_packet_type :: "GtsPacket \<Rightarrow> GtsType" where
  "gts_packet_type (PConnect a b p c s) = TyConnect"
| "gts_packet_type (PConnectAck a b c s i) = TyConnectAck"
| "gts_packet_type (PStreamOpen t s p i) = TyStreamOpen"
| "gts_packet_type (PStreamAck t s st i) = TyStreamAck"
| "gts_packet_type (PData t s q d e) = (if e then TyDataEnd else TyData)"
| "gts_packet_type (PAck t s b m c) = TyAck"
| "gts_packet_type (PDatagram t s q d) = TyDatagram"
| "gts_packet_type (PStreamClose t s f a) = (if a then TyStreamCloseAck else TyStreamClose)"
| "gts_packet_type (PTunnelClose t a) = (if a then TyTunnelCloseAck else TyTunnelClose)"
| "gts_packet_type (PReset t i r) = TyReset"
| "gts_packet_type (PStreamReset t s e a) = (if a then TyStreamResetAck else TyStreamReset)"

record GtsContext =
  ctx_gdp_version :: u8
  ctx_size_class :: SizeClass
  ctx_source :: GdpAddress
  ctx_destination :: GdpAddress

section \<open>Choosing a size class\<close>

definition gts_minimum_len :: "GtsPacket \<Rightarrow> StreamProfile option \<Rightarrow> nat result" where
  "gts_minimum_len pk profile = (case pk of
      PConnect a b p c css \<Rightarrow> rbind (css_encode css) (\<lambda>e. Ok (1 + 4 + 4 + 2 + 1 + length e + 4))
    | PConnectAck _ _ _ _ _ \<Rightarrow> Ok (1 + 4 + 4 + 4 + 1 + 1 + 1 + 4)
    | PStreamOpen _ _ _ _ \<Rightarrow> Ok (1 + 4 + 1 + 2 + 1 + 1 + 4)
    | PStreamAck _ _ _ _ \<Rightarrow> Ok (1 + 4 + 1 + 1 + 1 + 1 + 4)
    | PAck _ _ _ _ _ \<Rightarrow> Ok 20
    | PStreamClose _ _ _ _ \<Rightarrow> Ok (1 + 4 + 1 + 4 + 4)
    | PTunnelClose _ _ \<Rightarrow> Ok (1 + 4 + 4)
    | PReset _ _ _ \<Rightarrow> Ok (1 + 4 + 4 + 1 + 4)
    | PStreamReset _ _ _ _ \<Rightarrow> Ok 12
    | PData _ _ _ d e \<Rightarrow> rbind (ok_or profile ProfileViolation) (\<lambda>p.
        if sp_unreliable p then Err ProfileViolation
        else Ok (10 + (if sp_variable p \<or> e then 2 else 0) + length d + 4))
    | PDatagram _ _ _ d \<Rightarrow> rbind (ok_or profile ProfileViolation) (\<lambda>p.
        if \<not> sp_unreliable p then Err ProfileViolation
        else Ok (6 + (if sp_sequenced p then 4 else 0) + (if sp_variable p then 2 else 0) + length d + 4)))"

definition choose_variable_class :: "GtsPacket \<Rightarrow> StreamProfile \<Rightarrow> SizeClass result" where
  "choose_variable_class pk p =
    rbind (gts_minimum_len pk (Some p)) (\<lambda>need.
    rbind (ok_or (smallest_for need) MessageTooLarge) (\<lambda>c.
    if size_class_index (sp_size_class p) < size_class_index c then Err MessageTooLarge else Ok c))"

definition choose_size_class :: "GtsPacket \<Rightarrow> StreamProfile option \<Rightarrow> SizeClass result" where
  "choose_size_class pk profile =
    (let other = rbind (gts_minimum_len pk profile) (\<lambda>n. ok_or (smallest_for n) MessageTooLarge) in
     case profile of None \<Rightarrow> other
     | Some p \<Rightarrow> (case pk of
         PData _ _ _ _ e \<Rightarrow>
           if \<not> sp_variable p then
             rbind (gts_minimum_len pk (Some p)) (\<lambda>m.
               if e then (if size_class_bytes (sp_size_class p) < m then Err MessageTooLarge else Ok (sp_size_class p))
               else if m \<noteq> size_class_bytes (sp_size_class p) then Err InvalidLength
               else Ok (sp_size_class p))
           else choose_variable_class pk p
       | PDatagram _ _ _ _ \<Rightarrow>
           if \<not> sp_variable p then
             rbind (gts_minimum_len pk (Some p)) (\<lambda>m.
               if m \<noteq> size_class_bytes (sp_size_class p) then Err InvalidLength else Ok (sp_size_class p))
           else choose_variable_class pk p
       | _ \<Rightarrow> other))"

section \<open>The checksum\<close>

definition compute_crc :: "GtsContext \<Rightarrow> bytes \<Rightarrow> u32 result" where
  "compute_crc ctx gts =
    rbind (crc32_update_bits crc32_new (ucast (ctx_gdp_version ctx AND 3)) 2) (\<lambda>c.
    rbind (crc32_update_bits c 0x2 4) (\<lambda>c.
    rbind (crc32_update_bits c (of_nat (size_class_index (ctx_size_class ctx))) 4) (\<lambda>c.
    rbind (crc32_update_bits c (ctx_source ctx) 64) (\<lambda>c.
    rbind (crc32_update_bits c (ctx_destination ctx) 64) (\<lambda>c.
    Ok (crc32_finalize (crc32_update_bytes c gts)))))))"

section \<open>Encoding\<close>

record GtsTxPlan =
  plan_lower :: GtsLowerPacket
  plan_tail :: bytes
  plan_crc_coverage_end :: nat

definition checked_sub :: "nat \<Rightarrow> nat \<Rightarrow> nat option" where
  "checked_sub a b = (if a < b then None else Some (a - b))"

definition u16_try_from :: "nat \<Rightarrow> u16 option" where
  "u16_try_from n = (if 65535 < n then None else Some (of_nat n))"

definition zero_tail :: "nat \<Rightarrow> GtsLowerPacket \<Rightarrow> bytes result" where
  "zero_tail sz lower =
    rbind (ok_or (checked_sub sz 4) InvalidLength) (\<lambda>crc_off.
    rbind (lower_prefix_len (lower_packet_type lower)) (\<lambda>prefix.
    if crc_off < prefix then Err InvalidLength else Ok (replicate (crc_off - prefix) 0)))"

definition plain_plan :: "nat \<Rightarrow> nat \<Rightarrow> GtsLowerPacket \<Rightarrow> (GtsLowerPacket \<times> bytes \<times> nat) result" where
  "plain_plan sz crc_off lower = rbind (zero_tail sz lower) (\<lambda>tail. Ok (lower, tail, crc_off))"

definition plan_connect :: "nat \<Rightarrow> nat \<Rightarrow> u32 \<Rightarrow> u32 \<Rightarrow> StreamProfile \<Rightarrow> u8 \<Rightarrow> ServiceSelector \<Rightarrow>
    (GtsLowerPacket \<times> bytes \<times> nat) result" where
  "plan_connect sz crc_off a b sp credit css =
    rbind (profile_validate sp) (\<lambda>sp.
    if sp_unreliable sp \<and> credit \<noteq> 0 then Err ProfileViolation
    else rbind (profile_to_wire sp) (\<lambda>w.
      let lower = LConnect a b w credit in
      rbind (zero_tail sz lower) (\<lambda>tail.
      rbind (css_encode css) (\<lambda>css.
      if length tail < length css then Err InvalidLength
      else rbind (copy_at tail 0 css) (\<lambda>tail. Ok (lower, tail, crc_off))))))"

definition plan_data :: "nat \<Rightarrow> GtsContext \<Rightarrow> StreamProfile option \<Rightarrow> u32 \<Rightarrow> u8 \<Rightarrow> u32 \<Rightarrow> bytes \<Rightarrow> bool \<Rightarrow>
    (GtsLowerPacket \<times> bytes \<times> nat) result" where
  "plan_data crc_off ctx profile t s q data e =
    rbind (ok_or profile ProfileViolation) (\<lambda>sp.
    rbind (profile_validate sp) (\<lambda>sp.
    if sp_unreliable sp \<or> (\<not> sp_variable sp \<and> ctx_size_class ctx \<noteq> sp_size_class sp) then Err ProfileViolation
    else if sp_variable sp \<and> size_class_index (sp_size_class sp) < size_class_index (ctx_size_class ctx) then Err ProfileViolation
    else if crc_off < 12 then Err InvalidLength
    else rbind (if sp_variable sp \<or> e then
        rbind (ok_or (u16_try_from (length data)) MessageTooLarge) (\<lambda>n.
        rbind (copy_at (replicate (crc_off - 10) 0) 0 (to_be 2 n)) (\<lambda>rest. Ok (rest, 2)))
      else Ok (replicate (crc_off - 10) 0, 0)) (\<lambda>(rest, pos).
    if length rest < pos + length data then Err MessageTooLarge
    else rbind (copy_at rest pos data) (\<lambda>rest.
    let pos = pos + length data in
    if \<not> sp_variable sp \<and> \<not> e \<and> pos \<noteq> length rest then Err InvalidLength
    else rbind (slice rest 0 2) (\<lambda>probe. rbind (slice rest 2 (length rest)) (\<lambda>tail.
      Ok (LData t s q e (from_be probe), tail, crc_off)))))))"

definition plan_datagram :: "nat \<Rightarrow> GtsContext \<Rightarrow> StreamProfile option \<Rightarrow> u32 \<Rightarrow> u8 \<Rightarrow> u32 option \<Rightarrow> bytes \<Rightarrow>
    (GtsLowerPacket \<times> bytes \<times> nat) result" where
  "plan_datagram crc_off ctx profile t s q data =
    rbind (ok_or profile ProfileViolation) (\<lambda>sp.
    rbind (profile_validate sp) (\<lambda>sp.
    if \<not> sp_unreliable sp \<or> (\<not> sp_variable sp \<and> ctx_size_class ctx \<noteq> sp_size_class sp) then Err ProfileViolation
    else if sp_variable sp \<and> size_class_index (sp_size_class sp) < size_class_index (ctx_size_class ctx) then Err ProfileViolation
    else if crc_off < 12 then Err InvalidLength
    else rbind (if sp_sequenced sp then
        rbind (ok_or q ProfileViolation) (\<lambda>seq.
        rbind (copy_at (replicate (crc_off - 6) 0) 0 (to_be 4 seq)) (\<lambda>rest. Ok (rest, 4)))
      else if q \<noteq> None then Err ProfileViolation
      else Ok (replicate (crc_off - 6) 0, 0)) (\<lambda>(rest, pos).
    rbind (if sp_variable sp then
        rbind (ok_or (u16_try_from (length data)) MessageTooLarge) (\<lambda>n.
        rbind (copy_at rest pos (to_be 2 n)) (\<lambda>rest. Ok (rest, pos + 2)))
      else Ok (rest, pos)) (\<lambda>(rest, pos).
    let meta_end = 6 + pos in
    if length rest < pos + length data then Err MessageTooLarge
    else rbind (copy_at rest pos data) (\<lambda>rest.
    let pos = pos + length data in
    if \<not> sp_variable sp \<and> pos \<noteq> length rest then Err InvalidLength
    else rbind (slice rest 0 6) (\<lambda>probe. rbind (slice rest 6 (length rest)) (\<lambda>tail.
      Ok (LDatagram t s probe, tail, if sp_unchecked_payload sp then meta_end else crc_off))))))))"

definition prepare_encode :: "GtsPacket \<Rightarrow> GtsContext \<Rightarrow> StreamProfile option \<Rightarrow> GtsTxPlan result" where
  "prepare_encode pk ctx profile =
    (let sz = size_class_bytes (ctx_size_class ctx) in
     rbind (ok_or (checked_sub sz 4) InvalidLength) (\<lambda>crc_off.
     rbind (case pk of
         PConnect a b sp credit css \<Rightarrow> plan_connect sz crc_off a b sp credit css
       | PConnectAck a b c s i \<Rightarrow> plain_plan sz crc_off (LConnectAck a b c s i 0)
       | PStreamOpen t s sp credit \<Rightarrow>
           rbind (profile_validate sp) (\<lambda>sp.
           if sp_unreliable sp \<and> credit \<noteq> 0 then Err ProfileViolation
           else rbind (profile_to_wire sp) (\<lambda>w. plain_plan sz crc_off (LStreamOpen t s w credit 0)))
       | PStreamAck t s st i \<Rightarrow> plain_plan sz crc_off (LStreamAck t s st i 0)
       | PData t s q d e \<Rightarrow> plan_data crc_off ctx profile t s q d e
       | PAck t s b m c \<Rightarrow> plain_plan sz crc_off (LAck t s b m c 0)
       | PDatagram t s q d \<Rightarrow> plan_datagram crc_off ctx profile t s q d
       | PStreamClose t s f a \<Rightarrow> plain_plan sz crc_off (LStreamClose t s f a)
       | PTunnelClose t a \<Rightarrow> plain_plan sz crc_off (LTunnelClose t a)
       | PReset t i r \<Rightarrow> plain_plan sz crc_off (LReset t i r)
       | PStreamReset t s e a \<Rightarrow> plain_plan sz crc_off (LStreamReset t s e 0 a))
     (\<lambda>(lower, tail, coverage).
     rbind (lower_prefix_len (lower_packet_type lower)) (\<lambda>prefix_len.
     if prefix_len + length tail \<noteq> crc_off \<or> crc_off < coverage then Err InvalidLength
     else Ok \<lparr>plan_lower = lower, plan_tail = tail, plan_crc_coverage_end = coverage\<rparr>))))"

definition finish_encode :: "(GtsLowerPacket \<Rightarrow> bytes result) \<Rightarrow> GtsTxPlan \<Rightarrow> GtsContext \<Rightarrow> bytes result" where
  "finish_encode enc plan ctx =
    (let sz = size_class_bytes (ctx_size_class ctx) in
     rbind (ok_or (checked_sub sz 4) InvalidLength) (\<lambda>crc_off.
     rbind (lower_prefix_len (lower_packet_type (plan_lower plan))) (\<lambda>prefix_len.
     rbind (enc (plan_lower plan)) (\<lambda>prefix.
     if length prefix \<noteq> prefix_len \<or> prefix_len + length (plan_tail plan) \<noteq> crc_off then Err InvalidLength
     else rbind (copy_at (replicate sz 0) 0 prefix) (\<lambda>out.
       rbind (copy_at out prefix_len (plan_tail plan)) (\<lambda>out.
       rbind (slice out 0 (plan_crc_coverage_end plan)) (\<lambda>covered.
       rbind (compute_crc ctx covered) (\<lambda>crc.
       copy_at out crc_off (to_be 4 crc)))))))))"

definition encode_with :: "(GtsLowerPacket \<Rightarrow> bytes result) \<Rightarrow> GtsPacket \<Rightarrow> GtsContext \<Rightarrow> StreamProfile option \<Rightarrow> bytes result" where
  "encode_with enc pk ctx profile = rbind (prepare_encode pk ctx profile) (\<lambda>plan. finish_encode enc plan ctx)"

definition encode_packet :: "GtsPacket \<Rightarrow> GtsContext \<Rightarrow> StreamProfile option \<Rightarrow> bytes result" where
  "encode_packet = encode_with encode_lower"

section \<open>Decoding\<close>

definition nonzero_in :: "bytes \<Rightarrow> nat \<Rightarrow> nat \<Rightarrow> bool result" where
  "nonzero_in buf a b = rbind (slice buf a b) (\<lambda>s. Ok (list_ex (\<lambda>x. x \<noteq> 0) s))"

text \<open>The part of a DATA or DATAGRAM decoder after the metadata: payload at \<open>pos\<close>, zero padding after a
  declared length.\<close>

definition decode_payload :: "bytes \<Rightarrow> nat \<Rightarrow> nat \<Rightarrow> nat option \<Rightarrow> bytes result" where
  "decode_payload buf crc_off pos valid =
    rbind (nat_sub_r crc_off pos) (\<lambda>room.
    let n = (case valid of Some n \<Rightarrow> n | None \<Rightarrow> room) in
    if crc_off < pos + n then Err InvalidLength
    else rbind (slice buf pos (pos + n)) (\<lambda>d.
    if valid \<noteq> None then
      rbind (nonzero_in buf (pos + n) crc_off) (\<lambda>bad. if bad then Err InvalidField else Ok d)
    else Ok d))"

definition profile_fits :: "StreamProfile \<Rightarrow> GtsContext \<Rightarrow> bool" where
  "profile_fits sp ctx \<longleftrightarrow> \<not> (\<not> sp_variable sp \<and> ctx_size_class ctx \<noteq> sp_size_class sp) \<and>
    \<not> (sp_variable sp \<and> size_class_index (sp_size_class sp) < size_class_index (ctx_size_class ctx))"

definition decode_data :: "bytes \<Rightarrow> GtsContext \<Rightarrow> StreamProfile option \<Rightarrow> nat \<Rightarrow> u32 \<Rightarrow> u8 \<Rightarrow> u32 \<Rightarrow> bool \<Rightarrow> u16 \<Rightarrow>
    (GtsPacket \<times> nat) result" where
  "decode_data buf ctx profile crc_off t s q e probe =
    rbind (ok_or profile ProfileViolation) (\<lambda>sp.
    rbind (profile_validate sp) (\<lambda>sp.
    if sp_unreliable sp \<or> \<not> profile_fits sp ctx then Err ProfileViolation
    else let (pos, valid) = (if e \<or> sp_variable sp then (12, Some (unat probe)) else (10, None)) in
    rbind (decode_payload buf crc_off pos valid) (\<lambda>d. Ok (PData t s q d e, pos))))"

definition decode_datagram :: "bytes \<Rightarrow> GtsContext \<Rightarrow> StreamProfile option \<Rightarrow> nat \<Rightarrow> u32 \<Rightarrow> u8 \<Rightarrow> bytes \<Rightarrow>
    (GtsPacket \<times> nat) result" where
  "decode_datagram buf ctx profile crc_off t s probe =
    rbind (ok_or profile ProfileViolation) (\<lambda>sp.
    rbind (profile_validate sp) (\<lambda>sp.
    if \<not> sp_unreliable sp \<or> \<not> profile_fits sp ctx then Err ProfileViolation
    else rbind (if sp_sequenced sp then rbind (slice probe 0 4) (\<lambda>b. Ok (Some (from_be b), 4)) else Ok (None, 0)) (\<lambda>(q, op).
    rbind (if sp_variable sp then
        rbind (slice probe op (op + 2)) (\<lambda>b. Ok (Some (unat (from_be b :: u16)), op + 2))
      else Ok (None, op)) (\<lambda>(valid, op).
    let pos = 6 + op in
    rbind (decode_payload buf crc_off pos valid) (\<lambda>d. Ok (PDatagram t s q d, pos))))))"

definition decode_connect :: "bytes \<Rightarrow> nat \<Rightarrow> u32 \<Rightarrow> u32 \<Rightarrow> u16 \<Rightarrow> u8 \<Rightarrow> GtsPacket result" where
  "decode_connect buf crc_off a b w credit =
    rbind (profile_from_wire w) (\<lambda>sp.
    if sp_unreliable sp \<and> credit \<noteq> 0 then Err ProfileViolation
    else rbind (slice buf 12 crc_off) (\<lambda>rest.
      rbind (css_decode rest) (\<lambda>(css, n).
      rbind (nonzero_in buf (12 + n) crc_off) (\<lambda>bad.
      if bad then Err InvalidField else Ok (PConnect a b sp credit css)))))"

definition decode_body :: "bytes \<Rightarrow> GtsContext \<Rightarrow> StreamProfile option \<Rightarrow> nat \<Rightarrow> GtsLowerPacket \<Rightarrow> (GtsPacket \<times> nat) result" where
  "decode_body buf ctx profile crc_off lower =
    (let plain = (\<lambda>pk. Ok (pk, crc_off));
         reserved = (\<lambda>r pk. if r \<noteq> (0 :: u8) then Err InvalidField else Ok (pk, crc_off))
     in case lower of
      LConnect a b w credit \<Rightarrow> rbind (decode_connect buf crc_off a b w credit) plain
    | LConnectAck a b c s i r \<Rightarrow> reserved r (PConnectAck a b c s i)
    | LStreamOpen t s w credit r \<Rightarrow>
        rbind (profile_from_wire w) (\<lambda>sp.
        if r \<noteq> 0 \<or> (sp_unreliable sp \<and> credit \<noteq> 0) then Err ProfileViolation
        else plain (PStreamOpen t s sp credit))
    | LStreamAck t s st i r \<Rightarrow> reserved r (PStreamAck t s st i)
    | LData t s q e probe \<Rightarrow> decode_data buf ctx profile crc_off t s q e probe
    | LAck t s b m c r \<Rightarrow> reserved r (PAck t s b m c)
    | LDatagram t s probe \<Rightarrow> decode_datagram buf ctx profile crc_off t s probe
    | LStreamClose t s f a \<Rightarrow> plain (PStreamClose t s f a)
    | LTunnelClose t a \<Rightarrow> plain (PTunnelClose t a)
    | LReset t i r \<Rightarrow> plain (PReset t i r)
    | LStreamReset t s e r a \<Rightarrow> reserved r (PStreamReset t s e a))"

definition finish_decode :: "bytes \<Rightarrow> GtsContext \<Rightarrow> StreamProfile option \<Rightarrow> GtsLowerPacket \<Rightarrow> GtsPacket result" where
  "finish_decode buf ctx profile lower =
    rbind (nat_sub_r (length buf) 4) (\<lambda>crc_off.
    rbind (decode_body buf ctx profile crc_off lower) (\<lambda>(packet, meta_end).
    let unchecked = (case profile of Some sp \<Rightarrow> sp_unreliable sp \<and> sp_unchecked_payload sp | None \<Rightarrow> False)
          \<and> lower_packet_type lower = TyDatagram in
    rbind (slice buf crc_off (length buf)) (\<lambda>g.
    rbind (slice buf 0 (if unchecked then meta_end else crc_off)) (\<lambda>covered.
    rbind (compute_crc ctx covered) (\<lambda>want.
    if from_be g \<noteq> want then Err InvalidCrc else Ok packet)))))"

definition decode_with :: "(bytes \<Rightarrow> GtsLowerPacket result) \<Rightarrow> bytes \<Rightarrow> GtsContext \<Rightarrow> StreamProfile option \<Rightarrow> GtsPacket result" where
  "decode_with dec buf ctx profile =
    (if length buf \<noteq> size_class_bytes (ctx_size_class ctx) \<or> length buf < 5 then Err InvalidLength
     else rbind (dec buf) (finish_decode buf ctx profile))"

definition decode_packet :: "bytes \<Rightarrow> GtsContext \<Rightarrow> StreamProfile option \<Rightarrow> GtsPacket result" where
  "decode_packet = decode_with parse_lower"

section \<open>Encoding then decoding\<close>

lemma crc32_update_bits_Ok: "bits \<le> 64 \<Longrightarrow> \<exists>c'. crc32_update_bits c v bits = Ok c'"
  by (simp add: crc32_update_bits_def)

lemma compute_crc_Ok: "\<exists>v. compute_crc ctx bs = Ok v"
  unfolding compute_crc_def crc32_update_bits_def by simp

lemma unat_u16_try_from: "u16_try_from n = Some w \<Longrightarrow> unat w = n"
  by (auto simp: u16_try_from_def unsigned_of_nat take_bit_nat_eq_self_iff split: if_splits)

lemma nonzero_in_zeros:
  assumes "length pre = a" "a + n = b"
  shows "nonzero_in (pre @ replicate n 0 @ post) a b = Ok False"
  using assms by (simp add: nonzero_in_def list_ex_iff)

lemma decode_payload_Some:
  assumes "length pre = pos" "pos + length d + k = crc_off"
  shows "decode_payload (pre @ d @ replicate k 0 @ post) crc_off pos (Some (length d)) = Ok d"
  using assms nonzero_in_zeros[of "pre @ d" "pos + length d" k crc_off post]
  by (simp add: decode_payload_def nat_sub_r_def)

lemma decode_payload_None:
  assumes "length pre = pos" "pos + length d = crc_off"
  shows "decode_payload (pre @ d @ post) crc_off pos None = Ok d"
  using assms by (auto simp: decode_payload_def nat_sub_r_def)

lemma zero_tail_OkD:
  assumes "zero_tail sz lower = Ok tla"
  shows "\<exists>n. lower_prefix_len (lower_packet_type lower) = Ok n \<and> n + 4 \<le> sz \<and> tla = replicate (sz - 4 - n) 0"
proof (cases "lower_prefix_len (lower_packet_type lower)")
  case (Ok n)
  then show ?thesis using assms by (simp add: zero_tail_def checked_sub_def split: if_splits)
qed (use assms in \<open>auto simp: zero_tail_def checked_sub_def split: if_splits\<close>)

lemma plan_data_decodes:
  assumes "plan_data crc_off ctx profile t s q data e = Ok (lower, tla, cov)"
  shows "\<exists>w pos. lower = LData t s q e w \<and> cov = crc_off \<and> 12 + length tla = crc_off \<and>
    (\<forall>pre post. length pre = 10 \<longrightarrow>
      decode_data (pre @ to_be 2 w @ tla @ post) ctx profile crc_off t s q e w = Ok (PData t s q data e, pos))"
proof -
  from assms obtain sp where sp: "profile = Some sp" "profile_validate sp = Ok sp" "\<not> sp_unreliable sp" "profile_fits sp ctx"
    and off: "12 \<le> crc_off"
    by (auto simp: plan_data_def result_simps profile_validate_eq profile_fits_def split: if_splits)
  show ?thesis
  proof (cases "sp_variable sp \<or> e")
    case True
    then obtain n where n: "u16_try_from (length data) = Some n" and fit: "2 + length data \<le> crc_off - 10"
      using assms sp off by (auto simp: plan_data_def result_simps profile_validate_eq split: if_splits)
    let ?z = "replicate (crc_off - 12 - length data) 0 :: bytes"
    have "plan_data crc_off ctx profile t s q data e = Ok (LData t s q e n, data @ ?z, crc_off)"
      using sp True n fit off by (auto simp: plan_data_def Let_def profile_fits_def diff_diff_eq add.commute)
    then have l: "lower = LData t s q e n" "tla = data @ ?z" "cov = crc_off" using assms by auto
    have "decode_data (pre @ to_be 2 n @ tla @ post) ctx profile crc_off t s q e n = Ok (PData t s q data e, 12)"
      if "length pre = 10" for pre post
      using decode_payload_Some[of "pre @ to_be 2 n" 12 data "crc_off - 12 - length data" crc_off post]
        sp True fit that unat_u16_try_from[OF n] l by (auto simp: decode_data_def)
    then show ?thesis using l fit by (intro exI[of _ n] exI[of _ 12]) auto
  next
    case False
    then have len: "length data = crc_off - 10"
      using assms sp off by (auto simp: plan_data_def result_simps profile_validate_eq Let_def split: if_splits)
    let ?w = "from_be (take 2 data) :: u16"
    have w: "to_be 2 ?w = take 2 data" using len off by simp
    have "plan_data crc_off ctx profile t s q data e = Ok (LData t s q e ?w, drop 2 data, crc_off)"
      using sp False len off by (auto simp: plan_data_def Let_def profile_fits_def)
    then have l: "lower = LData t s q e ?w" "tla = drop 2 data" "cov = crc_off" using assms by auto
    have "decode_data (pre @ to_be 2 ?w @ tla @ post) ctx profile crc_off t s q e ?w = Ok (PData t s q data e, 10)"
      if "length pre = 10" for pre post
    proof -
      have "to_be 2 ?w @ tla = data" unfolding l w by simp
      then have eq: "pre @ to_be 2 ?w @ tla @ post = pre @ data @ post" by (metis append.assoc)
      show ?thesis unfolding eq using decode_payload_None[of pre 10 data crc_off post] sp False len off that
        by (simp add: decode_data_def)
    qed
    then show ?thesis using l len off by (intro exI[of _ ?w] exI[of _ 10]) auto
  qed
qed

text \<open>The metadata octets of a DATAGRAM: optional sequence, optional length.\<close>

definition datagram_meta :: "StreamProfile \<Rightarrow> u32 option \<Rightarrow> nat \<Rightarrow> bytes" where
  "datagram_meta sp q n = (if sp_sequenced sp then to_be 4 (the q) else []) @ (if sp_variable sp then to_be 2 (of_nat n :: u16) else [])"

lemma length_datagram_meta:
  "length (datagram_meta sp q n) = (if sp_sequenced sp then 4 else 0) + (if sp_variable sp then 2 else 0)"
  by (simp add: datagram_meta_def)

lemma plan_datagram_form:
  assumes "plan_datagram crc_off ctx profile t s q data = Ok (lower, tla, cov)"
  shows "\<exists>sp k. profile = Some sp \<and> profile_validate sp = Ok sp \<and> sp_unreliable sp \<and> profile_fits sp ctx \<and> 12 \<le> crc_off \<and>
    (sp_sequenced sp \<longleftrightarrow> q \<noteq> None) \<and> (sp_variable sp \<longrightarrow> length data \<le> 65535) \<and> (\<not> sp_variable sp \<longrightarrow> k = 0) \<and>
    6 + length (datagram_meta sp q (length data)) + length data + k = crc_off \<and>
    (let rest = datagram_meta sp q (length data) @ data @ replicate k 0 in
      lower = LDatagram t s (take 6 rest) \<and> tla = drop 6 rest \<and>
      cov = (if sp_unchecked_payload sp then 6 + length (datagram_meta sp q (length data)) else crc_off))"
proof -
  from assms obtain sp where sp: "profile = Some sp" "profile_validate sp = Ok sp" "sp_unreliable sp" "profile_fits sp ctx"
    and off: "12 \<le> crc_off"
    by (auto simp: plan_datagram_def result_simps profile_validate_eq profile_fits_def split: if_splits)
  let ?m = "datagram_meta sp q (length data)" and ?k = "crc_off - 6 - length (datagram_meta sp q (length data)) - length data"
  have seq: "sp_sequenced sp \<longleftrightarrow> q \<noteq> None"
    using assms sp off by (cases q) (auto simp: plan_datagram_def result_simps split: if_splits)
  have var: "sp_variable sp \<longrightarrow> length data \<le> 65535"
    using assms sp off by (auto simp: plan_datagram_def result_simps u16_try_from_def split: if_splits)
  have fit: "6 + length ?m + length data \<le> crc_off" "\<not> sp_variable sp \<longrightarrow> 6 + length ?m + length data = crc_off"
    using assms sp off seq var
    by (cases "sp_sequenced sp"; cases "sp_variable sp";
        auto simp: plan_datagram_def datagram_meta_def result_simps u16_try_from_def Let_def split: if_splits)+
  have "plan_datagram crc_off ctx profile t s q data =
      Ok (LDatagram t s (take 6 (?m @ data @ replicate ?k 0)), drop 6 (?m @ data @ replicate ?k 0),
        if sp_unchecked_payload sp then 6 + length ?m else crc_off)"
    using sp off seq var fit
    by (cases "sp_sequenced sp"; cases "sp_variable sp")
       (auto simp: plan_datagram_def datagram_meta_def u16_try_from_def profile_fits_def Let_def diff_diff_eq add.commute)
  then show ?thesis using assms sp off seq var fit by (intro exI[of _ sp] exI[of _ ?k]) auto
qed

lemma datagram_probe:
  assumes "6 \<le> length (datagram_meta sp q n @ z)"
  shows "sp_sequenced sp \<Longrightarrow> take 4 (take 6 (datagram_meta sp q n @ z)) = to_be 4 (the q)"
    and "sp_sequenced sp \<Longrightarrow> sp_variable sp \<Longrightarrow> take 2 (drop 4 (take 6 (datagram_meta sp q n @ z))) = to_be 2 (of_nat n :: u16)"
    and "\<not> sp_sequenced sp \<Longrightarrow> sp_variable sp \<Longrightarrow> take 2 (take 6 (datagram_meta sp q n @ z)) = to_be 2 (of_nat n :: u16)"
  using assms by (auto simp: datagram_meta_def take_drop)

lemma plan_datagram_decodes:
  assumes "plan_datagram crc_off ctx profile t s q data = Ok (lower, tla, cov)"
  shows "\<exists>sp probe pos. profile = Some sp \<and> sp_unreliable sp \<and> lower = LDatagram t s probe \<and> length probe = 6 \<and>
    12 + length tla = crc_off \<and> pos \<le> crc_off \<and> cov = (if sp_unchecked_payload sp then pos else crc_off) \<and>
    (\<forall>pre post. length pre = 6 \<longrightarrow>
      decode_datagram (pre @ probe @ tla @ post) ctx profile crc_off t s probe = Ok (PDatagram t s q data, pos))"
proof -
  from plan_datagram_form[OF assms] obtain sp k where
    sp: "profile = Some sp" "profile_validate sp = Ok sp" "sp_unreliable sp" "profile_fits sp ctx" "12 \<le> crc_off"
      "sp_sequenced sp \<longleftrightarrow> q \<noteq> None" "sp_variable sp \<longrightarrow> length data \<le> 65535" "\<not> sp_variable sp \<longrightarrow> k = 0"
    and len: "6 + length (datagram_meta sp q (length data)) + length data + k = crc_off"
    and rest: "let rest = datagram_meta sp q (length data) @ data @ replicate k 0 in
      lower = LDatagram t s (take 6 rest) \<and> tla = drop 6 rest \<and>
      cov = (if sp_unchecked_payload sp then 6 + length (datagram_meta sp q (length data)) else crc_off)" by blast
  let ?m = "datagram_meta sp q (length data)" and ?z = "data @ replicate k 0"
  let ?probe = "take 6 (?m @ ?z)" and ?pos = "6 + length (datagram_meta sp q (length data))"
  have l: "lower = LDatagram t s ?probe" "tla = drop 6 (?m @ ?z)" "cov = (if sp_unchecked_payload sp then ?pos else crc_off)"
    using rest by (simp_all add: Let_def)
  have six: "6 \<le> length (?m @ ?z)" using len sp(5) by simp
  have pl: "length ?probe = 6" using six by simp
  note pr = datagram_probe[OF six]
  have p3: "from_be (take (Suc (Suc 0)) ?probe) = (of_nat (length data) :: u16)" if "\<not> sp_sequenced sp" "sp_variable sp"
    unfolding numeral_2_eq_2[symmetric] pr(3)[OF that] by simp
  have n: "sp_variable sp \<Longrightarrow> unat (of_nat (length data) :: u16) = length data"
    using sp(7) by (simp add: unsigned_of_nat take_bit_nat_eq_self_iff)
  have "decode_datagram (pre @ ?probe @ tla @ post) ctx profile crc_off t s ?probe = Ok (PDatagram t s q data, ?pos)"
    if pre: "length pre = 6" for pre post
  proof -
    have buf: "pre @ ?probe @ tla @ post = (pre @ ?m) @ data @ replicate k 0 @ post"
      unfolding l(2) by (metis append.assoc append_take_drop_id)
    have pm: "length (pre @ ?m) = ?pos" using pre by simp
    have vs: "sp_variable sp \<Longrightarrow> decode_payload ((pre @ ?m) @ data @ replicate k 0 @ post) crc_off ?pos (Some (length data)) = Ok data"
      using len by (intro decode_payload_Some[OF pm]) simp
    have vn: "\<not> sp_variable sp \<Longrightarrow> decode_payload ((pre @ ?m) @ data @ replicate k 0 @ post) crc_off ?pos None = Ok data"
      using len sp(8) decode_payload_None[OF pm, of data crc_off "replicate k 0 @ post"] by simp
    show ?thesis
      unfolding buf decode_datagram_def
      using sp(1-4,6) pr(1,2) p3 n vs vn pl length_datagram_meta[of sp q "length data"]
      by (cases "sp_sequenced sp"; cases "sp_variable sp") (auto simp del: append_assoc take_append take_take)
  qed
  then show ?thesis using l sp(1,3) pl len six
    by (intro exI[of _ sp] exI[of _ ?probe] exI[of _ ?pos]) (auto simp del: take_append append_assoc)
qed

lemma plan_connect_decodes:
  assumes "plan_connect sz crc_off a b sp credit css = Ok (lower, tla, cov)" "selector_array css" "sz = crc_off + 4"
  shows "\<exists>w. lower = LConnect a b w credit \<and> cov = crc_off \<and> 12 + length tla = crc_off \<and>
    (\<forall>pre post. length pre = 12 \<longrightarrow> decode_connect (pre @ tla @ post) crc_off a b w credit = Ok (PConnect a b sp credit css))"
proof -
  from assms(1) obtain z e where v: "profile_valid sp" "\<not> (sp_unreliable sp \<and> credit \<noteq> 0)"
    and z: "zero_tail sz (LConnect a b (profile_word sp) credit) = Ok z" and e: "css_encode css = Ok e" "length e \<le> length z"
    and l: "lower = LConnect a b (profile_word sp) credit" "cov = crc_off"
    and t: "copy_at z 0 e = Ok tla"
    by (auto simp: plan_connect_def result_simps profile_validate_eq profile_from_to_wire Let_def split: if_splits)
  have zz: "z = replicate (crc_off - 12) 0" "12 \<le> crc_off" using zero_tail_OkD[OF z] assms(3) by auto
  let ?k = "crc_off - 12 - length e"
  have tla: "tla = e @ replicate ?k 0" using t e(2) zz by simp
  have nz: "selector_bytes css \<noteq> replicate 16 0"
  proof
    assume "selector_bytes css = replicate 16 0"
    then have "css_encode css = Err InvalidField" by (simp add: css_encode_def css_encoded_len_def canonical_wire_def)
    then show False using e by simp
  qed
  obtain w where w: "canonical_wire css = Ok w" "e = css_wire_bytes w" "length e = css_need w"
    using css_encode_eq[OF assms(2) nz] e(1) by auto
  have dec: "css_decode (e @ replicate ?k 0) = Ok (css, length e)"
    using css_decode_wire[OF assms(2) w(1)] w(2,3) by simp
  have "decode_connect (pre @ tla @ post) crc_off a b (profile_word sp) credit = Ok (PConnect a b sp credit css)"
    if pre: "length pre = 12" for pre post
  proof -
    have sl: "slice (pre @ tla @ post) 12 crc_off = Ok (e @ replicate ?k 0)"
      using pre zz e(2) by (simp add: tla)
    have nz: "nonzero_in (pre @ tla @ post) (12 + length e) crc_off = Ok False"
      using nonzero_in_zeros[of "pre @ e" "12 + length e" ?k crc_off post] pre zz e(2) by (simp add: tla)
    show ?thesis
      unfolding decode_connect_def profile_from_to_wire(2)[OF v(1)] rbind.simps sl dec using v(2) nz by simp
  qed
  then show ?thesis using l zz e(2) by (intro exI[of _ "profile_word sp"]) (auto simp: tla)
qed

text \<open>The only constraint the types do not carry: a selector has sixteen bytes.\<close>

definition gts_packet_wf :: "GtsPacket \<Rightarrow> bool" where
  "gts_packet_wf pk = (case pk of PConnect a b sp c css \<Rightarrow> selector_array css | _ \<Rightarrow> True)"

definition crc_unchecked :: "StreamProfile option \<Rightarrow> GtsLowerPacket \<Rightarrow> bool" where
  "crc_unchecked profile lower \<longleftrightarrow>
    (case profile of Some sp \<Rightarrow> sp_unreliable sp \<and> sp_unchecked_payload sp | None \<Rightarrow> False) \<and> lower_packet_type lower = TyDatagram"

lemma plain_plan_Ok:
  "plain_plan sz crc_off l = Ok (lower, tla, cov) \<Longrightarrow> lower = l \<and> cov = crc_off"
  by (auto simp: plain_plan_def result_simps)

context gts_lower_codec
begin

lemma body_decodes:
  assumes plan: "prepare_encode pk ctx profile = Ok plan" and wf: "gts_packet_wf pk"
    and crc: "crc_off + 4 = size_class_bytes (ctx_size_class ctx)"
    and bs: "enc (plan_lower plan) = Ok bs"
  shows "\<exists>m. decode_body (bs @ plan_tail plan @ post) ctx profile crc_off (plan_lower plan) = Ok (pk, m) \<and>
    plan_crc_coverage_end plan = (if crc_unchecked profile (plan_lower plan) then m else crc_off)"
proof (cases pk)
  case (PConnect a b sp credit css)
  then have p: "plan_connect (crc_off + 4) crc_off a b sp credit css = Ok (plan_lower plan, plan_tail plan, plan_crc_coverage_end plan)"
    using plan by (auto simp: prepare_encode_def checked_sub_def result_simps Let_def crc[symmetric] split: if_splits)
  from plan_connect_decodes[OF this] PConnect wf obtain w where w: "plan_lower plan = LConnect a b w credit"
    "plan_crc_coverage_end plan = crc_off" "\<And>pre post. length pre = 12 \<Longrightarrow> decode_connect (pre @ plan_tail plan @ post) crc_off a b w credit = Ok pk"
    by (auto simp: gts_packet_wf_def)
  have "length bs = 12" using enc_dec[of "plan_lower plan"] bs w(1) by (auto simp: lower_wf_def)
  then show ?thesis using w by (auto simp: decode_body_def crc_unchecked_def)
next
  case (PData t s q d e)
  then have p: "plan_data crc_off ctx profile t s q d e = Ok (plan_lower plan, plan_tail plan, plan_crc_coverage_end plan)"
    using plan by (auto simp: prepare_encode_def checked_sub_def result_simps Let_def crc[symmetric] split: if_splits)
  from plan_data_decodes[OF this] PData obtain w pos where w: "plan_lower plan = LData t s q e w"
    "plan_crc_coverage_end plan = crc_off"
    "\<And>pre post. length pre = 10 \<Longrightarrow> decode_data (pre @ to_be 2 w @ plan_tail plan @ post) ctx profile crc_off t s q e w = Ok (pk, pos)"
    by auto
  have "length bs = 12" using enc_dec[of "plan_lower plan"] bs w(1) by (auto simp: lower_wf_def split: if_splits)
  moreover have "bs = take 10 bs @ to_be 2 w" using enc_data[of t s q e w bs] bs w(1) by (metis append_take_drop_id)
  ultimately have l: "length (take 10 bs) = 10" and eq: "bs @ plan_tail plan @ post = take 10 bs @ to_be 2 w @ plan_tail plan @ post"
    by (simp, metis append.assoc)
  have "decode_data (bs @ plan_tail plan @ post) ctx profile crc_off t s q e w = Ok (pk, pos)"
    unfolding eq by (rule w(3)[OF l])
  then show ?thesis using w by (auto simp: decode_body_def crc_unchecked_def)
next
  case (PDatagram t s q d)
  then have p: "plan_datagram crc_off ctx profile t s q d = Ok (plan_lower plan, plan_tail plan, plan_crc_coverage_end plan)"
    using plan by (auto simp: prepare_encode_def checked_sub_def result_simps Let_def crc[symmetric] split: if_splits)
  from plan_datagram_decodes[OF this] PDatagram obtain sp probe pos where w: "profile = Some sp" "sp_unreliable sp"
    "plan_lower plan = LDatagram t s probe" "length probe = 6" "plan_crc_coverage_end plan = (if sp_unchecked_payload sp then pos else crc_off)"
    "\<And>pre post. length pre = 6 \<Longrightarrow> decode_datagram (pre @ probe @ plan_tail plan @ post) ctx profile crc_off t s probe = Ok (pk, pos)"
    by auto
  have "length bs = 12" using enc_dec[of "plan_lower plan"] bs w(3,4) by (auto simp: lower_wf_def)
  moreover have "bs = take 6 bs @ probe" using enc_datagram[OF w(4), of t s bs] bs w(3) by (metis append_take_drop_id)
  ultimately have l: "length (take 6 bs) = 6" and eq: "bs @ plan_tail plan @ post = take 6 bs @ probe @ plan_tail plan @ post"
    by (simp, metis append.assoc)
  have "decode_datagram (bs @ plan_tail plan @ post) ctx profile crc_off t s probe = Ok (pk, pos)"
    unfolding eq by (rule w(6)[OF l])
  then show ?thesis using w by (auto simp: decode_body_def crc_unchecked_def)
next
  case (PStreamOpen t s sp credit)
  then have v: "profile_valid sp" "\<not> (sp_unreliable sp \<and> credit \<noteq> 0)"
    using plan by (auto simp: prepare_encode_def checked_sub_def result_simps Let_def profile_validate_eq split: if_splits)
  obtain w where w: "profile_to_wire sp = Ok w" "profile_from_wire w = Ok sp" using profile_from_to_wire[OF v(1)] by blast
  have "plan_lower plan = LStreamOpen t s w credit 0" "plan_crc_coverage_end plan = crc_off"
    using plan PStreamOpen v w(1)
    by (auto simp: prepare_encode_def checked_sub_def result_simps Let_def crc[symmetric] profile_validate_eq
        dest!: plain_plan_Ok split: if_splits)
  then show ?thesis using v w PStreamOpen by (simp add: decode_body_def crc_unchecked_def)
qed (use plan in \<open>auto simp: prepare_encode_def checked_sub_def result_simps Let_def crc[symmetric] decode_body_def crc_unchecked_def
      dest!: plain_plan_Ok split: if_splits\<close>)

lemma plan_shape:
  assumes "prepare_encode pk ctx profile = Ok plan"
  shows "\<exists>n crc_off. crc_off + 4 = size_class_bytes (ctx_size_class ctx) \<and> lower_prefix_len (lower_packet_type (plan_lower plan)) = Ok n \<and>
    n + length (plan_tail plan) = crc_off \<and> plan_crc_coverage_end plan \<le> crc_off"
  using assms by (auto simp: prepare_encode_def checked_sub_def result_simps Let_def split: if_splits)

lemma plan_lower_wf:
  assumes "prepare_encode pk ctx profile = Ok plan"
  shows "lower_wf (plan_lower plan)"
proof (cases pk)
  case (PDatagram t s q d)
  then obtain crc_off where "plan_datagram crc_off ctx profile t s q d = Ok (plan_lower plan, plan_tail plan, plan_crc_coverage_end plan)"
    using assms by (auto simp: prepare_encode_def checked_sub_def result_simps Let_def split: if_splits)
  then show ?thesis using plan_datagram_decodes by (fastforce simp: lower_wf_def)
qed (use assms in \<open>auto simp: prepare_encode_def checked_sub_def result_simps Let_def lower_wf_def plan_connect_def plan_data_def
      dest!: plain_plan_Ok split: if_splits\<close>)

lemma finish_encode_shape:
  assumes "finish_encode enc plan ctx = Ok out" "crc_off + 4 = size_class_bytes (ctx_size_class ctx)"
    "plan_crc_coverage_end plan \<le> crc_off"
  shows "\<exists>bs crc. enc (plan_lower plan) = Ok bs \<and> length bs + length (plan_tail plan) = crc_off \<and>
    compute_crc ctx (take (plan_crc_coverage_end plan) (bs @ plan_tail plan)) = Ok crc \<and> out = bs @ plan_tail plan @ to_be 4 crc"
proof -
  from assms(1) obtain bs where bs: "enc (plan_lower plan) = Ok bs" "length bs + length (plan_tail plan) = crc_off"
    by (auto simp: finish_encode_def checked_sub_def result_simps Let_def assms(2)[symmetric] split: if_splits)
  let ?o = "bs @ plan_tail plan @ replicate 4 0"
  have o: "copy_at (replicate (crc_off + 4) 0) 0 bs = Ok (bs @ replicate (length (plan_tail plan) + 4) 0)"
    "copy_at (bs @ replicate (length (plan_tail plan) + 4) 0) (length bs) (plan_tail plan) = Ok ?o"
    using bs(2) by auto
  obtain crc where crc: "compute_crc ctx (take (plan_crc_coverage_end plan) (bs @ plan_tail plan)) = Ok crc"
    using compute_crc_Ok by blast
  have sl: "slice ?o 0 (plan_crc_coverage_end plan) = Ok (take (plan_crc_coverage_end plan) (bs @ plan_tail plan))"
    using bs(2) assms(3) by auto
  have last: "copy_at ?o crc_off (to_be 4 crc) = Ok (bs @ plan_tail plan @ to_be 4 crc)"
    using bs(2) by auto
  have "out = bs @ plan_tail plan @ to_be 4 crc"
    using assms(1) bs o sl crc last
    by (auto simp: finish_encode_def checked_sub_def result_simps Let_def assms(2)[symmetric] split: if_splits)
  then show ?thesis using bs crc by blast
qed

lemma encode_decode:
  assumes e: "encode_with enc pk ctx profile = Ok out" and wf: "gts_packet_wf pk"
  shows "length out = size_class_bytes (ctx_size_class ctx) \<and> decode_with dec out ctx profile = Ok pk"
proof -
  from e obtain plan where plan: "prepare_encode pk ctx profile = Ok plan" "finish_encode enc plan ctx = Ok out"
    by (auto simp: encode_with_def result_simps)
  from plan_shape[OF plan(1)] obtain n crc_off where
    crc: "crc_off + 4 = size_class_bytes (ctx_size_class ctx)"
    and n: "lower_prefix_len (lower_packet_type (plan_lower plan)) = Ok n" "n + length (plan_tail plan) = crc_off"
    and cov: "plan_crc_coverage_end plan \<le> crc_off" by blast
  from finish_encode_shape[OF plan(2) crc cov] obtain bs c where
    bs: "enc (plan_lower plan) = Ok bs" "length bs + length (plan_tail plan) = crc_off"
    and c: "compute_crc ctx (take (plan_crc_coverage_end plan) (bs @ plan_tail plan)) = Ok c"
    and out: "out = bs @ plan_tail plan @ to_be 4 c" by blast
  have len: "length out = crc_off + 4" using out bs(2) by simp
  have d: "dec out = Ok (plan_lower plan)"
    using enc_dec[OF plan_lower_wf[OF plan(1)]] bs(1) out by auto
  have "length bs = n" using enc_dec[OF plan_lower_wf[OF plan(1)]] bs(1) n(1) by auto
  moreover have "1 \<le> n" using n(1) by (cases "lower_packet_type (plan_lower plan)") auto
  ultimately have five: "5 \<le> length out" using out by simp
  from body_decodes[OF plan(1) wf crc bs(1), of "to_be 4 c"] obtain m where
    m: "decode_body out ctx profile crc_off (plan_lower plan) = Ok (pk, m)"
    "plan_crc_coverage_end plan = (if crc_unchecked profile (plan_lower plan) then m else crc_off)"
    using out by auto
  have g: "slice out crc_off (length out) = Ok (to_be 4 c)" using out bs(2) by auto
  have s: "slice out 0 (plan_crc_coverage_end plan) = Ok (take (plan_crc_coverage_end plan) (bs @ plan_tail plan))"
    using out bs(2) cov by auto
  have sub: "nat_sub_r (length out) 4 = Ok crc_off" using len by (simp add: nat_sub_r_def)
  have "finish_decode out ctx profile (plan_lower plan) = Ok pk"
    unfolding finish_decode_def sub rbind.simps m(1) Let_def prod.case g crc_unchecked_def[symmetric] m(2)[symmetric] s c
    by simp
  then show ?thesis using len crc d five by (simp add: decode_with_def)
qed

end

section \<open>Decoding any bytes\<close>

lemma decode_payload_safe:
  assumes "crc_off \<le> length buf" "pos \<le> crc_off"
  shows "decode_payload buf crc_off pos valid \<noteq> Panic"
  using assms by (auto simp: decode_payload_def nat_sub_r_def nonzero_in_def result_simps split: option.splits)

lemma decode_payload_length:
  "decode_payload buf crc_off pos valid = Ok d \<Longrightarrow> crc_off \<le> length buf \<Longrightarrow> pos + length d \<le> crc_off"
  by (auto simp: decode_payload_def nat_sub_r_def nonzero_in_def result_simps split: option.splits if_splits)

lemma profile_from_wire_safe: "profile_from_wire w \<noteq> Panic"
proof -
  have "size_class_from_wire v \<noteq> Panic" for v using size_class_from_wire_total[of v] by auto
  then show ?thesis
    by (auto simp: profile_from_wire_def result_simps direction_from_bits_def profile_validate_def split: if_splits)
qed

lemma decode_connect_safe:
  assumes "12 \<le> crc_off" "crc_off \<le> length buf"
  shows "decode_connect buf crc_off a b w credit \<noteq> Panic"
proof -
  have "nonzero_in buf (12 + n) crc_off \<noteq> Panic" if "css_decode (take (crc_off - 12) (drop 12 buf)) = Ok (c, n)" for c n
  proof -
    have "n \<le> crc_off - 12" using css_decode_canonical_form(2)[OF that] by simp
    then show ?thesis using assms by (simp add: nonzero_in_def)
  qed
  then show ?thesis using assms css_decode_no_panic profile_from_wire_safe
    by (auto simp: decode_connect_def result_simps)
qed

lemma decode_body_safe:
  assumes wf: "lower_wf lower" and len: "lower_prefix_len (lower_packet_type lower) = Ok n" "n \<le> crc_off" "crc_off \<le> length buf"
  shows "decode_body buf ctx profile crc_off lower \<noteq> Panic \<and>
    (\<forall>pk m. decode_body buf ctx profile crc_off lower = Ok (pk, m) \<longrightarrow> m \<le> crc_off)"
proof (cases lower)
  case (LConnect a b w c)
  then show ?thesis using decode_connect_safe[of crc_off buf a b w c] len by (auto simp: decode_body_def result_simps)
next
  case (LData t s q e w)
  then have "12 \<le> crc_off" using len by (auto split: if_splits)
  then show ?thesis using LData len(3)
    by (auto simp: decode_body_def decode_data_def result_simps profile_validate_def decode_payload_safe ok_or_eq
        dest: decode_payload_length split: if_splits)
next
  case (LDatagram t s p)
  then have "12 \<le> crc_off" "length p = 6" using len wf by (auto simp: lower_wf_def)
  then show ?thesis using LDatagram len(3)
    by (auto simp: decode_body_def decode_datagram_def result_simps profile_validate_def decode_payload_safe ok_or_eq
        dest: decode_payload_length split: if_splits)
next
  case (LStreamOpen t s w c r)
  then show ?thesis using profile_from_wire_safe by (auto simp: decode_body_def result_simps split: if_splits)
qed (auto simp: decode_body_def)

context gts_lower_codec
begin

lemma decode_total: "decode_with dec buf ctx profile \<noteq> Panic"
proof -
  have "finish_decode buf ctx profile l \<noteq> Panic" if d: "dec buf = Ok l" for l
  proof -
    obtain n where n: "lower_prefix_len (lower_packet_type l) = Ok n" "n + 4 \<le> length buf" and wf: "lower_wf l"
      using dec_fits[OF d] by blast
    let ?c = "length buf - 4"
    have b: "decode_body buf ctx profile ?c l \<noteq> Panic" "\<And>pk m. decode_body buf ctx profile ?c l = Ok (pk, m) \<Longrightarrow> m \<le> ?c"
      using decode_body_safe[OF wf n(1), of ?c buf ctx profile] n(2) by auto
    have c: "compute_crc ctx x \<noteq> Panic" for x using compute_crc_Ok[of ctx x] by auto
    show ?thesis using b n(2) c by (auto simp: finish_decode_def nat_sub_r_def result_simps Let_def slice_def split: if_splits)
  qed
  then show ?thesis using dec_safe by (auto simp: decode_with_def result_simps)
qed

end

section \<open>Properties\<close>

text \<open>C7. GTS packets survive the wire: whenever a packet of any of the eleven kinds is encoded, with any negotiated
  profile and context, the output has exactly the length of the context's size class and decoding it with the
  same profile and context gives the packet back, payload, padding, optional fields and checksum included.\<close>

theorem gts_packet_roundtrip:
  assumes "gts_packet_wf pk" "encode_packet pk ctx profile = Ok out"
  shows "length out = size_class_bytes (ctx_size_class ctx) \<and> decode_packet out ctx profile = Ok pk"
  using handwritten.encode_decode[of pk ctx profile out] assms by (simp add: encode_packet_def decode_packet_def)

theorem gts_packet_roundtrip_witness:
  "\<exists>out. encode_packet (PTunnelClose 7 True) \<lparr>ctx_gdp_version = 0, ctx_size_class = Ctrl32, ctx_source = 1, ctx_destination = 2\<rparr> None = Ok out \<and>
    length out = 32 \<and>
    decode_packet out \<lparr>ctx_gdp_version = 0, ctx_size_class = Ctrl32, ctx_source = 1, ctx_destination = 2\<rparr> None = Ok (PTunnelClose 7 True)"
proof -
  let ?c = "\<lparr>ctx_gdp_version = 0, ctx_size_class = Ctrl32, ctx_source = 1, ctx_destination = 2\<rparr>" and ?p = "PTunnelClose 7 True"
  have "prepare_encode ?p ?c None = Ok \<lparr>plan_lower = LTunnelClose 7 True, plan_tail = replicate 23 0, plan_crc_coverage_end = 28\<rparr>"
    by (simp add: prepare_encode_def checked_sub_def plain_plan_def zero_tail_def size_class_bytes_def)
  moreover obtain v where "compute_crc ?c (lower_bytes (LTunnelClose 7 True) @ replicate 23 0) = Ok v" using compute_crc_Ok by blast
  ultimately obtain out where o: "encode_packet ?p ?c None = Ok out"
    using encode_lower_eq[of "LTunnelClose 7 True"] lower_bytes_length[of "LTunnelClose 7 True"]
    by (auto simp: encode_packet_def encode_with_def finish_encode_def checked_sub_def size_class_bytes_def lower_wf_def)
  then show ?thesis using gts_packet_roundtrip[OF _ o] by (simp add: gts_packet_wf_def size_class_bytes_def)
qed

text \<open>The GTS decoder is total: on any bytes, context and profile it returns a packet or an error and never
  panics, although it slices at offsets computed from lengths in the packet.\<close>

theorem gts_decode_total: "decode_packet buf ctx profile \<noteq> Panic"
  using handwritten.decode_total by (simp add: decode_packet_def)

end
