(* ===== verification/Gctl.thy ===== *)
theory Gctl
  imports Gdp
begin

text \<open>
  GDP control messages, src/src/wire/gctl.rs: the message frame and the typed bodies for credit, discovery, node
  announcements and address configuration. Every pair of a constructor and its parser has the same contract, the
  locale \<open>gctl_body_codec\<close>: what was built is parsed back after the message crossed the wire with any amount of
  zero padding.
\<close>

section \<open>Message types\<close>

datatype GctlType =
    GSolicit | GAdvertise | GCreditRequest | GCredit | GNodeAnnounce
  | GReannounceSolicit | GAddressOffer | GAddressClaim | GAddressAck | GAddressNak
  | GEchoRequest | GEchoReply | GDestinationUnreachable | GHopLimitExceeded | GParameterProblem
  | GClassUnsupported | GTransitAborted | GPathProbe | GPathReply | GStatusRequest
  | GStatusReply | GGetRequest | GGetReply | GGetNextRequest | GGetNextReply
  | GEventReport | GExperimental

primrec gctl_type_wire :: "GctlType \<Rightarrow> u8" where
  "gctl_type_wire GSolicit = 0x01"
| "gctl_type_wire GAdvertise = 0x02"
| "gctl_type_wire GCreditRequest = 0x03"
| "gctl_type_wire GCredit = 0x04"
| "gctl_type_wire GNodeAnnounce = 0x05"
| "gctl_type_wire GReannounceSolicit = 0x06"
| "gctl_type_wire GAddressOffer = 0x10"
| "gctl_type_wire GAddressClaim = 0x11"
| "gctl_type_wire GAddressAck = 0x12"
| "gctl_type_wire GAddressNak = 0x13"
| "gctl_type_wire GEchoRequest = 0x20"
| "gctl_type_wire GEchoReply = 0x21"
| "gctl_type_wire GDestinationUnreachable = 0x22"
| "gctl_type_wire GHopLimitExceeded = 0x23"
| "gctl_type_wire GParameterProblem = 0x24"
| "gctl_type_wire GClassUnsupported = 0x25"
| "gctl_type_wire GTransitAborted = 0x26"
| "gctl_type_wire GPathProbe = 0x28"
| "gctl_type_wire GPathReply = 0x29"
| "gctl_type_wire GStatusRequest = 0x30"
| "gctl_type_wire GStatusReply = 0x31"
| "gctl_type_wire GGetRequest = 0x32"
| "gctl_type_wire GGetReply = 0x33"
| "gctl_type_wire GGetNextRequest = 0x34"
| "gctl_type_wire GGetNextReply = 0x35"
| "gctl_type_wire GEventReport = 0x36"
| "gctl_type_wire GExperimental = 0xff"

definition gctl_type_from_wire :: "u8 \<Rightarrow> GctlType result" where
  "gctl_type_from_wire v =
    (if v = 0x01 then Ok GSolicit
     else if v = 0x02 then Ok GAdvertise
     else if v = 0x03 then Ok GCreditRequest
     else if v = 0x04 then Ok GCredit
     else if v = 0x05 then Ok GNodeAnnounce
     else if v = 0x06 then Ok GReannounceSolicit
     else if v = 0x10 then Ok GAddressOffer
     else if v = 0x11 then Ok GAddressClaim
     else if v = 0x12 then Ok GAddressAck
     else if v = 0x13 then Ok GAddressNak
     else if v = 0x20 then Ok GEchoRequest
     else if v = 0x21 then Ok GEchoReply
     else if v = 0x22 then Ok GDestinationUnreachable
     else if v = 0x23 then Ok GHopLimitExceeded
     else if v = 0x24 then Ok GParameterProblem
     else if v = 0x25 then Ok GClassUnsupported
     else if v = 0x26 then Ok GTransitAborted
     else if v = 0x28 then Ok GPathProbe
     else if v = 0x29 then Ok GPathReply
     else if v = 0x30 then Ok GStatusRequest
     else if v = 0x31 then Ok GStatusReply
     else if v = 0x32 then Ok GGetRequest
     else if v = 0x33 then Ok GGetReply
     else if v = 0x34 then Ok GGetNextRequest
     else if v = 0x35 then Ok GGetNextReply
     else if v = 0x36 then Ok GEventReport
     else if v = 0xff then Ok GExperimental
     else Err Unsupported)"

datatype ServiceType = ServiceType u16

datatype DiscoveryScope = Link

primrec discovery_scope_wire :: "DiscoveryScope \<Rightarrow> u8" where
  "discovery_scope_wire Link = 0"

definition discovery_scope_from_wire :: "u8 \<Rightarrow> DiscoveryScope result" where
  "discovery_scope_from_wire v = (if v = 0 then Ok Link else Err Unsupported)"

primrec service_type_wire :: "ServiceType \<Rightarrow> u16" where
  "service_type_wire (ServiceType v) = v"

record Solicit =
  sol_service_type :: ServiceType
  sol_scope :: DiscoveryScope

record Advertise =
  adv_service_type :: ServiceType
  adv_preference :: u8
  adv_provider :: GdpAddress
  adv_lifetime :: u32
  adv_capabilities :: u32

record NodeAnnounce =
  na_node :: GdpAddress
  na_nonce :: u64
  na_capabilities :: u32

definition conflicts_with :: "NodeAnnounce \<Rightarrow> NodeAnnounce \<Rightarrow> bool" where
  "conflicts_with a b \<longleftrightarrow> na_node a = na_node b \<and> na_nonce a \<noteq> na_nonce b"

record AddressOffer =
  off_router :: GdpAddress
  off_prefix :: u64
  off_prefix_len :: u8
  off_candidate :: GdpAddress
  off_lifetime :: u32

record AddressClaim =
  clm_candidate :: GdpAddress
  clm_nonce :: u64

record AddressAck =
  ack_candidate :: GdpAddress
  ack_lifetime :: u32

record AddressNak =
  nak_candidate :: GdpAddress
  nak_reason :: u8
  nak_retry_delay :: u32

definition gctl_prefix_mask :: "u8 \<Rightarrow> u64 result" where
  "gctl_prefix_mask len =
    (if len \<in> {16, 32, 48, 56} then Ok (push_bit (64 - unat len) (- 1)) else Err InvalidField)"

definition normalize_prefix :: "u64 \<Rightarrow> u8 \<Rightarrow> u64 result" where
  "normalize_prefix p len = rbind (gctl_prefix_mask len) (\<lambda>m. Ok (p AND m))"

definition address_matches_prefix :: "GdpAddress \<Rightarrow> u64 \<Rightarrow> u8 \<Rightarrow> bool result" where
  "address_matches_prefix a p len = rbind (gctl_prefix_mask len) (\<lambda>m. Ok (a AND m = p AND m))"

section \<open>Messages\<close>

record GctlMessage =
  gm_version :: u8
  gm_type :: GctlType
  gm_code :: u8
  gm_flags :: u8
  gm_transaction_id :: u32
  gm_body :: bytes

definition gctl_new :: "GctlType \<Rightarrow> u32 \<Rightarrow> bytes \<Rightarrow> GctlMessage" where
  "gctl_new ty t b = \<lparr>gm_version = 1, gm_type = ty, gm_code = 0, gm_flags = 0, gm_transaction_id = t, gm_body = b\<rparr>"

definition gctl_encoded_len :: "GctlMessage \<Rightarrow> nat" where
  "gctl_encoded_len m = 8 + length (gm_body m)"

definition recommended_size_class :: "GctlMessage \<Rightarrow> SizeClass result" where
  "recommended_size_class m = ok_or (smallest_for (gctl_encoded_len m)) MessageTooLarge"

definition encode_exact :: "GctlMessage \<Rightarrow> nat \<Rightarrow> bytes result" where
  "encode_exact m sz =
    (if gm_version m \<noteq> 1 \<or> sz < gctl_encoded_len m then Err InvalidLength
     else rbind (copy_at (replicate sz 0) 0 [gm_version m, gctl_type_wire (gm_type m), gm_code m, gm_flags m]) (\<lambda>out.
       rbind (copy_at out 4 (to_be 4 (gm_transaction_id m))) (\<lambda>out. copy_at out 8 (gm_body m))))"

definition gctl_decode :: "bytes \<Rightarrow> GctlMessage result" where
  "gctl_decode buf =
    (if length buf < 8 then Err InvalidLength
     else rbind (idx buf 0) (\<lambda>v.
       if v \<noteq> 1 then Err Unsupported
       else rbind (rbind (idx buf 1) gctl_type_from_wire) (\<lambda>ty.
         rbind (idx buf 2) (\<lambda>c. rbind (idx buf 3) (\<lambda>f. rbind (slice buf 4 8) (\<lambda>t. rbind (slice buf 8 (length buf)) (\<lambda>b.
         Ok \<lparr>gm_version = v, gm_type = ty, gm_code = c, gm_flags = f, gm_transaction_id = from_be t, gm_body = b\<rparr>)))))))"

definition typed_body :: "GctlMessage \<Rightarrow> GctlType \<Rightarrow> nat \<Rightarrow> bytes result" where
  "typed_body m expected len =
    (if gm_type m \<noteq> expected \<or> length (gm_body m) < len then Err InvalidLength
     else rbind (slice (gm_body m) len (length (gm_body m))) (\<lambda>pad.
       if list_ex (\<lambda>b. b \<noteq> 0) pad then Err InvalidField else slice (gm_body m) 0 len))"

definition echo_reply :: "GctlMessage \<Rightarrow> GctlMessage result" where
  "echo_reply m = (if gm_type m \<noteq> GEchoRequest then Err InvalidState else Ok (m\<lparr>gm_type := GEchoReply\<rparr>))"

definition gctl_credit_request :: "u32 \<Rightarrow> u32 \<Rightarrow> GctlMessage" where
  "gctl_credit_request t flits = gctl_new GCreditRequest t (to_be 4 flits)"

definition parse_credit_request :: "GctlMessage \<Rightarrow> u32 result" where
  "parse_credit_request m = rbind (typed_body m GCreditRequest 4) (\<lambda>b. Ok (from_be b))"

definition gctl_credit :: "u32 \<Rightarrow> u32 \<Rightarrow> GctlMessage" where
  "gctl_credit t flits = gctl_new GCredit t (to_be 4 flits)"

definition parse_credit :: "GctlMessage \<Rightarrow> u32 result" where
  "parse_credit m = rbind (typed_body m GCredit 4) (\<lambda>b. Ok (from_be b))"

definition gctl_solicit :: "u32 \<Rightarrow> Solicit \<Rightarrow> GctlMessage" where
  "gctl_solicit t s = gctl_new GSolicit t
    (to_be 2 (service_type_wire (sol_service_type s)) @ [discovery_scope_wire (sol_scope s), 0])"

definition parse_solicit :: "GctlMessage \<Rightarrow> Solicit result" where
  "parse_solicit m = rbind (typed_body m GSolicit 4) (\<lambda>b.
    if b ! 3 \<noteq> 0 then Err InvalidField
    else rbind (slice b 0 2) (\<lambda>s. rbind (discovery_scope_from_wire (b ! 2)) (\<lambda>sc.
      Ok \<lparr>sol_service_type = ServiceType (from_be s), sol_scope = sc\<rparr>)))"

definition gctl_advertise :: "u32 \<Rightarrow> Advertise \<Rightarrow> GctlMessage" where
  "gctl_advertise t a = gctl_new GAdvertise t
    (to_be 2 (service_type_wire (adv_service_type a)) @ [adv_preference a, 0] @ to_be 8 (adv_provider a) @
     to_be 4 (adv_lifetime a) @ to_be 4 (adv_capabilities a))"

definition parse_advertise :: "GctlMessage \<Rightarrow> Advertise result" where
  "parse_advertise m = rbind (typed_body m GAdvertise 20) (\<lambda>b.
    if b ! 3 \<noteq> 0 then Err InvalidField
    else rbind (slice b 0 2) (\<lambda>s. rbind (slice b 4 12) (\<lambda>p. rbind (slice b 12 16) (\<lambda>l. rbind (slice b 16 20) (\<lambda>c.
      Ok \<lparr>adv_service_type = ServiceType (from_be s), adv_preference = b ! 2, adv_provider = from_be p,
          adv_lifetime = from_be l, adv_capabilities = from_be c\<rparr>)))))"

definition gctl_node_announce :: "u32 \<Rightarrow> NodeAnnounce \<Rightarrow> GctlMessage" where
  "gctl_node_announce t a = gctl_new GNodeAnnounce t
    (to_be 8 (na_node a) @ to_be 8 (na_nonce a) @ to_be 4 (na_capabilities a))"

definition parse_node_announce :: "GctlMessage \<Rightarrow> NodeAnnounce result" where
  "parse_node_announce m = rbind (typed_body m GNodeAnnounce 20) (\<lambda>b.
    rbind (slice b 0 8) (\<lambda>n. rbind (slice b 8 16) (\<lambda>c. rbind (slice b 16 20) (\<lambda>k.
      Ok \<lparr>na_node = from_be n, na_nonce = from_be c, na_capabilities = from_be k\<rparr>))))"

definition gctl_reannounce_solicit :: "u32 \<Rightarrow> DiscoveryScope \<Rightarrow> GctlMessage" where
  "gctl_reannounce_solicit t s = gctl_new GReannounceSolicit t [discovery_scope_wire s, 0, 0, 0]"

definition parse_reannounce_solicit :: "GctlMessage \<Rightarrow> DiscoveryScope result" where
  "parse_reannounce_solicit m = rbind (typed_body m GReannounceSolicit 4) (\<lambda>b.
    rbind (slice b 1 4) (\<lambda>r. if list_ex (\<lambda>v. v \<noteq> 0) r then Err InvalidField else discovery_scope_from_wire (b ! 0)))"

definition offer_consistent :: "AddressOffer \<Rightarrow> bool result" where
  "offer_consistent f =
    rbind (normalize_prefix (off_prefix f) (off_prefix_len f)) (\<lambda>n.
    if n \<noteq> off_prefix f then Ok False
    else address_matches_prefix (off_candidate f) (off_prefix f) (off_prefix_len f))"

definition gctl_address_offer :: "u32 \<Rightarrow> AddressOffer \<Rightarrow> GctlMessage result" where
  "gctl_address_offer t f = rbind (offer_consistent f) (\<lambda>c.
    if \<not> c then Err InvalidField
    else Ok (gctl_new GAddressOffer t
      (to_be 8 (off_router f) @ to_be 8 (off_prefix f) @ [off_prefix_len f] @ [0, 0, 0] @
       to_be 8 (off_candidate f) @ to_be 4 (off_lifetime f))))"

definition parse_address_offer :: "GctlMessage \<Rightarrow> AddressOffer result" where
  "parse_address_offer m = rbind (typed_body m GAddressOffer 32) (\<lambda>b.
    rbind (slice b 17 20) (\<lambda>z. if list_ex (\<lambda>v. v \<noteq> 0) z then Err InvalidField
    else rbind (slice b 0 8) (\<lambda>r. rbind (slice b 8 16) (\<lambda>p. rbind (slice b 20 28) (\<lambda>c. rbind (slice b 28 32) (\<lambda>l.
      let f = \<lparr>off_router = from_be r, off_prefix = from_be p, off_prefix_len = b ! 16, off_candidate = from_be c,
               off_lifetime = from_be l\<rparr> in
      rbind (offer_consistent f) (\<lambda>ok. if \<not> ok then Err InvalidField else Ok f)))))))"

definition gctl_address_claim :: "u32 \<Rightarrow> AddressClaim \<Rightarrow> GctlMessage" where
  "gctl_address_claim t c = gctl_new GAddressClaim t (to_be 8 (clm_candidate c) @ to_be 8 (clm_nonce c))"

definition parse_address_claim :: "GctlMessage \<Rightarrow> AddressClaim result" where
  "parse_address_claim m = rbind (typed_body m GAddressClaim 16) (\<lambda>b.
    rbind (slice b 0 8) (\<lambda>c. rbind (slice b 8 16) (\<lambda>n. Ok \<lparr>clm_candidate = from_be c, clm_nonce = from_be n\<rparr>)))"

definition gctl_address_ack :: "u32 \<Rightarrow> AddressAck \<Rightarrow> GctlMessage" where
  "gctl_address_ack t a = gctl_new GAddressAck t (to_be 8 (ack_candidate a) @ to_be 4 (ack_lifetime a))"

definition parse_address_ack :: "GctlMessage \<Rightarrow> AddressAck result" where
  "parse_address_ack m = rbind (typed_body m GAddressAck 12) (\<lambda>b.
    rbind (slice b 0 8) (\<lambda>c. rbind (slice b 8 12) (\<lambda>l. Ok \<lparr>ack_candidate = from_be c, ack_lifetime = from_be l\<rparr>)))"

definition gctl_address_nak :: "u32 \<Rightarrow> AddressNak \<Rightarrow> GctlMessage" where
  "gctl_address_nak t n =
    (gctl_new GAddressNak t (to_be 8 (nak_candidate n) @ to_be 4 (nak_retry_delay n)))\<lparr>gm_code := nak_reason n\<rparr>"

definition parse_address_nak :: "GctlMessage \<Rightarrow> AddressNak result" where
  "parse_address_nak m = rbind (typed_body m GAddressNak 12) (\<lambda>b.
    rbind (slice b 0 8) (\<lambda>c. rbind (slice b 8 12) (\<lambda>r.
      Ok \<lparr>nak_candidate = from_be c, nak_reason = gm_code m, nak_retry_delay = from_be r\<rparr>)))"

section \<open>Frames round-trip\<close>

lemma gctl_type_roundtrip: "gctl_type_from_wire (gctl_type_wire ty) = Ok ty"
  by (cases ty) (simp_all add: gctl_type_from_wire_def)

lemma gctl_type_wire_inverse: "gctl_type_from_wire v = Ok ty \<Longrightarrow> gctl_type_wire ty = v"
  by (auto simp: gctl_type_from_wire_def split: if_splits)

abbreviation padded :: "GctlMessage \<Rightarrow> nat \<Rightarrow> GctlMessage" where
  "padded m k \<equiv> m\<lparr>gm_body := gm_body m @ replicate k 0\<rparr>"

lemma gctl_decode_encode:
  assumes "gm_version m = 1" "gctl_encoded_len m \<le> sz"
  shows "\<exists>bs. encode_exact m sz = Ok bs \<and> length bs = sz \<and> gctl_decode bs = Ok (padded m (sz - gctl_encoded_len m))"
proof -
  let ?h = "[gm_version m, gctl_type_wire (gm_type m), gm_code m, gm_flags m]" and ?t = "to_be 4 (gm_transaction_id m)"
  have c: "copy_at (replicate sz 0) 0 ?h = Ok (?h @ replicate (sz - 4) 0)"
    "copy_at (?h @ replicate (sz - 4) 0) 4 ?t = Ok ((?h @ ?t) @ replicate (sz - 8) 0)"
    "copy_at ((?h @ ?t) @ replicate (sz - 8) 0) 8 (gm_body m) = Ok ((?h @ ?t) @ gm_body m @ replicate (sz - 8 - length (gm_body m)) 0)"
    using assms copy_at_append[of "[]" 0 ?h "replicate sz 0"] copy_at_append[of ?h 4 ?t "replicate (sz - 4) 0"] copy_at_append[of "?h @ ?t" 8 "gm_body m" "replicate (sz - 8) 0"]
    by (auto simp: gctl_encoded_len_def simp del: copy_at_Ok)
  have "encode_exact m sz = Ok (?h @ ?t @ gm_body m @ replicate (sz - gctl_encoded_len m) 0)"
    using assms unfolding encode_exact_def c rbind.simps by (simp add: gctl_encoded_len_def)
  moreover have "gctl_decode ([gm_version m, gctl_type_wire (gm_type m), gm_code m, gm_flags m] @
      to_be 4 (gm_transaction_id m) @ gm_body m @ replicate k 0) = Ok (padded m k)" for k
    using assms(1) by (simp add: gctl_decode_def gctl_type_roundtrip)
  ultimately show ?thesis using assms(2) by (auto simp: gctl_encoded_len_def)
qed

lemma typed_body_padded: "typed_body (padded (gctl_new ty t b) k) ty (length b) = Ok b"
  by (simp add: typed_body_def gctl_new_def list_ex_iff)

locale gctl_body_codec =
  fixes build :: "u32 \<Rightarrow> 'a \<Rightarrow> GctlMessage result"
    and parse :: "GctlMessage \<Rightarrow> 'a result"
  assumes parse_build: "build t x = Ok m \<Longrightarrow> gm_version m = 1 \<and> gm_transaction_id m = t \<and> parse (padded m k) = Ok x"
begin

lemma wire_roundtrip:
  assumes "build t x = Ok m" "gctl_encoded_len m \<le> sz"
  shows "\<exists>bs m'. encode_exact m sz = Ok bs \<and> gctl_decode bs = Ok m' \<and> gm_transaction_id m' = t \<and> parse m' = Ok x"
  using gctl_decode_encode[OF _ assms(2)] parse_build[OF assms(1)] by auto

end

text \<open>The bodies, with their fixed lengths.\<close>

lemma gctl_new_fields:
  "gm_version (gctl_new ty t b) = 1" "gm_transaction_id (gctl_new ty t b) = t"
  by (simp_all add: gctl_new_def)

lemma scope_Link: "s = Link" "discovery_scope_wire s = 0"
  by (cases s; simp)+

lemma service_type_eta: "ServiceType (service_type_wire s) = s"
  by (cases s) simp

lemma padded_body: "length b = n \<Longrightarrow> typed_body (padded (gctl_new ty t b) k) ty n = Ok b"
  using typed_body_padded[where ty = ty and t = t and b = b and k = k] by auto

interpretation credit_request_body: gctl_body_codec "\<lambda>t x. Ok (gctl_credit_request t x)" parse_credit_request
  by unfold_locales (auto simp: gctl_credit_request_def parse_credit_request_def padded_body gctl_new_fields nth_append)

interpretation credit_body: gctl_body_codec "\<lambda>t x. Ok (gctl_credit t x)" parse_credit
  by unfold_locales (auto simp: gctl_credit_def parse_credit_def padded_body gctl_new_fields nth_append)

interpretation solicit_body: gctl_body_codec "\<lambda>t x. Ok (gctl_solicit t x)" parse_solicit
  by unfold_locales (auto simp: gctl_solicit_def parse_solicit_def padded_body gctl_new_fields discovery_scope_from_wire_def nth_append
      service_type_eta scope_Link(2) intro!: Solicit.equality scope_Link(1)[symmetric])

interpretation advertise_body: gctl_body_codec "\<lambda>t x. Ok (gctl_advertise t x)" parse_advertise
  by unfold_locales (auto simp: gctl_advertise_def parse_advertise_def padded_body gctl_new_fields nth_append service_type_eta)

interpretation node_announce_body: gctl_body_codec "\<lambda>t x. Ok (gctl_node_announce t x)" parse_node_announce
  by unfold_locales (auto simp: gctl_node_announce_def parse_node_announce_def padded_body gctl_new_fields nth_append)

interpretation reannounce_body: gctl_body_codec "\<lambda>t x. Ok (gctl_reannounce_solicit t x)" parse_reannounce_solicit
  by unfold_locales (auto simp: gctl_reannounce_solicit_def parse_reannounce_solicit_def padded_body gctl_new_fields
      discovery_scope_from_wire_def scope_Link(2) intro: scope_Link(1)[symmetric])

interpretation address_claim_body: gctl_body_codec "\<lambda>t x. Ok (gctl_address_claim t x)" parse_address_claim
  by unfold_locales (auto simp: gctl_address_claim_def parse_address_claim_def padded_body gctl_new_fields nth_append)

interpretation address_ack_body: gctl_body_codec "\<lambda>t x. Ok (gctl_address_ack t x)" parse_address_ack
  by unfold_locales (auto simp: gctl_address_ack_def parse_address_ack_def padded_body gctl_new_fields nth_append)

interpretation address_nak_body: gctl_body_codec "\<lambda>t x. Ok (gctl_address_nak t x)" parse_address_nak
  by unfold_locales (auto simp: gctl_address_nak_def parse_address_nak_def typed_body_def gctl_new_def list_ex_iff)

lemma gctl_address_offer_Ok:
  "gctl_address_offer t f = Ok m \<longleftrightarrow> offer_consistent f = Ok True \<and>
    m = gctl_new GAddressOffer t (to_be 8 (off_router f) @ to_be 8 (off_prefix f) @ [off_prefix_len f] @ [0, 0, 0] @
      to_be 8 (off_candidate f) @ to_be 4 (off_lifetime f))"
  by (cases "offer_consistent f") (auto simp: gctl_address_offer_def)

interpretation address_offer_body: gctl_body_codec gctl_address_offer parse_address_offer
proof
  fix t x m k
  assume "gctl_address_offer t x = Ok m"
  then have c: "offer_consistent x = Ok True" and
    m: "m = gctl_new GAddressOffer t (to_be 8 (off_router x) @ to_be 8 (off_prefix x) @ [off_prefix_len x] @ [0, 0, 0] @
      to_be 8 (off_candidate x) @ to_be 4 (off_lifetime x))"
    by (simp_all only: gctl_address_offer_Ok)
  show "gm_version m = 1 \<and> gm_transaction_id m = t \<and> parse_address_offer (padded m k) = Ok x"
    using c unfolding m by (cases x) (simp add: parse_address_offer_def padded_body gctl_new_fields nth_append Let_def)
qed

text \<open>An offer is sound when the prefix length is one of the four levels of the hierarchy, the prefix has no bit below its
  length, and the candidate agrees with the prefix on every bit of it.\<close>

definition offer_in_prefix :: "AddressOffer \<Rightarrow> bool" where
  "offer_in_prefix f \<longleftrightarrow> off_prefix_len f \<in> {16, 32, 48, 56} \<and> take_bit (64 - unat (off_prefix_len f)) (off_prefix f) = 0 \<and>
    drop_bit (64 - unat (off_prefix_len f)) (off_candidate f) = drop_bit (64 - unat (off_prefix_len f)) (off_prefix f)"

lemma and_high_mask: "x AND push_bit n (- 1) = push_bit n (drop_bit n x)" for x :: u64
  by (rule bit_word_eqI) (auto simp: bit_simps)

lemma high_bits_self: "push_bit n (drop_bit n x) = x \<longleftrightarrow> take_bit n x = 0" for x :: u64
  by (metis add_cancel_right_right bits_ident)

lemma high_bits_inj: "push_bit n (drop_bit n x) = push_bit n (drop_bit n y) \<longleftrightarrow> drop_bit n x = drop_bit n y" for x y :: u64
proof
  have "drop_bit n (push_bit n (drop_bit n z)) = drop_bit n z" for z :: u64 by (rule bit_word_eqI) (auto simp: bit_simps dest: bit_imp_le_length)
  then show "push_bit n (drop_bit n x) = push_bit n (drop_bit n y) \<Longrightarrow> drop_bit n x = drop_bit n y" by metis
qed simp

lemma offer_consistent_iff: "offer_consistent f = Ok True \<longleftrightarrow> offer_in_prefix f"
proof (cases "off_prefix_len f \<in> {16, 32, 48, 56}")
  case True
  then show ?thesis
    unfolding offer_consistent_def normalize_prefix_def address_matches_prefix_def gctl_prefix_mask_def offer_in_prefix_def
    by (simp only: if_True rbind.simps and_high_mask high_bits_self high_bits_inj) auto
qed (simp add: offer_consistent_def normalize_prefix_def gctl_prefix_mask_def offer_in_prefix_def)

lemma offer_consistent_cases: "offer_consistent f \<in> {Ok True, Ok False, Err InvalidField}"
  by (cases "gctl_prefix_mask (off_prefix_len f)")
    (auto simp: offer_consistent_def normalize_prefix_def address_matches_prefix_def gctl_prefix_mask_def split: if_splits)

lemma address_offer_refused: "\<not> offer_in_prefix f \<Longrightarrow> gctl_address_offer t f = Err InvalidField"
  using offer_consistent_cases[of f] by (auto simp: offer_consistent_iff[symmetric] gctl_address_offer_def)

lemma parsed_offer_in_prefix: "parse_address_offer m = Ok f \<Longrightarrow> offer_in_prefix f"
  by (auto simp: parse_address_offer_def result_simps Let_def offer_consistent_iff split: if_splits)

section \<open>Properties\<close>

text \<open>C28. Control messages survive the wire with any padding: whatever size at least the message's own length is chosen
  for a node announcement, a service advertisement, an address claim or an address offer, the encoded frame decodes to a
  message with the same transaction whose parsed body is the one sent. An address offer is built exactly when its prefix
  length is 16, 32, 48 or 56, its prefix has no bit below that length and its candidate lies in the prefix
  (\<open>offer_in_prefix\<close>), and is refused as an invalid field otherwise; and the parser accepts no other offer from any message.\<close>

theorem gctl_wire_roundtrip:
  "(gctl_encoded_len (gctl_node_announce t a) \<le> sz \<longrightarrow>
      (\<exists>bs m. encode_exact (gctl_node_announce t a) sz = Ok bs \<and> gctl_decode bs = Ok m \<and> gm_transaction_id m = t \<and> parse_node_announce m = Ok a)) \<and>
   (gctl_encoded_len (gctl_advertise t v) \<le> sz \<longrightarrow>
      (\<exists>bs m. encode_exact (gctl_advertise t v) sz = Ok bs \<and> gctl_decode bs = Ok m \<and> gm_transaction_id m = t \<and> parse_advertise m = Ok v)) \<and>
   (gctl_encoded_len (gctl_address_claim t c) \<le> sz \<longrightarrow>
      (\<exists>bs m. encode_exact (gctl_address_claim t c) sz = Ok bs \<and> gctl_decode bs = Ok m \<and> gm_transaction_id m = t \<and> parse_address_claim m = Ok c)) \<and>
   (gctl_address_offer t f = Ok om \<and> gctl_encoded_len om \<le> sz \<longrightarrow>
      (\<exists>bs m. encode_exact om sz = Ok bs \<and> gctl_decode bs = Ok m \<and> gm_transaction_id m = t \<and> parse_address_offer m = Ok f)) \<and>
   (if offer_in_prefix f then \<exists>om. gctl_address_offer t f = Ok om else gctl_address_offer t f = Err InvalidField) \<and>
   (parse_address_offer msg = Ok g \<longrightarrow> offer_in_prefix g)"
proof -
  have built: "offer_in_prefix f \<Longrightarrow> \<exists>om. gctl_address_offer t f = Ok om" by (simp add: gctl_address_offer_Ok offer_consistent_iff)
  then have gate: "if offer_in_prefix f then \<exists>om. gctl_address_offer t f = Ok om else gctl_address_offer t f = Err InvalidField"
    using address_offer_refused by simp
  note trips = node_announce_body.wire_roundtrip[of t a _ sz] advertise_body.wire_roundtrip[of t v _ sz]
    address_claim_body.wire_roundtrip[of t c _ sz] address_offer_body.wire_roundtrip[of t f om sz]
  show ?thesis
    by (rule conjI[OF _ conjI[OF _ conjI[OF _ conjI[OF _ conjI[OF gate]]]]]) (use trips in blast, use trips in blast,
      use trips in blast, use trips in blast, use parsed_offer_in_prefix in blast)
qed

theorem gctl_wire_roundtrip_witness:
  "(\<exists>bs m. encode_exact (gctl_node_announce 7 \<lparr>na_node = 1, na_nonce = 2, na_capabilities = 3\<rparr>) 32 = Ok bs \<and>
     gctl_decode bs = Ok m \<and> gm_transaction_id m = 7 \<and> parse_node_announce m = Ok \<lparr>na_node = 1, na_nonce = 2, na_capabilities = 3\<rparr>) \<and>
   (let f = \<lparr>off_router = 1, off_prefix = 0x10000, off_prefix_len = 48, off_candidate = 0x10005, off_lifetime = 60\<rparr> in
     \<exists>om bs m. gctl_address_offer 7 f = Ok om \<and> encode_exact om 64 = Ok bs \<and> gctl_decode bs = Ok m \<and> parse_address_offer m = Ok f) \<and>
   gctl_address_offer 7 \<lparr>off_router = 1, off_prefix = 0x10000, off_prefix_len = 48, off_candidate = 0x20005, off_lifetime = 60\<rparr>
     = Err InvalidField"
proof -
  let ?na = "\<lparr>na_node = 1, na_nonce = 2, na_capabilities = 3\<rparr>"
  let ?f = "\<lparr>off_router = 1, off_prefix = 0x10000, off_prefix_len = 48, off_candidate = 0x10005, off_lifetime = 60\<rparr>"
  let ?g = "\<lparr>off_router = 1, off_prefix = 0x10000, off_prefix_len = 48, off_candidate = 0x20005, off_lifetime = 60\<rparr>"
  have in_out: "offer_in_prefix ?f" "\<not> offer_in_prefix ?g" by (simp_all add: offer_in_prefix_def)
  then obtain om where om: "gctl_address_offer 7 ?f = Ok om" using gctl_wire_roundtrip[of 7 _ _ _ _ ?f] by metis
  then have len: "gctl_encoded_len om \<le> 64" by (auto simp: gctl_address_offer_Ok gctl_encoded_len_def gctl_new_def)
  have na: "gctl_encoded_len (gctl_node_announce 7 ?na) \<le> 32" by (simp add: gctl_encoded_len_def gctl_node_announce_def gctl_new_def)
  show ?thesis
    using gctl_wire_roundtrip[of 7 ?na 32] gctl_wire_roundtrip[of 7 _ 64 _ _ ?f om] gctl_wire_roundtrip[of 7 _ _ _ _ ?g] om len na in_out
    unfolding Let_def by meson
qed

end
