(* ===== verification/Dynamic_Routing.thy ===== *)
theory Dynamic_Routing
  imports Routing
begin

text \<open>
  Identifiers, origins and metrics of dynamic routing (src/src/dynamic_routing.rs) and the routing control messages
  (src/src/wire/gctl_routing.rs): router hellos, route advertisements and withdrawals with their fixed 32-byte
  frames. The codec is a bijection between the valid messages and the accepted frames.
\<close>

section \<open>Identifiers, origins, metrics\<close>

type_synonym RouterId = u64
type_synonym LinkId = u64
type_synonym RouteMetric = u32

definition router_id_new :: "u64 \<Rightarrow> RouterId result" where
  "router_id_new value = (if value = 0 then Err InvalidField else Ok value)"

definition link_id_new :: "u64 \<Rightarrow> LinkId result" where
  "link_id_new value = (if value = 0 then Err InvalidField else Ok value)"

datatype RouteOrigin = Connected | Learned | Static | Escape

primrec route_origin_wire :: "RouteOrigin \<Rightarrow> u8" where
  "route_origin_wire Connected = 0"
| "route_origin_wire Learned = 1"
| "route_origin_wire Static = 2"
| "route_origin_wire Escape = 3"

definition route_origin_from_wire :: "u8 \<Rightarrow> RouteOrigin result" where
  "route_origin_from_wire v =
    (if v = 0 then Ok Connected else if v = 1 then Ok Learned else if v = 2 then Ok Static
     else if v = 3 then Ok Escape else Err InvalidField)"

primrec administrative_preference :: "RouteOrigin \<Rightarrow> u8" where
  "administrative_preference Connected = 0"
| "administrative_preference Static = 10"
| "administrative_preference Learned = 100"
| "administrative_preference Escape = 255"

definition metric_saturating_add :: "RouteMetric \<Rightarrow> RouteMetric \<Rightarrow> RouteMetric" where
  "metric_saturating_add a b = saturating_add a b"

section \<open>Messages\<close>

record RouterHello =
  rh_router_id :: RouterId
  rh_link_id :: LinkId
  rh_hold_time_ms :: u32
  rh_metric :: RouteMetric

record RouteAdvertise =
  ra_advertiser :: RouterId
  ra_prefix :: GdpPrefix
  ra_origin :: RouteOrigin
  ra_metric :: RouteMetric

record RouteWithdraw =
  rw_advertiser :: RouterId
  rw_prefix :: GdpPrefix

datatype RoutingGctlBody =
    RouterHelloB RouterHello
  | RouterHelloAckB RouterHello
  | RouteAdvertiseB RouteAdvertise
  | RouteWithdrawB RouteWithdraw

record RoutingGctlMessage =
  rg_transaction_id :: u32
  rg_body :: RoutingGctlBody

definition router_hello :: "u32 \<Rightarrow> RouterHello \<Rightarrow> RoutingGctlMessage" where
  "router_hello t h = \<lparr>rg_transaction_id = t, rg_body = RouterHelloB h\<rparr>"

definition router_hello_ack :: "u32 \<Rightarrow> RouterHello \<Rightarrow> RoutingGctlMessage" where
  "router_hello_ack t h = \<lparr>rg_transaction_id = t, rg_body = RouterHelloAckB h\<rparr>"

definition route_advertise :: "u32 \<Rightarrow> RouteAdvertise \<Rightarrow> RoutingGctlMessage" where
  "route_advertise t r = \<lparr>rg_transaction_id = t, rg_body = RouteAdvertiseB r\<rparr>"

definition route_withdraw :: "u32 \<Rightarrow> RouteWithdraw \<Rightarrow> RoutingGctlMessage" where
  "route_withdraw t r = \<lparr>rg_transaction_id = t, rg_body = RouteWithdrawB r\<rparr>"

section \<open>Bodies\<close>

text \<open>A body is a 24-byte array, written field by field from zeroes.\<close>

definition encode_hello :: "RouterHello \<Rightarrow> bytes result" where
  "encode_hello h =
    rbind (copy_at (replicate 24 0) 0 (to_be 8 (rh_router_id h))) (\<lambda>body.
    rbind (copy_at body 8 (to_be 8 (rh_link_id h))) (\<lambda>body.
    rbind (copy_at body 16 (to_be 4 (rh_hold_time_ms h))) (\<lambda>body.
    copy_at body 20 (to_be 4 (rh_metric h)))))"

definition decode_hello :: "bytes \<Rightarrow> RouterHello result" where
  "decode_hello body =
    (if length body \<noteq> 24 then Err InvalidLength
     else rbind (slice body 0 8) (\<lambda>r. rbind (router_id_new (from_be r)) (\<lambda>router.
     rbind (slice body 8 16) (\<lambda>l. rbind (link_id_new (from_be l)) (\<lambda>link.
     rbind (slice body 16 20) (\<lambda>h. rbind (slice body 20 24) (\<lambda>m.
     Ok \<lparr>rh_router_id = router, rh_link_id = link, rh_hold_time_ms = from_be h, rh_metric = from_be m\<rparr>)))))))"

definition encode_route_advertise :: "RouteAdvertise \<Rightarrow> bytes result" where
  "encode_route_advertise r =
    rbind (copy_at (replicate 24 0) 0 (to_be 8 (ra_advertiser r))) (\<lambda>body.
    rbind (copy_at body 8 (to_be 8 (network (ra_prefix r)))) (\<lambda>body.
    rbind (upd body 16 (prefix_len (ra_prefix r))) (\<lambda>body.
    rbind (upd body 17 (route_origin_wire (ra_origin r))) (\<lambda>body.
    rbind (upd body 18 0) (\<lambda>body.
    rbind (upd body 19 0) (\<lambda>body.
    copy_at body 20 (to_be 4 (ra_metric r))))))))"

text \<open>The prefix of a message: a length above 64 is an invalid field, host bits set are not canonical.\<close>

definition decode_prefix :: "bytes \<Rightarrow> GdpPrefix result" where
  "decode_prefix body =
    rbind (slice body 8 16) (\<lambda>n. rbind (idx body 16) (\<lambda>len.
    rbind (gdp_prefix_new (from_be n) len) (\<lambda>r. case r of
      Inl _ \<Rightarrow> Err InvalidField
    | Inr prefix \<Rightarrow> if network prefix \<noteq> from_be n then Err NonCanonical else Ok prefix)))"

definition decode_route_advertise :: "bytes \<Rightarrow> RouteAdvertise result" where
  "decode_route_advertise body =
    (if length body \<noteq> 24 then Err InvalidLength
     else rbind (idx body 18) (\<lambda>x. rbind (idx body 19) (\<lambda>y.
     if x \<noteq> 0 \<or> y \<noteq> 0 then Err InvalidField
     else rbind (slice body 0 8) (\<lambda>a. rbind (router_id_new (from_be a)) (\<lambda>advertiser.
     rbind (decode_prefix body) (\<lambda>prefix.
     rbind (idx body 17) (\<lambda>o'. rbind (route_origin_from_wire o') (\<lambda>origin.
     rbind (slice body 20 24) (\<lambda>m.
     Ok \<lparr>ra_advertiser = advertiser, ra_prefix = prefix, ra_origin = origin, ra_metric = from_be m\<rparr>)))))))))"

definition encode_route_withdraw :: "RouteWithdraw \<Rightarrow> bytes result" where
  "encode_route_withdraw r =
    rbind (copy_at (replicate 24 0) 0 (to_be 8 (rw_advertiser r))) (\<lambda>body.
    rbind (copy_at body 8 (to_be 8 (network (rw_prefix r)))) (\<lambda>body.
    upd body 16 (prefix_len (rw_prefix r))))"

definition decode_route_withdraw :: "bytes \<Rightarrow> RouteWithdraw result" where
  "decode_route_withdraw body =
    (if length body \<noteq> 24 then Err InvalidLength
     else rbind (slice body 17 24) (\<lambda>z.
     if list_ex (\<lambda>b. b \<noteq> 0) z then Err InvalidField
     else rbind (slice body 0 8) (\<lambda>a. rbind (router_id_new (from_be a)) (\<lambda>advertiser.
     rbind (decode_prefix body) (\<lambda>prefix.
     Ok \<lparr>rw_advertiser = advertiser, rw_prefix = prefix\<rparr>)))))"

section \<open>Frames\<close>

definition routing_body_encode :: "RoutingGctlBody \<Rightarrow> (u8 \<times> bytes) result" where
  "routing_body_encode b = (case b of
      RouterHelloB h \<Rightarrow> rbind (encode_hello h) (\<lambda>body. Ok (0x40, body))
    | RouterHelloAckB h \<Rightarrow> rbind (encode_hello h) (\<lambda>body. Ok (0x41, body))
    | RouteAdvertiseB r \<Rightarrow> rbind (encode_route_advertise r) (\<lambda>body. Ok (0x42, body))
    | RouteWithdrawB r \<Rightarrow> rbind (encode_route_withdraw r) (\<lambda>body. Ok (0x43, body)))"

definition routing_encode :: "RoutingGctlMessage \<Rightarrow> bytes result" where
  "routing_encode m =
    rbind (routing_body_encode (rg_body m)) (\<lambda>(message_type, body).
    rbind (copy_at (replicate (8 + length body) 0) 0 [1, message_type, 0, 0]) (\<lambda>out.
    rbind (copy_at out 4 (to_be 4 (rg_transaction_id m))) (\<lambda>out.
    copy_at out 8 body)))"

definition routing_decode :: "bytes \<Rightarrow> RoutingGctlMessage result" where
  "routing_decode buf =
    (if length buf \<noteq> 8 + 24 then Err InvalidLength
     else rbind (idx buf 0) (\<lambda>v. if v \<noteq> 1 then Err Unsupported
     else rbind (idx buf 2) (\<lambda>x. rbind (idx buf 3) (\<lambda>y. if x \<noteq> 0 \<or> y \<noteq> 0 then Err InvalidField
     else rbind (slice buf 4 8) (\<lambda>t. rbind (idx buf 1) (\<lambda>ty. rbind (slice buf 8 (length buf)) (\<lambda>body.
     rbind (if ty = 0x40 then rbind (decode_hello body) (\<lambda>h. Ok (RouterHelloB h))
       else if ty = 0x41 then rbind (decode_hello body) (\<lambda>h. Ok (RouterHelloAckB h))
       else if ty = 0x42 then rbind (decode_route_advertise body) (\<lambda>r. Ok (RouteAdvertiseB r))
       else if ty = 0x43 then rbind (decode_route_withdraw body) (\<lambda>r. Ok (RouteWithdrawB r))
       else Err Unsupported) (\<lambda>b.
     Ok \<lparr>rg_transaction_id = from_be t, rg_body = b\<rparr>))))))))"

section \<open>The layout of the frames\<close>

definition hello_bytes :: "RouterHello \<Rightarrow> bytes" where
  "hello_bytes h = to_be 8 (rh_router_id h) @ to_be 8 (rh_link_id h) @ to_be 4 (rh_hold_time_ms h) @ to_be 4 (rh_metric h)"

definition advertise_bytes :: "RouteAdvertise \<Rightarrow> bytes" where
  "advertise_bytes r = to_be 8 (ra_advertiser r) @ to_be 8 (network (ra_prefix r)) @
    [prefix_len (ra_prefix r), route_origin_wire (ra_origin r), 0, 0] @ to_be 4 (ra_metric r)"

definition withdraw_bytes :: "RouteWithdraw \<Rightarrow> bytes" where
  "withdraw_bytes r = to_be 8 (rw_advertiser r) @ to_be 8 (network (rw_prefix r)) @ [prefix_len (rw_prefix r)] @ replicate 7 0"

lemma copy_zeros:
  assumes "length pre = off" "length ys \<le> n"
  shows "copy_at (pre @ replicate n 0) off ys = Ok ((pre @ ys) @ replicate (n - length ys) 0)"
  using assms copy_at_append[of pre off ys "replicate n 0"] by simp

lemma upd_zeros:
  assumes "length pre = off" "0 < n"
  shows "upd (pre @ replicate n 0) off v = Ok ((pre @ [v]) @ replicate (n - 1) 0)"
  using assms by (cases n) (simp_all add: list_update_append)

lemmas write_zeros = copy_zeros[where pre = "[]", simplified] copy_zeros upd_zeros

lemma encode_hello_eq: "encode_hello h = Ok (hello_bytes h)"
  by (simp add: encode_hello_def hello_bytes_def write_zeros del: copy_at_Ok upd_Ok append_assoc)

lemma encode_route_advertise_eq: "encode_route_advertise r = Ok (advertise_bytes r)"
  by (simp add: encode_route_advertise_def advertise_bytes_def write_zeros del: copy_at_Ok upd_Ok append_assoc)

lemma encode_route_withdraw_eq: "encode_route_withdraw r = Ok (withdraw_bytes r)"
  by (simp add: encode_route_withdraw_def withdraw_bytes_def write_zeros del: copy_at_Ok upd_Ok append_assoc)

definition body_type :: "RoutingGctlBody \<Rightarrow> u8" where
  "body_type b = (case b of RouterHelloB _ \<Rightarrow> 0x40 | RouterHelloAckB _ \<Rightarrow> 0x41 | RouteAdvertiseB _ \<Rightarrow> 0x42 | RouteWithdrawB _ \<Rightarrow> 0x43)"

definition body_bytes :: "RoutingGctlBody \<Rightarrow> bytes" where
  "body_bytes b = (case b of RouterHelloB h \<Rightarrow> hello_bytes h | RouterHelloAckB h \<Rightarrow> hello_bytes h
    | RouteAdvertiseB r \<Rightarrow> advertise_bytes r | RouteWithdrawB r \<Rightarrow> withdraw_bytes r)"

definition frame_bytes :: "RoutingGctlMessage \<Rightarrow> bytes" where
  "frame_bytes m = [1, body_type (rg_body m), 0, 0] @ to_be 4 (rg_transaction_id m) @ body_bytes (rg_body m)"

lemma body_lengths [simp]:
  "length (hello_bytes h) = 24" "length (advertise_bytes a) = 24" "length (withdraw_bytes w) = 24" "length (body_bytes b) = 24"
  by (simp_all add: hello_bytes_def advertise_bytes_def withdraw_bytes_def body_bytes_def split: RoutingGctlBody.split)

lemma routing_encode_eq: "routing_encode m = Ok (frame_bytes m)"
proof -
  have "routing_body_encode (rg_body m) = Ok (body_type (rg_body m), body_bytes (rg_body m))"
    by (simp add: routing_body_encode_def body_type_def body_bytes_def encode_hello_eq encode_route_advertise_eq
        encode_route_withdraw_eq split: RoutingGctlBody.split)
  moreover have "copy_at ([1, ty, 0, 0] @ replicate 28 0) 4 (to_be 4 t) = Ok (([1, ty, 0, 0] @ to_be 4 t) @ replicate 24 0)"
    for ty and t :: u32
    using copy_zeros[of "[1, ty, 0, 0]" 4 "to_be 4 t" 28] by (simp del: copy_at_Ok)
  moreover have "copy_at (([1, ty, 0, 0] @ to_be 4 t) @ replicate 24 0) 8 (body_bytes b) = Ok (([1, ty, 0, 0] @ to_be 4 t) @ body_bytes b)"
    for ty and t :: u32 and b
    using copy_zeros[of "[1, ty, 0, 0] @ to_be 4 t" 8 "body_bytes b" 24] by (simp del: copy_at_Ok)
  ultimately show ?thesis
    by (simp add: routing_encode_def frame_bytes_def copy_zeros[where pre = "[]", simplified] del: copy_at_Ok)
qed

text \<open>The messages a router may send: identifiers that are not zero, canonical prefixes.\<close>

definition body_wf :: "RoutingGctlBody \<Rightarrow> bool" where
  "body_wf b = (case b of
      RouterHelloB h \<Rightarrow> rh_router_id h \<noteq> 0 \<and> rh_link_id h \<noteq> 0
    | RouterHelloAckB h \<Rightarrow> rh_router_id h \<noteq> 0 \<and> rh_link_id h \<noteq> 0
    | RouteAdvertiseB r \<Rightarrow> ra_advertiser r \<noteq> 0 \<and> prefix_wf (ra_prefix r)
    | RouteWithdrawB r \<Rightarrow> rw_advertiser r \<noteq> 0 \<and> prefix_wf (rw_prefix r))"

lemma gdp_prefix_new_canonical:
  "gdp_prefix_new n len = Ok (Inr p) \<and> network p = n \<longleftrightarrow> p = \<lparr>network = n, prefix_len = len\<rparr> \<and> prefix_wf p"
proof (cases "64 < len")
  case True
  then show ?thesis by (auto simp: gdp_prefix_new_def prefix_wf_def)
next
  case False
  let ?m = "push_bit (64 - unat len) (- 1) :: u64"
  have "n AND ?m = n \<longleftrightarrow> prefix_wf \<lparr>network = n, prefix_len = len\<rparr>"
    using False unfolding prefix_wf_def
    by (subst bit_eq_iff) (auto simp: bit_simps not_less not_le dest: bit_imp_le_length,
        metis diff_le_self leD less_le_trans)
  then show ?thesis using False by (cases p) (auto simp: gdp_prefix_new_def prefix_mask_eq)
qed

lemma decode_prefix_iff:
  assumes "length body = 24"
  shows "decode_prefix body = Ok p \<longleftrightarrow> prefix_wf p \<and> take 8 (drop 8 body) = to_be 8 (network p) \<and> body ! 16 = prefix_len p"
proof -
  have "decode_prefix body = Ok p \<longleftrightarrow>
      gdp_prefix_new (from_be (take 8 (drop 8 body))) (body ! 16) = Ok (Inr p) \<and> network p = from_be (take 8 (drop 8 body))"
    using assms by (cases "gdp_prefix_new (from_be (take 8 (drop 8 body))) (body ! 16)") (auto simp: decode_prefix_def split: sum.splits)
  moreover have "network p = from_be (take 8 (drop 8 body)) \<longleftrightarrow> take 8 (drop 8 body) = to_be 8 (network p)"
    using assms by auto
  ultimately show ?thesis unfolding gdp_prefix_new_canonical by (cases p) auto
qed

lemma origin_roundtrip: "route_origin_from_wire w = Ok og \<longleftrightarrow> w = route_origin_wire og"
  by (cases og) (auto simp: route_origin_from_wire_def split: if_splits)

lemma from_be_eq_iff: "length b = 8 \<Longrightarrow> from_be b = (v :: u64) \<longleftrightarrow> b = to_be 8 v" "length b = 4 \<Longrightarrow> from_be b = (w :: u32) \<longleftrightarrow> b = to_be 4 w"
  by auto

lemma list_split: "n \<le> length xs \<Longrightarrow> xs = take n xs @ drop n xs"
  by simp

lemma decode_hello_iff: "decode_hello body = Ok h \<longleftrightarrow> body = hello_bytes h \<and> rh_router_id h \<noteq> 0 \<and> rh_link_id h \<noteq> 0"
proof (cases "length body = 24")
  case True
  let ?a = "take 8 body" and ?b = "take 8 (drop 8 body)" and ?c = "take 4 (drop 16 body)" and ?d = "take 4 (drop 20 body)"
  have l: "length ?a = 8" "length ?b = 8" "length ?c = 4" "length ?d = 4" using True by simp_all
  have "body = ?a @ ?b @ ?c @ ?d"
    using True by (simp flip: append_assoc take_add add: )
  then have "body = hello_bytes h \<longleftrightarrow> ?a @ ?b @ ?c @ ?d = hello_bytes h" by metis
  also have "\<dots> \<longleftrightarrow> ?a = to_be 8 (rh_router_id h) \<and> ?b = to_be 8 (rh_link_id h) \<and> ?c = to_be 4 (rh_hold_time_ms h) \<and> ?d = to_be 4 (rh_metric h)"
    unfolding hello_bytes_def using l by (subst append_eq_append_conv, simp)+ simp
  finally show ?thesis using True l
    by (cases h) (auto simp: decode_hello_def result_simps router_id_new_def link_id_new_def simp flip: from_be_eq_iff split: if_splits)
qed (auto simp: decode_hello_def)

lemma split_fields:
  "length xs = 24 \<Longrightarrow> xs = take 8 xs @ take 8 (drop 8 xs) @ [xs ! 16, xs ! 17, xs ! 18, xs ! 19] @ take 4 (drop 20 xs)"
  "length xs = 24 \<Longrightarrow> xs = take 8 xs @ take 8 (drop 8 xs) @ [xs ! 16] @ take 7 (drop 17 xs)"
  "length xs = 32 \<Longrightarrow> xs = [xs ! 0, xs ! 1, xs ! 2, xs ! 3] @ take 4 (drop 4 xs) @ drop 8 xs"
proof -
  have four: "drop n xs = [xs ! n, xs ! (n + 1), xs ! (n + 2), xs ! (n + 3)] @ drop (n + 4) xs" if "n + 4 \<le> length xs" for n
    using that by (simp add: Cons_nth_drop_Suc[symmetric] numeral_eq_Suc)
  have eight: "xs = take 8 xs @ take 8 (drop 8 xs) @ drop 16 xs"
    by (metis append_take_drop_id drop_drop numeral_Bit0)
  show "length xs = 24 \<Longrightarrow> xs = take 8 xs @ take 8 (drop 8 xs) @ [xs ! 16, xs ! 17, xs ! 18, xs ! 19] @ take 4 (drop 20 xs)"
    using four[of 16] eight by simp
  show "length xs = 24 \<Longrightarrow> xs = take 8 xs @ take 8 (drop 8 xs) @ [xs ! 16] @ take 7 (drop 17 xs)"
    using Cons_nth_drop_Suc[of 16 xs] eight by simp
  show "length xs = 32 \<Longrightarrow> xs = [xs ! 0, xs ! 1, xs ! 2, xs ! 3] @ take 4 (drop 4 xs) @ drop 8 xs"
    using four[of 0] append_take_drop_id[of 4 "drop 4 xs"] by (simp add: numeral_2_eq_2 del: append_take_drop_id)
qed

lemma zeros_iff: "length z = n \<Longrightarrow> z = replicate n 0 \<longleftrightarrow> (\<forall>b \<in> set z. b = 0)"
  by (induction z arbitrary: n) (auto simp: Cons_replicate_eq)

lemma decode_route_advertise_iff:
  "decode_route_advertise body = Ok r \<longleftrightarrow> body = advertise_bytes r \<and> ra_advertiser r \<noteq> 0 \<and> prefix_wf (ra_prefix r)"
proof (cases "length body = 24")
  case True
  let ?a = "take 8 body" and ?b = "take 8 (drop 8 body)" and ?m = "[body ! 16, body ! 17, body ! 18, body ! 19]" and ?d = "take 4 (drop 20 body)"
  have l: "length ?a = 8" "length ?b = 8" "length ?d = 4" using True by simp_all
  have "body = ?a @ ?b @ ?m @ ?d"
    using split_fields True by blast
  then have "body = advertise_bytes r \<longleftrightarrow> ?a @ ?b @ ?m @ ?d = advertise_bytes r" by metis
  also have "\<dots> \<longleftrightarrow> ?a = to_be 8 (ra_advertiser r) \<and> ?b = to_be 8 (network (ra_prefix r)) \<and>
      body ! 16 = prefix_len (ra_prefix r) \<and> body ! 17 = route_origin_wire (ra_origin r) \<and> body ! 18 = 0 \<and> body ! 19 = 0 \<and>
      ?d = to_be 4 (ra_metric r)"
    unfolding advertise_bytes_def using l by (subst append_eq_append_conv, simp)+ simp
  finally show ?thesis using True l
    by (cases r) (auto simp: decode_route_advertise_def result_simps router_id_new_def origin_roundtrip decode_prefix_iff
        simp flip: from_be_eq_iff split: if_splits)
qed (auto simp: decode_route_advertise_def)

lemma decode_route_withdraw_iff:
  "decode_route_withdraw body = Ok r \<longleftrightarrow> body = withdraw_bytes r \<and> rw_advertiser r \<noteq> 0 \<and> prefix_wf (rw_prefix r)"
proof (cases "length body = 24")
  case True
  let ?a = "take 8 body" and ?b = "take 8 (drop 8 body)" and ?z = "take 7 (drop 17 body)"
  have l: "length ?a = 8" "length ?b = 8" "length ?z = 7" using True by simp_all
  have "body = ?a @ ?b @ [body ! 16] @ ?z"
    using split_fields True by blast
  then have "body = withdraw_bytes r \<longleftrightarrow> ?a @ ?b @ [body ! 16] @ ?z = withdraw_bytes r" by metis
  also have "\<dots> \<longleftrightarrow> ?a = to_be 8 (rw_advertiser r) \<and> ?b = to_be 8 (network (rw_prefix r)) \<and>
      body ! 16 = prefix_len (rw_prefix r) \<and> ?z = replicate 7 0"
    unfolding withdraw_bytes_def using l by (subst append_eq_append_conv, simp)+ simp
  finally have "body = withdraw_bytes r \<longleftrightarrow> ?a = to_be 8 (rw_advertiser r) \<and> ?b = to_be 8 (network (rw_prefix r)) \<and>
      body ! 16 = prefix_len (rw_prefix r) \<and> ?z = replicate 7 0" .
  moreover have "?z = replicate 7 0 \<longleftrightarrow> (\<forall>b \<in> set ?z. b = 0)"
    using l(3) by (rule zeros_iff)
  ultimately show ?thesis using True l
    by (cases r) (auto simp: decode_route_withdraw_def result_simps router_id_new_def decode_prefix_iff list_ex_iff
        simp flip: from_be_eq_iff split: if_splits)
qed (auto simp: decode_route_withdraw_def)

lemma routing_decode_iff: "routing_decode buf = Ok m \<longleftrightarrow> buf = frame_bytes m \<and> body_wf (rg_body m)"
proof (cases "length buf = 32")
  case True
  let ?h = "[buf ! 0, buf ! 1, buf ! 2, buf ! 3]" and ?t = "take 4 (drop 4 buf)" and ?b = "drop 8 buf"
  have l: "length ?t = 4" "length ?b = 24" using True by simp_all
  have "buf = ?h @ ?t @ ?b"
    using split_fields True by blast
  then have "buf = frame_bytes m \<longleftrightarrow> ?h @ ?t @ ?b = frame_bytes m" by metis
  also have "\<dots> \<longleftrightarrow> buf ! 0 = 1 \<and> buf ! 1 = body_type (rg_body m) \<and> buf ! 2 = 0 \<and> buf ! 3 = 0 \<and>
      ?t = to_be 4 (rg_transaction_id m) \<and> ?b = body_bytes (rg_body m)"
    unfolding frame_bytes_def using l by (subst append_eq_append_conv, simp)+ simp
  finally have eq: "buf = frame_bytes m \<longleftrightarrow> buf ! 0 = 1 \<and> buf ! 1 = body_type (rg_body m) \<and> buf ! 2 = 0 \<and> buf ! 3 = 0 \<and>
      from_be ?t = rg_transaction_id m \<and> ?b = body_bytes (rg_body m)"
    using l by (simp flip: from_be_eq_iff)
  show ?thesis unfolding eq using True
    by (cases m, cases "rg_body m") (auto simp: routing_decode_def result_simps decode_hello_iff decode_route_advertise_iff
        decode_route_withdraw_iff body_type_def body_bytes_def body_wf_def split: if_splits)
next
  case False
  then show ?thesis by (auto simp: routing_decode_def frame_bytes_def)
qed

section \<open>Properties\<close>

text \<open>The routing control frames are a bijection: encoding never fails and a frame is accepted exactly when it is the
  encoding of a message with non-zero identifiers and a canonical prefix, which is then the message returned.
  Any other byte string, with reserved bytes set, host bits set in a prefix, an unknown type or origin, or
  another length, is rejected.\<close>

theorem routing_frames_bijective:
  "routing_decode buf = Ok m \<longleftrightarrow> routing_encode m = Ok buf \<and> body_wf (rg_body m)"
  unfolding routing_decode_iff routing_encode_eq by auto

end
