(* ===== verification/Btree_Map.thy ===== *)
theory Btree_Map
  imports Gnet_Prelude
begin

text \<open>
  The ordered map of the Rust standard library (alloc::collections::BTreeMap), as far as the sources use it: a list of
  entries in strictly increasing key order, which is what iteration yields. The locale \<open>ordered_map\<close> is the contract the
  components rely on: lookups after an insertion or a removal, and that the entries are the lookups in key order. A set
  (BTreeSet) is a map to unit.
\<close>

section \<open>The entries\<close>

type_synonym ('k, 'v) btree = "('k \<times> 'v) list"

definition bt_get :: "('k, 'v) btree \<Rightarrow> 'k \<Rightarrow> 'v option" where
  "bt_get m k = map_of m k"

fun bt_insert :: "('k :: linorder, 'v) btree \<Rightarrow> 'k \<Rightarrow> 'v \<Rightarrow> ('k, 'v) btree" where
  "bt_insert [] k v = [(k, v)]"
| "bt_insert ((k', v') # m) k v =
    (if k < k' then (k, v) # (k', v') # m else if k = k' then (k, v) # m else (k', v') # bt_insert m k v)"

definition bt_remove :: "('k, 'v) btree \<Rightarrow> 'k \<Rightarrow> ('k, 'v) btree" where
  "bt_remove m k = filter (\<lambda>e. fst e \<noteq> k) m"

definition bt_keys :: "('k, 'v) btree \<Rightarrow> 'k list" where
  "bt_keys m = map fst m"

definition bt_values :: "('k, 'v) btree \<Rightarrow> 'v list" where
  "bt_values m = map snd m"

definition bt_from_keys :: "'k :: linorder list \<Rightarrow> ('k, unit) btree" where
  "bt_from_keys ks = foldl (\<lambda>m k. bt_insert m k ()) [] ks"

definition bt_inv :: "('k :: linorder, 'v) btree \<Rightarrow> bool" where
  "bt_inv m \<longleftrightarrow> sorted_wrt (<) (map fst m)"

section \<open>The contract\<close>

locale ordered_map =
  fixes get :: "'m \<Rightarrow> 'k :: linorder \<Rightarrow> 'v option"
    and ins :: "'m \<Rightarrow> 'k \<Rightarrow> 'v \<Rightarrow> 'm"
    and del :: "'m \<Rightarrow> 'k \<Rightarrow> 'm"
    and entries :: "'m \<Rightarrow> ('k \<times> 'v) list"
    and inv :: "'m \<Rightarrow> bool"
  assumes inv_ins: "inv m \<Longrightarrow> inv (ins m k v)"
    and inv_del: "inv m \<Longrightarrow> inv (del m k)"
    and get_ins: "inv m \<Longrightarrow> get (ins m k v) = (get m)(k \<mapsto> v)"
    and get_del: "inv m \<Longrightarrow> get (del m k) = (get m)(k := None)"
    and entries_sorted: "inv m \<Longrightarrow> sorted_wrt (<) (map fst (entries m))"
    and entries_get: "inv m \<Longrightarrow> (k, v) \<in> set (entries m) \<longleftrightarrow> get m k = Some v"
begin

lemma keys_distinct: "inv m \<Longrightarrow> distinct (map fst (entries m))"
  using entries_sorted strict_sorted_iff by blast

lemma keys_dom: "inv m \<Longrightarrow> set (map fst (entries m)) = dom (get m)"
proof (rule set_eqI)
  fix k
  assume "inv m"
  have "k \<in> set (map fst (entries m)) \<longleftrightarrow> (\<exists>v. (k, v) \<in> set (entries m))" by force
  then show "k \<in> set (map fst (entries m)) \<longleftrightarrow> k \<in> dom (get m)" using entries_get[OF \<open>inv m\<close>] by (simp add: domIff)
qed

text \<open>The entries are determined by the lookups.\<close>

lemma entries_eq_keys: "inv m \<Longrightarrow> entries m = map (\<lambda>k. (k, the (get m k))) (map fst (entries m))"
  unfolding map_map by (rule map_idI[symmetric]) (auto simp: entries_get)

lemma entries_unique: "inv m \<Longrightarrow> inv n \<Longrightarrow> get m = get n \<Longrightarrow> entries m = entries n"
  using entries_eq_keys[of m] entries_eq_keys[of n] entries_sorted[of m] entries_sorted[of n] keys_dom[of m] keys_dom[of n]
    strict_sorted_equal by metis

text \<open>Inserting a list of entries in order leaves the last value of each key.\<close>

lemma inv_fold_ins: "inv m \<Longrightarrow> inv (foldl (\<lambda>m (k, v). ins m k v) m kvs)"
  by (induction kvs arbitrary: m) (auto simp: inv_ins)

lemma get_fold_ins: "inv m \<Longrightarrow> get (foldl (\<lambda>m (k, v). ins m k v) m kvs) = get m ++ map_of (rev kvs)"
  by (induction kvs arbitrary: m) (auto simp: inv_ins get_ins map_add_assoc)

end

section \<open>The sorted list meets it\<close>

lemma bt_insert_keys: "set (map fst (bt_insert m k v)) = insert k (set (map fst m))"
  by (induction m k v rule: bt_insert.induct) auto

lemma bt_insert_inv: "bt_inv m \<Longrightarrow> bt_inv (bt_insert m k v)"
proof (induction m k v rule: bt_insert.induct)
  case (2 k' v' m k v)
  then show ?case using bt_insert_keys[of m k v] by (auto simp: bt_inv_def)
qed (simp add: bt_inv_def)

lemma bt_get_insert: "bt_inv m \<Longrightarrow> bt_get (bt_insert m k v) = (bt_get m)(k \<mapsto> v)"
proof (induction m k v rule: bt_insert.induct)
  case (2 k' v' m k v)
  then show ?case by (auto simp: bt_inv_def bt_get_def fun_eq_iff)
qed (simp add: bt_get_def fun_eq_iff)

lemma bt_inv_Nil [simp]: "bt_inv []"
  by (simp add: bt_inv_def)

lemma bt_empty: "(\<And>k. bt_get m k = None) \<Longrightarrow> m = []"
proof (cases m)
  case (Cons e es)
  moreover assume "\<And>k. bt_get m k = None"
  then have "bt_get m (fst e) = None" .
  ultimately show "m = []" by (cases e) (simp add: bt_get_def)
qed

interpretation bt: ordered_map bt_get bt_insert bt_remove "\<lambda>m. m" bt_inv
proof
  fix m :: "('k :: linorder, 'v) btree" and k v
  assume m: "bt_inv m"
  then have d: "distinct (map fst m)" by (simp add: bt_inv_def strict_sorted_iff)
  show "bt_inv (bt_insert m k v)" using m by (rule bt_insert_inv)
  show "bt_inv (bt_remove m k)" using m by (induction m) (auto simp: bt_inv_def bt_remove_def)
  show "bt_get (bt_insert m k v) = (bt_get m)(k \<mapsto> v)" using m by (rule bt_get_insert)
  show "bt_get (bt_remove m k) = (bt_get m)(k := None)"
    by (induction m) (auto simp: bt_get_def bt_remove_def fun_eq_iff)
  show "sorted_wrt (<) (map fst m)" using m by (simp add: bt_inv_def)
  show "(k, v) \<in> set m \<longleftrightarrow> bt_get m k = Some v" using d by (simp add: bt_get_def)
qed

text \<open>Collecting keys into a set and iterating yields them sorted and without duplicates.\<close>

lemma bt_from_keys_inv: "bt_inv (bt_from_keys ks)"
proof -
  have "bt_inv m \<Longrightarrow> bt_inv (foldl (\<lambda>m k. bt_insert m k ()) m ks)" for m
    by (induction ks arbitrary: m) (auto simp: bt_insert_inv)
  then show ?thesis by (simp add: bt_from_keys_def)
qed

lemma bt_from_keys_set: "set (bt_keys (bt_from_keys ks)) = set ks"
proof -
  have "set (map fst (foldl (\<lambda>m k. bt_insert m k ()) m ks)) = set (map fst m) \<union> set ks" for m
    by (induction ks arbitrary: m) (auto simp: bt_insert_keys simp del: set_map)
  then show ?thesis by (simp add: bt_from_keys_def bt_keys_def)
qed

lemma bt_from_keys_sorted: "sorted_wrt (<) (bt_keys (bt_from_keys ks))" "distinct (bt_keys (bt_from_keys ks))"
  using bt.entries_sorted[OF bt_from_keys_inv[of ks]] bt.keys_distinct[OF bt_from_keys_inv[of ks]]
  by (simp_all add: bt_keys_def)

end
