(* ===== verification/Router_Rib.thy ===== *)
theory Router_Rib
  imports Dynamic_Routing Btree_Map "HOL-Library.Option_ord"
begin

text \<open>
  The routing information base, src/src/router_rib.rs: connected, static and learned routes, the selection of one
  route per prefix, and the advertisements and withdrawals a router sends to a neighbour. The lemmas show that the
  stored routes never hold two candidates that selection could not tell apart, that selection is the optimum of
  a strict order, and that the updates a router emits bring a neighbour's copy in line with the router's selection.
\<close>

section \<open>The order on prefixes\<close>

text \<open>The derived order: network address first, then prefix length.\<close>

instantiation GdpPrefix_ext :: (linorder) linorder
begin

definition less_eq_GdpPrefix_ext :: "'a GdpPrefix_scheme \<Rightarrow> 'a GdpPrefix_scheme \<Rightarrow> bool" where
  "less_eq_GdpPrefix_ext p q \<longleftrightarrow> network p < network q \<or> network p = network q \<and>
    (prefix_len p < prefix_len q \<or> prefix_len p = prefix_len q \<and> GdpPrefix.more p \<le> GdpPrefix.more q)"

definition less_GdpPrefix_ext :: "'a GdpPrefix_scheme \<Rightarrow> 'a GdpPrefix_scheme \<Rightarrow> bool" where
  "less_GdpPrefix_ext p q \<longleftrightarrow> p \<le> q \<and> \<not> q \<le> p"

instance
proof
  fix x y z :: "'a GdpPrefix_scheme"
  show "(x < y) = (x \<le> y \<and> \<not> y \<le> x)" by (simp add: less_GdpPrefix_ext_def)
  show "x \<le> x" by (simp add: less_eq_GdpPrefix_ext_def)
  show "x \<le> y \<Longrightarrow> y \<le> z \<Longrightarrow> x \<le> z" unfolding less_eq_GdpPrefix_ext_def by (auto intro: less_trans order.trans)
  show "x \<le> y \<Longrightarrow> y \<le> x \<Longrightarrow> x = y" unfolding less_eq_GdpPrefix_ext_def by (cases x; cases y) auto
  show "x \<le> y \<or> y \<le> x" unfolding less_eq_GdpPrefix_ext_def by (auto simp: not_less)
qed

end

section \<open>Routes\<close>

type_synonym RoutingPortId = u16

record RibRoute =
  rr_prefix :: GdpPrefix
  rr_egress_port :: RoutingPortId
  rr_origin :: RouteOrigin
  rr_metric :: RouteMetric
  rr_learned_from :: "RouterId option"

record SelectedRoute =
  sr_prefix :: GdpPrefix
  sr_egress_port :: RoutingPortId
  sr_origin :: RouteOrigin
  sr_metric :: RouteMetric
  sr_learned_from :: "RouterId option"

datatype RouteUpdate = UAdvertise RouteAdvertise | UWithdraw RouteWithdraw

record RouterRib =
  rib_local_router_id :: RouterId
  rib_routes :: "RibRoute list"

definition rib_new :: "RouterId \<Rightarrow> RouterRib" where
  "rib_new i = \<lparr>rib_local_router_id = i, rib_routes = []\<rparr>"

definition selected_from :: "RibRoute \<Rightarrow> SelectedRoute" where
  "selected_from r = \<lparr>sr_prefix = rr_prefix r, sr_egress_port = rr_egress_port r, sr_origin = rr_origin r,
     sr_metric = rr_metric r, sr_learned_from = rr_learned_from r\<rparr>"

definition route_better :: "RibRoute \<Rightarrow> RibRoute \<Rightarrow> bool" where
  "route_better candidate current =
    (let cp = administrative_preference (rr_origin candidate); up = administrative_preference (rr_origin current) in
     if cp \<noteq> up then cp < up
     else if rr_metric candidate \<noteq> rr_metric current then rr_metric candidate < rr_metric current
     else case (rr_learned_from candidate, rr_learned_from current) of
       (Some c, Some u) \<Rightarrow> c < u
     | (None, Some _) \<Rightarrow> True
     | _ \<Rightarrow> False)"

definition route_is_advertisable_to :: "SelectedRoute \<Rightarrow> RouterId \<Rightarrow> bool" where
  "route_is_advertisable_to r neighbor = (case sr_origin r of
      Connected \<Rightarrow> True
    | Learned \<Rightarrow> sr_learned_from r \<noteq> Some neighbor
    | Static \<Rightarrow> False
    | Escape \<Rightarrow> False)"

section \<open>Changing the base\<close>

text \<open>\<open>iter_mut().find\<close> then assignment, or \<open>push\<close> when nothing matches.\<close>

fun upsert :: "('a \<Rightarrow> bool) \<Rightarrow> 'a \<Rightarrow> 'a list \<Rightarrow> 'a list" where
  "upsert P r [] = [r]"
| "upsert P r (x # xs) = (if P x then r # xs else x # upsert P r xs)"

definition upsert_local :: "RouterRib \<Rightarrow> RibRoute \<Rightarrow> RouterRib" where
  "upsert_local rib route = rib\<lparr>rib_routes := upsert (\<lambda>e. rr_prefix e = rr_prefix route \<and> rr_origin e = rr_origin route
     \<and> rr_learned_from e = None) route (rib_routes rib)\<rparr>"

definition add_connected :: "RouterRib \<Rightarrow> GdpPrefix \<Rightarrow> RoutingPortId \<Rightarrow> RouterRib" where
  "add_connected rib prefix port = upsert_local rib
     \<lparr>rr_prefix = prefix, rr_egress_port = port, rr_origin = Connected, rr_metric = 0, rr_learned_from = None\<rparr>"

definition add_static :: "RouterRib \<Rightarrow> GdpPrefix \<Rightarrow> RoutingPortId \<Rightarrow> RouteMetric \<Rightarrow> RouterRib" where
  "add_static rib prefix port metric = upsert_local rib
     \<lparr>rr_prefix = prefix, rr_egress_port = port, rr_origin = Static, rr_metric = metric, rr_learned_from = None\<rparr>"

definition is_learned :: "GdpPrefix \<Rightarrow> RouterId \<Rightarrow> RibRoute \<Rightarrow> bool" where
  "is_learned prefix from r \<longleftrightarrow> rr_prefix r = prefix \<and> rr_origin r = Learned \<and> rr_learned_from r = Some from"

definition receive_advertisement :: "RouterRib \<Rightarrow> RouterId \<Rightarrow> RoutingPortId \<Rightarrow> RouteAdvertise \<Rightarrow> (RouterRib, unit) outcome" where
  "receive_advertisement rib from port a =
    (if from = rib_local_router_id rib \<or> ra_advertiser a \<noteq> from \<or> ra_origin a \<in> {Static, Escape} then (Err InvalidField, rib)
     else let route = \<lparr>rr_prefix = ra_prefix a, rr_egress_port = port, rr_origin = Learned, rr_metric = ra_metric a,
                       rr_learned_from = Some from\<rparr> in
       (Ok (), rib\<lparr>rib_routes := upsert (is_learned (ra_prefix a) from) route (rib_routes rib)\<rparr>))"

definition receive_withdrawal :: "RouterRib \<Rightarrow> RouterId \<Rightarrow> RouteWithdraw \<Rightarrow> (RouterRib, bool) outcome" where
  "receive_withdrawal rib from w =
    (if from = rib_local_router_id rib \<or> rw_advertiser w \<noteq> from then (Err InvalidField, rib)
     else let routes = filter (\<lambda>r. \<not> is_learned (rw_prefix w) from r) (rib_routes rib) in
       (Ok (length routes \<noteq> length (rib_routes rib)), rib\<lparr>rib_routes := routes\<rparr>))"

definition remove_learned_from :: "RouterRib \<Rightarrow> RouterId \<Rightarrow> GdpPrefix list \<times> RouterRib" where
  "remove_learned_from rib neighbor =
    (let remove = (\<lambda>r. rr_origin r = Learned \<and> rr_learned_from r = Some neighbor) in
     (bt_keys (bt_from_keys (map rr_prefix (filter remove (rib_routes rib)))),
      rib\<lparr>rib_routes := filter (\<lambda>r. \<not> remove r) (rib_routes rib)\<rparr>))"

section \<open>Selection and advertisement\<close>

definition winners_step :: "(GdpPrefix, RibRoute) btree \<Rightarrow> RibRoute \<Rightarrow> (GdpPrefix, RibRoute) btree" where
  "winners_step winners route = (case bt_get winners (rr_prefix route) of
      None \<Rightarrow> bt_insert winners (rr_prefix route) route
    | Some current \<Rightarrow> if route_better route current then bt_insert winners (rr_prefix route) route else winners)"

definition selected_routes :: "RouterRib \<Rightarrow> SelectedRoute list" where
  "selected_routes rib = map selected_from (bt_values (foldl winners_step [] (rib_routes rib)))"

definition learned_fib :: "RouterRib \<Rightarrow> SelectedRoute list" where
  "learned_fib rib = filter (\<lambda>r. sr_origin r = Learned) (selected_routes rib)"

definition reduce :: "('a \<Rightarrow> 'a \<Rightarrow> 'a) \<Rightarrow> 'a list \<Rightarrow> 'a option" where
  "reduce f xs = (case xs of [] \<Rightarrow> None | x # xs \<Rightarrow> Some (foldl f x xs))"

definition selected_for_prefix :: "RouterRib \<Rightarrow> GdpPrefix \<Rightarrow> SelectedRoute option" where
  "selected_for_prefix rib prefix = map_option selected_from
    (reduce (\<lambda>current candidate. if route_better candidate current then candidate else current)
      (filter (\<lambda>r. rr_prefix r = prefix) (rib_routes rib)))"

definition advertisement :: "RouterRib \<Rightarrow> SelectedRoute \<Rightarrow> RouteMetric \<Rightarrow> RouteAdvertise" where
  "advertisement rib r outgoing = \<lparr>ra_advertiser = rib_local_router_id rib, ra_prefix = sr_prefix r, ra_origin = sr_origin r,
     ra_metric = metric_saturating_add (sr_metric r) outgoing\<rparr>"

definition advertisements_for :: "RouterRib \<Rightarrow> RouterId \<Rightarrow> RouteMetric \<Rightarrow> RouteAdvertise list" where
  "advertisements_for rib neighbor outgoing =
    map (\<lambda>r. advertisement rib r outgoing) (filter (\<lambda>r. route_is_advertisable_to r neighbor) (selected_routes rib))"

definition update_for :: "RouterRib \<Rightarrow> RouterId \<Rightarrow> RouteMetric \<Rightarrow> GdpPrefix \<Rightarrow> RouteUpdate" where
  "update_for rib neighbor outgoing prefix =
    (let withdraw = UWithdraw \<lparr>rw_advertiser = rib_local_router_id rib, rw_prefix = prefix\<rparr> in
     case selected_for_prefix rib prefix of
       Some route \<Rightarrow> if route_is_advertisable_to route neighbor then UAdvertise (advertisement rib route outgoing) else withdraw
     | None \<Rightarrow> withdraw)"

definition updates_for :: "RouterRib \<Rightarrow> RouterId \<Rightarrow> RouteMetric \<Rightarrow> GdpPrefix list \<Rightarrow> RouteUpdate list" where
  "updates_for rib neighbor outgoing changed = map (update_for rib neighbor outgoing) (bt_keys (bt_from_keys changed))"

section \<open>The selection order\<close>

definition route_rank :: "RibRoute \<Rightarrow> u8 \<times> u32 \<times> RouterId option" where
  "route_rank r = (administrative_preference (rr_origin r), rr_metric r, rr_learned_from r)"

fun rank_less :: "u8 \<times> u32 \<times> RouterId option \<Rightarrow> u8 \<times> u32 \<times> RouterId option \<Rightarrow> bool" where
  "rank_less (a, b, c) (a', b', c') \<longleftrightarrow> a < a' \<or> a = a' \<and> (b < b' \<or> b = b' \<and> c < c')"

lemma route_better_rank: "route_better r s \<longleftrightarrow> rank_less (route_rank r) (route_rank s)"
  by (auto simp: route_better_def route_rank_def Let_def split: option.splits)

lemma route_better_trans: "route_better r s \<Longrightarrow> route_better s t \<Longrightarrow> route_better r t"
  unfolding route_better_rank by (cases "route_rank r"; cases "route_rank s"; cases "route_rank t") auto

lemma route_better_neg_trans: "\<not> route_better r s \<Longrightarrow> \<not> route_better s t \<Longrightarrow> \<not> route_better r t"
  unfolding route_better_rank by (cases "route_rank r"; cases "route_rank s"; cases "route_rank t") auto

lemma route_better_irrefl: "\<not> route_better r r"
  unfolding route_better_rank by (cases "route_rank r") auto

lemma route_better_ties:
  "\<not> route_better r s \<Longrightarrow> \<not> route_better s r \<Longrightarrow> rr_origin r = rr_origin s \<and> rr_metric r = rr_metric s \<and> rr_learned_from r = rr_learned_from s"
  unfolding route_better_rank by (cases "rr_origin r"; cases "rr_origin s") (auto simp: route_rank_def)

section \<open>The base as a map from keys\<close>

text \<open>A route is identified by its prefix, its origin and the neighbour it was learned from.\<close>

definition route_key :: "RibRoute \<Rightarrow> GdpPrefix \<times> RouteOrigin \<times> RouterId option" where
  "route_key r = (rr_prefix r, rr_origin r, rr_learned_from r)"

definition rib_inv :: "RouterRib \<Rightarrow> bool" where
  "rib_inv rib \<longleftrightarrow> distinct (map route_key (rib_routes rib)) \<and>
    (\<forall>r \<in> set (rib_routes rib). rr_learned_from r = None \<longleftrightarrow> rr_origin r \<noteq> Learned)"

definition rib_find :: "RouterRib \<Rightarrow> GdpPrefix \<times> RouteOrigin \<times> RouterId option \<Rightarrow> RibRoute option" where
  "rib_find rib q = List.find (\<lambda>r. route_key r = q) (rib_routes rib)"

lemma find_upsert: "List.find (\<lambda>e. k e = q) (upsert (\<lambda>e. k e = k r) r xs) = (if q = k r then Some r else List.find (\<lambda>e. k e = q) xs)"
  by (induction xs) auto

lemma upsert_keys: "set (map k (upsert (\<lambda>e. k e = k r) r xs)) = insert (k r) (set (map k xs))"
  by (induction xs) auto

lemma upsert_distinct: "distinct (map k xs) \<Longrightarrow> distinct (map k (upsert (\<lambda>e. k e = k r) r xs))"
  using upsert_keys[of k r] by (induction xs) (auto simp del: set_map simp: image_set)

lemma upsert_subset: "set (upsert P r xs) \<subseteq> insert r (set xs)"
  by (induction xs) auto

lemma find_filter_key: "List.find (\<lambda>e. k e = q) (filter (\<lambda>e. \<not> P (k e)) xs) = (if P q then None else List.find (\<lambda>e. k e = q) xs)"
  by (induction xs) auto

lemma rib_inv_upsert:
  assumes "rib_inv rib" "rr_learned_from r = None \<longleftrightarrow> rr_origin r \<noteq> Learned"
  shows "rib_inv (rib\<lparr>rib_routes := upsert (\<lambda>e. route_key e = route_key r) r (rib_routes rib)\<rparr>)"
  using assms upsert_distinct[of route_key "rib_routes rib" r] upsert_subset[of _ r "rib_routes rib"]
  by (fastforce simp: rib_inv_def)

lemma rib_inv_filter: "rib_inv rib \<Longrightarrow> rib_inv (rib\<lparr>rib_routes := filter P (rib_routes rib)\<rparr>)"
  by (auto simp: rib_inv_def distinct_map_filter)

lemma is_learned_key: "is_learned p n = (\<lambda>r. route_key r = (p, Learned, Some n))"
  by (auto simp: is_learned_def route_key_def fun_eq_iff)

lemma upsert_local_key: "upsert_local rib r = rib\<lparr>rib_routes := upsert (\<lambda>e. route_key e = route_key r) r (rib_routes rib)\<rparr>"
  if "rr_learned_from r = None"
proof -
  have "(\<lambda>e. rr_prefix e = rr_prefix r \<and> rr_origin e = rr_origin r \<and> rr_learned_from e = None) = (\<lambda>e. route_key e = route_key r)"
    using that by (auto simp: route_key_def fun_eq_iff)
  then show ?thesis by (simp add: upsert_local_def)
qed

lemma rib_new_inv: "rib_inv (rib_new i)"
  by (simp add: rib_inv_def rib_new_def)

lemma add_local_inv: "rib_inv rib \<Longrightarrow> rib_inv (add_connected rib p port)" "rib_inv rib \<Longrightarrow> rib_inv (add_static rib p port m)"
  by (simp_all add: add_connected_def add_static_def upsert_local_key rib_inv_upsert)

lemma receive_advertisement_effect:
  assumes "receive_advertisement rib from port a = (Ok (), rib')"
  shows "rib_find rib' = (rib_find rib)((ra_prefix a, Learned, Some from) \<mapsto>
      \<lparr>rr_prefix = ra_prefix a, rr_egress_port = port, rr_origin = Learned, rr_metric = ra_metric a, rr_learned_from = Some from\<rparr>)"
    and "rib_inv rib \<Longrightarrow> rib_inv rib'" and "rib_local_router_id rib' = rib_local_router_id rib"
proof -
  let ?r = "\<lparr>rr_prefix = ra_prefix a, rr_egress_port = port, rr_origin = Learned, rr_metric = ra_metric a, rr_learned_from = Some from\<rparr>"
  have k: "route_key ?r = (ra_prefix a, Learned, Some from)" by (simp add: route_key_def)
  have r: "rib' = rib\<lparr>rib_routes := upsert (\<lambda>e. route_key e = route_key ?r) ?r (rib_routes rib)\<rparr>"
    using assms unfolding receive_advertisement_def is_learned_key k[symmetric] by (auto simp: Let_def split: if_splits)
  show "rib_find rib' = (rib_find rib)((ra_prefix a, Learned, Some from) \<mapsto> ?r)"
    unfolding r k[symmetric] by (simp add: rib_find_def find_upsert fun_eq_iff)
  show "rib_inv rib \<Longrightarrow> rib_inv rib'" unfolding r by (rule rib_inv_upsert) simp_all
  show "rib_local_router_id rib' = rib_local_router_id rib" by (simp add: r)
qed

lemma receive_withdrawal_effect:
  assumes "receive_withdrawal rib from w = (Ok b, rib')"
  shows "rib_find rib' = (rib_find rib)((rw_prefix w, Learned, Some from) := None)"
    and "rib_inv rib \<Longrightarrow> rib_inv rib'" and "rib_local_router_id rib' = rib_local_router_id rib"
proof -
  have r: "rib' = rib\<lparr>rib_routes := filter (\<lambda>r. \<not> route_key r = (rw_prefix w, Learned, Some from)) (rib_routes rib)\<rparr>"
    using assms by (auto simp: receive_withdrawal_def is_learned_key Let_def split: if_splits)
  show "rib_find rib' = (rib_find rib)((rw_prefix w, Learned, Some from) := None)"
    using find_filter_key[of route_key _ "\<lambda>q. q = (rw_prefix w, Learned, Some from)" "rib_routes rib"]
    by (simp add: r rib_find_def fun_eq_iff)
  show "rib_inv rib \<Longrightarrow> rib_inv rib'" unfolding r by (rule rib_inv_filter)
  show "rib_local_router_id rib' = rib_local_router_id rib" by (simp add: r)
qed

section \<open>Selection is the optimum\<close>

abbreviation pick :: "RibRoute \<Rightarrow> RibRoute \<Rightarrow> RibRoute" where
  "pick \<equiv> \<lambda>current candidate. if route_better candidate current then candidate else current"

lemma foldl_pick:
  "foldl pick x xs \<in> insert x (set xs) \<and> (\<forall>c \<in> insert x (set xs). \<not> route_better c (foldl pick x xs))"
proof (induction xs arbitrary: x)
  case (Cons y ys)
  let ?b = "foldl pick (pick x y) ys"
  from Cons[of "pick x y"] have b: "?b \<in> insert (pick x y) (set ys)" "\<forall>c \<in> insert (pick x y) (set ys). \<not> route_better c ?b" by auto
  have "\<not> route_better x (pick x y)" "\<not> route_better y (pick x y)"
    using route_better_irrefl route_better_trans by auto
  then have "\<not> route_better x ?b" "\<not> route_better y ?b" using b(2) route_better_neg_trans by blast+
  then show ?case using b by auto
qed (simp add: route_better_irrefl)

definition best_route :: "RibRoute list \<Rightarrow> GdpPrefix \<Rightarrow> RibRoute option" where
  "best_route rs p = reduce pick (filter (\<lambda>r. rr_prefix r = p) rs)"

lemma best_route_None: "best_route rs p = None \<longleftrightarrow> (\<forall>r \<in> set rs. rr_prefix r \<noteq> p)"
proof -
  have "best_route rs p = None \<longleftrightarrow> filter (\<lambda>r. rr_prefix r = p) rs = []"
    by (auto simp: best_route_def reduce_def split: list.split)
  then show ?thesis by (simp add: filter_empty_conv)
qed

lemma best_route_Some:
  assumes "best_route rs p = Some r"
  shows "r \<in> set rs \<and> rr_prefix r = p \<and> (\<forall>c \<in> set rs. rr_prefix c = p \<longrightarrow> \<not> route_better c r)"
proof -
  obtain x xs where e: "filter (\<lambda>r. rr_prefix r = p) rs = x # xs" and r: "r = foldl pick x xs"
    using assms by (auto simp: best_route_def reduce_def split: list.splits)
  have "set (x # xs) = {r \<in> set rs. rr_prefix r = p}" unfolding e[symmetric] by auto
  then show ?thesis using foldl_pick[of x xs] unfolding r[symmetric] by auto
qed

lemma winners_fold:
  "bt_inv m \<Longrightarrow> bt_inv (foldl winners_step m rs) \<and>
    bt_get (foldl winners_step m rs) p = (case bt_get m p of
      None \<Rightarrow> best_route rs p | Some x \<Rightarrow> Some (foldl pick x (filter (\<lambda>r. rr_prefix r = p) rs)))"
proof (induction rs arbitrary: m)
  case (Cons r rs)
  have m: "bt_inv (winners_step m r)" using Cons.prems by (simp add: winners_step_def bt.inv_ins split: option.split)
  show ?case using Cons.IH[OF m] Cons.prems
    by (auto simp: winners_step_def bt.get_ins best_route_def reduce_def split: option.splits)
qed (simp add: best_route_def reduce_def split: option.split)

lemma selected_routes_spec:
  "sorted_wrt (<) (map sr_prefix (selected_routes rib))"
  "set (selected_routes rib) = {s. \<exists>r p. best_route (rib_routes rib) p = Some r \<and> s = selected_from r}"
proof -
  let ?w = "foldl winners_step [] (rib_routes rib)"
  have i: "bt_inv ?w" and g: "bt_get ?w p = best_route (rib_routes rib) p" for p
    using winners_fold[of "[]" "rib_routes rib" p] by (simp_all add: bt_get_def)
  have e: "(p, r) \<in> set ?w \<longleftrightarrow> best_route (rib_routes rib) p = Some r" for p r
    using bt.entries_get[OF i] g by simp
  have "map sr_prefix (selected_routes rib) = map fst ?w"
    by (auto simp: selected_routes_def bt_values_def selected_from_def e dest!: best_route_Some)
  then show "sorted_wrt (<) (map sr_prefix (selected_routes rib))" using bt.entries_sorted[OF i] by simp
  show "set (selected_routes rib) = {s. \<exists>r p. best_route (rib_routes rib) p = Some r \<and> s = selected_from r}"
    using e by (force simp: selected_routes_def bt_values_def)
qed

lemma selected_for_prefix_best: "selected_for_prefix rib p = map_option selected_from (best_route (rib_routes rib) p)"
  by (simp add: selected_for_prefix_def best_route_def)

text \<open>Without two routes of one key, no two routes of one prefix tie.\<close>

lemma best_route_strict:
  assumes "rib_inv rib" "r \<in> set (rib_routes rib)"
  shows "best_route (rib_routes rib) (rr_prefix r) = Some r \<longleftrightarrow>
    (\<forall>c \<in> set (rib_routes rib). rr_prefix c = rr_prefix r \<and> c \<noteq> r \<longrightarrow> route_better r c)"
proof -
  have inj: "inj_on route_key (set (rib_routes rib))" using assms(1) by (simp add: rib_inv_def distinct_map)
  have strict: "route_better b c" if "b \<in> set (rib_routes rib)" "c \<in> set (rib_routes rib)" "rr_prefix c = rr_prefix b" "c \<noteq> b"
      "\<not> route_better c b" for b c
    using route_better_ties[of b c] inj_onD[OF inj, of b c] that by (auto simp: route_key_def)
  obtain b where b: "best_route (rib_routes rib) (rr_prefix r) = Some b"
    using best_route_None[of "rib_routes rib" "rr_prefix r"] assms(2) by (cases "best_route (rib_routes rib) (rr_prefix r)") auto
  note o = best_route_Some[OF b]
  show ?thesis
  proof
    assume "best_route (rib_routes rib) (rr_prefix r) = Some r"
    then show "\<forall>c \<in> set (rib_routes rib). rr_prefix c = rr_prefix r \<and> c \<noteq> r \<longrightarrow> route_better r c"
      using o b strict by auto
  next
    assume "\<forall>c \<in> set (rib_routes rib). rr_prefix c = rr_prefix r \<and> c \<noteq> r \<longrightarrow> route_better r c"
    then have "b = r" using o assms(2) by metis
    then show "best_route (rib_routes rib) (rr_prefix r) = Some r" using b by simp
  qed
qed

section \<open>Keeping a neighbour up to date\<close>

text \<open>A neighbour processes a router's updates one by one, as the router's control path does.\<close>

definition receive_update :: "RouterRib \<Rightarrow> RouterId \<Rightarrow> RoutingPortId \<Rightarrow> RouteUpdate \<Rightarrow> (RouterRib, unit) outcome" where
  "receive_update rib from port u = (case u of
      UAdvertise a \<Rightarrow> receive_advertisement rib from port a
    | UWithdraw w \<Rightarrow> sbind (receive_withdrawal rib from w) (\<lambda>_ rib. (Ok (), rib)))"

fun receive_updates :: "RouterRib \<Rightarrow> RouterId \<Rightarrow> RoutingPortId \<Rightarrow> RouteUpdate list \<Rightarrow> (RouterRib, unit) outcome" where
  "receive_updates rib from port [] = (Ok (), rib)"
| "receive_updates rib from port (u # us) = sbind (receive_update rib from port u) (\<lambda>_ rib. receive_updates rib from port us)"

text \<open>What the neighbour should hold for a prefix.\<close>

definition wanted_copy :: "RouterRib \<Rightarrow> RouterId \<Rightarrow> RouteMetric \<Rightarrow> RoutingPortId \<Rightarrow> GdpPrefix \<Rightarrow> RibRoute option" where
  "wanted_copy rib neighbor outgoing port p = (case selected_for_prefix rib p of
      Some s \<Rightarrow> if route_is_advertisable_to s neighbor then
          Some \<lparr>rr_prefix = p, rr_egress_port = port, rr_origin = Learned,
                rr_metric = metric_saturating_add (sr_metric s) outgoing, rr_learned_from = Some (rib_local_router_id rib)\<rparr>
        else None
    | None \<Rightarrow> None)"

lemma selected_for_prefix_prefix: "selected_for_prefix rib p = Some s \<Longrightarrow> sr_prefix s = p"
  by (auto simp: selected_for_prefix_best selected_from_def dest!: best_route_Some)

lemma receive_update_for:
  assumes "rib_local_router_id b \<noteq> rib_local_router_id a"
  shows "\<exists>b'. receive_update b (rib_local_router_id a) port (update_for a n m p) = (Ok (), b') \<and>
    rib_find b' = (rib_find b)((p, Learned, Some (rib_local_router_id a)) := wanted_copy a n m port p) \<and>
    (rib_inv b \<longrightarrow> rib_inv b') \<and> rib_local_router_id b' = rib_local_router_id b"
proof (cases "\<exists>s. selected_for_prefix a p = Some s \<and> route_is_advertisable_to s n")
  case True
  then obtain s where s: "selected_for_prefix a p = Some s" "route_is_advertisable_to s n" by blast
  let ?a = "advertisement a s m"
  have "ra_origin ?a \<notin> {Static, Escape}" "ra_prefix ?a = p"
    using s(2) selected_for_prefix_prefix[OF s(1)] by (auto simp: advertisement_def route_is_advertisable_to_def)
  then obtain b' where b': "receive_advertisement b (rib_local_router_id a) port ?a = (Ok (), b')"
    using assms by (auto simp: receive_advertisement_def advertisement_def Let_def)
  show ?thesis
    using b' receive_advertisement_effect[OF b'] s \<open>ra_prefix ?a = p\<close>
    by (auto simp: receive_update_def update_for_def wanted_copy_def advertisement_def)
next
  case False
  let ?w = "\<lparr>rw_advertiser = rib_local_router_id a, rw_prefix = p\<rparr>"
  obtain c b' where b': "receive_withdrawal b (rib_local_router_id a) ?w = (Ok c, b')"
    using assms by (auto simp: receive_withdrawal_def Let_def)
  have "update_for a n m p = UWithdraw ?w" "wanted_copy a n m port p = None"
    using False by (auto simp: update_for_def wanted_copy_def Let_def split: option.splits)
  then show ?thesis using b' receive_withdrawal_effect[OF b'] by (simp add: receive_update_def)
qed

lemma receive_updates_map:
  assumes "rib_local_router_id b \<noteq> rib_local_router_id a" "rib_inv b"
  shows "\<exists>b'. receive_updates b (rib_local_router_id a) port (map (update_for a n m) ps) = (Ok (), b') \<and> rib_inv b' \<and>
    rib_find b' = (\<lambda>q. case q of (p, og, f) \<Rightarrow>
      if p \<in> set ps \<and> og = Learned \<and> f = Some (rib_local_router_id a) then wanted_copy a n m port p else rib_find b q)"
  using assms
proof (induction ps arbitrary: b)
  case (Cons p ps)
  let ?i = "rib_local_router_id a"
  obtain c where c: "receive_update b ?i port (update_for a n m p) = (Ok (), c)"
    and fc: "rib_find c = (rib_find b)((p, Learned, Some ?i) := wanted_copy a n m port p)"
    and ci: "rib_inv c" "rib_local_router_id c = rib_local_router_id b"
    using receive_update_for[OF Cons.prems(1)] Cons.prems(2) by metis
  obtain d where d: "receive_updates c ?i port (map (update_for a n m) ps) = (Ok (), d)" "rib_inv d"
    and fd: "rib_find d = (\<lambda>q. case q of (p, og, f) \<Rightarrow>
      if p \<in> set ps \<and> og = Learned \<and> f = Some ?i then wanted_copy a n m port p else rib_find c q)"
    using Cons.IH[of c] Cons.prems(1) ci by metis
  show ?case using c d by (auto simp: fd fc fun_eq_iff)
qed (auto simp: fun_eq_iff)

section \<open>Properties\<close>

text \<open>The order of routes, stated apart from the code: connected before static before learned before escape; within an origin
  the smaller metric; within a metric a local route before a learned one and the smaller identifier of the neighbour.\<close>

fun origin_order :: "RouteOrigin \<Rightarrow> nat" where
  "origin_order Connected = 0"
| "origin_order Static = 1"
| "origin_order Learned = 2"
| "origin_order Escape = 3"

definition preferred :: "RibRoute \<Rightarrow> RibRoute \<Rightarrow> bool" where
  "preferred r c \<longleftrightarrow> origin_order (rr_origin r) < origin_order (rr_origin c) \<or>
    rr_origin r = rr_origin c \<and> rr_metric r < rr_metric c \<or>
    rr_origin r = rr_origin c \<and> rr_metric r = rr_metric c \<and> rr_learned_from r = None \<and> rr_learned_from c \<noteq> None \<or>
    rr_origin r = rr_origin c \<and> rr_metric r = rr_metric c \<and> (\<exists>i j. rr_learned_from r = Some i \<and> rr_learned_from c = Some j \<and> i < j)"

lemma route_better_preferred: "route_better r c \<longleftrightarrow> preferred r c"
  by (cases "rr_origin r"; cases "rr_origin c")
    (auto simp: route_better_def preferred_def Let_def split: option.split)

text \<open>C30. Route selection is optimal and deterministic: for every well-formed base (\<open>rib_inv\<close>, kept by all operations) the
  selected routes are listed in strictly increasing prefix order and are exactly the stored routes that come before every
  other stored route for the same prefix: connected before static before learned before escape, then the smaller
  metric, then the smaller identifier of the neighbour.\<close>

theorem rib_selection_optimal:
  assumes "rib_inv rib"
  shows "sorted_wrt (<) (map sr_prefix (selected_routes rib)) \<and>
    set (selected_routes rib) = {selected_from r | r. r \<in> set (rib_routes rib) \<and>
      (\<forall>c \<in> set (rib_routes rib). rr_prefix c = rr_prefix r \<and> c \<noteq> r \<longrightarrow> preferred r c)}"
proof -
  have "(\<exists>p. best_route (rib_routes rib) p = Some r) \<longleftrightarrow> r \<in> set (rib_routes rib) \<and>
      (\<forall>c \<in> set (rib_routes rib). rr_prefix c = rr_prefix r \<and> c \<noteq> r \<longrightarrow> preferred r c)" for r
    using best_route_strict[OF assms, of r] best_route_Some[of "rib_routes rib" _ r] unfolding route_better_preferred[symmetric] by metis
  then show ?thesis using selected_routes_spec[of rib] by auto
qed

theorem rib_selection_optimal_witness:
  "let slow = \<lparr>ra_advertiser = 2, ra_prefix = default_route, ra_origin = Connected, ra_metric = 90\<rparr>;
       fast = \<lparr>ra_advertiser = 3, ra_prefix = default_route, ra_origin = Connected, ra_metric = 20\<rparr>;
       rib = snd (receive_advertisement (snd (receive_advertisement (rib_new 1) 2 5 slow)) 3 6 fast);
       rib' = add_static rib default_route 7 500 in
   length (rib_routes rib') = 3 \<and>
   set (selected_routes rib) = {\<lparr>sr_prefix = default_route, sr_egress_port = 6, sr_origin = Learned, sr_metric = 20, sr_learned_from = Some 3\<rparr>} \<and>
   set (selected_routes rib') = {\<lparr>sr_prefix = default_route, sr_egress_port = 7, sr_origin = Static, sr_metric = 500, sr_learned_from = None\<rparr>}"
proof -
  let ?slow = "\<lparr>ra_advertiser = 2, ra_prefix = default_route, ra_origin = Connected, ra_metric = 90\<rparr>"
  let ?fast = "\<lparr>ra_advertiser = 3, ra_prefix = default_route, ra_origin = Connected, ra_metric = 20\<rparr>"
  let ?rib = "snd (receive_advertisement (snd (receive_advertisement (rib_new 1) 2 5 ?slow)) 3 6 ?fast)"
  have routes: "rib_routes ?rib = [
      \<lparr>rr_prefix = default_route, rr_egress_port = 5, rr_origin = Learned, rr_metric = 90, rr_learned_from = Some 2\<rparr>,
      \<lparr>rr_prefix = default_route, rr_egress_port = 6, rr_origin = Learned, rr_metric = 20, rr_learned_from = Some 3\<rparr>]"
    by (simp add: receive_advertisement_def rib_new_def is_learned_def)
  then have inv: "rib_inv ?rib" by (simp add: rib_inv_def route_key_def)
  note inv' = add_local_inv(2)[OF inv, of default_route 7 500]
  have routes': "rib_routes (add_static ?rib default_route 7 500) = rib_routes ?rib @
      [\<lparr>rr_prefix = default_route, rr_egress_port = 7, rr_origin = Static, rr_metric = 500, rr_learned_from = None\<rparr>]"
    by (simp only: add_static_def upsert_local_def RouterRib.simps routes) simp
  have "set (selected_routes ?rib) =
      {\<lparr>sr_prefix = default_route, sr_egress_port = 6, sr_origin = Learned, sr_metric = 20, sr_learned_from = Some 3\<rparr>}"
    unfolding rib_selection_optimal[OF inv, THEN conjunct2] setcompr_eq_image set_filter[symmetric] routes
    by (simp add: preferred_def selected_from_def)
  moreover have "set (selected_routes (add_static ?rib default_route 7 500)) =
      {\<lparr>sr_prefix = default_route, sr_egress_port = 7, sr_origin = Static, sr_metric = 500, sr_learned_from = None\<rparr>}"
    unfolding rib_selection_optimal[OF inv', THEN conjunct2] setcompr_eq_image set_filter[symmetric] routes' routes
    by (simp add: preferred_def selected_from_def)
  ultimately show ?thesis using routes' routes by (simp add: Let_def)
qed

text \<open>C13. Updates bring a neighbour in line: when a router sends the updates for any list of changed prefixes and the
  neighbour, a router with another identifier, receives them in order, every update is accepted, the neighbour's
  base stays well formed, and afterwards its routes learned from the router for those prefixes are exactly the router's selected
  routes that may be advertised to it, with the outgoing metric added, while every other route is unchanged.\<close>

theorem rib_updates_synchronise:
  assumes "rib_local_router_id b \<noteq> rib_local_router_id a" "rib_inv b"
  shows "\<exists>b'. receive_updates b (rib_local_router_id a) port (updates_for a n m changed) = (Ok (), b') \<and> rib_inv b' \<and>
    (\<forall>p og f. rib_find b' (p, og, f) =
      (if p \<in> set changed \<and> og = Learned \<and> f = Some (rib_local_router_id a) then wanted_copy a n m port p
       else rib_find b (p, og, f)))"
  using receive_updates_map[OF assms, of port n m "bt_keys (bt_from_keys changed)"]
  by (auto simp: updates_for_def bt_from_keys_set)

theorem rib_updates_synchronise_witness:
  "\<exists>b'. receive_updates (rib_new 2) 1 9 (updates_for (add_connected (rib_new 1) default_route 7) 2 100 [default_route]) = (Ok (), b') \<and>
    rib_find b' (default_route, Learned, Some 1) =
      Some \<lparr>rr_prefix = default_route, rr_egress_port = 9, rr_origin = Learned, rr_metric = 100, rr_learned_from = Some 1\<rparr>"
proof -
  let ?a = "add_connected (rib_new 1) default_route 7"
  have a: "rib_local_router_id ?a = 1" by (simp add: add_connected_def upsert_local_def rib_new_def)
  have w: "wanted_copy ?a 2 100 9 default_route =
      Some \<lparr>rr_prefix = default_route, rr_egress_port = 9, rr_origin = Learned, rr_metric = 100, rr_learned_from = Some 1\<rparr>"
    by (simp add: wanted_copy_def selected_for_prefix_def reduce_def add_connected_def upsert_local_def rib_new_def
        selected_from_def route_is_advertisable_to_def metric_saturating_add_def saturating_add_def)
  show ?thesis
    using rib_updates_synchronise[of "rib_new 2" ?a 9 2 100 "[default_route]"] rib_new_inv[of 2] a w by (auto simp: rib_new_def)
qed

end
