(* ===== verification/Router_Adjacency.thy ===== *)
theory Router_Adjacency
  imports Dynamic_Routing
begin

text \<open>
  Router adjacencies, src/src/router_adjacency.rs: a link's neighbour as learned from hellos, its hold timer and
  the hello exchange. The state machine is the step relation \<open>adj_step\<close> over receptions and timer polls; its
  runs are characterised by what was received and when the timer was polled.
\<close>

section \<open>State and operations\<close>

datatype NeighborState = Down | Up

record RouterNeighbor =
  rn_router_id :: RouterId
  rn_remote_link_id :: LinkId
  rn_metric :: RouteMetric
  rn_hold_time_ms :: u32
  rn_last_seen :: Instant
  rn_state :: NeighborState

record RouterAdjacency =
  adj_local_router_id :: RouterId
  adj_local_link_id :: LinkId
  adj_local_metric :: RouteMetric
  adj_local_hold_time_ms :: u32
  adj_neighbor :: "RouterNeighbor option"

definition adj_new :: "RouterId \<Rightarrow> LinkId \<Rightarrow> RouteMetric \<Rightarrow> u32 \<Rightarrow> RouterAdjacency result" where
  "adj_new router link metric hold =
    (if hold = 0 then Err InvalidField
     else Ok \<lparr>adj_local_router_id = router, adj_local_link_id = link, adj_local_metric = metric,
              adj_local_hold_time_ms = hold, adj_neighbor = None\<rparr>)"

definition adj_state :: "RouterAdjacency \<Rightarrow> NeighborState" where
  "adj_state a = (case adj_neighbor a of Some n \<Rightarrow> rn_state n | None \<Rightarrow> Down)"

definition local_hello :: "RouterAdjacency \<Rightarrow> RouterHello" where
  "local_hello a = \<lparr>rh_router_id = adj_local_router_id a, rh_link_id = adj_local_link_id a,
     rh_hold_time_ms = adj_local_hold_time_ms a, rh_metric = adj_local_metric a\<rparr>"

definition adj_hello :: "RouterAdjacency \<Rightarrow> u32 \<Rightarrow> RoutingGctlMessage" where
  "adj_hello a t = router_hello t (local_hello a)"

definition accept_peer :: "RouterAdjacency \<Rightarrow> Instant \<Rightarrow> RouterHello \<Rightarrow> (RouterAdjacency, unit) outcome" where
  "accept_peer a now peer =
    (if rh_router_id peer = adj_local_router_id a \<or> rh_hold_time_ms peer = 0 then (Err InvalidField, a)
     else (Ok (), a\<lparr>adj_neighbor := Some \<lparr>rn_router_id = rh_router_id peer, rn_remote_link_id = rh_link_id peer,
       rn_metric = rh_metric peer, rn_hold_time_ms = rh_hold_time_ms peer, rn_last_seen = now, rn_state = Up\<rparr>\<rparr>))"

definition adj_receive :: "RouterAdjacency \<Rightarrow> Instant \<Rightarrow> RoutingGctlMessage \<Rightarrow> (RouterAdjacency, RoutingGctlMessage option) outcome" where
  "adj_receive a now m = (case rg_body m of
      RouterHelloB peer \<Rightarrow> sbind (accept_peer a now peer) (\<lambda>_ a.
        (Ok (Some (router_hello_ack (rg_transaction_id m) (local_hello a))), a))
    | RouterHelloAckB peer \<Rightarrow> sbind (accept_peer a now peer) (\<lambda>_ a. (Ok None, a))
    | RouteAdvertiseB _ \<Rightarrow> (Err Unsupported, a)
    | RouteWithdrawB _ \<Rightarrow> (Err Unsupported, a))"

definition adj_expire :: "RouterAdjacency \<Rightarrow> Instant \<Rightarrow> bool \<times> RouterAdjacency" where
  "adj_expire a now = (case adj_neighbor a of
      None \<Rightarrow> (False, a)
    | Some n \<Rightarrow>
        if rn_state n = Down then (False, a)
        else let elapsed = saturating_duration_since now (rn_last_seen n) in
          if duration_millis (Duration (ucast (rn_hold_time_ms n))) \<le> duration_millis elapsed
          then (True, a\<lparr>adj_neighbor := Some (n\<lparr>rn_state := Down\<rparr>)\<rparr>)
          else (False, a))"

section \<open>Runs\<close>

datatype adj_event = Receive Instant RoutingGctlMessage | Poll Instant

inductive adj_step :: "RouterAdjacency \<Rightarrow> adj_event \<Rightarrow> RouterAdjacency \<Rightarrow> bool" where
  step_receive: "adj_receive a now m = (r, a') \<Longrightarrow> adj_step a (Receive now m) a'"
| step_poll: "adj_expire a now = (b, a') \<Longrightarrow> adj_step a (Poll now) a'"

inductive_simps adj_step_Receive [simp]: "adj_step a (Receive now m) a'"
inductive_simps adj_step_Poll [simp]: "adj_step a (Poll now) a'"

inductive adj_run :: "RouterAdjacency \<Rightarrow> adj_event list \<Rightarrow> RouterAdjacency \<Rightarrow> bool" where
  run_Nil: "adj_run a [] a"
| run_snoc: "adj_run a evs b \<Longrightarrow> adj_step b e c \<Longrightarrow> adj_run a (evs @ [e]) c"

text \<open>The peer a message announces, if a router with the given identifier accepts it.\<close>

definition hello_peer :: "RoutingGctlMessage \<Rightarrow> RouterHello option" where
  "hello_peer m = (case rg_body m of RouterHelloB p \<Rightarrow> Some p | RouterHelloAckB p \<Rightarrow> Some p | _ \<Rightarrow> None)"

fun accepts :: "RouterId \<Rightarrow> adj_event \<Rightarrow> (Instant \<times> RouterHello) option" where
  "accepts i (Receive t m) = (case hello_peer m of
      Some p \<Rightarrow> if rh_router_id p = i \<or> rh_hold_time_ms p = 0 then None else Some (t, p)
    | None \<Rightarrow> None)"
| "accepts i (Poll t) = None"

definition within_hold :: "Instant \<Rightarrow> RouterHello \<Rightarrow> adj_event \<Rightarrow> bool" where
  "within_hold t p e = (case e of Poll now \<Rightarrow> ms now - ms t < unat (rh_hold_time_ms p) | Receive _ _ \<Rightarrow> True)"

definition neighbor_of :: "Instant \<Rightarrow> RouterHello \<Rightarrow> NeighborState \<Rightarrow> RouterNeighbor" where
  "neighbor_of t p s = \<lparr>rn_router_id = rh_router_id p, rn_remote_link_id = rh_link_id p, rn_metric = rh_metric p,
     rn_hold_time_ms = rh_hold_time_ms p, rn_last_seen = t, rn_state = s\<rparr>"

lemma neighbor_of_simps [simp]: "rn_state (neighbor_of t p s) = s" "rn_last_seen (neighbor_of t p s) = t"
  "rn_hold_time_ms (neighbor_of t p s) = rh_hold_time_ms p" "(neighbor_of t p s)\<lparr>rn_state := s'\<rparr> = neighbor_of t p s'"
  by (simp_all add: neighbor_of_def)

lemma receive_effect:
  assumes "adj_receive a now m = (r, a')"
  shows "a' = (case accepts (adj_local_router_id a) (Receive now m) of
      Some (t, p) \<Rightarrow> a\<lparr>adj_neighbor := Some (neighbor_of t p Up)\<rparr> | None \<Rightarrow> a)"
  using assms by (auto simp: adj_receive_def accept_peer_def hello_peer_def neighbor_of_def split: RoutingGctlBody.splits if_splits)

lemma expire_effect:
  assumes "adj_neighbor a = Some (neighbor_of t p s)"
  shows "snd (adj_expire a now) = (if within_hold t p (Poll now) then a else a\<lparr>adj_neighbor := Some (neighbor_of t p Down)\<rparr>)"
proof -
  have h: "unat (rh_hold_time_ms p) < 2 ^ 64" by (rule order.strict_trans[OF unsigned_less]) simp
  have "duration_millis (Duration (ucast (rh_hold_time_ms p))) \<le> duration_millis (saturating_duration_since now t) \<longleftrightarrow>
      unat (rh_hold_time_ms p) \<le> ms now - ms t"
    by (simp add: saturating_duration_since_def word_le_nat_alt unat_saturating_sub ms_def unsigned_ucast_eq h take_bit_nat_eq_self_iff[THEN iffD2, OF h])
  then show ?thesis using assms by (cases s) (auto simp: adj_expire_def within_hold_def neighbor_of_def)
qed

text \<open>The state of the machine after a run, as a function of the events: the last accepted hello decides the
  neighbour, and a poll at or after its hold time takes it down until the next one.\<close>

fun last_accepted :: "RouterId \<Rightarrow> adj_event list \<Rightarrow> (Instant \<times> RouterHello \<times> adj_event list) option" where
  "last_accepted i [] = None"
| "last_accepted i (e # evs) = (case last_accepted i evs of
      Some x \<Rightarrow> Some x
    | None \<Rightarrow> (case accepts i e of Some (t, p) \<Rightarrow> Some (t, p, evs) | None \<Rightarrow> None))"

lemma last_accepted_snoc:
  "last_accepted i (evs @ [e]) = (case accepts i e of
      Some (t, p) \<Rightarrow> Some (t, p, [])
    | None \<Rightarrow> map_option (\<lambda>(t, p, post). (t, p, post @ [e])) (last_accepted i evs))"
  by (induction evs) (auto split: option.splits)

definition expected_neighbor :: "RouterId \<Rightarrow> adj_event list \<Rightarrow> RouterNeighbor option" where
  "expected_neighbor i evs = map_option (\<lambda>(t, p, post). neighbor_of t p (if list_all (within_hold t p) post then Up else Down))
     (last_accepted i evs)"

lemma run_neighbor:
  assumes "adj_run a evs b" "adj_neighbor a = None"
  shows "adj_neighbor b = expected_neighbor (adj_local_router_id a) evs \<and> adj_local_router_id b = adj_local_router_id a"
  using assms
proof (induction rule: adj_run.induct)
  case (run_Nil a)
  then show ?case by (simp add: expected_neighbor_def)
next
  case (run_snoc a evs b e c)
  let ?i = "adj_local_router_id a"
  have ih: "adj_neighbor b = expected_neighbor ?i evs" "adj_local_router_id b = ?i" using run_snoc by simp_all
  show ?case
  proof (cases e)
    case (Receive now m)
    then obtain r where "adj_receive b now m = (r, c)" using run_snoc by auto
    from receive_effect[OF this] show ?thesis using ih Receive
      by (cases "accepts ?i e"; cases "last_accepted ?i evs") (auto simp: expected_neighbor_def last_accepted_snoc within_hold_def split: option.splits)
  next
    case (Poll now)
    then have c: "c = snd (adj_expire b now)" using run_snoc by auto
    show ?thesis
    proof (cases "last_accepted ?i evs")
      case None
      then show ?thesis using c ih Poll by (simp add: expected_neighbor_def last_accepted_snoc adj_expire_def)
    next
      case (Some x)
      obtain t p post where x: "x = (t, p, post)" by (cases x)
      then have n: "adj_neighbor b = Some (neighbor_of t p (if list_all (within_hold t p) post then Up else Down))"
        using ih Some by (simp add: expected_neighbor_def)
      show ?thesis using c expire_effect[OF n, of now] n ih Some x Poll
        by (auto simp: expected_neighbor_def last_accepted_snoc)
    qed
  qed
qed

section \<open>Properties\<close>

text \<open>C31. An adjacency is up exactly while its neighbour is alive: after any run of receptions and timer polls from a new adjacency, the neighbour is the
  sender of the last acceptable hello or acknowledgement (one of another router with a non-zero hold time), and it is up if and only if every poll since then came less than that hold time
  after it; with no acceptable hello there is no neighbour.\<close>

theorem adjacency_tracks_hellos:
  assumes "adj_new router link metric hold = Ok a" "adj_run a evs b"
  shows "adj_neighbor b = expected_neighbor router evs \<and>
    (adj_state b = Up \<longleftrightarrow> (\<exists>t p post. last_accepted router evs = Some (t, p, post) \<and> list_all (within_hold t p) post))"
proof -
  have a: "adj_neighbor a = None" "adj_local_router_id a = router" using assms(1) by (auto simp: adj_new_def split: if_splits)
  then have "adj_neighbor b = expected_neighbor router evs" using run_neighbor[OF assms(2)] by simp
  then show ?thesis by (auto simp: adj_state_def expected_neighbor_def split: option.splits)
qed

theorem adjacency_tracks_hellos_witness:
  "\<exists>a b. adj_new 1 5 100 3000 = Ok a \<and>
    adj_run a ([] @ [Receive (Instant 10) (router_hello 1 \<lparr>rh_router_id = 2, rh_link_id = 6, rh_hold_time_ms = 500, rh_metric = 1\<rparr>)]) b \<and>
    adj_state b = Up"
proof -
  let ?a = "\<lparr>adj_local_router_id = 1, adj_local_link_id = 5, adj_local_metric = 100, adj_local_hold_time_ms = 3000, adj_neighbor = None\<rparr>"
  let ?m = "router_hello 1 \<lparr>rh_router_id = 2, rh_link_id = 6, rh_hold_time_ms = 500, rh_metric = 1\<rparr>"
  have a: "adj_new 1 5 100 3000 = Ok ?a" by (simp add: adj_new_def)
  obtain r b where "adj_receive ?a (Instant 10) ?m = (r, b)" by force
  then have run: "adj_run ?a ([] @ [Receive (Instant 10) ?m]) b" using run_snoc[OF run_Nil] by simp
  show ?thesis using adjacency_tracks_hellos[OF a run] a run by (auto simp: router_hello_def hello_peer_def)
qed

text \<open>The hello exchange brings both routers up: for two adjacencies of different routers with valid identifiers and hold times,
  the first router's hello, sent over the wire, makes the second answer with an acknowledgement carrying the same transaction, and when that crosses
  the wire both adjacencies are up and each has the other's router and link identifiers.\<close>

theorem adjacency_handshake:
  assumes "adj_new ra la ma ha = Ok a" "adj_new rb lb mb hb = Ok b" "ra \<noteq> rb" "ra \<noteq> 0" "rb \<noteq> 0" "la \<noteq> 0" "lb \<noteq> 0"
  shows "\<exists>hello m ack b' reply m' a'.
    routing_encode (adj_hello a t) = Ok hello \<and> routing_decode hello = Ok m \<and>
    adj_receive b now m = (Ok (Some ack), b') \<and> rg_transaction_id ack = t \<and>
    routing_encode ack = Ok reply \<and> routing_decode reply = Ok m' \<and>
    adj_receive a later m' = (Ok None, a') \<and>
    adj_state a' = Up \<and> adj_state b' = Up \<and>
    map_option (\<lambda>n. (rn_router_id n, rn_remote_link_id n)) (adj_neighbor a') = Some (rb, lb) \<and>
    map_option (\<lambda>n. (rn_router_id n, rn_remote_link_id n)) (adj_neighbor b') = Some (ra, la)"
proof -
  have a: "a = \<lparr>adj_local_router_id = ra, adj_local_link_id = la, adj_local_metric = ma, adj_local_hold_time_ms = ha, adj_neighbor = None\<rparr>" "ha \<noteq> 0"
    and b: "b = \<lparr>adj_local_router_id = rb, adj_local_link_id = lb, adj_local_metric = mb, adj_local_hold_time_ms = hb, adj_neighbor = None\<rparr>" "hb \<noteq> 0"
    using assms(1,2) by (auto simp: adj_new_def split: if_splits)
  let ?h = "adj_hello a t"
  obtain b' where b': "adj_receive b now ?h = (Ok (Some (router_hello_ack t (local_hello b))), b')"
      "adj_neighbor b' = Some (neighbor_of now (local_hello a) Up)"
    using a b assms by (simp add: adj_receive_def adj_hello_def router_hello_def accept_peer_def local_hello_def neighbor_of_def)
  let ?k = "router_hello_ack t (local_hello b)"
  obtain a' where a': "adj_receive a later ?k = (Ok None, a')" "adj_neighbor a' = Some (neighbor_of later (local_hello b) Up)"
    using a b assms by (simp add: adj_receive_def router_hello_ack_def accept_peer_def local_hello_def neighbor_of_def)
  have wf: "body_wf (rg_body ?h)" "body_wf (rg_body ?k)"
    using assms a b by (simp_all add: body_wf_def adj_hello_def router_hello_def router_hello_ack_def local_hello_def)
  have w: "routing_encode ?h = Ok (frame_bytes ?h) \<and> routing_decode (frame_bytes ?h) = Ok ?h"
      "routing_encode ?k = Ok (frame_bytes ?k) \<and> routing_decode (frame_bytes ?k) = Ok ?k"
    using wf routing_decode_iff by (auto simp: routing_encode_eq)
  have t: "rg_transaction_id ?k = t" by (simp add: router_hello_ack_def)
  have "map_option (\<lambda>n. (rn_router_id n, rn_remote_link_id n)) (adj_neighbor a') = Some (rb, lb)"
      "map_option (\<lambda>n. (rn_router_id n, rn_remote_link_id n)) (adj_neighbor b') = Some (ra, la)"
      "adj_state a' = Up" "adj_state b' = Up"
    using a'(2) b'(2) a b by (simp_all add: neighbor_of_def local_hello_def adj_state_def)
  then show ?thesis using w t a'(1) b'(1) by blast
qed

theorem adjacency_handshake_witness:
  "\<exists>a b hello m ack b' reply m' a'. adj_new 1 5 100 3000 = Ok a \<and> adj_new 2 6 100 3000 = Ok b \<and>
    routing_encode (adj_hello a 9) = Ok hello \<and> routing_decode hello = Ok m \<and>
    adj_receive b (Instant 10) m = (Ok (Some ack), b') \<and> routing_encode ack = Ok reply \<and> routing_decode reply = Ok m' \<and>
    adj_receive a (Instant 20) m' = (Ok None, a') \<and> adj_state a' = Up \<and> adj_state b' = Up"
proof -
  obtain a b where ab: "adj_new 1 5 100 3000 = Ok a" "adj_new 2 6 100 3000 = Ok b" by (simp add: adj_new_def)
  show ?thesis using adjacency_handshake[OF ab, of 9 "Instant 10" "Instant 20"] ab by auto
qed

end
