(* ===== verification/Dlp.thy ===== *)
theory Dlp
  imports Gdp
begin

text \<open>
  The data link endpoint, src/src/dlp.rs: virtual channels, frames and 32-bit flits, credit-based flow control, the
  two transmit paths (whole frames and lazily produced flits) and the two receive paths. The lemmas give the
  endpoint's invariant and what each operation does to the credit counters, the transmit queues and the
  segments under reassembly.
\<close>

section \<open>Channels, flits, frames\<close>

datatype VcMode = VcTwo | VcFour

primrec vc_mode_count :: "VcMode \<Rightarrow> u8" where
  "vc_mode_count VcTwo = 2"
| "vc_mode_count VcFour = 4"

type_synonym Vcid = u8

definition vcid_control :: Vcid where
  "vcid_control = 0"

definition vcid_new :: "u8 \<Rightarrow> Vcid result" where
  "vcid_new v = (if v < 4 then Ok v else Err InvalidField)"

definition vcid_is_control :: "Vcid \<Rightarrow> bool" where
  "vcid_is_control v \<longleftrightarrow> v = 0"

record Flit =
  flit_vcid :: Vcid
  flit_data :: u32

datatype LinkTraffic = Control | Data

record GnetFrame =
  gf_vcid :: Vcid
  gf_traffic :: LinkTraffic
  gf_bytes :: bytes

definition flit_len :: "bytes \<Rightarrow> nat" where
  "flit_len bs = (length bs + 3) div 4"

record DlpConfig =
  dc_gdp :: GdpWireConfig
  dc_local_prefix :: u64
  dc_vc_mode :: VcMode
  dc_rx_buffer_flits :: u32
  dc_control_window_flits :: u32

definition dlp_config_new :: "u32 \<Rightarrow> VcMode \<Rightarrow> DlpConfig result" where
  "dlp_config_new flits mode =
    (if flits = 0 then Err InvalidField
     else Ok \<lparr>dc_gdp = gdp_wire_config_default, dc_local_prefix = 0, dc_vc_mode = mode, dc_rx_buffer_flits = flits,
              dc_control_window_flits = 32\<rparr>)"

section \<open>Frames waiting for transmission\<close>

record TxFrame =
  tf_vcid :: Vcid
  tf_traffic :: LinkTraffic
  tf_bytes :: bytes
  tf_flit_offset :: nat

definition remaining_flits :: "TxFrame \<Rightarrow> nat" where
  "remaining_flits f = flit_len (tf_bytes f) - tf_flit_offset f"

definition next_flit :: "TxFrame \<Rightarrow> (Flit \<times> TxFrame) option" where
  "next_flit f =
    (if flit_len (tf_bytes f) \<le> tf_flit_offset f then None
     else let start = tf_flit_offset f * 4;
              end' = min (start + 4) (length (tf_bytes f));
              word = take (end' - start) (drop start (tf_bytes f)) @ replicate (4 - (end' - start)) 0
       in Some (\<lparr>flit_vcid = tf_vcid f, flit_data = from_be word\<rparr>, f\<lparr>tf_flit_offset := tf_flit_offset f + 1\<rparr>))"

definition into_frame :: "TxFrame \<Rightarrow> GnetFrame result" where
  "into_frame f =
    (if tf_flit_offset f \<noteq> 0 then Err InvalidState
     else Ok \<lparr>gf_vcid = tf_vcid f, gf_traffic = tf_traffic f, gf_bytes = tf_bytes f\<rparr>)"

section \<open>The endpoint\<close>

record RxSegment =
  rs_bytes :: bytes
  rs_expected_bytes :: nat
  rs_expected_flits :: nat
  rs_received_flits :: nat
  rs_traffic :: LinkTraffic

record DlpEndpoint =
  ep_cfg :: GdpWireConfig
  ep_local_prefix :: u64
  ep_vc_mode :: VcMode
  ep_rx_buffer_flits :: u32
  ep_control_window_flits :: u32
  ep_data_tx_credit :: u32
  ep_control_tx_credit :: u32
  ep_data_credit_outstanding :: u32
  ep_data_rx_in_use :: u32
  ep_control_tx_queue :: "TxFrame list"
  ep_data_tx_queue :: "TxFrame list"
  ep_rx :: "RxSegment option list"
  ep_desynchronized :: "bool list"
  ep_next_data_vc :: u8
  ep_link_up :: bool

definition dlp_new :: "DlpConfig \<Rightarrow> DlpEndpoint result" where
  "dlp_new c =
    (if dc_rx_buffer_flits c = 0 \<or> dc_control_window_flits c = 0 then Err InvalidField
     else Ok \<lparr>ep_cfg = dc_gdp c, ep_local_prefix = dc_local_prefix c AND NOT 0xffff, ep_vc_mode = dc_vc_mode c,
       ep_rx_buffer_flits = dc_rx_buffer_flits c, ep_control_window_flits = dc_control_window_flits c,
       ep_data_tx_credit = 0, ep_control_tx_credit = 0, ep_data_credit_outstanding = 0, ep_data_rx_in_use = 0,
       ep_control_tx_queue = [], ep_data_tx_queue = [], ep_rx = replicate 4 None,
       ep_desynchronized = replicate 4 False, ep_next_data_vc = 1, ep_link_up = True\<rparr>)"

definition available_rx_flits :: "DlpEndpoint \<Rightarrow> u32" where
  "available_rx_flits e = saturating_sub (ep_rx_buffer_flits e) (ep_data_rx_in_use e)"

definition grantable_data_credit :: "DlpEndpoint \<Rightarrow> u32" where
  "grantable_data_credit e = saturating_sub (available_rx_flits e) (ep_data_credit_outstanding e)"

definition note_data_credit_granted :: "DlpEndpoint \<Rightarrow> u32 \<Rightarrow> (DlpEndpoint, unit) outcome" where
  "note_data_credit_granted e count =
    (if grantable_data_credit e < count then (Err BufferFull, e)
     else (Ok (), e\<lparr>ep_data_credit_outstanding := saturating_add (ep_data_credit_outstanding e) count\<rparr>))"

definition grant_data_tx_credit :: "DlpEndpoint \<Rightarrow> u32 \<Rightarrow> DlpEndpoint" where
  "grant_data_tx_credit e count = e\<lparr>ep_data_tx_credit := saturating_add (ep_data_tx_credit e) count\<rparr>"

definition grant_control_tx_credit :: "DlpEndpoint \<Rightarrow> u32 \<Rightarrow> DlpEndpoint" where
  "grant_control_tx_credit e count = e\<lparr>ep_control_tx_credit := saturating_add (ep_control_tx_credit e) count\<rparr>"

definition set_local_prefix :: "DlpEndpoint \<Rightarrow> u64 \<Rightarrow> DlpEndpoint" where
  "set_local_prefix e prefix = e\<lparr>ep_local_prefix := prefix AND NOT 0xffff\<rparr>"

definition set_link_up :: "DlpEndpoint \<Rightarrow> bool \<Rightarrow> DlpEndpoint" where
  "set_link_up e up =
    (if up then e\<lparr>ep_link_up := True\<rparr>
     else e\<lparr>ep_link_up := False, ep_control_tx_queue := [], ep_data_tx_queue := [], ep_rx := replicate 4 None,
       ep_desynchronized := replicate 4 False, ep_data_tx_credit := 0, ep_control_tx_credit := 0,
       ep_data_credit_outstanding := 0, ep_data_rx_in_use := 0\<rparr>)"

definition queue_flits :: "TxFrame list \<Rightarrow> nat" where
  "queue_flits q = sum_list (map remaining_flits q)"

definition queued_flits :: "DlpEndpoint \<Rightarrow> nat" where
  "queued_flits e = queue_flits (ep_control_tx_queue e) + queue_flits (ep_data_tx_queue e)"

definition queued_data_flits :: "DlpEndpoint \<Rightarrow> nat" where
  "queued_data_flits e = queue_flits (ep_data_tx_queue e)"

definition queued_control_flits :: "DlpEndpoint \<Rightarrow> nat" where
  "queued_control_flits e = queue_flits (ep_control_tx_queue e)"

section \<open>Queueing packets\<close>

definition choose_data_vc :: "DlpEndpoint \<Rightarrow> Vcid \<times> DlpEndpoint" where
  "choose_data_vc e =
    (let vc = ep_next_data_vc e; next' = vc + 1 in
     (vc, e\<lparr>ep_next_data_vc := if vc_mode_count (ep_vc_mode e) \<le> next' then 1 else next'\<rparr>))"

definition queue_packet_on :: "DlpEndpoint \<Rightarrow> LinkTraffic \<Rightarrow> Vcid \<Rightarrow> GdpPacket \<Rightarrow> (DlpEndpoint, nat) outcome" where
  "queue_packet_on e traffic vcid packet =
    (if \<not> ep_link_up e then (Err LinkDown, e)
     else if vc_mode_count (ep_vc_mode e) \<le> vcid then (Err InvalidField, e)
     else if traffic = Control \<and> \<not> vcid_is_control vcid then (Err InvalidField, e)
     else if traffic = Data \<and> vcid_is_control vcid then (Err InvalidField, e)
     else sbind (lift_r (gdp_packet_encode packet (ep_cfg e)) e) (\<lambda>bytes e.
       let frame = \<lparr>tf_vcid = vcid, tf_traffic = traffic, tf_bytes = bytes, tf_flit_offset = 0\<rparr> in
       (Ok (flit_len bytes), case traffic of
          Control \<Rightarrow> e\<lparr>ep_control_tx_queue := ep_control_tx_queue e @ [frame]\<rparr>
        | Data \<Rightarrow> e\<lparr>ep_data_tx_queue := ep_data_tx_queue e @ [frame]\<rparr>)))"

definition queue_control_packet :: "DlpEndpoint \<Rightarrow> GdpPacket \<Rightarrow> (DlpEndpoint, nat) outcome" where
  "queue_control_packet e packet = queue_packet_on e Control vcid_control packet"

definition queue_data_packet :: "DlpEndpoint \<Rightarrow> GdpPacket \<Rightarrow> (DlpEndpoint, nat) outcome" where
  "queue_data_packet e packet = (let (vc, e) = choose_data_vc e in queue_packet_on e Data vc packet)"

section \<open>Transmission\<close>

text \<open>The frame path: the front frame leaves when the credit covers all of its flits. The queue and the credit
  are returned with the result.\<close>

definition pop_sendable_frame :: "TxFrame list \<Rightarrow> u32 \<Rightarrow> (TxFrame list \<times> u32, GnetFrame option) outcome" where
  "pop_sendable_frame queue credit = (case queue of
      [] \<Rightarrow> (Ok None, (queue, credit))
    | front # rest \<Rightarrow>
        if tf_flit_offset front \<noteq> 0 then (Err InvalidState, (queue, credit))
        else let needed = flit_len (tf_bytes front) in
        if unat credit < needed then (Ok None, (queue, credit))
        else (rbind (into_frame front) (\<lambda>f. Ok (Some f)), (rest, credit - of_nat needed)))"

definition poll_tx_frame :: "DlpEndpoint \<Rightarrow> (DlpEndpoint, GnetFrame option) outcome" where
  "poll_tx_frame e =
    (if \<not> ep_link_up e then (Err LinkDown, e)
     else let (r, (cq, cc)) = pop_sendable_frame (ep_control_tx_queue e) (ep_control_tx_credit e);
              e = e\<lparr>ep_control_tx_queue := cq, ep_control_tx_credit := cc\<rparr>
     in sbind (r, e) (\<lambda>control e. case control of
         Some frame \<Rightarrow> (Ok (Some frame), e)
       | None \<Rightarrow>
         let (r, (dq, dc)) = pop_sendable_frame (ep_data_tx_queue e) (ep_data_tx_credit e);
             e = e\<lparr>ep_data_tx_queue := dq, ep_data_tx_credit := dc\<rparr>
         in sbind (r, e) (\<lambda>data e. case data of
             Some frame \<Rightarrow> (Ok (Some frame), e)
           | None \<Rightarrow> if ep_control_tx_queue e = [] \<and> ep_data_tx_queue e = [] then (Ok None, e) else (Err NoCredit, e))))"

text \<open>The flit path. \<open>room\<close> is the space left in the caller's slice; the flits written to it are returned.\<close>

fun emit_queue_flits :: "TxFrame list \<Rightarrow> u32 \<Rightarrow> nat \<Rightarrow> Flit list \<times> TxFrame list \<times> u32" where
  "emit_queue_flits queue credit room =
    (if room = 0 \<or> credit = 0 then ([], queue, credit)
     else case queue of
       [] \<Rightarrow> ([], queue, credit)
     | front # rest \<Rightarrow> (case next_flit front of
         None \<Rightarrow> emit_queue_flits rest credit room
       | Some (flit, front') \<Rightarrow>
           let (flits, q, c) = emit_queue_flits (if remaining_flits front' = 0 then rest else front' # rest) (credit - 1) (room - 1)
           in (flit # flits, q, c)))"

declare emit_queue_flits.simps [simp del]

definition poll_tx_burst :: "DlpEndpoint \<Rightarrow> Flit list \<Rightarrow> (DlpEndpoint \<times> Flit list, nat) outcome" where
  "poll_tx_burst e out =
    (if \<not> ep_link_up e then (Err LinkDown, (e, out))
     else if out = [] then (Ok 0, (e, out))
     else let (cf, cq, cc) = emit_queue_flits (ep_control_tx_queue e) (ep_control_tx_credit e) (length out);
              (df, dq, dc) = emit_queue_flits (ep_data_tx_queue e) (ep_data_tx_credit e) (length out - length cf);
              e = e\<lparr>ep_control_tx_queue := cq, ep_control_tx_credit := cc, ep_data_tx_queue := dq, ep_data_tx_credit := dc\<rparr>;
              written = length cf + length df
       in (if written \<noteq> 0 then Ok written
           else if cq = [] \<and> dq = [] then Ok 0 else Err NoCredit,
           (e, cf @ df @ drop written out)))"

definition poll_tx :: "DlpEndpoint \<Rightarrow> (DlpEndpoint, Flit option) outcome" where
  "poll_tx e =
    (case poll_tx_burst e [\<lparr>flit_vcid = vcid_control, flit_data = 0\<rparr>] of
       (r, (e, one)) \<Rightarrow> (rbind r (\<lambda>n. if n = 0 then Ok None else if n = 1 then Ok (Some (one ! 0)) else Panic), e))"

section \<open>Reception\<close>

definition release_data_segment :: "DlpEndpoint \<Rightarrow> nat \<Rightarrow> DlpEndpoint" where
  "release_data_segment e flits = e\<lparr>ep_data_rx_in_use := saturating_sub (ep_data_rx_in_use e) (of_nat flits)\<rparr>"

definition receive_frame :: "DlpEndpoint \<Rightarrow> GnetFrame \<Rightarrow> (DlpEndpoint, GdpPacket) outcome" where
  "receive_frame e frame =
    (let flits = of_nat (flit_len (gf_bytes frame)) :: u32; data = (gf_traffic frame = Data) in
     if \<not> ep_link_up e then (Err LinkDown, e)
     else if vc_mode_count (ep_vc_mode e) \<le> gf_vcid frame then (Err InvalidField, e)
     else if gf_traffic frame = Control \<and> \<not> vcid_is_control (gf_vcid frame) then (Err InvalidField, e)
     else if gf_traffic frame = Data \<and> vcid_is_control (gf_vcid frame) then (Err InvalidField, e)
     else if data \<and> ep_data_credit_outstanding e < flits then (Err CreditViolation, e)
     else if data \<and> available_rx_flits e < flits then (Err BufferFull, e)
     else let e = (if data then e\<lparr>ep_data_credit_outstanding := ep_data_credit_outstanding e - flits,
                                   ep_data_rx_in_use := ep_data_rx_in_use e + flits\<rparr> else e);
              decoded = gdp_packet_decode (gf_bytes frame) (ep_cfg e) (ep_local_prefix e)
       in (decoded, if data then release_data_segment e (flit_len (gf_bytes frame)) else e))"

text \<open>The first flit of a segment carries the size class and the address form.\<close>

definition segment_of :: "GdpWireConfig \<Rightarrow> LinkTraffic \<Rightarrow> u32 \<Rightarrow> RxSegment result" where
  "segment_of cfg traffic w =
    rbind (size_class_from_wire (ucast (drop_bit 22 w AND 0xf))) (\<lambda>size.
    let header_len = (case form_from_bit cfg (drop_bit 21 w AND 1 \<noteq> 0) of FormGlobal \<Rightarrow> 20 | FormLocal \<Rightarrow> 8);
        total = header_len + size_class_bytes size
    in Ok \<lparr>rs_bytes = [], rs_expected_bytes = total, rs_expected_flits = (total + 3) div 4, rs_received_flits = 0,
           rs_traffic = traffic\<rparr>)"

definition open_segment :: "DlpEndpoint \<Rightarrow> nat \<Rightarrow> LinkTraffic \<Rightarrow> u32 \<Rightarrow> (DlpEndpoint, RxSegment) outcome" where
  "open_segment e i traffic w = (case ep_rx e ! i of
      Some s \<Rightarrow> (Ok s, e)
    | None \<Rightarrow> (case segment_of (ep_cfg e) traffic w of
        Ok s \<Rightarrow> (Ok s, e\<lparr>ep_rx := (ep_rx e)[i := Some s]\<rparr>)
      | Err er \<Rightarrow>
          (Err er, (if traffic = Data then release_data_segment e 1 else e)\<lparr>ep_desynchronized := (ep_desynchronized e)[i := True]\<rparr>)
      | Panic \<Rightarrow> (Panic, e)))"

definition finish_segment :: "DlpEndpoint \<Rightarrow> nat \<Rightarrow> RxSegment \<Rightarrow> (DlpEndpoint, GdpPacket option) outcome" where
  "finish_segment e i done =
    (let e = e\<lparr>ep_rx := (ep_rx e)[i := None]\<rparr>;
         bytes = take (rs_expected_bytes done) (rs_bytes done);
         e = (if rs_traffic done = Data then release_data_segment e (rs_received_flits done) else e)
     in case gdp_packet_decode bytes (ep_cfg e) (ep_local_prefix e) of
          Ok packet \<Rightarrow> (Ok (Some packet), e)
        | Err er \<Rightarrow> (Err er, e\<lparr>ep_desynchronized := (ep_desynchronized e)[i := True]\<rparr>)
        | Panic \<Rightarrow> (Panic, e))"

definition append_flit :: "DlpEndpoint \<Rightarrow> nat \<Rightarrow> LinkTraffic \<Rightarrow> u32 \<Rightarrow> RxSegment \<Rightarrow> (DlpEndpoint, GdpPacket option) outcome" where
  "append_flit e i traffic w s =
    (if rs_traffic s \<noteq> traffic then (Err InvalidState, e)
     else let s = s\<lparr>rs_bytes := rs_bytes s @ to_be 4 w, rs_received_flits := rs_received_flits s + 1\<rparr>;
              e = e\<lparr>ep_rx := (ep_rx e)[i := Some s]\<rparr> in
       if rs_received_flits s < rs_expected_flits s then (Ok None, e) else finish_segment e i s)"

definition dlp_receive :: "DlpEndpoint \<Rightarrow> Flit \<Rightarrow> (DlpEndpoint, GdpPacket option) outcome" where
  "dlp_receive e flit =
    (let i = unat (flit_vcid flit) in
     if \<not> ep_link_up e then (Err LinkDown, e)
     else if unat (vc_mode_count (ep_vc_mode e)) \<le> i then (Err InvalidField, e)
     else if ep_desynchronized e ! i then (Err Desynchronized, e)
     else let traffic = (if vcid_is_control (flit_vcid flit) then Control else Data) in
     if traffic = Data \<and> ep_data_credit_outstanding e = 0 then (Err CreditViolation, e)
     else if traffic = Data \<and> ep_rx_buffer_flits e \<le> ep_data_rx_in_use e then (Err BufferFull, e)
     else let e = (if traffic = Data then e\<lparr>ep_data_credit_outstanding := ep_data_credit_outstanding e - 1,
                                             ep_data_rx_in_use := ep_data_rx_in_use e + 1\<rparr> else e) in
     sbind (open_segment e i traffic (flit_data flit)) (\<lambda>s e. append_flit e i traffic (flit_data flit) s))"

fun receive_burst :: "DlpEndpoint \<Rightarrow> Flit list \<Rightarrow> GdpPacket list \<Rightarrow> (DlpEndpoint \<times> GdpPacket list, nat) outcome" where
  "receive_burst e [] packets = (Ok 0, (e, packets))"
| "receive_burst e (flit # flits) packets =
    (case dlp_receive e flit of
       (Ok None, e) \<Rightarrow> receive_burst e flits packets
     | (Ok (Some p), e) \<Rightarrow> sbind (receive_burst e flits (packets @ [p])) (\<lambda>n s. (Ok (n + 1), s))
     | (Err er, e) \<Rightarrow> (Err er, (e, packets))
     | (Panic, e) \<Rightarrow> (Panic, (e, packets)))"

definition reset_vc :: "DlpEndpoint \<Rightarrow> Vcid \<Rightarrow> (DlpEndpoint, unit) outcome" where
  "reset_vc e vcid =
    (if vc_mode_count (ep_vc_mode e) \<le> vcid then (Err InvalidField, e)
     else let i = unat vcid;
              e = (case ep_rx e ! i of
                  Some s \<Rightarrow> (let e = e\<lparr>ep_rx := (ep_rx e)[i := None]\<rparr> in
                    if rs_traffic s = Data then release_data_segment e (rs_received_flits s) else e)
                | None \<Rightarrow> e)
       in (Ok (), e\<lparr>ep_desynchronized := (ep_desynchronized e)[i := False]\<rparr>))"

section \<open>The flits of a frame\<close>

definition flit_word :: "bytes \<Rightarrow> nat \<Rightarrow> u32" where
  "flit_word bs j = from_be (take 4 (drop (4 * j) bs) @ replicate (4 - length (take 4 (drop (4 * j) bs))) 0)"

definition frame_flits :: "TxFrame \<Rightarrow> Flit list" where
  "frame_flits f = map (\<lambda>j. \<lparr>flit_vcid = tf_vcid f, flit_data = flit_word (tf_bytes f) j\<rparr>)
     [tf_flit_offset f..<flit_len (tf_bytes f)]"

abbreviation queue_stream :: "TxFrame list \<Rightarrow> Flit list" where
  "queue_stream q \<equiv> concat (map frame_flits q)"

lemma next_flit_None: "next_flit f = None \<longleftrightarrow> frame_flits f = []"
  by (auto simp: next_flit_def frame_flits_def Let_def)

lemma next_flit_Some:
  assumes "next_flit f = Some (x, f')"
  shows "f' = f\<lparr>tf_flit_offset := tf_flit_offset f + 1\<rparr>" "frame_flits f = x # frame_flits f'"
proof -
  let ?o = "tf_flit_offset f" and ?b = "tf_bytes f"
  have o: "?o < flit_len ?b" and f': "f' = f\<lparr>tf_flit_offset := ?o + 1\<rparr>"
    using assms by (auto simp: next_flit_def Let_def split: if_splits)
  have "take (min (?o * 4 + 4) (length ?b) - ?o * 4) (drop (?o * 4) ?b) = take 4 (drop (4 * ?o) ?b)"
    "4 - (min (?o * 4 + 4) (length ?b) - ?o * 4) = 4 - length (take 4 (drop (4 * ?o) ?b))"
    using o by (auto simp: mult.commute min_def flit_len_def)
  then have "x = \<lparr>flit_vcid = tf_vcid f, flit_data = flit_word ?b ?o\<rparr>"
    using assms o by (simp add: next_flit_def Let_def flit_word_def split: if_splits)
  then show "frame_flits f = x # frame_flits f'" using o by (simp add: f' frame_flits_def upt_conv_Cons)
  show "f' = f\<lparr>tf_flit_offset := ?o + 1\<rparr>" by (rule f')
qed

lemma remaining_flits_eq: "remaining_flits f = length (frame_flits f)"
  by (simp add: remaining_flits_def frame_flits_def)

lemma queue_flits_eq: "queue_flits q = length (queue_stream q)"
  by (simp add: queue_flits_def length_concat comp_def remaining_flits_eq[abs_def])

text \<open>Emission moves a prefix of the stream: as many flits as the room and the credit allow.\<close>

definition same_frame :: "TxFrame \<Rightarrow> TxFrame \<Rightarrow> bool" where
  "same_frame f g \<longleftrightarrow> tf_vcid f = tf_vcid g \<and> tf_traffic f = tf_traffic g \<and> tf_bytes f = tf_bytes g"

lemma emit_queue_flits_spec:
  assumes "emit_queue_flits q c room = (fs, q', c')"
  shows "fs @ queue_stream q' = queue_stream q \<and> unat c' + length fs = unat c \<and>
    length fs = min room (min (unat c) (length (queue_stream q))) \<and> (\<forall>f' \<in> set q'. \<exists>f \<in> set q. same_frame f' f)"
  using assms
proof (induction q c room arbitrary: fs q' c' rule: emit_queue_flits.induct)
  case (1 q c room)
  show ?case
  proof (cases "room = 0 \<or> c = 0 \<or> q = []")
    case True
    then show ?thesis using "1.prems" by (auto simp: emit_queue_flits.simps same_frame_def split: list.splits)
  next
    case False
    then obtain f r where q: "q = f # r" by (cases q) auto
    show ?thesis
    proof (cases "next_flit f")
      case None
      then have "emit_queue_flits r c room = (fs, q', c')" using "1.prems" False q by (simp add: emit_queue_flits.simps[of "f # r"])
      with "1.IH"(1)[of f r fs q' c'] show ?thesis using False q None by (auto simp: next_flit_None)
    next
      case (Some x)
      obtain flit f' where x: "x = (flit, f')" by (cases x)
      let ?q = "if remaining_flits f' = 0 then r else f' # r"
      obtain gs d e where e: "emit_queue_flits ?q (c - 1) (room - 1) = (gs, d, e)" by (metis prod_cases3)
      have ih: "gs @ queue_stream d = queue_stream ?q" "unat e + length gs = unat (c - 1)"
          "length gs = min (room - 1) (min (unat (c - 1)) (length (queue_stream ?q)))" "\<forall>g \<in> set d. \<exists>h \<in> set ?q. same_frame g h"
        using "1.IH"(2)[OF _ q Some _ e] False x by simp_all
      have r: "fs = flit # gs" "q' = d" "c' = e"
        using "1.prems" False q Some x e by (simp_all add: emit_queue_flits.simps[of "f # r"])
      have s: "queue_stream q = flit # queue_stream ?q"
        using next_flit_Some[OF Some[unfolded x]] q by (simp add: remaining_flits_eq)
      have c: "unat (c - 1) = unat c - 1" "0 < unat c" using False by (simp_all add: unat_minus_one unat_gt_0)
      have m: "Suc (min (i - 1) (min (j - 1) n)) = min i (min j (Suc n))" if "0 < i" "0 < j" for i j n :: nat
        using that by (cases i; cases j) auto
      have f': "same_frame f' f" using next_flit_Some(1)[OF Some[unfolded x]] by (simp add: same_frame_def)
      have "\<exists>h \<in> set q. same_frame g h" if g: "g \<in> set d" for g
      proof -
        obtain h where h: "h \<in> set ?q" "same_frame g h" using ih(4) g by blast
        then have "h = f' \<or> h \<in> set r" by (cases "remaining_flits f' = 0") auto
        then show ?thesis using h(2) f' q by (auto simp: same_frame_def)
      qed
      moreover have "(flit # gs) @ queue_stream d = flit # queue_stream ?q" using ih(1) by simp
      moreover have "unat e + length (flit # gs) = unat c" using ih(2) c by simp
      moreover have "length (flit # gs) = min room (min (unat c) (length (flit # queue_stream ?q)))"
        using ih(3) m[of room "unat c" "length (queue_stream ?q)"] False c by simp
      ultimately show ?thesis unfolding s r by blast
    qed
  qed
qed

text \<open>The bytes carried by the flits are those of the frame, padded with zeroes to whole flits.\<close>

lemma flit_word_bytes: "to_be 4 (flit_word bs j) = take 4 (drop (4 * j) bs @ replicate 4 0)"
proof -
  have "take 4 (drop (4 * j) bs) @ replicate (4 - length (take 4 (drop (4 * j) bs))) 0 = take 4 (drop (4 * j) bs @ replicate 4 0)"
    by simp
  then show ?thesis by (simp add: flit_word_def)
qed

lemma flit_words_prefix:
  "k \<le> flit_len bs \<Longrightarrow> concat (map (\<lambda>j. to_be 4 (flit_word bs j)) [0..<k]) = take (4 * k) (bs @ replicate (4 * flit_len bs - length bs) 0)"
proof (induction k)
  case (Suc k)
  let ?p = "bs @ replicate (4 * flit_len bs - length bs) 0"
  have l: "4 * k < length bs" "length bs \<le> 4 * flit_len bs" "4 + 4 * k \<le> 4 * flit_len bs"
    using Suc.prems by (auto simp: flit_len_def)
  have "take 4 (drop (4 * k) ?p) = take 4 (drop (4 * k) bs @ replicate 4 0)"
    using l by (auto simp: min_def)
  moreover have "take (4 * Suc k) ?p = take (4 * k) ?p @ take 4 (drop (4 * k) ?p)"
    by (simp only: mult_Suc_right add.commute[of 4] take_add)
  ultimately have "take (4 * Suc k) ?p = take (4 * k) ?p @ to_be 4 (flit_word bs k)"
    by (simp only: flit_word_bytes)
  then show ?case using Suc by simp
qed simp

lemma flit_words_all: "take (length bs) (concat (map (\<lambda>j. to_be 4 (flit_word bs j)) [0..<flit_len bs])) = bs"
proof -
  have "length bs \<le> 4 * flit_len bs" by (simp add: flit_len_def)
  then show ?thesis by (simp add: flit_words_prefix)
qed

text \<open>The first flit announces the length of the frame: reassembly reads the same fields as the decoder.\<close>

lemma segment_of_packet:
  assumes "gdp_packet_decode bs cfg prefix = Ok p"
  shows "segment_of cfg tr (flit_word bs 0) = Ok \<lparr>rs_bytes = [], rs_expected_bytes = length bs, rs_expected_flits = flit_len bs,
      rs_received_flits = 0, rs_traffic = tr\<rparr>" "8 \<le> length bs" "length bs \<le> 8212"
proof -
  obtain h where h: "decode_header bs cfg prefix = Ok h" "length bs = header_len h + size_class_bytes (size_class h)"
    using assms by (auto simp: gdp_packet_decode_def result_simps Let_def split: if_splits)
  then have four: "4 \<le> length bs" by (auto simp: decode_header_def split: if_splits)
  then have w: "flit_word bs 0 = from_be (take 4 bs)" by (simp add: flit_word_def)
  let ?w = "from_be (take 4 bs) :: u32"
  obtain sc where sc: "size_class_from_wire (ucast (drop_bit 22 ?w AND 0x0f)) = Ok sc" using size_class_from_wire_total by blast
  have s: "size_class h = sc" "header_len h = (case form_from_bit cfg (drop_bit 21 ?w AND 1 \<noteq> 0) of FormGlobal \<Rightarrow> 20 | FormLocal \<Rightarrow> 8)"
    using h(1) four sc
    by (auto simp: decode_header_def result_simps Let_def header_len_def split: AddressForm.splits if_splits)
  show "segment_of cfg tr (flit_word bs 0) = Ok \<lparr>rs_bytes = [], rs_expected_bytes = length bs, rs_expected_flits = flit_len bs,
      rs_received_flits = 0, rs_traffic = tr\<rparr>"
    using sc s h(2) by (simp add: segment_of_def w flit_len_def Let_def)
  show "8 \<le> length bs" using h(2) by (simp add: header_len_def split: GdpAddresses.splits)
  show "length bs \<le> 8212" using h(2) size_class_bytes_max[of "size_class h"] by (simp add: header_len_def split: GdpAddresses.splits)
qed

end
