(* ===== verification/Dlp_Transfer.thy ===== *)
theory Dlp_Transfer
  imports Dlp
begin

text \<open>
  Two data link endpoints joined by a wire (src/src/dlp.rs, the flit paths of both sides): the step relation
  \<open>wire_step\<close> interleaves queueing of packets, bursts of any size, arrivals and credit grants in any order. Its invariant shows
  that the credit scheme is sound, so that no arriving flit is ever refused, and that both lanes
  deliver exactly the packets queued, in order.
\<close>

section \<open>One flit at the receiver\<close>

definition frame_of :: "Vcid \<Rightarrow> bytes \<Rightarrow> Flit list" where
  "frame_of v bs = map (\<lambda>j. \<lparr>flit_vcid = v, flit_data = flit_word bs j\<rparr>) [0..<flit_len bs]"

text \<open>The segment after \<open>k\<close> flits of a frame.\<close>

definition partial_seg :: "LinkTraffic \<Rightarrow> bytes \<Rightarrow> nat \<Rightarrow> RxSegment option" where
  "partial_seg tr bs k = (if k = 0 then None
     else Some \<lparr>rs_bytes = concat (map (\<lambda>j. to_be 4 (flit_word bs j)) [0..<k]), rs_expected_bytes = length bs,
                rs_expected_flits = flit_len bs, rs_received_flits = k, rs_traffic = tr\<rparr>)"

lemma frame_of_nth: "k < flit_len bs \<Longrightarrow> drop k (frame_of v bs) = \<lparr>flit_vcid = v, flit_data = flit_word bs k\<rparr> # drop (Suc k) (frame_of v bs)"
  using Cons_nth_drop_Suc[of k "frame_of v bs"] by (simp add: frame_of_def)

lemma length_frame_of [simp]: "length (frame_of v bs) = flit_len bs"
  by (simp add: frame_of_def)

definition push_seg :: "DlpEndpoint \<Rightarrow> LinkTraffic \<Rightarrow> Vcid \<Rightarrow> bytes \<Rightarrow> nat \<Rightarrow> GdpPacket \<Rightarrow> (DlpEndpoint, GdpPacket option) outcome" where
  "push_seg e tr v bs k p =
    (if Suc k < flit_len bs then (Ok None, e\<lparr>ep_rx := (ep_rx e)[unat v := partial_seg tr bs (Suc k)]\<rparr>)
     else (Ok (Some p), (if tr = Data then release_data_segment e (flit_len bs) else e)\<lparr>ep_rx := (ep_rx e)[unat v := None]\<rparr>))"

lemma open_segment_partial:
  assumes "gdp_packet_decode bs (ep_cfg e) prefix = Ok p" "ep_rx e ! i = partial_seg tr bs k" "i < length (ep_rx e)"
  shows "\<exists>s e'. open_segment e i tr (flit_word bs k) = (Ok s, e') \<and>
    s = \<lparr>rs_bytes = concat (map (\<lambda>j. to_be 4 (flit_word bs j)) [0..<k]), rs_expected_bytes = length bs,
         rs_expected_flits = flit_len bs, rs_received_flits = k, rs_traffic = tr\<rparr> \<and>
    (\<exists>x. e' = e\<lparr>ep_rx := (ep_rx e)[i := x]\<rparr>)"
proof (cases "k = 0")
  case True
  then show ?thesis using assms segment_of_packet(1)[OF assms(1)] by (auto simp: open_segment_def partial_seg_def)
next
  case False
  moreover have "e = e\<lparr>ep_rx := (ep_rx e)[i := ep_rx e ! i]\<rparr>" by simp
  ultimately show ?thesis using assms by (auto simp: open_segment_def partial_seg_def)
qed

lemma receive_segment:
  assumes d: "gdp_packet_decode bs (ep_cfg e) (ep_local_prefix e) = Ok p"
    and s: "ep_rx e ! unat v = partial_seg tr bs k" "unat v < length (ep_rx e)" "k < flit_len bs"
  shows "sbind (open_segment e (unat v) tr (flit_word bs k)) (\<lambda>s e. append_flit e (unat v) tr (flit_word bs k) s) = push_seg e tr v bs k p"
proof -
  obtain x where o: "open_segment e (unat v) tr (flit_word bs k) =
      (Ok \<lparr>rs_bytes = concat (map (\<lambda>j. to_be 4 (flit_word bs j)) [0..<k]), rs_expected_bytes = length bs,
         rs_expected_flits = flit_len bs, rs_received_flits = k, rs_traffic = tr\<rparr>, e\<lparr>ep_rx := (ep_rx e)[unat v := x]\<rparr>)"
    using open_segment_partial[OF d s(1,2)] by auto
  have all: "take (length bs) (concat (map (\<lambda>j. to_be 4 (flit_word bs j)) [0..<k]) @ to_be 4 (flit_word bs k)) = bs" if "flit_len bs = Suc k"
    using flit_words_all[of bs] that by simp
  show ?thesis
  proof (cases "Suc k < flit_len bs")
    case True
    then show ?thesis unfolding o by (simp add: append_flit_def push_seg_def partial_seg_def)
  next
    case False
    then have k: "flit_len bs = Suc k" using s(3) by simp
    show ?thesis unfolding o using d
      by (simp add: k append_flit_def push_seg_def finish_segment_def all[OF k] release_data_segment_def Let_def del: take_append)
  qed
qed

definition charge :: "DlpEndpoint \<Rightarrow> DlpEndpoint" where
  "charge e = e\<lparr>ep_data_credit_outstanding := ep_data_credit_outstanding e - 1, ep_data_rx_in_use := ep_data_rx_in_use e + 1\<rparr>"

lemma charge_simps [simp]: "ep_cfg (charge e) = ep_cfg e" "ep_local_prefix (charge e) = ep_local_prefix e"
  "ep_rx (charge e) = ep_rx e" "ep_desynchronized (charge e) = ep_desynchronized e"
  by (simp_all add: charge_def)

lemma receive_flit:
  assumes up: "ep_link_up e" "v < vc_mode_count (ep_vc_mode e)" "\<not> ep_desynchronized e ! unat v" "length (ep_rx e) = 4"
    and d: "gdp_packet_decode bs (ep_cfg e) (ep_local_prefix e) = Ok p"
    and s: "ep_rx e ! unat v = partial_seg tr bs k" "k < flit_len bs"
    and tr: "tr = (if v = 0 then Control else Data)"
    and credit: "tr = Data \<Longrightarrow> ep_data_credit_outstanding e \<noteq> 0 \<and> ep_data_rx_in_use e < ep_rx_buffer_flits e"
  shows "dlp_receive e \<lparr>flit_vcid = v, flit_data = flit_word bs k\<rparr> = push_seg (if tr = Data then charge e else e) tr v bs k p"
proof -
  let ?e = "if tr = Data then charge e else e"
  have "vc_mode_count (ep_vc_mode e) \<le> 4" by (cases "ep_vc_mode e") simp_all
  then have v: "unat v < length (ep_rx ?e)" using up by (simp add: word_le_nat_alt word_less_nat_alt)
  have "gdp_packet_decode bs (ep_cfg ?e) (ep_local_prefix ?e) = Ok p" "ep_rx ?e ! unat v = partial_seg tr bs k" using d s by simp_all
  from receive_segment[OF this v s(2)] show ?thesis
    using up credit by (simp add: dlp_receive_def tr vcid_is_control_def word_less_nat_alt word_le_nat_alt charge_def Let_def split: if_splits)
qed

section \<open>A lane\<close>

text \<open>A lane carries the packets \<open>pend\<close> still to be delivered as the flits \<open>stream\<close>, after \<open>k\<close> flits of the first
  frame have already arrived; \<open>seg\<close> gives the segments open at the receiver on the lane's channels.\<close>

definition lane :: "(bytes \<Rightarrow> GdpPacket result) \<Rightarrow> Vcid set \<Rightarrow> LinkTraffic \<Rightarrow> (Vcid \<Rightarrow> RxSegment option) \<Rightarrow> GdpPacket list \<Rightarrow> Flit list \<Rightarrow> nat \<Rightarrow> bool" where
  "lane dec vcs tr seg pend stream k \<longleftrightarrow> (\<exists>fs. list_all2 (\<lambda>p (v, bs). v \<in> vcs \<and> dec bs = Ok p \<and> 0 < flit_len bs) pend fs \<and>
     stream = drop k (concat (map (\<lambda>(v, bs). frame_of v bs) fs)) \<and>
     (case fs of [] \<Rightarrow> k = 0 \<and> (\<forall>v \<in> vcs. seg v = None)
      | (v0, bs) # _ \<Rightarrow> k < flit_len bs \<and> (\<forall>v \<in> vcs. seg v = (if v = v0 then partial_seg tr bs k else None))))"

lemma lane_init: "(\<forall>v \<in> vcs. seg v = None) \<Longrightarrow> lane dec vcs tr seg [] [] 0"
  unfolding lane_def by (rule exI[of _ "[]"]) simp

lemma lane_cong: "(\<And>v. v \<in> vcs \<Longrightarrow> seg v = seg' v) \<Longrightarrow> lane dec vcs tr seg pend stream k = lane dec vcs tr seg' pend stream k"
  unfolding lane_def by (intro ex_cong conj_cong refl) (auto split: list.split)

lemma lane_send:
  assumes "lane dec vcs tr seg pend stream k" "v \<in> vcs" "dec bs = Ok p" "0 < flit_len bs"
  shows "lane dec vcs tr seg (pend @ [p]) (stream @ frame_of v bs) k"
proof -
  obtain fs where fs: "list_all2 (\<lambda>p (v, bs). v \<in> vcs \<and> dec bs = Ok p \<and> 0 < flit_len bs) pend fs"
    "stream = drop k (concat (map (\<lambda>(v, bs). frame_of v bs) fs))"
    "case fs of [] \<Rightarrow> k = 0 \<and> (\<forall>v \<in> vcs. seg v = None)
      | (v0, bs) # _ \<Rightarrow> k < flit_len bs \<and> (\<forall>v \<in> vcs. seg v = (if v = v0 then partial_seg tr bs k else None))"
    using assms(1) unfolding lane_def by blast
  have "k \<le> length (concat (map (\<lambda>(v, bs). frame_of v bs) fs))"
    using fs(3) by (cases fs) auto
  then have "stream @ frame_of v bs = drop k (concat (map (\<lambda>(v, bs). frame_of v bs) (fs @ [(v, bs)])))"
    using fs(2) by simp
  moreover have "case fs @ [(v, bs)] of [] \<Rightarrow> k = 0 \<and> (\<forall>v \<in> vcs. seg v = None)
      | (v0, bs) # _ \<Rightarrow> k < flit_len bs \<and> (\<forall>v \<in> vcs. seg v = (if v = v0 then partial_seg tr bs k else None))"
    using fs(3) assms(4) by (cases fs) (auto simp: partial_seg_def)
  ultimately show ?thesis unfolding lane_def using fs(1) assms(2-4)
    by (intro exI[of _ "fs @ [(v, bs)]"]) (simp add: list_all2_appendI)
qed

lemma lane_drained: "lane dec vcs tr seg pend [] k \<Longrightarrow> pend = []"
proof -
  assume "lane dec vcs tr seg pend [] k"
  then obtain fs where fs: "list_all2 (\<lambda>p (v, bs). v \<in> vcs \<and> dec bs = Ok p \<and> 0 < flit_len bs) pend fs"
    "[] = drop k (concat (map (\<lambda>(v, bs). frame_of v bs) fs))"
    "case fs of [] \<Rightarrow> True | (v0, bs) # _ \<Rightarrow> k < flit_len bs"
    unfolding lane_def by (force split: list.splits)
  have "fs = []" using fs(2,3) by (cases fs) auto
  then show ?thesis using fs(1) by simp
qed

text \<open>The head of the stream is the next flit of the first frame; afterwards the lane is one flit further or
  has delivered the packet.\<close>

lemma lane_arrive:
  assumes "lane dec vcs tr seg pend (f # stream) k"
  obtains v bs p pend' where "pend = p # pend'" "f = \<lparr>flit_vcid = v, flit_data = flit_word bs k\<rparr>" "v \<in> vcs" "k < flit_len bs"
    "dec bs = Ok p" "seg v = partial_seg tr bs k"
    "Suc k < flit_len bs \<Longrightarrow> lane dec vcs tr (seg(v := partial_seg tr bs (Suc k))) pend stream (Suc k)"
    "\<not> Suc k < flit_len bs \<Longrightarrow> lane dec vcs tr (seg(v := None)) pend' stream 0"
proof -
  obtain fs where fs: "list_all2 (\<lambda>p (v, bs). v \<in> vcs \<and> dec bs = Ok p \<and> 0 < flit_len bs) pend fs"
    "f # stream = drop k (concat (map (\<lambda>(v, bs). frame_of v bs) fs))"
    "case fs of [] \<Rightarrow> k = 0 \<and> (\<forall>v \<in> vcs. seg v = None)
      | (v0, bs) # _ \<Rightarrow> k < flit_len bs \<and> (\<forall>v \<in> vcs. seg v = (if v = v0 then partial_seg tr bs k else None))"
    using assms unfolding lane_def by blast
  obtain v bs fs' where c: "fs = (v, bs) # fs'" using fs(2) by (cases fs) auto
  obtain p pend' where p: "pend = p # pend'" "v \<in> vcs" "dec bs = Ok p"
    and fs': "list_all2 (\<lambda>p (v, bs). v \<in> vcs \<and> dec bs = Ok p \<and> 0 < flit_len bs) pend' fs'"
    using fs(1) c by (auto simp: list_all2_Cons2)
  have k: "k < flit_len bs" and seg: "\<forall>u \<in> vcs. seg u = (if u = v then partial_seg tr bs k else None)" using fs(3) c by simp_all
  have st: "f = \<lparr>flit_vcid = v, flit_data = flit_word bs k\<rparr>" "stream = drop (Suc k) (frame_of v bs) @ concat (map (\<lambda>(v, bs). frame_of v bs) fs')"
    using fs(2) c frame_of_nth[OF k, of v] k by auto
  have "lane dec vcs tr (seg(v := partial_seg tr bs (Suc k))) pend stream (Suc k)" if "Suc k < flit_len bs"
    unfolding lane_def using fs(1) st(2) seg that c by (intro exI[of _ fs]) auto
  moreover have "lane dec vcs tr (seg(v := None)) pend' stream 0" if "\<not> Suc k < flit_len bs"
  proof -
    have "stream = concat (map (\<lambda>(v, bs). frame_of v bs) fs')" using st(2) that by simp
    moreover have "case fs' of [] \<Rightarrow> True | (w, cs) # _ \<Rightarrow> 0 < flit_len cs" using fs' by (cases fs') (auto simp: list_all2_Cons2)
    ultimately show ?thesis unfolding lane_def using fs' seg
      by (intro exI[of _ fs']) (auto simp: partial_seg_def split: list.splits)
  qed
  ultimately show thesis using that[of p pend' v bs] p st(1) k seg by auto
qed

section \<open>Two endpoints and a wire\<close>

record dlp_wire =
  w_tx :: DlpEndpoint
  w_rx :: DlpEndpoint
  w_flits :: "Flit list"
  w_sent_data :: "GdpPacket list"
  w_sent_control :: "GdpPacket list"
  w_got_data :: "GdpPacket list"
  w_got_control :: "GdpPacket list"

definition got :: "GdpPacket option result \<Rightarrow> GdpPacket list" where
  "got r = (case r of Ok (Some p) \<Rightarrow> [p] | _ \<Rightarrow> [])"

definition sendable :: "dlp_wire \<Rightarrow> GdpPacket \<Rightarrow> bool" where
  "sendable s p \<longleftrightarrow> gdp_packet_wf p \<and> prefix_matches (pkt_header p) (ep_local_prefix (w_rx s))"

inductive wire_step :: "dlp_wire \<Rightarrow> dlp_wire \<Rightarrow> bool" where
  send_data: "sendable s p \<Longrightarrow> queue_data_packet (w_tx s) p = (r, tx) \<Longrightarrow>
    wire_step s (s\<lparr>w_tx := tx, w_sent_data := w_sent_data s @ (if is_ok r then [p] else [])\<rparr>)"
| send_control: "sendable s p \<Longrightarrow> queue_control_packet (w_tx s) p = (r, tx) \<Longrightarrow>
    wire_step s (s\<lparr>w_tx := tx, w_sent_control := w_sent_control s @ (if is_ok r then [p] else [])\<rparr>)"
| burst: "poll_tx_burst (w_tx s) out = (r, (tx, out')) \<Longrightarrow>
    wire_step s (s\<lparr>w_tx := tx, w_flits := w_flits s @ (case r of Ok n \<Rightarrow> take n out' | _ \<Rightarrow> [])\<rparr>)"
| arrive_data: "w_flits s = f # fs \<Longrightarrow> flit_vcid f \<noteq> 0 \<Longrightarrow> dlp_receive (w_rx s) f = (r, rx) \<Longrightarrow>
    wire_step s (s\<lparr>w_rx := rx, w_flits := fs, w_got_data := w_got_data s @ got r\<rparr>)"
| arrive_control: "w_flits s = f # fs \<Longrightarrow> flit_vcid f = 0 \<Longrightarrow> dlp_receive (w_rx s) f = (r, rx) \<Longrightarrow>
    wire_step s (s\<lparr>w_rx := rx, w_flits := fs, w_got_control := w_got_control s @ got r\<rparr>)"
| grant_data: "note_data_credit_granted (w_rx s) n = (Ok (), rx) \<Longrightarrow>
    wire_step s (s\<lparr>w_rx := rx, w_tx := grant_data_tx_credit (w_tx s) n\<rparr>)"
| grant_control: "wire_step s (s\<lparr>w_tx := grant_control_tx_credit (w_tx s) n\<rparr>)"

definition wire_init :: "dlp_wire \<Rightarrow> bool" where
  "wire_init s \<longleftrightarrow> (\<exists>a b. dlp_new a = Ok (w_tx s) \<and> dlp_new b = Ok (w_rx s) \<and> dc_gdp a = dc_gdp b \<and> dc_vc_mode a = dc_vc_mode b) \<and>
    w_flits s = [] \<and> w_sent_data s = [] \<and> w_sent_control s = [] \<and> w_got_data s = [] \<and> w_got_control s = []"

inductive wire_reach :: "dlp_wire \<Rightarrow> bool" where
  reach_init: "wire_init s \<Longrightarrow> wire_reach s"
| reach_step: "wire_reach s \<Longrightarrow> wire_step s s' \<Longrightarrow> wire_reach s'"

definition data_vcs :: "VcMode \<Rightarrow> Vcid set" where
  "data_vcs m = {v. 0 < v \<and> v < vc_mode_count m}"

abbreviation rx_dec :: "dlp_wire \<Rightarrow> bytes \<Rightarrow> GdpPacket result" where
  "rx_dec s \<equiv> \<lambda>bs. gdp_packet_decode bs (ep_cfg (w_rx s)) (ep_local_prefix (w_rx s))"

abbreviation rx_seg :: "dlp_wire \<Rightarrow> Vcid \<Rightarrow> RxSegment option" where
  "rx_seg s \<equiv> \<lambda>v. ep_rx (w_rx s) ! unat v"

definition data_stream :: "dlp_wire \<Rightarrow> Flit list" where
  "data_stream s = filter (\<lambda>f. flit_vcid f \<noteq> 0) (w_flits s) @ queue_stream (ep_data_tx_queue (w_tx s))"

definition control_stream :: "dlp_wire \<Rightarrow> Flit list" where
  "control_stream s = filter (\<lambda>f. flit_vcid f = 0) (w_flits s) @ queue_stream (ep_control_tx_queue (w_tx s))"

definition ends_ok :: "dlp_wire \<Rightarrow> bool" where
  "ends_ok s \<longleftrightarrow> ep_link_up (w_tx s) \<and> ep_link_up (w_rx s) \<and> ep_cfg (w_tx s) = ep_cfg (w_rx s) \<and> ep_vc_mode (w_tx s) = ep_vc_mode (w_rx s) \<and>
    length (ep_rx (w_rx s)) = 4 \<and> ep_desynchronized (w_rx s) = replicate 4 False \<and>
    ep_next_data_vc (w_tx s) \<in> data_vcs (ep_vc_mode (w_rx s)) \<and>
    (\<forall>f \<in> set (ep_data_tx_queue (w_tx s)). tf_vcid f \<noteq> 0) \<and> (\<forall>f \<in> set (ep_control_tx_queue (w_tx s)). tf_vcid f = 0)"

definition data_ok :: "dlp_wire \<Rightarrow> bool" where
  "data_ok s \<longleftrightarrow> (\<exists>pend k. w_sent_data s = w_got_data s @ pend \<and>
    lane (rx_dec s) (data_vcs (ep_vc_mode (w_rx s))) Data (rx_seg s) pend (data_stream s) k \<and> unat (ep_data_rx_in_use (w_rx s)) = k)"

definition control_ok :: "dlp_wire \<Rightarrow> bool" where
  "control_ok s \<longleftrightarrow> (\<exists>pend k. w_sent_control s = w_got_control s @ pend \<and>
    lane (rx_dec s) {0} Control (rx_seg s) pend (control_stream s) k)"

definition credit_ok :: "dlp_wire \<Rightarrow> bool" where
  "credit_ok s \<longleftrightarrow>
    unat (ep_data_tx_credit (w_tx s)) + length (filter (\<lambda>f. flit_vcid f \<noteq> 0) (w_flits s)) = unat (ep_data_credit_outstanding (w_rx s)) \<and>
    unat (ep_data_credit_outstanding (w_rx s)) + unat (ep_data_rx_in_use (w_rx s)) \<le> unat (ep_rx_buffer_flits (w_rx s))"

definition wire_inv :: "dlp_wire \<Rightarrow> bool" where
  "wire_inv s \<longleftrightarrow> ends_ok s \<and> data_ok s \<and> control_ok s \<and> credit_ok s"

lemma dlp_new_fields:
  "dlp_new c = Ok e \<Longrightarrow> ep_cfg e = dc_gdp c \<and> ep_vc_mode e = dc_vc_mode c \<and> ep_data_tx_credit e = 0 \<and> ep_data_credit_outstanding e = 0 \<and>
    ep_data_rx_in_use e = 0 \<and> ep_control_tx_queue e = [] \<and> ep_data_tx_queue e = [] \<and> ep_rx e = replicate 4 None \<and>
    ep_desynchronized e = replicate 4 False \<and> ep_next_data_vc e = 1 \<and> ep_link_up e"
  by (auto simp: dlp_new_def split: if_splits)

lemma wire_inv_init: "wire_init s \<Longrightarrow> wire_inv s"
proof -
  assume "wire_init s"
  then obtain a b where ab: "dlp_new a = Ok (w_tx s)" "dlp_new b = Ok (w_rx s)" "dc_gdp a = dc_gdp b" "dc_vc_mode a = dc_vc_mode b"
    and e: "w_flits s = []" "w_sent_data s = []" "w_sent_control s = []" "w_got_data s = []" "w_got_control s = []"
    unfolding wire_init_def by blast
  have m: "1 \<in> data_vcs m" for m by (cases m) (simp_all add: data_vcs_def)
  have v: "v \<in> data_vcs m \<Longrightarrow> unat v < 4" for v m by (cases m) (auto simp: data_vcs_def word_less_nat_alt)
  note tx = dlp_new_fields[OF ab(1)] dlp_new_fields[OF ab(2)]
  have "ends_ok s" using ab(3,4) tx m by (simp add: ends_ok_def)
  moreover have "data_ok s" unfolding data_ok_def
    using tx e lane_init[of "data_vcs (ep_vc_mode (w_rx s))" "rx_seg s"] v by (auto simp: data_stream_def)
  moreover have "control_ok s" unfolding control_ok_def
    using tx e lane_init[of "{0}" "rx_seg s"] by (auto simp: control_stream_def)
  moreover have "credit_ok s" using tx e by (simp add: credit_ok_def)
  ultimately show ?thesis by (simp add: wire_inv_def)
qed

section \<open>Every step keeps the invariant\<close>

lemma unat_inc: "x < y \<Longrightarrow> unat (x + 1) = unat x + 1" for x y :: u32
proof -
  assume "x < y"
  then have "unat x < unat y" by (simp add: word_less_nat_alt)
  moreover have "unat y < 4294967296" by simp
  ultimately have "unat x + 1 < 4294967296" by linarith
  then show ?thesis by (simp add: unat_word_ariths)
qed

lemma unat_dec: "x \<noteq> 0 \<Longrightarrow> unat (x - 1) = unat x - 1" for x :: u32
  by (rule unat_minus_one)

lemma frame_flits_vcid: "x \<in> set (frame_flits f) \<Longrightarrow> flit_vcid x = tf_vcid f"
  by (auto simp: frame_flits_def)

lemma sendable_bytes:
  assumes "ends_ok s" "sendable s p"
  shows "\<exists>bs. gdp_packet_encode p (ep_cfg (w_tx s)) = Ok bs \<and> rx_dec s bs = Ok p \<and> 0 < flit_len bs"
proof -
  let ?b = "gdp_header_bytes (pkt_header p) (ep_cfg (w_rx s)) @ pkt_payload p"
  have e: "gdp_packet_encode p (ep_cfg (w_tx s)) = Ok ?b" "rx_dec s ?b = Ok p"
    using assms gdp_packet_encode_eq gdp_packet_decode_eq by (simp_all add: sendable_def ends_ok_def)
  moreover have "0 < flit_len ?b" using segment_of_packet(2)[OF e(2)] by (simp add: flit_len_def)
  ultimately show ?thesis by blast
qed

lemma next_vc_ok:
  assumes "v \<in> data_vcs m"
  shows "(if vc_mode_count m \<le> v + 1 then 1 else v + 1) \<in> data_vcs m"
proof -
  have "unat v < 4" using assms by (cases m) (auto simp: data_vcs_def word_less_nat_alt)
  then have "unat (v + 1) = unat v + 1" by (simp add: unat_word_ariths)
  then show ?thesis using assms by (cases m) (auto simp: data_vcs_def word_less_nat_alt word_le_nat_alt)
qed

lemma inv_send_data:
  assumes "wire_inv s" "sendable s p" "queue_data_packet (w_tx s) p = (r, tx)"
  shows "wire_inv (s\<lparr>w_tx := tx, w_sent_data := w_sent_data s @ (if is_ok r then [p] else [])\<rparr>)"
proof -
  have ends: "ends_ok s" using assms(1) by (simp add: wire_inv_def)
  let ?v = "ep_next_data_vc (w_tx s)" and ?m = "ep_vc_mode (w_tx s)"
  obtain bs where bs: "gdp_packet_encode p (ep_cfg (w_tx s)) = Ok bs" "rx_dec s bs = Ok p" "0 < flit_len bs"
    using sendable_bytes[OF ends assms(2)] by blast
  let ?f = "\<lparr>tf_vcid = ?v, tf_traffic = Data, tf_bytes = bs, tf_flit_offset = 0\<rparr>"
  have v: "?v \<in> data_vcs ?m" "?v \<noteq> 0" "\<not> vc_mode_count ?m \<le> ?v" "ep_link_up (w_tx s)"
    using ends by (auto simp: ends_ok_def data_vcs_def)
  have tx: "r = Ok (flit_len bs)" "tx = (w_tx s)\<lparr>ep_next_data_vc := if vc_mode_count ?m \<le> ?v + 1 then 1 else ?v + 1,
      ep_data_tx_queue := ep_data_tx_queue (w_tx s) @ [?f]\<rparr>"
    using assms(3) v bs(1)
    by (auto simp: queue_data_packet_def choose_data_vc_def queue_packet_on_def vcid_is_control_def Let_def)
  have fl: "frame_flits ?f = frame_of ?v bs" by (simp add: frame_flits_def frame_of_def)
  let ?s = "s\<lparr>w_tx := tx, w_sent_data := w_sent_data s @ [p]\<rparr>"
  have "ends_ok ?s" using ends v next_vc_ok[OF v(1)] by (auto simp: ends_ok_def tx(2))
  moreover have "data_ok ?s"
  proof -
    obtain pend k where p: "w_sent_data s = w_got_data s @ pend" "unat (ep_data_rx_in_use (w_rx s)) = k"
      and l: "lane (rx_dec s) (data_vcs (ep_vc_mode (w_rx s))) Data (rx_seg s) pend (data_stream s) k"
      using assms(1) unfolding wire_inv_def data_ok_def by blast
    have "?v \<in> data_vcs (ep_vc_mode (w_rx s))" using v ends by (simp add: ends_ok_def)
    from lane_send[OF l this bs(2,3)] p show ?thesis
      unfolding data_ok_def by (intro exI[of _ "pend @ [p]"] exI[of _ k]) (simp add: data_stream_def tx(2) fl)
  qed
  moreover have "control_ok ?s" "credit_ok ?s"
    using assms(1) by (simp_all add: wire_inv_def control_ok_def credit_ok_def control_stream_def tx(2))
  ultimately show ?thesis by (simp add: wire_inv_def tx(1) is_ok_iff)
qed

lemma inv_send_control:
  assumes "wire_inv s" "sendable s p" "queue_control_packet (w_tx s) p = (r, tx)"
  shows "wire_inv (s\<lparr>w_tx := tx, w_sent_control := w_sent_control s @ (if is_ok r then [p] else [])\<rparr>)"
proof -
  have ends: "ends_ok s" using assms(1) by (simp add: wire_inv_def)
  let ?m = "ep_vc_mode (w_tx s)"
  obtain bs where bs: "gdp_packet_encode p (ep_cfg (w_tx s)) = Ok bs" "rx_dec s bs = Ok p" "0 < flit_len bs"
    using sendable_bytes[OF ends assms(2)] by blast
  let ?f = "\<lparr>tf_vcid = 0, tf_traffic = Control, tf_bytes = bs, tf_flit_offset = 0\<rparr>"
  have "\<not> vc_mode_count ?m \<le> 0" by (cases ?m) simp_all
  then have tx: "r = Ok (flit_len bs)" "tx = (w_tx s)\<lparr>ep_control_tx_queue := ep_control_tx_queue (w_tx s) @ [?f]\<rparr>"
    using assms(3) ends bs(1) by (auto simp: queue_control_packet_def queue_packet_on_def vcid_is_control_def vcid_control_def ends_ok_def Let_def)
  have fl: "frame_flits ?f = frame_of 0 bs" by (simp add: frame_flits_def frame_of_def)
  let ?s = "s\<lparr>w_tx := tx, w_sent_control := w_sent_control s @ [p]\<rparr>"
  have "ends_ok ?s" using ends by (auto simp: ends_ok_def tx(2))
  moreover have "control_ok ?s"
  proof -
    obtain pend k where p: "w_sent_control s = w_got_control s @ pend"
      and l: "lane (rx_dec s) {0} Control (rx_seg s) pend (control_stream s) k"
      using assms(1) unfolding wire_inv_def control_ok_def by blast
    from lane_send[OF l _ bs(2,3), of 0] p show ?thesis
      unfolding control_ok_def by (intro exI[of _ "pend @ [p]"] exI[of _ k]) (simp add: control_stream_def tx(2) fl)
  qed
  moreover have "data_ok ?s" "credit_ok ?s"
    using assms(1) by (simp_all add: wire_inv_def data_ok_def credit_ok_def data_stream_def tx(2))
  ultimately show ?thesis by (simp add: wire_inv_def tx(1) is_ok_iff)
qed

lemma filter_vcid:
  assumes "xs @ queue_stream q' = queue_stream q" "\<forall>f \<in> set q. P (tf_vcid f)"
  shows "filter (\<lambda>x. P (flit_vcid x)) xs = xs" "filter (\<lambda>x. \<not> P (flit_vcid x)) xs = []"
proof -
  have "\<forall>x \<in> set xs. x \<in> set (queue_stream q)" using assms(1) by (metis Un_iff set_append)
  then have "\<forall>x \<in> set xs. P (flit_vcid x)" using assms(2) frame_flits_vcid by fastforce
  then show "filter (\<lambda>x. P (flit_vcid x)) xs = xs" "filter (\<lambda>x. \<not> P (flit_vcid x)) xs = []" by (simp_all add: filter_id_conv filter_empty_conv)
qed

text \<open>A burst moves flits of both queues to the wire, control first, and pays for them.\<close>

lemma burst_effect:
  assumes "poll_tx_burst e out = (r, (e', out'))" "ep_link_up e"
  shows "\<exists>cf df cq dq cc dc. e' = e\<lparr>ep_control_tx_queue := cq, ep_control_tx_credit := cc, ep_data_tx_queue := dq, ep_data_tx_credit := dc\<rparr> \<and>
    (case r of Ok n \<Rightarrow> take n out' | _ \<Rightarrow> []) = cf @ df \<and>
    cf @ queue_stream cq = queue_stream (ep_control_tx_queue e) \<and> df @ queue_stream dq = queue_stream (ep_data_tx_queue e) \<and>
    unat dc + length df = unat (ep_data_tx_credit e) \<and>
    (\<forall>f' \<in> set cq. \<exists>f \<in> set (ep_control_tx_queue e). same_frame f' f) \<and> (\<forall>f' \<in> set dq. \<exists>f \<in> set (ep_data_tx_queue e). same_frame f' f)"
proof (cases "out = []")
  case True
  then have "r = Ok 0" "e' = e" using assms by (auto simp: poll_tx_burst_def)
  then show ?thesis
    by (intro exI[of _ "[]"] exI[of _ "[]"] exI[of _ "ep_control_tx_queue e"] exI[of _ "ep_data_tx_queue e"]
        exI[of _ "ep_control_tx_credit e"] exI[of _ "ep_data_tx_credit e"]) (auto simp: same_frame_def)
next
  case False
  obtain cf cq cc where c: "emit_queue_flits (ep_control_tx_queue e) (ep_control_tx_credit e) (length out) = (cf, cq, cc)" by (metis prod_cases3)
  obtain df dq dc where d: "emit_queue_flits (ep_data_tx_queue e) (ep_data_tx_credit e) (length out - length cf) = (df, dq, dc)" by (metis prod_cases3)
  note cs = emit_queue_flits_spec[OF c] and ds = emit_queue_flits_spec[OF d]
  have r: "r = (if length cf + length df \<noteq> 0 then Ok (length cf + length df) else if cq = [] \<and> dq = [] then Ok 0 else Err NoCredit)"
    and e': "e' = e\<lparr>ep_control_tx_queue := cq, ep_control_tx_credit := cc, ep_data_tx_queue := dq, ep_data_tx_credit := dc\<rparr>"
    and o: "out' = cf @ df @ drop (length cf + length df) out"
    using assms False by (auto simp: poll_tx_burst_def c d Let_def)
  have "(case r of Ok n \<Rightarrow> take n out' | _ \<Rightarrow> []) = cf @ df" by (auto simp: r o)
  then show ?thesis using cs ds e' by blast
qed

lemma inv_burst:
  assumes "wire_inv s" "poll_tx_burst (w_tx s) out = (r, (tx, out'))"
  shows "wire_inv (s\<lparr>w_tx := tx, w_flits := w_flits s @ (case r of Ok n \<Rightarrow> take n out' | _ \<Rightarrow> [])\<rparr>)"
proof -
  have ends: "ends_ok s" using assms(1) by (simp add: wire_inv_def)
  then have up: "ep_link_up (w_tx s)" by (simp add: ends_ok_def)
  obtain cf df cq dq cc dc where b: "tx = (w_tx s)\<lparr>ep_control_tx_queue := cq, ep_control_tx_credit := cc, ep_data_tx_queue := dq, ep_data_tx_credit := dc\<rparr>"
      "(case r of Ok n \<Rightarrow> take n out' | _ \<Rightarrow> []) = cf @ df"
      "cf @ queue_stream cq = queue_stream (ep_control_tx_queue (w_tx s))" "df @ queue_stream dq = queue_stream (ep_data_tx_queue (w_tx s))"
      "unat dc + length df = unat (ep_data_tx_credit (w_tx s))"
      "\<forall>f' \<in> set cq. \<exists>f \<in> set (ep_control_tx_queue (w_tx s)). same_frame f' f" "\<forall>f' \<in> set dq. \<exists>f \<in> set (ep_data_tx_queue (w_tx s)). same_frame f' f"
    using burst_effect[OF assms(2) up] by blast
  have c: "filter (\<lambda>f. flit_vcid f = 0) cf = cf" "filter (\<lambda>f. flit_vcid f \<noteq> 0) cf = []"
    using filter_vcid[OF b(3), of "\<lambda>v. v = 0"] ends by (simp_all add: ends_ok_def)
  have d: "filter (\<lambda>f. flit_vcid f = 0) df = []" "filter (\<lambda>f. flit_vcid f \<noteq> 0) df = df"
    using filter_vcid[OF b(4), of "\<lambda>v. v \<noteq> 0"] ends by (simp_all add: ends_ok_def)
  let ?s = "s\<lparr>w_tx := tx, w_flits := w_flits s @ cf @ df\<rparr>"
  have "data_stream ?s = data_stream s" "control_stream ?s = control_stream s"
    using b(1,3,4) c d by (simp_all add: data_stream_def control_stream_def)
  then have "data_ok ?s" "control_ok ?s" using assms(1) by (simp_all add: wire_inv_def data_ok_def control_ok_def)
  moreover have "ends_ok ?s" using ends b(1,6,7) by (fastforce simp: ends_ok_def same_frame_def)
  moreover have "credit_ok ?s" using assms(1) b(1,5) c d by (simp add: wire_inv_def credit_ok_def)
  ultimately show ?thesis unfolding b(2) by (simp add: wire_inv_def)
qed

lemma seg_update:
  fixes v :: Vcid
  assumes "unat v < length xs"
  shows "(\<lambda>w. xs[unat v := x] ! unat w) = (\<lambda>w. xs ! unat w)(v := x)"
proof
  fix w :: Vcid
  show "xs[unat v := x] ! unat w = ((\<lambda>w. xs ! unat w)(v := x)) w"
    using assms by (cases "w = v") (simp_all add: nth_list_update word_unat_eq_iff eq_commute)
qed

text \<open>An arriving flit is the next one of its lane, and is taken.\<close>

lemma data_arrival:
  assumes "wire_inv s" "w_flits s = f # fs" "flit_vcid f \<noteq> 0"
  obtains v bs p pend' k where "f = \<lparr>flit_vcid = v, flit_data = flit_word bs k\<rparr>" "v \<in> data_vcs (ep_vc_mode (w_rx s))" "unat v < 4" "k < flit_len bs"
    "w_sent_data s = w_got_data s @ p # pend'" "unat (ep_data_rx_in_use (w_rx s)) = k" "length bs \<le> 8212"
    "dlp_receive (w_rx s) f = push_seg (charge (w_rx s)) Data v bs k p"
    "Suc k < flit_len bs \<Longrightarrow> lane (rx_dec s) (data_vcs (ep_vc_mode (w_rx s))) Data ((rx_seg s)(v := partial_seg Data bs (Suc k))) (p # pend')
       (filter (\<lambda>f. flit_vcid f \<noteq> 0) fs @ queue_stream (ep_data_tx_queue (w_tx s))) (Suc k)"
    "\<not> Suc k < flit_len bs \<Longrightarrow> lane (rx_dec s) (data_vcs (ep_vc_mode (w_rx s))) Data ((rx_seg s)(v := None)) pend'
       (filter (\<lambda>f. flit_vcid f \<noteq> 0) fs @ queue_stream (ep_data_tx_queue (w_tx s))) 0"
proof -
  have ends: "ends_ok s" and credit: "credit_ok s" using assms(1) by (simp_all add: wire_inv_def)
  obtain pend k where p: "w_sent_data s = w_got_data s @ pend" "unat (ep_data_rx_in_use (w_rx s)) = k"
    and l: "lane (rx_dec s) (data_vcs (ep_vc_mode (w_rx s))) Data (rx_seg s) pend
      (f # filter (\<lambda>f. flit_vcid f \<noteq> 0) fs @ queue_stream (ep_data_tx_queue (w_tx s))) k"
    using assms unfolding wire_inv_def data_ok_def data_stream_def by auto
  from l obtain v bs q pend' where a: "pend = q # pend'" "f = \<lparr>flit_vcid = v, flit_data = flit_word bs k\<rparr>" "v \<in> data_vcs (ep_vc_mode (w_rx s))"
      "k < flit_len bs" "rx_dec s bs = Ok q" "rx_seg s v = partial_seg Data bs k"
    and n: "Suc k < flit_len bs \<Longrightarrow> lane (rx_dec s) (data_vcs (ep_vc_mode (w_rx s))) Data ((rx_seg s)(v := partial_seg Data bs (Suc k))) pend
       (filter (\<lambda>f. flit_vcid f \<noteq> 0) fs @ queue_stream (ep_data_tx_queue (w_tx s))) (Suc k)"
      "\<not> Suc k < flit_len bs \<Longrightarrow> lane (rx_dec s) (data_vcs (ep_vc_mode (w_rx s))) Data ((rx_seg s)(v := None)) pend'
       (filter (\<lambda>f. flit_vcid f \<noteq> 0) fs @ queue_stream (ep_data_tx_queue (w_tx s))) 0"
    by (rule lane_arrive) blast
  have v: "unat v < 4" "v \<noteq> 0" "v < vc_mode_count (ep_vc_mode (w_rx s))"
    using a(3) by (cases "ep_vc_mode (w_rx s)"; auto simp: data_vcs_def word_less_nat_alt)+
  have c: "unat (ep_data_credit_outstanding (w_rx s)) \<noteq> 0" using credit assms(2,3) by (simp add: credit_ok_def)
  then have b: "ep_data_credit_outstanding (w_rx s) \<noteq> 0" "ep_data_rx_in_use (w_rx s) < ep_rx_buffer_flits (w_rx s)"
    using credit by (auto simp: credit_ok_def word_less_nat_alt)
  have "dlp_receive (w_rx s) f = push_seg (charge (w_rx s)) Data v bs k q"
    using receive_flit[of "w_rx s" v bs q Data k] ends v a b by (simp add: ends_ok_def)
  then show thesis using that a p v n segment_of_packet(3)[OF a(5)] by auto
qed

lemma inv_arrive_data:
  assumes "wire_inv s" "w_flits s = f # fs" "flit_vcid f \<noteq> 0" "dlp_receive (w_rx s) f = (r, rx)"
  shows "wire_inv (s\<lparr>w_rx := rx, w_flits := fs, w_got_data := w_got_data s @ got r\<rparr>) \<and> is_ok r"
proof -
  have ends: "ends_ok s" and credit: "credit_ok s" using assms(1) by (simp_all add: wire_inv_def)
  from assms(1-3) obtain v bs p pend' k where a: "f = \<lparr>flit_vcid = v, flit_data = flit_word bs k\<rparr>" "v \<in> data_vcs (ep_vc_mode (w_rx s))" "unat v < 4" "k < flit_len bs"
    "w_sent_data s = w_got_data s @ p # pend'" "unat (ep_data_rx_in_use (w_rx s)) = k" "length bs \<le> 8212"
    and rcv: "dlp_receive (w_rx s) f = push_seg (charge (w_rx s)) Data v bs k p"
    and n: "Suc k < flit_len bs \<Longrightarrow> lane (rx_dec s) (data_vcs (ep_vc_mode (w_rx s))) Data ((rx_seg s)(v := partial_seg Data bs (Suc k))) (p # pend')
       (filter (\<lambda>f. flit_vcid f \<noteq> 0) fs @ queue_stream (ep_data_tx_queue (w_tx s))) (Suc k)"
    "\<not> Suc k < flit_len bs \<Longrightarrow> lane (rx_dec s) (data_vcs (ep_vc_mode (w_rx s))) Data ((rx_seg s)(v := None)) pend'
       (filter (\<lambda>f. flit_vcid f \<noteq> 0) fs @ queue_stream (ep_data_tx_queue (w_tx s))) 0"
    by (rule data_arrival) blast
  let ?x = "if Suc k < flit_len bs then partial_seg Data bs (Suc k) else None"
  let ?u = "if Suc k < flit_len bs then ep_data_rx_in_use (w_rx s) + 1 else saturating_sub (ep_data_rx_in_use (w_rx s) + 1) (of_nat (flit_len bs))"
  have rx: "rx = (w_rx s)\<lparr>ep_data_credit_outstanding := ep_data_credit_outstanding (w_rx s) - 1, ep_data_rx_in_use := ?u, ep_rx := (ep_rx (w_rx s))[unat v := ?x]\<rparr>"
    and r: "r = Ok (if Suc k < flit_len bs then None else Some p)"
    using assms(4) rcv by (auto simp: push_seg_def charge_def release_data_segment_def split: if_splits)
  have out: "unat (ep_data_credit_outstanding (w_rx s)) \<noteq> 0" using credit assms(2,3) by (simp add: credit_ok_def)
  then have "ep_data_rx_in_use (w_rx s) < ep_rx_buffer_flits (w_rx s)" using credit by (auto simp: credit_ok_def word_less_nat_alt)
  then have i: "unat (ep_data_rx_in_use (w_rx s) + 1) = Suc k" using unat_inc a(6) by simp
  have "flit_len bs \<le> 2053" using a(7) by (simp add: flit_len_def)
  then have "unat (of_nat (flit_len bs) :: u32) = flit_len bs" by (simp add: unat_of_nat)
  then have u: "unat ?u = (if Suc k < flit_len bs then Suc k else 0)" using i a(4) by (simp add: unat_saturating_sub)
  let ?s = "s\<lparr>w_rx := rx, w_flits := fs, w_got_data := w_got_data s @ got r\<rparr>"
  have len: "length (ep_rx (w_rx s)) = 4" using ends by (simp add: ends_ok_def)
  have seg: "(\<lambda>w. (ep_rx (w_rx s))[unat v := x] ! unat w) = (rx_seg s)(v := x)" for x
    using a(3) len by (intro seg_update) simp
  have "ends_ok ?s" using ends by (simp add: ends_ok_def rx)
  moreover have "data_ok ?s"
  proof (cases "Suc k < flit_len bs")
    case True
    then show ?thesis unfolding data_ok_def using n(1) a(5) u
      by (intro exI[of _ "p # pend'"] exI[of _ "Suc k"]) (simp add: r got_def data_stream_def seg rx)
  next
    case False
    then show ?thesis unfolding data_ok_def using n(2) a(5) u
      by (intro exI[of _ pend'] exI[of _ 0]) (simp add: r got_def data_stream_def seg rx)
  qed
  moreover have "control_ok ?s"
  proof -
    have "v \<noteq> 0" using a(2) by (auto simp: data_vcs_def)
    then have "lane dec {0} Control (rx_seg ?s) q st k' = lane dec {0} Control (rx_seg s) q st k'" for dec q st k'
      by (intro lane_cong) (simp add: rx unat_eq_zero)
    then show ?thesis using assms(1-3) by (simp add: wire_inv_def control_ok_def control_stream_def rx)
  qed
  moreover have "credit_ok ?s"
  proof -
    have "ep_data_credit_outstanding (w_rx s) \<noteq> 0" using out by auto
    from unat_dec[OF this] show ?thesis using credit assms(2,3) out u a(6) by (auto simp: credit_ok_def rx)
  qed
  ultimately show ?thesis by (simp add: wire_inv_def r is_ok_iff)
qed

lemma inv_arrive_control:
  assumes "wire_inv s" "w_flits s = f # fs" "flit_vcid f = 0" "dlp_receive (w_rx s) f = (r, rx)"
  shows "wire_inv (s\<lparr>w_rx := rx, w_flits := fs, w_got_control := w_got_control s @ got r\<rparr>) \<and> is_ok r"
proof -
  have ends: "ends_ok s" using assms(1) by (simp add: wire_inv_def)
  let ?st = "filter (\<lambda>f. flit_vcid f = 0) fs @ queue_stream (ep_control_tx_queue (w_tx s))"
  obtain pend k where p: "w_sent_control s = w_got_control s @ pend" and l: "lane (rx_dec s) {0} Control (rx_seg s) pend (f # ?st) k"
    using assms(1-3) unfolding wire_inv_def control_ok_def control_stream_def by auto
  from l obtain bs q pend' where a: "pend = q # pend'" "f = \<lparr>flit_vcid = 0, flit_data = flit_word bs k\<rparr>"
      "k < flit_len bs" "rx_dec s bs = Ok q" "rx_seg s 0 = partial_seg Control bs k"
    and n: "Suc k < flit_len bs \<Longrightarrow> lane (rx_dec s) {0} Control ((rx_seg s)(0 := partial_seg Control bs (Suc k))) pend ?st (Suc k)"
      "\<not> Suc k < flit_len bs \<Longrightarrow> lane (rx_dec s) {0} Control ((rx_seg s)(0 := None)) pend' ?st 0"
    by (rule lane_arrive) blast
  have c: "0 < vc_mode_count (ep_vc_mode (w_rx s))" by (cases "ep_vc_mode (w_rx s)") simp_all
  have len: "length (ep_rx (w_rx s)) = 4" using ends by (simp add: ends_ok_def)
  let ?x = "if Suc k < flit_len bs then partial_seg Control bs (Suc k) else None"
  have rx: "rx = (w_rx s)\<lparr>ep_rx := (ep_rx (w_rx s))[0 := ?x]\<rparr>" and r: "r = Ok (if Suc k < flit_len bs then None else Some q)"
    using assms(4) receive_flit[of "w_rx s" 0 bs q Control k] ends c a by (auto simp: ends_ok_def push_seg_def split: if_splits)
  let ?s = "s\<lparr>w_rx := rx, w_flits := fs, w_got_control := w_got_control s @ got r\<rparr>"
  have seg: "(\<lambda>w. (ep_rx (w_rx s))[0 := x] ! unat w) = (rx_seg s)(0 := x)" for x
    using len seg_update[of 0 "ep_rx (w_rx s)"] by simp
  have "ends_ok ?s" using ends by (simp add: ends_ok_def rx)
  moreover have "control_ok ?s"
  proof (cases "Suc k < flit_len bs")
    case True
    then show ?thesis unfolding control_ok_def using n(1) a(1) p
      by (intro exI[of _ pend] exI[of _ "Suc k"]) (simp add: r got_def control_stream_def seg rx)
  next
    case False
    then show ?thesis unfolding control_ok_def using n(2) a(1) p
      by (intro exI[of _ pend'] exI[of _ 0]) (simp add: r got_def control_stream_def seg rx)
  qed
  moreover have "data_ok ?s"
  proof -
    have "lane dec (data_vcs m) Data (rx_seg ?s) q st k' = lane dec (data_vcs m) Data (rx_seg s) q st k'" for dec q st k' m
      by (intro lane_cong) (auto simp: rx data_vcs_def unat_eq_zero)
    then show ?thesis using assms(1-3) by (simp add: wire_inv_def data_ok_def data_stream_def rx)
  qed
  moreover have "credit_ok ?s" using assms(1-3) by (simp add: wire_inv_def credit_ok_def rx)
  ultimately show ?thesis by (simp add: wire_inv_def r is_ok_iff)
qed

lemma inv_grant_data:
  assumes "wire_inv s" "note_data_credit_granted (w_rx s) n = (Ok (), rx)"
  shows "wire_inv (s\<lparr>w_rx := rx, w_tx := grant_data_tx_credit (w_tx s) n\<rparr>)"
proof -
  have credit: "credit_ok s" using assms(1) by (simp add: wire_inv_def)
  let ?o = "ep_data_credit_outstanding (w_rx s)" and ?t = "ep_data_tx_credit (w_tx s)"
  have rx: "rx = (w_rx s)\<lparr>ep_data_credit_outstanding := saturating_add ?o n\<rparr>" and g: "n \<le> grantable_data_credit (w_rx s)"
    using assms(2) by (auto simp: note_data_credit_granted_def split: if_splits)
  have "unat n \<le> unat (ep_rx_buffer_flits (w_rx s)) - unat (ep_data_rx_in_use (w_rx s)) - unat ?o"
    using g by (simp add: word_le_nat_alt grantable_data_credit_def available_rx_flits_def unat_saturating_sub)
  then have b: "unat ?o + unat n + unat (ep_data_rx_in_use (w_rx s)) \<le> unat (ep_rx_buffer_flits (w_rx s))"
    using credit by (auto simp: credit_ok_def)
  have "unat (ep_rx_buffer_flits (w_rx s)) < 4294967296" by simp
  then have lim: "unat (ep_rx_buffer_flits (w_rx s)) \<le> 4294967295" by linarith
  have o: "unat (saturating_add ?o n) = unat ?o + unat n" using b lim by (simp add: unat_saturating_add)
  have "unat ?t \<le> unat ?o" using credit by (simp add: credit_ok_def)
  then have t: "unat (saturating_add ?t n) = unat ?t + unat n" using b lim by (simp add: unat_saturating_add)
  let ?s = "s\<lparr>w_rx := rx, w_tx := grant_data_tx_credit (w_tx s) n\<rparr>"
  have "ends_ok ?s" "data_ok ?s" "control_ok ?s" using assms(1)
    by (simp_all add: wire_inv_def ends_ok_def data_ok_def control_ok_def data_stream_def control_stream_def rx grant_data_tx_credit_def)
  moreover have "credit_ok ?s" using credit o t b by (simp add: credit_ok_def rx grant_data_tx_credit_def)
  ultimately show ?thesis by (simp add: wire_inv_def)
qed

lemma wire_step_inv: "wire_step s s' \<Longrightarrow> wire_inv s \<Longrightarrow> wire_inv s'"
proof (induction rule: wire_step.induct)
  case (grant_control s n)
  then show ?case
    by (simp add: wire_inv_def ends_ok_def data_ok_def control_ok_def credit_ok_def data_stream_def control_stream_def grant_control_tx_credit_def)
qed (simp_all add: inv_send_data inv_send_control inv_burst inv_arrive_data inv_arrive_control inv_grant_data)

lemma wire_reach_inv: "wire_reach s \<Longrightarrow> wire_inv s"
  by (induction rule: wire_reach.induct) (auto intro: wire_inv_init wire_step_inv)

section \<open>Properties\<close>

text \<open>C11. Credit-based transfer is safe and loses nothing: in every reachable state of two endpoints of the same configuration joined by a
  wire, with well-formed packets that are global or of the receiver's prefix queued, bursts polled, flits delivered and credits
  granted in any order, the next flit on the wire is accepted (never a credit
  violation, a full buffer or a desynchronised channel), the receive buffer never exceeds its size, the
  packets delivered on each lane are a prefix of those queued on it, and once queues and wire are empty they are all of them.\<close>

theorem dlp_transfer_safe:
  assumes "wire_reach s"
  shows "(\<forall>f fs. w_flits s = f # fs \<longrightarrow> is_ok (fst (dlp_receive (w_rx s) f))) \<and>
    ep_data_rx_in_use (w_rx s) \<le> ep_rx_buffer_flits (w_rx s) \<and>
    (\<exists>pd pc. w_sent_data s = w_got_data s @ pd \<and> w_sent_control s = w_got_control s @ pc \<and>
      (w_flits s = [] \<and> queued_flits (w_tx s) = 0 \<longrightarrow> pd = [] \<and> pc = []))"
proof -
  have inv: "wire_inv s" using assms by (rule wire_reach_inv)
  have f: "is_ok (fst (dlp_receive (w_rx s) f))" if "w_flits s = f # fs" for f fs
    using inv_arrive_data[OF inv that] inv_arrive_control[OF inv that]
    by (cases "flit_vcid f = 0"; cases "dlp_receive (w_rx s) f") auto
  have u: "ep_data_rx_in_use (w_rx s) \<le> ep_rx_buffer_flits (w_rx s)"
    using inv by (simp add: wire_inv_def credit_ok_def word_le_nat_alt)
  obtain pd k where d: "w_sent_data s = w_got_data s @ pd"
      "lane (rx_dec s) (data_vcs (ep_vc_mode (w_rx s))) Data (rx_seg s) pd (data_stream s) k"
    using inv unfolding wire_inv_def data_ok_def by blast
  obtain pc j where c: "w_sent_control s = w_got_control s @ pc" "lane (rx_dec s) {0} Control (rx_seg s) pc (control_stream s) j"
    using inv unfolding wire_inv_def control_ok_def by blast
  have e: "pd = [] \<and> pc = []" if "w_flits s = []" "queued_flits (w_tx s) = 0"
  proof -
    have "queue_stream (ep_data_tx_queue (w_tx s)) = []" "queue_stream (ep_control_tx_queue (w_tx s)) = []"
      using that(2) by (simp_all add: queued_flits_def queue_flits_eq del: length_concat concat_eq_Nil_conv)
    then have "data_stream s = []" "control_stream s = []" using that(1) by (simp_all add: data_stream_def control_stream_def)
    then show ?thesis using d(2) c(2) lane_drained by metis
  qed
  show ?thesis by (intro conjI allI impI exI[of _ pd] exI[of _ pc]) (use f u d(1) c(1) e in auto)
qed

theorem dlp_transfer_safe_witness:
  "\<exists>s p. wire_reach s \<and> w_sent_data s = [p] \<and> (\<exists>pd. [p] = w_got_data s @ pd) \<and>
    ep_data_rx_in_use (w_rx s) \<le> ep_rx_buffer_flits (w_rx s)"
proof -
  let ?c = "\<lparr>dc_gdp = gdp_wire_config_default, dc_local_prefix = 0, dc_vc_mode = VcFour, dc_rx_buffer_flits = 64, dc_control_window_flits = 32\<rparr>"
  let ?p = "\<lparr>pkt_header = \<lparr>gdp_version = 0, packet_type = Gts, size_class = Tiny3, hop_limit = 9,
     addresses = AddrGlobal 1 2\<rparr>, pkt_payload = [1, 2, 3]\<rparr>"
  obtain e where e: "dlp_new ?c = Ok e" by (simp add: dlp_new_def)
  let ?s = "\<lparr>w_tx = e, w_rx = e, w_flits = [], w_sent_data = [], w_sent_control = [], w_got_data = [], w_got_control = []\<rparr>"
  have r: "wire_reach ?s" by (rule reach_init) (use e in \<open>auto simp: wire_init_def\<close>)
  have p: "sendable ?s ?p" by (simp add: sendable_def gdp_packet_wf_def gdp_header_wf_def size_class_bytes_def prefix_matches_def)
  obtain q tx where q: "queue_data_packet e ?p = (q, tx)" by force
  obtain bs where "gdp_packet_encode ?p (ep_cfg e) = Ok bs"
    using gdp_packet_encode_eq[of ?p] by (simp add: gdp_packet_wf_def gdp_header_wf_def size_class_bytes_def)
  then have "is_ok q" using q dlp_new_fields[OF e]
    by (auto simp: queue_data_packet_def choose_data_vc_def queue_packet_on_def vcid_is_control_def is_ok_iff word_le_nat_alt Let_def)
  then have "wire_reach (?s\<lparr>w_tx := tx, w_sent_data := [?p]\<rparr>)"
    using reach_step[OF r send_data[OF p]] q by simp
  from dlp_transfer_safe[OF this] this show ?thesis
    by (intro exI[of _ "?s\<lparr>w_tx := tx, w_sent_data := [?p]\<rparr>"] exI[of _ ?p]) auto
qed

end
