(* ===== verification/Dlp_Link.thy ===== *)
theory Dlp_Link
  imports Dlp_Transfer
begin

text \<open>
  The link life cycle around an endpoint (src/src/dlp_v01.rs) and the packet port routers see (src/src/dlp_gdp.rs).
  The port trait is the locale \<open>gdp_packet_port\<close>: what a router may rely on without knowing about channels, flits or credits.
\<close>

section \<open>The link\<close>

datatype DlpLinkState = LinkIsDown | LinkRecovering | LinkIsUp

record DlpLink =
  lk_endpoint :: DlpEndpoint
  lk_state :: DlpLinkState
  lk_generation :: u32

definition link_new :: "DlpConfig \<Rightarrow> DlpLink result" where
  "link_new config = rbind (dlp_new config) (\<lambda>endpoint.
     Ok \<lparr>lk_endpoint = set_link_up endpoint False, lk_state = LinkIsDown, lk_generation = 0\<rparr>)"

definition begin_recovery :: "DlpLink \<Rightarrow> (DlpLink, unit) outcome" where
  "begin_recovery l =
    (if lk_state l \<noteq> LinkIsDown then (Err InvalidState, l)
     else (Ok (), l\<lparr>lk_endpoint := set_link_up (lk_endpoint l) True, lk_state := LinkRecovering\<rparr>))"

definition complete_recovery :: "DlpLink \<Rightarrow> (DlpLink, unit) outcome" where
  "complete_recovery l =
    (if lk_state l \<noteq> LinkRecovering then (Err InvalidState, l) else (Ok (), l\<lparr>lk_state := LinkIsUp\<rparr>))"

definition link_reset :: "DlpLink \<Rightarrow> DlpLink" where
  "link_reset l = l\<lparr>lk_endpoint := set_link_up (lk_endpoint l) False, lk_state := LinkIsDown,
     lk_generation := lk_generation l + 1\<rparr>"

definition require_up :: "DlpLink \<Rightarrow> unit result" where
  "require_up l = (if lk_state l = LinkIsUp then Ok () else Err LinkDown)"

text \<open>\<open>self.require_up()?\<close> followed by an operation of the endpoint.\<close>

definition on_endpoint :: "DlpLink \<Rightarrow> (DlpEndpoint \<Rightarrow> (DlpEndpoint, 'a) outcome) \<Rightarrow> (DlpLink, 'a) outcome" where
  "on_endpoint l f = sbind (lift_r (require_up l) l) (\<lambda>_ l. case f (lk_endpoint l) of (r, e) \<Rightarrow> (r, l\<lparr>lk_endpoint := e\<rparr>))"

definition link_queue_data_packet :: "DlpLink \<Rightarrow> GdpPacket \<Rightarrow> (DlpLink, nat) outcome" where
  "link_queue_data_packet l p = on_endpoint l (\<lambda>e. queue_data_packet e p)"

definition link_queue_control_packet :: "DlpLink \<Rightarrow> GdpPacket \<Rightarrow> (DlpLink, nat) outcome" where
  "link_queue_control_packet l p = on_endpoint l (\<lambda>e. queue_control_packet e p)"

definition link_poll_tx :: "DlpLink \<Rightarrow> (DlpLink, Flit option) outcome" where
  "link_poll_tx l = on_endpoint l poll_tx"

definition link_poll_tx_burst :: "DlpLink \<Rightarrow> Flit list \<Rightarrow> (DlpLink \<times> Flit list, nat) outcome" where
  "link_poll_tx_burst l out = (case require_up l of
      Ok _ \<Rightarrow> (case poll_tx_burst (lk_endpoint l) out of (r, (e, out)) \<Rightarrow> (r, (l\<lparr>lk_endpoint := e\<rparr>, out)))
    | Err er \<Rightarrow> (Err er, (l, out))
    | Panic \<Rightarrow> (Panic, (l, out)))"

definition link_poll_tx_frame :: "DlpLink \<Rightarrow> (DlpLink, GnetFrame option) outcome" where
  "link_poll_tx_frame l = on_endpoint l poll_tx_frame"

definition link_receive :: "DlpLink \<Rightarrow> Flit \<Rightarrow> (DlpLink, GdpPacket option) outcome" where
  "link_receive l flit = on_endpoint l (\<lambda>e. dlp_receive e flit)"

definition link_receive_frame :: "DlpLink \<Rightarrow> GnetFrame \<Rightarrow> (DlpLink, GdpPacket) outcome" where
  "link_receive_frame l frame = on_endpoint l (\<lambda>e. receive_frame e frame)"

definition link_grant_peer_data_credit :: "DlpLink \<times> DlpLink \<Rightarrow> u32 \<Rightarrow> (DlpLink \<times> DlpLink, unit) outcome" where
  "link_grant_peer_data_credit s count =
    sbind (lift_r (require_up (fst s)) s) (\<lambda>_ s. sbind (lift_r (require_up (snd s)) s) (\<lambda>_ (receiver, sender).
      case note_data_credit_granted (lk_endpoint receiver) count of (r, e) \<Rightarrow>
        sbind (r, (receiver\<lparr>lk_endpoint := e\<rparr>, sender)) (\<lambda>_ (receiver, sender).
          (Ok (), (receiver, sender\<lparr>lk_endpoint := grant_data_tx_credit (lk_endpoint sender) count\<rparr>)))))"

definition link_grant_peer_control_credit :: "DlpLink \<Rightarrow> u32 \<Rightarrow> (DlpLink, unit) outcome" where
  "link_grant_peer_control_credit l count =
    sbind (lift_r (require_up l) l) (\<lambda>_ l. (Ok (), l\<lparr>lk_endpoint := grant_control_tx_credit (lk_endpoint l) count\<rparr>))"

section \<open>The packet port\<close>

record DlpGdpPort =
  gp_link :: DlpLink
  gp_received :: "GdpPacket list"

definition port_new :: "DlpConfig \<Rightarrow> DlpGdpPort result" where
  "port_new config = rbind (link_new config) (\<lambda>link. Ok \<lparr>gp_link = link, gp_received = []\<rparr>)"

definition on_link :: "DlpGdpPort \<Rightarrow> (DlpLink \<Rightarrow> (DlpLink, 'a) outcome) \<Rightarrow> (DlpGdpPort, 'a) outcome" where
  "on_link g f = (case f (gp_link g) of (r, l) \<Rightarrow> (r, g\<lparr>gp_link := l\<rparr>))"

definition port_begin_recovery :: "DlpGdpPort \<Rightarrow> (DlpGdpPort, unit) outcome" where
  "port_begin_recovery g = on_link g begin_recovery"

definition port_complete_recovery :: "DlpGdpPort \<Rightarrow> (DlpGdpPort, unit) outcome" where
  "port_complete_recovery g = on_link g complete_recovery"

definition port_reset :: "DlpGdpPort \<Rightarrow> DlpGdpPort" where
  "port_reset g = g\<lparr>gp_link := link_reset (gp_link g), gp_received := []\<rparr>"

definition physical_receive_flit :: "DlpGdpPort \<Rightarrow> Flit \<Rightarrow> (DlpGdpPort, bool) outcome" where
  "physical_receive_flit g flit = sbind (on_link g (\<lambda>l. link_receive l flit)) (\<lambda>r g. case r of
      Some packet \<Rightarrow> (Ok True, g\<lparr>gp_received := gp_received g @ [packet]\<rparr>)
    | None \<Rightarrow> (Ok False, g))"

definition physical_receive_frame :: "DlpGdpPort \<Rightarrow> GnetFrame \<Rightarrow> (DlpGdpPort, unit) outcome" where
  "physical_receive_frame g frame = sbind (on_link g (\<lambda>l. link_receive_frame l frame)) (\<lambda>packet g.
      (Ok (), g\<lparr>gp_received := gp_received g @ [packet]\<rparr>))"

definition physical_poll_tx_flit :: "DlpGdpPort \<Rightarrow> (DlpGdpPort, Flit option) outcome" where
  "physical_poll_tx_flit g = on_link g link_poll_tx"

definition physical_poll_tx_frame :: "DlpGdpPort \<Rightarrow> (DlpGdpPort, GnetFrame option) outcome" where
  "physical_poll_tx_frame g = on_link g link_poll_tx_frame"

definition physical_poll_tx_burst :: "DlpGdpPort \<Rightarrow> Flit list \<Rightarrow> (DlpGdpPort \<times> Flit list, nat) outcome" where
  "physical_poll_tx_burst g out =
    (case link_poll_tx_burst (gp_link g) out of (r, (l, out)) \<Rightarrow> (r, (g\<lparr>gp_link := l\<rparr>, out)))"

definition port_grant_peer_data_credit :: "DlpGdpPort \<times> DlpGdpPort \<Rightarrow> u32 \<Rightarrow> (DlpGdpPort \<times> DlpGdpPort, unit) outcome" where
  "port_grant_peer_data_credit s count = (case link_grant_peer_data_credit (gp_link (fst s), gp_link (snd s)) count of
     (r, (receiver, sender)) \<Rightarrow> (r, ((fst s)\<lparr>gp_link := receiver\<rparr>, (snd s)\<lparr>gp_link := sender\<rparr>)))"

definition port_grant_peer_control_credit :: "DlpGdpPort \<Rightarrow> u32 \<Rightarrow> (DlpGdpPort, unit) outcome" where
  "port_grant_peer_control_credit g count = on_link g (\<lambda>l. link_grant_peer_control_credit l count)"

definition poll_gdp :: "DlpGdpPort \<Rightarrow> GdpPacket option \<times> DlpGdpPort" where
  "poll_gdp g = (case gp_received g of [] \<Rightarrow> (None, g) | p # ps \<Rightarrow> (Some p, g\<lparr>gp_received := ps\<rparr>))"

definition transmit_gdp :: "DlpGdpPort \<Rightarrow> GdpPacket \<Rightarrow> (DlpGdpPort, unit) outcome" where
  "transmit_gdp g packet = (case packet_type (pkt_header packet) of
      Gctl \<Rightarrow> sbind (on_link g (\<lambda>l. link_queue_control_packet l packet)) (\<lambda>_ g. (Ok (), g))
    | Gts \<Rightarrow> sbind (on_link g (\<lambda>l. link_queue_data_packet l packet)) (\<lambda>_ g. (Ok (), g))
    | Reserved _ \<Rightarrow> sbind (on_link g (\<lambda>l. link_queue_data_packet l packet)) (\<lambda>_ g. (Ok (), g)))"

section \<open>The life cycle\<close>

lemma on_endpoint_down: "lk_state l \<noteq> LinkIsUp \<Longrightarrow> on_endpoint l f = (Err LinkDown, l)"
  by (simp add: on_endpoint_def require_up_def lift_r_def)

lemma on_endpoint_up: "lk_state l = LinkIsUp \<Longrightarrow> on_endpoint l f = (case f (lk_endpoint l) of (r, e) \<Rightarrow> (r, l\<lparr>lk_endpoint := e\<rparr>))"
  by (simp add: on_endpoint_def require_up_def)

text \<open>A quiescent endpoint has no queued frame, open segment or credit left from before.\<close>

definition quiescent :: "DlpEndpoint \<Rightarrow> bool" where
  "quiescent e \<longleftrightarrow> ep_control_tx_queue e = [] \<and> ep_data_tx_queue e = [] \<and> ep_rx e = replicate 4 None \<and>
    ep_desynchronized e = replicate 4 False \<and> ep_data_tx_credit e = 0 \<and> ep_control_tx_credit e = 0 \<and>
    ep_data_credit_outstanding e = 0 \<and> ep_data_rx_in_use e = 0"

lemma quiescent_set_link_up: "quiescent (set_link_up e False)" "quiescent e \<Longrightarrow> quiescent (set_link_up e True)"
  by (simp_all add: quiescent_def set_link_up_def)

datatype link_event =
    BeginRecovery | CompleteRecovery | ResetLink | QueueData GdpPacket | QueueControl GdpPacket | PollFrame | PollFlit
  | ReceiveFlit Flit | ReceiveFrame GnetFrame | GrantControl u32

primrec link_apply :: "DlpLink \<Rightarrow> link_event \<Rightarrow> DlpLink" where
  "link_apply l BeginRecovery = snd (begin_recovery l)"
| "link_apply l CompleteRecovery = snd (complete_recovery l)"
| "link_apply l ResetLink = link_reset l"
| "link_apply l (QueueData p) = snd (link_queue_data_packet l p)"
| "link_apply l (QueueControl p) = snd (link_queue_control_packet l p)"
| "link_apply l PollFrame = snd (link_poll_tx_frame l)"
| "link_apply l PollFlit = snd (link_poll_tx l)"
| "link_apply l (ReceiveFlit f) = snd (link_receive l f)"
| "link_apply l (ReceiveFrame f) = snd (link_receive_frame l f)"
| "link_apply l (GrantControl n) = snd (link_grant_peer_control_credit l n)"

definition link_inv :: "DlpLink \<Rightarrow> bool" where
  "link_inv l \<longleftrightarrow> (lk_state l \<noteq> LinkIsUp \<longrightarrow> quiescent (lk_endpoint l))"

lemma on_endpoint_state: "lk_state (snd (on_endpoint l f)) = lk_state l \<and> lk_generation (snd (on_endpoint l f)) = lk_generation l \<and>
    (lk_state l \<noteq> LinkIsUp \<longrightarrow> snd (on_endpoint l f) = l)"
  by (cases "lk_state l = LinkIsUp") (simp_all add: on_endpoint_down on_endpoint_up split: prod.split)

lemma on_endpoint_inv: "link_inv l \<Longrightarrow> link_inv (snd (on_endpoint l f))"
  using on_endpoint_state[of l f] by (auto simp: link_inv_def)

lemma link_apply_inv: "link_inv l \<Longrightarrow> link_inv (link_apply l ev)"
proof (cases ev)
  case (GrantControl n)
  assume "link_inv l"
  then show ?thesis by (auto simp: GrantControl link_inv_def link_grant_peer_control_credit_def require_up_def lift_r_def)
qed (auto simp: on_endpoint_inv link_queue_data_packet_def link_queue_control_packet_def link_poll_tx_frame_def link_poll_tx_def
    link_receive_def link_receive_frame_def link_reset_def link_inv_def begin_recovery_def complete_recovery_def
    quiescent_set_link_up intro: on_endpoint_inv[unfolded link_inv_def, rule_format])

lemma link_apply_generation: "lk_generation (link_apply l ev) = lk_generation l + of_bool (ev = ResetLink)"
  by (cases ev) (auto simp: on_endpoint_state link_queue_data_packet_def link_queue_control_packet_def link_poll_tx_frame_def
      link_poll_tx_def link_receive_def link_receive_frame_def link_reset_def begin_recovery_def complete_recovery_def
      link_grant_peer_control_credit_def require_up_def lift_r_def)

lemma link_new_inv: "link_new c = Ok l \<Longrightarrow> link_inv l \<and> lk_generation l = 0 \<and> lk_state l = LinkIsDown"
  by (auto simp: link_new_def link_inv_def quiescent_set_link_up result_simps)

lemma link_run:
  assumes "link_new c = Ok l"
  shows "link_inv (foldl link_apply l evs) \<and> lk_generation (foldl link_apply l evs) = of_nat (length (filter (\<lambda>e. e = ResetLink) evs))"
  using link_new_inv[OF assms]
  by (induction evs rule: rev_induct) (auto simp: link_apply_inv link_apply_generation)

section \<open>The port contract\<close>

text \<open>A router sees packets only: it takes the oldest received packet, and a packet it submits is queued whole on
  the lane of its type or refused.\<close>

locale gdp_packet_port =
  fixes poll :: "'p \<Rightarrow> GdpPacket option \<times> 'p"
    and transmit :: "'p \<Rightarrow> GdpPacket \<Rightarrow> ('p, unit) outcome"
    and inbox :: "'p \<Rightarrow> GdpPacket list"
  assumes poll_inbox: "poll s = (r, s') \<Longrightarrow> (case inbox s of [] \<Rightarrow> r = None \<and> s' = s | p # ps \<Rightarrow> r = Some p \<and> inbox s' = ps)"
    and transmit_inbox: "inbox (snd (transmit s p)) = inbox s"
begin

fun drain :: "nat \<Rightarrow> 'p \<Rightarrow> GdpPacket list" where
  "drain 0 s = []"
| "drain (Suc n) s = (case poll s of (Some p, s') \<Rightarrow> p # drain n s' | (None, s') \<Rightarrow> [])"

lemma drain_inbox: "length (inbox s) \<le> n \<Longrightarrow> drain n s = inbox s"
proof (induction n arbitrary: s)
  case (Suc n)
  show ?case using poll_inbox[of s "fst (poll s)" "snd (poll s)"] Suc
    by (cases "inbox s"; cases "poll s") (auto split: list.splits)
qed simp

lemma drain_after_transmit: "length (inbox s) \<le> n \<Longrightarrow> drain n (snd (transmit s p)) = inbox s"
  using drain_inbox[of "snd (transmit s p)" n] by (simp add: transmit_inbox)

end

lemma on_link_received [simp]: "gp_received (snd (on_link g f)) = gp_received g"
  by (simp add: on_link_def split: prod.split)

interpretation dlp_port: gdp_packet_port poll_gdp transmit_gdp gp_received
proof
  fix s s' r p
  show "poll_gdp s = (r, s') \<Longrightarrow> (case gp_received s of [] \<Rightarrow> r = None \<and> s' = s | p # ps \<Rightarrow> r = Some p \<and> gp_received s' = ps)"
    by (auto simp: poll_gdp_def split: list.splits)
  have k: "gp_received (snd (sbind (on_link s f) (\<lambda>_ g. (Ok (), g)))) = gp_received s" for f :: "DlpLink \<Rightarrow> (DlpLink, nat) outcome"
    using on_link_received[of s f] by (cases "on_link s f"; cases "fst (on_link s f)") auto
  show "gp_received (snd (transmit_gdp s p)) = gp_received s"
    by (simp add: transmit_gdp_def k split: GdpType.split)
qed

section \<open>Properties\<close>

text \<open>A link generation starts clean: after any sequence of operations on a new link, a link that is not up holds no queued frame,
  no partial segment, no credit and no desynchronised channel, so nothing survives a reset, and the generation counts the resets modulo 2 to the 32.\<close>

theorem dlp_link_generation_clean:
  assumes "link_new c = Ok l" "l' = foldl link_apply l evs"
  shows "(lk_state l' \<noteq> LinkIsUp \<longrightarrow> quiescent (lk_endpoint l')) \<and>
    lk_generation l' = of_nat (length (filter (\<lambda>e. e = ResetLink) evs))"
  using link_run[OF assms(1)] unfolding assms(2) link_inv_def by blast

theorem dlp_link_generation_clean_witness:
  "\<exists>c l. link_new c = Ok l \<and> quiescent (lk_endpoint (foldl link_apply l [BeginRecovery, CompleteRecovery, ResetLink])) \<and>
    lk_generation (foldl link_apply l [BeginRecovery, CompleteRecovery, ResetLink]) = 1"
proof -
  let ?c = "\<lparr>dc_gdp = gdp_wire_config_default, dc_local_prefix = 0, dc_vc_mode = VcFour, dc_rx_buffer_flits = 64, dc_control_window_flits = 32\<rparr>"
  obtain l where l: "link_new ?c = Ok l" by (simp add: link_new_def dlp_new_def)
  have "lk_state (foldl link_apply l [BeginRecovery, CompleteRecovery, ResetLink]) = LinkIsDown" by (simp add: link_reset_def)
  then show ?thesis using dlp_link_generation_clean[OF l refl, of "[BeginRecovery, CompleteRecovery, ResetLink]"] l by auto
qed

end
