(* ===== verification/Egress_Scheduler.thy ===== *)
theory Egress_Scheduler
  imports Dlp_Link Btree_Map
begin

text \<open>
  The fair egress scheduler in front of one link, src/src/egress_scheduler.rs: per-flow packet queues in an ordered
  map, a ready list of flows, and a scheduling round that hands at most one packet per ordinary channel to the link. The round is
  refined to an abstract round robin over queues, from which order, fairness and conservation follow.
\<close>

section \<open>State and operations\<close>

record EgressFlowId =
  ef_source :: GdpAddress
  ef_destination :: GdpAddress
  ef_transport :: u64

text \<open>The derived lexicographic order on the fields.\<close>

instantiation EgressFlowId_ext :: (linorder) linorder
begin

definition less_eq_EgressFlowId_ext :: "'a EgressFlowId_scheme \<Rightarrow> 'a EgressFlowId_scheme \<Rightarrow> bool" where
  "less_eq_EgressFlowId_ext p q \<longleftrightarrow> ef_source p < ef_source q \<or> ef_source p = ef_source q \<and>
    (ef_destination p < ef_destination q \<or> ef_destination p = ef_destination q \<and>
      (ef_transport p < ef_transport q \<or> ef_transport p = ef_transport q \<and> EgressFlowId.more p \<le> EgressFlowId.more q))"

definition less_EgressFlowId_ext :: "'a EgressFlowId_scheme \<Rightarrow> 'a EgressFlowId_scheme \<Rightarrow> bool" where
  "less_EgressFlowId_ext p q \<longleftrightarrow> p \<le> q \<and> \<not> q \<le> p"

instance
proof
  fix x y z :: "'a EgressFlowId_scheme"
  show "(x < y) = (x \<le> y \<and> \<not> y \<le> x)" by (simp add: less_EgressFlowId_ext_def)
  show "x \<le> x" by (simp add: less_eq_EgressFlowId_ext_def)
  show "x \<le> y \<Longrightarrow> y \<le> z \<Longrightarrow> x \<le> z" unfolding less_eq_EgressFlowId_ext_def by (auto intro: less_trans order.trans)
  show "x \<le> y \<Longrightarrow> y \<le> x \<Longrightarrow> x = y" unfolding less_eq_EgressFlowId_ext_def by (cases x; cases y) auto
  show "x \<le> y \<or> y \<le> x" unfolding less_eq_EgressFlowId_ext_def by (auto simp: not_less)
qed

end

record FlowQueue =
  fq_packets :: "GdpPacket list"
  fq_scheduled :: bool

record RouterEgressScheduler =
  es_flows :: "(EgressFlowId, FlowQueue) btree"
  es_ready :: "EgressFlowId list"
  es_queued_packets :: nat

definition es_new :: RouterEgressScheduler where
  "es_new = \<lparr>es_flows = [], es_ready = [], es_queued_packets = 0\<rparr>"

definition es_flow_count :: "RouterEgressScheduler \<Rightarrow> nat" where
  "es_flow_count s = length (es_flows s)"

definition es_enqueue :: "RouterEgressScheduler \<Rightarrow> EgressFlowId \<Rightarrow> GdpPacket \<Rightarrow> RouterEgressScheduler" where
  "es_enqueue s flow packet =
    (let entry = (case bt_get (es_flows s) flow of Some e \<Rightarrow> e | None \<Rightarrow> \<lparr>fq_packets = [], fq_scheduled = False\<rparr>);
         entry = entry\<lparr>fq_packets := fq_packets entry @ [packet]\<rparr>;
         s = s\<lparr>es_queued_packets := es_queued_packets s + 1\<rparr>
     in if \<not> fq_scheduled entry
        then s\<lparr>es_flows := bt_insert (es_flows s) flow (entry\<lparr>fq_scheduled := True\<rparr>), es_ready := es_ready s @ [flow]\<rparr>
        else s\<lparr>es_flows := bt_insert (es_flows s) flow entry\<rparr>)"

text \<open>Taking the next packet of the flow at the head of the ready list; \<open>expect\<close> panics are branches.\<close>

definition es_take :: "RouterEgressScheduler \<Rightarrow> EgressFlowId \<Rightarrow> (RouterEgressScheduler, GdpPacket \<times> bool) outcome" where
  "es_take s flow_id = (case bt_get (es_flows s) flow_id of
      None \<Rightarrow> (Panic, s)
    | Some flow \<Rightarrow> (case fq_packets flow of
        [] \<Rightarrow> (Panic, s\<lparr>es_flows := bt_insert (es_flows s) flow_id (flow\<lparr>fq_scheduled := False\<rparr>)\<rparr>)
      | packet # rest \<Rightarrow>
          (Ok (packet, rest \<noteq> []), s\<lparr>es_flows := bt_insert (es_flows s) flow_id \<lparr>fq_packets = rest, fq_scheduled = False\<rparr>\<rparr>)))"

definition es_put_back :: "RouterEgressScheduler \<Rightarrow> EgressFlowId \<Rightarrow> bool \<Rightarrow> (RouterEgressScheduler, unit) outcome" where
  "es_put_back s flow_id remains =
    (if remains then (case bt_get (es_flows s) flow_id of
         None \<Rightarrow> (Panic, s)
       | Some flow \<Rightarrow> (Ok (), s\<lparr>es_flows := bt_insert (es_flows s) flow_id (flow\<lparr>fq_scheduled := True\<rparr>), es_ready := es_ready s @ [flow_id]\<rparr>))
     else (Ok (), s\<lparr>es_flows := bt_remove (es_flows s) flow_id\<rparr>))"

text \<open>The loop of a round: \<open>room\<close> is the capacity not yet used.\<close>

fun es_loop :: "nat \<Rightarrow> RouterEgressScheduler \<Rightarrow> DlpLink \<Rightarrow> nat \<Rightarrow> (RouterEgressScheduler \<times> DlpLink, nat) outcome" where
  "es_loop 0 s l admitted = (Ok admitted, (s, l))"
| "es_loop (Suc room) s l admitted = (case es_ready s of
      [] \<Rightarrow> (Ok admitted, (s, l))
    | flow_id # rest \<Rightarrow> (case es_take (s\<lparr>es_ready := rest\<rparr>) flow_id of
        (Ok (packet, remains), s) \<Rightarrow> (case link_queue_data_packet l packet of
            (Ok _, l) \<Rightarrow> (case nat_sub_r (es_queued_packets s) 1 of
                Ok n \<Rightarrow> (case es_put_back (s\<lparr>es_queued_packets := n\<rparr>) flow_id remains of
                    (Ok _, s) \<Rightarrow> es_loop room s l (admitted + 1)
                  | (Err e, s) \<Rightarrow> (Err e, (s, l))
                  | (Panic, s) \<Rightarrow> (Panic, (s, l)))
              | _ \<Rightarrow> (Panic, (s, l)))
          | (Err e, l) \<Rightarrow> (Err e, (s, l))
          | (Panic, l) \<Rightarrow> (Panic, (s, l)))
      | (Err e, s) \<Rightarrow> (Err e, (s, l))
      | (Panic, s) \<Rightarrow> (Panic, (s, l))))"

definition es_capacity :: "VcMode \<Rightarrow> nat" where
  "es_capacity m = (case m of VcTwo \<Rightarrow> 1 | VcFour \<Rightarrow> 3)"

definition schedule_round :: "RouterEgressScheduler \<Rightarrow> DlpLink \<Rightarrow> (RouterEgressScheduler \<times> DlpLink, nat) outcome" where
  "schedule_round s l =
    (if queued_data_flits (lk_endpoint l) \<noteq> 0 then (Err InvalidState, (s, l))
     else es_loop (es_capacity (ep_vc_mode (lk_endpoint l))) s l 0)"

section \<open>The abstract round robin\<close>

fun round_robin :: "nat \<Rightarrow> 'f list \<Rightarrow> ('f \<Rightarrow> 'p list) \<Rightarrow> ('f \<times> 'p) list \<times> 'f list \<times> ('f \<Rightarrow> 'p list)" where
  "round_robin 0 ready q = ([], ready, q)"
| "round_robin (Suc n) [] q = ([], [], q)"
| "round_robin (Suc n) (f # fs) q =
    (let (out, r, q') = round_robin n (if tl (q f) = [] then fs else fs @ [f]) (q(f := tl (q f)))
     in ((f, hd (q f)) # out, r, q'))"

definition rr_ok :: "'f list \<Rightarrow> ('f \<Rightarrow> 'p list) \<Rightarrow> bool" where
  "rr_ok ready q \<longleftrightarrow> distinct ready \<and> (\<forall>f. f \<in> set ready \<longleftrightarrow> q f \<noteq> [])"

lemma rr_ok_step:
  assumes "rr_ok (f # fs) q"
  shows "rr_ok (if tl (q f) = [] then fs else fs @ [f]) (q(f := tl (q f)))"
  using assms by (cases "tl (q f) = []") (auto simp: rr_ok_def)

text \<open>Each flow's packets leave in order, and what did not leave is still queued.\<close>

lemma round_robin_flow_order:
  assumes "rr_ok ready q" "round_robin n ready q = (out, r, q')"
  shows "map snd (filter (\<lambda>x. fst x = f) out) @ q' f = q f \<and> rr_ok r q'"
  using assms
proof (induction n ready q arbitrary: out r q' rule: round_robin.induct)
  case (3 n g fs q)
  obtain o' r' q'' where e: "round_robin n (if tl (q g) = [] then fs else fs @ [g]) (q(g := tl (q g))) = (o', r', q'')"
    by (metis prod_cases3)
  have "map snd (filter (\<lambda>x. fst x = f) o') @ q'' f = (q(g := tl (q g))) f \<and> rr_ok r' q''"
    by (rule "3.IH"[OF rr_ok_step[OF "3.prems"(1)] e])
  moreover have "q g \<noteq> []" using "3.prems"(1) by (auto simp: rr_ok_def)
  moreover have "out = (g, hd (q g)) # o'" "r = r'" "q' = q''" using "3.prems"(2) e by simp_all
  ultimately show ?case by (cases "f = g") (auto simp: neq_Nil_conv)
qed auto

text \<open>The flows that have waited longest are served first, one packet each, before any is served twice.\<close>

lemma round_robin_fair:
  assumes "distinct ready" "round_robin n ready q = (out, r, q')"
  shows "take (length ready) out = map (\<lambda>f. (f, hd (q f))) (take n ready) \<and> (\<exists>back. r = drop n ready @ back)"
  using assms
proof (induction n arbitrary: ready q out r q')
  case (Suc n)
  show ?case
  proof (cases ready)
    case (Cons f fs)
    let ?q = "q(f := tl (q f))" and ?b = "if tl (q f) = [] then [] else [f]"
    obtain o' r' q'' where e: "round_robin n (fs @ ?b) ?q = (o', r', q'')" by (metis prod_cases3)
    have s: "(if tl (q f) = [] then fs else fs @ [f]) = fs @ ?b" by simp
    have out: "out = (f, hd (q f)) # o'" "r = r'" using Suc.prems(2) Cons e unfolding Cons round_robin.simps s by simp_all
    have "distinct (fs @ ?b)" using Suc.prems(1) Cons by auto
    from Suc.IH[OF this e] have ih: "take (length (fs @ ?b)) o' = map (\<lambda>g. (g, hd (?q g))) (take n (fs @ ?b))"
        "\<exists>back. r' = drop n (fs @ ?b) @ back" by blast+
    have "take (length fs) o' = take (length fs) (take (length (fs @ ?b)) o')" by (simp add: min_def)
    also have "\<dots> = map (\<lambda>g. (g, hd (?q g))) (take n fs)" unfolding ih(1) by (simp add: take_map min_def)
    also have "\<dots> = map (\<lambda>g. (g, hd (q g))) (take n fs)" using Suc.prems(1) Cons by (auto dest: in_set_takeD)
    finally have "take (length ready) out = map (\<lambda>g. (g, hd (q g))) (take (Suc n) ready)" using out Cons by simp
    moreover have "\<exists>back. r = drop (Suc n) ready @ back" using ih(2) out Cons by (auto simp: drop_append)
    ultimately show ?thesis by blast
  qed (use Suc.prems in auto)
qed auto

lemma round_robin_count:
  assumes "rr_ok ready q" "round_robin n ready q = (out, r, q')"
  shows "length out \<le> n \<and> (length out < n \<longrightarrow> r = [])"
  using assms
proof (induction n ready q arbitrary: out r q' rule: round_robin.induct)
  case (3 n g fs q)
  obtain o' r' q'' where e: "round_robin n (if tl (q g) = [] then fs else fs @ [g]) (q(g := tl (q g))) = (o', r', q'')"
    by (metis prod_cases3)
  show ?case using "3.IH"[OF rr_ok_step[OF "3.prems"(1)] e] "3.prems"(2) e by auto
qed auto

section \<open>The scheduler implements it\<close>

definition es_queue :: "RouterEgressScheduler \<Rightarrow> EgressFlowId \<Rightarrow> GdpPacket list" where
  "es_queue s f = (case bt_get (es_flows s) f of None \<Rightarrow> [] | Some e \<Rightarrow> fq_packets e)"

definition flows_total :: "(EgressFlowId, FlowQueue) btree \<Rightarrow> nat" where
  "flows_total m = sum_list (map (\<lambda>e. length (fq_packets (snd e))) m)"

definition es_inv :: "RouterEgressScheduler \<Rightarrow> bool" where
  "es_inv s \<longleftrightarrow> bt_inv (es_flows s) \<and> distinct (es_ready s) \<and>
    (\<forall>f e. bt_get (es_flows s) f = Some e \<longrightarrow> fq_packets e \<noteq> [] \<and> fq_scheduled e) \<and>
    (\<forall>f. f \<in> set (es_ready s) \<longleftrightarrow> bt_get (es_flows s) f \<noteq> None) \<and>
    es_queued_packets s = flows_total (es_flows s)"

definition slot_total :: "FlowQueue option \<Rightarrow> nat" where
  "slot_total e = (case e of None \<Rightarrow> 0 | Some e \<Rightarrow> length (fq_packets e))"

lemma map_of_not_key: "k \<notin> fst ` set m \<Longrightarrow> map_of m k = None"
  by (simp add: map_of_eq_None_iff)

lemma flows_total_insert:
  "bt_inv m \<Longrightarrow> flows_total (bt_insert m k e) + slot_total (bt_get m k) = flows_total m + length (fq_packets e)"
proof (induction m k e rule: bt_insert.induct)
  case (2 k' v' m k v)
  have "k < k' \<Longrightarrow> map_of m k = None" using "2.prems" by (intro map_of_not_key) (auto simp: bt_inv_def)
  then show ?case using 2 by (auto simp: bt_inv_def flows_total_def bt_get_def slot_total_def)
qed (simp add: flows_total_def bt_get_def slot_total_def)

lemma flows_total_remove: "bt_inv m \<Longrightarrow> flows_total (bt_remove m k) + slot_total (bt_get m k) = flows_total m"
proof (induction m)
  case (Cons x m)
  have m: "bt_inv m" using Cons.prems by (simp add: bt_inv_def)
  have "fst x = k \<Longrightarrow> map_of m k = None" using Cons.prems by (intro map_of_not_key) (force simp: bt_inv_def)
  then show ?case using Cons.IH[OF m] by (cases x) (auto simp: flows_total_def bt_get_def bt_remove_def slot_total_def)
qed (simp add: flows_total_def bt_remove_def bt_get_def slot_total_def)

lemma es_inv_rr: "es_inv s \<Longrightarrow> rr_ok (es_ready s) (es_queue s)"
  by (auto simp: es_inv_def rr_ok_def es_queue_def split: option.splits)

lemma es_new_inv: "es_inv es_new"
  by (simp add: es_inv_def es_new_def flows_total_def bt_get_def)

lemma es_enqueue_effect:
  assumes "es_inv s"
  shows "es_inv (es_enqueue s f p)" "es_queue (es_enqueue s f p) = (es_queue s)(f := es_queue s f @ [p])"
    "es_ready (es_enqueue s f p) = (if f \<in> set (es_ready s) then es_ready s else es_ready s @ [f])"
proof -
  have i: "bt_inv (es_flows s)" using assms by (simp add: es_inv_def)
  note t = flows_total_insert[OF i, of f]
  show "es_inv (es_enqueue s f p)"
  proof (cases "bt_get (es_flows s) f")
    case None
    then show ?thesis using assms t[of "\<lparr>fq_packets = [p], fq_scheduled = True\<rparr>"]
      by (auto simp: es_inv_def es_enqueue_def bt.inv_ins bt.get_ins slot_total_def Let_def)
  next
    case (Some e)
    then have "fq_scheduled e" using assms by (auto simp: es_inv_def)
    then show ?thesis using assms Some t[of "e\<lparr>fq_packets := fq_packets e @ [p]\<rparr>"]
      by (auto simp: es_inv_def es_enqueue_def bt.inv_ins bt.get_ins slot_total_def Let_def)
  qed
  show "es_queue (es_enqueue s f p) = (es_queue s)(f := es_queue s f @ [p])"
    using i by (auto simp: es_queue_def es_enqueue_def bt.get_ins Let_def fun_eq_iff split: option.splits)
  show "es_ready (es_enqueue s f p) = (if f \<in> set (es_ready s) then es_ready s else es_ready s @ [f])"
    using assms by (auto simp: es_inv_def es_enqueue_def Let_def split: option.splits)
qed

text \<open>One pass of the loop, up to the hand-over to the link.\<close>

lemma es_serve:
  assumes "es_inv s" "es_ready s = f # fs"
  obtains p ps n s1 s2 where "es_queue s f = p # ps" "es_take (s\<lparr>es_ready := fs\<rparr>) f = (Ok (p, ps \<noteq> []), s1)"
    "nat_sub_r (es_queued_packets s1) 1 = Ok n" "es_put_back (s1\<lparr>es_queued_packets := n\<rparr>) f (ps \<noteq> []) = (Ok (), s2)"
    "es_inv s2" "es_ready s2 = (if ps = [] then fs else fs @ [f])" "es_queue s2 = (es_queue s)(f := ps)"
proof -
  obtain e where e0: "bt_get (es_flows s) f = Some e" using assms unfolding es_inv_def by (metis list.set_intros(1) not_None_eq)
  then obtain p ps where e: "bt_get (es_flows s) f = Some e" "fq_packets e = p # ps"
    using assms(1) unfolding es_inv_def by (metis neq_Nil_conv)
  have i: "bt_inv (es_flows s)" using assms by (simp add: es_inv_def)
  let ?m = "bt_insert (es_flows s) f \<lparr>fq_packets = ps, fq_scheduled = False\<rparr>"
  let ?s1 = "s\<lparr>es_ready := fs, es_flows := ?m\<rparr>" and ?n = "es_queued_packets s - 1"
  have i1: "bt_inv ?m" "bt_get ?m = (bt_get (es_flows s))(f \<mapsto> \<lparr>fq_packets = ps, fq_scheduled = False\<rparr>)"
    using i by (simp_all add: bt.inv_ins bt.get_ins)
  have q: "es_queued_packets s = flows_total (es_flows s)" using assms by (simp add: es_inv_def)
  have t1: "flows_total ?m + 1 = flows_total (es_flows s)"
    using flows_total_insert[OF i, of f "\<lparr>fq_packets = ps, fq_scheduled = False\<rparr>"] e by (simp add: slot_total_def)
  have take: "es_take (s\<lparr>es_ready := fs\<rparr>) f = (Ok (p, ps \<noteq> []), ?s1)" using e by (simp add: es_take_def)
  have n: "nat_sub_r (es_queued_packets ?s1) 1 = Ok ?n" using q t1 by (simp add: nat_sub_r_def)
  have qf: "es_queue s f = p # ps" using e by (simp add: es_queue_def)
  have d: "distinct (f # fs)" "\<And>g. g \<in> set (f # fs) \<longleftrightarrow> bt_get (es_flows s) g \<noteq> None" using assms by (auto simp: es_inv_def)
  have old: "\<And>g e. bt_get (es_flows s) g = Some e \<Longrightarrow> fq_packets e \<noteq> [] \<and> fq_scheduled e" using assms by (auto simp: es_inv_def)
  show thesis
  proof (cases "ps = []")
    case True
    let ?s2 = "?s1\<lparr>es_queued_packets := ?n, es_flows := bt_remove ?m f\<rparr>"
    have g: "bt_get (bt_remove ?m f) = (bt_get (es_flows s))(f := None)" using i1 by (simp add: bt.get_del)
    have "flows_total (bt_remove ?m f) = flows_total ?m" using flows_total_remove[OF i1(1), of f] i1(2) True by (simp add: slot_total_def)
    then have inv: "es_inv ?s2" using d old q t1 g bt.inv_del[OF i1(1)] by (auto simp: es_inv_def)
    have "es_queue ?s2 = (es_queue s)(f := ps)" using g True by (auto simp: es_queue_def fun_eq_iff)
    then show thesis using that[OF qf take n, of ?s2] inv True by (simp add: es_put_back_def)
  next
    case False
    let ?m2 = "bt_insert ?m f \<lparr>fq_packets = ps, fq_scheduled = True\<rparr>"
    let ?s2 = "?s1\<lparr>es_queued_packets := ?n, es_flows := ?m2, es_ready := fs @ [f]\<rparr>"
    have g: "bt_get ?m2 = (bt_get (es_flows s))(f \<mapsto> \<lparr>fq_packets = ps, fq_scheduled = True\<rparr>)" using i1 by (simp add: bt.get_ins)
    have "flows_total ?m2 = flows_total ?m" using flows_total_insert[OF i1(1), of f "\<lparr>fq_packets = ps, fq_scheduled = True\<rparr>"] i1(2) by (simp add: slot_total_def)
    then have inv: "es_inv ?s2" using d old q t1 g bt.inv_ins[OF i1(1)] False by (auto simp: es_inv_def)
    have "es_queue ?s2 = (es_queue s)(f := ps)" using g by (auto simp: es_queue_def fun_eq_iff)
    moreover have "es_put_back (?s1\<lparr>es_queued_packets := ?n\<rparr>) f (ps \<noteq> []) = (Ok (), ?s2)" using i1(2) False by (simp add: es_put_back_def)
    ultimately show thesis using that[OF qf take n, of ?s2] inv False by simp
  qed
qed

text \<open>A link that takes data packets.\<close>

definition link_ready :: "DlpLink \<Rightarrow> bool" where
  "link_ready l \<longleftrightarrow> lk_state l = LinkIsUp \<and> ep_link_up (lk_endpoint l) \<and>
    ep_next_data_vc (lk_endpoint l) \<in> data_vcs (ep_vc_mode (lk_endpoint l))"

definition encoding :: "DlpLink \<Rightarrow> GdpPacket \<Rightarrow> bytes" where
  "encoding l p = (case gdp_packet_encode p (ep_cfg (lk_endpoint l)) of Ok bs \<Rightarrow> bs | _ \<Rightarrow> [])"

definition encodable :: "DlpLink \<Rightarrow> GdpPacket \<Rightarrow> bool" where
  "encodable l p \<longleftrightarrow> is_ok (gdp_packet_encode p (ep_cfg (lk_endpoint l)))"

abbreviation link_bytes :: "DlpLink \<Rightarrow> bytes list" where
  "link_bytes l \<equiv> map tf_bytes (ep_data_tx_queue (lk_endpoint l))"

lemma link_queue_ok:
  assumes "link_ready l" "encodable l p"
  shows "\<exists>n l'. link_queue_data_packet l p = (Ok n, l') \<and> link_ready l' \<and> link_bytes l' = link_bytes l @ [encoding l p] \<and>
    encoding l' = encoding l \<and> encodable l' = encodable l"
proof -
  let ?e = "lk_endpoint l" and ?v = "ep_next_data_vc (lk_endpoint l)" and ?m = "ep_vc_mode (lk_endpoint l)"
  obtain bs where bs: "gdp_packet_encode p (ep_cfg ?e) = Ok bs" using assms(2) by (auto simp: encodable_def is_ok_iff)
  have v: "?v \<noteq> 0" "\<not> vc_mode_count ?m \<le> ?v" "ep_link_up ?e" "lk_state l = LinkIsUp" "?v \<in> data_vcs ?m"
    using assms(1) by (auto simp: link_ready_def data_vcs_def)
  show ?thesis using v bs next_vc_ok[OF v(5)]
    by (simp add: link_queue_data_packet_def on_endpoint_up queue_data_packet_def choose_data_vc_def queue_packet_on_def
        vcid_is_control_def Let_def link_ready_def encoding_def encodable_def fun_eq_iff)
qed

lemma es_loop_refines:
  assumes "es_inv s" "link_ready l" "\<forall>f. \<forall>p \<in> set (es_queue s f). encodable l p" "round_robin n (es_ready s) (es_queue s) = (out, r, q)"
  shows "\<exists>s' l'. es_loop n s l a = (Ok (a + length out), (s', l')) \<and> es_inv s' \<and> es_ready s' = r \<and> es_queue s' = q \<and>
    link_ready l' \<and> link_bytes l' = link_bytes l @ map (\<lambda>x. encoding l (snd x)) out"
  using assms
proof (induction n arbitrary: s l a out r q)
  case (Suc n)
  show ?case
  proof (cases "es_ready s")
    case Nil
    then show ?thesis using Suc.prems by auto
  next
    case (Cons f fs)
    from es_serve[OF Suc.prems(1) Cons] obtain p ps m s1 s2 where
      t: "es_queue s f = p # ps" "es_take (s\<lparr>es_ready := fs\<rparr>) f = (Ok (p, ps \<noteq> []), s1)"
        "nat_sub_r (es_queued_packets s1) 1 = Ok m" "es_put_back (s1\<lparr>es_queued_packets := m\<rparr>) f (ps \<noteq> []) = (Ok (), s2)"
      and s2: "es_inv s2" "es_ready s2 = (if ps = [] then fs else fs @ [f])" "es_queue s2 = (es_queue s)(f := ps)" by metis
    have "encodable l p" using Suc.prems(3) t(1) by (metis list.set_intros(1))
    from link_queue_ok[OF Suc.prems(2) this] obtain k l1 where
      l1: "link_queue_data_packet l p = (Ok k, l1)" "link_ready l1" "link_bytes l1 = link_bytes l @ [encoding l p]"
        "encoding l1 = encoding l" "encodable l1 = encodable l" by blast
    have loop: "es_loop (Suc n) s l a = es_loop n s2 l1 (a + 1)" using Cons t l1(1) by simp
    obtain o' where o': "round_robin n (es_ready s2) (es_queue s2) = (o', r, q)" "out = (f, p) # o'"
      using Suc.prems(4) Cons t(1) s2(2,3) by (auto split: prod.splits)
    have "set ps \<subseteq> set (es_queue s f)" using t(1) by auto
    then have enc: "\<forall>f. \<forall>p \<in> set (es_queue s2 f). encodable l1 p" using Suc.prems(3) s2(3) l1(5) by auto
    from Suc.IH[OF s2(1) l1(2) enc o'(1), of "a + 1"] show ?thesis using loop o'(2) l1(3,4) by auto
  qed
qed auto

text \<open>A link and packets to instantiate the properties with.\<close>

definition sample_packet :: GdpPacket where
  "sample_packet = \<lparr>pkt_header = \<lparr>gdp_version = 0, packet_type = Gts, size_class = Tiny3, hop_limit = 9,
     addresses = AddrGlobal 1 2\<rparr>, pkt_payload = [1, 2, 3]\<rparr>"

definition broken_packet :: GdpPacket where
  "broken_packet = sample_packet\<lparr>pkt_payload := []\<rparr>"

lemma sample_link: "\<exists>l. link_ready l \<and> queued_data_flits (lk_endpoint l) = 0 \<and> ep_vc_mode (lk_endpoint l) = VcFour \<and>
    encodable l sample_packet \<and> gdp_packet_encode broken_packet (ep_cfg (lk_endpoint l)) = Err InvalidLength"
proof -
  let ?c = "\<lparr>dc_gdp = gdp_wire_config_default, dc_local_prefix = 0, dc_vc_mode = VcFour, dc_rx_buffer_flits = 64, dc_control_window_flits = 32\<rparr>"
  obtain e where e: "dlp_new ?c = Ok e" by (simp add: dlp_new_def)
  let ?l = "\<lparr>lk_endpoint = e, lk_state = LinkIsUp, lk_generation = 0\<rparr>"
  have "link_ready ?l" "queued_data_flits (lk_endpoint ?l) = 0" "ep_vc_mode (lk_endpoint ?l) = VcFour"
    using dlp_new_fields[OF e] by (simp_all add: link_ready_def data_vcs_def queued_data_flits_def queue_flits_def word_less_nat_alt)
  moreover have "encodable ?l sample_packet"
    using gdp_packet_encode_eq[of sample_packet "ep_cfg e"]
    by (simp add: encodable_def is_ok_iff sample_packet_def gdp_packet_wf_def gdp_header_wf_def size_class_bytes_def)
  moreover have "gdp_packet_encode broken_packet (ep_cfg e) = Err InvalidLength"
    by (simp add: gdp_packet_encode_def gdp_packet_new_def broken_packet_def sample_packet_def size_class_bytes_def)
  ultimately show ?thesis by (intro exI[of _ ?l]) simp
qed

section \<open>Properties\<close>

text \<open>C15. A scheduling round is fair, loses nothing and keeps each flow's order: on an idle link that is up, with packets that can be encoded,
  the round admits some packets, at most one per ordinary channel, and fewer only when every queue is empty afterwards; the flows waiting longest are served first, one packet each,
  before any flow is served twice; flows not reached keep their place ahead of those served; the link's queue gains exactly the encodings of the admitted
  packets in that order, and for every flow the packets admitted followed by those still queued are those queued before.\<close>

theorem egress_round_fair:
  assumes "es_inv s" "link_ready l" "queued_data_flits (lk_endpoint l) = 0" "\<forall>f. \<forall>p \<in> set (es_queue s f). encodable l p"
  shows "\<exists>out s' l'. schedule_round s l = (Ok (length out), (s', l')) \<and> es_inv s' \<and>
    length out \<le> es_capacity (ep_vc_mode (lk_endpoint l)) \<and>
    (length out < es_capacity (ep_vc_mode (lk_endpoint l)) \<longrightarrow> es_ready s' = []) \<and>
    take (length (es_ready s)) out = map (\<lambda>f. (f, hd (es_queue s f))) (take (es_capacity (ep_vc_mode (lk_endpoint l))) (es_ready s)) \<and>
    (\<exists>back. es_ready s' = drop (es_capacity (ep_vc_mode (lk_endpoint l))) (es_ready s) @ back) \<and>
    link_bytes l' = link_bytes l @ map (\<lambda>x. encoding l (snd x)) out \<and>
    (\<forall>f. map snd (filter (\<lambda>x. fst x = f) out) @ es_queue s' f = es_queue s f)"
proof -
  let ?c = "es_capacity (ep_vc_mode (lk_endpoint l))"
  obtain out r q where rr: "round_robin ?c (es_ready s) (es_queue s) = (out, r, q)" by (metis prod_cases3)
  obtain s' l' where s': "es_loop ?c s l 0 = (Ok (length out), (s', l'))" "es_inv s'" "es_ready s' = r" "es_queue s' = q"
      "link_bytes l' = link_bytes l @ map (\<lambda>x. encoding l (snd x)) out"
    using es_loop_refines[OF assms(1,2,4) rr, of 0] by auto
  have d: "distinct (es_ready s)" using assms(1) by (simp add: es_inv_def)
  have "schedule_round s l = (Ok (length out), (s', l'))" using s'(1) assms(3) by (simp add: schedule_round_def)
  then show ?thesis
    using s' round_robin_count[OF es_inv_rr[OF assms(1)] rr] round_robin_fair[OF d rr] round_robin_flow_order[OF es_inv_rr[OF assms(1)] rr]
    by blast
qed

theorem egress_round_fair_witness:
  "\<exists>l out s' l'. schedule_round (es_enqueue es_new \<lparr>ef_source = 1, ef_destination = 2, ef_transport = 0\<rparr> sample_packet) l = (Ok (length out), (s', l')) \<and>
    length out \<le> 3 \<and> take 1 out = [(\<lparr>ef_source = 1, ef_destination = 2, ef_transport = 0\<rparr>, sample_packet)]"
proof -
  obtain l where l: "link_ready l" "queued_data_flits (lk_endpoint l) = 0" "ep_vc_mode (lk_endpoint l) = VcFour" "encodable l sample_packet"
    using sample_link by blast
  let ?f = "\<lparr>ef_source = 1, ef_destination = 2, ef_transport = 0\<rparr>"
  have q: "es_queue es_new g = []" "es_ready es_new = []" for g by (simp_all add: es_queue_def es_new_def bt_get_def)
  let ?s = "es_enqueue es_new ?f sample_packet"
  have "\<forall>g. \<forall>p \<in> set (es_queue ?s g). encodable l p" using es_enqueue_effect(2)[OF es_new_inv, of ?f sample_packet] q l(4) by simp
  from egress_round_fair[OF es_enqueue_effect(1)[OF es_new_inv] l(1,2) this] show ?thesis
    using es_enqueue_effect(2,3)[OF es_new_inv, of ?f sample_packet] q l(3) by (auto simp: es_capacity_def)
qed

text \<open>C32. A packet the link refuses takes its flow with it: when the packet at the head of the only ready flow cannot be encoded, the round
  fails, the packet is gone but still counted, the rest of the flow's packets stay queued while the flow is no longer ready, and the next round admits nothing.\<close>

theorem egress_failed_packet_strands_flow:
  assumes "es_inv s" "es_ready s = [f]" "es_queue s f = bad # ps" "link_ready l" "queued_data_flits (lk_endpoint l) = 0"
    "gdp_packet_encode bad (ep_cfg (lk_endpoint l)) = Err er"
  shows "\<exists>s1 l1. schedule_round s l = (Err er, (s1, l1)) \<and> es_ready s1 = [] \<and> es_queue s1 f = ps \<and>
    es_queued_packets s1 = length ps + 1 \<and> schedule_round s1 l1 = (Ok 0, (s1, l1))"
proof -
  have i: "bt_inv (es_flows s)" using assms(1) by (simp add: es_inv_def)
  obtain e where e: "bt_get (es_flows s) f = Some e" "fq_packets e = bad # ps"
    using assms(3) by (auto simp: es_queue_def split: option.splits)
  let ?s1 = "s\<lparr>es_ready := [], es_flows := bt_insert (es_flows s) f \<lparr>fq_packets = ps, fq_scheduled = False\<rparr>\<rparr>"
  have take: "es_take (s\<lparr>es_ready := []\<rparr>) f = (Ok (bad, ps \<noteq> []), ?s1)" using e by (simp add: es_take_def)
  have v: "lk_state l = LinkIsUp" "ep_link_up (lk_endpoint l)" "ep_next_data_vc (lk_endpoint l) \<noteq> 0"
      "\<not> vc_mode_count (ep_vc_mode (lk_endpoint l)) \<le> ep_next_data_vc (lk_endpoint l)"
    using assms(4) by (auto simp: link_ready_def data_vcs_def)
  obtain l1 where l1: "link_queue_data_packet l bad = (Err er, l1)" "queued_data_flits (lk_endpoint l1) = 0"
    using v assms(5,6) by (simp add: link_queue_data_packet_def on_endpoint_up queue_data_packet_def choose_data_vc_def queue_packet_on_def
        vcid_is_control_def Let_def lift_r_def queued_data_flits_def)
  have "es_flows s = [(f, e)]"
  proof -
    have "set (map fst (es_flows s)) = {f}"
      using assms(1,2) bt.keys_dom[OF i] by (auto simp: es_inv_def dom_def)
    moreover have "length (map fst (es_flows s)) = 1"
      using distinct_card[OF bt.keys_distinct[OF i]] calculation by simp
    ultimately have "map fst (es_flows s) = [f]" by (auto simp: length_Suc_conv)
    then show ?thesis using e by (auto simp: bt_get_def)
  qed
  then have n: "es_queued_packets s = length ps + 1" using assms(1) e by (simp add: es_inv_def flows_total_def)
  obtain c where c: "es_capacity (ep_vc_mode (lk_endpoint l)) = Suc c" by (cases "ep_vc_mode (lk_endpoint l)") (simp_all add: es_capacity_def)
  have "schedule_round s l = (Err er, (?s1, l1))" using assms(2,5) take l1(1) c by (simp add: schedule_round_def)
  moreover have "es_queue ?s1 f = ps" using i by (simp add: es_queue_def bt.get_ins)
  moreover have "schedule_round ?s1 l1 = (Ok 0, (?s1, l1))"
    using l1(2) by (cases "es_capacity (ep_vc_mode (lk_endpoint l1))") (simp_all add: schedule_round_def)
  ultimately show ?thesis using n by (intro exI[of _ ?s1] exI[of _ l1]) simp
qed

theorem egress_failed_packet_strands_flow_witness:
  "\<exists>l s1 l1. schedule_round (es_enqueue (es_enqueue es_new \<lparr>ef_source = 1, ef_destination = 2, ef_transport = 0\<rparr> broken_packet)
      \<lparr>ef_source = 1, ef_destination = 2, ef_transport = 0\<rparr> sample_packet) l = (Err InvalidLength, (s1, l1)) \<and>
    es_queue s1 \<lparr>ef_source = 1, ef_destination = 2, ef_transport = 0\<rparr> = [sample_packet] \<and> es_queued_packets s1 = 2 \<and>
    schedule_round s1 l1 = (Ok 0, (s1, l1))"
proof -
  obtain l where l: "link_ready l" "queued_data_flits (lk_endpoint l) = 0" "gdp_packet_encode broken_packet (ep_cfg (lk_endpoint l)) = Err InvalidLength"
    using sample_link by blast
  let ?f = "\<lparr>ef_source = 1, ef_destination = 2, ef_transport = 0\<rparr>"
  let ?a = "es_enqueue es_new ?f broken_packet" and ?s = "es_enqueue (es_enqueue es_new ?f broken_packet) ?f sample_packet"
  have q: "es_queue es_new g = []" "es_ready es_new = []" for g by (simp_all add: es_queue_def es_new_def bt_get_def)
  note a = es_enqueue_effect[OF es_new_inv, of ?f broken_packet] and b = es_enqueue_effect[OF es_enqueue_effect(1)[OF es_new_inv], of ?f broken_packet ?f sample_packet]
  have "es_ready ?s = [?f]" "es_queue ?s ?f = broken_packet # [sample_packet]" using a b q by simp_all
  from egress_failed_packet_strands_flow[OF b(1) this l] show ?thesis by (auto simp: numeral_2_eq_2)
qed

end
