(* ===== verification/Gts_Stream.thy ===== *)
theory Gts_Stream
  imports Gts_Packet Btree_Map
begin

text \<open>
  The owned GTS streams and tunnels, src/src/gts.rs: the sender and the receiver half of a reliable stream
  (\<open>ReliableTx\<close>, \<open>ReliableRx\<close>), the stream with its profile, direction and state checks, and the tunnel that
  numbers its streams. Times are the u64 milliseconds of the source, \<open>usize\<close> is a natural number.
\<close>

section \<open>Roles and states\<close>

datatype TunnelRole = Initiator | Responder

datatype TunnelState = TunConnecting | TunEstablished | TunClosing | TunClosed | TunReset

datatype StreamState = StOpening | StOpen | StClosing | StClosed | StReset

section \<open>The sending half\<close>

record PendingTx =
  pt_data :: bytes
  pt_end :: bool
  pt_sent_at :: u64

record ReliableTx =
  rtx_next_sequence :: u32
  rtx_peer_credit :: u8
  rtx_outstanding :: "(u32, PendingTx) btree"
  rtx_rto_ms :: u64

definition default_rto_ms :: u64 where
  "default_rto_ms = 500"

definition rtx_new :: "u8 \<Rightarrow> ReliableTx" where
  "rtx_new credit = \<lparr>rtx_next_sequence = 0, rtx_peer_credit = credit, rtx_outstanding = [], rtx_rto_ms = default_rto_ms\<rparr>"

definition rtx_queue :: "ReliableTx \<Rightarrow> bytes \<Rightarrow> bool \<Rightarrow> u64 \<Rightarrow> (ReliableTx, u32) outcome" where
  "rtx_queue tx data e now =
    (if rtx_peer_credit tx = 0 then (Err WouldBlock, tx)
     else let seq = rtx_next_sequence tx in
       (Ok seq, tx\<lparr>rtx_next_sequence := seq + 1, rtx_peer_credit := rtx_peer_credit tx - 1,
          rtx_outstanding := bt_insert (rtx_outstanding tx) seq \<lparr>pt_data = data, pt_end = e, pt_sent_at = now\<rparr>\<rparr>))"

text \<open>Whether an acknowledgement covers a sequence number, as \<open>on_ack\<close> decides it.\<close>

definition ack_covers :: "u32 \<Rightarrow> u32 \<Rightarrow> u32 \<Rightarrow> bool" where
  "ack_covers base bitmap k =
    (if k \<le> base then True
     else let d = k - base - 1 in d < 32 \<and> bitmap AND push_bit (unat d) 1 \<noteq> 0)"

definition rtx_on_ack :: "ReliableTx \<Rightarrow> u32 \<Rightarrow> u32 \<Rightarrow> u8 \<Rightarrow> ReliableTx" where
  "rtx_on_ack tx base bitmap credit =
    (let kept = foldl (\<lambda>m k. if ack_covers base bitmap k then bt_remove m k else m) (rtx_outstanding tx)
                  (bt_keys (rtx_outstanding tx))
     in tx\<lparr>rtx_outstanding := kept, rtx_peer_credit := credit\<rparr>)"

definition due_entry :: "u64 \<Rightarrow> u64 \<Rightarrow> u32 \<times> PendingTx \<Rightarrow> bool" where
  "due_entry rto now e \<longleftrightarrow> rto \<le> saturating_sub now (pt_sent_at (snd e))"

definition rtx_due :: "ReliableTx \<Rightarrow> u64 \<Rightarrow> (u32 \<times> bytes \<times> bool) list \<times> ReliableTx" where
  "rtx_due tx now =
    (map (\<lambda>(seq, p). (seq, pt_data p, pt_end p)) (filter (due_entry (rtx_rto_ms tx) now) (rtx_outstanding tx)),
     tx\<lparr>rtx_outstanding := map (\<lambda>e. if due_entry (rtx_rto_ms tx) now e then (fst e, snd e\<lparr>pt_sent_at := now\<rparr>) else e)
        (rtx_outstanding tx)\<rparr>)"

definition rtx_reset :: "ReliableTx \<Rightarrow> ReliableTx" where
  "rtx_reset tx = tx\<lparr>rtx_outstanding := [], rtx_peer_credit := 0\<rparr>"

section \<open>The receiving half\<close>

record ReliableRx =
  rrx_next_expected :: u32
  rrx_pending :: "(u32, bytes) btree"
  rrx_delivered :: "bytes list"
  rrx_capacity :: nat
  rrx_seen_any :: bool

definition rrx_new :: "nat \<Rightarrow> ReliableRx" where
  "rrx_new cap = \<lparr>rrx_next_expected = 0, rrx_pending = [], rrx_delivered = [], rrx_capacity = cap, rrx_seen_any = False\<rparr>"

definition rrx_used :: "ReliableRx \<Rightarrow> nat" where
  "rrx_used rx = length (rrx_pending rx) + length (rrx_delivered rx)"

definition rrx_credit :: "ReliableRx \<Rightarrow> u8" where
  "rrx_credit rx = of_nat (min (rrx_capacity rx - rrx_used rx) 255)"

text \<open>The loop that moves buffered successors of the next expected message to the delivery queue. Each round
  removes an entry of the buffer.\<close>

function rrx_drain :: "u32 \<Rightarrow> (u32, bytes) btree \<Rightarrow> bytes list \<Rightarrow> u32 \<times> (u32, bytes) btree \<times> bytes list" where
  "rrx_drain n pending delivered = (case bt_get pending n of
      Some v \<Rightarrow> rrx_drain (n + 1) (bt_remove pending n) (delivered @ [v])
    | None \<Rightarrow> (n, pending, delivered))"
  by pat_completeness auto
termination
proof (relation "measure (\<lambda>(n, pending, delivered). length pending)")
  fix n and pending :: "(u32, bytes) btree" and delivered :: "bytes list" and v
  assume "bt_get pending n = Some v"
  then have "(n, v) \<in> set pending" by (simp add: bt_get_def map_of_SomeD)
  then have "length (bt_remove pending n) < length pending"
    unfolding bt_remove_def by (intro length_filter_less) auto
  then show "((n + 1, bt_remove pending n, delivered @ [v]), n, pending, delivered)
      \<in> measure (\<lambda>(n, pending, delivered). length pending)" by simp
qed simp

declare rrx_drain.simps [simp del]

definition rrx_receive :: "ReliableRx \<Rightarrow> u32 \<Rightarrow> bytes \<Rightarrow> (ReliableRx, bool) outcome" where
  "rrx_receive rx seq data =
    (if seq < rrx_next_expected rx then (Ok False, rx)
     else if seq = rrx_next_expected rx then
       (if rrx_capacity rx \<le> rrx_used rx then (Err BufferFull, rx)
        else case rrx_drain (rrx_next_expected rx + 1) (rrx_pending rx) (rrx_delivered rx @ [data]) of
          (n, pending, delivered) \<Rightarrow>
            (Ok True, rx\<lparr>rrx_next_expected := n, rrx_pending := pending, rrx_delivered := delivered, rrx_seen_any := True\<rparr>))
     else let distance = seq - rrx_next_expected rx in
       if 32 < distance \<or> rrx_capacity rx \<le> rrx_used rx then (Err BufferFull, rx)
       else (Ok False, case bt_get (rrx_pending rx) seq of
           Some _ \<Rightarrow> rx
         | None \<Rightarrow> rx\<lparr>rrx_pending := bt_insert (rrx_pending rx) seq data\<rparr>))"

definition ack_bit :: "u32 \<Rightarrow> u32 \<Rightarrow> u32 \<Rightarrow> u32" where
  "ack_bit base bitmap seq =
    (let d = seq - base - 1 in if d < 32 then bitmap OR push_bit (unat d) 1 else bitmap)"

definition rrx_ack :: "ReliableRx \<Rightarrow> (u32 \<times> u32 \<times> u8) option" where
  "rrx_ack rx =
    (if \<not> rrx_seen_any rx then None
     else let base = rrx_next_expected rx - 1 in
       Some (base, foldl (ack_bit base) 0 (bt_keys (rrx_pending rx)), rrx_credit rx))"

definition rrx_recv :: "ReliableRx \<Rightarrow> bytes option \<times> ReliableRx" where
  "rrx_recv rx = (case rrx_delivered rx of
      [] \<Rightarrow> (None, rx)
    | m # ms \<Rightarrow> (Some m, rx\<lparr>rrx_delivered := ms\<rparr>))"

definition rrx_reset :: "ReliableRx \<Rightarrow> ReliableRx" where
  "rrx_reset rx = rx\<lparr>rrx_pending := [], rrx_delivered := [], rrx_next_expected := 0, rrx_seen_any := False\<rparr>"

section \<open>Streams\<close>

record GtsStream =
  st_id :: u8
  st_profile :: StreamProfile
  st_state :: StreamState
  st_opened_by_local :: bool
  st_reliable_tx :: "ReliableTx option"
  st_reliable_rx :: "ReliableRx option"
  st_unrel_tx_sequence :: u32
  st_unrel_rx_highest :: "u32 option"
  st_unrel_delivered :: "bytes list"
  st_local_ended :: bool
  st_remote_ended :: bool

definition stream_new :: "u8 \<Rightarrow> StreamProfile \<Rightarrow> bool \<Rightarrow> u8 \<Rightarrow> u8 \<Rightarrow> GtsStream result" where
  "stream_new i p opened local_credit peer_credit =
    rbind (profile_validate p) (\<lambda>_.
      Ok \<lparr>st_id = i, st_profile = p, st_state = StOpen, st_opened_by_local = opened,
          st_reliable_tx = (if sp_unreliable p then None else Some (rtx_new peer_credit)),
          st_reliable_rx = (if sp_unreliable p then None else Some (rrx_new (unat (max local_credit 1)))),
          st_unrel_tx_sequence = 0, st_unrel_rx_highest = None, st_unrel_delivered = [],
          st_local_ended = False, st_remote_ended = False\<rparr>)"

definition local_may_send :: "GtsStream \<Rightarrow> bool \<Rightarrow> bool" where
  "local_may_send s opener =
    (if opener then opener_may_send (sp_direction (st_profile s)) else peer_may_send (sp_direction (st_profile s)))"

definition remote_may_send :: "GtsStream \<Rightarrow> bool \<Rightarrow> bool" where
  "remote_may_send s opener =
    (if opener then peer_may_send (sp_direction (st_profile s)) else opener_may_send (sp_direction (st_profile s)))"

definition profile_bytes :: "GtsStream \<Rightarrow> nat" where
  "profile_bytes s = size_class_bytes (sp_size_class (st_profile s))"

definition fixed_reliable_data_len :: "GtsStream \<Rightarrow> nat result" where
  "fixed_reliable_data_len s = ok_or (checked_sub (profile_bytes s) 14) InvalidLength"

definition fixed_reliable_end_capacity :: "GtsStream \<Rightarrow> nat result" where
  "fixed_reliable_end_capacity s = ok_or (checked_sub (profile_bytes s) 16) InvalidLength"

definition fixed_unreliable_data_len :: "GtsStream \<Rightarrow> nat result" where
  "fixed_unreliable_data_len s =
    ok_or (checked_sub (profile_bytes s) (if sp_sequenced (st_profile s) then 14 else 10)) InvalidLength"

definition variable_overhead :: "GtsStream \<Rightarrow> nat" where
  "variable_overhead s = (if sp_sequenced (st_profile s) then 16 else 12)"

definition validate_send_len :: "GtsStream \<Rightarrow> nat \<Rightarrow> bool \<Rightarrow> unit result" where
  "validate_send_len s n e =
    (if sp_unreliable (st_profile s) then
       (if e then Err ProfileViolation
        else if sp_variable (st_profile s) then
          (if profile_bytes s < n + variable_overhead s then Err MessageTooLarge else Ok ())
        else rbind (fixed_unreliable_data_len s) (\<lambda>k. if n \<noteq> k then Err InvalidLength else Ok ()))
     else if sp_variable (st_profile s) then
       (if profile_bytes s < n + 16 then Err MessageTooLarge else Ok ())
     else if e then
       rbind (fixed_reliable_end_capacity s) (\<lambda>k. if k < n then Err MessageTooLarge else Ok ())
     else rbind (fixed_reliable_data_len s) (\<lambda>k. if n \<noteq> k then Err InvalidLength else Ok ()))"

definition validate_data :: "GtsStream \<Rightarrow> SizeClass \<Rightarrow> bytes \<Rightarrow> bool \<Rightarrow> unit result" where
  "validate_data s c data e =
    (if sp_unreliable (st_profile s) \<or> st_remote_ended s then Err ProfileViolation
     else if \<not> remote_may_send s (st_opened_by_local s) then Err DirectionViolation
     else if sp_variable (st_profile s) then
       (if size_class_index (sp_size_class (st_profile s)) < size_class_index c \<or> size_class_bytes c < length data + 16
        then Err ProfileViolation else Ok ())
     else if c \<noteq> sp_size_class (st_profile s) then Err ProfileViolation
     else if e then
       rbind (fixed_reliable_end_capacity s) (\<lambda>k. if k < length data then Err InvalidLength else Ok ())
     else rbind (fixed_reliable_data_len s) (\<lambda>k. if length data \<noteq> k then Err InvalidLength else Ok ()))"

definition validate_datagram :: "GtsStream \<Rightarrow> SizeClass \<Rightarrow> u32 option \<Rightarrow> bytes \<Rightarrow> unit result" where
  "validate_datagram s c seq data =
    (if \<not> sp_unreliable (st_profile s) then Err ProfileViolation
     else if \<not> remote_may_send s (st_opened_by_local s) then Err DirectionViolation
     else if sp_sequenced (st_profile s) \<noteq> (seq \<noteq> None) then Err ProfileViolation
     else if sp_variable (st_profile s) then
       (if size_class_index (sp_size_class (st_profile s)) < size_class_index c
          \<or> size_class_bytes c < length data + variable_overhead s
        then Err ProfileViolation else Ok ())
     else if c \<noteq> sp_size_class (st_profile s) then Err InvalidLength
     else rbind (fixed_unreliable_data_len s) (\<lambda>k. if length data \<noteq> k then Err InvalidLength else Ok ()))"

definition validate_incoming :: "GtsStream \<Rightarrow> SizeClass \<Rightarrow> GtsPacket \<Rightarrow> unit result" where
  "validate_incoming s c pk =
    (if st_state s = StClosed \<or> st_state s = StReset then Err InvalidState
     else case pk of
         PData _ _ _ data e \<Rightarrow> validate_data s c data e
       | PDatagram _ _ seq data \<Rightarrow> validate_datagram s c seq data
       | PAck _ _ _ _ _ \<Rightarrow> if sp_unreliable (st_profile s) then Err ProfileViolation else Ok ()
       | PStreamClose _ _ final _ \<Rightarrow>
           if sp_unreliable (st_profile s) \<and> final \<noteq> 0 then Err ProfileViolation else Ok ()
       | PStreamReset _ _ _ _ \<Rightarrow> Ok ()
       | _ \<Rightarrow> Err ProfileViolation)"

definition send_packet :: "GtsStream \<Rightarrow> u32 \<Rightarrow> bytes \<Rightarrow> bool \<Rightarrow> u64 \<Rightarrow> (GtsStream, GtsPacket) outcome" where
  "send_packet s tunnel data e now =
    (if st_state s \<noteq> StOpen then (Err InvalidState, s)
     else if st_local_ended s then (Err InvalidState, s)
     else if \<not> local_may_send s (st_opened_by_local s) then (Err DirectionViolation, s)
     else sbind (lift_r (validate_send_len s (length data) e) s) (\<lambda>_ s.
       if sp_unreliable (st_profile s) then
         (if sp_sequenced (st_profile s) then
            (Ok (PDatagram tunnel (st_id s) (Some (st_unrel_tx_sequence s)) data),
             s\<lparr>st_unrel_tx_sequence := st_unrel_tx_sequence s + 1\<rparr>)
          else (Ok (PDatagram tunnel (st_id s) None data), s))
       else case st_reliable_tx s of
           None \<Rightarrow> (Panic, s)
         | Some tx \<Rightarrow> (case rtx_queue tx data e now of
               (Ok seq, tx) \<Rightarrow>
                 (Ok (PData tunnel (st_id s) seq data e),
                  s\<lparr>st_reliable_tx := Some tx, st_local_ended := (e \<or> st_local_ended s)\<rparr>)
             | (Err x, tx) \<Rightarrow> (Err x, s\<lparr>st_reliable_tx := Some tx\<rparr>)
             | (Panic, tx) \<Rightarrow> (Panic, s\<lparr>st_reliable_tx := Some tx\<rparr>))))"

definition ack_packet :: "u32 \<Rightarrow> u8 \<Rightarrow> u32 \<times> u32 \<times> u8 \<Rightarrow> GtsPacket" where
  "ack_packet tunnel i a = (case a of (base, bitmap, credit) \<Rightarrow> PAck tunnel i base bitmap credit)"

definition receive_data :: "GtsStream \<Rightarrow> u32 \<Rightarrow> u8 \<Rightarrow> u32 \<Rightarrow> bytes \<Rightarrow> bool \<Rightarrow> (GtsStream, GtsPacket option) outcome" where
  "receive_data s tunnel i seq data e =
    (if i \<noteq> st_id s \<or> st_remote_ended s then (Err InvalidState, s)
     else case st_reliable_rx s of
         None \<Rightarrow> (Panic, s)
       | Some rx \<Rightarrow> (case rrx_receive rx seq data of
             (Ok _, rx) \<Rightarrow>
               (Ok (map_option (ack_packet tunnel i) (rrx_ack rx)),
                s\<lparr>st_reliable_rx := Some rx, st_remote_ended := (e \<or> st_remote_ended s)\<rparr>)
           | (Err x, rx) \<Rightarrow> (Err x, s\<lparr>st_reliable_rx := Some rx\<rparr>)
           | (Panic, rx) \<Rightarrow> (Panic, s\<lparr>st_reliable_rx := Some rx\<rparr>)))"

definition receive_datagram :: "GtsStream \<Rightarrow> u8 \<Rightarrow> u32 option \<Rightarrow> bytes \<Rightarrow> (GtsStream, GtsPacket option) outcome" where
  "receive_datagram s i seq data =
    (if i \<noteq> st_id s then (Err UnknownStream, s)
     else if sp_sequenced (st_profile s) then
       (case seq of
           None \<Rightarrow> (Err ProfileViolation, s)
         | Some q \<Rightarrow>
             if (case st_unrel_rx_highest s of Some h \<Rightarrow> q \<le> h | None \<Rightarrow> False) then (Ok None, s)
             else (Ok None, s\<lparr>st_unrel_rx_highest := Some q, st_unrel_delivered := st_unrel_delivered s @ [data]\<rparr>))
     else (Ok None, s\<lparr>st_unrel_delivered := st_unrel_delivered s @ [data]\<rparr>))"

definition receive_packet :: "GtsStream \<Rightarrow> GtsPacket \<Rightarrow> (GtsStream, GtsPacket option) outcome" where
  "receive_packet s pk =
    (if st_state s = StClosed \<or> st_state s = StReset then (Err InvalidState, s)
     else if \<not> remote_may_send s (st_opened_by_local s) then (Err DirectionViolation, s)
     else case pk of
         PData tunnel i seq data e \<Rightarrow>
           if sp_unreliable (st_profile s) then (Err ProfileViolation, s) else receive_data s tunnel i seq data e
       | PDatagram tunnel i seq data \<Rightarrow>
           if \<not> sp_unreliable (st_profile s) then (Err ProfileViolation, s) else receive_datagram s i seq data
       | _ \<Rightarrow> (Err ProfileViolation, s))"

definition stream_on_ack :: "GtsStream \<Rightarrow> u32 \<Rightarrow> u32 \<Rightarrow> u8 \<Rightarrow> (GtsStream, unit) outcome" where
  "stream_on_ack s base bitmap credit =
    (if st_state s = StReset \<or> sp_unreliable (st_profile s) then (Err ProfileViolation, s)
     else case st_reliable_tx s of
         None \<Rightarrow> (Err ProfileViolation, s)
       | Some tx \<Rightarrow> (Ok (), s\<lparr>st_reliable_tx := Some (rtx_on_ack tx base bitmap credit)\<rparr>))"

definition stream_recv :: "GtsStream \<Rightarrow> (GtsStream, bytes option) outcome" where
  "stream_recv s =
    (if sp_unreliable (st_profile s) then
       (case st_unrel_delivered s of
           [] \<Rightarrow> (Ok None, s)
         | m # ms \<Rightarrow> (Ok (Some m), s\<lparr>st_unrel_delivered := ms\<rparr>))
     else case st_reliable_rx s of
         None \<Rightarrow> (Panic, s)
       | Some rx \<Rightarrow> (case rrx_recv rx of (m, rx) \<Rightarrow> (Ok m, s\<lparr>st_reliable_rx := Some rx\<rparr>)))"

definition receive_credit_ack :: "GtsStream \<Rightarrow> u32 \<Rightarrow> GtsPacket option" where
  "receive_credit_ack s tunnel =
    (if sp_unreliable (st_profile s) \<or> st_state s = StReset then None
     else case st_reliable_rx s of
         None \<Rightarrow> None
       | Some rx \<Rightarrow> map_option (ack_packet tunnel (st_id s)) (rrx_ack rx))"

definition retransmit_due :: "GtsStream \<Rightarrow> u32 \<Rightarrow> u64 \<Rightarrow> GtsPacket list \<times> GtsStream" where
  "retransmit_due s tunnel now = (case st_reliable_tx s of
      None \<Rightarrow> ([], s)
    | Some tx \<Rightarrow> (case rtx_due tx now of (due, tx) \<Rightarrow>
        (map (\<lambda>(seq, data, e). PData tunnel (st_id s) seq data e) due, s\<lparr>st_reliable_tx := Some tx\<rparr>)))"

definition stream_peer_credit :: "GtsStream \<Rightarrow> u8 option" where
  "stream_peer_credit s = map_option rtx_peer_credit (st_reliable_tx s)"

definition set_peer_credit :: "u8 \<Rightarrow> GtsStream \<Rightarrow> GtsStream" where
  "set_peer_credit c s = s\<lparr>st_reliable_tx := map_option (rtx_peer_credit_update (\<lambda>_. c)) (st_reliable_tx s)\<rparr>"

definition apply_open_ack :: "GtsStream \<Rightarrow> u8 \<Rightarrow> (GtsStream, unit) outcome" where
  "apply_open_ack s c =
    (if st_state s \<noteq> StOpening then (Err InvalidState, s)
     else (Ok (), set_peer_credit c s\<lparr>st_state := StOpen\<rparr>))"

definition mark_opening :: "GtsStream \<Rightarrow> GtsStream" where
  "mark_opening s = s\<lparr>st_state := StOpening\<rparr>"

definition stream_reset :: "GtsStream \<Rightarrow> GtsStream" where
  "stream_reset s = s\<lparr>st_state := StReset, st_reliable_tx := map_option rtx_reset (st_reliable_tx s),
     st_reliable_rx := map_option rrx_reset (st_reliable_rx s), st_unrel_delivered := [],
     st_unrel_rx_highest := None, st_local_ended := True, st_remote_ended := True\<rparr>"

section \<open>Tunnels\<close>

record GtsTunnel =
  tun_role :: TunnelRole
  tun_state :: TunnelState
  tun_local_receive_id :: u32
  tun_remote_receive_id :: "u32 option"
  tun_local_reset_id :: u32
  tun_remote_reset_id :: "u32 option"
  tun_css :: ServiceSelector
  tun_streams :: "(u8, GtsStream) btree"
  tun_next_stream_id :: u8

definition tunnel_initiator :: "u32 \<Rightarrow> u32 \<Rightarrow> ServiceSelector \<Rightarrow> StreamProfile \<Rightarrow> u8 \<Rightarrow> GtsTunnel result" where
  "tunnel_initiator recv_id reset_id css p credit =
    rbind (stream_new 0 p True credit 0) (\<lambda>s.
      Ok \<lparr>tun_role = Initiator, tun_state = TunConnecting, tun_local_receive_id = recv_id, tun_remote_receive_id = None,
          tun_local_reset_id = reset_id, tun_remote_reset_id = None, tun_css = css, tun_streams = bt_insert [] 0 s,
          tun_next_stream_id = 2\<rparr>)"

definition tunnel_responder ::
  "u32 \<Rightarrow> u32 \<Rightarrow> u32 \<Rightarrow> u32 \<Rightarrow> ServiceSelector \<Rightarrow> StreamProfile \<Rightarrow> u8 \<Rightarrow> u8 \<Rightarrow> GtsTunnel result" where
  "tunnel_responder recv_id reset_id remote_recv remote_reset css p credit peer_credit =
    rbind (stream_new 0 p False credit peer_credit) (\<lambda>s.
      Ok \<lparr>tun_role = Responder, tun_state = TunEstablished, tun_local_receive_id = recv_id,
          tun_remote_receive_id = Some remote_recv, tun_local_reset_id = reset_id,
          tun_remote_reset_id = Some remote_reset, tun_css = css, tun_streams = bt_insert [] 0 s,
          tun_next_stream_id = 1\<rparr>)"

definition establish_initiator :: "GtsTunnel \<Rightarrow> u32 \<Rightarrow> u32 \<Rightarrow> u8 \<Rightarrow> (GtsTunnel, unit) outcome" where
  "establish_initiator t remote_recv remote_reset credit =
    (if tun_state t \<noteq> TunConnecting then (Err InvalidState, t)
     else let t = t\<lparr>tun_remote_receive_id := Some remote_recv, tun_remote_reset_id := Some remote_reset,
                    tun_state := TunEstablished\<rparr> in
       (case bt_get (tun_streams t) 0 of
           None \<Rightarrow> (Panic, t)
         | Some s \<Rightarrow> (Ok (), t\<lparr>tun_streams := bt_insert (tun_streams t) 0 (set_peer_credit credit s)\<rparr>)))"

definition alloc_stream_id :: "GtsTunnel \<Rightarrow> (GtsTunnel, u8) outcome" where
  "alloc_stream_id t =
    (if tun_state t \<noteq> TunEstablished then (Err InvalidState, t)
     else let i = tun_next_stream_id t in
       if 253 < i then (Err BufferFull, t) else (Ok i, t\<lparr>tun_next_stream_id := i + 2\<rparr>))"

definition add_stream :: "GtsTunnel \<Rightarrow> u8 \<Rightarrow> StreamProfile \<Rightarrow> bool \<Rightarrow> u8 \<Rightarrow> u8 \<Rightarrow> (GtsTunnel, unit) outcome" where
  "add_stream t i p opened credit peer_credit =
    (if tun_state t \<noteq> TunEstablished \<or> bt_get (tun_streams t) i \<noteq> None then (Err InvalidState, t)
     else sbind (lift_r (stream_new i p opened credit peer_credit) t) (\<lambda>s t.
       (Ok (), t\<lparr>tun_streams := bt_insert (tun_streams t) i s\<rparr>)))"

definition tunnel_stream :: "GtsTunnel \<Rightarrow> u8 \<Rightarrow> GtsStream result" where
  "tunnel_stream t i = ok_or (bt_get (tun_streams t) i) UnknownStream"

definition remote_id :: "GtsTunnel \<Rightarrow> u32 result" where
  "remote_id t = ok_or (tun_remote_receive_id t) InvalidState"

definition tunnel_reset :: "GtsTunnel \<Rightarrow> GtsTunnel" where
  "tunnel_reset t = t\<lparr>tun_state := TunReset, tun_streams := map (\<lambda>(i, s). (i, stream_reset s)) (tun_streams t)\<rparr>"

end
