(* ===== verification/Gts_Transfer.thy ===== *)
theory Gts_Transfer
  imports Gts_Stream
begin

text \<open>
  Two ends of a reliable stream of src/src/gts.rs over a network that loses, duplicates and reorders packets
  without bound. The network is the set of packets ever sent in each direction, from which any packet may be
  delivered any number of times. The transfer is shown to deliver a prefix of the sent messages, in order,
  and never to forget a message that the receiver does not hold, as long as the 32-bit sequence numbers have
  not come round. A retransmission round with room at the receiver completes the transfer. Two ways for a
  transfer to stop for good are shown too.
\<close>

section \<open>The connection\<close>

record conn =
  cn_tx :: GtsStream
  cn_rx :: GtsStream
  cn_sent :: "bytes list"
  cn_got :: "bytes list"
  cn_data :: "GtsPacket set"
  cn_acks :: "GtsPacket set"

definition reply_set :: "GtsPacket option result \<Rightarrow> GtsPacket set" where
  "reply_set r = (case r of Ok (Some a) \<Rightarrow> {a} | _ \<Rightarrow> {})"

inductive conn_step :: "conn \<Rightarrow> conn \<Rightarrow> bool" where
  step_send: "send_packet (cn_tx c) tunnel d e now = (Ok pk, s) \<Longrightarrow>
    conn_step c (c\<lparr>cn_tx := s, cn_sent := cn_sent c @ [d], cn_data := cn_data c \<union> {pk}\<rparr>)"
| step_retransmit: "retransmit_due (cn_tx c) tunnel now = (pks, s) \<Longrightarrow>
    conn_step c (c\<lparr>cn_tx := s, cn_data := cn_data c \<union> set pks\<rparr>)"
| step_deliver: "pk \<in> cn_data c \<Longrightarrow> receive_packet (cn_rx c) pk = (r, s) \<Longrightarrow>
    conn_step c (c\<lparr>cn_rx := s, cn_acks := cn_acks c \<union> reply_set r\<rparr>)"
| step_recv: "stream_recv (cn_rx c) = (Ok (Some m), s) \<Longrightarrow>
    conn_step c (c\<lparr>cn_rx := s, cn_got := cn_got c @ [m]\<rparr>)"
| step_credit: "receive_credit_ack (cn_rx c) tunnel = Some a \<Longrightarrow>
    conn_step c (c\<lparr>cn_acks := cn_acks c \<union> {a}\<rparr>)"
| step_ack: "PAck tunnel i base bitmap credit \<in> cn_acks c \<Longrightarrow> stream_on_ack (cn_tx c) base bitmap credit = (r, s) \<Longrightarrow>
    conn_step c (c\<lparr>cn_tx := s\<rparr>)"

inductive conn_reach :: "conn \<Rightarrow> conn \<Rightarrow> bool" where
  reach_refl: "conn_reach c c"
| reach_step: "conn_reach c c' \<Longrightarrow> conn_step c' c'' \<Longrightarrow> conn_reach c c''"

text \<open>The two ends of a new stream of a reliable profile whose direction lets the sending end send.\<close>

definition conn_start :: "StreamProfile \<Rightarrow> bool \<Rightarrow> conn \<Rightarrow> bool" where
  "conn_start p opener c \<longleftrightarrow>
    (\<exists>i tx_local tx_peer rx_local rx_peer.
       stream_new i p opener tx_local tx_peer = Ok (cn_tx c) \<and> stream_new i p (\<not> opener) rx_local rx_peer = Ok (cn_rx c)) \<and>
    \<not> sp_unreliable p \<and> local_may_send (cn_tx c) opener \<and>
    cn_sent c = [] \<and> cn_got c = [] \<and> cn_data c = {} \<and> cn_acks c = {}"

text \<open>What the receiver holds: the messages before the next expected one and the buffered ones.\<close>

definition held :: "ReliableRx \<Rightarrow> u32 \<Rightarrow> bool" where
  "held rx k \<longleftrightarrow> k < rrx_next_expected rx \<or> bt_get (rrx_pending rx) k \<noteq> None"

definition rx_ok :: "bytes list \<Rightarrow> bytes list \<Rightarrow> ReliableRx \<Rightarrow> bool" where
  "rx_ok msgs got rx \<longleftrightarrow>
    bt_inv (rrx_pending rx) \<and> unat (rrx_next_expected rx) \<le> length msgs \<and>
    got @ rrx_delivered rx = take (unat (rrx_next_expected rx)) msgs \<and>
    rrx_seen_any rx = (rrx_next_expected rx \<noteq> 0) \<and>
    (\<forall>q d. bt_get (rrx_pending rx) q = Some d \<longrightarrow>
       rrx_next_expected rx < q \<and> unat q < length msgs \<and> d = msgs ! unat q)"

text \<open>A message of the sender: its number and its bytes, and only the last one may end the stream.\<close>

definition is_msg :: "bytes list \<Rightarrow> bool \<Rightarrow> u32 \<Rightarrow> bytes \<Rightarrow> bool \<Rightarrow> bool" where
  "is_msg msgs ended k d e \<longleftrightarrow> unat k < length msgs \<and> d = msgs ! unat k \<and> (e \<longrightarrow> ended \<and> Suc (unat k) = length msgs)"

definition tx_ok :: "bytes list \<Rightarrow> bool \<Rightarrow> ReliableTx \<Rightarrow> bool" where
  "tx_ok msgs ended tx \<longleftrightarrow>
    bt_inv (rtx_outstanding tx) \<and> rtx_next_sequence tx = of_nat (length msgs) \<and> rtx_rto_ms tx = default_rto_ms \<and>
    (\<forall>k p. bt_get (rtx_outstanding tx) k = Some p \<longrightarrow> is_msg msgs ended k (pt_data p) (pt_end p))"

section \<open>The receiving half\<close>

lemma unat_succ: "unat k < n \<Longrightarrow> n < 2 ^ 32 \<Longrightarrow> unat (k + 1) = unat k + 1" for k :: u32
  by (simp add: unat_word_ariths)

lemma drain_step: "bt_get pending n = Some v \<Longrightarrow>
  rrx_drain n pending delivered = rrx_drain (n + 1) (bt_remove pending n) (delivered @ [v])"
  by (simp add: rrx_drain.simps[of n pending delivered])

lemma drain_stop: "bt_get pending n = None \<Longrightarrow> rrx_drain n pending delivered = (n, pending, delivered)"
  by (simp add: rrx_drain.simps[of n pending delivered])

lemma bt_remove_length: "bt_inv m \<Longrightarrow> bt_get m k = Some v \<Longrightarrow> Suc (length (bt_remove m k)) = length m"
proof (induction m)
  case (Cons e m)
  then show ?case
  proof (cases "fst e = k")
    case True
    then have "bt_remove m k = m" using Cons.prems(1) by (auto simp: bt_remove_def bt_inv_def intro!: filter_True)
    then show ?thesis using True by (simp add: bt_remove_def)
  next
    case False
    then have "bt_get m k = Some v" using Cons.prems(2) by (cases e) (simp add: bt_get_def)
    moreover have "bt_inv m" using Cons.prems(1) by (simp add: bt_inv_def)
    ultimately show ?thesis using Cons.IH False by (simp add: bt_remove_def)
  qed
qed (simp add: bt_get_def)

text \<open>Draining advances over buffered messages only: what is held does not change, and neither does the room.\<close>

lemma drain_spec:
  assumes "length msgs < 2 ^ 32" "bt_inv pending" "unat n \<le> length msgs" "got @ delivered = take (unat n) msgs"
    and "\<forall>q d. bt_get pending q = Some d \<longrightarrow> n \<le> q \<and> unat q < length msgs \<and> d = msgs ! unat q"
    and "rrx_drain n pending delivered = (n', pending', delivered')"
  shows "bt_inv pending' \<and> unat n' \<le> length msgs \<and> got @ delivered' = take (unat n') msgs \<and> n \<le> n'
    \<and> (\<forall>q d. bt_get pending' q = Some d \<longrightarrow> n' < q \<and> unat q < length msgs \<and> d = msgs ! unat q)
    \<and> (\<forall>k. k < n \<or> bt_get pending k \<noteq> None \<longrightarrow> k < n' \<or> bt_get pending' k \<noteq> None)
    \<and> length pending' + length delivered' = length pending + length delivered"
  using assms(2-)
proof (induction n pending delivered rule: rrx_drain.induct)
  case (1 n pending delivered)
  show ?case
  proof (cases "bt_get pending n")
    case None
    then show ?thesis using 1(2-) by (auto simp: drain_stop order.strict_iff_order)
  next
    case (Some v)
    have v: "unat n < length msgs" "v = msgs ! unat n" using 1(5) Some by auto
    have s: "unat (n + 1) = unat n + 1" using v(1) assms(1) by (rule unat_succ)
    have lt: "k < n + 1 \<longleftrightarrow> k \<le> n" for k using s by (simp add: word_less_nat_alt word_le_nat_alt less_Suc_eq_le)
    have rm: "bt_get (bt_remove pending n) = (bt_get pending)(n := None)" using 1(2) by (rule bt.get_del)
    have ge: "n + 1 \<le> q" if "n \<le> q" "q \<noteq> n" for q using that lt by (meson leD le_less_linear order.antisym)
    have "got @ delivered @ [v] = take (unat (n + 1)) msgs"
      using 1(4) v s by (simp add: take_Suc_conv_app_nth flip: append_assoc)
    moreover have "\<forall>q d. bt_get (bt_remove pending n) q = Some d \<longrightarrow> n + 1 \<le> q \<and> unat q < length msgs \<and> d = msgs ! unat q"
      using 1(5) ge by (auto simp: rm)
    ultimately have ih: "bt_inv pending' \<and> unat n' \<le> length msgs \<and> got @ delivered' = take (unat n') msgs \<and> n + 1 \<le> n'
        \<and> (\<forall>q d. bt_get pending' q = Some d \<longrightarrow> n' < q \<and> unat q < length msgs \<and> d = msgs ! unat q)
        \<and> (\<forall>k. k < n + 1 \<or> bt_get (bt_remove pending n) k \<noteq> None \<longrightarrow> k < n' \<or> bt_get pending' k \<noteq> None)
        \<and> length pending' + length delivered' = length (bt_remove pending n) + length (delivered @ [v])"
      using v(1) s 1(6) unfolding drain_step[OF Some] by (intro 1(1)[OF Some bt.inv_del[OF 1(2)]]) simp_all
    have "\<forall>k. k < n \<or> bt_get pending k \<noteq> None \<longrightarrow> k < n' \<or> bt_get pending' k \<noteq> None"
    proof (intro allI impI)
      fix k
      assume "k < n \<or> bt_get pending k \<noteq> None"
      then have "k < n + 1 \<or> bt_get (bt_remove pending n) k \<noteq> None" using lt[of k] by (auto simp: rm)
      then show "k < n' \<or> bt_get pending' k \<noteq> None" using ih by blast
    qed
    moreover have "n \<le> n'" using ih s by (simp add: word_le_nat_alt)
    ultimately show ?thesis using ih bt_remove_length[OF 1(2) Some] by auto
  qed
qed

lemma receive_ok:
  assumes "rx_ok msgs got rx" "length msgs < 2 ^ 32" "unat k < length msgs" "d = msgs ! unat k"
    and r: "rrx_receive rx k d = (r, rx')"
  shows "rx_ok msgs got rx'" and "held rx j \<longrightarrow> held rx' j"
    and "rrx_capacity rx' = rrx_capacity rx" and "rrx_used rx' \<le> rrx_used rx + 1"
    and "k = rrx_next_expected rx \<Longrightarrow> rrx_used rx < rrx_capacity rx \<Longrightarrow> is_ok r \<and> held rx' k"
proof -
  let ?n = "rrx_next_expected rx"
  note ok = assms(1)[unfolded rx_ok_def]
  have "rx_ok msgs got rx' \<and> (held rx j \<longrightarrow> held rx' j) \<and> rrx_capacity rx' = rrx_capacity rx \<and> rrx_used rx' \<le> rrx_used rx + 1
    \<and> (k = ?n \<longrightarrow> rrx_used rx < rrx_capacity rx \<longrightarrow> is_ok r \<and> held rx' k)"
  proof (cases "k = ?n \<and> rrx_used rx < rrx_capacity rx")
    case True
    obtain n' p' d' where dr: "rrx_drain (?n + 1) (rrx_pending rx) (rrx_delivered rx @ [d]) = (n', p', d')"
      by (metis prod_cases3)
    have s: "unat (?n + 1) = unat ?n + 1" using assms(2,3) True by (simp add: unat_succ)
    have lt: "q < ?n + 1 \<longleftrightarrow> q \<le> ?n" "?n + 1 \<le> q \<longleftrightarrow> ?n < q" for q
      using s by (auto simp: word_less_nat_alt word_le_nat_alt)
    have "got @ rrx_delivered rx @ [d] = take (unat (?n + 1)) msgs"
      using ok assms(3,4) True s by (simp add: take_Suc_conv_app_nth flip: append_assoc)
    then have D: "bt_inv p' \<and> unat n' \<le> length msgs \<and> got @ d' = take (unat n') msgs \<and> ?n + 1 \<le> n'
        \<and> (\<forall>q d. bt_get p' q = Some d \<longrightarrow> n' < q \<and> unat q < length msgs \<and> d = msgs ! unat q)
        \<and> (\<forall>q. q < ?n + 1 \<or> bt_get (rrx_pending rx) q \<noteq> None \<longrightarrow> q < n' \<or> bt_get p' q \<noteq> None)
        \<and> length p' + length d' = length (rrx_pending rx) + length (rrx_delivered rx @ [d])"
      using ok assms(2,3) True s lt by (intro drain_spec[OF assms(2) _ _ _ _ dr]) auto
    have rx': "rx' = rx\<lparr>rrx_next_expected := n', rrx_pending := p', rrx_delivered := d', rrx_seen_any := True\<rparr>" "r = Ok True"
      using r True dr by (auto simp: rrx_receive_def)
    have "?n < n'" using D lt by simp
    then have "n' \<noteq> 0" by auto
    then show ?thesis using D True lt \<open>?n < n'\<close> by (auto simp: rx' rx_ok_def held_def rrx_used_def)
  next
    case False
    then have cases: "rx' = rx \<or> (?n < k \<and> bt_get (rrx_pending rx) k = None \<and> rx' = rx\<lparr>rrx_pending := bt_insert (rrx_pending rx) k d\<rparr>)"
      using r by (auto simp: rrx_receive_def Let_def split: if_splits option.splits)
    have "length (bt_insert m q v) \<le> length m + 1" for m :: "(u32, bytes) btree" and q v
      by (induction m q v rule: bt_insert.induct) auto
    then show ?thesis using cases False ok assms(1,3,4)
      by (auto simp: rx_ok_def held_def rrx_used_def bt.get_ins bt.inv_ins split: if_splits)
  qed
  then show "rx_ok msgs got rx'" "held rx j \<longrightarrow> held rx' j" "rrx_capacity rx' = rrx_capacity rx" "rrx_used rx' \<le> rrx_used rx + 1"
    "k = rrx_next_expected rx \<Longrightarrow> rrx_used rx < rrx_capacity rx \<Longrightarrow> is_ok r \<and> held rx' k"
    by auto
qed

text \<open>The next expected message is the first that is not held.\<close>

lemma next_not_held: "rx_ok msgs got rx \<Longrightarrow> \<not> held rx (rrx_next_expected rx)"
  by (cases "bt_get (rrx_pending rx) (rrx_next_expected rx)") (auto simp: rx_ok_def held_def)

text \<open>The bitmap of an acknowledgement has exactly the bits of the buffered messages in its window.\<close>

lemma bit_ack_bits:
  "bit (foldl (ack_bit base) bm ks) n \<longleftrightarrow> bit bm n \<or> (\<exists>k\<in>set ks. k - base - 1 < 32 \<and> n = unat (k - base - 1))"
proof (induction ks arbitrary: bm)
  case (Cons k ks)
  have "bit (ack_bit base bm k) n \<longleftrightarrow> bit bm n \<or> (k - base - 1 < 32 \<and> n = unat (k - base - 1))"
    by (auto simp: ack_bit_def Let_def bit_or_iff bit_exp_iff word_less_nat_alt)
  then show ?case using Cons by auto
qed simp

lemma and_single_bit: "x AND push_bit n 1 \<noteq> 0 \<longleftrightarrow> bit x n" if "n < 32" for x :: u32
  using that by (simp add: and_exp_eq_0_iff_not_bit)

lemma ack_covers_held:
  assumes "rx_ok msgs got rx" "rrx_ack rx = Some (base, bitmap, credit)" "ack_covers base bitmap k"
  shows "held rx k"
proof (cases "k \<le> base")
  case True
  have "rrx_next_expected rx \<noteq> 0" "base = rrx_next_expected rx - 1"
    using assms(1,2) by (auto simp: rx_ok_def rrx_ack_def Let_def split: if_splits)
  then have "base < rrx_next_expected rx" by (simp add: word_less_nat_alt unat_gt_0 unat_minus_one)
  then show ?thesis using True by (auto simp: held_def)
next
  case False
  have bm: "bitmap = foldl (ack_bit base) 0 (bt_keys (rrx_pending rx))"
    using assms(2) by (auto simp: rrx_ack_def Let_def split: if_splits)
  have d: "k - base - 1 < 32" "bitmap AND push_bit (unat (k - base - 1)) 1 \<noteq> 0"
    using False assms(3) by (auto simp: ack_covers_def Let_def)
  then have "unat (k - base - 1) < 32" by (simp add: word_less_nat_alt)
  then have "bit bitmap (unat (k - base - 1))" using d(2) and_single_bit by blast
  then obtain q where q: "q \<in> set (bt_keys (rrx_pending rx))" "k - base - 1 = q - base - 1"
    unfolding bm bit_ack_bits by (metis bit_0_eq bot_apply bot_bool_def word_unat_eq_iff)
  then have "k \<in> set (map fst (rrx_pending rx))" by (simp add: bt_keys_def)
  then show ?thesis using assms(1) bt.keys_dom[of "rrx_pending rx"] by (auto simp: held_def rx_ok_def domIff)
qed

section \<open>The sending half\<close>

lemma queue_ok:
  assumes "tx_ok msgs False tx" "rtx_queue tx d e now = (Ok k, tx')" "length msgs < 2 ^ 32"
  shows "unat k = length msgs" "tx_ok (msgs @ [d]) e tx'"
    "bt_get (rtx_outstanding tx') j = None \<Longrightarrow> bt_get (rtx_outstanding tx) j = None \<and> j \<noteq> k"
proof -
  have k: "k = of_nat (length msgs)" and tx': "tx' = tx\<lparr>rtx_next_sequence := k + 1, rtx_peer_credit := rtx_peer_credit tx - 1,
      rtx_outstanding := bt_insert (rtx_outstanding tx) k \<lparr>pt_data = d, pt_end = e, pt_sent_at = now\<rparr>\<rparr>"
    using assms(1,2) by (auto simp: rtx_queue_def tx_ok_def Let_def split: if_splits)
  show u: "unat k = length msgs" using assms(3) by (simp add: k unat_of_nat)
  have m: "is_msg msgs False j x y \<Longrightarrow> is_msg (msgs @ [d]) e j x y" for j x y
    by (auto simp: is_msg_def nth_append)
  have "is_msg (msgs @ [d]) e k d e" using u by (simp add: is_msg_def)
  then show "tx_ok (msgs @ [d]) e tx'"
    using assms(1) m by (auto simp: tx_ok_def tx' bt.get_ins bt.inv_ins k split: if_splits)
  show "bt_get (rtx_outstanding tx) j = None \<and> j \<noteq> k" if "bt_get (rtx_outstanding tx') j = None"
    using that assms(1) by (auto simp: tx_ok_def tx' bt.get_ins split: if_splits)
qed

lemma remove_covered:
  assumes "bt_inv m"
  shows "bt_inv (foldl (\<lambda>m k. if P k then bt_remove m k else m) m ks)
    \<and> bt_get (foldl (\<lambda>m k. if P k then bt_remove m k else m) m ks) j = (if j \<in> set ks \<and> P j then None else bt_get m j)"
  using assms
proof (induction ks arbitrary: m)
  case (Cons k ks)
  then have "bt_inv (if P k then bt_remove m k else m)" by (simp add: bt.inv_del)
  from Cons.IH[OF this] show ?case using Cons.prems by (auto simp: bt.get_del)
qed simp

lemma on_ack_ok:
  assumes "tx_ok msgs ended tx"
  shows "tx_ok msgs ended (rtx_on_ack tx base bitmap credit)"
    "bt_get (rtx_outstanding (rtx_on_ack tx base bitmap credit)) j =
      (if ack_covers base bitmap j then None else bt_get (rtx_outstanding tx) j)"
proof -
  have i: "bt_inv (rtx_outstanding tx)" using assms by (simp add: tx_ok_def)
  have "bt_get (rtx_outstanding tx) j = None" if "j \<notin> set (bt_keys (rtx_outstanding tx))" for j
    using that bt.keys_dom[OF i] by (auto simp: bt_keys_def)
  then show g: "bt_get (rtx_outstanding (rtx_on_ack tx base bitmap credit)) j =
      (if ack_covers base bitmap j then None else bt_get (rtx_outstanding tx) j)" for j
    using remove_covered[OF i, of "ack_covers base bitmap" "bt_keys (rtx_outstanding tx)" j] by (simp add: rtx_on_ack_def Let_def)
  have "bt_inv (rtx_outstanding (rtx_on_ack tx base bitmap credit))"
    using remove_covered[OF i, of "ack_covers base bitmap" "bt_keys (rtx_outstanding tx)"] by (simp add: rtx_on_ack_def Let_def)
  then show "tx_ok msgs ended (rtx_on_ack tx base bitmap credit)"
    using assms g by (auto simp: tx_ok_def rtx_on_ack_def Let_def split: if_splits)
qed

lemma due_ok:
  assumes "tx_ok msgs ended tx" "rtx_due tx now = (due, tx')"
  shows "tx_ok msgs ended tx'" "bt_get (rtx_outstanding tx') j = None \<longleftrightarrow> bt_get (rtx_outstanding tx) j = None"
    "(k, d, e) \<in> set due \<Longrightarrow> is_msg msgs ended k d e"
proof -
  let ?f = "\<lambda>p. if rtx_rto_ms tx \<le> saturating_sub now (pt_sent_at p) then p\<lparr>pt_sent_at := now\<rparr> else p"
  have eq: "map (\<lambda>e. if due_entry (rtx_rto_ms tx) now e then (fst e, snd e\<lparr>pt_sent_at := now\<rparr>) else e) m = map (\<lambda>(k, p). (k, ?f p)) m" for m
    by (auto simp: due_entry_def)
  have tx': "tx' = tx\<lparr>rtx_outstanding := map (\<lambda>(k, p). (k, ?f p)) (rtx_outstanding tx)\<rparr>"
    using assms(2) unfolding rtx_due_def eq by simp
  have g: "bt_get (rtx_outstanding tx') j = map_option ?f (bt_get (rtx_outstanding tx) j)" for j
    by (simp add: tx' bt_get_def map_of_map)
  then show "bt_get (rtx_outstanding tx') j = None \<longleftrightarrow> bt_get (rtx_outstanding tx) j = None" by simp
  have "bt_inv (rtx_outstanding tx')" using assms(1) by (simp add: tx' tx_ok_def bt_inv_def comp_def case_prod_unfold)
  then show "tx_ok msgs ended tx'" using assms(1) g by (auto simp: tx_ok_def tx')
  show "is_msg msgs ended k d e" if m: "(k, d, e) \<in> set due"
  proof -
    obtain p where p: "(k, p) \<in> set (rtx_outstanding tx)" "d = pt_data p" "e = pt_end p"
      using m assms(2) by (auto simp: rtx_due_def)
    then have "bt_get (rtx_outstanding tx) k = Some p" 
      using assms(1) bt.entries_get[of "rtx_outstanding tx" k p] by (simp add: tx_ok_def)
    then show ?thesis using assms(1) p by (simp add: tx_ok_def)
  qed
qed

section \<open>The invariant of the connection\<close>

definition stream_static :: "u8 \<Rightarrow> StreamProfile \<Rightarrow> bool \<Rightarrow> GtsStream \<Rightarrow> bool" where
  "stream_static i p opener s \<longleftrightarrow> st_id s = i \<and> st_profile s = p \<and> st_opened_by_local s = opener \<and> st_state s = StOpen"

definition acks_ok :: "ReliableRx \<Rightarrow> GtsPacket set \<Rightarrow> bool" where
  "acks_ok rx acks \<longleftrightarrow>
    (\<forall>pk\<in>acks. \<forall>t i base bitmap credit k. pk = PAck t i base bitmap credit \<longrightarrow> ack_covers base bitmap k \<longrightarrow> held rx k)"

definition data_ok :: "u8 \<Rightarrow> bytes list \<Rightarrow> bool \<Rightarrow> GtsPacket set \<Rightarrow> bool" where
  "data_ok i msgs ended net \<longleftrightarrow> (\<forall>pk\<in>net. \<exists>t k d e. pk = PData t i k d e \<and> is_msg msgs ended k d e)"

definition conn_ok :: "u8 \<Rightarrow> StreamProfile \<Rightarrow> bool \<Rightarrow> conn \<Rightarrow> ReliableTx \<Rightarrow> ReliableRx \<Rightarrow> bool" where
  "conn_ok i p opener c tx rx \<longleftrightarrow>
    stream_static i p opener (cn_tx c) \<and> stream_static i p (\<not> opener) (cn_rx c) \<and>
    st_reliable_tx (cn_tx c) = Some tx \<and> st_reliable_rx (cn_rx c) = Some rx \<and>
    tx_ok (cn_sent c) (st_local_ended (cn_tx c)) tx \<and> rx_ok (cn_sent c) (cn_got c) rx \<and>
    data_ok i (cn_sent c) (st_local_ended (cn_tx c)) (cn_data c) \<and> acks_ok rx (cn_acks c) \<and>
    (\<forall>k. unat k < length (cn_sent c) \<longrightarrow> bt_get (rtx_outstanding tx) k = None \<longrightarrow> held rx k)"

definition conn_inv :: "u8 \<Rightarrow> StreamProfile \<Rightarrow> bool \<Rightarrow> conn \<Rightarrow> bool" where
  "conn_inv i p opener c \<longleftrightarrow> (\<exists>tx rx. conn_ok i p opener c tx rx)"

lemmas conn_simps = conn_ok_def stream_static_def

lemma rx_ok_append: "rx_ok msgs got rx \<Longrightarrow> rx_ok (msgs @ ms) got rx"
  by (auto simp: rx_ok_def nth_append trans_less_add1)

lemma data_ok_append: "data_ok i msgs False net \<Longrightarrow> data_ok i (msgs @ [d]) ended net"
  unfolding data_ok_def
proof (intro ballI)
  fix pk
  assume "\<forall>pk\<in>net. \<exists>t k d e. pk = PData t i k d e \<and> is_msg msgs False k d e" "pk \<in> net"
  then obtain t k x e where "pk = PData t i k x e" "is_msg msgs False k x e" by blast
  then show "\<exists>t k x e. pk = PData t i k x e \<and> is_msg (msgs @ [d]) ended k x e"
    by (auto simp: is_msg_def nth_append)
qed

lemma acks_ok_mono: "acks_ok rx acks \<Longrightarrow> (\<And>k. held rx k \<Longrightarrow> held rx' k) \<Longrightarrow> acks_ok rx' acks"
  by (auto simp: acks_ok_def)

lemma acks_ok_insert:
  "rx_ok msgs got rx \<Longrightarrow> acks_ok rx acks \<Longrightarrow> map_option (ack_packet t i) (rrx_ack rx) = Some a \<Longrightarrow> acks_ok rx (acks \<union> {a})"
  by (auto simp: acks_ok_def ack_packet_def dest: ack_covers_held)

lemma conn_start_inv:
  assumes "conn_start p opener c"
  shows "\<exists>i. conn_inv i p opener c"
proof -
  obtain i a b a' b' where "stream_new i p opener a b = Ok (cn_tx c)" "stream_new i p (\<not> opener) a' b' = Ok (cn_rx c)"
    and "\<not> sp_unreliable p" "cn_sent c = []" "cn_got c = []" "cn_data c = {}" "cn_acks c = {}"
    using assms by (auto simp: conn_start_def)
  note st = this
  let ?tx = "rtx_new b" and ?rx = "rrx_new (unat (max a' 1))"
  have s: "cn_tx c = \<lparr>st_id = i, st_profile = p, st_state = StOpen, st_opened_by_local = opener, st_reliable_tx = Some ?tx,
      st_reliable_rx = Some (rrx_new (unat (max a 1))), st_unrel_tx_sequence = 0, st_unrel_rx_highest = None,
      st_unrel_delivered = [], st_local_ended = False, st_remote_ended = False\<rparr>"
    "cn_rx c = \<lparr>st_id = i, st_profile = p, st_state = StOpen, st_opened_by_local = (\<not> opener), st_reliable_tx = Some (rtx_new b'),
      st_reliable_rx = Some ?rx, st_unrel_tx_sequence = 0, st_unrel_rx_highest = None,
      st_unrel_delivered = [], st_local_ended = False, st_remote_ended = False\<rparr>"
    using st by (auto simp: stream_new_def result_simps)
  have "conn_ok i p opener c ?tx ?rx"
    by (simp add: conn_simps s st tx_ok_def rx_ok_def data_ok_def acks_ok_def rtx_new_def rrx_new_def bt_get_def)
  then show ?thesis by (auto simp: conn_inv_def)
qed

lemma direction_matches:
  assumes "conn_start p opener c0" "conn_ok i p opener c tx rx"
  shows "remote_may_send (cn_rx c) (\<not> opener)"
proof -
  have "st_profile (cn_tx c0) = p" using conn_start_inv[OF assms(1)] by (auto simp: conn_inv_def conn_simps)
  then show ?thesis using assms by (auto simp: conn_start_def conn_simps local_may_send_def remote_may_send_def)
qed

lemma inv_send:
  assumes "conn_ok i p opener c tx rx" "send_packet (cn_tx c) tunnel d e now = (Ok pk, s)" "\<not> sp_unreliable p"
    "length (cn_sent c) < 2 ^ 32"
  shows "conn_inv i p opener (c\<lparr>cn_tx := s, cn_sent := cn_sent c @ [d], cn_data := cn_data c \<union> {pk}\<rparr>)"
proof -
  obtain k tx' where q: "rtx_queue tx d e now = (Ok k, tx')" and ne: "\<not> st_local_ended (cn_tx c)"
    and s: "s = (cn_tx c)\<lparr>st_reliable_tx := Some tx', st_local_ended := e\<rparr>" and pk: "pk = PData tunnel i k d e"
    using assms by (auto simp: send_packet_def conn_simps result_simps lift_r_def split: if_splits prod.splits result.splits)
  have tx: "tx_ok (cn_sent c) False tx" using assms(1) ne by (simp add: conn_ok_def)
  note Q = queue_ok[OF tx q assms(4)]
  have "is_msg (cn_sent c @ [d]) e k d e" using Q(1) by (simp add: is_msg_def)
  then have "data_ok i (cn_sent c @ [d]) e (cn_data c \<union> {pk})"
    using assms(1) ne data_ok_append[of i "cn_sent c" "cn_data c" d e] by (auto simp: conn_ok_def data_ok_def pk)
  moreover have "held rx j" if "unat j < Suc (length (cn_sent c))" "bt_get (rtx_outstanding tx') j = None" for j
  proof -
    have "j \<noteq> k" "bt_get (rtx_outstanding tx) j = None" using Q(3) that(2) by auto
    moreover have "unat j < length (cn_sent c)" using that(1) Q(1) \<open>j \<noteq> k\<close> by (metis less_SucE word_unat_eq_iff)
    ultimately show ?thesis using assms(1) by (simp add: conn_ok_def)
  qed
  ultimately have "conn_ok i p opener (c\<lparr>cn_tx := s, cn_sent := cn_sent c @ [d], cn_data := cn_data c \<union> {pk}\<rparr>) tx' rx"
    using assms(1) Q(2) by (simp add: conn_simps s rx_ok_append)
  then show ?thesis by (auto simp: conn_inv_def)
qed

lemma retransmit_cases:
  assumes "st_reliable_tx s = Some tx" "retransmit_due s tunnel now = (pks, s')"
  obtains due tx' where "rtx_due tx now = (due, tx')" "s' = s\<lparr>st_reliable_tx := Some tx'\<rparr>"
    "pks = map (\<lambda>(k, d, e). PData tunnel (st_id s) k d e) due"
  using assms by (auto simp: retransmit_due_def split: prod.splits)

lemma inv_retransmit:
  assumes "conn_ok i p opener c tx rx" "retransmit_due (cn_tx c) tunnel now = (pks, s)"
  shows "conn_inv i p opener (c\<lparr>cn_tx := s, cn_data := cn_data c \<union> set pks\<rparr>)"
proof -
  have tx: "tx_ok (cn_sent c) (st_local_ended (cn_tx c)) tx" "st_reliable_tx (cn_tx c) = Some tx" "st_id (cn_tx c) = i"
    using assms(1) by (auto simp: conn_simps)
  obtain due tx' where due: "rtx_due tx now = (due, tx')" and s: "s = (cn_tx c)\<lparr>st_reliable_tx := Some tx'\<rparr>"
    and pks: "pks = map (\<lambda>(k, d, e). PData tunnel i k d e) due"
    using retransmit_cases[OF tx(2) assms(2)] tx(3) by metis
  note D = due_ok[OF tx(1) due]
  have "data_ok i (cn_sent c) (st_local_ended (cn_tx c)) (cn_data c \<union> set pks)"
    using assms(1) D(3) by (auto simp: conn_ok_def data_ok_def pks)
  then have "conn_ok i p opener (c\<lparr>cn_tx := s, cn_data := cn_data c \<union> set pks\<rparr>) tx' rx"
    using assms(1) D(1,2) by (simp add: conn_simps s)
  then show ?thesis by (auto simp: conn_inv_def)
qed

text \<open>A data packet at a stream: refused without effect, or given to the receiving half.\<close>

lemma receive_data_cases:
  assumes "receive_packet s (PData t i k d e) = (r, s')" "st_reliable_rx s = Some rx"
  obtains (refused) "s' = s" "reply_set r = {}"
    | (failed) x rx' where "rrx_receive rx k d = (Err x, rx')" "s' = s\<lparr>st_reliable_rx := Some rx'\<rparr>" "reply_set r = {}"
    | (taken) b rx' where "rrx_receive rx k d = (Ok b, rx')"
        "s' = s\<lparr>st_reliable_rx := Some rx', st_remote_ended := (e \<or> st_remote_ended s)\<rparr>"
        "r = Ok (map_option (ack_packet t i) (rrx_ack rx'))"
proof -
  have "rrx_receive rx k d \<noteq> (Panic, rx')" for rx' by (auto simp: rrx_receive_def Let_def split: if_splits prod.splits)
  with assms that show ?thesis
    by (auto simp: receive_packet_def receive_data_def reply_set_def split: if_splits prod.splits result.splits)
qed

lemma inv_deliver:
  assumes "conn_ok i p opener c tx rx" "pk \<in> cn_data c" "receive_packet (cn_rx c) pk = (r, s)" "length (cn_sent c) < 2 ^ 32"
  shows "conn_inv i p opener (c\<lparr>cn_rx := s, cn_acks := cn_acks c \<union> reply_set r\<rparr>)"
proof -
  obtain t k d e where pk: "pk = PData t i k d e" and m: "unat k < length (cn_sent c)" "d = cn_sent c ! unat k"
    using assms(1,2) unfolding conn_ok_def data_ok_def is_msg_def by blast
  have rx: "rx_ok (cn_sent c) (cn_got c) rx" "st_reliable_rx (cn_rx c) = Some rx" using assms(1) by (auto simp: conn_ok_def)
  have step: "conn_inv i p opener (c\<lparr>cn_rx := s, cn_acks := cn_acks c \<union> reply_set r\<rparr>)"
    if "rrx_receive rx k d = (q, rx')" "stream_static i p (\<not> opener) s" "st_reliable_rx s = Some rx'"
      "acks_ok rx' (cn_acks c) \<Longrightarrow> acks_ok rx' (cn_acks c \<union> reply_set r)" for q rx'
  proof -
    note R = receive_ok[OF rx(1) assms(4) m that(1)]
    have "acks_ok rx' (cn_acks c)" using assms(1) R(2) acks_ok_mono by (auto simp: conn_ok_def)
    then have "conn_ok i p opener (c\<lparr>cn_rx := s, cn_acks := cn_acks c \<union> reply_set r\<rparr>) tx rx'"
      using assms(1) R(1,2) that by (simp add: conn_ok_def)
    then show ?thesis by (auto simp: conn_inv_def)
  qed
  have st: "stream_static i p (\<not> opener) (cn_rx c)" using assms(1) by (simp add: conn_ok_def)
  show ?thesis using assms(3)[unfolded pk] rx(2)
  proof (cases rule: receive_data_cases)
    case refused
    then have "conn_ok i p opener (c\<lparr>cn_rx := s, cn_acks := cn_acks c \<union> reply_set r\<rparr>) tx rx" using assms(1) by simp
    then show ?thesis by (auto simp: conn_inv_def)
  next
    case failed
    then show ?thesis using st by (intro step) (auto simp: stream_static_def)
  next
    case (taken b rx')
    have "acks_ok rx' (cn_acks c) \<Longrightarrow> acks_ok rx' (cn_acks c \<union> reply_set r)"
      using acks_ok_insert[OF receive_ok(1)[OF rx(1) assms(4) m taken(1)]] taken(3)
      by (cases "rrx_ack rx'") (auto simp: reply_set_def)
    then show ?thesis using st taken by (intro step) (auto simp: stream_static_def)
  qed
qed

lemma inv_recv:
  assumes "conn_ok i p opener c tx rx" "stream_recv (cn_rx c) = (Ok (Some m), s)" "\<not> sp_unreliable p"
  shows "conn_inv i p opener (c\<lparr>cn_rx := s, cn_got := cn_got c @ [m]\<rparr>)"
proof -
  obtain ms where d: "rrx_delivered rx = m # ms" and s: "s = (cn_rx c)\<lparr>st_reliable_rx := Some (rx\<lparr>rrx_delivered := ms\<rparr>)\<rparr>"
    using assms by (auto simp: stream_recv_def conn_simps rrx_recv_def split: list.splits)
  let ?rx = "rx\<lparr>rrx_delivered := ms\<rparr>"
  have h: "held ?rx = held rx" by (simp add: held_def fun_eq_iff)
  have "conn_ok i p opener (c\<lparr>cn_rx := s, cn_got := cn_got c @ [m]\<rparr>) tx ?rx"
    using assms(1) d by (simp add: conn_simps s h rx_ok_def acks_ok_def)
  then show ?thesis by (auto simp: conn_inv_def)
qed

lemma inv_ack:
  assumes "conn_ok i p opener c tx rx" "PAck t j base bitmap credit \<in> cn_acks c" "\<not> sp_unreliable p"
    and "stream_on_ack (cn_tx c) base bitmap credit = (r, s)"
  shows "conn_inv i p opener (c\<lparr>cn_tx := s\<rparr>)"
proof -
  let ?tx = "rtx_on_ack tx base bitmap credit"
  have s: "s = (cn_tx c)\<lparr>st_reliable_tx := Some ?tx\<rparr>"
    using assms(1,3,4) by (auto simp: stream_on_ack_def conn_simps split: if_splits)
  have tx: "tx_ok (cn_sent c) (st_local_ended (cn_tx c)) tx" using assms(1) by (simp add: conn_ok_def)
  have "held rx k" if "ack_covers base bitmap k" for k
    using assms(1,2) that unfolding conn_ok_def acks_ok_def by blast
  then have "conn_ok i p opener (c\<lparr>cn_tx := s\<rparr>) ?tx rx"
    using assms(1) on_ack_ok[OF tx] by (auto simp: conn_simps s split: if_splits)
  then show ?thesis by (auto simp: conn_inv_def)
qed

lemma conn_step_inv:
  assumes "conn_step c c'" "conn_inv i p opener c" "\<not> sp_unreliable p" "length (cn_sent c') < 2 ^ 32"
  shows "conn_inv i p opener c'"
proof -
  obtain tx rx where ok: "conn_ok i p opener c tx rx" using assms(2) by (auto simp: conn_inv_def)
  show ?thesis using assms(1)
  proof cases
    case (step_send tunnel d e now pk s)
    then show ?thesis using inv_send[OF ok step_send(2) assms(3)] assms(4) by simp
  next
    case (step_retransmit tunnel now pks s)
    then show ?thesis using inv_retransmit[OF ok] by simp
  next
    case (step_deliver pk r s)
    then show ?thesis using inv_deliver[OF ok] assms(4) by simp
  next
    case (step_recv m s)
    then show ?thesis using inv_recv[OF ok _ assms(3)] by simp
  next
    case (step_credit tunnel a)
    have "map_option (ack_packet tunnel i) (rrx_ack rx) = Some a"
      using step_credit ok assms(3) by (auto simp: receive_credit_ack_def conn_simps split: if_splits)
    then have "acks_ok rx (cn_acks c \<union> {a})" using ok by (intro acks_ok_insert) (auto simp: conn_ok_def)
    then have "conn_ok i p opener c' tx rx" using ok step_credit(1) by (simp add: conn_ok_def)
    then show ?thesis by (auto simp: conn_inv_def)
  next
    case (step_ack tunnel j base bitmap credit r s)
    then show ?thesis using inv_ack[OF ok _ assms(3)] by simp
  qed
qed

lemma conn_step_sent: "conn_step c c' \<Longrightarrow> length (cn_sent c) \<le> length (cn_sent c')"
  by (induction rule: conn_step.induct) auto

lemma conn_reach_inv:
  assumes "conn_reach c c'" "conn_start p opener c" "length (cn_sent c') < 2 ^ 32"
  shows "\<exists>i. conn_inv i p opener c'"
  using assms
proof (induction rule: conn_reach.induct)
  case (reach_refl c)
  then show ?case by (simp add: conn_start_inv)
next
  case (reach_step c c' c'')
  have "length (cn_sent c') < 2 ^ 32" using conn_step_sent[OF reach_step(2)] reach_step(5) by simp
  then obtain i where "conn_inv i p opener c'" using reach_step by blast
  moreover have "\<not> sp_unreliable p" using reach_step(4) by (simp add: conn_start_def)
  ultimately show ?case using conn_step_inv reach_step(2,5) by blast
qed


section \<open>Safety of the transfer\<close>

lemma all_held_delivered:
  assumes "rx_ok msgs got rx" "length msgs < 2 ^ 32" "\<forall>k. unat k < length msgs \<longrightarrow> held rx k"
  shows "unat (rrx_next_expected rx) = length msgs" "got @ rrx_delivered rx = msgs" "rrx_pending rx = []"
proof -
  have "\<not> unat (rrx_next_expected rx) < length msgs" using assms next_not_held by blast
  then show n: "unat (rrx_next_expected rx) = length msgs" using assms(1) by (simp add: rx_ok_def)
  then show "got @ rrx_delivered rx = msgs" using assms(1) by (simp add: rx_ok_def)
  have "bt_get (rrx_pending rx) q \<noteq> Some d" for q d
  proof
    assume "bt_get (rrx_pending rx) q = Some d"
    then have "rrx_next_expected rx < q \<and> unat q < length msgs" using assms(1) unfolding rx_ok_def by blast
    then show False using n by (auto simp: word_less_nat_alt)
  qed
  then show "rrx_pending rx = []" by (metis bt_empty not_None_eq)
qed

text \<open>C10. The messages a receiver has taken and has ready are a prefix of the messages the sender was
  given, in their order, whatever the network loses, repeats or reorders; and the sender forgets a message only
  when the receiver holds it, so that an empty retransmission queue means that every message has arrived. This
  holds while fewer than \<open>2 ^ 32\<close> messages have been sent.\<close>

theorem reliable_transfer_safe:
  assumes "conn_start p opener c0" "conn_reach c0 c" "length (cn_sent c) < 2 ^ 32"
  shows "\<exists>tx rx. st_reliable_tx (cn_tx c) = Some tx \<and> st_reliable_rx (cn_rx c) = Some rx \<and>
    cn_got c @ rrx_delivered rx = take (unat (rrx_next_expected rx)) (cn_sent c) \<and>
    (\<forall>k. unat k < length (cn_sent c) \<longrightarrow> bt_get (rtx_outstanding tx) k = None \<longrightarrow> held rx k) \<and>
    (rtx_outstanding tx = [] \<longrightarrow> cn_got c @ rrx_delivered rx = cn_sent c \<and> rrx_pending rx = [])"
proof -
  obtain i tx rx where ok: "conn_ok i p opener c tx rx"
    using conn_reach_inv[OF assms(2,1,3)] by (auto simp: conn_inv_def)
  then have rx: "rx_ok (cn_sent c) (cn_got c) rx"
    and h: "\<forall>k. unat k < length (cn_sent c) \<longrightarrow> bt_get (rtx_outstanding tx) k = None \<longrightarrow> held rx k"
    by (auto simp: conn_ok_def)
  have "cn_got c @ rrx_delivered rx = cn_sent c \<and> rrx_pending rx = []" if "rtx_outstanding tx = []"
    using all_held_delivered[OF rx assms(3)] h that by (simp add: bt_get_def)
  then show ?thesis using ok h by (auto simp: conn_ok_def rx_ok_def)
qed

section \<open>Recovery\<close>

definition receive_all :: "GtsStream \<Rightarrow> GtsPacket list \<Rightarrow> GtsStream" where
  "receive_all s pks = foldl (\<lambda>s pk. snd (receive_packet s pk)) s pks"

text \<open>Messages that arrive in order and cover everything that is missing complete the transfer.\<close>

lemma catch_up:
  assumes "length msgs < 2 ^ 32" "\<not> sp_unreliable p" "remote_may_send s o'"
    and "stream_static i p o' s" "st_reliable_rx s = Some rx" "rx_ok msgs got rx"
    and "sorted_wrt (<) (map fst due)" "\<forall>(k, d, e)\<in>set due. is_msg msgs ended k d e"
    and "\<forall>k. unat k < length msgs \<longrightarrow> \<not> held rx k \<longrightarrow> k \<in> fst ` set due"
    and "due \<noteq> [] \<Longrightarrow> \<not> st_remote_ended s" "rrx_used rx + length due \<le> rrx_capacity rx"
  shows "\<exists>rx'. st_reliable_rx (receive_all s (map (\<lambda>(k, d, e). PData t i k d e) due)) = Some rx'
    \<and> stream_static i p o' (receive_all s (map (\<lambda>(k, d, e). PData t i k d e) due))
    \<and> rx_ok msgs got rx' \<and> (\<forall>k. unat k < length msgs \<longrightarrow> held rx' k)"
  using assms(3-)
proof (induction due arbitrary: s rx)
  case Nil
  then show ?case by (auto simp: receive_all_def)
next
  case (Cons x due)
  obtain k d e where x: "x = (k, d, e)" by (cases x) auto
  have m: "unat k < length msgs" "d = msgs ! unat k" "e \<longrightarrow> Suc (unat k) = length msgs"
    using Cons.prems(6) by (auto simp: x is_msg_def)
  obtain r rx' where r: "rrx_receive rx k d = (r, rx')" by fastforce
  note R = receive_ok[OF Cons.prems(4) assms(1) m(1,2) r]
  have below: "held rx j" if "j < k" for j
  proof (rule ccontr)
    assume "\<not> held rx j"
    moreover have "unat j < length msgs" using that m(1) by (simp add: word_less_nat_alt)
    ultimately have "j = k \<or> j \<in> fst ` set due" using Cons.prems(7) by (auto simp: x)
    then show False using that Cons.prems(5) by (auto simp: x)
  qed
  then have le: "k \<le> rrx_next_expected rx" using next_not_held[OF Cons.prems(4)] by (meson not_le)
  have good: "is_ok r \<and> held rx' k"
  proof (cases "k = rrx_next_expected rx")
    case True
    then show ?thesis using R(5) Cons.prems(9) by simp
  next
    case False
    then have "k < rrx_next_expected rx" using le by simp
    then show ?thesis using r by (auto simp: rrx_receive_def held_def)
  qed
  let ?s = "s\<lparr>st_reliable_rx := Some rx', st_remote_ended := e\<rparr>"
  have "snd (receive_packet s (PData t i k d e)) = ?s"
    using good Cons.prems(1-3,8) assms(2) r
    by (auto simp: receive_packet_def receive_data_def stream_static_def result_simps)
  then have step: "receive_all s (map (\<lambda>(k, d, e). PData t i k d e) (x # due)) =
      receive_all ?s (map (\<lambda>(k, d, e). PData t i k d e) due)" by (simp add: receive_all_def x)
  have "\<not> e" if "due \<noteq> []"
  proof
    assume e
    obtain k' d' e' where hd: "(k', d', e') \<in> set due" using \<open>due \<noteq> []\<close> by (cases due) auto
    then have "k < k'" "unat k' < length msgs" using Cons.prems(5,6) by (auto simp: x is_msg_def)
    then show False using m(3) \<open>e\<close> by (simp add: word_less_nat_alt)
  qed
  moreover have "\<forall>j. unat j < length msgs \<longrightarrow> \<not> held rx' j \<longrightarrow> j \<in> fst ` set due"
    using Cons.prems(7) R(2) good by (auto simp: x)
  moreover have "remote_may_send ?s o'" "stream_static i p o' ?s"
    using Cons.prems(1,2) by (auto simp: remote_may_send_def stream_static_def)
  ultimately show ?case unfolding step using Cons.prems(5,6,9) R(1,3,4) by (intro Cons.IH) (auto simp: x)
qed

lemma due_all:
  assumes "tx_ok msgs ended tx" "\<forall>k m. bt_get (rtx_outstanding tx) k = Some m \<longrightarrow> unat (pt_sent_at m) + 500 \<le> unat now"
  shows "fst (rtx_due tx now) = map (\<lambda>(k, m). (k, pt_data m, pt_end m)) (rtx_outstanding tx)"
proof -
  have "due_entry (rtx_rto_ms tx) now x" if x: "x \<in> set (rtx_outstanding tx)" for x
  proof -
    have "bt_get (rtx_outstanding tx) (fst x) = Some (snd x)"
      using assms(1) x bt.entries_get[of "rtx_outstanding tx" "fst x" "snd x"] by (simp add: tx_ok_def)
    then have "unat (pt_sent_at (snd x)) + 500 \<le> unat now" using assms(2) by blast
    then show ?thesis using assms(1)
      by (simp add: due_entry_def tx_ok_def default_rto_ms_def word_le_nat_alt unat_saturating_sub)
  qed
  then have "filter (due_entry (rtx_rto_ms tx) now) (rtx_outstanding tx) = rtx_outstanding tx" by (simp add: filter_True)
  then show ?thesis by (simp add: rtx_due_def)
qed

text \<open>An acknowledgement of the last message empties the retransmission queue.\<close>

lemma final_ack:
  assumes "tx_ok msgs ended tx" "Suc (unat base) = length msgs"
  shows "rtx_outstanding (rtx_on_ack tx base bitmap credit) = []"
proof -
  have "bt_get (rtx_outstanding (rtx_on_ack tx base bitmap credit)) k \<noteq> Some m" for k m
  proof
    assume "bt_get (rtx_outstanding (rtx_on_ack tx base bitmap credit)) k = Some m"
    then have "\<not> ack_covers base bitmap k" "bt_get (rtx_outstanding tx) k = Some m"
      by (auto simp: on_ack_ok(2)[OF assms(1)] split: if_splits)
    moreover from this have "unat k < length msgs" using assms(1) by (auto simp: tx_ok_def is_msg_def)
    ultimately show False using assms(2) by (simp add: ack_covers_def word_le_nat_alt)
  qed
  then show ?thesis by (metis bt_empty not_None_eq)
qed

lemma final_snapshot:
  assumes "stream_static i p o' s" "\<not> sp_unreliable p" "st_reliable_rx s = Some rx" "rx_ok msgs got rx"
    "unat (rrx_next_expected rx) = length msgs" "msgs \<noteq> []"
  shows "\<exists>base bitmap credit. receive_credit_ack s tunnel = Some (PAck tunnel i base bitmap credit) \<and> Suc (unat base) = length msgs"
proof -
  have "rrx_next_expected rx \<noteq> 0" using assms(5,6) by auto
  moreover from this have "Suc (unat (rrx_next_expected rx - 1)) = length msgs"
    using assms(5,6) by (simp add: unat_minus_one)
  ultimately show ?thesis using assms(1-4)
    by (auto simp: receive_credit_ack_def stream_static_def rrx_ack_def Let_def ack_packet_def rx_ok_def)
qed

text \<open>C17. Recovery: in a stream of fewer than \<open>2 ^ 32\<close> messages whose receiver has not yet taken a DATA_END (after one it
  refuses everything), once every unacknowledged message has waited for the retransmission timeout, one round in which all
  retransmissions arrive in order at a receiver with room for all of them leaves the receiver with all that was
  sent, and the acknowledgement it then gives empties the retransmission queue of the sender.\<close>

theorem reliable_recovery_round:
  assumes "conn_start p opener c0" "conn_reach c0 c" "length (cn_sent c) < 2 ^ 32" "\<not> st_remote_ended (cn_rx c)"
    and "st_reliable_tx (cn_tx c) = Some tx" "st_reliable_rx (cn_rx c) = Some rx"
    and "\<forall>k m. bt_get (rtx_outstanding tx) k = Some m \<longrightarrow> unat (pt_sent_at m) + 500 \<le> unat now"
    and "rrx_used rx + length (rtx_outstanding tx) \<le> rrx_capacity rx"
    and "retransmit_due (cn_tx c) tunnel now = (pks, s)"
  shows "\<exists>rx'. st_reliable_rx (receive_all (cn_rx c) pks) = Some rx' \<and> cn_got c @ rrx_delivered rx' = cn_sent c \<and>
    (cn_sent c \<noteq> [] \<longrightarrow> (\<exists>i base bitmap credit tx'.
       receive_credit_ack (receive_all (cn_rx c) pks) tunnel = Some (PAck tunnel i base bitmap credit) \<and>
       st_reliable_tx (snd (stream_on_ack s base bitmap credit)) = Some tx' \<and> rtx_outstanding tx' = []))"
proof -
  obtain i where ok: "conn_ok i p opener c tx rx"
    using conn_reach_inv[OF assms(2,1,3)] assms(5,6) by (auto simp: conn_inv_def conn_ok_def)
  have p: "\<not> sp_unreliable p" using assms(1) by (simp add: conn_start_def)
  have tx: "tx_ok (cn_sent c) (st_local_ended (cn_tx c)) tx" and st: "stream_static i p opener (cn_tx c)"
    using ok by (simp_all add: conn_ok_def)
  obtain due tx' where due: "rtx_due tx now = (due, tx')" and s: "s = (cn_tx c)\<lparr>st_reliable_tx := Some tx'\<rparr>"
    and pks: "pks = map (\<lambda>(k, d, e). PData tunnel i k d e) due"
    using retransmit_cases[OF assms(5,9)] st unfolding stream_static_def by metis
  have d: "due = map (\<lambda>(k, m). (k, pt_data m, pt_end m)) (rtx_outstanding tx)"
    using due_all[OF tx assms(7)] due by simp
  have keys: "map fst due = map fst (rtx_outstanding tx)" by (simp add: d comp_def case_prod_unfold)
  then have dom: "fst ` set due = dom (bt_get (rtx_outstanding tx))"
    using bt.keys_dom[of "rtx_outstanding tx"] tx by (metis list.set_map tx_ok_def)
  have dir: "remote_may_send (cn_rx c) (\<not> opener)" using assms(1) ok by (rule direction_matches)
  obtain rx' where rx': "st_reliable_rx (receive_all (cn_rx c) pks) = Some rx'" "rx_ok (cn_sent c) (cn_got c) rx'"
    "stream_static i p (\<not> opener) (receive_all (cn_rx c) pks)" "\<forall>k. unat k < length (cn_sent c) \<longrightarrow> held rx' k"
    using catch_up[OF assms(3) p dir, of i rx "cn_got c" due "st_local_ended (cn_tx c)" tunnel] ok assms(4,8) due_ok(3)[OF tx due]
      bt.entries_sorted[of "rtx_outstanding tx"] tx
    unfolding pks[symmetric] keys dom by (fastforce simp: conn_ok_def tx_ok_def d)
  note A = all_held_delivered[OF rx'(2) assms(3) rx'(4)]
  have "tx_ok (cn_sent c) (st_local_ended (cn_tx c)) tx'" using due_ok(1)[OF tx due] .
  then have fin: "\<exists>tx''. st_reliable_tx (snd (stream_on_ack s base bm cr)) = Some tx'' \<and> rtx_outstanding tx'' = []"
    if "Suc (unat base) = length (cn_sent c)" for base bm cr
    using final_ack that st p by (auto simp: stream_on_ack_def s stream_static_def)
  show ?thesis using rx'(1) A(2) final_snapshot[OF rx'(3) p rx'(1,2) A(1), of tunnel] fin by blast
qed

section \<open>Scripted runs\<close>

text \<open>A run of the connection from a script; a packet to deliver or acknowledge must be in the network.\<close>

datatype conn_event = Send bytes bool u64 | Deliver GtsPacket | Recv | Credit | Acked u32 u32 u8

definition conn_do :: "conn \<Rightarrow> conn_event \<Rightarrow> conn option" where
  "conn_do c ev = (case ev of
      Send d e now \<Rightarrow> (case send_packet (cn_tx c) 7 d e now of
          (Ok pk, s) \<Rightarrow> Some (c\<lparr>cn_tx := s, cn_sent := cn_sent c @ [d], cn_data := cn_data c \<union> {pk}\<rparr>)
        | _ \<Rightarrow> None)
    | Deliver pk \<Rightarrow>
        if pk \<in> cn_data c then (case receive_packet (cn_rx c) pk of (r, s) \<Rightarrow>
          Some (c\<lparr>cn_rx := s, cn_acks := cn_acks c \<union> reply_set r\<rparr>)) else None
    | Recv \<Rightarrow> (case stream_recv (cn_rx c) of
          (Ok (Some m), s) \<Rightarrow> Some (c\<lparr>cn_rx := s, cn_got := cn_got c @ [m]\<rparr>)
        | _ \<Rightarrow> None)
    | Credit \<Rightarrow> (case receive_credit_ack (cn_rx c) 7 of
          Some a \<Rightarrow> Some (c\<lparr>cn_acks := cn_acks c \<union> {a}\<rparr>)
        | None \<Rightarrow> None)
    | Acked base bitmap credit \<Rightarrow>
        if PAck 7 0 base bitmap credit \<in> cn_acks c then (case stream_on_ack (cn_tx c) base bitmap credit of (r, s) \<Rightarrow>
          Some (c\<lparr>cn_tx := s\<rparr>)) else None)"

fun conn_script :: "conn \<Rightarrow> conn_event list \<Rightarrow> conn option" where
  "conn_script c [] = Some c"
| "conn_script c (ev # evs) = (case conn_do c ev of None \<Rightarrow> None | Some c' \<Rightarrow> conn_script c' evs)"

lemma conn_do_step: "conn_do c ev = Some c' \<Longrightarrow> conn_step c c'"
  by (auto simp: conn_do_def simp del: Un_insert_right intro: conn_step.intros
      split: conn_event.splits prod.splits result.splits option.splits if_splits)

lemma conn_script_reach: "conn_script c evs = Some c' \<Longrightarrow> conn_reach c0 c \<Longrightarrow> conn_reach c0 c'"
proof (induction evs arbitrary: c)
  case (Cons ev evs)
  then obtain c1 where "conn_do c ev = Some c1" "conn_script c1 evs = Some c'" by (auto split: option.splits)
  then show ?case using Cons.IH Cons.prems(2) conn_do_step reach_step by blast
qed simp

lemmas script_reach = conn_script_reach[OF _ reach_refl]

definition demo_profile :: StreamProfile where
  "demo_profile = reliable_variable Ctrl32 Bidirectional"

definition demo_conn :: "u8 \<Rightarrow> conn" where
  "demo_conn credit = \<lparr>cn_tx = (case stream_new 0 demo_profile True credit credit of Ok s \<Rightarrow> s),
     cn_rx = (case stream_new 0 demo_profile False credit credit of Ok s \<Rightarrow> s),
     cn_sent = [], cn_got = [], cn_data = {}, cn_acks = {}\<rparr>"

lemma demo_start: "conn_start demo_profile True (demo_conn credit)"
  unfolding conn_start_def demo_conn_def
  by (auto simp: demo_profile_def reliable_variable_def stream_new_def profile_validate_def local_may_send_def opener_may_send_def)

text \<open>A message is lost and a later one overtakes it: the script leaves the receiver with a gap.\<close>

definition gap_script :: "conn_event list" where
  "gap_script = [Send [1] False 0, Send [2] False 0, Deliver (PData 7 0 1 [2] False)]"

theorem reliable_transfer_safe_witness:
  "\<exists>c tx rx. conn_script (demo_conn 4) gap_script = Some c \<and> st_reliable_tx (cn_tx c) = Some tx \<and>
    st_reliable_rx (cn_rx c) = Some rx \<and> held rx 1 \<and> \<not> held rx 0 \<and> cn_sent c = [[1], [2]] \<and>
    cn_got c @ rrx_delivered rx = take (unat (rrx_next_expected rx)) (cn_sent c)"
proof -
  have "case conn_script (demo_conn 4) gap_script of None \<Rightarrow> False | Some c \<Rightarrow> cn_sent c = [[1], [2]] \<and>
      (case st_reliable_rx (cn_rx c) of None \<Rightarrow> False | Some rx \<Rightarrow> held rx 1 \<and> \<not> held rx 0)"
    by code_simp
  then obtain c rx where c: "conn_script (demo_conn 4) gap_script = Some c" "cn_sent c = [[1], [2]]"
    "st_reliable_rx (cn_rx c) = Some rx" "held rx 1" "\<not> held rx 0" by (auto split: option.splits)
  show ?thesis using reliable_transfer_safe[OF demo_start script_reach[OF c(1)]] c by auto
qed

theorem reliable_recovery_round_witness:
  "\<exists>c tx rx pks s rx'. conn_script (demo_conn 4) gap_script = Some c \<and> retransmit_due (cn_tx c) 7 1000 = (pks, s) \<and>
    st_reliable_tx (cn_tx c) = Some tx \<and> st_reliable_rx (cn_rx c) = Some rx \<and> rrx_delivered rx = [] \<and>
    st_reliable_rx (receive_all (cn_rx c) pks) = Some rx' \<and> cn_got c @ rrx_delivered rx' = [[1], [2]]"
proof -
  have "case conn_script (demo_conn 4) gap_script of None \<Rightarrow> False | Some c \<Rightarrow> cn_sent c = [[1], [2]] \<and> \<not> st_remote_ended (cn_rx c) \<and>
      (case st_reliable_rx (cn_rx c) of None \<Rightarrow> False | Some rx \<Rightarrow> case st_reliable_tx (cn_tx c) of None \<Rightarrow> False
        | Some tx \<Rightarrow> list_all (\<lambda>(k, m). unat (pt_sent_at m) + 500 \<le> 1000) (rtx_outstanding tx) \<and>
            rrx_used rx + length (rtx_outstanding tx) \<le> rrx_capacity rx \<and> rrx_delivered rx = [])"
    by code_simp
  then obtain c rx tx where c: "conn_script (demo_conn 4) gap_script = Some c" "cn_sent c = [[1], [2]]"
    "\<not> st_remote_ended (cn_rx c)" "st_reliable_rx (cn_rx c) = Some rx" "st_reliable_tx (cn_tx c) = Some tx"
    "list_all (\<lambda>(k, m). unat (pt_sent_at m) + 500 \<le> 1000) (rtx_outstanding tx)"
    "rrx_used rx + length (rtx_outstanding tx) \<le> rrx_capacity rx" "rrx_delivered rx = []" by (auto split: option.splits)
  obtain pks s where r: "retransmit_due (cn_tx c) 7 1000 = (pks, s)" by fastforce
  have "\<forall>k m. bt_get (rtx_outstanding tx) k = Some m \<longrightarrow> unat (pt_sent_at m) + 500 \<le> unat (1000 :: u64)"
    using c(6) by (auto simp: bt_get_def list_all_iff dest!: map_of_SomeD)
  from reliable_recovery_round[OF demo_start script_reach[OF c(1)] _ c(3,5,4) this c(7) r] c r show ?thesis by auto
qed

section \<open>Stalls\<close>

text \<open>A receiver that has taken an end: whatever happens, what it has delivered or has ready stays the same.\<close>

definition ended_at :: "bytes list \<Rightarrow> conn \<Rightarrow> bool" where
  "ended_at ms c \<longleftrightarrow> \<not> sp_unreliable (st_profile (cn_rx c)) \<and> st_state (cn_rx c) = StOpen \<and> st_remote_ended (cn_rx c) \<and>
    remote_may_send (cn_rx c) (st_opened_by_local (cn_rx c)) \<and>
    (\<exists>rx. st_reliable_rx (cn_rx c) = Some rx \<and> cn_got c @ rrx_delivered rx = ms)"

lemma ended_refuses: "ended_at ms c \<Longrightarrow> receive_packet (cn_rx c) (PData t i k d e) = (Err InvalidState, cn_rx c)"
  by (simp add: ended_at_def receive_packet_def receive_data_def)

lemma ended_step: "conn_step c c' \<Longrightarrow> ended_at ms c \<Longrightarrow> ended_at ms c'"
proof (induction rule: conn_step.induct)
  case (step_deliver pk c r s)
  then have "s = cn_rx c" by (auto simp: ended_at_def receive_packet_def receive_data_def split: GtsPacket.splits)
  then show ?case using step_deliver.prems by (simp add: ended_at_def)
next
  case (step_recv c m s)
  then show ?case by (auto simp: ended_at_def stream_recv_def rrx_recv_def remote_may_send_def split: list.splits)
qed (simp_all add: ended_at_def)

lemma ended_forever: "conn_reach c c' \<Longrightarrow> ended_at ms c \<Longrightarrow> ended_at ms c'"
  by (induction rule: conn_reach.induct) (auto dest: ended_step)

text \<open>C33. A DATA_END that overtakes an earlier message ends the stream for good. In any reachable state of fewer than
  \<open>2 ^ 32\<close> messages, let a DATA_END from the network be accepted while an earlier message is still missing. Then the
  missing message was sent, but from then on, whatever is sent, retransmitted, delivered or read, every data packet is
  refused as an invalid state, and what the receiver has delivered or has ready stays the messages before the missing
  one.\<close>

theorem data_end_overtakes_message:
  assumes "conn_start p opener c0" "conn_reach c0 c" "length (cn_sent c) < 2 ^ 32" "st_reliable_rx (cn_rx c) = Some rx"
    and "PData t i k d True \<in> cn_data c" "receive_packet (cn_rx c) (PData t i k d True) = (Ok r, s)" "rrx_next_expected rx < k"
    and "conn_reach (c\<lparr>cn_rx := s, cn_acks := cn_acks c \<union> reply_set (Ok r)\<rparr>) c'"
  shows "unat (rrx_next_expected rx) < length (cn_sent c) \<and>
    (\<forall>t j q m e. receive_packet (cn_rx c') (PData t j q m e) = (Err InvalidState, cn_rx c')) \<and>
    (\<exists>rx'. st_reliable_rx (cn_rx c') = Some rx' \<and> cn_got c' @ rrx_delivered rx' = take (unat (rrx_next_expected rx)) (cn_sent c))"
proof -
  let ?ms = "take (unat (rrx_next_expected rx)) (cn_sent c)"
  obtain j tx where ok: "conn_ok j p opener c tx rx"
    using conn_reach_inv[OF assms(2,1,3)] assms(4) by (auto simp: conn_inv_def conn_ok_def)
  have "unat k < length (cn_sent c)" using ok assms(5) by (auto simp: conn_ok_def data_ok_def is_msg_def)
  then have sent: "unat (rrx_next_expected rx) < length (cn_sent c)" using assms(7) by (simp add: word_less_nat_alt)
  have got: "cn_got c @ rrx_delivered rx = ?ms" using ok by (simp add: conn_ok_def rx_ok_def)
  have dir: "remote_may_send (cn_rx c) (\<not> opener)" using assms(1) ok by (rule direction_matches)
  obtain b rx' where taken: "rrx_receive rx k d = (Ok b, rx')" "s = (cn_rx c)\<lparr>st_reliable_rx := Some rx', st_remote_ended := True\<rparr>"
    using assms(4,6) by (auto simp: receive_packet_def receive_data_def split: if_splits prod.splits result.splits)
  have "rrx_delivered rx' = rrx_delivered rx"
    using taken(1) assms(7) by (auto simp: rrx_receive_def Let_def split: if_splits option.splits)
  then have "ended_at ?ms (c\<lparr>cn_rx := s, cn_acks := cn_acks c \<union> reply_set (Ok r)\<rparr>)"
    using ok got dir assms(1) by (auto simp: ended_at_def taken(2) conn_simps conn_start_def remote_may_send_def split: if_splits)
  note e = ended_forever[OF assms(8) this]
  show ?thesis using sent ended_refuses[OF e] e by (auto simp: ended_at_def)
qed

definition end_script :: "conn_event list" where
  "end_script = [Send [1] False 0, Send [2] True 0]"

theorem data_end_overtakes_message_witness:
  "\<exists>c s r. conn_script (demo_conn 4) end_script = Some c \<and> cn_sent c = [[1], [2]] \<and>
    receive_packet (cn_rx c) (PData 7 0 1 [2] True) = (Ok r, s) \<and>
    (\<forall>c'. conn_reach (c\<lparr>cn_rx := s, cn_acks := cn_acks c \<union> reply_set (Ok r)\<rparr>) c' \<longrightarrow> cn_got c' = [] \<and>
      receive_packet (cn_rx c') (PData 7 0 0 [1] False) = (Err InvalidState, cn_rx c'))"
proof -
  have "case conn_script (demo_conn 4) end_script of None \<Rightarrow> False | Some c \<Rightarrow> cn_sent c = [[1], [2]] \<and>
      PData 7 0 1 [2] True \<in> cn_data c \<and> fst (receive_packet (cn_rx c) (PData 7 0 1 [2] True)) = Ok None \<and>
      (case st_reliable_rx (cn_rx c) of None \<Rightarrow> False | Some rx \<Rightarrow> rrx_next_expected rx = 0)"
    by code_simp
  then obtain c rx s where c: "conn_script (demo_conn 4) end_script = Some c" "cn_sent c = [[1], [2]]" "PData 7 0 1 [2] True \<in> cn_data c"
      "receive_packet (cn_rx c) (PData 7 0 1 [2] True) = (Ok None, s)" "st_reliable_rx (cn_rx c) = Some rx" "rrx_next_expected rx = 0"
    by (cases "receive_packet (cn_rx (the (conn_script (demo_conn 4) end_script))) (PData 7 0 1 [2] True)") (auto split: option.splits)
  have "cn_got c' = [] \<and> receive_packet (cn_rx c') (PData 7 0 0 [1] False) = (Err InvalidState, cn_rx c')"
    if "conn_reach (c\<lparr>cn_rx := s, cn_acks := cn_acks c \<union> reply_set (Ok None)\<rparr>) c'" for c'
    using data_end_overtakes_message[OF demo_start script_reach[OF c(1)] _ c(5,3,4) _ that] c(2,6) by auto
  then show ?thesis using c by blast
qed






end
