(* ===== verification/Bounded_Gts.thy ===== *)
theory Bounded_Gts
  imports Gts_Stream Message_Pool
begin

text \<open>
  The heapless GTS socket, src/src/bounded_gts.rs: streams in a fixed table, messages awaiting acknowledgement
  and received messages in two message pools. The role and state enumerations are those of \<open>Gts_Stream\<close>, which
  the module declares again with the same constructors. A message goes out through \<open>recv_into\<close> into a buffer of
  the caller, which the model takes and returns.
\<close>

section \<open>State\<close>

record TxMeta =
  tm_stream_id :: u8
  tm_sequence :: u32
  tm_end :: bool
  tm_sent_at :: u64

datatype RxDisposition = Pending | Delivered

record RxMeta =
  rm_stream_id :: u8
  rm_sequence :: u32
  rm_end :: bool
  rm_disposition :: RxDisposition
  rm_order :: u64

record StreamCore =
  sc_id :: u8
  sc_profile :: StreamProfile
  sc_state :: StreamState
  sc_opened_by_local :: bool
  sc_next_tx_sequence :: u32
  sc_next_expected :: u32
  sc_peer_credit :: u8
  sc_receive_capacity :: u8
  sc_seen_reliable :: bool
  sc_unrel_rx_highest :: "u32 option"
  sc_unrel_tx_sequence :: u32
  sc_local_ended :: bool
  sc_remote_ended :: bool

record AckState =
  ack_base :: u32
  receive_bitmap :: u32
  receive_credit :: u8

record BoundedGtsSocket =
  bg_role :: TunnelRole
  bg_state :: TunnelState
  bg_local_receive_id :: u32
  bg_remote_receive_id :: "u32 option"
  bg_local_reset_id :: u32
  bg_remote_reset_id :: "u32 option"
  bg_css :: ServiceSelector
  bg_streams :: "StreamCore option list"
  bg_tx :: "TxMeta MessagePool"
  bg_rx :: "RxMeta MessagePool"
  bg_next_stream_id :: u8
  bg_next_delivery_order :: u64
  bg_rto_ms :: u64

section \<open>Setting up\<close>

definition bg_new :: "TunnelRole \<Rightarrow> u32 \<Rightarrow> u32 \<Rightarrow> ServiceSelector \<Rightarrow> StreamCore option list \<Rightarrow>
    TxMeta MessageSlot list \<Rightarrow> bytes \<Rightarrow> RxMeta MessageSlot list \<Rightarrow> bytes \<Rightarrow> BoundedGtsSocket result" where
  "bg_new role recv_id reset_id css streams tx_slots tx_bytes rx_slots rx_bytes =
    (if streams = [] then Err InvalidLength
     else rbind (mp_new tx_slots tx_bytes) (\<lambda>tx. rbind (mp_new rx_slots rx_bytes) (\<lambda>rx.
       Ok \<lparr>bg_role = role, bg_state = (if role = Initiator then TunConnecting else TunEstablished),
           bg_local_receive_id = recv_id, bg_remote_receive_id = None, bg_local_reset_id = reset_id,
           bg_remote_reset_id = None, bg_css = css, bg_streams = map (\<lambda>_. None) streams, bg_tx = tx, bg_rx = rx,
           bg_next_stream_id = (if role = Initiator then 2 else 1), bg_next_delivery_order = 1,
           bg_rto_ms = default_rto_ms\<rparr>)))"

definition bg_set_rto_ms :: "BoundedGtsSocket \<Rightarrow> u64 \<Rightarrow> (BoundedGtsSocket, unit) outcome" where
  "bg_set_rto_ms s v = (if v = 0 then (Err InvalidField, s) else (Ok (), s\<lparr>bg_rto_ms := v\<rparr>))"

definition bg_establish :: "BoundedGtsSocket \<Rightarrow> u32 \<Rightarrow> u32 \<Rightarrow> (BoundedGtsSocket, unit) outcome" where
  "bg_establish s remote_recv remote_reset =
    (if \<not> (bg_state s = TunConnecting \<or> bg_state s = TunEstablished) then (Err InvalidState, s)
     else (Ok (), s\<lparr>bg_remote_receive_id := Some remote_recv, bg_remote_reset_id := Some remote_reset,
                    bg_state := TunEstablished\<rparr>))"

text \<open>Finding a stream, and updating the stream found.\<close>

definition bg_stream_index :: "BoundedGtsSocket \<Rightarrow> u8 \<Rightarrow> nat result" where
  "bg_stream_index s i = ok_or (position (\<lambda>x. map_option sc_id x = Some i) (bg_streams s)) UnknownStream"

definition bg_stream :: "BoundedGtsSocket \<Rightarrow> u8 \<Rightarrow> StreamCore result" where
  "bg_stream s i = rbind (bg_stream_index s i) (\<lambda>n. rbind (idx (bg_streams s) n) (\<lambda>x. ok_or x UnknownStream))"

definition bg_modify :: "(StreamCore \<Rightarrow> StreamCore) \<Rightarrow> nat \<Rightarrow> BoundedGtsSocket \<Rightarrow> BoundedGtsSocket" where
  "bg_modify f n s = s\<lparr>bg_streams := (bg_streams s)[n := map_option f (bg_streams s ! n)]\<rparr>"

definition bg_stream_state :: "BoundedGtsSocket \<Rightarrow> u8 \<Rightarrow> StreamState result" where
  "bg_stream_state s i = rbind (bg_stream s i) (\<lambda>c. Ok (sc_state c))"

definition bg_peer_credit :: "BoundedGtsSocket \<Rightarrow> u8 \<Rightarrow> u8 result" where
  "bg_peer_credit s i = rbind (bg_stream s i) (\<lambda>c. Ok (sc_peer_credit c))"

definition bg_alloc_stream_id :: "BoundedGtsSocket \<Rightarrow> (BoundedGtsSocket, u8) outcome" where
  "bg_alloc_stream_id s =
    (if bg_state s \<noteq> TunEstablished then (Err InvalidState, s)
     else let i = bg_next_stream_id s in
       if 253 < i then (Err BufferFull, s) else (Ok i, s\<lparr>bg_next_stream_id := i + 2\<rparr>))"

definition bg_add_stream :: "BoundedGtsSocket \<Rightarrow> u8 \<Rightarrow> StreamProfile \<Rightarrow> bool \<Rightarrow> u8 \<Rightarrow> u8 \<Rightarrow> (BoundedGtsSocket, unit) outcome" where
  "bg_add_stream s i p opened capacity credit =
    sbind (lift_r (profile_validate p) s) (\<lambda>_ s.
    if list_ex (\<lambda>x. map_option sc_id x = Some i) (bg_streams s) then (Err InvalidState, s)
    else sbind (lift_r (ok_or (position (\<lambda>x. x = None) (bg_streams s)) BufferFull) s) (\<lambda>n s.
      (Ok (), s\<lparr>bg_streams := (bg_streams s)[n := Some
        \<lparr>sc_id = i, sc_profile = p, sc_state = StOpen, sc_opened_by_local = opened, sc_next_tx_sequence = 0,
         sc_next_expected = 0, sc_peer_credit = (if sp_unreliable p then 0 else credit),
         sc_receive_capacity = (if sp_unreliable p then 0 else capacity), sc_seen_reliable = False,
         sc_unrel_rx_highest = None, sc_unrel_tx_sequence = 0, sc_local_ended = False, sc_remote_ended = False\<rparr>]\<rparr>)))"

section \<open>Sending\<close>

definition sc_local_may_send :: "StreamCore \<Rightarrow> bool" where
  "sc_local_may_send c = (if sc_opened_by_local c then opener_may_send (sp_direction (sc_profile c))
     else peer_may_send (sp_direction (sc_profile c)))"

definition sc_remote_may_send :: "StreamCore \<Rightarrow> bool" where
  "sc_remote_may_send c = (if sc_opened_by_local c then peer_may_send (sp_direction (sc_profile c))
     else opener_may_send (sp_direction (sc_profile c)))"

definition class_room :: "StreamProfile \<Rightarrow> nat \<Rightarrow> nat result" where
  "class_room p overhead = ok_or (checked_sub (size_class_bytes (sp_size_class p)) overhead) InvalidLength"

definition bg_validate_send_len :: "StreamProfile \<Rightarrow> nat \<Rightarrow> bool \<Rightarrow> unit result" where
  "bg_validate_send_len p n e =
    (if sp_unreliable p then
       (if e then Err ProfileViolation
        else if sp_variable p then
          (if size_class_bytes (sp_size_class p) < n + (if sp_sequenced p then 16 else 12) then Err MessageTooLarge else Ok ())
        else rbind (class_room p (if sp_sequenced p then 14 else 10)) (\<lambda>k. if n \<noteq> k then Err InvalidLength else Ok ()))
     else if sp_variable p then
       (if size_class_bytes (sp_size_class p) < n + 16 then Err MessageTooLarge else Ok ())
     else if e then rbind (class_room p 16) (\<lambda>k. if k < n then Err MessageTooLarge else Ok ())
     else rbind (class_room p 14) (\<lambda>k. if n \<noteq> k then Err InvalidLength else Ok ()))"

text \<open>Calls on one of the pools.\<close>

definition on_tx :: "(TxMeta MessagePool, 'a) outcome \<Rightarrow> BoundedGtsSocket \<Rightarrow> (BoundedGtsSocket, 'a) outcome" where
  "on_tx out s = (case out of (r, p) \<Rightarrow> (r, s\<lparr>bg_tx := p\<rparr>))"

definition on_rx :: "(RxMeta MessagePool, 'a) outcome \<Rightarrow> BoundedGtsSocket \<Rightarrow> (BoundedGtsSocket, 'a) outcome" where
  "on_rx out s = (case out of (r, p) \<Rightarrow> (r, s\<lparr>bg_rx := p\<rparr>))"

definition bg_send :: "BoundedGtsSocket \<Rightarrow> u8 \<Rightarrow> bytes \<Rightarrow> bool \<Rightarrow> u64 \<Rightarrow> (BoundedGtsSocket, u32 option) outcome" where
  "bg_send s i data e now =
    sbind (lift_r (bg_stream_index s i) s) (\<lambda>n s.
    sbind (lift_r (bg_stream s i) s) (\<lambda>snapshot s.
    if sc_state snapshot \<noteq> StOpen \<or> sc_local_ended snapshot then (Err InvalidState, s)
    else if \<not> sc_local_may_send snapshot then (Err DirectionViolation, s)
    else sbind (lift_r (bg_validate_send_len (sc_profile snapshot) (length data) e) s) (\<lambda>_ s.
    if sp_unreliable (sc_profile snapshot) then
      (if sp_sequenced (sc_profile snapshot) then
         (Ok (Some (sc_unrel_tx_sequence snapshot)),
          bg_modify (sc_unrel_tx_sequence_update (\<lambda>_. sc_unrel_tx_sequence snapshot + 1)) n s)
       else (Ok None, s))
    else if sc_peer_credit snapshot = 0 then (Err WouldBlock, s)
    else let seq = sc_next_tx_sequence snapshot in
      sbind (on_tx (mp_insert (bg_tx s) (\<lparr>tm_stream_id = i, tm_sequence = seq, tm_end = e, tm_sent_at = now\<rparr>, data)) s) (\<lambda>_ s.
      (Ok (Some seq), bg_modify (\<lambda>c. c\<lparr>sc_next_tx_sequence := seq + 1, sc_peer_credit := sc_peer_credit c - 1,
         sc_local_ended := (e \<or> sc_local_ended c)\<rparr>) n s)))))"

definition tx_acked :: "u32 \<Rightarrow> u32 \<Rightarrow> u32 \<Rightarrow> bool" where
  "tx_acked seq base bitmap =
    (if seq \<le> base then True
     else let d = seq - base - 1 in d < 32 \<and> bitmap AND push_bit (unat d) 1 \<noteq> 0)"

text \<open>Removing every used slot whose metadata satisfies a condition, in slot order.\<close>

fun remove_where :: "('m \<Rightarrow> bool) \<Rightarrow> nat list \<Rightarrow> 'm MessagePool \<Rightarrow> ('m MessagePool, unit) outcome" where
  "remove_where P [] p = (Ok (), p)"
| "remove_where P (n # ns) p = (case mp_meta p n of
      Some m \<Rightarrow> if P m then sbind (mp_remove p n) (\<lambda>_ p. remove_where P ns p) else remove_where P ns p
    | None \<Rightarrow> remove_where P ns p)"

definition bg_on_ack :: "BoundedGtsSocket \<Rightarrow> u8 \<Rightarrow> AckState \<Rightarrow> (BoundedGtsSocket, unit) outcome" where
  "bg_on_ack s i ack =
    sbind (lift_r (bg_stream_index s i) s) (\<lambda>n s.
    sbind (lift_r (bg_stream s i) s) (\<lambda>c s.
    if sp_unreliable (sc_profile c) \<or> sc_state c = StReset then (Err ProfileViolation, s)
    else let s = bg_modify (sc_peer_credit_update (\<lambda>_. receive_credit ack)) n s in
      on_tx (remove_where (\<lambda>m. tm_stream_id m = i \<and> tx_acked (tm_sequence m) (ack_base ack) (receive_bitmap ack))
        [0..<mp_capacity (bg_tx s)] (bg_tx s)) s))"

definition first_due :: "u64 \<Rightarrow> u64 \<Rightarrow> TxMeta MessagePool \<Rightarrow> (nat \<times> TxMeta) option" where
  "first_due rto now p = find (\<lambda>(n, m). rto \<le> saturating_sub now (tm_sent_at m)) (mp_for_each p)"

definition bg_retransmit_due :: "BoundedGtsSocket \<Rightarrow> u64 \<Rightarrow> (BoundedGtsSocket, (TxMeta \<times> bytes) option) outcome" where
  "bg_retransmit_due s now = (case first_due (bg_rto_ms s) now (bg_tx s) of
      None \<Rightarrow> (Ok None, s)
    | Some (n, m) \<Rightarrow> let m = m\<lparr>tm_sent_at := now\<rparr> in
        sbind (on_tx (mp_set_meta (bg_tx s) n m) s) (\<lambda>_ s.
        sbind (lift_r (rbind (mp_get (bg_tx s) n) (\<lambda>x. ok_or x InvalidState)) s) (\<lambda>(_, data) s.
        (Ok (Some (m, data)), s))))"

section \<open>Receiving\<close>

definition rx_count_for :: "BoundedGtsSocket \<Rightarrow> u8 \<Rightarrow> nat" where
  "rx_count_for s i = length (filter (\<lambda>(n, m). rm_stream_id m = i) (mp_for_each (bg_rx s)))"

definition bg_ack_state :: "BoundedGtsSocket \<Rightarrow> u8 \<Rightarrow> AckState option result" where
  "bg_ack_state s i = rbind (bg_stream s i) (\<lambda>c.
    if sp_unreliable (sc_profile c) \<or> \<not> sc_seen_reliable c then Ok None
    else let base = sc_next_expected c - 1;
             bitmap = foldl (\<lambda>bm (n, m). if rm_stream_id m = i \<and> rm_disposition m = Pending
                then ack_bit base bm (rm_sequence m) else bm) 0 (mp_for_each (bg_rx s));
             local_free = unat (sc_receive_capacity c) - rx_count_for s i
      in Ok (Some \<lparr>ack_base = base, receive_bitmap = bitmap,
                   receive_credit = of_nat (min (min local_free (mp_free (bg_rx s))) 255)\<rparr>))"

definition bump_order :: "BoundedGtsSocket \<Rightarrow> BoundedGtsSocket" where
  "bump_order s = s\<lparr>bg_next_delivery_order := max (bg_next_delivery_order s + 1) 1\<rparr>"

definition is_pending :: "u8 \<Rightarrow> RxMeta \<Rightarrow> bool" where
  "is_pending i m \<longleftrightarrow> rm_stream_id m = i \<and> rm_disposition m = Pending"

definition pending_count :: "u8 \<Rightarrow> RxMeta MessagePool \<Rightarrow> nat" where
  "pending_count i p = length (filter (\<lambda>x. case ms_meta x of None \<Rightarrow> False | Some m \<Rightarrow> is_pending i m) (mp_slots p))"

text \<open>One round of \<open>mark_contiguous_delivered\<close>: the slot that holds the next expected message, if any.\<close>

definition next_pending :: "BoundedGtsSocket \<Rightarrow> u8 \<Rightarrow> u32 \<Rightarrow> (nat \<times> RxMeta) option result" where
  "next_pending s i expected =
    (case mp_find (bg_rx s) (\<lambda>m. rm_stream_id m = i \<and> rm_sequence m = expected \<and> rm_disposition m = Pending) of
        None \<Rightarrow> Ok None
      | Some n \<Rightarrow> rbind (ok_or (mp_meta (bg_rx s) n) InvalidState) (\<lambda>m. Ok (Some (n, m))))"

definition deliver_slot :: "BoundedGtsSocket \<Rightarrow> u8 \<Rightarrow> nat \<Rightarrow> RxMeta \<Rightarrow> (BoundedGtsSocket, unit) outcome" where
  "deliver_slot s i n m =
    (let m = m\<lparr>rm_disposition := Delivered, rm_order := bg_next_delivery_order s\<rparr>; s = bump_order s in
     sbind (on_rx (mp_set_meta (bg_rx s) n m) s) (\<lambda>_ s.
     sbind (lift_r (bg_stream_index s i) s) (\<lambda>k s.
     (Ok (), bg_modify (\<lambda>c. c\<lparr>sc_next_expected := sc_next_expected c + 1,
        sc_remote_ended := (rm_end m \<or> sc_remote_ended c)\<rparr>) k s))))"

lemma length_filter_update:
  "i < length xs \<Longrightarrow> P (xs ! i) \<Longrightarrow> \<not> P y \<Longrightarrow> length (filter P (xs[i := y])) < length (filter P xs)"
proof (induction xs arbitrary: i)
  case (Cons x xs)
  then show ?case by (cases i) auto
qed simp

lemma deliver_slot_count:
  assumes "next_pending s i expected = Ok (Some (n, m))" "deliver_slot s i n m = (Ok (), s')"
  shows "pending_count i (bg_rx s') < pending_count i (bg_rx s)"
proof -
  have n: "n < length (mp_slots (bg_rx s))" "ms_meta (mp_slots (bg_rx s) ! n) = Some m" "is_pending i m"
    using assms(1)
    by (auto simp: next_pending_def mp_find_def mp_meta_def is_pending_def result_simps dest!: position_Some split: option.splits)
  then have "bg_rx s' = (bg_rx s)\<lparr>mp_slots := (mp_slots (bg_rx s))[n := (mp_slots (bg_rx s) ! n)\<lparr>ms_meta :=
      Some (m\<lparr>rm_disposition := Delivered, rm_order := bg_next_delivery_order s\<rparr>)\<rparr>]\<rparr>"
    using assms(2) by (auto simp: deliver_slot_def Let_def bump_order_def on_rx_def mp_set_meta_def lift_r_def result_simps bg_modify_def)
  then show ?thesis using n unfolding pending_count_def by (auto intro!: length_filter_update simp: is_pending_def)
qed

function mark_contiguous_delivered :: "BoundedGtsSocket \<Rightarrow> u8 \<Rightarrow> (BoundedGtsSocket, unit) outcome" where
  "mark_contiguous_delivered s i =
    (case bg_stream s i of
        Ok c \<Rightarrow> (case next_pending s i (sc_next_expected c) of
            Ok (Some (n, m)) \<Rightarrow> (case deliver_slot s i n m of
                (Ok u, s') \<Rightarrow> mark_contiguous_delivered s' i
              | (Err e, s') \<Rightarrow> (Err e, s')
              | (Panic, s') \<Rightarrow> (Panic, s'))
          | Ok None \<Rightarrow> (Ok (), s)
          | Err e \<Rightarrow> (Err e, s)
          | Panic \<Rightarrow> (Panic, s))
      | Err e \<Rightarrow> (Err e, s)
      | Panic \<Rightarrow> (Panic, s))"
  by pat_completeness auto
termination
  by (relation "measure (\<lambda>(s, i). pending_count i (bg_rx s))") (auto intro: deliver_slot_count[OF _ sym])

declare mark_contiguous_delivered.simps [simp del]

definition receive_unreliable :: "BoundedGtsSocket \<Rightarrow> nat \<Rightarrow> StreamCore \<Rightarrow> u8 \<Rightarrow> u32 option \<Rightarrow> bytes \<Rightarrow> (BoundedGtsSocket, AckState option) outcome" where
  "receive_unreliable s n snapshot i seq data =
    sbind (lift_r (if sp_sequenced (sc_profile snapshot) then ok_or seq ProfileViolation
                   else if seq \<noteq> None then Err ProfileViolation else Ok 0) s) (\<lambda>q s.
    if sp_sequenced (sc_profile snapshot) \<and> (case sc_unrel_rx_highest snapshot of Some h \<Rightarrow> q \<le> h | None \<Rightarrow> False)
    then (Ok None, s)
    else let s = (if sp_sequenced (sc_profile snapshot) then bg_modify (sc_unrel_rx_highest_update (\<lambda>_. Some q)) n s else s);
             order = bg_next_delivery_order s; s = bump_order s in
      sbind (on_rx (mp_insert (bg_rx s) (\<lparr>rm_stream_id = i, rm_sequence = q, rm_end = False,
         rm_disposition = Delivered, rm_order = order\<rparr>, data)) s) (\<lambda>_ s. (Ok None, s)))"

definition receive_reliable :: "BoundedGtsSocket \<Rightarrow> nat \<Rightarrow> StreamCore \<Rightarrow> u8 \<Rightarrow> u32 \<Rightarrow> bytes \<Rightarrow> bool \<Rightarrow> (BoundedGtsSocket, AckState option) outcome" where
  "receive_reliable s n snapshot i seq data e =
    (if seq < sc_next_expected snapshot then lift_r (bg_ack_state s i) s
     else if 32 < seq - sc_next_expected snapshot then (Err BufferFull, s)
     else if unat (sc_receive_capacity snapshot) \<le> rx_count_for s i then (Err BufferFull, s)
     else if mp_find (bg_rx s) (\<lambda>m. rm_stream_id m = i \<and> rm_sequence m = seq) \<noteq> None then lift_r (bg_ack_state s i) s
     else let now = (seq = sc_next_expected snapshot);
              order = (if now then bg_next_delivery_order s else 0);
              s = (if now then bump_order s else s) in
       sbind (on_rx (mp_insert (bg_rx s) (\<lparr>rm_stream_id = i, rm_sequence = seq, rm_end = e,
          rm_disposition = (if now then Delivered else Pending), rm_order = order\<rparr>, data)) s) (\<lambda>_ s.
       let s = bg_modify (\<lambda>c. if now
             then c\<lparr>sc_seen_reliable := True, sc_next_expected := sc_next_expected c + 1,
                    sc_remote_ended := (e \<or> sc_remote_ended c)\<rparr>
             else c\<lparr>sc_seen_reliable := True\<rparr>) n s in
       sbind (mark_contiguous_delivered s i) (\<lambda>_ s. lift_r (bg_ack_state s i) s)))"

definition bg_receive :: "BoundedGtsSocket \<Rightarrow> u8 \<Rightarrow> u32 option \<Rightarrow> bytes \<Rightarrow> bool \<Rightarrow> (BoundedGtsSocket, AckState option) outcome" where
  "bg_receive s i seq data e =
    sbind (lift_r (bg_stream_index s i) s) (\<lambda>n s.
    sbind (lift_r (bg_stream s i) s) (\<lambda>snapshot s.
    if sc_state snapshot = StClosed \<or> sc_state snapshot = StReset \<or> sc_remote_ended snapshot then (Err InvalidState, s)
    else if \<not> sc_remote_may_send snapshot then (Err DirectionViolation, s)
    else sbind (lift_r (bg_validate_send_len (sc_profile snapshot) (length data) e) s) (\<lambda>_ s.
    if sp_unreliable (sc_profile snapshot) then receive_unreliable s n snapshot i seq data
    else sbind (lift_r (ok_or seq ProfileViolation) s) (\<lambda>q s. receive_reliable s n snapshot i q data e))))"

text \<open>The delivered message of the stream with the least delivery order, the first of equals.\<close>

definition best_step :: "u8 \<Rightarrow> (nat \<times> RxMeta) option \<Rightarrow> nat \<times> RxMeta \<Rightarrow> (nat \<times> RxMeta) option" where
  "best_step i best x = (case x of (n, m) \<Rightarrow>
    if rm_stream_id m = i \<and> rm_disposition m = Delivered \<and>
       (case best of Some (_, b) \<Rightarrow> rm_order m < rm_order b | None \<Rightarrow> True) then Some (n, m) else best)"

definition bg_recv_into :: "BoundedGtsSocket \<Rightarrow> u8 \<Rightarrow> bytes \<Rightarrow> (BoundedGtsSocket, (nat \<times> bool) option \<times> bytes) outcome" where
  "bg_recv_into s i out =
    sbind (lift_r (bg_stream s i) s) (\<lambda>_ s.
    case foldl (best_step i) None (mp_for_each (bg_rx s)) of
        None \<Rightarrow> (Ok (None, out), s)
      | Some (n, m) \<Rightarrow> sbind (on_rx (mp_remove_into (bg_rx s) n out) s) (\<lambda>((_, len), out) s.
          (Ok (Some (len, rm_end m), out), s)))"

section \<open>Resets\<close>

definition reset_core :: "StreamCore \<Rightarrow> StreamCore" where
  "reset_core c = c\<lparr>sc_state := StReset, sc_local_ended := True, sc_remote_ended := True, sc_peer_credit := 0\<rparr>"

definition bg_reset_stream :: "BoundedGtsSocket \<Rightarrow> u8 \<Rightarrow> (BoundedGtsSocket, unit) outcome" where
  "bg_reset_stream s i =
    sbind (lift_r (bg_stream_index s i) s) (\<lambda>n s.
    sbind (on_tx (remove_where (\<lambda>m. tm_stream_id m = i) [0..<mp_capacity (bg_tx s)] (bg_tx s)) s) (\<lambda>_ s.
    sbind (on_rx (remove_where (\<lambda>m. rm_stream_id m = i) [0..<mp_capacity (bg_rx s)] (bg_rx s)) s) (\<lambda>_ s.
    (Ok (), bg_modify reset_core n s))))"

definition bg_reset :: "BoundedGtsSocket \<Rightarrow> BoundedGtsSocket" where
  "bg_reset s = s\<lparr>bg_state := TunReset, bg_tx := mp_clear (bg_tx s), bg_rx := mp_clear (bg_rx s),
     bg_streams := map (map_option reset_core) (bg_streams s)\<rparr>"

section \<open>The invariant\<close>

text \<open>What the invariant needs of the streams (identifier, reliability, capacity) and of the received messages
  (the stream each slot belongs to).\<close>

definition stream_sig :: "BoundedGtsSocket \<Rightarrow> (u8 \<times> bool \<times> u8) option list" where
  "stream_sig s = map (map_option (\<lambda>c. (sc_id c, sp_unreliable (sc_profile c), sc_receive_capacity c))) (bg_streams s)"

definition rx_ids :: "RxMeta MessagePool \<Rightarrow> u8 option list" where
  "rx_ids p = map (\<lambda>x. map_option rm_stream_id (ms_meta x)) (mp_slots p)"

definition distinct_streams :: "(u8 \<times> bool \<times> u8) option list \<Rightarrow> bool" where
  "distinct_streams sig \<longleftrightarrow> (\<forall>n k i u c u' c'. n < length sig \<longrightarrow> k < length sig \<longrightarrow> sig ! n = Some (i, u, c) \<longrightarrow>
     sig ! k = Some (i, u', c') \<longrightarrow> n = k)"

definition cap_ok :: "(u8 \<times> bool \<times> u8) option list \<Rightarrow> u8 option list \<Rightarrow> bool" where
  "cap_ok sig ids \<longleftrightarrow> distinct_streams sig \<and>
    (\<forall>i. Some i \<in> set ids \<longrightarrow> (\<exists>u c. Some (i, u, c) \<in> set sig)) \<and>
    (\<forall>i c. Some (i, False, c) \<in> set sig \<longrightarrow> count_list ids (Some i) \<le> unat c)"

definition bg_inv :: "BoundedGtsSocket \<Rightarrow> bool" where
  "bg_inv s \<longleftrightarrow> mp_inv (bg_tx s) \<and> mp_inv (bg_rx s) \<and> cap_ok (stream_sig s) (rx_ids (bg_rx s))"

definition keeps :: "('s \<Rightarrow> bool) \<Rightarrow> ('s, 'a) outcome \<Rightarrow> bool" where
  "keeps I m \<longleftrightarrow> fst m \<noteq> Panic \<and> I (snd m)"

lemma keeps_simps [simp]: "keeps I (Ok x, s) = I s" "keeps I (Err e, s) = I s" "\<not> keeps I (Panic, s)"
  by (simp_all add: keeps_def)

lemma keeps_lift: "r \<noteq> Panic \<Longrightarrow> I s \<Longrightarrow> keeps I (lift_r r s)"
  by (simp add: keeps_def lift_r_def)

lemma keeps_sbind: "keeps I m \<Longrightarrow> (\<And>x s. m = (Ok x, s) \<Longrightarrow> I s \<Longrightarrow> keeps I (k x s)) \<Longrightarrow> keeps I (sbind m k)"
  by (cases m; cases "fst m") (auto simp: keeps_def sbind_def)

lemma keeps_pure:
  "r \<noteq> Panic \<Longrightarrow> I s \<Longrightarrow> (\<And>x. r = Ok x \<Longrightarrow> keeps I (k x s)) \<Longrightarrow> keeps I (sbind (lift_r r s) k)"
  by (cases r) (auto simp: lift_r_def)

subsection \<open>Streams\<close>

lemma stream_index_Ok:
  assumes "bg_stream_index s i = Ok n"
  shows "n < length (bg_streams s)" "\<exists>c. bg_streams s ! n = Some c \<and> sc_id c = i \<and> bg_stream s i = Ok c"
proof -
  have p: "position (\<lambda>x. map_option sc_id x = Some i) (bg_streams s) = Some n"
    using assms by (simp add: bg_stream_index_def result_simps)
  then show n: "n < length (bg_streams s)" using position_Some by fastforce
  obtain c where "bg_streams s ! n = Some c" "sc_id c = i" using position_Some[OF p] by auto
  then show "\<exists>c. bg_streams s ! n = Some c \<and> sc_id c = i \<and> bg_stream s i = Ok c"
    using assms n by (auto simp: bg_stream_def)
qed

lemma position_update: "position f xs = Some n \<Longrightarrow> f y \<Longrightarrow> position f (xs[n := y]) = Some n"
  by (induction xs arbitrary: n) (auto split: if_splits)

lemma stream_modify:
  assumes "bg_stream_index s i = Ok n" "bg_stream s i = Ok c" "sc_id (f c) = i"
  shows "bg_stream (bg_modify f n s) i = Ok (f c)"
proof -
  have n: "n < length (bg_streams s)" "bg_streams s ! n = Some c" using stream_index_Ok[OF assms(1)] assms(2) by auto
  have "position (\<lambda>x. map_option sc_id x = Some i) (bg_streams s) = Some n"
    using assms(1) by (simp add: bg_stream_index_def result_simps)
  then have "bg_stream_index (bg_modify f n s) i = Ok n"
    unfolding bg_stream_index_def bg_modify_def using n assms(3) by (simp add: position_update)
  then show ?thesis using n by (simp add: bg_stream_def bg_modify_def)
qed

lemma stream_no_panic [simp]: "bg_stream_index s i \<noteq> Panic" "bg_stream s i \<noteq> Panic" "bg_ack_state s i \<noteq> Panic"
proof -
  show i: "bg_stream_index s i \<noteq> Panic" by (simp add: bg_stream_index_def result_simps)
  then show st: "bg_stream s i \<noteq> Panic"
    using stream_index_Ok(1)[of s i] by (auto simp: bg_stream_def result_simps)
  then show "bg_ack_state s i \<noteq> Panic" by (auto simp: bg_ack_state_def result_simps Let_def split: if_splits)
qed

lemma validate_no_panic [simp]: "bg_validate_send_len p n e \<noteq> Panic" "profile_validate p \<noteq> Panic"
  by (auto simp: bg_validate_send_len_def class_room_def profile_validate_def result_simps split: if_splits)

lemma sig_modify:
  assumes "\<And>c. sc_id (f c) = sc_id c \<and> sc_profile (f c) = sc_profile c \<and> sc_receive_capacity (f c) = sc_receive_capacity c"
  shows "stream_sig (bg_modify f n s) = stream_sig s"
proof (cases "n < length (bg_streams s)")
  case True
  then show ?thesis using assms
    by (auto simp: stream_sig_def bg_modify_def map_update option.map_comp comp_def intro!: list_update_same_conv[THEN iffD2])
qed (simp add: stream_sig_def bg_modify_def list_update_beyond)

lemma bg_modify_fields [simp]:
  "bg_tx (bg_modify f n s) = bg_tx s" "bg_rx (bg_modify f n s) = bg_rx s"
  "bg_tx (bump_order s) = bg_tx s" "bg_rx (bump_order s) = bg_rx s" "stream_sig (bump_order s) = stream_sig s"
  by (simp_all add: bg_modify_def bump_order_def stream_sig_def)

lemma inv_modify:
  "bg_inv s \<Longrightarrow> (\<And>c. sc_id (f c) = sc_id c \<and> sc_profile (f c) = sc_profile c \<and> sc_receive_capacity (f c) = sc_receive_capacity c)
   \<Longrightarrow> bg_inv (bg_modify f n s)"
  by (simp add: bg_inv_def sig_modify)

lemma inv_bump: "bg_inv (bump_order s) = bg_inv s"
  by (simp add: bg_inv_def)

subsection \<open>Pools\<close>

lemma set_meta_inv: "mp_inv p \<Longrightarrow> keeps mp_inv (mp_set_meta p n m)"
  by (auto simp: mp_set_meta_def mp_inv_def nth_list_update)

lemma remove_inv: "mp_inv p \<Longrightarrow> keeps mp_inv (mp_remove p n)"
  using mp.remove_dead[of p n] mp.remove_live[of p n] by (cases "mp_lookup p n") fastforce+

lemma remove_into_inv:
  assumes "mp_inv p"
  shows "keeps mp_inv (mp_remove_into p n out)"
proof (cases "n < length (mp_slots p)")
  case True
  then show ?thesis using assms slot_in_arena[OF assms True, of "ms_len (mp_slots p ! n)"]
    by (cases "ms_meta (mp_slots p ! n)") (auto simp: mp_remove_into_def mp_inv_def nth_list_update ms_empty_def Let_def lift_r_def)
qed (simp add: mp_remove_into_def assms)

lemma insert_inv: "mp_inv p \<Longrightarrow> keeps mp_inv (mp_insert p x)"
proof -
  assume p: "mp_inv p"
  obtain r q where m: "mp_insert p x = (r, q)" by fastforce
  show ?thesis using m mp.insert_ok[OF p, of x] mp.insert_err[OF p, of x] mp.insert_safe[OF p, of x] p
    by (cases r) (auto simp: keeps_def)
qed

lemma remove_where_inv: "mp_inv p \<Longrightarrow> keeps mp_inv (remove_where P ns p)"
proof (induction ns arbitrary: p)
  case (Cons n ns)
  then show ?case using remove_inv[OF Cons.prems, of n] by (auto split: option.splits intro!: keeps_sbind)
qed simp

subsection \<open>Slots per stream\<close>

lemma count_list_update:
  "n < length xs \<Longrightarrow> count_list (xs[n := y]) x + of_bool (xs ! n = x) = count_list xs x + of_bool (y = x)"
proof (induction xs arbitrary: n)
  case (Cons a xs)
  then show ?case by (cases n) auto
qed simp

lemma cap_ok_shrink:
  assumes "cap_ok sig ids" "\<And>i. count_list ids' (Some i) \<le> count_list ids (Some i)"
  shows "cap_ok sig ids'"
proof -
  have "Some i \<in> set ids" if "Some i \<in> set ids'" for i
    using that assms(2)[of i] by (metis count_list_0_iff le_zero_eq)
  then show ?thesis using assms unfolding cap_ok_def by (meson order_trans)
qed

lemma cap_ok_add:
  assumes "cap_ok sig ids" "n < length ids" "ids ! n = None" "Some (i, u, c) \<in> set sig"
    "\<not> u \<Longrightarrow> count_list ids (Some i) < unat c"
  shows "cap_ok sig (ids[n := Some i])"
proof -
  have c: "count_list (ids[n := Some i]) (Some j) = count_list ids (Some j) + of_bool (i = j)" for j
    using count_list_update[OF assms(2), of "Some i" "Some j"] assms(3) by simp
  have same: "u = u' \<and> c = c'" if m: "Some (i, u', c') \<in> set sig" for u' c'
  proof -
    obtain k k' where "k < length sig" "sig ! k = Some (i, u, c)" "k' < length sig" "sig ! k' = Some (i, u', c')"
      using m assms(4) unfolding in_set_conv_nth by blast
    moreover from this have "k = k'" using assms(1) unfolding cap_ok_def distinct_streams_def by blast
    ultimately show ?thesis by simp
  qed
  have "count_list (ids[n := Some i]) (Some j) \<le> unat c'" if "Some (j, False, c') \<in> set sig" for j c'
    using that assms(1,5) same[of False c'] c[of j] by (cases "i = j") (auto simp: cap_ok_def)
  moreover have "\<exists>u c. Some (j, u, c) \<in> set sig" if "Some j \<in> set (ids[n := Some i])" for j
    using set_update_subset_insert[of ids n "Some i"] that assms(1,4) unfolding cap_ok_def by blast
  ultimately show ?thesis using assms(1) by (simp add: cap_ok_def)
qed

lemma insert_slots:
  "mp_insert p (m, d) = (Ok n, q) \<Longrightarrow> position (\<lambda>s. ms_meta s = None) (mp_slots p) = Some n \<and>
     mp_slots q = (mp_slots p)[n := \<lparr>ms_meta = Some m, ms_len = length d\<rparr>]"
  by (auto simp: mp_insert_def lift_r_def upd_def result_simps Let_def split: if_splits)

lemma rx_ids_insert:
  assumes "mp_insert p (m, d) = (Ok n, q)"
  shows "n < length (rx_ids p)" "rx_ids p ! n = None" "rx_ids q = (rx_ids p)[n := Some (rm_stream_id m)]"
proof -
  have pos: "position (\<lambda>s. ms_meta s = None) (mp_slots p) = Some n"
    and q: "mp_slots q = (mp_slots p)[n := \<lparr>ms_meta = Some m, ms_len = length d\<rparr>]"
    using insert_slots[OF assms] by auto
  show "n < length (rx_ids p)" "rx_ids p ! n = None" using position_Some[OF pos] by (auto simp: rx_ids_def)
  show "rx_ids q = (rx_ids p)[n := Some (rm_stream_id m)]" by (simp add: rx_ids_def q map_update)
qed

lemma rx_ids_set_meta:
  "mp_meta p n = Some m0 \<Longrightarrow> rm_stream_id m = rm_stream_id m0 \<Longrightarrow> rx_ids (snd (mp_set_meta p n m)) = rx_ids p"
  by (auto simp: rx_ids_def mp_set_meta_def mp_meta_def map_update split: if_splits intro!: list_update_same_conv[THEN iffD2])

lemma rx_ids_drop: "mp_slots q = mp_slots p \<or> mp_slots q = (mp_slots p)[n := ms_empty] \<Longrightarrow>
  count_list (rx_ids q) (Some i) \<le> count_list (rx_ids p) (Some i)"
  using count_list_update[of n "rx_ids p" None "Some i"]
  by (cases "n < length (rx_ids p)") (auto simp: rx_ids_def map_update ms_empty_def list_update_beyond)

lemma rx_ids_remove: "count_list (rx_ids (snd (mp_remove p n))) (Some i) \<le> count_list (rx_ids p) (Some i)"
  by (rule rx_ids_drop[of _ _ n]) (cases "ms_meta (mp_slots p ! n)", auto simp: mp_remove_def lift_r_def)

lemma rx_ids_remove_into: "count_list (rx_ids (snd (mp_remove_into p n out))) (Some i) \<le> count_list (rx_ids p) (Some i)"
  by (rule rx_ids_drop[of _ _ n])
    (cases "ms_meta (mp_slots p ! n)", auto simp: mp_remove_into_def lift_r_def Let_def slice_def copy_at_def)

lemma rx_ids_remove_where: "count_list (rx_ids (snd (remove_where P ns p))) (Some i) \<le> count_list (rx_ids p) (Some i)"
proof (induction ns arbitrary: p)
  case (Cons n ns)
  obtain r q where m: "mp_remove p n = (r, q)" by fastforce
  have "count_list (rx_ids q) (Some i) \<le> count_list (rx_ids p) (Some i)" using rx_ids_remove[of p n i] m by simp
  then show ?case using Cons[of q] Cons[of p] m by (cases r) (auto split: option.splits intro: order_trans)
qed simp

text \<open>The counting of the source visits the used slots.\<close>

lemma for_each_metas: "map snd (mp_for_each p) = concat (map (\<lambda>x. case ms_meta x of None \<Rightarrow> [] | Some m \<Rightarrow> [m]) (mp_slots p))"
proof -
  have "map (map snd) (map (\<lambda>i. case ms_meta (mp_slots p ! i) of None \<Rightarrow> [] | Some m \<Rightarrow> [(i, m)]) ns) =
      map (\<lambda>x. case ms_meta x of None \<Rightarrow> [] | Some m \<Rightarrow> [m]) (map ((!) (mp_slots p)) ns)" for ns
    by (simp add: option.case_distrib[of "map snd"] cong: option.case_cong)
  then show ?thesis unfolding mp_for_each_def map_concat by (simp only: map_nth)
qed

lemma slots_of_stream:
  "length (filter (\<lambda>m. rm_stream_id m = i) (concat (map (\<lambda>x. case ms_meta x of None \<Rightarrow> [] | Some m \<Rightarrow> [m]) xs))) =
   count_list (map (\<lambda>x. map_option rm_stream_id (ms_meta x)) xs) (Some i)"
  by (induction xs) (auto split: option.splits)

lemma rx_count_eq: "rx_count_for s i = count_list (rx_ids (bg_rx s)) (Some i)"
proof -
  have "rx_count_for s i = length (filter (\<lambda>m. rm_stream_id m = i) (map snd (mp_for_each (bg_rx s))))"
    by (simp add: rx_count_for_def filter_map comp_def case_prod_unfold)
  also have "\<dots> = count_list (rx_ids (bg_rx s)) (Some i)"
    unfolding for_each_metas rx_ids_def by (rule slots_of_stream)
  finally show ?thesis .
qed

subsection \<open>Every operation keeps it\<close>

lemma tx_inv: "bg_inv s \<Longrightarrow> mp_inv (bg_tx s)" and rx_inv: "bg_inv s \<Longrightarrow> mp_inv (bg_rx s)"
  by (simp_all add: bg_inv_def)

lemma on_tx_keeps: "bg_inv s \<Longrightarrow> keeps mp_inv out \<Longrightarrow> keeps bg_inv (on_tx out s)"
  by (cases out) (simp add: on_tx_def keeps_def bg_inv_def stream_sig_def)

lemma on_rx_keeps:
  "bg_inv s \<Longrightarrow> keeps mp_inv out \<Longrightarrow> cap_ok (stream_sig s) (rx_ids (snd out)) \<Longrightarrow> keeps bg_inv (on_rx out s)"
  by (cases out) (simp add: on_rx_def keeps_def bg_inv_def stream_sig_def)

lemma on_rx_drop: "bg_inv s \<Longrightarrow> keeps mp_inv out \<Longrightarrow>
  (\<And>i. count_list (rx_ids (snd out)) (Some i) \<le> count_list (rx_ids (bg_rx s)) (Some i)) \<Longrightarrow> keeps bg_inv (on_rx out s)"
  by (rule on_rx_keeps) (auto simp: bg_inv_def intro: cap_ok_shrink)

lemma on_rx_insert:
  assumes "bg_inv s" "bg_rx s = p" "Some (rm_stream_id m, u, c) \<in> set (stream_sig s)"
    "\<not> u \<Longrightarrow> rx_count_for s (rm_stream_id m) < unat c"
  shows "keeps bg_inv (on_rx (mp_insert p (m, d)) s)"
proof (rule on_rx_keeps[OF assms(1)])
  have p: "mp_inv p" and cap: "cap_ok (stream_sig s) (rx_ids p)" using assms(1,2) by (auto simp: bg_inv_def)
  then show "keeps mp_inv (mp_insert p (m, d))" by (simp add: insert_inv)
  obtain r q where i: "mp_insert p (m, d) = (r, q)" by fastforce
  show "cap_ok (stream_sig s) (rx_ids (snd (mp_insert p (m, d))))"
  proof (cases r)
    case (Ok n)
    then show ?thesis using rx_ids_insert[of p m d n q] i cap_ok_add[OF cap _ _ assms(3)] assms(2,4)
      by (simp add: rx_count_eq)
  next
    case (Err e)
    then show ?thesis using mp.insert_err[OF p] i cap by auto
  next
    case Panic
    then show ?thesis using mp.insert_safe[OF p, of "(m, d)"] i by simp
  qed
qed

lemma on_tx_insert: "bg_inv s \<Longrightarrow> keeps bg_inv (on_tx (mp_insert (bg_tx s) x) s)"
  by (rule on_tx_keeps) (auto simp: bg_inv_def insert_inv)

lemma sig_stream: "bg_stream s i = Ok c \<Longrightarrow> Some (i, sp_unreliable (sc_profile c), sc_receive_capacity c) \<in> set (stream_sig s)"
proof -
  assume c: "bg_stream s i = Ok c"
  then obtain n where "bg_stream_index s i = Ok n" by (auto simp: bg_stream_def result_simps)
  then have "bg_streams s ! n = Some c" "n < length (bg_streams s)" "sc_id c = i" using stream_index_Ok[of s i n] c by auto
  then have "stream_sig s ! n = Some (i, sp_unreliable (sc_profile c), sc_receive_capacity c)" "n < length (stream_sig s)"
    by (auto simp: stream_sig_def)
  then show ?thesis by (metis nth_mem)
qed

lemma stream_of_sig:
  assumes "Some (i, u, k) \<in> set (stream_sig s)"
  shows "\<exists>c. bg_stream s i = Ok c"
proof -
  obtain c where "Some c \<in> set (bg_streams s)" "sc_id c = i"
    using assms by (auto simp: stream_sig_def dest!: sym[of "Some _"])
  then have "\<exists>x\<in>set (bg_streams s). map_option sc_id x = Some i" by (intro bexI[of _ "Some c"]) auto
  then have "position (\<lambda>x. map_option sc_id x = Some i) (bg_streams s) \<noteq> None" unfolding position_None by blast
  then obtain n where "bg_stream_index s i = Ok n" by (auto simp: bg_stream_index_def)
  then show ?thesis using stream_index_Ok(2) by blast
qed

lemma sig_on_rx [simp]: "on_rx out s = (r, t) \<Longrightarrow> stream_sig t = stream_sig s"
  by (cases out) (auto simp: on_rx_def stream_sig_def)

lemma cap_ok_stream:
  assumes cap: "cap_ok sig ids" and n: "n < length sig" "sig ! n = None" and fresh: "\<And>u c. Some (i, u, c) \<notin> set sig"
  shows "cap_ok (sig[n := Some (i, u, c)]) ids"
proof -
  let ?x = "(i, u, c)" and ?sig = "sig[n := Some (i, u, c)]"
  have at: "m = n \<and> y = ?x \<or> m \<noteq> n \<and> sig ! m = Some y \<and> Some y \<in> set sig"
    if "m < length ?sig" "?sig ! m = Some y" for m y
    using that n(1) by (cases "m = n") (auto simp: in_set_conv_nth)
  have old: "Some y \<in> set ?sig" if y: "Some y \<in> set sig" for y
  proof -
    obtain k where k: "k < length sig" "sig ! k = Some y" using y by (auto simp: in_set_conv_nth)
    then have "?sig ! k = Some y" using n by (cases "k = n") auto
    then show ?thesis using k(1) by (metis length_list_update nth_mem)
  qed
  have d: "distinct_streams sig" using cap by (simp add: cap_ok_def)
  have "distinct_streams ?sig" unfolding distinct_streams_def
  proof (intro allI impI)
    fix m k j u c u' c'
    assume a: "m < length ?sig" "k < length ?sig" "?sig ! m = Some (j, u, c)" "?sig ! k = Some (j, u', c')"
    show "m = k" using at[OF a(1,3)] at[OF a(2,4)] fresh d a(1,2) unfolding distinct_streams_def by auto
  qed
  moreover have "count_list ids (Some i) = 0" using cap fresh unfolding cap_ok_def count_list_0_iff by blast
  moreover have "Some y \<in> set ?sig \<Longrightarrow> y = ?x \<or> Some y \<in> set sig" for y
    using set_update_subset_insert[of sig n "Some ?x"] by blast
  ultimately show ?thesis using cap old unfolding cap_ok_def by (metis le0 prod.inject)
qed

lemma add_stream_keeps:
  assumes "bg_inv s"
  shows "keeps bg_inv (bg_add_stream s i p opened capacity credit)"
proof (cases "position (\<lambda>x. x = None) (bg_streams s)")
  case None
  then show ?thesis using assms by (auto simp: bg_add_stream_def intro!: keeps_pure)
next
  case (Some n)
  have n: "n < length (stream_sig s)" "stream_sig s ! n = None" using position_Some[OF Some] by (auto simp: stream_sig_def)
  have "cap_ok ((stream_sig s)[n := Some (i, u, c)]) (rx_ids (bg_rx s))"
    if new: "\<not> list_ex (\<lambda>x. map_option sc_id x = Some i) (bg_streams s)" for u c
    using assms n new
    by (intro cap_ok_stream) (auto simp: bg_inv_def stream_sig_def list_ex_iff dest!: sym[of "Some _"])
  then show ?thesis using assms Some
    by (auto simp: bg_add_stream_def bg_inv_def stream_sig_def map_update intro!: keeps_pure)
qed

lemma send_keeps: "bg_inv s \<Longrightarrow> keeps bg_inv (bg_send s i data e now)"
  unfolding bg_send_def Let_def
  by (intro keeps_pure) (auto intro!: keeps_sbind keeps_lift on_tx_insert inv_modify)

lemma on_ack_keeps: "bg_inv s \<Longrightarrow> keeps bg_inv (bg_on_ack s i ack)"
  unfolding bg_on_ack_def Let_def
  by (intro keeps_pure) (auto intro!: on_tx_keeps inv_modify remove_where_inv simp: bg_inv_def)

lemma retransmit_keeps: "bg_inv s \<Longrightarrow> keeps bg_inv (bg_retransmit_due s now)"
  unfolding bg_retransmit_due_def Let_def
  by (auto intro!: keeps_sbind on_tx_keeps set_meta_inv keeps_lift split: option.splits
      simp: bg_inv_def mp_get_lookup result_simps)

lemma deliver_slot_keeps:
  assumes "bg_inv s" "mp_meta (bg_rx s) n = Some m" "rm_stream_id m = i"
  shows "keeps bg_inv (deliver_slot s i n m)"
  unfolding deliver_slot_def Let_def
proof (intro keeps_sbind on_rx_keeps)
  let ?m = "m\<lparr>rm_disposition := Delivered, rm_order := bg_next_delivery_order s\<rparr>"
  show "bg_inv (bump_order s)" using assms(1) by (simp add: inv_bump)
  show "keeps mp_inv (mp_set_meta (bg_rx (bump_order s)) n ?m)" using assms(1) by (simp add: bg_inv_def set_meta_inv)
  show "cap_ok (stream_sig (bump_order s)) (rx_ids (snd (mp_set_meta (bg_rx (bump_order s)) n ?m)))"
    using assms by (simp add: bg_inv_def rx_ids_set_meta)
qed (auto intro: inv_modify keeps_lift)

lemma next_pending_Some:
  "next_pending s i k = Ok (Some (n, m)) \<Longrightarrow> mp_meta (bg_rx s) n = Some m \<and> rm_stream_id m = i \<and> rm_sequence m = k"
  by (auto simp: next_pending_def mp_find_def mp_meta_def result_simps dest!: position_Some split: option.splits)

lemma next_pending_no_panic: "next_pending s i k \<noteq> Panic"
  by (auto simp: next_pending_def result_simps split: option.splits)

lemma mark_keeps: "bg_inv s \<Longrightarrow> keeps bg_inv (mark_contiguous_delivered s i)"
proof (induction s i rule: mark_contiguous_delivered.induct)
  case (1 s i)
  show ?case
  proof (cases "\<exists>c n m. bg_stream s i = Ok c \<and> next_pending s i (sc_next_expected c) = Ok (Some (n, m))")
    case True
    then obtain c n m where c: "bg_stream s i = Ok c" "next_pending s i (sc_next_expected c) = Ok (Some (n, m))" by blast
    have k: "keeps bg_inv (deliver_slot s i n m)" using deliver_slot_keeps[OF 1(2)] next_pending_Some[OF c(2)] by simp
    obtain r s' where d: "deliver_slot s i n m = (r, s')" by fastforce
    show ?thesis using 1(1)[OF c refl refl d[symmetric]] k c d
      by (cases r) (auto simp: mark_contiguous_delivered.simps[of s i] keeps_def)
  next
    case False
    then show ?thesis using 1(2) next_pending_no_panic[of s i]
      by (auto simp: mark_contiguous_delivered.simps[of s i] split: result.splits option.splits)
  qed
qed

lemma receive_unreliable_keeps:
  assumes "bg_inv s" "bg_stream s i = Ok c" "sp_unreliable (sc_profile c)"
  shows "keeps bg_inv (receive_unreliable s n c i seq data)"
proof -
  have sig: "Some (i, True, sc_receive_capacity c) \<in> set (stream_sig s)" using sig_stream[OF assms(2)] assms(3) by simp
  have "keeps bg_inv (on_rx (mp_insert (bg_rx s) (m, data)) t)"
    if "bg_inv t" "bg_rx t = bg_rx s" "stream_sig t = stream_sig s" "rm_stream_id m = i" for t m
    using that sig by (intro on_rx_insert[where u = True and c = "sc_receive_capacity c"]) auto
  note ins = this
  show ?thesis unfolding receive_unreliable_def Let_def using assms(1)
    by (auto intro!: keeps_pure keeps_sbind[OF ins] inv_modify sig_modify simp: inv_bump result_simps split: option.splits)
qed

lemma receive_reliable_keeps:
  assumes "bg_inv s" "bg_stream s i = Ok c" "\<not> sp_unreliable (sc_profile c)"
  shows "keeps bg_inv (receive_reliable s n c i seq data e)"
proof -
  have sig: "Some (i, False, sc_receive_capacity c) \<in> set (stream_sig s)" using sig_stream[OF assms(2)] assms(3) by simp
  have ins: "keeps bg_inv (on_rx (mp_insert (bg_rx s) (m, data)) t)"
    if "t = s \<or> t = bump_order s" "rm_stream_id m = i" "rx_count_for s i < unat (sc_receive_capacity c)" for t m
    using that sig assms(1)
    by (intro on_rx_insert[where u = False and c = "sc_receive_capacity c"]) (auto simp: inv_bump rx_count_eq)
  show ?thesis unfolding receive_reliable_def Let_def using assms(1)
    by (auto intro!: keeps_lift keeps_sbind ins mark_keeps inv_modify simp: not_le)
qed

lemma receive_keeps: "bg_inv s \<Longrightarrow> keeps bg_inv (bg_receive s i seq data e)"
  unfolding bg_receive_def
  by (intro keeps_pure) (auto intro!: keeps_pure receive_unreliable_keeps receive_reliable_keeps simp: result_simps)

lemma recv_into_keeps: "bg_inv s \<Longrightarrow> keeps bg_inv (bg_recv_into s i out)"
  unfolding bg_recv_into_def
  by (intro keeps_pure) (auto split: option.splits prod.splits intro!: keeps_sbind on_rx_drop remove_into_inv rx_ids_remove_into simp: bg_inv_def)

lemma reset_stream_keeps: "bg_inv s \<Longrightarrow> keeps bg_inv (bg_reset_stream s i)"
  unfolding bg_reset_stream_def
  by (intro keeps_pure) (auto intro!: keeps_sbind on_tx_keeps on_rx_drop remove_where_inv rx_ids_remove_where inv_modify
      simp: reset_core_def intro: tx_inv rx_inv)

lemma clear_inv: "mp_inv p \<Longrightarrow> mp_inv (mp_clear p)"
  by (auto simp: mp_inv_def mp_clear_def ms_empty_def)

lemma reset_keeps: "bg_inv s \<Longrightarrow> bg_inv (bg_reset s)"
proof -
  assume s: "bg_inv s"
  have "rx_ids (mp_clear p) = replicate (length (mp_slots p)) None" for p
    by (simp add: rx_ids_def mp_clear_def ms_empty_def map_replicate_const)
  moreover have "stream_sig (bg_reset s) = stream_sig s"
    by (simp add: stream_sig_def bg_reset_def reset_core_def option.map_comp comp_def)
  moreover have "cap_ok (stream_sig s) (replicate k None)" for k
    using s by (auto simp: bg_inv_def intro!: cap_ok_shrink[of _ "rx_ids (bg_rx s)"])
  ultimately show ?thesis using s by (auto simp: bg_inv_def bg_reset_def clear_inv)
qed

section \<open>Runs\<close>

datatype bg_call =
    SetRto u64 | Establish u32 u32 | AllocStream | AddStream u8 StreamProfile bool u8 u8
  | SendMsg u8 bytes bool u64 | OnAck u8 AckState | Retransmit u64 | Receive u8 "u32 option" bytes bool
  | RecvInto u8 bytes | ResetStream u8 | ResetAll

definition forget :: "('s, 'a) outcome \<Rightarrow> ('s, unit) outcome" where
  "forget m = (case m of (Ok _, s) \<Rightarrow> (Ok (), s) | (Err e, s) \<Rightarrow> (Err e, s) | (Panic, s) \<Rightarrow> (Panic, s))"

primrec bg_call_apply :: "BoundedGtsSocket \<Rightarrow> bg_call \<Rightarrow> (BoundedGtsSocket, unit) outcome" where
  "bg_call_apply s (SetRto v) = bg_set_rto_ms s v"
| "bg_call_apply s (Establish a b) = bg_establish s a b"
| "bg_call_apply s AllocStream = forget (bg_alloc_stream_id s)"
| "bg_call_apply s (AddStream i p opened cap credit) = bg_add_stream s i p opened cap credit"
| "bg_call_apply s (SendMsg i d e now) = forget (bg_send s i d e now)"
| "bg_call_apply s (OnAck i a) = bg_on_ack s i a"
| "bg_call_apply s (Retransmit now) = forget (bg_retransmit_due s now)"
| "bg_call_apply s (Receive i q d e) = forget (bg_receive s i q d e)"
| "bg_call_apply s (RecvInto i out) = forget (bg_recv_into s i out)"
| "bg_call_apply s (ResetStream i) = bg_reset_stream s i"
| "bg_call_apply s ResetAll = (Ok (), bg_reset s)"

fun bg_calls :: "BoundedGtsSocket \<Rightarrow> bg_call list \<Rightarrow> unit result list \<times> BoundedGtsSocket" where
  "bg_calls s [] = ([], s)"
| "bg_calls s (c # cs) = (case bg_call_apply s c of (r, t) \<Rightarrow> (case bg_calls t cs of (rs, u) \<Rightarrow> (r # rs, u)))"

lemma keeps_forget: "keeps I (forget m) = keeps I m"
  by (cases m; cases "fst m") (auto simp: forget_def)

lemma call_keeps: "bg_inv s \<Longrightarrow> keeps bg_inv (bg_call_apply s c)"
proof (cases c)
  case (SetRto v)
  then show "bg_inv s \<Longrightarrow> ?thesis" by (simp add: bg_set_rto_ms_def bg_inv_def stream_sig_def)
next
  case (Establish a b)
  then show "bg_inv s \<Longrightarrow> ?thesis" by (simp add: bg_establish_def bg_inv_def stream_sig_def)
next
  case AllocStream
  then show "bg_inv s \<Longrightarrow> ?thesis" by (simp add: keeps_forget bg_alloc_stream_id_def bg_inv_def stream_sig_def Let_def)
qed (simp_all add: keeps_forget add_stream_keeps send_keeps on_ack_keeps retransmit_keeps receive_keeps recv_into_keeps
  reset_stream_keeps reset_keeps)

lemma calls_keep: "bg_inv s \<Longrightarrow> bg_calls s cs = (rs, t) \<Longrightarrow> bg_inv t \<and> Panic \<notin> set rs"
proof (induction cs arbitrary: s rs)
  case (Cons c cs)
  obtain r u where c: "bg_call_apply s c = (r, u)" by fastforce
  obtain rs' where rs: "rs = r # rs'" "bg_calls u cs = (rs', t)" using Cons.prems(2) c by (auto split: prod.splits)
  then show ?case using Cons.IH[of u rs'] call_keeps[OF Cons.prems(1), of c] c by (auto simp: keeps_def)
qed simp

lemma new_inv:
  assumes "bg_new role a b css streams tx_slots tx_bytes rx_slots rx_bytes = Ok s"
  shows "bg_inv s"
proof -
  obtain tx rx where p: "mp_new tx_slots tx_bytes = Ok tx" "mp_new rx_slots rx_bytes = Ok rx" "bg_tx s = tx" "bg_rx s = rx"
    "bg_streams s = map (\<lambda>_. None) streams"
    using assms by (auto simp: bg_new_def result_simps split: if_splits)
  have "Some i \<notin> set (rx_ids rx)" for i
    using p(2) by (auto simp: mp_new_def Let_def rx_ids_def ms_empty_def split: if_splits)
  moreover have "stream_sig s = map (\<lambda>_. None) streams" by (simp add: stream_sig_def p(5))
  ultimately show ?thesis using mp_new_inv[OF p(1)] mp_new_inv[OF p(2)] p(3,4)
    by (auto simp: bg_inv_def cap_ok_def distinct_streams_def count_list_0_iff)
qed

text \<open>C24. A heapless socket keeps its promises over any sequence of calls: no call panics, the streams of the
  table have different identifiers, every message of the receive pool belongs to one of them, and a reliable stream never
  occupies more receive slots than the capacity it was given.\<close>

theorem bounded_socket_within_capacity:
  assumes "bg_new role a b css streams tx_slots tx_bytes rx_slots rx_bytes = Ok s0" "bg_calls s0 cs = (rs, s)"
  shows "Panic \<notin> set rs \<and> distinct_streams (stream_sig s) \<and>
    (\<forall>i. rx_count_for s i \<noteq> 0 \<longrightarrow> (\<exists>c. bg_stream s i = Ok c)) \<and>
    (\<forall>i c. bg_stream s i = Ok c \<longrightarrow> \<not> sp_unreliable (sc_profile c) \<longrightarrow> rx_count_for s i \<le> unat (sc_receive_capacity c))"
proof -
  have inv: "bg_inv s" "Panic \<notin> set rs" using calls_keep[OF new_inv[OF assms(1)] assms(2)] by auto
  then have cap: "cap_ok (stream_sig s) (rx_ids (bg_rx s))" by (simp add: bg_inv_def)
  have "\<exists>c. bg_stream s i = Ok c" if "rx_count_for s i \<noteq> 0" for i
    using that cap stream_of_sig by (auto simp: cap_ok_def rx_count_eq count_list_0_iff)
  moreover have "rx_count_for s i \<le> unat (sc_receive_capacity c)"
    if "bg_stream s i = Ok c" "\<not> sp_unreliable (sc_profile c)" for i c
    using sig_stream[OF that(1)] that(2) cap by (auto simp: cap_ok_def rx_count_eq)
  ultimately show ?thesis using inv cap by (auto simp: cap_ok_def)
qed

section \<open>An acknowledgement before the first message\<close>

lemma remove_where_metas:
  "remove_where P ns p = (Ok (), q) \<Longrightarrow> mp_meta q n = Some m \<Longrightarrow> mp_meta p n = Some m \<and> (n \<in> set ns \<longrightarrow> \<not> P m)"
proof (induction ns arbitrary: p)
  case (Cons k ns)
  show ?case
  proof (cases "\<exists>x. mp_meta p k = Some x \<and> P x")
    case True
    then obtain r where r: "mp_remove p k = (Ok r, p\<lparr>mp_slots := (mp_slots p)[k := ms_empty]\<rparr>)"
      by (auto simp: mp_remove_def mp_meta_def split: if_splits)
    then have "remove_where P ns (p\<lparr>mp_slots := (mp_slots p)[k := ms_empty]\<rparr>) = (Ok (), q)"
      using Cons.prems(1) True by auto
    from Cons.IH[OF this Cons.prems(2)] show ?thesis
      by (cases "n = k") (auto simp: mp_meta_def ms_empty_def nth_list_update split: if_splits)
  next
    case False
    then have "remove_where P ns p = (Ok (), q)" using Cons.prems(1) by (auto split: option.splits)
    from Cons.IH[OF this Cons.prems(2)] show ?thesis using False by auto
  qed
qed simp

lemma no_slot_of_stream:
  assumes "rx_count_for s i = 0" "x \<in> set (mp_slots (bg_rx s))" "ms_meta x = Some m"
  shows "rm_stream_id m \<noteq> i"
  using assms by (force simp: rx_count_eq count_list_0_iff rx_ids_def)

lemma first_gap_ack:
  assumes "bg_stream s i = Ok c" "sc_next_expected c = 0" "rx_count_for s i = 0" "q \<noteq> 0"
    and "bg_receive s i (Some q) data e = (Ok (Some ack), s')"
  shows "ack_base ack = - 1"
proof -
  obtain n where n: "bg_stream_index s i = Ok n" using assms(1) by (auto simp: bg_stream_def result_simps)
  have r: "receive_reliable s n c i q data e = (Ok (Some ack), s')"
    using assms(1,5) n by (auto simp: bg_receive_def receive_unreliable_def lift_r_def Let_def result_simps split: if_splits)
  have no: "mp_find (bg_rx s) (\<lambda>m. rm_stream_id m = i \<and> rm_sequence m = q) = None"
    using no_slot_of_stream[OF assms(3)] by (auto simp: mp_find_def position_None split: option.splits)
  have "\<not> q < 0" by simp
  then obtain k s1 where k: "on_rx (mp_insert (bg_rx s) (\<lparr>rm_stream_id = i, rm_sequence = q, rm_end = e,
      rm_disposition = Pending, rm_order = 0\<rparr>, data)) s = (Ok k, s1)"
    and m: "sbind (mark_contiguous_delivered (bg_modify (\<lambda>c. c\<lparr>sc_seen_reliable := True\<rparr>) n s1) i)
      (\<lambda>_ s. lift_r (bg_ack_state s i) s) = (Ok (Some ack), s')"
    using r assms(2,4) no by (auto simp: receive_reliable_def Let_def result_simps split: if_splits)
  let ?s = "bg_modify (\<lambda>c. c\<lparr>sc_seen_reliable := True\<rparr>) n s1"
  have ins: "mp_insert (bg_rx s) (\<lparr>rm_stream_id = i, rm_sequence = q, rm_end = e, rm_disposition = Pending, rm_order = 0\<rparr>, data) =
      (Ok k, bg_rx s1)" and str: "bg_streams s1 = bg_streams s"
    using k by (auto simp: on_rx_def split: prod.splits)
  have slots: "mp_slots (bg_rx s1) = (mp_slots (bg_rx s))[k := \<lparr>ms_meta = Some \<lparr>rm_stream_id = i, rm_sequence = q, rm_end = e,
      rm_disposition = Pending, rm_order = 0\<rparr>, ms_len = length data\<rparr>]"
    using insert_slots[OF ins] by blast
  have other: "rm_stream_id m \<noteq> i \<or> rm_sequence m \<noteq> 0" if x: "x \<in> set (mp_slots (bg_rx s1))" "ms_meta x = Some m" for x m
  proof -
    have "x \<in> set (mp_slots (bg_rx s)) \<or> rm_sequence m = q"
      using x set_update_subset_insert[THEN subsetD, OF x(1)[unfolded slots]] by auto
    then show ?thesis using no_slot_of_stream[OF assms(3) _ x(2)] assms(4) by blast
  qed
  have np: "next_pending ?s i 0 = Ok None"
  proof -
    have "mp_find (bg_rx s1) (\<lambda>m. rm_stream_id m = i \<and> rm_sequence m = 0 \<and> rm_disposition m = Pending) = None"
      unfolding mp_find_def position_None using other by (auto split: option.splits)
    then show ?thesis by (simp add: next_pending_def)
  qed
  have st: "bg_stream ?s i = Ok (c\<lparr>sc_seen_reliable := True\<rparr>)"
    using assms(1) n stream_index_Ok[OF n] str by (intro stream_modify) (auto simp: bg_stream_def bg_stream_index_def)
  have "mark_contiguous_delivered ?s i = (Ok (), ?s)"
    using st np assms(2) by (simp add: mark_contiguous_delivered.simps[of ?s i])
  then have "bg_ack_state ?s i = Ok (Some ack)" using m by (auto simp: lift_r_def)
  then show ?thesis using assms(2) by (auto simp: bg_ack_state_def st Let_def split: if_splits)
qed

lemma ack_of_everything:
  assumes "bg_on_ack s i ack = (Ok (), t)" "ack_base ack = - 1" "mp_meta (bg_tx t) n = Some m"
  shows "tm_stream_id m \<noteq> i"
proof -
  obtain k where rem: "remove_where (\<lambda>m. tm_stream_id m = i \<and> tx_acked (tm_sequence m) (ack_base ack) (receive_bitmap ack))
      [0..<mp_capacity (bg_tx s)] (bg_tx s) = (Ok (), bg_tx t)"
    using assms(1) by (auto simp: bg_on_ack_def on_tx_def Let_def lift_r_def result_simps split: if_splits prod.splits)
  have "tx_acked (tm_sequence m) (ack_base ack) (receive_bitmap ack)" by (simp add: tx_acked_def assms(2))
  moreover have "mp_meta (bg_tx s) n = Some m" using remove_where_metas[OF rem assms(3)] by simp
  then have "n \<in> set [0..<mp_capacity (bg_tx s)]" by (auto simp: mp_meta_def mp_capacity_def split: if_splits)
  ultimately show ?thesis using remove_where_metas[OF rem assms(3)] by blast
qed

text \<open>C35. When the first message of a reliable stream to arrive is not the first one sent, the socket
  acknowledges with base \<open>u32::MAX\<close>: a peer that processes this acknowledgement drops every message of the stream
  from its retransmission storage, the lost ones included.\<close>

theorem bounded_gap_acknowledges_everything:
  assumes "bg_stream s i = Ok c" "sc_next_expected c = 0" "rx_count_for s i = 0" "q \<noteq> 0"
    and "bg_receive s i (Some q) data e = (Ok (Some ack), s')"
  shows "ack_base ack = - 1 \<and> (\<forall>peer peer' n m. bg_on_ack peer i ack = (Ok (), peer') \<longrightarrow>
    mp_meta (bg_tx peer') n = Some m \<longrightarrow> tm_stream_id m \<noteq> i)"
  using first_gap_ack[OF assms] ack_of_everything by blast

section \<open>Witnesses\<close>

definition demo_socket :: BoundedGtsSocket where
  "demo_socket = (case bg_new Initiator 1 2 (ServiceSelector (replicate 16 1)) [None, None] [ms_empty, ms_empty] (replicate 64 0)
     [ms_empty, ms_empty] (replicate 64 0) of Ok s \<Rightarrow> s)"

definition demo_calls :: "bg_call list" where
  "demo_calls = [Establish 10 11, AddStream 0 (reliable_variable Ctrl32 Bidirectional) True 2 2, SendMsg 0 [1] False 0,
     SendMsg 0 [2] False 0, Receive 0 (Some 1) [9] False, Receive 0 (Some 0) [8] False, Receive 0 (Some 2) [7] False]"

lemma demo_socket_new: "bg_new Initiator 1 2 (ServiceSelector (replicate 16 1)) [None, None] [ms_empty, ms_empty] (replicate 64 0)
     [ms_empty, ms_empty] (replicate 64 0) = Ok demo_socket"
  by code_simp

theorem bounded_socket_within_capacity_witness:
  "\<exists>rs s c. bg_calls demo_socket demo_calls = (rs, s) \<and> Panic \<notin> set rs \<and> Err BufferFull \<in> set rs \<and> bg_stream s 0 = Ok c \<and>
    rx_count_for s 0 \<le> unat (sc_receive_capacity c)"
proof -
  obtain rs s where r: "bg_calls demo_socket demo_calls = (rs, s)" by fastforce
  have "case bg_calls demo_socket demo_calls of (rs, s) \<Rightarrow> list_ex (\<lambda>r. r = Err BufferFull) rs \<and>
      (case bg_stream s 0 of Ok c \<Rightarrow> \<not> sp_unreliable (sc_profile c) | _ \<Rightarrow> False)" by code_simp
  then obtain c where "Err BufferFull \<in> set rs" "bg_stream s 0 = Ok c" "\<not> sp_unreliable (sc_profile c)"
    using r by (auto simp: list_ex_iff split: result.splits)
  then show ?thesis using bounded_socket_within_capacity[OF demo_socket_new r] r by auto
qed

definition gap_socket :: BoundedGtsSocket where
  "gap_socket = snd (bg_calls demo_socket (take 4 demo_calls))"

theorem bounded_gap_acknowledges_everything_witness:
  "\<exists>ack s' peer'. bg_receive gap_socket 0 (Some 1) [9] False = (Ok (Some ack), s') \<and> ack_base ack = - 1 \<and>
    mp_meta (bg_tx gap_socket) 0 \<noteq> None \<and> bg_on_ack gap_socket 0 ack = (Ok (), peer') \<and>
    (\<forall>n m. mp_meta (bg_tx peer') n = Some m \<longrightarrow> tm_stream_id m \<noteq> 0)"
proof -
  have "case bg_receive gap_socket 0 (Some 1) [9] False of (Ok (Some ack), s') \<Rightarrow> fst (bg_on_ack gap_socket 0 ack) = Ok () | _ \<Rightarrow> False"
    by code_simp
  then obtain ack s' where a: "bg_receive gap_socket 0 (Some 1) [9] False = (Ok (Some ack), s')"
    "fst (bg_on_ack gap_socket 0 ack) = Ok ()" by (auto split: result.splits option.splits prod.splits)
  have "case bg_stream gap_socket 0 of Ok c \<Rightarrow> sc_next_expected c = 0 | _ \<Rightarrow> False" by code_simp
  then obtain c where c: "bg_stream gap_socket 0 = Ok c" "sc_next_expected c = 0" by (auto split: result.splits)
  have "rx_count_for gap_socket 0 = 0" "mp_meta (bg_tx gap_socket) 0 \<noteq> None" by code_simp+
  then show ?thesis using bounded_gap_acknowledges_everything[OF c _ _ a(1)] a by (cases "bg_on_ack gap_socket 0 ack") auto
qed

end
