(* ===== verification/Static_Router.thy ===== *)
theory Static_Router
  imports Router_Rib
begin

text \<open>
  The two-port router of src/src/static_router.rs: startup configuration and its validation, the compilation of the
  forwarding table into the P4 tables, and the processing of a packet. The P4 pipeline is generated code outside
  the repository's Rust sources; it is an argument of the definitions, given by its three operations. What the
  forwarding plane must do is the P4 program src/p4-static-router/p4/router.p4, which \<open>router_p4\<close> models over the
  entries that were added; exact keys and action parameters are little-endian, the longest-prefix part of a key is
  big-endian followed by the prefix length, as the code that builds them assumes.
\<close>

section \<open>The pipeline\<close>

record 'p p4_ops =
  p4_new :: "u16 \<Rightarrow> 'p"
  p4_add :: "'p \<Rightarrow> string \<Rightarrow> string \<Rightarrow> bytes \<Rightarrow> bytes \<Rightarrow> 'p"
  p4_process :: "'p \<Rightarrow> u16 \<Rightarrow> bytes \<Rightarrow> (bytes \<times> u16) list \<times> 'p"

definition to_le :: "nat \<Rightarrow> 'a::len word \<Rightarrow> bytes" where
  "to_le n x = rev (to_be n x)"

definition from_le :: "bytes \<Rightarrow> 'a::len word" where
  "from_le bs = from_be (rev bs)"

section \<open>Configuration\<close>

type_synonym RouterPortId = u16

definition router_port_count :: u16 where
  "router_port_count = 2"

definition router_bootstrap_address :: GdpAddress where
  "router_bootstrap_address = 0xfe80000000000000"

record RouterPortConfig =
  rpc_id :: RouterPortId
  rpc_link_local :: GdpAddress
  rpc_connected_prefix :: "GdpPrefix option"
  rpc_routed_address :: "GdpAddress option"

definition port_config_new :: "RouterPortId \<Rightarrow> GdpAddress \<Rightarrow> RouterPortConfig" where
  "port_config_new i a = \<lparr>rpc_id = i, rpc_link_local = a, rpc_connected_prefix = None, rpc_routed_address = None\<rparr>"

definition with_connected_network :: "RouterPortConfig \<Rightarrow> GdpPrefix \<Rightarrow> GdpAddress \<Rightarrow> RouterPortConfig" where
  "with_connected_network c p a = c\<lparr>rpc_connected_prefix := Some p, rpc_routed_address := Some a\<rparr>"

record StaticRouteConfig =
  src_prefix :: GdpPrefix
  src_egress_port :: RouterPortId
  src_next_hop :: "GdpAddress option"

definition static_route_direct :: "GdpPrefix \<Rightarrow> RouterPortId \<Rightarrow> StaticRouteConfig" where
  "static_route_direct p e = \<lparr>src_prefix = p, src_egress_port = e, src_next_hop = None\<rparr>"

definition static_route_via :: "GdpPrefix \<Rightarrow> RouterPortId \<Rightarrow> GdpAddress \<Rightarrow> StaticRouteConfig" where
  "static_route_via p e n = \<lparr>src_prefix = p, src_egress_port = e, src_next_hop = Some n\<rparr>"

record RouterStartupConfig =
  rsc_ports :: "RouterPortConfig list"
  rsc_routes :: "StaticRouteConfig list"

definition is_link_local :: "GdpAddress \<Rightarrow> bool" where
  "is_link_local a \<longleftrightarrow> ucast (drop_bit 48 a) = (0xfe80 :: u16)"

text \<open>\<open>BTreeSet::contains\<close> and \<open>insert\<close>, whose result says that the element is new.\<close>

definition set_has :: "('a :: linorder, unit) btree \<Rightarrow> 'a \<Rightarrow> bool" where
  "set_has s x \<longleftrightarrow> bt_get s x \<noteq> None"

definition set_add :: "('a :: linorder, unit) btree \<Rightarrow> 'a \<Rightarrow> ('a, unit) btree" where
  "set_add s x = bt_insert s x ()"

type_synonym seen_sets = "(GdpAddress, unit) btree \<times> (GdpPrefix, unit) btree"

definition validate_connected :: "seen_sets \<Rightarrow> GdpPrefix \<Rightarrow> GdpAddress \<Rightarrow> seen_sets result" where
  "validate_connected seen p a = (case seen of (owned, prefixes) \<Rightarrow>
    if is_link_local (network p) then Err InvalidField
    else rbind (prefix_contains p a) (\<lambda>inside.
      if \<not> inside \<or> is_link_local a \<or> set_has owned a \<or> set_has prefixes p then Err InvalidField
      else Ok (set_add owned a, set_add prefixes p)))"

definition validate_port :: "seen_sets \<Rightarrow> nat \<times> RouterPortConfig \<Rightarrow> seen_sets result" where
  "validate_port seen ip = (case (seen, ip) of ((owned, prefixes), (i, port)) \<Rightarrow>
    if unat (rpc_id port) \<noteq> i then Err InvalidField
    else if \<not> is_link_local (rpc_link_local port) \<or> rpc_link_local port = router_bootstrap_address
         \<or> set_has owned (rpc_link_local port) then Err InvalidField
    else let owned = set_add owned (rpc_link_local port) in
      (case (rpc_connected_prefix port, rpc_routed_address port) of
          (None, None) \<Rightarrow> Ok (owned, prefixes)
        | (Some p, Some a) \<Rightarrow> validate_connected (owned, prefixes) p a
        | _ \<Rightarrow> Err InvalidField))"

definition validate_route :: "seen_sets \<Rightarrow> StaticRouteConfig \<Rightarrow> seen_sets result" where
  "validate_route seen route = (case seen of (owned, prefixes) \<Rightarrow>
    if router_port_count \<le> src_egress_port route \<or> set_has prefixes (src_prefix route) then Err InvalidField
    else let prefixes = set_add prefixes (src_prefix route) in
    if (case src_next_hop route of Some n \<Rightarrow> \<not> is_link_local n \<or> n = router_bootstrap_address \<or> set_has owned n | None \<Rightarrow> False)
    then Err InvalidField
    else if prefix_len (src_prefix route) = 64
         \<and> (network (src_prefix route) = router_bootstrap_address \<or> set_has owned (network (src_prefix route)))
    then Err InvalidField
    else Ok (owned, prefixes))"

text \<open>A loop over a list whose body can return early.\<close>

fun fold_r :: "('s \<Rightarrow> 'a \<Rightarrow> 's result) \<Rightarrow> 's \<Rightarrow> 'a list \<Rightarrow> 's result" where
  "fold_r f s [] = Ok s"
| "fold_r f s (x # xs) = rbind (f s x) (\<lambda>s. fold_r f s xs)"

definition startup_validate :: "RouterStartupConfig \<Rightarrow> unit result" where
  "startup_validate c =
    (if length (rsc_ports c) \<noteq> unat router_port_count then Err InvalidField
     else rbind (fold_r validate_port ([], []) (zip [0..<length (rsc_ports c)] (rsc_ports c))) (\<lambda>seen.
       rbind (fold_r validate_route seen (rsc_routes c)) (\<lambda>_. Ok ())))"

section \<open>The forwarding table\<close>

datatype RouterDisposition = Forward RouterPortId GdpPacket | Punt RouterPortId GdpPacket | Drop

datatype FibOrigin = FibBootstrap | FibRouterLocal | FibConnected | FibStatic

record FibEntry =
  fe_prefix :: GdpPrefix
  fe_egress_port :: "RouterPortId option"
  fe_origin :: FibOrigin

record 'p StaticP4Router =
  spr_pipeline :: 'p
  spr_cpu_port :: u16
  spr_startup :: RouterStartupConfig
  spr_fib :: "FibEntry list"

definition program_local_punt :: "'p p4_ops \<Rightarrow> 'p \<Rightarrow> RouterPortId \<Rightarrow> u16 \<Rightarrow> u16 \<Rightarrow> 'p" where
  "program_local_punt ops pl ingress destination cpu =
    p4_add ops pl ''ingress.local_routes'' ''punt'' (to_le 2 ingress @ to_le 2 destination) (to_le 2 cpu)"

definition program_global :: "'p p4_ops \<Rightarrow> 'p \<Rightarrow> GdpPrefix \<Rightarrow> string \<Rightarrow> bytes \<Rightarrow> 'p" where
  "program_global ops pl p action params =
    (let hi = ucast (drop_bit 32 (network p)) :: u32; lo = ucast (network p) :: u32 in
     if 32 < prefix_len p then
       p4_add ops pl ''ingress.global_long_routes'' action (to_le 4 hi @ to_be 4 lo @ [prefix_len p - 32]) params
     else p4_add ops pl ''ingress.global_short_routes'' action (to_be 4 hi @ [prefix_len p]) params)"

record 'p fib_build =
  fb_pipeline :: 'p
  fb_fib :: "FibEntry list"
  fb_programmed :: "(GdpPrefix, unit) btree"

definition host_prefix :: "GdpAddress \<Rightarrow> GdpPrefix result" where
  "host_prefix a = rbind (gdp_prefix_new a 64) (\<lambda>r. case r of Inl _ \<Rightarrow> Err InvalidField | Inr p \<Rightarrow> Ok p)"

definition push_punt :: "'p p4_ops \<Rightarrow> u16 \<Rightarrow> FibOrigin \<Rightarrow> GdpPrefix \<Rightarrow> 'p fib_build \<Rightarrow> 'p fib_build" where
  "push_punt ops cpu origin p b = b\<lparr>fb_pipeline := program_global ops (fb_pipeline b) p ''punt'' (to_le 2 cpu),
     fb_fib := fb_fib b @ [\<lparr>fe_prefix = p, fe_egress_port = None, fe_origin = origin\<rparr>],
     fb_programmed := set_add (fb_programmed b) p\<rparr>"

definition push_forward :: "'p p4_ops \<Rightarrow> RouterPortId \<Rightarrow> FibOrigin \<Rightarrow> GdpPrefix \<Rightarrow> 'p fib_build \<Rightarrow> 'p fib_build result" where
  "push_forward ops port origin p b =
    (if set_has (fb_programmed b) p then Err InvalidField
     else Ok (b\<lparr>fb_pipeline := program_global ops (fb_pipeline b) p ''forward'' (to_le 2 port),
       fb_fib := fb_fib b @ [\<lparr>fe_prefix = p, fe_egress_port = Some port, fe_origin = origin\<rparr>],
       fb_programmed := set_add (fb_programmed b) p\<rparr>))"

definition push_owned :: "'p p4_ops \<Rightarrow> u16 \<Rightarrow> 'p fib_build \<Rightarrow> GdpAddress \<Rightarrow> 'p fib_build result" where
  "push_owned ops cpu b a = rbind (host_prefix a) (\<lambda>p.
    Ok (if set_has (fb_programmed b) p then b else push_punt ops cpu FibRouterLocal p b))"

definition push_local :: "'p p4_ops \<Rightarrow> u16 \<Rightarrow> RouterPortId \<Rightarrow> GdpAddress \<Rightarrow> 'p fib_build \<Rightarrow> 'p fib_build" where
  "push_local ops cpu port a b = b\<lparr>fb_pipeline := program_local_punt ops (fb_pipeline b) port (ucast a) cpu\<rparr>"

definition port_addresses :: "RouterPortConfig \<Rightarrow> GdpAddress list" where
  "port_addresses port = rpc_link_local port # (case rpc_routed_address port of Some a \<Rightarrow> [a] | None \<Rightarrow> [])"

definition push_port_punts :: "'p p4_ops \<Rightarrow> u16 \<Rightarrow> 'p fib_build \<Rightarrow> RouterPortConfig \<Rightarrow> 'p fib_build result" where
  "push_port_punts ops cpu b port =
    rbind (fold_r (push_owned ops cpu) b (port_addresses port)) (\<lambda>b.
    Ok (foldl (\<lambda>b a. push_local ops cpu (rpc_id port) a b) b (port_addresses port)))"

definition push_connected :: "'p p4_ops \<Rightarrow> 'p fib_build \<Rightarrow> RouterPortConfig \<Rightarrow> 'p fib_build result" where
  "push_connected ops b port = (case rpc_connected_prefix port of
      Some p \<Rightarrow> push_forward ops (rpc_id port) FibConnected p b
    | None \<Rightarrow> Ok b)"

definition push_route :: "'p p4_ops \<Rightarrow> 'p fib_build \<Rightarrow> StaticRouteConfig \<Rightarrow> 'p fib_build result" where
  "push_route ops b route = push_forward ops (src_egress_port route) FibStatic (src_prefix route) b"

definition compile_startup_fib :: "'p p4_ops \<Rightarrow> 'p StaticP4Router \<Rightarrow> ('p StaticP4Router, unit) outcome" where
  "compile_startup_fib ops r =
    (let b = \<lparr>fb_pipeline = p4_new ops (router_port_count + 1), fb_fib = [], fb_programmed = []\<rparr>;
         cpu = spr_cpu_port r; ports = rsc_ports (spr_startup r) in
     sbind (lift_r (rbind (host_prefix router_bootstrap_address) (\<lambda>p.
       let b = push_punt ops cpu FibBootstrap p b in
       rbind (fold_r (push_port_punts ops cpu) b ports) (\<lambda>b.
       rbind (fold_r (push_connected ops) b ports) (\<lambda>b.
       fold_r (push_route ops) b (rsc_routes (spr_startup r)))))) r) (\<lambda>b r.
     (Ok (), r\<lparr>spr_pipeline := fb_pipeline b, spr_fib := fb_fib b\<rparr>)))"

definition router_new :: "'p p4_ops \<Rightarrow> RouterStartupConfig \<Rightarrow> 'p StaticP4Router result" where
  "router_new ops startup =
    rbind (startup_validate startup) (\<lambda>_.
      case compile_startup_fib ops \<lparr>spr_pipeline = p4_new ops (router_port_count + 1), spr_cpu_port = router_port_count,
          spr_startup = startup, spr_fib = []\<rparr> of
        (Ok _, r) \<Rightarrow> Ok r | (Err e, r) \<Rightarrow> Err e | (Panic, r) \<Rightarrow> Panic)"

section \<open>Processing a packet\<close>

definition packet_local_prefix :: "GdpPacket \<Rightarrow> u64" where
  "packet_local_prefix pk = (case addresses (pkt_header pk) of AddrGlobal _ _ \<Rightarrow> 0 | AddrLocal _ _ p \<Rightarrow> p)"

definition router_output :: "'p StaticP4Router \<Rightarrow> RouterPortId \<Rightarrow> u64 \<Rightarrow> (bytes \<times> u16) list \<Rightarrow> RouterDisposition result" where
  "router_output r ingress local_prefix outs = (case outs of
      [] \<Rightarrow> Ok Drop
    | [(bs, port)] \<Rightarrow>
        rbind (gdp_packet_decode bs gdp_wire_config_default local_prefix) (\<lambda>packet.
        if port = spr_cpu_port r then Ok (Punt ingress packet)
        else if router_port_count \<le> port \<or> port = ingress then Ok Drop
        else Ok (Forward port packet))
    | _ \<Rightarrow> Err InvalidState)"

definition router_process :: "'p p4_ops \<Rightarrow> 'p StaticP4Router \<Rightarrow> RouterPortId \<Rightarrow> GdpPacket \<Rightarrow> ('p StaticP4Router, RouterDisposition) outcome" where
  "router_process ops r ingress packet =
    (if router_port_count \<le> ingress then (Err InvalidField, r)
     else sbind (lift_r (gdp_packet_encode packet gdp_wire_config_default) r) (\<lambda>bs r.
       case p4_process ops (spr_pipeline r) ingress bs of (outs, pl) \<Rightarrow>
         (router_output r ingress (packet_local_prefix packet) outs, r\<lparr>spr_pipeline := pl\<rparr>)))"

end
