(* ===== verification/Router_P4.thy ===== *)
theory Router_P4
  imports Static_Router
begin

text \<open>
  The forwarding plane of the router: the P4 program src/p4-static-router/p4/router.p4 over the table entries that
  src/src/static_router.rs adds, and the theorem that the two together forward by longest-prefix match over the
  forwarding table. That the generated pipeline runs the P4 program is the hypothesis \<open>runs_router_p4\<close>, stated over
  the operations of the pipeline; the list pipeline at the end satisfies it.
\<close>

section \<open>The P4 program\<close>

record p4_entry =
  te_table :: string
  te_action :: string
  te_key :: bytes
  te_params :: bytes

record egress_metadata =
  eg_port :: u16
  eg_drop :: bool
  eg_transit :: bool
  eg_decided :: bool

definition p4_action :: "string \<Rightarrow> bytes \<Rightarrow> egress_metadata \<Rightarrow> egress_metadata" where
  "p4_action name params eg =
    (if name = ''drop'' then eg\<lparr>eg_drop := True, eg_decided := True, eg_transit := False\<rparr>
     else if name = ''punt'' then eg\<lparr>eg_port := from_le params, eg_decided := True, eg_transit := False\<rparr>
     else if name = ''forward'' then eg\<lparr>eg_port := from_le params, eg_decided := True, eg_transit := True\<rparr>
     else eg)"

text \<open>Longest-prefix match: among the entries that match, one with the longest prefix.\<close>

definition lpm_step :: "(p4_entry \<Rightarrow> nat option) \<Rightarrow> p4_entry option \<Rightarrow> p4_entry \<Rightarrow> p4_entry option" where
  "lpm_step m best e = (case m e of
      None \<Rightarrow> best
    | Some n \<Rightarrow> (case best of
        None \<Rightarrow> Some e
      | Some b \<Rightarrow> if the (m b) < n then Some e else best))"

definition lpm :: "(p4_entry \<Rightarrow> nat option) \<Rightarrow> p4_entry list \<Rightarrow> p4_entry option" where
  "lpm m es = foldl (lpm_step m) None es"

definition agree :: "nat \<Rightarrow> u32 \<Rightarrow> u32 \<Rightarrow> bool" where
  "agree n v w \<longleftrightarrow> drop_bit (32 - n) v = drop_bit (32 - n) w"

definition long_match :: "u32 \<Rightarrow> u32 \<Rightarrow> p4_entry \<Rightarrow> nat option" where
  "long_match hi lo e =
    (let n = unat (te_key e ! 8) in
     if te_table e = ''ingress.global_long_routes'' \<and> from_le (take 4 (te_key e)) = hi
        \<and> agree n (from_be (take 4 (drop 4 (te_key e)))) lo then Some n else None)"

definition short_match :: "u32 \<Rightarrow> p4_entry \<Rightarrow> nat option" where
  "short_match hi e =
    (let n = unat (te_key e ! 4) in
     if te_table e = ''ingress.global_short_routes'' \<and> agree n (from_be (take 4 (te_key e))) hi then Some n else None)"

definition local_match :: "u16 \<Rightarrow> u16 \<Rightarrow> p4_entry \<Rightarrow> bool" where
  "local_match ingress destination e \<longleftrightarrow> te_table e = ''ingress.local_routes''
     \<and> from_le (take 2 (te_key e)) = ingress \<and> from_le (take 2 (drop 2 (te_key e))) = destination"

definition apply_hit :: "p4_entry option \<Rightarrow> string \<Rightarrow> egress_metadata \<Rightarrow> egress_metadata" where
  "apply_hit hit default_action eg = (case hit of
      Some e \<Rightarrow> p4_action (te_action e) (te_params e) eg
    | None \<Rightarrow> p4_action default_action [] eg)"

definition router_ingress :: "p4_entry list \<Rightarrow> u16 \<Rightarrow> bytes \<Rightarrow> egress_metadata" where
  "router_ingress es ingress bs =
    (let eg = \<lparr>eg_port = 0, eg_drop = False, eg_transit = False, eg_decided = False\<rparr>;
         local_form = bit (from_be (take 4 bs) :: u32) 21 in
     if \<not> local_form then
       let hi = from_be (take 4 (drop 4 bs)); lo = from_be (take 4 (drop 8 bs));
           eg = apply_hit (lpm (long_match hi lo) es) ''allow'' eg in
       if \<not> eg_decided eg then apply_hit (lpm (short_match hi) es) ''drop'' eg else eg
     else apply_hit (find (local_match ingress (from_be (take 2 (drop 4 bs)))) es) ''drop'' eg)"

definition router_p4 :: "p4_entry list \<Rightarrow> u16 \<Rightarrow> bytes \<Rightarrow> (bytes \<times> u16) list" where
  "router_p4 es ingress bs =
    (let eg = router_ingress es ingress bs; hop = bs ! 3;
         expired = (eg_transit eg \<and> (hop = 0 \<or> hop = 1)) in
     if eg_drop eg \<or> expired then []
     else [(if eg_transit eg then bs[3 := hop - 1] else bs, eg_port eg)])"

text \<open>The hypothesis on the generated pipeline: after any entries have been added to a new pipeline, it processes
  a packet as the P4 program does, and processing does not change the tables.\<close>

definition p4_fill :: "'p p4_ops \<Rightarrow> 'p \<Rightarrow> p4_entry list \<Rightarrow> 'p" where
  "p4_fill ops = foldl (\<lambda>pl e. p4_add ops pl (te_table e) (te_action e) (te_key e) (te_params e))"

definition runs_router_p4 :: "'p p4_ops \<Rightarrow> bool" where
  "runs_router_p4 ops \<longleftrightarrow> (\<forall>radix es ingress bs. p4_process ops (p4_fill ops (p4_new ops radix) es) ingress bs =
     (router_p4 es ingress bs, p4_fill ops (p4_new ops radix) es))"

definition list_pipeline :: "p4_entry list p4_ops" where
  "list_pipeline = \<lparr>p4_new = (\<lambda>_. []),
     p4_add = (\<lambda>es t a k ps. es @ [\<lparr>te_table = t, te_action = a, te_key = k, te_params = ps\<rparr>]),
     p4_process = (\<lambda>es ingress bs. (router_p4 es ingress bs, es))\<rparr>"

lemma list_pipeline_fill: "p4_fill list_pipeline es es' = es @ es'"
  by (induction es' arbitrary: es) (simp_all add: p4_fill_def list_pipeline_def)

lemma list_pipeline_runs: "runs_router_p4 list_pipeline"
  unfolding runs_router_p4_def list_pipeline_fill by (simp add: list_pipeline_def)

section \<open>The entries of a forwarding table\<close>

definition global_entry :: "GdpPrefix \<Rightarrow> string \<Rightarrow> bytes \<Rightarrow> p4_entry" where
  "global_entry p action params =
    (let hi = ucast (drop_bit 32 (network p)) :: u32; lo = ucast (network p) :: u32 in
     if 32 < prefix_len p then \<lparr>te_table = ''ingress.global_long_routes'', te_action = action,
         te_key = to_le 4 hi @ to_be 4 lo @ [prefix_len p - 32], te_params = params\<rparr>
     else \<lparr>te_table = ''ingress.global_short_routes'', te_action = action, te_key = to_be 4 hi @ [prefix_len p], te_params = params\<rparr>)"

definition fib_entry :: "u16 \<Rightarrow> FibEntry \<Rightarrow> p4_entry" where
  "fib_entry cpu e = (case fe_egress_port e of
      None \<Rightarrow> global_entry (fe_prefix e) ''punt'' (to_le 2 cpu)
    | Some port \<Rightarrow> global_entry (fe_prefix e) ''forward'' (to_le 2 port))"

definition is_global :: "p4_entry \<Rightarrow> bool" where
  "is_global e \<longleftrightarrow> te_table e \<noteq> ''ingress.local_routes''"

text \<open>What the builder keeps: the pipeline holds the entries of the table built so far, in order, next to local
  entries; no prefix occurs twice, every prefix is canonical and every port is one of the router's.\<close>

definition entry_ok :: "FibEntry \<Rightarrow> bool" where
  "entry_ok e \<longleftrightarrow> prefix_wf (fe_prefix e) \<and> (\<forall>p. fe_egress_port e = Some p \<longrightarrow> p < router_port_count)"

definition build_ok :: "'p p4_ops \<Rightarrow> u16 \<Rightarrow> 'p fib_build \<Rightarrow> bool" where
  "build_ok ops cpu b \<longleftrightarrow> bt_inv (fb_programmed b) \<and> distinct (map fe_prefix (fb_fib b)) \<and> list_all entry_ok (fb_fib b) \<and>
    (\<forall>p. set_has (fb_programmed b) p \<longleftrightarrow> p \<in> fe_prefix ` set (fb_fib b)) \<and>
    (\<exists>es. fb_pipeline b = p4_fill ops (p4_new ops (router_port_count + 1)) es \<and> filter is_global es = map (fib_entry cpu) (fb_fib b))"

text \<open>The configuration holds canonical prefixes, as \<open>GdpPrefix::new\<close> makes them.\<close>

definition startup_wf :: "RouterStartupConfig \<Rightarrow> bool" where
  "startup_wf c \<longleftrightarrow> (\<forall>port\<in>set (rsc_ports c). \<forall>p. rpc_connected_prefix port = Some p \<longrightarrow> prefix_wf p) \<and>
    (\<forall>route\<in>set (rsc_routes c). prefix_wf (src_prefix route))"

lemma p4_fill_snoc: "p4_fill ops pl (es @ [e]) = p4_add ops (p4_fill ops pl es) (te_table e) (te_action e) (te_key e) (te_params e)"
  by (simp add: p4_fill_def)

lemma program_global_eq: "program_global ops pl p action params =
  (let e = global_entry p action params in p4_add ops pl (te_table e) (te_action e) (te_key e) (te_params e))"
  by (simp add: program_global_def global_entry_def Let_def)

lemma set_has_simps: "\<not> set_has [] y" "set_has (set_add s x) y \<longleftrightarrow> y = x \<or> set_has s y"
proof -
  have "bt_get (bt_insert s x ()) y = (if y = x then Some () else bt_get s y)"
    by (induction s x "()" rule: bt_insert.induct) (auto simp: bt_get_def)
  then show "set_has (set_add s x) y \<longleftrightarrow> y = x \<or> set_has s y" by (simp add: set_has_def set_add_def)
qed (simp add: set_has_def bt_get_def)

lemma set_add_inv: "bt_inv s \<Longrightarrow> bt_inv (set_add s x)"
  by (simp add: set_add_def bt.inv_ins)

lemma is_global_entry [simp]: "is_global (global_entry p a ps)"
  by (simp add: is_global_def global_entry_def Let_def)

lemma build_ok_push:
  assumes "build_ok ops cpu b" "\<not> set_has (fb_programmed b) p" "entry_ok e"
    and e: "fe_prefix e = p" "fib_entry cpu e = global_entry p a ps"
  shows "build_ok ops cpu (b\<lparr>fb_pipeline := program_global ops (fb_pipeline b) p a ps, fb_fib := fb_fib b @ [e],
     fb_programmed := set_add (fb_programmed b) p\<rparr>)"
proof -
  obtain es where "fb_pipeline b = p4_fill ops (p4_new ops (router_port_count + 1)) es" "filter is_global es = map (fib_entry cpu) (fb_fib b)"
    using assms(1) by (auto simp: build_ok_def)
  then have "\<exists>es. program_global ops (fb_pipeline b) p a ps = p4_fill ops (p4_new ops (router_port_count + 1)) es
      \<and> filter is_global es = map (fib_entry cpu) (fb_fib b @ [e])"
    using e by (intro exI[of _ "es @ [global_entry p a ps]"]) (simp add: p4_fill_snoc program_global_eq Let_def)
  then show ?thesis using assms by (auto simp: build_ok_def set_has_simps(2) set_add_inv)
qed

lemma push_punt_ok:
  "build_ok ops cpu b \<Longrightarrow> \<not> set_has (fb_programmed b) p \<Longrightarrow> prefix_wf p \<Longrightarrow> build_ok ops cpu (push_punt ops cpu origin p b)"
  unfolding push_punt_def by (rule build_ok_push) (simp_all add: fib_entry_def entry_ok_def)

lemma push_forward_ok:
  "build_ok ops cpu b \<Longrightarrow> push_forward ops port origin p b = Ok b' \<Longrightarrow> prefix_wf p \<Longrightarrow> port < router_port_count \<Longrightarrow> build_ok ops cpu b'"
  by (auto simp: push_forward_def fib_entry_def entry_ok_def split: if_splits intro!: build_ok_push)

lemma host_prefix_wf: "host_prefix a = Ok p \<Longrightarrow> prefix_wf p"
proof -
  assume "host_prefix a = Ok p"
  then obtain x where "gdp_prefix_new a 64 = Ok x" "(case x of Inl _ \<Rightarrow> Err InvalidField | Inr p \<Rightarrow> Ok p) = Ok p"
    unfolding host_prefix_def rbind_eq_Ok by blast
  then show ?thesis by (cases x) (auto dest: gdp_prefix_new_wf)
qed

lemma push_owned_ok: "build_ok ops cpu b \<Longrightarrow> push_owned ops cpu b a = Ok b' \<Longrightarrow> build_ok ops cpu b'"
  by (auto simp: push_owned_def result_simps intro: push_punt_ok host_prefix_wf split: if_splits)

lemma push_local_ok:
  assumes "build_ok ops cpu b"
  shows "build_ok ops cpu (push_local ops cpu port a b)"
proof -
  let ?e = "\<lparr>te_table = ''ingress.local_routes'', te_action = ''punt'', te_key = to_le 2 port @ to_le 2 (ucast a :: u16), te_params = to_le 2 cpu\<rparr>"
  obtain es where "fb_pipeline b = p4_fill ops (p4_new ops (router_port_count + 1)) es" "filter is_global es = map (fib_entry cpu) (fb_fib b)"
    using assms by (auto simp: build_ok_def)
  then have "\<exists>es. program_local_punt ops (fb_pipeline b) port (ucast a) cpu = p4_fill ops (p4_new ops (router_port_count + 1)) es
      \<and> filter is_global es = map (fib_entry cpu) (fb_fib b)"
    by (intro exI[of _ "es @ [?e]"]) (simp add: p4_fill_snoc program_local_punt_def is_global_def)
  then show ?thesis using assms by (auto simp: build_ok_def push_local_def)
qed

lemma fold_r_inv:
  "fold_r f s xs = Ok t \<Longrightarrow> I s \<Longrightarrow> (\<And>s x t. x \<in> set xs \<Longrightarrow> I s \<Longrightarrow> f s x = Ok t \<Longrightarrow> I t) \<Longrightarrow> I t"
proof (induction xs arbitrary: s)
  case (Cons x xs)
  then obtain u where "f s x = Ok u" "fold_r f u xs = Ok t" by (auto simp: result_simps)
  then show ?case using Cons.IH[of u] Cons.prems(2,3) by auto
qed simp

lemma foldl_inv: "(\<And>s x. I s \<Longrightarrow> I (f s x)) \<Longrightarrow> I s \<Longrightarrow> I (foldl f s xs)"
  by (induction xs arbitrary: s) auto

lemma push_port_ok:
  assumes "build_ok ops cpu b" "push_port_punts ops cpu b port = Ok b'"
  shows "build_ok ops cpu b'"
proof -
  obtain b1 where b1: "fold_r (push_owned ops cpu) b (port_addresses port) = Ok b1"
    "b' = foldl (\<lambda>b a. push_local ops cpu (rpc_id port) a b) b1 (port_addresses port)"
    using assms(2) by (auto simp: push_port_punts_def result_simps)
  have "build_ok ops cpu b1" using b1(1) assms(1) by (rule fold_r_inv) (rule push_owned_ok)
  then show ?thesis unfolding b1(2) by (intro foldl_inv[where I = "build_ok ops cpu"] push_local_ok)
qed

text \<open>Validation has checked the ports: identifiers are positions, and routes leave by a port of the router.\<close>

lemma fold_r_each: "fold_r f s xs = Ok t \<Longrightarrow> x \<in> set xs \<Longrightarrow> \<exists>s t. f s x = Ok t"
  by (induction xs arbitrary: s) (auto simp: result_simps)

lemma validated_ports:
  assumes "startup_validate c = Ok ()"
  shows "port \<in> set (rsc_ports c) \<Longrightarrow> rpc_id port < router_port_count"
    and "route \<in> set (rsc_routes c) \<Longrightarrow> src_egress_port route < router_port_count"
proof -
  obtain seen seen' where n: "length (rsc_ports c) = unat router_port_count"
    and v: "fold_r validate_port ([], []) (zip [0..<length (rsc_ports c)] (rsc_ports c)) = Ok seen"
    "fold_r validate_route seen (rsc_routes c) = Ok seen'"
    using assms by (auto simp: startup_validate_def result_simps split: if_splits)
  show "rpc_id port < router_port_count" if port: "port \<in> set (rsc_ports c)"
  proof -
    obtain i where i: "i < length (rsc_ports c)" "rsc_ports c ! i = port" using port by (auto simp: in_set_conv_nth)
    then have "(i, port) \<in> set (zip [0..<length (rsc_ports c)] (rsc_ports c))"
      unfolding set_zip by (intro CollectI exI[of _ i]) simp
    from fold_r_each[OF v(1) this] have "unat (rpc_id port) = i"
      by (auto simp: validate_port_def split: if_splits prod.splits)
    then show ?thesis using i n by (simp add: word_less_nat_alt)
  qed
  show "src_egress_port route < router_port_count" if "route \<in> set (rsc_routes c)"
    using fold_r_each[OF v(2) that] by (auto simp: validate_route_def not_le split: if_splits prod.splits)
qed

lemma router_new_build:
  assumes "router_new ops startup = Ok r" "startup_wf startup"
  shows "spr_cpu_port r = router_port_count \<and> distinct (map fe_prefix (spr_fib r)) \<and> list_all entry_ok (spr_fib r) \<and>
    (\<exists>es. spr_pipeline r = p4_fill ops (p4_new ops (router_port_count + 1)) es \<and>
          filter is_global es = map (fib_entry router_port_count) (spr_fib r))"
proof -
  let ?b = "\<lparr>fb_pipeline = p4_new ops (router_port_count + 1), fb_fib = [], fb_programmed = []\<rparr>"
  let ?c = router_port_count
  have v: "startup_validate startup = Ok ()" using assms(1) by (auto simp: router_new_def result_simps)
  obtain p b1 b2 b where p: "host_prefix router_bootstrap_address = Ok p"
    and c: "fold_r (push_port_punts ops ?c) (push_punt ops ?c FibBootstrap p ?b) (rsc_ports startup) = Ok b1"
    "fold_r (push_connected ops) b1 (rsc_ports startup) = Ok b2" "fold_r (push_route ops) b2 (rsc_routes startup) = Ok b"
    "r = \<lparr>spr_pipeline = fb_pipeline b, spr_cpu_port = ?c, spr_startup = startup, spr_fib = fb_fib b\<rparr>"
    using assms(1) by (auto simp: router_new_def compile_startup_fib_def Let_def lift_r_def result_simps split: prod.splits result.splits)
  have "build_ok ops ?c ?b"
    by (auto simp: build_ok_def set_has_def bt_get_def p4_fill_def intro: exI[of _ "[]"])
  then have "build_ok ops ?c (push_punt ops ?c FibBootstrap p ?b)"
    by (rule push_punt_ok) (simp_all add: set_has_def bt_get_def host_prefix_wf[OF p])
  with c(1) have "build_ok ops ?c b1" by (rule fold_r_inv) (rule push_port_ok)
  moreover have "build_ok ops ?c t" if "port \<in> set (rsc_ports startup)" "build_ok ops ?c s" "push_connected ops s port = Ok t" for port s t
    using that assms(2) validated_ports(1)[OF v that(1)]
    by (auto simp: push_connected_def startup_wf_def split: option.splits intro: push_forward_ok)
  ultimately have "build_ok ops ?c b2" by (rule fold_r_inv[OF c(2)])
  moreover have "build_ok ops ?c t" if "route \<in> set (rsc_routes startup)" "build_ok ops ?c s" "push_route ops s route = Ok t" for route s t
    using that assms(2) validated_ports(2)[OF v that(1)] by (auto simp: push_route_def startup_wf_def intro: push_forward_ok)
  ultimately have "build_ok ops ?c b" by (rule fold_r_inv[OF c(3)])
  then show ?thesis using c(4) by (auto simp: build_ok_def)
qed

section \<open>Longest-prefix match over the table\<close>

lemma lpm_spec:
  "(case lpm m es of
      None \<Rightarrow> \<forall>e\<in>set es. m e = None
    | Some x \<Rightarrow> x \<in> set es \<and> (\<exists>n. m x = Some n \<and> (\<forall>e\<in>set es. \<forall>k. m e = Some k \<longrightarrow> k \<le> n)))"
proof (induction es rule: rev_induct)
  case (snoc e es)
  have step: "lpm m (es @ [e]) = lpm_step m (lpm m es) e" by (simp add: lpm_def)
  show ?case
  proof (cases "lpm m es")
    case None
    then show ?thesis using snoc unfolding step by (auto simp: lpm_step_def split: option.splits)
  next
    case (Some x)
    then obtain n where x: "x \<in> set es" "m x = Some n" "\<forall>e\<in>set es. \<forall>k. m e = Some k \<longrightarrow> k \<le> n" using snoc by auto
    show ?thesis
    proof (cases "\<exists>k. m e = Some k \<and> n < k")
      case True
      then have "lpm m (es @ [e]) = Some e" using Some x(2) by (auto simp: step lpm_step_def)
      then show ?thesis using True x(3) by auto (meson le_trans less_imp_le)
    next
      case False
      then have "lpm m (es @ [e]) = Some x" using Some x(2) by (auto simp: step lpm_step_def split: option.splits)
      then show ?thesis using False x by (auto simp: not_less)
    qed
  qed
qed (simp add: lpm_def)

lemma lpm_filter: "(\<And>e. \<not> P e \<Longrightarrow> m e = None) \<Longrightarrow> lpm m (filter P es) = lpm m es"
proof -
  assume none: "\<And>e. \<not> P e \<Longrightarrow> m e = None"
  have "foldl (lpm_step m) b (filter P es) = foldl (lpm_step m) b es" for b
    by (induction es arbitrary: b) (auto simp: lpm_step_def none)
  then show ?thesis by (simp add: lpm_def)
qed

definition covers :: "GdpPrefix \<Rightarrow> GdpAddress \<Rightarrow> bool" where
  "covers p a \<longleftrightarrow> prefix_contains p a = Ok True"

lemma covers_bits: "prefix_wf p \<Longrightarrow> covers p a \<longleftrightarrow>
  (\<forall>k. 64 - unat (prefix_len p) \<le> k \<and> k < 64 \<longrightarrow> (bit a k \<longleftrightarrow> bit (network p) k))"
  by (simp add: covers_def prefix_contains_eq)

text \<open>The two halves of an address, and what agreement of their high bits means for the address.\<close>

definition hi32 :: "u64 \<Rightarrow> u32" where
  "hi32 a = ucast (drop_bit 32 a)"

definition lo32 :: "u64 \<Rightarrow> u32" where
  "lo32 a = ucast a"

lemma agree_bits: "n \<le> 32 \<Longrightarrow> agree n v w \<longleftrightarrow> (\<forall>k. 32 - n \<le> k \<and> k < 32 \<longrightarrow> (bit v k \<longleftrightarrow> bit w k))"
proof
  assume n: "n \<le> 32" and a: "agree n v w"
  show "\<forall>k. 32 - n \<le> k \<and> k < 32 \<longrightarrow> (bit v k \<longleftrightarrow> bit w k)"
  proof (intro allI impI)
    fix k
    assume k: "32 - n \<le> k \<and> k < 32"
    have "bit (drop_bit (32 - n) v) (k - (32 - n)) \<longleftrightarrow> bit (drop_bit (32 - n) w) (k - (32 - n))"
      using a by (simp add: agree_def)
    then show "bit v k \<longleftrightarrow> bit w k" using k by (simp add: bit_drop_bit_eq)
  qed
next
  assume "n \<le> 32" "\<forall>k. 32 - n \<le> k \<and> k < 32 \<longrightarrow> (bit v k \<longleftrightarrow> bit w k)"
  then have "bit v (32 - n + i) \<longleftrightarrow> bit w (32 - n + i)" for i
    by (cases "32 - n + i < 32") (auto simp: bit_high)
  then show "agree n v w" unfolding agree_def by (intro bit_word_eqI) (simp add: bit_drop_bit_eq)
qed

lemma hi_eq_bits: "hi32 a = hi32 b \<longleftrightarrow> (\<forall>k. 32 \<le> k \<and> k < 64 \<longrightarrow> (bit a k \<longleftrightarrow> bit b k))"
proof
  assume h: "hi32 a = hi32 b"
  show "\<forall>k. 32 \<le> k \<and> k < 64 \<longrightarrow> (bit a k \<longleftrightarrow> bit b k)"
  proof (intro allI impI)
    fix k :: nat
    assume k: "32 \<le> k \<and> k < 64"
    have "bit (hi32 a) (k - 32) \<longleftrightarrow> bit (hi32 b) (k - 32)" using h by simp
    then show "bit a k \<longleftrightarrow> bit b k" using k by (auto simp: hi32_def bit_simps)
  qed
qed (auto intro!: bit_word_eqI simp: hi32_def bit_simps)

lemma covers_long:
  assumes "prefix_wf p" "32 < prefix_len p"
  shows "covers p a \<longleftrightarrow> hi32 (network p) = hi32 a \<and> agree (unat (prefix_len p) - 32) (lo32 (network p)) (lo32 a)"
proof -
  have n: "32 < unat (prefix_len p)" "unat (prefix_len p) \<le> 64"
    using assms by (auto simp: word_less_nat_alt word_le_nat_alt prefix_wf_def)
  then have "agree (unat (prefix_len p) - 32) (lo32 (network p)) (lo32 a) \<longleftrightarrow>
      (\<forall>k. 64 - unat (prefix_len p) \<le> k \<and> k < 32 \<longrightarrow> (bit (network p) k \<longleftrightarrow> bit a k))"
    by (subst agree_bits) (auto simp: lo32_def bit_simps)
  then show ?thesis unfolding covers_bits[OF assms(1)] hi_eq_bits using n
    by (auto simp: not_le) (metis linorder_not_le)+
qed

lemma covers_short:
  assumes "prefix_wf p" "\<not> 32 < prefix_len p"
  shows "covers p a \<longleftrightarrow> agree (unat (prefix_len p)) (hi32 (network p)) (hi32 a)"
proof -
  have n: "unat (prefix_len p) \<le> 32" using assms by (auto simp: word_less_nat_alt)
  have "bit (hi32 x) k \<longleftrightarrow> bit x (32 + k)" if "k < 32" for x k using that by (simp add: hi32_def bit_simps)
  then have hi: "bit (hi32 x) (k - 32) \<longleftrightarrow> bit x k" if "32 \<le> k" "k < 64" for x k using that by simp
  have "agree (unat (prefix_len p)) (hi32 (network p)) (hi32 a) \<longleftrightarrow>
      (\<forall>k. 32 \<le> k \<longrightarrow> 32 - unat (prefix_len p) \<le> k - 32 \<and> k - 32 < 32 \<longrightarrow> (bit (hi32 (network p)) (k - 32) \<longleftrightarrow> bit (hi32 a) (k - 32)))"
    unfolding agree_bits[OF n] by (metis diff_add_inverse le_add1)
  also have "\<dots> \<longleftrightarrow> (\<forall>k. 32 \<le> k \<longrightarrow> 64 - unat (prefix_len p) \<le> k \<and> k < 64 \<longrightarrow> (bit (network p) k \<longleftrightarrow> bit a k))"
    using hi n by (intro all_cong1 imp_cong refl) auto
  finally show ?thesis unfolding covers_bits[OF assms(1)] using n by auto
qed

lemma length_to_le [simp]: "length (to_le n x) = n"
  by (simp add: to_le_def)

lemma take_to_be [simp]: "take n (to_be n x @ ys) = to_be n x" "drop n (to_be n x @ ys) = ys"
  "take n (to_le n x @ ys) = to_le n x" "drop n (to_le n x @ ys) = ys"
  by (simp_all add: to_le_def)

lemma from_le_to_le [simp]: "LENGTH('a) \<le> 8 * n \<Longrightarrow> from_le (to_le n w) = w" for w :: "'a::len word"
  by (simp add: from_le_def to_le_def)

lemma nth_after: "length xs = n \<Longrightarrow> (xs @ [y]) ! n = y"
  by auto

lemma long_match_entry:
  assumes "prefix_wf p"
  shows "long_match (hi32 a) (lo32 a) (global_entry p action params) =
    (if 32 < prefix_len p \<and> covers p a then Some (unat (prefix_len p) - 32) else None)"
proof (cases "32 < prefix_len p")
  case True
  let ?k = "to_le 4 (hi32 (network p)) @ to_be 4 (lo32 (network p)) @ [prefix_len p - 32]"
  have e: "te_table (global_entry p action params) = ''ingress.global_long_routes''" "te_key (global_entry p action params) = ?k"
    using True by (simp_all add: global_entry_def Let_def hi32_def lo32_def)
  have "?k ! 8 = prefix_len p - 32"
    using nth_after[of "to_le 4 (hi32 (network p)) @ to_be 4 (lo32 (network p))" 8] by (simp add: to_le_def)
  moreover have "unat (prefix_len p - 32) = unat (prefix_len p) - 32" using True by (simp add: unat_sub less_imp_le)
  moreover have "take 4 ?k = to_le 4 (hi32 (network p))" "take 4 (drop 4 ?k) = to_be 4 (lo32 (network p))" by simp_all
  ultimately show ?thesis using True covers_long[OF assms True, of a] by (simp add: long_match_def Let_def e)
qed (simp add: long_match_def global_entry_def Let_def)

lemma short_match_entry:
  assumes "prefix_wf p"
  shows "short_match (hi32 a) (global_entry p action params) =
    (if \<not> 32 < prefix_len p \<and> covers p a then Some (unat (prefix_len p)) else None)"
proof (cases "32 < prefix_len p")
  case False
  let ?k = "to_be 4 (hi32 (network p)) @ [prefix_len p]"
  have e: "te_table (global_entry p action params) = ''ingress.global_short_routes''" "te_key (global_entry p action params) = ?k"
    using False by (simp_all add: global_entry_def Let_def hi32_def)
  have "?k ! 4 = prefix_len p" by (rule nth_after) simp
  then show ?thesis using False covers_short[OF assms False, of a] by (simp add: short_match_def Let_def e del: append.simps to_be.simps)
qed (simp add: short_match_def global_entry_def Let_def)

text \<open>A hit: an entry whose prefix covers the destination, and no other covering prefix is longer.\<close>

definition fib_hit :: "FibEntry list \<Rightarrow> GdpAddress \<Rightarrow> FibEntry \<Rightarrow> bool" where
  "fib_hit fib d e \<longleftrightarrow> e \<in> set fib \<and> covers (fe_prefix e) d \<and>
    (\<forall>e'\<in>set fib. covers (fe_prefix e') d \<longrightarrow> prefix_len (fe_prefix e') \<le> prefix_len (fe_prefix e))"

lemma covers_unique:
  assumes "prefix_wf p" "prefix_wf q" "covers p a" "covers q a" "prefix_len p = prefix_len q"
  shows "p = q"
proof -
  have "bit (network p) k \<longleftrightarrow> bit (network q) k" for k
  proof (cases "k < 64 - unat (prefix_len p)")
    case True
    then show ?thesis using assms(1,2,5) by (simp add: prefix_wf_def)
  next
    case False
    then show ?thesis using assms(3,4,5) covers_bits[OF assms(1)] covers_bits[OF assms(2)]
      by (cases "k < 64") (auto simp: bit_high not_less)
  qed
  then show ?thesis using assms(5) by (intro GdpPrefix.equality) (auto intro: bit_eqI)
qed

lemma fib_hit_unique:
  assumes "distinct (map fe_prefix fib)" "list_all entry_ok fib" "fib_hit fib d e" "fib_hit fib d e'"
  shows "e = e'"
proof -
  have "prefix_wf (fe_prefix e)" "prefix_wf (fe_prefix e')" "e \<in> set fib" "e' \<in> set fib"
    using assms(2-) by (auto simp: fib_hit_def list_all_iff entry_ok_def)
  moreover have "prefix_len (fe_prefix e) = prefix_len (fe_prefix e')" using assms(3,4) by (auto simp: fib_hit_def intro: order.antisym)
  ultimately have "fe_prefix e = fe_prefix e'" using assms(3,4) covers_unique by (auto simp: fib_hit_def)
  then show ?thesis using assms(1) \<open>e \<in> set fib\<close> \<open>e' \<in> set fib\<close> by (metis distinct_map inj_onD)
qed

lemma fib_entry_match:
  assumes "entry_ok e"
  shows "long_match (hi32 d) (lo32 d) (fib_entry cpu e) =
      (if 32 < prefix_len (fe_prefix e) \<and> covers (fe_prefix e) d then Some (unat (prefix_len (fe_prefix e)) - 32) else None)"
    "short_match (hi32 d) (fib_entry cpu e) =
      (if \<not> 32 < prefix_len (fe_prefix e) \<and> covers (fe_prefix e) d then Some (unat (prefix_len (fe_prefix e))) else None)"
  using assms by (simp_all add: fib_entry_def entry_ok_def long_match_entry short_match_entry split: option.splits)

text \<open>The two tables in sequence find the hit.\<close>

lemma table_lookup:
  fixes d :: GdpAddress
  assumes ok: "list_all entry_ok fib" and es: "filter is_global es = map (fib_entry cpu) fib"
  defines "long \<equiv> lpm (long_match (hi32 d) (lo32 d)) es" and "short \<equiv> lpm (short_match (hi32 d)) es"
  shows "(\<exists>e. fib_hit fib d e \<and> (long = Some (fib_entry cpu e) \<or> long = None \<and> short = Some (fib_entry cpu e)))
    \<or> (\<nexists>e. fib_hit fib d e) \<and> long = None \<and> short = None"
proof -
  have none: "\<not> is_global e \<Longrightarrow> long_match (hi32 d) (lo32 d) e = None" "\<not> is_global e \<Longrightarrow> short_match (hi32 d) e = None" for e
    by (simp_all add: is_global_def long_match_def short_match_def Let_def)
  have L: "long = lpm (long_match (hi32 d) (lo32 d)) (map (fib_entry cpu) fib)"
    and S: "short = lpm (short_match (hi32 d)) (map (fib_entry cpu) fib)"
    unfolding long_def short_def es[symmetric] by (simp_all add: lpm_filter none)
  have m: "e \<in> set fib \<Longrightarrow> entry_ok e" for e using ok by (simp add: list_all_iff)
  note match = fib_entry_match[OF m]
  show ?thesis
  proof (cases long)
    case (Some x)
    then obtain e where e: "e \<in> set fib" "x = fib_entry cpu e" "32 < prefix_len (fe_prefix e)" "covers (fe_prefix e) d"
      "\<forall>e'\<in>set fib. 32 < prefix_len (fe_prefix e') \<longrightarrow> covers (fe_prefix e') d \<longrightarrow>
         unat (prefix_len (fe_prefix e')) - 32 \<le> unat (prefix_len (fe_prefix e)) - 32"
      using lpm_spec[where m = "long_match (hi32 d) (lo32 d)" and es = "map (fib_entry cpu) fib"] match
      unfolding L by (auto split: if_splits)
    have "prefix_len (fe_prefix e') \<le> prefix_len (fe_prefix e)" if "e' \<in> set fib" "covers (fe_prefix e') d" for e'
      using e(3,5) that by (cases "32 < prefix_len (fe_prefix e')") (auto simp: word_less_nat_alt word_le_nat_alt)
    then show ?thesis using e Some by (auto simp: fib_hit_def)
  next
    case None
    then have nl: "\<forall>e\<in>set fib. covers (fe_prefix e) d \<longrightarrow> \<not> 32 < prefix_len (fe_prefix e)"
      using lpm_spec[where m = "long_match (hi32 d) (lo32 d)" and es = "map (fib_entry cpu) fib"] match
      unfolding L by (auto split: if_splits)
    show ?thesis
    proof (cases short)
      case (Some x)
      then obtain e where e: "e \<in> set fib" "x = fib_entry cpu e" "covers (fe_prefix e) d"
        "\<forall>e'\<in>set fib. covers (fe_prefix e') d \<longrightarrow> 32 < prefix_len (fe_prefix e') \<or>
           unat (prefix_len (fe_prefix e')) \<le> unat (prefix_len (fe_prefix e))"
        using lpm_spec[where m = "short_match (hi32 d)" and es = "map (fib_entry cpu) fib"] match
        unfolding S by (auto split: if_splits)
      then have "fib_hit fib d e" using nl by (auto simp: fib_hit_def word_le_nat_alt)
      then show ?thesis using e Some None by auto
    next
      case none: None
      then have "\<forall>e\<in>set fib. \<not> covers (fe_prefix e) d"
        using lpm_spec[where m = "short_match (hi32 d)" and es = "map (fib_entry cpu) fib"] match nl
        unfolding S by (auto split: if_splits)
      then show ?thesis using none None by (auto simp: fib_hit_def)
    qed
  qed
qed

section \<open>Packets through the forwarding plane\<close>

lemma to_be_8_split: "to_be 8 a = to_be 4 (hi32 a) @ to_be 4 (lo32 a)" for a :: u64
  by (rule nth_equalityI)
    (auto simp: nth_append nth_to_be hi32_def lo32_def less_Suc_eq_0_disj eval_nat_numeral intro!: bit_word_eqI simp: bit_simps)

lemma default_global_form: "\<not> form_bit gdp_wire_config_default FormGlobal"
  by (simp add: gdp_wire_config_default_def)

lemma word1_form:
  "addresses h = AddrGlobal d s \<Longrightarrow> gdp_header_wf h \<Longrightarrow> \<not> bit (gdp_word1 h gdp_wire_config_default c) 21"
proof -
  have "\<not> bit x 13" "\<not> bit x 21" for x :: u8 using bit_imp_le_length[of x 13] bit_imp_le_length[of x 21] by auto
  then show "addresses h = AddrGlobal d s \<Longrightarrow> gdp_header_wf h \<Longrightarrow> \<not> bit (gdp_word1 h gdp_wire_config_default c) 21"
    by (auto simp: gdp_word1_def gdp_wire_config_default_def bit_simps bit_size_class)
qed

lemma global_packet_bytes:
  fixes payload :: bytes
  assumes "gdp_header_wf h" "addresses h = AddrGlobal d s"
  defines "bs \<equiv> gdp_header_bytes h gdp_wire_config_default @ payload"
  shows "\<not> bit (from_be (take 4 bs) :: u32) 21" "from_be (take 4 (drop 4 bs)) = hi32 d" "from_be (take 4 (drop 8 bs)) = lo32 d"
    "bs ! 3 = hop_limit h"
proof -
  let ?w = "gdp_word1 h gdp_wire_config_default (gdp_true_crc h gdp_wire_config_default)"
  have bs: "bs = to_be 4 ?w @ to_be 4 (hi32 d) @ to_be 4 (lo32 d) @ to_be 8 s @ payload"
    using assms(2) by (simp add: bs_def gdp_header_bytes_def to_be_8_split del: to_be.simps)
  show "\<not> bit (from_be (take 4 bs) :: u32) 21" using word1_form[OF assms(2,1)] by (simp add: bs del: to_be.simps)
  show "from_be (take 4 (drop 4 bs)) = hi32 d" by (simp add: bs del: to_be.simps)
  have "drop 8 bs = drop 4 (drop 4 bs)" by simp
  also have "\<dots> = to_be 4 (lo32 d) @ to_be 8 s @ payload" unfolding bs by (simp only: take_to_be)
  finally show "from_be (take 4 (drop 8 bs)) = lo32 d" by (simp del: to_be.simps)
  show "bs ! 3 = hop_limit h"
    using header_bytes_hop_byte[OF assms(2)] by (simp add: bs_def nth_append length_gdp_header_bytes header_len_def assms(2))
qed

definition with_hop :: "GdpPacket \<Rightarrow> u8 \<Rightarrow> GdpPacket" where
  "with_hop pk n = pk\<lparr>pkt_header := (pkt_header pk)\<lparr>hop_limit := n\<rparr>\<rparr>"

lemma hop_rewrite:
  assumes "addresses h = AddrGlobal d s"
  shows "(gdp_header_bytes h cfg @ payload)[3 := n] = gdp_header_bytes (h\<lparr>hop_limit := n\<rparr>) cfg @ payload"
  using header_bytes_hop[where h = h and n = n and cfg = cfg] word1_hop_byte[of "h\<lparr>hop_limit := n\<rparr>" d s cfg] assms
  by (simp add: list_update_append length_gdp_header_bytes header_len_def)

text \<open>The decision for a hit: routers' own addresses go to the processor, transit packets leave by the port of the
  entry with a decremented hop limit, unless they would go back where they came from or their hop limit is used up.\<close>

definition decide :: "RouterPortId \<Rightarrow> GdpPacket \<Rightarrow> FibEntry \<Rightarrow> RouterDisposition" where
  "decide ingress pk e = (case fe_egress_port e of
      None \<Rightarrow> Punt ingress pk
    | Some port \<Rightarrow> if hop_limit (pkt_header pk) \<le> 1 \<or> port = ingress then Drop
        else Forward port (with_hop pk (hop_limit (pkt_header pk) - 1)))"

lemma fib_entry_action: "apply_hit (Some (fib_entry cpu e)) a eg = (case fe_egress_port e of
    None \<Rightarrow> eg\<lparr>eg_port := cpu, eg_decided := True, eg_transit := False\<rparr>
  | Some port \<Rightarrow> eg\<lparr>eg_port := port, eg_decided := True, eg_transit := True\<rparr>)"
  by (simp add: apply_hit_def fib_entry_def global_entry_def Let_def p4_action_def split: option.splits)

lemma ingress_of_global:
  assumes ok: "list_all entry_ok fib" and es: "filter is_global es = map (fib_entry cpu) fib"
    and bs: "\<not> bit (from_be (take 4 bs) :: u32) 21" "from_be (take 4 (drop 4 bs)) = hi32 d" "from_be (take 4 (drop 8 bs)) = lo32 d"
  shows "(\<exists>e. fib_hit fib d e \<and> router_ingress es ingress bs = (case fe_egress_port e of
      None \<Rightarrow> \<lparr>eg_port = cpu, eg_drop = False, eg_transit = False, eg_decided = True\<rparr>
    | Some port \<Rightarrow> \<lparr>eg_port = port, eg_drop = False, eg_transit = True, eg_decided = True\<rparr>))
   \<or> (\<nexists>e. fib_hit fib d e) \<and> eg_drop (router_ingress es ingress bs)"
proof -
  have miss: "apply_hit None ''allow'' eg = eg" for eg by (simp add: apply_hit_def p4_action_def)
  show ?thesis using table_lookup[OF ok es, of d] bs
    by (elim disjE exE conjE) (auto simp: router_ingress_def Let_def fib_entry_action miss split: option.splits,
      auto simp: apply_hit_def p4_action_def)
qed

lemma router_process_global:
  assumes "runs_router_p4 ops" "router_new ops startup = Ok r" "startup_wf startup"
    and pk: "gdp_packet_wf pk" "addresses (pkt_header pk) = AddrGlobal d s" and ingress: "ingress < router_port_count"
  shows "(\<exists>e. fib_hit (spr_fib r) d e \<and> fst (router_process ops r ingress pk) = Ok (decide ingress pk e))
   \<or> (\<nexists>e. fib_hit (spr_fib r) d e) \<and> fst (router_process ops r ingress pk) = Ok Drop"
proof -
  let ?h = "pkt_header pk" and ?cfg = gdp_wire_config_default and ?c = router_port_count
  let ?bs = "gdp_header_bytes ?h ?cfg @ pkt_payload pk"
  obtain es where r: "spr_cpu_port r = ?c" "list_all entry_ok (spr_fib r)"
    "spr_pipeline r = p4_fill ops (p4_new ops (?c + 1)) es" "filter is_global es = map (fib_entry ?c) (spr_fib r)"
    using router_new_build[OF assms(2,3)] by blast
  have wf: "gdp_header_wf ?h" using pk(1) by (simp add: gdp_packet_wf_def)
  note B = global_packet_bytes[OF wf pk(2), where payload = "pkt_payload pk"]
  have proc: "fst (router_process ops r ingress pk) = router_output r ingress 0 (router_p4 es ingress ?bs)"
    using assms(1) ingress r(3) pk(2)
    by (simp add: router_process_def not_le[symmetric] gdp_packet_encode_eq[OF pk(1)] runs_router_p4_def packet_local_prefix_def)
  have dec: "gdp_packet_decode ?bs ?cfg 0 = Ok pk" using pk by (intro gdp_packet_decode_eq) (simp_all add: prefix_matches_def)
  have hop: "gdp_packet_decode (?bs[3 := n]) ?cfg 0 = Ok (with_hop pk n)" for n
  proof -
    have "gdp_packet_wf (with_hop pk n)" "prefix_matches (pkt_header (with_hop pk n)) 0"
      using pk by (simp_all add: gdp_packet_wf_def gdp_header_wf_def with_hop_def prefix_matches_def)
    from gdp_packet_decode_eq[OF this] show ?thesis using hop_rewrite[OF pk(2)] by (simp add: with_hop_def)
  qed
  have small: "x = 0 \<or> x = 1 \<longleftrightarrow> x \<le> 1" for x :: u8 by (auto simp: word_le_nat_alt word_unat_eq_iff)
  consider (hit) e where "fib_hit (spr_fib r) d e" "router_ingress es ingress ?bs = (case fe_egress_port e of
      None \<Rightarrow> \<lparr>eg_port = ?c, eg_drop = False, eg_transit = False, eg_decided = True\<rparr>
    | Some port \<Rightarrow> \<lparr>eg_port = port, eg_drop = False, eg_transit = True, eg_decided = True\<rparr>)"
    | (miss) "\<nexists>e. fib_hit (spr_fib r) d e" "eg_drop (router_ingress es ingress ?bs)"
    using ingress_of_global[OF r(2,4) B(1-3), of ingress] by blast
  then show ?thesis
  proof cases
    case hit
    then have "p < ?c" if "fe_egress_port e = Some p" for p
      using r(2) that by (auto simp: fib_hit_def list_all_iff entry_ok_def)
    then have "fst (router_process ops r ingress pk) = Ok (decide ingress pk e)"
      using hit(2) r(1) dec hop small[of "hop_limit ?h"] unfolding proc router_p4_def
      by (auto simp: decide_def router_output_def B(4) Let_def not_le split: option.splits)
    then show ?thesis using hit(1) by blast
  next
    case miss
    then show ?thesis unfolding proc by (simp add: router_p4_def Let_def router_output_def)
  qed
qed

text \<open>C12. The router forwards by longest-prefix match: a globally addressed packet is handled as the entry of the
  forwarding table with the longest prefix that covers its destination says, and dropped when there is none. This
  is for any pipeline that runs the P4 program.\<close>

theorem router_forwards_by_longest_prefix:
  assumes "runs_router_p4 ops" "router_new ops startup = Ok r" "startup_wf startup"
    and "gdp_packet_wf pk" "addresses (pkt_header pk) = AddrGlobal d s" "ingress < router_port_count"
  shows "(\<forall>e. fib_hit (spr_fib r) d e \<longrightarrow> fst (router_process ops r ingress pk) = Ok (decide ingress pk e)) \<and>
    ((\<nexists>e. fib_hit (spr_fib r) d e) \<longrightarrow> fst (router_process ops r ingress pk) = Ok Drop)"
  using router_process_global[OF assms] router_new_build[OF assms(2,3)] fib_hit_unique by metis

definition sample_startup :: RouterStartupConfig where
  "sample_startup = \<lparr>rsc_ports = [port_config_new 0 0xfe80000000000001,
     with_connected_network (port_config_new 1 0xfe80000000000002) \<lparr>network = 0x1122000000000000, prefix_len = 16\<rparr> 0x1122000000000001],
     rsc_routes = [static_route_via default_route 0 0xfe80000000000009]\<rparr>"

definition sample_packet :: GdpPacket where
  "sample_packet = \<lparr>pkt_header = gdp_header_global Gts Tiny3 7 0x99 0x1122000000000077, pkt_payload = [1, 2, 3]\<rparr>"

definition sample_fib :: "FibEntry list" where
  "sample_fib = [\<lparr>fe_prefix = \<lparr>network = 0xfe80000000000000, prefix_len = 64\<rparr>, fe_egress_port = None, fe_origin = FibBootstrap\<rparr>,
     \<lparr>fe_prefix = \<lparr>network = 0xfe80000000000001, prefix_len = 64\<rparr>, fe_egress_port = None, fe_origin = FibRouterLocal\<rparr>,
     \<lparr>fe_prefix = \<lparr>network = 0xfe80000000000002, prefix_len = 64\<rparr>, fe_egress_port = None, fe_origin = FibRouterLocal\<rparr>,
     \<lparr>fe_prefix = \<lparr>network = 0x1122000000000001, prefix_len = 64\<rparr>, fe_egress_port = None, fe_origin = FibRouterLocal\<rparr>,
     \<lparr>fe_prefix = \<lparr>network = 0x1122000000000000, prefix_len = 16\<rparr>, fe_egress_port = Some 1, fe_origin = FibConnected\<rparr>,
     \<lparr>fe_prefix = default_route, fe_egress_port = Some 0, fe_origin = FibStatic\<rparr>]"

lemma sample_startup_valid: "startup_validate sample_startup = Ok ()"
  by code_simp

lemma sample_host_prefixes:
  "host_prefix 0xfe80000000000000 = Ok \<lparr>network = 0xfe80000000000000, prefix_len = 64\<rparr>"
  "host_prefix 0xfe80000000000001 = Ok \<lparr>network = 0xfe80000000000001, prefix_len = 64\<rparr>"
  "host_prefix 0xfe80000000000002 = Ok \<lparr>network = 0xfe80000000000002, prefix_len = 64\<rparr>"
  "host_prefix 0x1122000000000001 = Ok \<lparr>network = 0x1122000000000001, prefix_len = 64\<rparr>"
  by code_simp+

lemma sample_router: "rbind (router_new ops sample_startup) (\<lambda>r. Ok (spr_fib r)) = Ok sample_fib"
  unfolding router_new_def sample_startup_valid compile_startup_fib_def Let_def
  by (simp add: sample_startup_def port_config_new_def with_connected_network_def static_route_via_def
      router_bootstrap_address_def sample_host_prefixes push_punt_def push_port_punts_def push_owned_def push_local_def
      port_addresses_def push_connected_def push_route_def push_forward_def set_has_simps sample_fib_def default_route_def)

lemma sample_startup_wf: "startup_wf sample_startup"
proof -
  have "gdp_prefix_new 0x1122000000000000 16 = Ok (Inr \<lparr>network = 0x1122000000000000, prefix_len = 16\<rparr>)" by code_simp
  then show ?thesis
    by (simp add: startup_wf_def sample_startup_def with_connected_network_def port_config_new_def static_route_via_def
        gdp_prefix_new_wf default_route_wf)
qed

lemma sample_fib_hit: "fib_hit sample_fib 0x1122000000000077 (sample_fib ! 4)"
proof -
  have "list_all (\<lambda>e'. covers (fe_prefix e') 0x1122000000000077 \<longrightarrow> prefix_len (fe_prefix e') \<le> 16) sample_fib"
    "covers (fe_prefix (sample_fib ! 4)) 0x1122000000000077" "prefix_len (fe_prefix (sample_fib ! 4)) = 16" "4 < length sample_fib"
    by code_simp+
  then show ?thesis unfolding fib_hit_def list_all_iff by simp
qed

lemma sample_router_new: "\<exists>r. router_new ops sample_startup = Ok r \<and> spr_fib r = sample_fib"
  using sample_router[of ops] by (cases "router_new ops sample_startup") auto

theorem router_forwards_by_longest_prefix_witness:
  "\<exists>r. router_new list_pipeline sample_startup = Ok r \<and>
    fst (router_process list_pipeline r 0 sample_packet) = Ok (Forward 1 (with_hop sample_packet 6))"
proof -
  obtain r where r: "router_new list_pipeline sample_startup = Ok r" "spr_fib r = sample_fib" using sample_router_new by blast
  have pk: "gdp_packet_wf sample_packet" "addresses (pkt_header sample_packet) = AddrGlobal 0x1122000000000077 0x99" "0 < router_port_count"
    by (simp_all add: gdp_packet_wf_def gdp_header_wf_def sample_packet_def gdp_header_global_def size_class_bytes_def router_port_count_def)
  have "decide 0 sample_packet (sample_fib ! 4) = Forward 1 (with_hop sample_packet 6)" by code_simp
  then show ?thesis
    using router_forwards_by_longest_prefix[OF list_pipeline_runs r(1) sample_startup_wf pk] sample_fib_hit r by auto
qed

end
