(* ===== verification/Dynamic_Router.thy ===== *)
theory Dynamic_Router
  imports Router_P4 Router_Adjacency
begin

text \<open>
  The dynamic router of src/src/dynamic_router.rs: a routing information base that learns from neighbours, compiled
  into the forwarding plane of \<open>Static_Router\<close> after every change; and src/src/cycle_router.rs, the static router with
  its policy for virtual channel 0. The lemmas show that, as long as no call fails, the forwarding plane routes
  by exactly the selection of the base; the last theorem shows how one advertisement stops all further changes.
\<close>

section \<open>The dynamic router\<close>

record 'p DynamicP4Router =
  dr_router_id :: RouterId
  dr_ports :: "RouterPortConfig list"
  dr_configured_static :: "StaticRouteConfig list"
  dr_rib :: RouterRib
  dr_forwarding :: "'p StaticP4Router"

definition learned_route_step :: "StaticRouteConfig list \<Rightarrow> StaticRouteConfig list \<Rightarrow> SelectedRoute \<Rightarrow> StaticRouteConfig list result" where
  "learned_route_step configured routes route =
    (if sr_origin route \<noteq> Learned then Err InvalidField
     else if list_ex (\<lambda>c. src_prefix c = sr_prefix route) configured then Ok routes
     else Ok (routes @ [static_route_direct (sr_prefix route) (sr_egress_port route)]))"

definition build_forwarding ::
    "'p p4_ops \<Rightarrow> RouterPortConfig list \<Rightarrow> StaticRouteConfig list \<Rightarrow> SelectedRoute list \<Rightarrow> 'p StaticP4Router result" where
  "build_forwarding ops ports configured learned =
    rbind (fold_r (learned_route_step configured) configured learned) (\<lambda>routes.
      router_new ops \<lparr>rsc_ports = ports, rsc_routes = routes\<rparr>)"

definition add_port_route :: "RouterRib \<Rightarrow> RouterPortConfig \<Rightarrow> RouterRib" where
  "add_port_route rib port = (case rpc_connected_prefix port of
      Some p \<Rightarrow> add_connected rib p (rpc_id port) | None \<Rightarrow> rib)"

definition add_configured_route :: "RouterRib \<Rightarrow> StaticRouteConfig \<Rightarrow> RouterRib" where
  "add_configured_route rib route = add_static rib (src_prefix route) (src_egress_port route) 0"

definition dyn_new :: "'p p4_ops \<Rightarrow> RouterId \<Rightarrow> RouterPortConfig list \<Rightarrow> StaticRouteConfig list \<Rightarrow> 'p DynamicP4Router result" where
  "dyn_new ops router_id ports configured =
    (let rib = foldl add_configured_route (foldl add_port_route (rib_new router_id) ports) configured in
     rbind (build_forwarding ops ports configured (learned_fib rib)) (\<lambda>forwarding.
       Ok \<lparr>dr_router_id = router_id, dr_ports = ports, dr_configured_static = configured, dr_rib = rib,
           dr_forwarding = forwarding\<rparr>))"

definition selected_fib :: "'p DynamicP4Router \<Rightarrow> SelectedRoute list" where
  "selected_fib r = selected_routes (dr_rib r)"

definition learned_routes :: "'p DynamicP4Router \<Rightarrow> SelectedRoute list" where
  "learned_routes r = filter (\<lambda>s. sr_origin s = Learned) (selected_routes (dr_rib r))"

definition dyn_advertisements_for :: "'p DynamicP4Router \<Rightarrow> RouterId \<Rightarrow> RouteMetric \<Rightarrow> RouteAdvertise list" where
  "dyn_advertisements_for r neighbor outgoing = advertisements_for (dr_rib r) neighbor outgoing"

definition dyn_updates_for :: "'p DynamicP4Router \<Rightarrow> RouterId \<Rightarrow> RouteMetric \<Rightarrow> GdpPrefix list \<Rightarrow> RouteUpdate list" where
  "dyn_updates_for r neighbor outgoing changed = updates_for (dr_rib r) neighbor outgoing changed"

definition rebuild_forwarding :: "'p p4_ops \<Rightarrow> 'p DynamicP4Router \<Rightarrow> ('p DynamicP4Router, unit) outcome" where
  "rebuild_forwarding ops r =
    sbind (lift_r (build_forwarding ops (dr_ports r) (dr_configured_static r) (learned_fib (dr_rib r))) r)
      (\<lambda>forwarding r. (Ok (), r\<lparr>dr_forwarding := forwarding\<rparr>))"

definition on_rib :: "'p DynamicP4Router \<Rightarrow> (RouterRib, 'a) outcome \<Rightarrow> ('p DynamicP4Router, 'a) outcome" where
  "on_rib r out = (fst out, r\<lparr>dr_rib := snd out\<rparr>)"

definition dyn_receive_advertisement ::
    "'p p4_ops \<Rightarrow> 'p DynamicP4Router \<Rightarrow> RouterId \<Rightarrow> RouterPortId \<Rightarrow> RouteAdvertise \<Rightarrow> ('p DynamicP4Router, unit) outcome" where
  "dyn_receive_advertisement ops r from port a =
    sbind (on_rib r (receive_advertisement (dr_rib r) from port a)) (\<lambda>_ r. rebuild_forwarding ops r)"

definition dyn_receive_withdrawal ::
    "'p p4_ops \<Rightarrow> 'p DynamicP4Router \<Rightarrow> RouterId \<Rightarrow> RouteWithdraw \<Rightarrow> ('p DynamicP4Router, bool) outcome" where
  "dyn_receive_withdrawal ops r from w =
    sbind (on_rib r (receive_withdrawal (dr_rib r) from w)) (\<lambda>removed r.
      if removed then sbind (rebuild_forwarding ops r) (\<lambda>_ r. (Ok removed, r)) else (Ok removed, r))"

definition neighbor_down :: "'p p4_ops \<Rightarrow> 'p DynamicP4Router \<Rightarrow> RouterId \<Rightarrow> ('p DynamicP4Router, GdpPrefix list) outcome" where
  "neighbor_down ops r neighbor = (case remove_learned_from (dr_rib r) neighbor of (changed, rib) \<Rightarrow>
    let r = r\<lparr>dr_rib := rib\<rparr> in
    if changed \<noteq> [] then sbind (rebuild_forwarding ops r) (\<lambda>_ r. (Ok changed, r)) else (Ok changed, r))"

definition expire_adjacency ::
    "'p p4_ops \<Rightarrow> 'p DynamicP4Router \<Rightarrow> RouterAdjacency \<Rightarrow> Instant \<Rightarrow> ('p DynamicP4Router \<times> RouterAdjacency, GdpPrefix list) outcome" where
  "expire_adjacency ops r adjacency now =
    (if adj_local_router_id adjacency \<noteq> dr_router_id r then (Err InvalidField, (r, adjacency))
     else case adj_expire adjacency now of (expired, adjacency') \<Rightarrow>
       if \<not> expired then (Ok [], (r, adjacency'))
       else (case adj_neighbor adjacency of
           Some n \<Rightarrow> (case neighbor_down ops r (rn_router_id n) of (res, r) \<Rightarrow> (res, (r, adjacency')))
         | None \<Rightarrow> (Ok [], (r, adjacency'))))"

definition dyn_process :: "'p p4_ops \<Rightarrow> 'p DynamicP4Router \<Rightarrow> RouterPortId \<Rightarrow> GdpPacket \<Rightarrow> ('p DynamicP4Router, RouterDisposition) outcome" where
  "dyn_process ops r ingress packet = (case router_process ops (dr_forwarding r) ingress packet of
     (res, forwarding) \<Rightarrow> (res, r\<lparr>dr_forwarding := forwarding\<rparr>))"

section \<open>The router with a policy for virtual channel 0\<close>

datatype RouterVc0Policy = NormalData | EscapeOnly

definition vc0_policy_default :: RouterVc0Policy where
  "vc0_policy_default = EscapeOnly"

record 'p CycleAwareRouter =
  car_inner :: "'p StaticP4Router"
  car_vc0_policy :: RouterVc0Policy

definition cycle_new :: "'p p4_ops \<Rightarrow> RouterStartupConfig \<Rightarrow> RouterVc0Policy \<Rightarrow> 'p CycleAwareRouter result" where
  "cycle_new ops startup policy =
    rbind (router_new ops startup) (\<lambda>r. Ok \<lparr>car_inner = r, car_vc0_policy = policy\<rparr>)"

definition normal_data_vcids :: "'p CycleAwareRouter \<Rightarrow> u8 list" where
  "normal_data_vcids c = (case car_vc0_policy c of NormalData \<Rightarrow> [0, 1, 2, 3] | EscapeOnly \<Rightarrow> [1, 2, 3])"

definition escape_vcid :: "'p CycleAwareRouter \<Rightarrow> u8 option" where
  "escape_vcid c = (case car_vc0_policy c of NormalData \<Rightarrow> None | EscapeOnly \<Rightarrow> Some 0)"

definition cycle_process :: "'p p4_ops \<Rightarrow> 'p CycleAwareRouter \<Rightarrow> RouterPortId \<Rightarrow> GdpPacket \<Rightarrow> ('p CycleAwareRouter, RouterDisposition) outcome" where
  "cycle_process ops c ingress packet = (case router_process ops (car_inner c) ingress packet of
     (res, r) \<Rightarrow> (res, c\<lparr>car_inner := r\<rparr>))"

text \<open>The virtual channels are divided: an escape channel is never one of the ordinary ones, and together they are all four.\<close>

lemma vcids_divided: "set (normal_data_vcids c) \<inter> set_option (escape_vcid c) = {} \<and>
    set (normal_data_vcids c) \<union> set_option (escape_vcid c) = {0, 1, 2, 3}"
  by (cases "car_vc0_policy c") (auto simp: normal_data_vcids_def escape_vcid_def)

section \<open>The forwarding table of a startup configuration\<close>

abbreviation fib_pair :: "FibEntry \<Rightarrow> GdpPrefix \<times> RouterPortId option" where
  "fib_pair e \<equiv> (fe_prefix e, fe_egress_port e)"

definition host :: "GdpAddress \<Rightarrow> GdpPrefix" where
  "host a = \<lparr>network = a, prefix_len = 64\<rparr>"

definition own_addresses :: "RouterPortConfig list \<Rightarrow> GdpAddress set" where
  "own_addresses ports = insert router_bootstrap_address (\<Union>port\<in>set ports. set (port_addresses port))"

definition connected_pairs :: "RouterPortConfig list \<Rightarrow> (GdpPrefix \<times> RouterPortId) list" where
  "connected_pairs ports = map (\<lambda>port. (the (rpc_connected_prefix port), rpc_id port)) (filter (\<lambda>port. rpc_connected_prefix port \<noteq> None) ports)"

definition route_pairs :: "StaticRouteConfig list \<Rightarrow> (GdpPrefix \<times> RouterPortId) list" where
  "route_pairs routes = map (\<lambda>r. (src_prefix r, src_egress_port r)) routes"

lemma host_prefix_eq: "host_prefix a = Ok (host a)"
proof -
  have "a AND - 1 = a" by (rule bit.conj_one_right)
  then show ?thesis by (simp add: host_prefix_def host_def gdp_prefix_new_def prefix_mask_eq)
qed

lemma push_owned_pairs:
  assumes "push_owned ops cpu b a = Ok b'" "set_has (fb_programmed b) (host a) \<longrightarrow> (host a, None) \<in> fib_pair ` set (fb_fib b)"
  shows "fib_pair ` set (fb_fib b') = insert (host a, None) (fib_pair ` set (fb_fib b))"
  using assms by (auto simp: push_owned_def host_prefix_eq push_punt_def split: if_splits)

text \<open>While the punting entries are added, every programmed prefix is a punting entry.\<close>

definition punts_only :: "GdpAddress set \<Rightarrow> 'p fib_build \<Rightarrow> bool" where
  "punts_only as b \<longleftrightarrow> fib_pair ` set (fb_fib b) = (\<lambda>a. (host a, None)) ` as \<and>
    (\<forall>p. set_has (fb_programmed b) p \<longrightarrow> p \<in> host ` as)"

lemma push_owned_punts:
  assumes "push_owned ops cpu b a = Ok b'" "punts_only as b"
  shows "punts_only (insert a as) b'"
proof -
  have f: "fib_pair ` set (fb_fib b') = insert (host a, None) (fib_pair ` set (fb_fib b))"
    using assms(2) by (intro push_owned_pairs[OF assms(1)]) (auto simp: punts_only_def)
  have "p = host a \<or> set_has (fb_programmed b) p" if "set_has (fb_programmed b') p" for p
    using assms(1) that by (auto simp: push_owned_def host_prefix_eq push_punt_def set_has_simps split: if_splits)
  then have "\<forall>p. set_has (fb_programmed b') p \<longrightarrow> p \<in> host ` insert a as" using assms(2) unfolding punts_only_def by blast
  with f assms(2) show ?thesis by (simp add: punts_only_def)
qed

lemma push_owned_all: "fold_r (push_owned ops cpu) b as = Ok b' \<Longrightarrow> punts_only A b \<Longrightarrow> punts_only (A \<union> set as) b'"
proof (induction as arbitrary: A b)
  case (Cons a as)
  then obtain c where "push_owned ops cpu b a = Ok c" "fold_r (push_owned ops cpu) c as = Ok b'" by (auto simp: result_simps)
  then show ?case using Cons.IH[OF _ push_owned_punts] Cons.prems(2) by fastforce
qed simp

lemma push_locals_keep: "fb_fib (foldl (\<lambda>b a. push_local ops cpu i a b) b as) = fb_fib b"
  "fb_programmed (foldl (\<lambda>b a. push_local ops cpu i a b) b as) = fb_programmed b"
  by (induction as arbitrary: b) (simp_all add: push_local_def)

lemma push_port_all: "fold_r (push_port_punts ops cpu) b ports = Ok b' \<Longrightarrow> punts_only A b \<Longrightarrow>
    punts_only (A \<union> (\<Union>port\<in>set ports. set (port_addresses port))) b'"
proof (induction ports arbitrary: A b)
  case (Cons port ports)
  then obtain c where c: "push_port_punts ops cpu b port = Ok c" "fold_r (push_port_punts ops cpu) c ports = Ok b'"
    by (auto simp: result_simps)
  then obtain c' where c': "fold_r (push_owned ops cpu) b (port_addresses port) = Ok c'"
    "c = foldl (\<lambda>b a. push_local ops cpu (rpc_id port) a b) c' (port_addresses port)"
    by (auto simp: push_port_punts_def result_simps)
  have "punts_only (A \<union> set (port_addresses port)) c"
    using push_owned_all[OF c'(1) Cons.prems(2)] by (simp add: c'(2) punts_only_def push_locals_keep)
  from Cons.IH[OF c(2) this] show ?case by (simp add: Un_assoc)
qed simp

lemma push_forward_fib: "push_forward ops port og p b = Ok b' \<Longrightarrow>
    fb_fib b' = fb_fib b @ [\<lparr>fe_prefix = p, fe_egress_port = Some port, fe_origin = og\<rparr>]"
  by (auto simp: push_forward_def split: if_splits)

lemma push_connected_all: "fold_r (push_connected ops) b ports = Ok b' \<Longrightarrow>
    map fib_pair (fb_fib b') = map fib_pair (fb_fib b) @ map (\<lambda>(p, i). (p, Some i)) (connected_pairs ports)"
proof (induction ports arbitrary: b)
  case (Cons port ports)
  then obtain c where c: "push_connected ops b port = Ok c" "fold_r (push_connected ops) c ports = Ok b'" by (auto simp: result_simps)
  then show ?case using Cons.IH[OF c(2)]
    by (auto simp: push_connected_def connected_pairs_def dest!: push_forward_fib split: option.splits)
qed (simp add: connected_pairs_def)

lemma push_route_all: "fold_r (push_route ops) b routes = Ok b' \<Longrightarrow>
    map fib_pair (fb_fib b') = map fib_pair (fb_fib b) @ map (\<lambda>(p, i). (p, Some i)) (route_pairs routes)"
proof (induction routes arbitrary: b)
  case (Cons route routes)
  then obtain c where c: "push_route ops b route = Ok c" "fold_r (push_route ops) c routes = Ok b'" by (auto simp: result_simps)
  then show ?case using Cons.IH[OF c(2)] by (auto simp: push_route_def route_pairs_def dest!: push_forward_fib)
qed (simp add: route_pairs_def)

lemma router_new_fib:
  assumes "router_new ops \<lparr>rsc_ports = ports, rsc_routes = routes\<rparr> = Ok r"
  shows "\<exists>punts. map fib_pair (spr_fib r) = punts @ map (\<lambda>(p, i). (p, Some i)) (connected_pairs ports @ route_pairs routes) \<and>
    set punts = (\<lambda>a. (host a, None)) ` own_addresses ports"
proof -
  let ?b = "\<lparr>fb_pipeline = p4_new ops (router_port_count + 1), fb_fib = [], fb_programmed = []\<rparr>"
  let ?c = router_port_count
  obtain b1 b2 b where b1: "fold_r (push_port_punts ops ?c) (push_punt ops ?c FibBootstrap (host router_bootstrap_address) ?b) ports = Ok b1"
    and b: "fold_r (push_connected ops) b1 ports = Ok b2" "fold_r (push_route ops) b2 routes = Ok b" "spr_fib r = fb_fib b"
    using assms by (auto simp: router_new_def compile_startup_fib_def Let_def host_prefix_eq lift_r_def result_simps
        split: prod.splits result.splits)
  have "punts_only {router_bootstrap_address} (push_punt ops ?c FibBootstrap (host router_bootstrap_address) ?b)"
    by (simp add: punts_only_def push_punt_def set_has_simps)
  from push_port_all[OF b1 this] have "fib_pair ` set (fb_fib b1) = (\<lambda>a. (host a, None)) ` own_addresses ports"
    by (simp add: punts_only_def own_addresses_def)
  then show ?thesis using push_route_all[OF b(2)] push_connected_all[OF b(1)] b(3) by auto
qed

section \<open>The base and the table agree\<close>

text \<open>The routes of the base that were not learned.\<close>

definition connected_route :: "GdpPrefix \<times> RouterPortId \<Rightarrow> RibRoute" where
  "connected_route q = \<lparr>rr_prefix = fst q, rr_egress_port = snd q, rr_origin = Connected, rr_metric = 0, rr_learned_from = None\<rparr>"

definition static_rib_route :: "GdpPrefix \<times> RouterPortId \<Rightarrow> RibRoute" where
  "static_rib_route q = \<lparr>rr_prefix = fst q, rr_egress_port = snd q, rr_origin = Static, rr_metric = 0, rr_learned_from = None\<rparr>"

definition local_routes :: "RouterPortConfig list \<Rightarrow> StaticRouteConfig list \<Rightarrow> RibRoute list" where
  "local_routes ports configured = map connected_route (connected_pairs ports) @ map static_rib_route (route_pairs configured)"

definition not_learned :: "RouterRib \<Rightarrow> RibRoute list" where
  "not_learned rib = filter (\<lambda>r. rr_origin r \<noteq> Learned) (rib_routes rib)"

lemma upsert_new: "\<not> list_ex P xs \<Longrightarrow> upsert P r xs = xs @ [r]"
  by (induction xs) auto

lemma upsert_local_new:
  assumes "rr_prefix r \<notin> rr_prefix ` set (rib_routes rib)"
  shows "upsert_local rib r = rib\<lparr>rib_routes := rib_routes rib @ [r]\<rparr>"
proof -
  have "rr_prefix e \<noteq> rr_prefix r" if "e \<in> set (rib_routes rib)" for e using assms that by (metis imageI)
  then show ?thesis unfolding upsert_local_def by (subst upsert_new) (auto simp: list_ex_iff)
qed

lemma add_connected_all:
  "distinct (map fst (connected_pairs ports)) \<Longrightarrow> rr_prefix ` set (rib_routes rib) \<inter> fst ` set (connected_pairs ports) = {} \<Longrightarrow>
    foldl add_port_route rib ports = rib\<lparr>rib_routes := rib_routes rib @ map connected_route (connected_pairs ports)\<rparr>"
proof (induction ports arbitrary: rib)
  case (Cons port ports)
  show ?case
  proof (cases "rpc_connected_prefix port")
    case None
    then show ?thesis using Cons by (simp add: add_port_route_def connected_pairs_def)
  next
    case (Some p)
    then have "add_port_route rib port = rib\<lparr>rib_routes := rib_routes rib @ [connected_route (p, rpc_id port)]\<rparr>"
      using Cons.prems(2) by (simp add: add_port_route_def add_connected_def upsert_local_new connected_pairs_def connected_route_def)
    moreover have "connected_pairs (port # ports) = (p, rpc_id port) # connected_pairs ports" using Some by (simp add: connected_pairs_def)
    ultimately show ?thesis using Cons by (auto simp: connected_route_def)
  qed
qed (simp add: connected_pairs_def)

lemma add_static_all:
  "distinct (map fst (route_pairs routes)) \<Longrightarrow> rr_prefix ` set (rib_routes rib) \<inter> fst ` set (route_pairs routes) = {} \<Longrightarrow>
    foldl add_configured_route rib routes = rib\<lparr>rib_routes := rib_routes rib @ map static_rib_route (route_pairs routes)\<rparr>"
proof (induction routes arbitrary: rib)
  case (Cons route routes)
  let ?q = "(src_prefix route, src_egress_port route)"
  have q: "route_pairs (route # routes) = ?q # route_pairs routes" by (simp add: route_pairs_def)
  have "add_configured_route rib route = rib\<lparr>rib_routes := rib_routes rib @ [static_rib_route ?q]\<rparr>"
    using Cons.prems(2) by (simp add: add_configured_route_def add_static_def upsert_local_new route_pairs_def static_rib_route_def)
  moreover have "rr_prefix (static_rib_route ?q) = fst ?q" by (simp add: static_rib_route_def)
  ultimately show ?case using Cons.IH[of "rib\<lparr>rib_routes := rib_routes rib @ [static_rib_route ?q]\<rparr>"] Cons.prems
    unfolding q by simp
qed (simp add: route_pairs_def)

text \<open>Learning never touches the other routes.\<close>

lemma filter_upsert_other: "\<not> P r \<Longrightarrow> (\<And>x. Q x \<Longrightarrow> \<not> P x) \<Longrightarrow> filter P (upsert Q r xs) = filter P xs"
  by (induction xs) auto

lemma filter_filter_id: "(\<And>x. P x \<Longrightarrow> Q x) \<Longrightarrow> filter P (filter Q xs) = filter P xs"
  by (induction xs) auto

lemma learn_not_learned:
  "receive_advertisement rib from port a = (res, rib') \<Longrightarrow> not_learned rib' = not_learned rib"
  "receive_withdrawal rib from w = (res', rib') \<Longrightarrow> not_learned rib' = not_learned rib"
  "remove_learned_from rib n = (changed, rib') \<Longrightarrow> not_learned rib' = not_learned rib"
proof -
  have "filter (\<lambda>r. rr_origin r \<noteq> Learned) (upsert (is_learned p n) r xs) = filter (\<lambda>r. rr_origin r \<noteq> Learned) xs"
    if "rr_origin r = Learned" for r p n xs
    by (rule filter_upsert_other) (use that in \<open>simp_all add: is_learned_def\<close>)
  then show "receive_advertisement rib from port a = (res, rib') \<Longrightarrow> not_learned rib' = not_learned rib"
    by (auto simp: receive_advertisement_def not_learned_def Let_def split: if_splits)
  have "filter (\<lambda>r. rr_origin r \<noteq> Learned) (filter (\<lambda>r. \<not> is_learned p n r) xs) = filter (\<lambda>r. rr_origin r \<noteq> Learned) xs" for p n xs
    by (rule filter_filter_id) (simp add: is_learned_def)
  then show "receive_withdrawal rib from w = (res', rib') \<Longrightarrow> not_learned rib' = not_learned rib"
    by (auto simp: receive_withdrawal_def not_learned_def Let_def simp del: filter_filter split: if_splits)
  have "filter (\<lambda>r. rr_origin r \<noteq> Learned) (filter (\<lambda>r. \<not> (rr_origin r = Learned \<and> rr_learned_from r = Some n)) xs) = filter (\<lambda>r. rr_origin r \<noteq> Learned) xs" for xs
    by (rule filter_filter_id) simp
  then show "remove_learned_from rib n = (changed, rib') \<Longrightarrow> not_learned rib' = not_learned rib"
    unfolding remove_learned_from_def not_learned_def Let_def by (auto simp del: filter_filter)
qed

lemma learn_inv:
  "receive_advertisement rib from port a = (res, rib') \<Longrightarrow> rib_inv rib \<Longrightarrow> rib_inv rib'"
  "receive_withdrawal rib from w = (res', rib') \<Longrightarrow> rib_inv rib \<Longrightarrow> rib_inv rib'"
  "remove_learned_from rib n = (changed, rib') \<Longrightarrow> rib_inv rib \<Longrightarrow> rib_inv rib'"
proof -
  assume e: "receive_advertisement rib from port a = (res, rib')" and i: "rib_inv rib"
  show "rib_inv rib'"
  proof (cases res)
    case (Ok u)
    with e show ?thesis using receive_advertisement_effect(2)[of rib "from" port a rib'] i by simp
  qed (use e i in \<open>auto simp: receive_advertisement_def Let_def split: if_splits\<close>)
qed (auto simp: receive_withdrawal_def remove_learned_from_def Let_def rib_inv_filter split: if_splits)

text \<open>When no two local routes have one prefix, all of them are selected, next to the learned routes selected.\<close>

lemma local_route_selected:
  assumes "rib_inv rib" "distinct (map rr_prefix (not_learned rib))" "\<forall>r\<in>set (not_learned rib). rr_origin r \<in> {Connected, Static}"
    and r: "r \<in> set (not_learned rib)"
  shows "selected_from r \<in> set (selected_routes rib)"
proof -
  have in_rib: "r \<in> set (rib_routes rib)" using r by (simp add: not_learned_def)
  have "route_better r c" if c: "c \<in> set (rib_routes rib)" "rr_prefix c = rr_prefix r" "c \<noteq> r" for c
  proof (cases "rr_origin c = Learned")
    case True
    then show ?thesis using assms(3) r by (auto simp: route_better_def Let_def)
  next
    case False
    then have "c \<in> set (not_learned rib)" using c(1) by (simp add: not_learned_def)
    then show ?thesis using assms(2) r c(2,3) by (metis distinct_map inj_onD)
  qed
  then have "best_route (rib_routes rib) (rr_prefix r) = Some r" using best_route_strict[OF assms(1) in_rib] by blast
  then show ?thesis using selected_routes_spec(2)[of rib] by blast
qed

lemma selection_split:
  assumes "rib_inv rib" "distinct (map rr_prefix (not_learned rib))" "\<forall>r\<in>set (not_learned rib). rr_origin r \<in> {Connected, Static}"
  shows "set (selected_routes rib) = selected_from ` set (not_learned rib) \<union> set (learned_fib rib)"
proof
  show "set (selected_routes rib) \<subseteq> selected_from ` set (not_learned rib) \<union> set (learned_fib rib)"
  proof
    fix s assume s: "s \<in> set (selected_routes rib)"
    then obtain r p where "best_route (rib_routes rib) p = Some r" "s = selected_from r" using selected_routes_spec(2)[of rib] by blast
    then have "r \<in> set (rib_routes rib)" "s = selected_from r" using best_route_Some by blast+
    then show "s \<in> selected_from ` set (not_learned rib) \<union> set (learned_fib rib)"
      using s by (auto simp: not_learned_def learned_fib_def selected_from_def)
  qed
  show "selected_from ` set (not_learned rib) \<union> set (learned_fib rib) \<subseteq> set (selected_routes rib)"
    using local_route_selected[OF assms] by (auto simp: learned_fib_def)
qed

lemma learned_not_shadowed:
  assumes "rib_inv rib" "distinct (map rr_prefix (not_learned rib))" "\<forall>r\<in>set (not_learned rib). rr_origin r \<in> {Connected, Static}"
    and "s \<in> set (learned_fib rib)" "r \<in> set (not_learned rib)"
  shows "rr_prefix r \<noteq> sr_prefix s"
proof
  assume e: "rr_prefix r = sr_prefix s"
  have d: "distinct (map sr_prefix (selected_routes rib))" using selected_routes_spec(1)[of rib] by (simp add: strict_sorted_iff)
  have "selected_from r \<in> set (selected_routes rib)" "s \<in> set (selected_routes rib)"
    using local_route_selected[OF assms(1-3,5)] assms(4) by (auto simp: learned_fib_def)
  then have "selected_from r = s" using d e by (metis distinct_map inj_onD selected_from_def SelectedRoute.select_convs(1))
  then show False using assms(4,5) by (auto simp: learned_fib_def not_learned_def selected_from_def)
qed

definition learned_pairs :: "RouterRib \<Rightarrow> (GdpPrefix \<times> RouterPortId) list" where
  "learned_pairs rib = map (\<lambda>s. (sr_prefix s, sr_egress_port s)) (learned_fib rib)"

lemma learned_steps:
  assumes "\<forall>s\<in>set ss. sr_origin s = Learned \<and> (\<forall>c\<in>set configured. src_prefix c \<noteq> sr_prefix s)"
  shows "fold_r (learned_route_step configured) routes ss =
    Ok (routes @ map (\<lambda>s. static_route_direct (sr_prefix s) (sr_egress_port s)) ss)"
  using assms by (induction ss arbitrary: routes) (auto simp: learned_route_step_def list_ex_iff)

lemma route_pairs_learned: "route_pairs (configured @ map (\<lambda>s. static_route_direct (sr_prefix s) (sr_egress_port s)) (learned_fib rib)) =
    route_pairs configured @ learned_pairs rib"
  by (simp add: route_pairs_def learned_pairs_def static_route_direct_def)

section \<open>The invariant\<close>

definition config_wf :: "RouterPortConfig list \<Rightarrow> StaticRouteConfig list \<Rightarrow> bool" where
  "config_wf ports routes \<longleftrightarrow> startup_wf \<lparr>rsc_ports = ports, rsc_routes = routes\<rparr>"

definition dyn_inv :: "'p p4_ops \<Rightarrow> 'p DynamicP4Router \<Rightarrow> bool" where
  "dyn_inv ops r \<longleftrightarrow> rib_inv (dr_rib r) \<and> (\<forall>c\<in>set (rib_routes (dr_rib r)). prefix_wf (rr_prefix c)) \<and>
    not_learned (dr_rib r) = local_routes (dr_ports r) (dr_configured_static r) \<and>
    distinct (map fst (connected_pairs (dr_ports r) @ route_pairs (dr_configured_static r))) \<and>
    config_wf (dr_ports r) (dr_configured_static r)"

definition dyn_synced :: "'p p4_ops \<Rightarrow> 'p DynamicP4Router \<Rightarrow> bool" where
  "dyn_synced ops r \<longleftrightarrow>
    build_forwarding ops (dr_ports r) (dr_configured_static r) (learned_fib (dr_rib r)) = Ok (dr_forwarding r)"

lemma local_route_prefixes: "map rr_prefix (local_routes ports configured) = map fst (connected_pairs ports @ route_pairs configured)"
  by (simp add: local_routes_def connected_route_def static_rib_route_def)

lemma dyn_inv_local:
  assumes "dyn_inv ops r"
  shows "rib_inv (dr_rib r)" "distinct (map rr_prefix (not_learned (dr_rib r)))"
    "\<forall>c\<in>set (not_learned (dr_rib r)). rr_origin c \<in> {Connected, Static}"
proof -
  show "rib_inv (dr_rib r)" using assms by (simp add: dyn_inv_def)
  show "distinct (map rr_prefix (not_learned (dr_rib r)))"
    using assms unfolding dyn_inv_def by (metis local_route_prefixes)
  show "\<forall>c\<in>set (not_learned (dr_rib r)). rr_origin c \<in> {Connected, Static}"
    using assms by (auto simp: dyn_inv_def local_routes_def connected_route_def static_rib_route_def)
qed

lemma build_forwarding_routes:
  assumes "dyn_inv ops r"
  shows "build_forwarding ops (dr_ports r) (dr_configured_static r) (learned_fib (dr_rib r)) =
    router_new ops \<lparr>rsc_ports = dr_ports r, rsc_routes = dr_configured_static r @
      map (\<lambda>s. static_route_direct (sr_prefix s) (sr_egress_port s)) (learned_fib (dr_rib r))\<rparr>"
proof -
  have "src_prefix c \<noteq> sr_prefix s" if "s \<in> set (learned_fib (dr_rib r))" "c \<in> set (dr_configured_static r)" for s c
  proof -
    have "static_rib_route (src_prefix c, src_egress_port c) \<in> set (not_learned (dr_rib r))"
      using that(2) assms by (simp add: dyn_inv_def local_routes_def route_pairs_def)
    from learned_not_shadowed[OF dyn_inv_local[OF assms] that(1) this] show ?thesis by (simp add: static_rib_route_def)
  qed
  then have "\<forall>s\<in>set (learned_fib (dr_rib r)). sr_origin s = Learned \<and> (\<forall>c\<in>set (dr_configured_static r). src_prefix c \<noteq> sr_prefix s)"
    by (simp add: learned_fib_def)
  from learned_steps[OF this] show ?thesis by (simp add: build_forwarding_def)
qed

lemma learned_fib_member: "s \<in> set (learned_fib rib) \<Longrightarrow> \<exists>c\<in>set (rib_routes rib). rr_origin c = Learned \<and> s = selected_from c"
proof -
  assume "s \<in> set (learned_fib rib)"
  then obtain c p where "best_route (rib_routes rib) p = Some c" "s = selected_from c" "sr_origin s = Learned"
    using selected_routes_spec(2)[of rib] by (auto simp: learned_fib_def)
  then show ?thesis using best_route_Some[of "rib_routes rib" p c] by (auto simp: selected_from_def)
qed

lemma learned_startup_wf:
  assumes "dyn_inv ops r"
  shows "startup_wf \<lparr>rsc_ports = dr_ports r, rsc_routes = dr_configured_static r @
    map (\<lambda>s. static_route_direct (sr_prefix s) (sr_egress_port s)) (learned_fib (dr_rib r))\<rparr>"
proof -
  have "prefix_wf (sr_prefix s)" if "s \<in> set (learned_fib (dr_rib r))" for s
    using learned_fib_member[OF that] assms by (auto simp: dyn_inv_def selected_from_def)
  then show ?thesis using assms by (auto simp: dyn_inv_def config_wf_def startup_wf_def static_route_direct_def)
qed

text \<open>The table holds exactly the router's own addresses and the selected routes.\<close>

lemma synced_fib:
  assumes "dyn_inv ops r" "dyn_synced ops r"
  shows "fib_pair ` set (spr_fib (dr_forwarding r)) = (\<lambda>a. (host a, None)) ` own_addresses (dr_ports r) \<union>
    (\<lambda>s. (sr_prefix s, Some (sr_egress_port s))) ` set (selected_routes (dr_rib r))"
proof -
  let ?rib = "dr_rib r" and ?some = "\<lambda>(p, i). (p, Some i)"
  obtain punts where p: "map fib_pair (spr_fib (dr_forwarding r)) =
      punts @ map ?some (connected_pairs (dr_ports r) @ route_pairs (dr_configured_static r) @ learned_pairs ?rib)"
    "set punts = (\<lambda>a. (host a, None)) ` own_addresses (dr_ports r)"
    using router_new_fib assms(2) unfolding dyn_synced_def build_forwarding_routes[OF assms(1)] route_pairs_learned[symmetric] by blast
  have "selected_from ` set (not_learned ?rib) = selected_from ` set (local_routes (dr_ports r) (dr_configured_static r))"
    using assms(1) by (simp add: dyn_inv_def)
  then have "(\<lambda>s. (sr_prefix s, Some (sr_egress_port s))) ` set (selected_routes ?rib) =
      ?some ` set (connected_pairs (dr_ports r) @ route_pairs (dr_configured_static r) @ learned_pairs ?rib)"
    unfolding selection_split[OF dyn_inv_local[OF assms(1)]]
    by (simp add: image_Un image_image local_routes_def selected_from_def connected_route_def static_rib_route_def learned_pairs_def case_prod_beta Un_assoc)
  moreover have "fib_pair ` set (spr_fib (dr_forwarding r)) = set (map fib_pair (spr_fib (dr_forwarding r)))" by simp
  ultimately show ?thesis using p by auto
qed

lemma fresh_rib_local:
  "\<forall>c\<in>set (rib_routes (foldl add_port_route rib ports)). c \<in> set (rib_routes rib) \<or> rr_origin c = Connected"
  "\<forall>c\<in>set (rib_routes (foldl add_configured_route rib routes)). c \<in> set (rib_routes rib) \<or> rr_origin c = Static"
proof -
  have "set (rib_routes (add_port_route rib port)) \<subseteq> set (rib_routes rib) \<union> {c. rr_origin c = Connected}" for rib port
    using upsert_subset by (fastforce simp: add_port_route_def add_connected_def upsert_local_def split: option.splits)
  then show "\<forall>c\<in>set (rib_routes (foldl add_port_route rib ports)). c \<in> set (rib_routes rib) \<or> rr_origin c = Connected"
    by (induction ports arbitrary: rib) force+
  have "set (rib_routes (add_configured_route rib route)) \<subseteq> set (rib_routes rib) \<union> {c. rr_origin c = Static}" for rib route
    using upsert_subset by (fastforce simp: add_configured_route_def add_static_def upsert_local_def)
  then show "\<forall>c\<in>set (rib_routes (foldl add_configured_route rib routes)). c \<in> set (rib_routes rib) \<or> rr_origin c = Static"
    by (induction routes arbitrary: rib) force+
qed

lemma foldl_rib_inv: "rib_inv rib \<Longrightarrow> rib_inv (foldl add_configured_route (foldl add_port_route rib ports) routes)"
proof -
  have "rib_inv rib \<Longrightarrow> rib_inv (foldl add_port_route rib ports)" for rib
    by (rule foldl_inv) (auto simp: add_port_route_def add_local_inv split: option.splits)
  moreover have "rib_inv rib \<Longrightarrow> rib_inv (foldl add_configured_route rib routes)" for rib
    by (rule foldl_inv) (auto simp: add_configured_route_def add_local_inv)
  ultimately show "rib_inv rib \<Longrightarrow> ?thesis" by blast
qed

lemma dyn_new_inv:
  assumes "dyn_new ops i ports configured = Ok r" "config_wf ports configured"
  shows "dyn_inv ops r \<and> dyn_synced ops r"
proof -
  let ?rib = "foldl add_configured_route (foldl add_port_route (rib_new i) ports) configured"
  have fresh: "rr_origin c \<noteq> Learned" if "c \<in> set (rib_routes ?rib)" for c
    using fresh_rib_local(2)[of "foldl add_port_route (rib_new i) ports" configured] fresh_rib_local(1)[of "rib_new i" ports] that
    by (fastforce simp: rib_new_def)
  then have nl: "learned_fib ?rib = []" "not_learned ?rib = rib_routes ?rib"
    using learned_fib_member[of _ ?rib] by (fastforce simp: neq_Nil_conv, simp add: not_learned_def)
  obtain f where f: "router_new ops \<lparr>rsc_ports = ports, rsc_routes = configured\<rparr> = Ok f"
    and r: "r = \<lparr>dr_router_id = i, dr_ports = ports, dr_configured_static = configured, dr_rib = ?rib, dr_forwarding = f\<rparr>"
    using assms(1) nl(1) by (auto simp: dyn_new_def Let_def build_forwarding_def result_simps)
  let ?qs = "connected_pairs ports @ route_pairs configured"
  have d: "distinct (map fst ?qs)"
  proof -
    obtain punts where p: "map fib_pair (spr_fib f) = punts @ map (\<lambda>(p, i). (p, Some i)) ?qs" using router_new_fib[OF f] by blast
    have "distinct (map fst (map fib_pair (spr_fib f)))" using router_new_build[OF f] assms(2) by (simp add: config_wf_def comp_def)
    then have "distinct (map fst (map (\<lambda>(p, i). (p, Some i)) ?qs))" unfolding p map_append[of fst] distinct_append by blast
    then show ?thesis unfolding map_map comp_def case_prod_beta by simp
  qed
  have e: "rib_routes ?rib = local_routes ports configured"
  proof -
    have "foldl add_port_route (rib_new i) ports = (rib_new i)\<lparr>rib_routes := map connected_route (connected_pairs ports)\<rparr>"
      using add_connected_all[of ports "rib_new i"] d by (simp add: rib_new_def)
    moreover have "rr_prefix ` set (map connected_route (connected_pairs ports)) = fst ` set (connected_pairs ports)"
      by (simp add: image_image connected_route_def)
    ultimately show ?thesis
      using add_static_all[of configured "foldl add_port_route (rib_new i) ports"] d by (simp add: local_routes_def)
  qed
  have "prefix_wf (rr_prefix c)" if "c \<in> set (local_routes ports configured)" for c
    using that assms(2) by (auto simp: local_routes_def connected_pairs_def route_pairs_def connected_route_def static_rib_route_def config_wf_def startup_wf_def)
  then show ?thesis
    using d e nl foldl_rib_inv[OF rib_new_inv] assms(2) f by (simp add: r dyn_inv_def dyn_synced_def build_forwarding_def)
qed

section \<open>Runs\<close>

datatype dyn_event = EvAdvertise RouterId RouterPortId RouteAdvertise | EvWithdraw RouterId RouteWithdraw
  | EvDown RouterId | EvExpire RouterAdjacency Instant | EvPacket RouterPortId GdpPacket

definition forget :: "('s, 'a) outcome \<Rightarrow> ('s, unit) outcome" where
  "forget m = sbind m (\<lambda>_ s. (Ok (), s))"

fun dyn_step :: "'p p4_ops \<Rightarrow> 'p DynamicP4Router \<Rightarrow> dyn_event \<Rightarrow> ('p DynamicP4Router, unit) outcome" where
  "dyn_step ops r (EvAdvertise from port a) = dyn_receive_advertisement ops r from port a"
| "dyn_step ops r (EvWithdraw from w) = forget (dyn_receive_withdrawal ops r from w)"
| "dyn_step ops r (EvDown n) = forget (neighbor_down ops r n)"
| "dyn_step ops r (EvExpire adjacency now) = (case expire_adjacency ops r adjacency now of (res, r, _) \<Rightarrow> forget (res, r))"
| "dyn_step ops r (EvPacket ingress packet) = forget (dyn_process ops r ingress packet)"

fun dyn_run :: "'p p4_ops \<Rightarrow> 'p DynamicP4Router \<Rightarrow> dyn_event list \<Rightarrow> ('p DynamicP4Router, unit) outcome" where
  "dyn_run ops r [] = (Ok (), r)"
| "dyn_run ops r (ev # evs) = sbind (dyn_step ops r ev) (\<lambda>_ r. dyn_run ops r evs)"

definition event_wf :: "dyn_event \<Rightarrow> bool" where
  "event_wf ev \<longleftrightarrow> (case ev of EvAdvertise _ _ a \<Rightarrow> prefix_wf (ra_prefix a) | _ \<Rightarrow> True)"

lemma rebuild_ok: "rebuild_forwarding ops r = (Ok u, r') \<Longrightarrow> dyn_inv ops r \<Longrightarrow> dyn_inv ops r' \<and> dyn_synced ops r'"
proof -
  assume "rebuild_forwarding ops r = (Ok u, r')" and i: "dyn_inv ops r"
  then obtain f where "build_forwarding ops (dr_ports r) (dr_configured_static r) (learned_fib (dr_rib r)) = Ok f"
    "r' = r\<lparr>dr_forwarding := f\<rparr>"
    by (auto simp: rebuild_forwarding_def lift_r_def result_simps)
  then show ?thesis using i by (simp add: dyn_inv_def dyn_synced_def)
qed

lemma on_rib_inv:
  assumes "dyn_inv ops r"
  shows "prefix_wf (ra_prefix a) \<Longrightarrow> receive_advertisement (dr_rib r) from port a = (res, rib) \<Longrightarrow> dyn_inv ops (r\<lparr>dr_rib := rib\<rparr>)"
    "receive_withdrawal (dr_rib r) from w = (res', rib) \<Longrightarrow> dyn_inv ops (r\<lparr>dr_rib := rib\<rparr>)"
    "remove_learned_from (dr_rib r) n = (changed, rib) \<Longrightarrow> dyn_inv ops (r\<lparr>dr_rib := rib\<rparr>)"
proof -
  note D = assms[unfolded dyn_inv_def]
  { assume a: "prefix_wf (ra_prefix a)" "receive_advertisement (dr_rib r) from port a = (res, rib)"
    then have "\<forall>c\<in>set (rib_routes rib). prefix_wf (rr_prefix c)"
      using D by (auto simp: receive_advertisement_def Let_def dest!: upsert_subset[THEN subsetD] split: if_splits)
    then show "dyn_inv ops (r\<lparr>dr_rib := rib\<rparr>)" using D learn_inv(1)[OF a(2)] learn_not_learned(1)[OF a(2)] by (simp add: dyn_inv_def) }
  { assume a: "receive_withdrawal (dr_rib r) from w = (res', rib)"
    then have "\<forall>c\<in>set (rib_routes rib). prefix_wf (rr_prefix c)" using D by (auto simp: receive_withdrawal_def Let_def split: if_splits)
    then show "dyn_inv ops (r\<lparr>dr_rib := rib\<rparr>)" using D learn_inv(2)[OF a] learn_not_learned(2)[OF a] by (simp add: dyn_inv_def) }
  { assume a: "remove_learned_from (dr_rib r) n = (changed, rib)"
    then have "\<forall>c\<in>set (rib_routes rib). prefix_wf (rr_prefix c)" using D by (auto simp: remove_learned_from_def Let_def)
    then show "dyn_inv ops (r\<lparr>dr_rib := rib\<rparr>)" using D learn_inv(3)[OF a] learn_not_learned(3)[OF a] by (simp add: dyn_inv_def) }
qed

lemma unchanged_rib:
  "receive_withdrawal rib from w = (Ok False, rib') \<Longrightarrow> rib' = rib"
  "remove_learned_from rib n = ([], rib') \<Longrightarrow> rib' = rib"
proof -
  have keep: "length (filter P xs) = length xs \<Longrightarrow> filter P xs = xs" for P and xs :: "RibRoute list"
    by (metis filter_True length_filter_less less_irrefl)
  then show "receive_withdrawal rib from w = (Ok False, rib') \<Longrightarrow> rib' = rib"
    by (auto simp: receive_withdrawal_def Let_def split: if_splits)
  assume e: "remove_learned_from rib n = ([], rib')"
  let ?P = "\<lambda>r. rr_origin r = Learned \<and> rr_learned_from r = Some n"
  have "set (bt_keys (bt_from_keys (map rr_prefix (filter ?P (rib_routes rib))))) = {}" using e by (simp add: remove_learned_from_def Let_def)
  then have "filter ?P (rib_routes rib) = []" by (simp add: bt_from_keys_set)
  then have "filter (\<lambda>r. \<not> ?P r) (rib_routes rib) = rib_routes rib" by (simp add: filter_empty_conv)
  then show "rib' = rib" using e unfolding remove_learned_from_def Let_def by (cases rib) auto
qed

lemma router_process_pure:
  assumes "runs_router_p4 ops" "router_new ops startup = Ok r" "startup_wf startup"
  shows "snd (router_process ops r ingress pk) = r"
proof -
  obtain es where es: "spr_pipeline r = p4_fill ops (p4_new ops (router_port_count + 1)) es"
    using router_new_build[OF assms(2,3)] by blast
  show ?thesis
  proof (cases "router_port_count \<le> ingress")
    case False
    then show ?thesis using assms(1) es
      by (cases "gdp_packet_encode pk gdp_wire_config_default")
        (simp_all add: router_process_def lift_r_def runs_router_p4_def)
  qed (simp add: router_process_def)
qed

lemma dyn_process_pure:
  assumes "runs_router_p4 ops" "dyn_inv ops r" "dyn_synced ops r"
  shows "snd (dyn_process ops r ingress pk) = r"
  using router_process_pure[OF assms(1) _ learned_startup_wf[OF assms(2)], of "dr_forwarding r" ingress pk] assms(3)
  unfolding dyn_synced_def build_forwarding_routes[OF assms(2)]
  by (cases "router_process ops (dr_forwarding r) ingress pk") (simp add: dyn_process_def)

lemma neighbor_down_ok:
  assumes "neighbor_down ops r n = (Ok changed, r')" "dyn_inv ops r" "dyn_synced ops r"
  shows "dyn_inv ops r' \<and> dyn_synced ops r'"
proof -
  obtain ch rib where e: "remove_learned_from (dr_rib r) n = (ch, rib)" by force
  show ?thesis
  proof (cases "ch = []")
    case True
    then show ?thesis using assms e unchanged_rib(2)[of "dr_rib r" n rib] by (simp add: neighbor_down_def)
  next
    case False
    then have "\<exists>u. rebuild_forwarding ops (r\<lparr>dr_rib := rib\<rparr>) = (Ok u, r')" using assms(1) e by (auto simp: neighbor_down_def result_simps)
    then show ?thesis using rebuild_ok on_rib_inv(3)[OF assms(2) e] by blast
  qed
qed

lemma withdrawal_ok:
  assumes "dyn_receive_withdrawal ops r n w = (Ok b, r')" "dyn_inv ops r" "dyn_synced ops r"
  shows "dyn_inv ops r' \<and> dyn_synced ops r'"
proof -
  obtain removed rib where e: "receive_withdrawal (dr_rib r) n w = (Ok removed, rib)"
    using assms(1) by (cases "receive_withdrawal (dr_rib r) n w") (auto simp: dyn_receive_withdrawal_def on_rib_def result_simps)
  show ?thesis
  proof (cases removed)
    case True
    then obtain u where "rebuild_forwarding ops (r\<lparr>dr_rib := rib\<rparr>) = (Ok u, r')"
      using assms(1) e by (auto simp: dyn_receive_withdrawal_def on_rib_def result_simps)
    then show ?thesis using on_rib_inv(2)[OF assms(2) e] by (rule rebuild_ok)
  next
    case False
    then have "rib = dr_rib r" using e unchanged_rib(1) by simp
    then show ?thesis using False assms e by (simp add: dyn_receive_withdrawal_def on_rib_def)
  qed
qed

lemma dyn_step_ok:
  assumes "runs_router_p4 ops" "dyn_step ops r ev = (Ok u, r')" "event_wf ev" "dyn_inv ops r" "dyn_synced ops r"
  shows "dyn_inv ops r' \<and> dyn_synced ops r'"
proof (cases ev)
  case (EvAdvertise n port a)
  then obtain rib v where "receive_advertisement (dr_rib r) n port a = (Ok v, rib)" "rebuild_forwarding ops (r\<lparr>dr_rib := rib\<rparr>) = (Ok u, r')"
    using assms(2) by (cases "receive_advertisement (dr_rib r) n port a") (auto simp: dyn_receive_advertisement_def on_rib_def result_simps)
  then show ?thesis using rebuild_ok on_rib_inv(1)[OF assms(4)] assms(3) EvAdvertise by (fastforce simp: event_wf_def)
next
  case (EvWithdraw n w)
  then obtain b where "dyn_receive_withdrawal ops r n w = (Ok b, r')" using assms(2) by (auto simp: forget_def result_simps)
  then show ?thesis using assms(4,5) by (rule withdrawal_ok)
next
  case (EvDown n)
  then obtain ch where "neighbor_down ops r n = (Ok ch, r')" using assms(2) by (auto simp: forget_def result_simps)
  then show ?thesis using assms(4,5) by (rule neighbor_down_ok)
next
  case (EvExpire adjacency now)
  obtain res adj' where e: "expire_adjacency ops r adjacency now = (Ok res, r', adj')"
    using assms(2) EvExpire by (cases "expire_adjacency ops r adjacency now") (auto simp: forget_def result_simps)
  obtain b a where "adj_expire adjacency now = (b, a)" by force
  with e consider "r' = r" | n where "neighbor_down ops r n = (Ok res, r')"
    unfolding expire_adjacency_def by (auto split: if_splits prod.splits option.splits)
  then show ?thesis by cases (use assms(4,5) neighbor_down_ok in blast)+
next
  case (EvPacket ingress pk)
  then obtain d where "dyn_process ops r ingress pk = (Ok d, r')" using assms(2) by (auto simp: forget_def result_simps)
  then show ?thesis using dyn_process_pure[OF assms(1,4,5), of ingress pk] assms(4,5) by simp
qed

lemma dyn_run_ok:
  assumes "runs_router_p4 ops" "dyn_run ops r evs = (Ok (), r')" "list_all event_wf evs" "dyn_inv ops r" "dyn_synced ops r"
  shows "dyn_inv ops r' \<and> dyn_synced ops r'"
  using assms
proof (induction evs arbitrary: r)
  case (Cons ev evs)
  then obtain u r1 where "dyn_step ops r ev = (Ok u, r1)" "dyn_run ops r1 evs = (Ok (), r')" by (auto simp: result_simps)
  then show ?case using dyn_step_ok[of ops r ev u r1] Cons by simp
qed simp

lemma rebuild_ports: "dr_ports (snd (rebuild_forwarding ops r)) = dr_ports r"
  unfolding rebuild_forwarding_def lift_r_def
  by (cases "build_forwarding ops (dr_ports r) (dr_configured_static r) (learned_fib (dr_rib r))") simp_all

lemma sbind_ports: "dr_ports (snd m) = ps \<Longrightarrow> (\<And>x s. dr_ports s = ps \<Longrightarrow> dr_ports (snd (k x s)) = ps) \<Longrightarrow> dr_ports (snd (sbind m k)) = ps"
  by (rule sbind_invar[where I = "\<lambda>s. dr_ports s = ps"]) auto

lemma neighbor_down_ports: "dr_ports (snd (neighbor_down ops r n)) = dr_ports r"
  unfolding neighbor_down_def
  by (cases "remove_learned_from (dr_rib r) n") (auto simp: Let_def rebuild_ports intro!: sbind_ports)

lemma dyn_step_ports: "dr_ports (snd (dyn_step ops r ev)) = dr_ports r"
proof (cases ev)
  case (EvExpire adjacency now)
  have "dr_ports (fst (snd (expire_adjacency ops r adjacency now))) = dr_ports r"
    using neighbor_down_ports[of ops r] by (simp add: expire_adjacency_def case_prod_beta split: option.split)
  then show ?thesis using EvExpire by (auto simp: forget_def intro!: sbind_ports split: prod.splits)
next
  case (EvPacket ingress pk)
  then show ?thesis by (auto simp: forget_def dyn_process_def intro!: sbind_ports split: prod.splits)
qed (auto simp: dyn_receive_advertisement_def dyn_receive_withdrawal_def forget_def on_rib_def rebuild_ports neighbor_down_ports intro!: sbind_ports)

lemma dyn_run_ports: "dr_ports (snd (dyn_run ops r evs)) = dr_ports r"
  by (induction evs arbitrary: r) (auto simp: dyn_step_ports intro!: sbind_ports)

section \<open>Forwarding follows the selection\<close>

definition route_packet :: "RouterPortId \<Rightarrow> GdpPacket \<Rightarrow> RouterPortId \<Rightarrow> RouterDisposition" where
  "route_packet ingress pk port = (if hop_limit (pkt_header pk) \<le> 1 \<or> port = ingress then Drop
     else Forward port (with_hop pk (hop_limit (pkt_header pk) - 1)))"

definition best_for :: "SelectedRoute list \<Rightarrow> GdpAddress \<Rightarrow> SelectedRoute \<Rightarrow> bool" where
  "best_for ss d s \<longleftrightarrow> s \<in> set ss \<and> covers (sr_prefix s) d \<and>
    (\<forall>s'\<in>set ss. covers (sr_prefix s') d \<longrightarrow> prefix_len (sr_prefix s') \<le> prefix_len (sr_prefix s))"

lemma covers_host: "covers (host a) d \<longleftrightarrow> d = a"
proof -
  have "d AND - 1 = d" by (rule bit.conj_one_right)
  then show ?thesis by (simp add: covers_def host_def prefix_contains_def prefix_mask_eq)
qed

lemma fib_hit_exists: "e \<in> set fib \<Longrightarrow> covers (fe_prefix e) d \<Longrightarrow> \<exists>e. fib_hit fib d e"
proof -
  assume e: "e \<in> set fib" "covers (fe_prefix e) d"
  let ?A = "{e \<in> set fib. covers (fe_prefix e) d}" and ?f = "\<lambda>e. prefix_len (fe_prefix e)"
  have "finite (?f ` ?A)" "?f ` ?A \<noteq> {}" using e by auto
  from Max_in[OF this] Max_ge[OF this(1)] obtain m where "m \<in> ?A" "\<forall>e'\<in>?A. ?f e' \<le> ?f m" by fastforce
  then show ?thesis by (auto simp: fib_hit_def intro!: exI[of _ m])
qed

lemma fib_hits:
  assumes pairs: "fib_pair ` set fib = (\<lambda>a. (host a, None)) ` A \<union> (\<lambda>s. (sr_prefix s, Some (sr_egress_port s))) ` set ss"
    and ok: "list_all entry_ok fib"
  shows "d \<in> A \<Longrightarrow> \<exists>e. fib_hit fib d e \<and> fe_egress_port e = None"
    and "d \<notin> A \<Longrightarrow> best_for ss d s \<Longrightarrow> \<exists>e. fib_hit fib d e \<and> fe_egress_port e = Some (sr_egress_port s)"
    and "d \<notin> A \<Longrightarrow> \<forall>s\<in>set ss. \<not> covers (sr_prefix s) d \<Longrightarrow> \<nexists>e. fib_hit fib d e"
proof -
  have entry: "(fe_prefix e, fe_egress_port e) \<in> (\<lambda>a. (host a, None)) ` A \<union> (\<lambda>s. (sr_prefix s, Some (sr_egress_port s))) ` set ss"
    if "e \<in> set fib" for e using that unfolding pairs[symmetric] by (rule imageI)
  { assume "d \<in> A"
    then have "(host d, None) \<in> fib_pair ` set fib" unfolding pairs by blast
    then obtain e where "e \<in> set fib" "fe_prefix e = host d" "fe_egress_port e = None" by auto
    moreover have "prefix_len (fe_prefix e') \<le> 64" if "e' \<in> set fib" for e'
      using ok that by (simp add: list_all_iff entry_ok_def prefix_wf_def)
    ultimately have "fib_hit fib d e" by (simp add: fib_hit_def covers_host) (simp add: host_def)
    then show "\<exists>e. fib_hit fib d e \<and> fe_egress_port e = None" using \<open>fe_egress_port e = None\<close> by blast }
  assume d: "d \<notin> A"
  have selected: "\<exists>s\<in>set ss. fe_prefix e = sr_prefix s \<and> fe_egress_port e = Some (sr_egress_port s)"
    if "e \<in> set fib" "covers (fe_prefix e) d" for e
    using entry[OF that(1)] that(2) d by (auto simp: covers_host)
  { assume b: "best_for ss d s"
    then have "(sr_prefix s, Some (sr_egress_port s)) \<in> fib_pair ` set fib" unfolding pairs best_for_def by blast
    then obtain e where "e \<in> set fib" "fe_prefix e = sr_prefix s" "fe_egress_port e = Some (sr_egress_port s)" by auto
    moreover from this b selected have "fib_hit fib d e" by (fastforce simp: fib_hit_def best_for_def)
    ultimately show "\<exists>e. fib_hit fib d e \<and> fe_egress_port e = Some (sr_egress_port s)" by blast }
  show "\<forall>s\<in>set ss. \<not> covers (sr_prefix s) d \<Longrightarrow> \<nexists>e. fib_hit fib d e"
    using selected by (fastforce simp: fib_hit_def)
qed

text \<open>C1. End to end, the dynamic router forwards by the selection of its routing information base: after any
  sequence of advertisements, withdrawals, lost and expired neighbours and packets in which no call failed, a
  well-formed packet with global addresses for one of the router's own addresses goes to the processor, and any other one
  leaves by the port of the selected route with the longest prefix that covers its destination, with its hop limit
  counted down, unless that limit is used up or the port is the one it came by (\<open>route_packet\<close>), and is dropped when no
  selected route covers it.\<close>

theorem dynamic_router_follows_selection:
  assumes "runs_router_p4 ops" "dyn_new ops i ports configured = Ok r0" "config_wf ports configured"
    and "list_all event_wf evs" "dyn_run ops r0 evs = (Ok (), r)"
    and "gdp_packet_wf pk" "addresses (pkt_header pk) = AddrGlobal d s" "ingress < router_port_count"
  shows "(d \<in> own_addresses ports \<longrightarrow> fst (dyn_process ops r ingress pk) = Ok (Punt ingress pk)) \<and>
    (d \<notin> own_addresses ports \<longrightarrow>
      (\<forall>s. best_for (selected_fib r) d s \<longrightarrow> fst (dyn_process ops r ingress pk) = Ok (route_packet ingress pk (sr_egress_port s))) \<and>
      ((\<forall>s\<in>set (selected_fib r). \<not> covers (sr_prefix s) d) \<longrightarrow> fst (dyn_process ops r ingress pk) = Ok Drop))"
proof -
  let ?f = "dr_forwarding r"
  have r: "dyn_inv ops r" "dyn_synced ops r" using dyn_run_ok[OF assms(1,5,4)] dyn_new_inv[OF assms(2,3)] by auto
  have ports: "dr_ports r = ports" using dyn_run_ports[of ops r0 evs] assms(2,5) by (auto simp: dyn_new_def Let_def result_simps)
  note build = r(2)[unfolded dyn_synced_def build_forwarding_routes[OF r(1)]]
  note wf = learned_startup_wf[OF r(1)]
  have fib: "distinct (map fe_prefix (spr_fib ?f))" "list_all entry_ok (spr_fib ?f)" using router_new_build[OF build wf] by auto
  have fst: "fst (dyn_process ops r ingress pk) = fst (router_process ops ?f ingress pk)" by (simp add: dyn_process_def split: prod.split)
  have hit: "fst (dyn_process ops r ingress pk) = Ok (decide ingress pk e)" if "fib_hit (spr_fib ?f) d e" for e
    using router_process_global[OF assms(1) build wf assms(6-8)] that fib_hit_unique[OF fib that] unfolding fst by blast
  have miss: "fst (dyn_process ops r ingress pk) = Ok Drop" if "\<nexists>e. fib_hit (spr_fib ?f) d e"
    using router_process_global[OF assms(1) build wf assms(6-8)] that unfolding fst by blast
  note H = fib_hits[OF synced_fib[OF r, unfolded ports] fib(2), of d]
  show ?thesis
    using H(1) H(2) H(3) hit miss unfolding selected_fib_def by (fastforce simp: decide_def route_packet_def)
qed

section \<open>An advertisement that cannot be installed\<close>

lemma own_prefix_build_fails:
  assumes "dyn_inv ops r" "a \<in> own_addresses (dr_ports r)" "c \<in> set (rib_routes (dr_rib r))" "rr_prefix c = host a"
  shows "build_forwarding ops (dr_ports r) (dr_configured_static r) (learned_fib (dr_rib r)) \<noteq> Ok f"
proof
  assume ok: "build_forwarding ops (dr_ports r) (dr_configured_static r) (learned_fib (dr_rib r)) = Ok f"
  let ?r = "r\<lparr>dr_forwarding := f\<rparr>"
  have r: "dyn_inv ops ?r" "dyn_synced ops ?r" using assms(1) ok by (simp_all add: dyn_inv_def dyn_synced_def)
  have d: "distinct (map fe_prefix (spr_fib f))"
    using router_new_build[OF ok[unfolded build_forwarding_routes[OF assms(1)]] learned_startup_wf[OF assms(1)]] by blast
  obtain b where "best_route (rib_routes (dr_rib r)) (host a) = Some b" using best_route_None assms(3,4) by fastforce
  then have b: "selected_from b \<in> set (selected_routes (dr_rib r))" "sr_prefix (selected_from b) = host a"
    using selected_routes_spec(2)[of "dr_rib r"] best_route_Some by (fastforce, fastforce simp: selected_from_def)
  have "(host a, None) \<in> fib_pair ` set (spr_fib f)" "(host a, Some (sr_egress_port (selected_from b))) \<in> fib_pair ` set (spr_fib f)"
    using synced_fib[OF r] assms(2) imageI[OF b(1), of "\<lambda>s. (sr_prefix s, Some (sr_egress_port s))"] b(2) by auto
  then obtain e e' where e: "e \<in> set (spr_fib f)" "e' \<in> set (spr_fib f)" "fe_prefix e = host a" "fe_prefix e' = host a"
    "fe_egress_port e = None" "fe_egress_port e' \<noteq> None" unfolding image_iff by (metis option.distinct(1) prod.inject)
  then have "e = e'" using d by (metis distinct_map inj_onD)
  then show False using e(5,6) by simp
qed

lemma blocked_receive:
  assumes "dyn_inv ops r" "a \<in> own_addresses (dr_ports r)" "prefix_wf (ra_prefix adv)"
    and e: "receive_advertisement (dr_rib r) m port adv = (res, rib)" and find: "rib_find rib (host a, Learned, Some n) \<noteq> None"
  shows "fst (dyn_receive_advertisement ops r m port adv) \<noteq> Ok () \<and>
    snd (dyn_receive_advertisement ops r m port adv) = r\<lparr>dr_rib := rib\<rparr> \<and> dyn_inv ops (r\<lparr>dr_rib := rib\<rparr>)"
proof -
  let ?r = "r\<lparr>dr_rib := rib\<rparr>"
  have i: "dyn_inv ops ?r" by (rule on_rib_inv(1)[OF assms(1,3) e])
  obtain c where "c \<in> set (rib_routes rib)" "rr_prefix c = host a"
    using find by (auto simp: rib_find_def find_Some_iff route_key_def) (metis nth_mem)
  then have "build_forwarding ops (dr_ports r) (dr_configured_static r) (learned_fib rib) \<noteq> Ok f" for f
    using own_prefix_build_fails[OF i, of a c f] assms(2) by simp
  then have "fst (rebuild_forwarding ops ?r) \<noteq> Ok ()" "snd (rebuild_forwarding ops ?r) = ?r"
    by (cases "build_forwarding ops (dr_ports r) (dr_configured_static r) (learned_fib rib)"; auto simp: rebuild_forwarding_def lift_r_def)+
  then show ?thesis using e i by (cases res) (simp_all add: dyn_receive_advertisement_def on_rib_def)
qed

lemma blocked_step:
  assumes "dyn_inv ops r" "a \<in> own_addresses (dr_ports r)" "rib_find (dr_rib r) (host a, Learned, Some n) \<noteq> None"
    and "prefix_wf (ra_prefix adv)"
  shows "\<exists>rib. snd (dyn_receive_advertisement ops r m port adv) = r\<lparr>dr_rib := rib\<rparr> \<and> dyn_inv ops (r\<lparr>dr_rib := rib\<rparr>) \<and>
    rib_find rib (host a, Learned, Some n) \<noteq> None"
proof -
  obtain res rib where e: "receive_advertisement (dr_rib r) m port adv = (res, rib)" by force
  have "rib_find rib (host a, Learned, Some n) \<noteq> None"
  proof (cases res)
    case (Ok u)
    then show ?thesis using receive_advertisement_effect(1)[of "dr_rib r" m port adv rib] e assms(3) by simp
  qed (use e assms(3) in \<open>auto simp: receive_advertisement_def Let_def split: if_splits\<close>)
  then show ?thesis using blocked_receive[OF assms(1,2,4) e] by blast
qed

definition hear_all :: "'p p4_ops \<Rightarrow> 'p DynamicP4Router \<Rightarrow> (RouterId \<times> RouterPortId \<times> RouteAdvertise) list \<Rightarrow> 'p DynamicP4Router" where
  "hear_all ops = foldl (\<lambda>r (n, port, adv). snd (dyn_receive_advertisement ops r n port adv))"

lemma blocked_all:
  assumes "dyn_inv ops r" "a \<in> own_addresses (dr_ports r)" "rib_find (dr_rib r) (host a, Learned, Some n) \<noteq> None"
    "list_all (\<lambda>(_, _, adv). prefix_wf (ra_prefix adv)) advs"
  shows "dr_forwarding (hear_all ops r advs) = dr_forwarding r"
  using assms
proof (induction advs arbitrary: r)
  case (Cons x advs)
  obtain m port adv where x: "x = (m, port, adv)" using prod_cases3 by blast
  obtain rib where "snd (dyn_receive_advertisement ops r m port adv) = r\<lparr>dr_rib := rib\<rparr>" "dyn_inv ops (r\<lparr>dr_rib := rib\<rparr>)"
    "rib_find rib (host a, Learned, Some n) \<noteq> None"
    using blocked_step[OF Cons.prems(1-3), of adv m port] Cons.prems(4) by (auto simp: x)
  then show ?case using Cons.IH[of "r\<lparr>dr_rib := rib\<rparr>"] Cons.prems by (simp add: x hear_all_def)
qed (simp add: hear_all_def)

text \<open>C36. One advertisement of an address of the router itself (as a host prefix, by a neighbour that may advertise)
  is refused only after it has been stored, so it stays in the routing information base: from then on the forwarding
  plane no longer changes, whatever is advertised by whichever neighbour.\<close>

theorem own_address_advertisement_freezes_forwarding:
  assumes "dyn_new ops i ports configured = Ok r0" "config_wf ports configured"
    and "runs_router_p4 ops" "list_all event_wf evs" "dyn_run ops r0 evs = (Ok (), r)"
    and "a \<in> own_addresses ports" "n \<noteq> rib_local_router_id (dr_rib r)"
    and "adv = \<lparr>ra_advertiser = n, ra_prefix = host a, ra_origin = Connected, ra_metric = m\<rparr>"
    and "list_all (\<lambda>(_, _, adv). prefix_wf (ra_prefix adv)) advs"
  shows "fst (dyn_receive_advertisement ops r n port adv) \<noteq> Ok () \<and>
    dr_forwarding (hear_all ops r ((n, port, adv) # advs)) = dr_forwarding r"
proof -
  have r: "dyn_inv ops r" using dyn_run_ok[OF assms(3,5,4)] dyn_new_inv[OF assms(1,2)] by auto
  have own: "a \<in> own_addresses (dr_ports r)"
    using dyn_run_ports[of ops r0 evs] assms(1,5,6) by (auto simp: dyn_new_def Let_def result_simps)
  obtain rib where e: "receive_advertisement (dr_rib r) n port adv = (Ok (), rib)"
    using assms(7,8) by (simp add: receive_advertisement_def Let_def)
  have wf: "prefix_wf (ra_prefix adv)" using host_prefix_wf[OF host_prefix_eq] assms(8) by simp
  have find: "rib_find rib (host a, Learned, Some n) \<noteq> None"
    using receive_advertisement_effect(1)[OF e] assms(8) by simp
  show ?thesis using blocked_receive[OF r own wf e find] blocked_all[OF _ _ _ assms(9), of ops "r\<lparr>dr_rib := rib\<rparr>" a n] own find
    by (simp add: hear_all_def)
qed

section \<open>A router with a learned route\<close>

definition sample_ports :: "RouterPortConfig list" where
  "sample_ports = rsc_ports sample_startup"

definition sample_routes :: "StaticRouteConfig list" where
  "sample_routes = rsc_routes sample_startup"

definition sample_advertisement :: RouteAdvertise where
  "sample_advertisement = \<lparr>ra_advertiser = 9, ra_prefix = \<lparr>network = 0x3344000000000000, prefix_len = 16\<rparr>, ra_origin = Connected, ra_metric = 5\<rparr>"

definition sample_rib :: RouterRib where
  "sample_rib = foldl add_configured_route (foldl add_port_route (rib_new 1) sample_ports) sample_routes"

definition learned_rib :: RouterRib where
  "learned_rib = snd (receive_advertisement sample_rib 9 1 sample_advertisement)"

lemma sample_dyn_routes:
  "fold_r (learned_route_step sample_routes) sample_routes (learned_fib sample_rib) = Ok sample_routes"
  "fst (receive_advertisement sample_rib 9 1 sample_advertisement) = Ok ()"
  "fold_r (learned_route_step sample_routes) sample_routes (learned_fib learned_rib) =
    Ok (sample_routes @ [static_route_direct \<lparr>network = 0x3344000000000000, prefix_len = 16\<rparr> 1])"
  "startup_validate \<lparr>rsc_ports = sample_ports, rsc_routes = sample_routes @ [static_route_direct \<lparr>network = 0x3344000000000000, prefix_len = 16\<rparr> 1]\<rparr> = Ok ()"
  by code_simp+

lemma sample_startup_eta: "\<lparr>rsc_ports = sample_ports, rsc_routes = sample_routes\<rparr> = sample_startup"
  by (simp add: sample_ports_def sample_routes_def)

lemma sample_dyn_build:
  "\<exists>f. router_new ops \<lparr>rsc_ports = sample_ports, rsc_routes = sample_routes\<rparr> = Ok f"
  "\<exists>f. router_new ops \<lparr>rsc_ports = sample_ports, rsc_routes = sample_routes @ [static_route_direct \<lparr>network = 0x3344000000000000, prefix_len = 16\<rparr> 1]\<rparr> = Ok f"
proof -
  show "\<exists>f. router_new ops \<lparr>rsc_ports = sample_ports, rsc_routes = sample_routes\<rparr> = Ok f"
    unfolding sample_startup_eta using sample_router[of ops] by (cases "router_new ops sample_startup") auto
  show "\<exists>f. router_new ops \<lparr>rsc_ports = sample_ports, rsc_routes = sample_routes @ [static_route_direct \<lparr>network = 0x3344000000000000, prefix_len = 16\<rparr> 1]\<rparr> = Ok f"
    unfolding router_new_def sample_dyn_routes(4) compile_startup_fib_def Let_def
    by (simp add: sample_ports_def sample_routes_def sample_startup_def port_config_new_def with_connected_network_def
        static_route_via_def static_route_direct_def
        router_bootstrap_address_def sample_host_prefixes push_punt_def push_port_punts_def push_owned_def push_local_def
        port_addresses_def push_connected_def push_route_def push_forward_def set_has_simps default_route_def)
qed

lemma sample_config_wf: "config_wf sample_ports sample_routes" "list_all event_wf [EvAdvertise 9 1 sample_advertisement]"
proof -
  have "gdp_prefix_new 0x1122000000000000 16 = Ok (Inr \<lparr>network = 0x1122000000000000, prefix_len = 16\<rparr>)"
    "gdp_prefix_new 0x3344000000000000 16 = Ok (Inr \<lparr>network = 0x3344000000000000, prefix_len = 16\<rparr>)" by code_simp+
  then show "config_wf sample_ports sample_routes" "list_all event_wf [EvAdvertise 9 1 sample_advertisement]"
    by (simp_all add: config_wf_def startup_wf_def sample_ports_def sample_routes_def sample_startup_def with_connected_network_def
        port_config_new_def static_route_via_def event_wf_def sample_advertisement_def gdp_prefix_new_wf default_route_wf)
qed

theorem dynamic_router_follows_selection_witness:
  "\<exists>r0 r. dyn_new list_pipeline 1 sample_ports sample_routes = Ok r0 \<and>
    dyn_run list_pipeline r0 [EvAdvertise 9 1 sample_advertisement] = (Ok (), r) \<and>
    fst (dyn_process list_pipeline r 0 (sample_packet\<lparr>pkt_header := gdp_header_global Gts Tiny3 7 0x99 0x3344000000000055\<rparr>)) =
      Ok (Forward 1 (with_hop (sample_packet\<lparr>pkt_header := gdp_header_global Gts Tiny3 7 0x99 0x3344000000000055\<rparr>) 6))"
proof -
  let ?pk = "sample_packet\<lparr>pkt_header := gdp_header_global Gts Tiny3 7 0x99 0x3344000000000055\<rparr>"
  obtain f0 f where f0: "router_new list_pipeline \<lparr>rsc_ports = sample_ports, rsc_routes = sample_routes\<rparr> = Ok f0"
    and f: "router_new list_pipeline \<lparr>rsc_ports = sample_ports, rsc_routes = sample_routes @
      [static_route_direct \<lparr>network = 0x3344000000000000, prefix_len = 16\<rparr> 1]\<rparr> = Ok f"
    using sample_dyn_build[of list_pipeline] by blast
  let ?start = "\<lparr>dr_router_id = 1, dr_ports = sample_ports, dr_configured_static = sample_routes, dr_rib = sample_rib, dr_forwarding = f0\<rparr>"
  let ?final = "?start\<lparr>dr_rib := learned_rib, dr_forwarding := f\<rparr>"
  have new: "dyn_new list_pipeline 1 sample_ports sample_routes = Ok ?start"
    using f0 sample_dyn_routes(1) by (simp add: dyn_new_def Let_def build_forwarding_def sample_rib_def)
  have run: "dyn_run list_pipeline ?start [EvAdvertise 9 1 sample_advertisement] = (Ok (), ?final)"
    using f sample_dyn_routes(2,3) by (simp add: dyn_receive_advertisement_def on_rib_def rebuild_forwarding_def lift_r_def
        build_forwarding_def learned_rib_def)
  have pk: "gdp_packet_wf ?pk" "addresses (pkt_header ?pk) = AddrGlobal 0x3344000000000055 0x99" "0 < router_port_count"
    by (simp_all add: gdp_packet_wf_def gdp_header_wf_def sample_packet_def gdp_header_global_def size_class_bytes_def router_port_count_def)
  let ?s = "\<lparr>sr_prefix = \<lparr>network = 0x3344000000000000, prefix_len = 16\<rparr>, sr_egress_port = 1, sr_origin = Learned, sr_metric = 5, sr_learned_from = Some 9\<rparr>"
  have "?s \<in> set (selected_routes learned_rib)" "covers (sr_prefix ?s) 0x3344000000000055"
    "list_all (\<lambda>s'. covers (sr_prefix s') 0x3344000000000055 \<longrightarrow> prefix_len (sr_prefix s') \<le> 16) (selected_routes learned_rib)"
    by code_simp+
  then have best: "best_for (selected_fib ?final) 0x3344000000000055 ?s" by (simp add: best_for_def selected_fib_def list_all_iff)
  have own: "0x3344000000000055 \<notin> own_addresses sample_ports"
    by (simp add: own_addresses_def sample_ports_def sample_startup_def port_addresses_def with_connected_network_def port_config_new_def router_bootstrap_address_def)
  have "route_packet 0 ?pk 1 = Forward 1 (with_hop ?pk 6)" by code_simp
  then show ?thesis
    using dynamic_router_follows_selection[OF list_pipeline_runs new sample_config_wf run pk] best own new run by auto
qed

theorem own_address_advertisement_freezes_forwarding_witness:
  "\<exists>r. dyn_new list_pipeline 1 sample_ports sample_routes = Ok r \<and>
    dr_forwarding (hear_all list_pipeline r [(9, 0, \<lparr>ra_advertiser = 9, ra_prefix = host 0x1122000000000001, ra_origin = Connected, ra_metric = 0\<rparr>),
      (9, 1, sample_advertisement)]) = dr_forwarding r"
proof -
  obtain f0 where f0: "router_new list_pipeline \<lparr>rsc_ports = sample_ports, rsc_routes = sample_routes\<rparr> = Ok f0"
    using sample_dyn_build(1)[of list_pipeline] by blast
  let ?start = "\<lparr>dr_router_id = 1, dr_ports = sample_ports, dr_configured_static = sample_routes, dr_rib = sample_rib, dr_forwarding = f0\<rparr>"
  have new: "dyn_new list_pipeline 1 sample_ports sample_routes = Ok ?start"
    using f0 sample_dyn_routes(1) by (simp add: dyn_new_def Let_def build_forwarding_def sample_rib_def)
  have own: "0x1122000000000001 \<in> own_addresses sample_ports"
    by (simp add: own_addresses_def sample_ports_def sample_startup_def port_addresses_def with_connected_network_def port_config_new_def)
  have other: "9 \<noteq> rib_local_router_id (dr_rib ?start)" by simp code_simp
  have wf: "list_all (\<lambda>(_, _, adv). prefix_wf (ra_prefix adv)) [(9, 1, sample_advertisement)]"
    using sample_config_wf(2) by (simp add: event_wf_def)
  have none: "list_all event_wf []" by simp
  show ?thesis using own_address_advertisement_freezes_forwarding[OF new sample_config_wf(1) list_pipeline_runs none dyn_run.simps(1) own other refl wf] new
    by blast
qed

end
