(* ===== verification/Static_Switch.thy ===== *)
theory Static_Switch
  imports Router_P4
begin

text \<open>
  The switch of src/src/static_switch.rs: registered nodes, the uplink to a router, the P4 tables made from them
  and the processing of a packet. The generated pipeline is an argument, as for the router; the P4 program
  src/p4-static-switch/p4/switch.p4 gives the hypothesis \<open>runs_switch_p4\<close> on it, which says nothing about a lookup whose
  matching entries disagree.
\<close>

section \<open>The switch\<close>

type_synonym SwitchPortId = u16

definition switch_port_count :: u16 where
  "switch_port_count = 8"

definition switch_max_port_count :: u16 where
  "switch_max_port_count = 16"

datatype SwitchDisposition = SwForward SwitchPortId GdpPacket | SwDrop

record 'p StaticP4Switch =
  sw_pipeline :: 'p
  sw_port_count :: u16
  sw_nodes :: "(GdpAddress, SwitchPortId) btree"
  sw_default_router_port :: "SwitchPortId option"

definition with_port_count :: "'p p4_ops \<Rightarrow> u16 \<Rightarrow> 'p StaticP4Switch result" where
  "with_port_count ops n =
    (if n = 0 \<or> switch_max_port_count < n then Err InvalidField
     else Ok \<lparr>sw_pipeline = p4_new ops n, sw_port_count = n, sw_nodes = [], sw_default_router_port = None\<rparr>)"

definition switch_new :: "'p p4_ops \<Rightarrow> 'p StaticP4Switch result" where
  "switch_new ops = (case with_port_count ops switch_port_count of Ok s \<Rightarrow> Ok s | _ \<Rightarrow> Panic)"

definition node_port :: "'p StaticP4Switch \<Rightarrow> GdpAddress \<Rightarrow> SwitchPortId option" where
  "node_port s a = bt_get (sw_nodes s) a"

definition validate_switch_port :: "'p StaticP4Switch \<Rightarrow> SwitchPortId \<Rightarrow> unit result" where
  "validate_switch_port s port = (if sw_port_count s \<le> port then Err InvalidField else Ok ())"

definition validate_global_node :: "GdpAddress \<Rightarrow> unit result" where
  "validate_global_node a = (if ucast (drop_bit 48 a) = (0xfe80 :: u16) then Err InvalidField else Ok ())"

definition program_global_node :: "'p p4_ops \<Rightarrow> 'p \<Rightarrow> GdpAddress \<Rightarrow> SwitchPortId \<Rightarrow> 'p" where
  "program_global_node ops pl a port = p4_add ops pl ''ingress.global_nodes'' ''forward''
     (to_le 4 (ucast (drop_bit 32 a) :: u32) @ to_le 4 (ucast a :: u32)) (to_le 2 port)"

definition program_local_node :: "'p p4_ops \<Rightarrow> 'p \<Rightarrow> u16 \<Rightarrow> SwitchPortId \<Rightarrow> 'p" where
  "program_local_node ops pl suffix port = p4_add ops pl ''ingress.local_nodes'' ''forward'' (to_le 2 suffix) (to_le 2 port)"

definition program_default_router :: "'p p4_ops \<Rightarrow> 'p \<Rightarrow> SwitchPortId \<Rightarrow> SwitchPortId \<Rightarrow> 'p" where
  "program_default_router ops pl ingress router = p4_add ops pl ''ingress.default_router'' ''forward'' (to_le 2 ingress) (to_le 2 router)"

definition program_node :: "'p p4_ops \<Rightarrow> 'p \<Rightarrow> GdpAddress \<times> SwitchPortId \<Rightarrow> 'p" where
  "program_node ops pl n = program_local_node ops (program_global_node ops pl (fst n) (snd n)) (ucast (fst n)) (snd n)"

definition ports_below :: "u16 \<Rightarrow> u16 list" where
  "ports_below n = map of_nat [0..<unat n]"

definition rebuild_pipeline :: "'p p4_ops \<Rightarrow> 'p StaticP4Switch \<Rightarrow> 'p StaticP4Switch" where
  "rebuild_pipeline ops s =
    (let pl = foldl (program_node ops) (p4_new ops (sw_port_count s)) (sw_nodes s);
         pl = (case sw_default_router_port s of
             None \<Rightarrow> pl
           | Some router \<Rightarrow> foldl (\<lambda>pl ingress. if ingress \<noteq> router then program_default_router ops pl ingress router else pl)
               pl (ports_below (sw_port_count s)))
     in s\<lparr>sw_pipeline := pl\<rparr>)"

definition set_default_router_port :: "'p p4_ops \<Rightarrow> 'p StaticP4Switch \<Rightarrow> SwitchPortId \<Rightarrow> ('p StaticP4Switch, SwitchPortId option) outcome" where
  "set_default_router_port ops s port = sbind (lift_r (validate_switch_port s port) s) (\<lambda>_ s.
     (Ok (sw_default_router_port s), rebuild_pipeline ops (s\<lparr>sw_default_router_port := Some port\<rparr>)))"

definition clear_default_router_port :: "'p p4_ops \<Rightarrow> 'p StaticP4Switch \<Rightarrow> SwitchPortId option \<times> 'p StaticP4Switch" where
  "clear_default_router_port ops s =
    (let s' = s\<lparr>sw_default_router_port := None\<rparr> in
     (sw_default_router_port s, if sw_default_router_port s \<noteq> None then rebuild_pipeline ops s' else s'))"

definition register_node :: "'p p4_ops \<Rightarrow> 'p StaticP4Switch \<Rightarrow> GdpAddress \<Rightarrow> SwitchPortId \<Rightarrow> ('p StaticP4Switch, SwitchPortId option) outcome" where
  "register_node ops s a port =
    sbind (lift_r (validate_switch_port s port) s) (\<lambda>_ s.
    sbind (lift_r (validate_global_node a) s) (\<lambda>_ s.
      (Ok (bt_get (sw_nodes s) a), rebuild_pipeline ops (s\<lparr>sw_nodes := bt_insert (sw_nodes s) a port\<rparr>))))"

definition remove_node :: "'p p4_ops \<Rightarrow> 'p StaticP4Switch \<Rightarrow> GdpAddress \<Rightarrow> SwitchPortId option \<times> 'p StaticP4Switch" where
  "remove_node ops s a =
    (let previous = bt_get (sw_nodes s) a; s' = s\<lparr>sw_nodes := bt_remove (sw_nodes s) a\<rparr> in
     (previous, if previous \<noteq> None then rebuild_pipeline ops s' else s'))"

definition switch_output :: "'p StaticP4Switch \<Rightarrow> SwitchPortId \<Rightarrow> u64 \<Rightarrow> (bytes \<times> u16) list \<Rightarrow> SwitchDisposition result" where
  "switch_output s ingress local_prefix outs = (case outs of
      [] \<Rightarrow> Ok SwDrop
    | [(bs, port)] \<Rightarrow>
        if sw_port_count s \<le> port \<or> port = ingress then Ok SwDrop
        else rbind (gdp_packet_decode bs gdp_wire_config_default local_prefix) (\<lambda>packet. Ok (SwForward port packet))
    | _ \<Rightarrow> Err InvalidState)"

definition switch_process :: "'p p4_ops \<Rightarrow> 'p StaticP4Switch \<Rightarrow> SwitchPortId \<Rightarrow> GdpPacket \<Rightarrow> ('p StaticP4Switch, SwitchDisposition) outcome" where
  "switch_process ops s ingress packet =
    sbind (lift_r (validate_switch_port s ingress) s) (\<lambda>_ s.
    sbind (lift_r (gdp_packet_encode packet gdp_wire_config_default) s) (\<lambda>bs s.
      case p4_process ops (sw_pipeline s) ingress bs of (outs, pl) \<Rightarrow>
        (switch_output s ingress (packet_local_prefix packet) outs, s\<lparr>sw_pipeline := pl\<rparr>)))"

section \<open>The P4 program\<close>

definition switch_action :: "string \<Rightarrow> bytes \<Rightarrow> egress_metadata \<Rightarrow> egress_metadata" where
  "switch_action name params eg =
    (if name = ''drop'' then eg\<lparr>eg_drop := True, eg_decided := True\<rparr>
     else if name = ''forward'' then eg\<lparr>eg_port := from_le params, eg_transit := False, eg_decided := True\<rparr>
     else eg)"

definition switch_lookup :: "(p4_entry \<Rightarrow> bool) \<Rightarrow> p4_entry list \<Rightarrow> string \<Rightarrow> egress_metadata \<Rightarrow> egress_metadata" where
  "switch_lookup P es default_action eg = (case List.find P es of
      Some e \<Rightarrow> switch_action (te_action e) (te_params e) eg
    | None \<Rightarrow> switch_action default_action [] eg)"

definition node_match :: "u32 \<Rightarrow> u32 \<Rightarrow> p4_entry \<Rightarrow> bool" where
  "node_match hi lo e \<longleftrightarrow> te_table e = ''ingress.global_nodes'' \<and> te_key e = to_le 4 hi @ to_le 4 lo"

definition suffix_match :: "u16 \<Rightarrow> p4_entry \<Rightarrow> bool" where
  "suffix_match d e \<longleftrightarrow> te_table e = ''ingress.local_nodes'' \<and> te_key e = to_le 2 d"

definition uplink_match :: "u16 \<Rightarrow> p4_entry \<Rightarrow> bool" where
  "uplink_match ingress e \<longleftrightarrow> te_table e = ''ingress.default_router'' \<and> te_key e = to_le 2 ingress"

definition is_local_form :: "bytes \<Rightarrow> bool" where
  "is_local_form bs \<longleftrightarrow> bit (from_be (take 4 bs) :: u32) 21"

definition switch_ingress :: "p4_entry list \<Rightarrow> u16 \<Rightarrow> bytes \<Rightarrow> egress_metadata" where
  "switch_ingress es ingress bs =
    (let eg = \<lparr>eg_port = 0, eg_drop = False, eg_transit = False, eg_decided = False\<rparr> in
     if \<not> is_local_form bs then
       let eg = switch_lookup (node_match (from_be (take 4 (drop 4 bs))) (from_be (take 4 (drop 8 bs)))) es ''allow'' eg in
       if \<not> eg_decided eg then switch_lookup (uplink_match ingress) es ''drop'' eg else eg
     else switch_lookup (suffix_match (from_be (take 2 (drop 4 bs)))) es ''drop'' eg)"

definition switch_p4 :: "p4_entry list \<Rightarrow> u16 \<Rightarrow> bytes \<Rightarrow> (bytes \<times> u16) list" where
  "switch_p4 es ingress bs = (let eg = switch_ingress es ingress bs in if eg_drop eg then [] else [(bs, eg_port eg)])"

text \<open>The hypothesis on the generated pipeline: where the entries that a packet matches agree, it processes the packet
  as the P4 program does, and leaves the tables as they are.\<close>

definition agreeing :: "(p4_entry \<Rightarrow> bool) \<Rightarrow> p4_entry list \<Rightarrow> bool" where
  "agreeing P es \<longleftrightarrow> (\<forall>e\<in>set es. \<forall>e'\<in>set es. P e \<and> P e' \<longrightarrow> te_action e = te_action e' \<and> te_params e = te_params e')"

definition lookups_agree :: "p4_entry list \<Rightarrow> u16 \<Rightarrow> bytes \<Rightarrow> bool" where
  "lookups_agree es ingress bs \<longleftrightarrow>
    (if is_local_form bs then agreeing (suffix_match (from_be (take 2 (drop 4 bs)))) es
     else agreeing (node_match (from_be (take 4 (drop 4 bs))) (from_be (take 4 (drop 8 bs)))) es \<and> agreeing (uplink_match ingress) es)"

definition runs_switch_p4 :: "'p p4_ops \<Rightarrow> bool" where
  "runs_switch_p4 ops \<longleftrightarrow> (\<forall>radix es ingress bs. lookups_agree es ingress bs \<longrightarrow>
     p4_process ops (p4_fill ops (p4_new ops radix) es) ingress bs =
     (switch_p4 es ingress bs, p4_fill ops (p4_new ops radix) es))"

definition list_switch :: "p4_entry list p4_ops" where
  "list_switch = list_pipeline\<lparr>p4_process := \<lambda>es ingress bs. (switch_p4 es ingress bs, es)\<rparr>"

lemma list_switch_runs: "runs_switch_p4 list_switch"
proof -
  have "p4_fill list_switch es es' = es @ es'" for es es'
    by (induction es' arbitrary: es) (simp_all add: p4_fill_def list_switch_def list_pipeline_def)
  then show ?thesis unfolding runs_switch_p4_def by (simp add: list_switch_def list_pipeline_def)
qed

section \<open>The tables of a switch\<close>

definition node_entries :: "GdpAddress \<times> SwitchPortId \<Rightarrow> p4_entry list" where
  "node_entries n =
    [\<lparr>te_table = ''ingress.global_nodes'', te_action = ''forward'', te_key = to_le 4 (hi32 (fst n)) @ to_le 4 (lo32 (fst n)), te_params = to_le 2 (snd n)\<rparr>,
     \<lparr>te_table = ''ingress.local_nodes'', te_action = ''forward'', te_key = to_le 2 (ucast (fst n) :: u16), te_params = to_le 2 (snd n)\<rparr>]"

definition uplink_entry :: "SwitchPortId \<Rightarrow> SwitchPortId \<Rightarrow> p4_entry" where
  "uplink_entry router ingress =
    \<lparr>te_table = ''ingress.default_router'', te_action = ''forward'', te_key = to_le 2 ingress, te_params = to_le 2 router\<rparr>"

definition switch_entries :: "'p StaticP4Switch \<Rightarrow> p4_entry list" where
  "switch_entries s = concat (map node_entries (sw_nodes s)) @
    (case sw_default_router_port s of None \<Rightarrow> []
     | Some router \<Rightarrow> map (uplink_entry router) (filter (\<lambda>p. p \<noteq> router) (ports_below (sw_port_count s))))"

definition switch_inv :: "'p p4_ops \<Rightarrow> 'p StaticP4Switch \<Rightarrow> bool" where
  "switch_inv ops s \<longleftrightarrow> bt_inv (sw_nodes s) \<and> (\<forall>a p. bt_get (sw_nodes s) a = Some p \<longrightarrow> p < sw_port_count s) \<and>
    (\<forall>p. sw_default_router_port s = Some p \<longrightarrow> p < sw_port_count s) \<and>
    sw_pipeline s = p4_fill ops (p4_new ops (sw_port_count s)) (switch_entries s)"

lemma p4_fill_append: "p4_fill ops pl (es @ es') = p4_fill ops (p4_fill ops pl es) es'"
  by (simp add: p4_fill_def)

lemma program_node_fill: "program_node ops pl n = p4_fill ops pl (node_entries n)"
  by (simp add: program_node_def program_local_node_def program_global_node_def p4_fill_def node_entries_def hi32_def lo32_def)

lemma rebuild_pipeline_eq:
  "rebuild_pipeline ops s = s\<lparr>sw_pipeline := p4_fill ops (p4_new ops (sw_port_count s)) (switch_entries s)\<rparr>"
proof -
  have nodes: "foldl (program_node ops) pl ns = p4_fill ops pl (concat (map node_entries ns))" for pl ns
    by (induction ns arbitrary: pl) (simp_all add: program_node_fill p4_fill_append, simp add: p4_fill_def)
  have uplinks: "foldl (\<lambda>pl ingress. if ingress \<noteq> router then program_default_router ops pl ingress router else pl) pl ports =
      p4_fill ops pl (map (uplink_entry router) (filter (\<lambda>p. p \<noteq> router) ports))" for pl ports router
    by (induction ports arbitrary: pl) (simp_all add: p4_fill_def program_default_router_def uplink_entry_def)
  show ?thesis unfolding rebuild_pipeline_def switch_entries_def Let_def nodes uplinks
    by (simp add: p4_fill_append split: option.split) (simp add: p4_fill_def)
qed

lemma rebuild_fields [simp]: "sw_port_count (rebuild_pipeline ops s) = sw_port_count s" "sw_nodes (rebuild_pipeline ops s) = sw_nodes s"
  "sw_default_router_port (rebuild_pipeline ops s) = sw_default_router_port s"
  by (simp_all add: rebuild_pipeline_eq)

lemma switch_entries_pipeline [simp]: "switch_entries (s\<lparr>sw_pipeline := pl\<rparr>) = switch_entries s"
  by (cases "sw_default_router_port s") (simp_all add: switch_entries_def)

lemma rebuild_inv:
  "bt_inv (sw_nodes s) \<Longrightarrow> (\<And>a p. bt_get (sw_nodes s) a = Some p \<Longrightarrow> p < sw_port_count s) \<Longrightarrow>
   (\<And>p. sw_default_router_port s = Some p \<Longrightarrow> p < sw_port_count s) \<Longrightarrow> switch_inv ops (rebuild_pipeline ops s)"
  by (simp add: switch_inv_def rebuild_pipeline_eq)

section \<open>Management\<close>

datatype switch_call = SetRouter SwitchPortId | ClearRouter | Register GdpAddress SwitchPortId | Remove GdpAddress

fun switch_do :: "'p p4_ops \<Rightarrow> 'p StaticP4Switch \<Rightarrow> switch_call \<Rightarrow> 'p StaticP4Switch" where
  "switch_do ops s (SetRouter port) = snd (set_default_router_port ops s port)"
| "switch_do ops s ClearRouter = snd (clear_default_router_port ops s)"
| "switch_do ops s (Register a port) = snd (register_node ops s a port)"
| "switch_do ops s (Remove a) = snd (remove_node ops s a)"

lemma switch_do_inv:
  assumes "switch_inv ops s"
  shows "switch_inv ops (switch_do ops s c)"
proof (cases c)
  case (Register a port)
  show ?thesis
  proof (cases "sw_port_count s \<le> port \<or> validate_global_node a \<noteq> Ok ()")
    case True
    then have "switch_do ops s c = s"
      using Register by (cases "validate_global_node a") (auto simp: register_node_def validate_switch_port_def lift_r_def)
    then show ?thesis using assms by simp
  next
    case False
    then have "switch_do ops s c = rebuild_pipeline ops (s\<lparr>sw_nodes := bt_insert (sw_nodes s) a port\<rparr>)"
      using Register by (simp add: register_node_def validate_switch_port_def lift_r_def)
    moreover have "switch_inv ops (rebuild_pipeline ops (s\<lparr>sw_nodes := bt_insert (sw_nodes s) a port\<rparr>))"
      using assms False by (intro rebuild_inv) (auto simp: switch_inv_def bt.inv_ins bt.get_ins not_le split: if_splits)
    ultimately show ?thesis by simp
  qed
next
  case (Remove a)
  show ?thesis
  proof (cases "bt_get (sw_nodes s) a")
    case None
    then have "bt_remove (sw_nodes s) a = sw_nodes s"
      by (auto simp: bt_remove_def bt_get_def map_of_eq_None_iff intro!: filter_True)
    then show ?thesis using assms Remove None by (simp add: remove_node_def Let_def)
  next
    case (Some p)
    have "switch_inv ops (rebuild_pipeline ops (s\<lparr>sw_nodes := bt_remove (sw_nodes s) a\<rparr>))"
      using assms by (intro rebuild_inv) (auto simp: switch_inv_def bt.inv_del bt.get_del split: if_splits)
    then show ?thesis using Remove Some by (simp add: remove_node_def Let_def)
  qed
next
  case (SetRouter port)
  then show ?thesis using assms rebuild_inv[of "s\<lparr>sw_default_router_port := Some port\<rparr>" ops]
    by (auto simp: set_default_router_port_def validate_switch_port_def lift_r_def switch_inv_def not_le)
next
  case ClearRouter
  show ?thesis
  proof (cases "sw_default_router_port s")
    case None
    then have "switch_do ops s c = s" using ClearRouter by (cases s) (simp add: clear_default_router_port_def Let_def)
    then show ?thesis using assms by simp
  next
    case (Some p)
    then show ?thesis using assms rebuild_inv[of "s\<lparr>sw_default_router_port := None\<rparr>" ops] ClearRouter
      by (simp add: clear_default_router_port_def Let_def switch_inv_def)
  qed
qed

lemma with_port_count_inv: "with_port_count ops n = Ok s \<Longrightarrow> switch_inv ops s"
  by (auto simp: with_port_count_def switch_inv_def switch_entries_def p4_fill_def bt_get_def split: if_splits)

section \<open>Lookups\<close>

lemma le_inject: "to_le n (x :: 'a::len word) = to_le n y \<longleftrightarrow> x = y" if "LENGTH('a) \<le> 8 * n"
  using that by (metis from_le_to_le)

lemma hi_lo_inject: "hi32 a = hi32 b \<and> lo32 a = lo32 b \<longleftrightarrow> a = b"
proof -
  have "a = b" if "hi32 a = hi32 b" "lo32 a = lo32 b"
  proof -
    have "to_be 8 a = to_be 8 b" unfolding to_be_8_split that ..
    then have "(from_be (to_be 8 a) :: u64) = from_be (to_be 8 b)" by (rule arg_cong)
    then show ?thesis by (simp del: to_be.simps)
  qed
  then show ?thesis by auto
qed

lemma entries_of_table:
  "node_match (hi32 d) (lo32 d) e \<Longrightarrow> e \<in> set (switch_entries s) \<Longrightarrow> \<exists>p. (d, p) \<in> set (sw_nodes s) \<and> te_action e = ''forward'' \<and> te_params e = to_le 2 p"
  "suffix_match x e \<Longrightarrow> e \<in> set (switch_entries s) \<Longrightarrow> \<exists>a p. (a, p) \<in> set (sw_nodes s) \<and> ucast a = x \<and> te_action e = ''forward'' \<and> te_params e = to_le 2 p"
  "uplink_match ingress e \<Longrightarrow> e \<in> set (switch_entries s) \<Longrightarrow> \<exists>router. sw_default_router_port s = Some router \<and> ingress \<noteq> router
     \<and> te_action e = ''forward'' \<and> te_params e = to_le 2 router"
proof -
  note D = switch_entries_def node_entries_def uplink_entry_def node_match_def suffix_match_def uplink_match_def
  show "node_match (hi32 d) (lo32 d) e \<Longrightarrow> e \<in> set (switch_entries s) \<Longrightarrow> \<exists>p. (d, p) \<in> set (sw_nodes s) \<and> te_action e = ''forward'' \<and> te_params e = to_le 2 p"
    by (auto simp: D le_inject hi_lo_inject append_eq_append_conv split: option.splits)
  show "suffix_match x e \<Longrightarrow> e \<in> set (switch_entries s) \<Longrightarrow> \<exists>a p. (a, p) \<in> set (sw_nodes s) \<and> ucast a = x \<and> te_action e = ''forward'' \<and> te_params e = to_le 2 p"
    by (auto simp: D le_inject split: option.splits)
  show "uplink_match ingress e \<Longrightarrow> e \<in> set (switch_entries s) \<Longrightarrow> \<exists>router. sw_default_router_port s = Some router \<and> ingress \<noteq> router
     \<and> te_action e = ''forward'' \<and> te_params e = to_le 2 router"
    by (auto simp: D le_inject split: option.splits)
qed

lemma nodes_get: "bt_inv m \<Longrightarrow> (k, v) \<in> set m \<longleftrightarrow> bt_get m k = Some v"
  by (auto simp: bt_get_def bt_inv_def distinct_map strict_sorted_iff map_of_eq_Some_iff)

lemma lookup_find:
  assumes "agreeing P es"
  shows "(\<exists>e\<in>set es. P e \<and> te_action e = ''forward'' \<and> te_params e = to_le 2 p) \<Longrightarrow>
      switch_lookup P es dflt eg = eg\<lparr>eg_port := p, eg_transit := False, eg_decided := True\<rparr>"
    and "\<forall>e\<in>set es. \<not> P e \<Longrightarrow> switch_lookup P es dflt eg = switch_action dflt [] eg"
proof -
  assume "\<exists>e\<in>set es. P e \<and> te_action e = ''forward'' \<and> te_params e = to_le 2 p"
  then obtain e where e: "e \<in> set es" "P e" "te_action e = ''forward''" "te_params e = to_le 2 p" by blast
  then obtain e' where f: "List.find P es = Some e'" using find_None_iff[of P es] by (cases "List.find P es") auto
  then have "e' \<in> set es" "P e'" by (auto simp: find_Some_iff)
  then have "te_action e' = ''forward''" "te_params e' = to_le 2 p" using assms e unfolding agreeing_def by metis+
  then show "switch_lookup P es dflt eg = eg\<lparr>eg_port := p, eg_transit := False, eg_decided := True\<rparr>"
    by (simp add: switch_lookup_def f switch_action_def)
next
  assume "\<forall>e\<in>set es. \<not> P e"
  then have "List.find P es = None" by (auto simp: find_None_iff)
  then show "switch_lookup P es dflt eg = switch_action dflt [] eg" by (simp add: switch_lookup_def)
qed

lemma ports_below_set: "p \<in> set (ports_below n) \<longleftrightarrow> p < n"
proof
  show "p \<in> set (ports_below n) \<Longrightarrow> p < n"
    by (auto simp: ports_below_def word_less_nat_alt unat_of_nat intro: le_less_trans[OF take_bit_nat_less_eq_self])
  assume "p < n"
  then have "unat p \<in> {0..<unat n}" by (simp add: word_less_nat_alt)
  then show "p \<in> set (ports_below n)" by (auto simp: ports_below_def intro!: image_eqI[of _ _ "unat p"])
qed

lemma switch_tables:
  assumes "switch_inv ops s"
  shows "agreeing (node_match (hi32 d) (lo32 d)) (switch_entries s)" "agreeing (uplink_match ingress) (switch_entries s)"
    "bt_get (sw_nodes s) d = Some p \<Longrightarrow> \<exists>e\<in>set (switch_entries s). node_match (hi32 d) (lo32 d) e \<and> te_action e = ''forward'' \<and> te_params e = to_le 2 p"
    "bt_get (sw_nodes s) d = None \<Longrightarrow> \<forall>e\<in>set (switch_entries s). \<not> node_match (hi32 d) (lo32 d) e"
    "sw_default_router_port s = Some r \<Longrightarrow> ingress < sw_port_count s \<Longrightarrow> ingress \<noteq> r \<Longrightarrow>
      \<exists>e\<in>set (switch_entries s). uplink_match ingress e \<and> te_action e = ''forward'' \<and> te_params e = to_le 2 r"
    "sw_default_router_port s = None \<or> sw_default_router_port s = Some ingress \<Longrightarrow> \<forall>e\<in>set (switch_entries s). \<not> uplink_match ingress e"
    "bt_get (sw_nodes s) a = Some q \<Longrightarrow>
      \<exists>e\<in>set (switch_entries s). suffix_match (ucast a) e \<and> te_action e = ''forward'' \<and> te_params e = to_le 2 q"
proof -
  have get: "(k, v) \<in> set (sw_nodes s) \<longleftrightarrow> bt_get (sw_nodes s) k = Some v" for k v using assms by (simp add: switch_inv_def nodes_get)
  show "agreeing (node_match (hi32 d) (lo32 d)) (switch_entries s)"
    unfolding agreeing_def using get by (auto dest!: entries_of_table(1))
  show "agreeing (uplink_match ingress) (switch_entries s)"
    unfolding agreeing_def by (auto dest!: entries_of_table(3))
  show "bt_get (sw_nodes s) d = None \<Longrightarrow> \<forall>e\<in>set (switch_entries s). \<not> node_match (hi32 d) (lo32 d) e"
    using get by (auto dest!: entries_of_table(1))
  show "sw_default_router_port s = None \<or> sw_default_router_port s = Some ingress \<Longrightarrow> \<forall>e\<in>set (switch_entries s). \<not> uplink_match ingress e"
    by (auto dest!: entries_of_table(3))
  { assume "bt_get (sw_nodes s) d = Some p"
    then have "node_entries (d, p) ! 0 \<in> set (switch_entries s)" using get[of d p] by (force simp: switch_entries_def node_entries_def)
    then show "\<exists>e\<in>set (switch_entries s). node_match (hi32 d) (lo32 d) e \<and> te_action e = ''forward'' \<and> te_params e = to_le 2 p"
      by (rule bexI[rotated]) (simp add: node_entries_def node_match_def) }
  { assume "bt_get (sw_nodes s) a = Some q"
    then have "node_entries (a, q) ! 1 \<in> set (switch_entries s)" using get[of a q] by (force simp: switch_entries_def node_entries_def)
    then show "\<exists>e\<in>set (switch_entries s). suffix_match (ucast a) e \<and> te_action e = ''forward'' \<and> te_params e = to_le 2 q"
      by (rule bexI[rotated]) (simp add: node_entries_def suffix_match_def) }
  assume "sw_default_router_port s = Some r" "ingress < sw_port_count s" "ingress \<noteq> r"
  then have "uplink_entry r ingress \<in> set (switch_entries s)" by (simp add: switch_entries_def ports_below_set)
  then show "\<exists>e\<in>set (switch_entries s). uplink_match ingress e \<and> te_action e = ''forward'' \<and> te_params e = to_le 2 r"
    by (rule bexI[rotated]) (simp add: uplink_entry_def uplink_match_def)
qed

section \<open>Packets through the switch\<close>

lemma word1_local_form:
  "addresses h = AddrLocal d s p \<Longrightarrow> bit (gdp_word1 h gdp_wire_config_default c) 21"
  by (simp add: gdp_word1_def gdp_wire_config_default_def bit_simps)

lemma local_packet_bytes:
  fixes payload :: bytes
  assumes "gdp_header_wf h" "addresses h = AddrLocal d s p"
  defines "bs \<equiv> gdp_header_bytes h gdp_wire_config_default @ payload"
  shows "is_local_form bs" "from_be (take 2 (drop 4 bs)) = d"
proof -
  let ?w = "gdp_word1 h gdp_wire_config_default (gdp_true_crc h gdp_wire_config_default)"
  have bs: "bs = to_be 4 ?w @ to_be 2 d @ to_be 2 s @ payload"
    using assms(2) by (simp add: bs_def gdp_header_bytes_def to_be_4_pair del: to_be.simps)
  show "is_local_form bs" using word1_local_form[OF assms(2)] by (simp add: bs is_local_form_def del: to_be.simps)
  show "from_be (take 2 (drop 4 bs)) = d" by (simp add: bs del: to_be.simps)
qed

definition switch_to :: "SwitchPortId \<Rightarrow> GdpPacket \<Rightarrow> SwitchPortId option \<Rightarrow> SwitchDisposition" where
  "switch_to ingress pk out = (case out of Some port \<Rightarrow> if port = ingress then SwDrop else SwForward port pk | None \<Rightarrow> SwDrop)"

lemma switch_process_eq:
  assumes "runs_switch_p4 ops" "switch_inv ops s" "gdp_packet_wf pk" "ingress < sw_port_count s"
    and agree: "lookups_agree (switch_entries s) ingress (gdp_header_bytes (pkt_header pk) gdp_wire_config_default @ pkt_payload pk)"
    and port: "switch_p4 (switch_entries s) ingress (gdp_header_bytes (pkt_header pk) gdp_wire_config_default @ pkt_payload pk) =
      (case out of Some port \<Rightarrow> [(gdp_header_bytes (pkt_header pk) gdp_wire_config_default @ pkt_payload pk, port)] | None \<Rightarrow> [])"
    and "\<And>port. out = Some port \<Longrightarrow> port < sw_port_count s"
  shows "fst (switch_process ops s ingress pk) = Ok (switch_to ingress pk out)"
proof -
  have "gdp_header_wf (pkt_header pk)" using assms(3) by (simp add: gdp_packet_wf_def)
  then have "prefix_matches (pkt_header pk) (packet_local_prefix pk)"
    by (auto simp: prefix_matches_def packet_local_prefix_def gdp_header_wf_def split: GdpAddresses.splits)
  from gdp_packet_decode_eq[OF assms(3) this, of gdp_wire_config_default] show ?thesis
    using assms(1,2,4,7) agree port
    by (cases out) (simp_all add: switch_process_def validate_switch_port_def not_le[symmetric] lift_r_def gdp_packet_encode_eq[OF assms(3)]
        switch_inv_def runs_switch_p4_def switch_output_def switch_to_def)
qed

lemma switch_global:
  fixes payload :: bytes
  assumes "switch_inv ops s" "gdp_header_wf h" "addresses h = AddrGlobal d sr" "ingress < sw_port_count s"
  defines "bs \<equiv> gdp_header_bytes h gdp_wire_config_default @ payload"
  shows "lookups_agree (switch_entries s) ingress bs"
    and "switch_p4 (switch_entries s) ingress bs = (case bt_get (sw_nodes s) d of Some port \<Rightarrow> [(bs, port)] | None \<Rightarrow>
      (case sw_default_router_port s of Some router \<Rightarrow> if router = ingress then [] else [(bs, router)] | None \<Rightarrow> []))"
proof -
  note B = global_packet_bytes[OF assms(2,3), where payload = payload, folded bs_def]
  note T = switch_tables[OF assms(1)]
  have g: "\<not> is_local_form bs" using B(1) by (simp add: is_local_form_def)
  then show "lookups_agree (switch_entries s) ingress bs" using T(1,2) B(2,3) by (simp add: lookups_agree_def)
  have D: "switch_ingress (switch_entries s) ingress bs = (let eg = switch_lookup (node_match (hi32 d) (lo32 d)) (switch_entries s) ''allow''
      \<lparr>eg_port = 0, eg_drop = False, eg_transit = False, eg_decided = False\<rparr> in
      if \<not> eg_decided eg then switch_lookup (uplink_match ingress) (switch_entries s) ''drop'' eg else eg)"
    using g B(2,3) by (simp add: switch_ingress_def)
  show "switch_p4 (switch_entries s) ingress bs = (case bt_get (sw_nodes s) d of Some port \<Rightarrow> [(bs, port)] | None \<Rightarrow>
      (case sw_default_router_port s of Some router \<Rightarrow> if router = ingress then [] else [(bs, router)] | None \<Rightarrow> []))"
  proof (cases "bt_get (sw_nodes s) d")
    case (Some port)
    then show ?thesis using lookup_find(1)[OF T(1) T(3)] by (simp add: switch_p4_def D)
  next
    case None
    note n = lookup_find(2)[OF T(1) T(4)[OF None]]
    show ?thesis
    proof (cases "sw_default_router_port s = None \<or> sw_default_router_port s = Some ingress")
      case True
      then show ?thesis using None n lookup_find(2)[OF T(2) T(6)[OF True]] by (auto simp: switch_p4_def D switch_action_def)
    next
      case False
      then obtain router where r: "sw_default_router_port s = Some router" "router \<noteq> ingress" by auto
      then show ?thesis using None n lookup_find(1)[OF T(2) T(5)[OF r(1) assms(4)]] by (simp add: switch_p4_def D switch_action_def)
    qed
  qed
qed

text \<open>C14. The switch delivers to where nodes are registered: after any management calls, accepted or refused, a globally addressed
  packet goes, unchanged, to the port where its destination is registered, and if it is registered nowhere to the
  port of the router, if one is set; it never leaves by the port it came in. A local packet goes to the node with its
  address suffix, provided all nodes with that suffix are at one port.\<close>

theorem switch_delivers_to_registered_port:
  assumes "runs_switch_p4 ops" "with_port_count ops n = Ok s0" "s = foldl (switch_do ops) s0 calls"
    and pk: "gdp_packet_wf pk" and "ingress < sw_port_count s"
  shows "(\<forall>d src. addresses (pkt_header pk) = AddrGlobal d src \<longrightarrow> fst (switch_process ops s ingress pk) =
      Ok (switch_to ingress pk (case node_port s d of Some port \<Rightarrow> Some port | None \<Rightarrow> sw_default_router_port s))) \<and>
    (\<forall>a port d src p. addresses (pkt_header pk) = AddrLocal d src p \<longrightarrow> node_port s a = Some port \<longrightarrow> ucast a = d \<longrightarrow>
      (\<forall>b q. node_port s b = Some q \<longrightarrow> ucast b = d \<longrightarrow> q = port) \<longrightarrow>
      fst (switch_process ops s ingress pk) = Ok (switch_to ingress pk (Some port)))"
proof -
  let ?bs = "gdp_header_bytes (pkt_header pk) gdp_wire_config_default @ pkt_payload pk"
  have s: "switch_inv ops s" unfolding assms(3) by (rule foldl_inv) (auto intro: switch_do_inv with_port_count_inv[OF assms(2)])
  have h: "gdp_header_wf (pkt_header pk)" using pk by (simp add: gdp_packet_wf_def)
  note P = switch_process_eq[OF assms(1) s pk assms(5)]
  have below: "port < sw_port_count s" if "bt_get (sw_nodes s) a = Some port \<or> sw_default_router_port s = Some port" for a port
    using s that by (auto simp: switch_inv_def)
  show ?thesis
  proof (intro conjI allI impI)
    fix d src assume d: "addresses (pkt_header pk) = AddrGlobal d src"
    note G = switch_global[OF s h d assms(5), of "pkt_payload pk"]
    let ?out = "case bt_get (sw_nodes s) d of Some port \<Rightarrow> Some port | None \<Rightarrow>
      (case sw_default_router_port s of Some router \<Rightarrow> if router = ingress then None else Some router | None \<Rightarrow> None)"
    have "fst (switch_process ops s ingress pk) = Ok (switch_to ingress pk ?out)"
      by (rule P[OF G(1)]) (use G(2) below in \<open>auto split: option.splits if_splits\<close>)
    then show "fst (switch_process ops s ingress pk) =
        Ok (switch_to ingress pk (case node_port s d of Some port \<Rightarrow> Some port | None \<Rightarrow> sw_default_router_port s))"
      by (auto simp: node_port_def switch_to_def split: option.splits)
  next
    fix a port d src p
    assume d: "addresses (pkt_header pk) = AddrLocal d src p" and a: "node_port s a = Some port" "ucast a = d"
      and same: "\<forall>b q. node_port s b = Some q \<longrightarrow> ucast b = d \<longrightarrow> q = port"
    note B = local_packet_bytes[OF h d, where payload = "pkt_payload pk"]
    have "te_action e = ''forward'' \<and> te_params e = to_le 2 port" if "suffix_match d e" "e \<in> set (switch_entries s)" for e
      using entries_of_table(2)[OF that] same s by (auto simp: node_port_def switch_inv_def nodes_get)
    then have agree: "agreeing (suffix_match d) (switch_entries s)" unfolding agreeing_def by metis
    note L = lookup_find(1)[OF agree switch_tables(7)[OF s a(1)[unfolded node_port_def], unfolded a(2)]]
    show "fst (switch_process ops s ingress pk) = Ok (switch_to ingress pk (Some port))"
      by (rule P) (use B agree L below[of a port] a in \<open>simp_all add: lookups_agree_def switch_p4_def switch_ingress_def node_port_def\<close>)
  qed
qed

theorem switch_delivers_to_registered_port_witness:
  "\<exists>s0 s. with_port_count list_switch 8 = Ok s0 \<and>
    s = foldl (switch_do list_switch) s0 [Register 0x1122000000000077 3, Register 0xfe80000000000001 4, SetRouter 5, SetRouter 9] \<and>
    fst (switch_process list_switch s 0 sample_packet) = Ok (SwForward 3 sample_packet) \<and>
    fst (switch_process list_switch s 0 (sample_packet\<lparr>pkt_header := gdp_header_global Gts Tiny3 7 0x99 0x44\<rparr>)) =
      Ok (SwForward 5 (sample_packet\<lparr>pkt_header := gdp_header_global Gts Tiny3 7 0x99 0x44\<rparr>))"
proof -
  let ?q = "sample_packet\<lparr>pkt_header := gdp_header_global Gts Tiny3 7 0x99 0x44\<rparr>"
  obtain s0 where s0: "with_port_count list_switch 8 = Ok s0" "sw_port_count s0 = 8" "sw_nodes s0 = []" "sw_default_router_port s0 = None"
    by (simp add: with_port_count_def switch_max_port_count_def)
  let ?s = "foldl (switch_do list_switch) s0 [Register 0x1122000000000077 3, Register 0xfe80000000000001 4, SetRouter 5, SetRouter 9]"
  have v: "validate_global_node 0x1122000000000077 = Ok ()" "validate_global_node 0xfe80000000000001 = Err InvalidField" by code_simp+
  define s1 where "s1 = rebuild_pipeline list_switch (s0\<lparr>sw_nodes := [(0x1122000000000077, 3)]\<rparr>)"
  define s2 where "s2 = rebuild_pipeline list_switch (s1\<lparr>sw_default_router_port := Some 5\<rparr>)"
  have c: "sw_port_count s1 = 8" "sw_port_count s2 = 8" using s0(2) by (simp_all add: s1_def s2_def)
  have "switch_do list_switch s0 (Register 0x1122000000000077 3) = s1" "switch_do list_switch s1 (Register 0xfe80000000000001 4) = s1"
    "switch_do list_switch s1 (SetRouter 5) = s2" "switch_do list_switch s2 (SetRouter 9) = s2"
    using v s0(2,3) c by (simp_all add: register_node_def set_default_router_port_def validate_switch_port_def lift_r_def) (simp_all add: s1_def s2_def)
  then have fin: "?s = s2" by simp
  have s: "sw_port_count s2 = 8" "sw_nodes s2 = [(0x1122000000000077, 3)]" "sw_default_router_port s2 = Some 5"
    using c(2) by (simp_all add: s2_def s1_def)
  have pk: "gdp_packet_wf sample_packet" "gdp_packet_wf ?q" "0 < sw_port_count s2" "addresses (pkt_header sample_packet) = AddrGlobal 0x1122000000000077 0x99"
    "addresses (pkt_header ?q) = AddrGlobal 0x44 0x99"
    using s(1) by (simp_all add: gdp_packet_wf_def gdp_header_wf_def sample_packet_def gdp_header_global_def size_class_bytes_def)
  note delivers = switch_delivers_to_registered_port[OF list_switch_runs s0(1) fin[symmetric] _ pk(3), THEN conjunct1, rule_format]
  have "fst (switch_process list_switch s2 0 sample_packet) = Ok (SwForward 3 sample_packet)"
    "fst (switch_process list_switch s2 0 ?q) = Ok (SwForward 5 ?q)"
    unfolding delivers[OF pk(1,4)] delivers[OF pk(2,5)] using s(2,3) by (simp_all add: node_port_def bt_get_def switch_to_def)
  then show ?thesis using s0(1) fin by metis
qed

end
