(* ===== verification/Endpoint_Core.thy ===== *)
theory Endpoint_Core
  imports Gts_Stream Gctl Dlp "HOL-Library.List_Lexorder"
begin

text \<open>
  The endpoint of src/src/endpoint/core.rs, first part: configuration and state, sending of control and transport
  packets, credit on the link, and address assignment, for the client and for the authority that leases addresses.
  The transport handlers follow in \<open>Endpoint_Gts\<close>. The lemmas of this theory are about address assignment: an
  authority never leases an address twice and never hands out its own.
\<close>

section \<open>The order on service selectors\<close>

text \<open>The derived order of the byte array, which is lexicographic.\<close>

instantiation ServiceSelector :: linorder
begin

definition less_eq_ServiceSelector :: "ServiceSelector \<Rightarrow> ServiceSelector \<Rightarrow> bool" where
  "less_eq_ServiceSelector a b \<longleftrightarrow> selector_bytes a \<le> selector_bytes b"

definition less_ServiceSelector :: "ServiceSelector \<Rightarrow> ServiceSelector \<Rightarrow> bool" where
  "less_ServiceSelector a b \<longleftrightarrow> selector_bytes a < selector_bytes b"

instance
proof
  fix x y z :: ServiceSelector
  show "(x < y) = (x \<le> y \<and> \<not> y \<le> x)" by (auto simp: less_eq_ServiceSelector_def less_ServiceSelector_def)
  show "x \<le> x" by (simp add: less_eq_ServiceSelector_def)
  show "x \<le> y \<Longrightarrow> y \<le> z \<Longrightarrow> x \<le> z" by (auto simp: less_eq_ServiceSelector_def)
  show "x \<le> y \<Longrightarrow> y \<le> x \<Longrightarrow> x = y" by (cases x; cases y) (auto simp: less_eq_ServiceSelector_def)
  show "x \<le> y \<or> y \<le> x" by (auto simp: less_eq_ServiceSelector_def)
qed

end

section \<open>Configuration\<close>

definition link_local_prefix :: u64 where
  "link_local_prefix = 0xfe80000000000000"

definition link_local_suffix_mask :: u64 where
  "link_local_suffix_mask = 0x0000ffffffffffff"

definition bootstrap_address :: GdpAddress where
  "bootstrap_address = link_local_prefix"

definition make_link_local :: "u64 \<Rightarrow> GdpAddress result" where
  "make_link_local suffix =
    (let suffix = suffix AND link_local_suffix_mask in
     if suffix = 0 then Err InvalidField else Ok (link_local_prefix OR suffix))"

type_synonym TunnelHandle = u32

record ListenerConfig =
  lc_receive_slots :: u8

definition listener_config_default :: ListenerConfig where
  "listener_config_default = \<lparr>lc_receive_slots = 32\<rparr>"

record EndpointConfig =
  ec_rx_buffer_flits :: u32
  ec_vc_mode :: VcMode
  ec_gts_receive_slots :: u8
  ec_local_context_prefix :: "u64 option"
  ec_prefer_local_gdp :: bool
  ec_credit_update_threshold :: u32
  ec_control_window_flits :: u32
  ec_gdp_wire :: GdpWireConfig

definition endpoint_config_new :: "u32 \<Rightarrow> EndpointConfig" where
  "endpoint_config_new flits = \<lparr>ec_rx_buffer_flits = flits, ec_vc_mode = VcTwo, ec_gts_receive_slots = 32,
     ec_local_context_prefix = None, ec_prefer_local_gdp = False, ec_credit_update_threshold = 1,
     ec_control_window_flits = 32, ec_gdp_wire = gdp_wire_config_default\<rparr>"

definition endpoint_config_validate :: "EndpointConfig \<Rightarrow> EndpointConfig result" where
  "endpoint_config_validate c =
    (if ec_rx_buffer_flits c = 0 \<or> ec_gts_receive_slots c = 0 \<or> ec_control_window_flits c = 0 \<or> ec_credit_update_threshold c = 0
     then Err InvalidField else Ok c)"

datatype AddressState =
    AsStatic
  | AsLinkLocalOnly
  | AsSoliciting u32
  | AsOffered u32 GdpAddress GdpAddress
  | AsAssigned GdpAddress GdpAddress u32
  | AsRejected u8 u32

section \<open>The authority that leases addresses\<close>

record AddressAuthorityConfig =
  aac_prefix :: u64
  aac_prefix_len :: u8
  aac_lifetime :: u32
  aac_preference :: u8
  aac_capabilities :: u32

definition authority_config_new :: "u64 \<Rightarrow> u8 \<Rightarrow> u32 \<Rightarrow> AddressAuthorityConfig result" where
  "authority_config_new prefix len lifetime = rbind (normalize_prefix prefix len) (\<lambda>p.
     Ok \<lparr>aac_prefix = p, aac_prefix_len = len, aac_lifetime = lifetime, aac_preference = 0, aac_capabilities = 0\<rparr>)"

record PendingAuthorityOffer =
  pao_client :: GdpAddress
  pao_candidate :: GdpAddress

record AddressAuthority =
  aa_config :: AddressAuthorityConfig
  aa_next_host :: u64
  aa_pending :: "(u32, PendingAuthorityOffer) btree"
  aa_leases :: "(GdpAddress, GdpAddress) btree"

definition authority_new :: "AddressAuthorityConfig \<Rightarrow> AddressAuthority" where
  "authority_new c = \<lparr>aa_config = c, aa_next_host = 1, aa_pending = [], aa_leases = []\<rparr>"

definition candidate_in_use :: "AddressAuthority \<Rightarrow> GdpAddress \<Rightarrow> bool" where
  "candidate_in_use a c \<longleftrightarrow> bt_get (aa_leases a) c \<noteq> None \<or> list_ex (\<lambda>p. pao_candidate p = c) (bt_values (aa_pending a))"

text \<open>The mask of the host bits; the shift panics when the prefix has no bits, and the subtraction when it has more than 64.\<close>

definition authority_host_mask :: "AddressAuthority \<Rightarrow> u64 result" where
  "authority_host_mask a =
    (if 64 < aac_prefix_len (aa_config a) \<or> aac_prefix_len (aa_config a) = 0 then Panic
     else Ok (push_bit (64 - unat (aac_prefix_len (aa_config a))) 1 - 1))"

fun allocate_loop :: "nat \<Rightarrow> u64 \<Rightarrow> GdpAddress \<Rightarrow> AddressAuthority \<Rightarrow> (AddressAuthority, GdpAddress) outcome" where
  "allocate_loop 0 hosts router a = (Err BufferFull, a)"
| "allocate_loop (Suc n) hosts router a =
    (let host = aa_next_host a AND hosts in
     sbind (lift_r (add_r (aa_next_host a) 1) a) (\<lambda>next a.
       let next = next AND hosts; a = a\<lparr>aa_next_host := if next = 0 then 1 else next\<rparr>;
           candidate = aac_prefix (aa_config a) OR host in
       if host = 0 then allocate_loop n hosts router a
       else if candidate \<noteq> router \<and> \<not> candidate_in_use a candidate then (Ok candidate, a)
       else allocate_loop n hosts router a))"

definition allocate_candidate :: "AddressAuthority \<Rightarrow> GdpAddress \<Rightarrow> (AddressAuthority, GdpAddress) outcome" where
  "allocate_candidate a router = sbind (lift_r (authority_host_mask a) a) (\<lambda>hosts a.
     allocate_loop (unat (max (min hosts 65535) 1)) hosts router a)"

record PendingClientOffer =
  pco_transaction_id :: u32
  pco_source :: GdpAddress
  pco_offer :: AddressOffer

section \<open>The endpoint\<close>

record TunnelRecord =
  tr_peer :: GdpAddress
  tr_tunnel :: GtsTunnel

record Endpoint =
  en_config :: EndpointConfig
  en_primary_address :: GdpAddress
  en_link_local_address :: GdpAddress
  en_address_state :: AddressState
  en_router_address :: "GdpAddress option"
  en_pending_client_offer :: "PendingClientOffer option"
  en_authority :: "AddressAuthority option"
  en_next_claim_nonce :: u64
  en_dlp :: DlpEndpoint
  en_peer_link_local :: "GdpAddress option"
  en_credit_request_pending :: bool
  en_next_control_transaction :: u32
  en_listeners :: "(ServiceSelector, ListenerConfig) btree"
  en_tunnels :: "(u32, TunnelRecord) btree"
  en_accepted :: "TunnelHandle list"
  en_next_tunnel :: u32
  en_next_reset :: u32
  en_echo_replies :: "(u32, bytes) btree"
  en_gctl_inbox :: "(GdpAddress \<times> GctlMessage) list"
  en_last_rx_address_form :: "AddressForm option"

definition endpoint_dlp_config :: "EndpointConfig \<Rightarrow> DlpConfig result" where
  "endpoint_dlp_config c = rbind (dlp_config_new (ec_rx_buffer_flits c) (ec_vc_mode c)) (\<lambda>d.
     Ok (d\<lparr>dc_gdp := ec_gdp_wire c, dc_local_prefix := (case ec_local_context_prefix c of Some p \<Rightarrow> p | None \<Rightarrow> 0) AND NOT 0xffff,
           dc_control_window_flits := ec_control_window_flits c\<rparr>))"

definition endpoint_build :: "GdpAddress \<Rightarrow> GdpAddress \<Rightarrow> AddressState \<Rightarrow> EndpointConfig \<Rightarrow> Endpoint result" where
  "endpoint_build primary link_local state c =
    rbind (rbind (endpoint_dlp_config c) dlp_new) (\<lambda>dlp.
      Ok \<lparr>en_config = c, en_primary_address = primary, en_link_local_address = link_local, en_address_state = state,
          en_router_address = None, en_pending_client_offer = None, en_authority = None, en_next_claim_nonce = 1,
          en_dlp = dlp, en_peer_link_local = None, en_credit_request_pending = False,
          en_next_control_transaction = 0x80000000, en_listeners = [], en_tunnels = [], en_accepted = [],
          en_next_tunnel = 1, en_next_reset = 0x10000001, en_echo_replies = [], en_gctl_inbox = [],
          en_last_rx_address_form = None\<rparr>)"

definition endpoint_new :: "GdpAddress \<Rightarrow> EndpointConfig \<Rightarrow> Endpoint result" where
  "endpoint_new address c = rbind (endpoint_config_validate c) (\<lambda>c.
     let suffix = address AND link_local_suffix_mask in
     rbind (make_link_local (if suffix = 0 then 1 else suffix)) (\<lambda>ll. endpoint_build address ll AsStatic c))"

definition endpoint_unconfigured :: "u64 \<Rightarrow> EndpointConfig \<Rightarrow> Endpoint result" where
  "endpoint_unconfigured suffix c = rbind (endpoint_config_validate c) (\<lambda>c.
     rbind (make_link_local suffix) (\<lambda>ll. endpoint_build ll ll AsLinkLocalOnly c))"

definition enable_address_authority :: "Endpoint \<Rightarrow> AddressAuthorityConfig \<Rightarrow> Endpoint" where
  "enable_address_authority e c = e\<lparr>en_authority := Some (authority_new c)\<rparr>"

definition take_control_transaction :: "Endpoint \<Rightarrow> u32 \<times> Endpoint" where
  "take_control_transaction e =
    (en_next_control_transaction e, e\<lparr>en_next_control_transaction := max (en_next_control_transaction e + 1) 1\<rparr>)"

definition alloc_tunnel :: "Endpoint \<Rightarrow> (u32 \<times> u32) \<times> Endpoint" where
  "alloc_tunnel e = ((en_next_tunnel e, en_next_reset e),
     e\<lparr>en_next_tunnel := max (en_next_tunnel e + 1) 1, en_next_reset := max (en_next_reset e + 1) 1\<rparr>)"

definition endpoint_listen :: "Endpoint \<Rightarrow> ServiceSelector \<Rightarrow> ListenerConfig \<Rightarrow> Endpoint" where
  "endpoint_listen e css c = e\<lparr>en_listeners := bt_insert (en_listeners e) css c\<rparr>"

definition endpoint_accept :: "Endpoint \<Rightarrow> TunnelHandle option \<times> Endpoint" where
  "endpoint_accept e = (case en_accepted e of [] \<Rightarrow> (None, e) | h # hs \<Rightarrow> (Some h, e\<lparr>en_accepted := hs\<rparr>))"

definition tunnel_record :: "Endpoint \<Rightarrow> TunnelHandle \<Rightarrow> TunnelRecord result" where
  "tunnel_record e h = ok_or (bt_get (en_tunnels e) h) UnknownTunnel"

definition endpoint_tunnel_state :: "Endpoint \<Rightarrow> TunnelHandle \<Rightarrow> TunnelState result" where
  "endpoint_tunnel_state e h = rbind (tunnel_record e h) (\<lambda>r. Ok (tun_state (tr_tunnel r)))"

definition endpoint_stream_state :: "Endpoint \<Rightarrow> TunnelHandle \<Rightarrow> u8 \<Rightarrow> StreamState result" where
  "endpoint_stream_state e h i = rbind (tunnel_record e h) (\<lambda>r. rbind (tunnel_stream (tr_tunnel r) i) (\<lambda>s. Ok (st_state s)))"

definition endpoint_stream_peer_credit :: "Endpoint \<Rightarrow> TunnelHandle \<Rightarrow> u8 \<Rightarrow> u8 option result" where
  "endpoint_stream_peer_credit e h i =
    rbind (tunnel_record e h) (\<lambda>r. rbind (tunnel_stream (tr_tunnel r) i) (\<lambda>s. Ok (stream_peer_credit s)))"

definition local_gts_credit :: "Endpoint \<Rightarrow> StreamProfile \<Rightarrow> bool \<Rightarrow> u8" where
  "local_gts_credit e p local_is_opener =
    (if sp_unreliable p then 0
     else if (if local_is_opener then peer_may_send (sp_direction p) else opener_may_send (sp_direction p))
     then ec_gts_receive_slots (en_config e) else 0)"

section \<open>Sending\<close>

definition make_gdp_header :: "Endpoint \<Rightarrow> GdpType \<Rightarrow> SizeClass \<Rightarrow> GdpAddress \<Rightarrow> GdpAddress \<Rightarrow> GdpHeader result" where
  "make_gdp_header e ty cls source destination =
    (let global = Ok (gdp_header_global ty cls 64 source destination) in
     if ec_prefer_local_gdp (en_config e) \<and> destination \<noteq> bootstrap_address then
       (case ec_local_context_prefix (en_config e) of
           Some prefix \<Rightarrow> let prefix = prefix AND NOT 0xffff in
             if source AND NOT 0xffff = prefix \<and> destination AND NOT 0xffff = prefix
             then gdp_header_local ty cls 15 prefix (ucast source) (ucast destination) else global
         | None \<Rightarrow> global)
     else global)"

definition on_dlp :: "Endpoint \<Rightarrow> (DlpEndpoint \<Rightarrow> (DlpEndpoint, 'a) outcome) \<Rightarrow> (Endpoint, 'a) outcome" where
  "on_dlp e f = (case f (en_dlp e) of (res, d) \<Rightarrow> (res, e\<lparr>en_dlp := d\<rparr>))"

definition gctl_packet :: "Endpoint \<Rightarrow> GdpAddress \<Rightarrow> GdpAddress \<Rightarrow> GctlMessage \<Rightarrow> SizeClass option \<Rightarrow> GdpPacket result" where
  "gctl_packet e source remote msg cls =
    rbind (case cls of Some c \<Rightarrow> Ok c | None \<Rightarrow> recommended_size_class msg) (\<lambda>cls.
    rbind (encode_exact msg (size_class_bytes cls)) (\<lambda>payload.
    rbind (make_gdp_header e Gctl cls source remote) (\<lambda>h. gdp_packet_new h payload)))"

definition send_gctl_from :: "Endpoint \<Rightarrow> GdpAddress \<Rightarrow> GdpAddress \<Rightarrow> GctlMessage \<Rightarrow> SizeClass option \<Rightarrow> (Endpoint, unit) outcome" where
  "send_gctl_from e source remote msg cls =
    sbind (lift_r (gctl_packet e source remote msg cls) e) (\<lambda>packet e.
    sbind (on_dlp e (\<lambda>d. queue_control_packet d packet)) (\<lambda>_ e. (Ok (), e)))"

definition send_gctl :: "Endpoint \<Rightarrow> GdpAddress \<Rightarrow> GctlMessage \<Rightarrow> SizeClass \<Rightarrow> (Endpoint, unit) outcome" where
  "send_gctl e remote msg cls = send_gctl_from e (en_primary_address e) remote msg (Some cls)"

definition gts_packet_out :: "Endpoint \<Rightarrow> GdpAddress \<Rightarrow> GtsPacket \<Rightarrow> StreamProfile option \<Rightarrow> GdpPacket result" where
  "gts_packet_out e remote packet profile =
    rbind (choose_size_class packet profile) (\<lambda>cls.
    let source = en_primary_address e;
        ctx = \<lparr>ctx_gdp_version = 0, ctx_size_class = cls, ctx_source = source, ctx_destination = remote\<rparr> in
    rbind (encode_packet packet ctx profile) (\<lambda>payload.
    rbind (make_gdp_header e Gts cls source remote) (\<lambda>h. gdp_packet_new h payload)))"

definition send_gts :: "Endpoint \<Rightarrow> GdpAddress \<Rightarrow> GtsPacket \<Rightarrow> StreamProfile option \<Rightarrow> (Endpoint, unit) outcome" where
  "send_gts e remote packet profile =
    sbind (lift_r (gts_packet_out e remote packet profile) e) (\<lambda>packet e.
    sbind (on_dlp e (\<lambda>d. queue_data_packet d packet)) (\<lambda>_ e. (Ok (), e)))"

section \<open>Credit on the link\<close>

definition advertise_link_credit :: "Endpoint \<Rightarrow> bool \<Rightarrow> (Endpoint, unit) outcome" where
  "advertise_link_credit e force = (case en_peer_link_local e of
      None \<Rightarrow> (Ok (), e)
    | Some peer \<Rightarrow>
        let grant = grantable_data_credit (en_dlp e) in
        if grant = 0 then (Ok (), e)
        else if \<not> force \<and> grant < ec_credit_update_threshold (en_config e) then (Ok (), e)
        else case take_control_transaction e of (tx, e) \<Rightarrow>
          sbind (send_gctl_from e (en_link_local_address e) peer (gctl_credit tx grant) None) (\<lambda>_ e.
          on_dlp e (\<lambda>d. note_data_credit_granted d grant)))"

definition on_link_attached :: "Endpoint \<Rightarrow> GdpAddress \<Rightarrow> (Endpoint, unit) outcome" where
  "on_link_attached e peer = advertise_link_credit (e\<lparr>en_peer_link_local := Some peer\<rparr>) True"

definition u32_clamp :: "nat \<Rightarrow> u32" where
  "u32_clamp n = of_nat (min n (2 ^ 32 - 1))"

definition maybe_request_link_credit :: "Endpoint \<Rightarrow> (Endpoint, unit) outcome" where
  "maybe_request_link_credit e =
    (if queued_data_flits (en_dlp e) = 0 \<or> ep_data_tx_credit (en_dlp e) \<noteq> 0 \<or> en_credit_request_pending e then (Ok (), e)
     else case en_peer_link_local e of
         None \<Rightarrow> (Ok (), e)
       | Some peer \<Rightarrow>
           let requested = u32_clamp (queued_data_flits (en_dlp e)) in
           case take_control_transaction e of (tx, e) \<Rightarrow>
             sbind (send_gctl_from e (en_link_local_address e) peer (gctl_credit_request tx (max requested 1)) None) (\<lambda>_ e.
             (Ok (), e\<lparr>en_credit_request_pending := True\<rparr>)))"

section \<open>Address assignment\<close>

definition service_router :: ServiceType where
  "service_router = ServiceType 1"

definition solicit_router :: "Endpoint \<Rightarrow> u32 \<Rightarrow> (Endpoint, unit) outcome" where
  "solicit_router e t =
    (if en_address_state e = AsStatic then (Err InvalidState, e)
     else send_gctl_from (e\<lparr>en_address_state := AsSoliciting t\<rparr>) (en_link_local_address e) bootstrap_address
       (gctl_solicit t \<lparr>sol_service_type = service_router, sol_scope = Link\<rparr>) None)"

definition on_authority :: "Endpoint \<Rightarrow> AddressAuthority \<Rightarrow> Endpoint" where
  "on_authority e a = e\<lparr>en_authority := Some a\<rparr>"

definition authority_offer :: "AddressAuthority \<Rightarrow> GdpAddress \<Rightarrow> GdpAddress \<Rightarrow> AddressOffer" where
  "authority_offer a provider candidate = \<lparr>off_router = provider, off_prefix = aac_prefix (aa_config a),
     off_prefix_len = aac_prefix_len (aa_config a), off_candidate = candidate, off_lifetime = aac_lifetime (aa_config a)\<rparr>"

definition authority_advertise :: "AddressAuthority \<Rightarrow> GdpAddress \<Rightarrow> Advertise" where
  "authority_advertise a provider = \<lparr>adv_service_type = service_router, adv_preference = aac_preference (aa_config a),
     adv_provider = provider, adv_lifetime = aac_lifetime (aa_config a), adv_capabilities = aac_capabilities (aa_config a)\<rparr>"

definition authority_pend :: "AddressAuthority \<Rightarrow> u32 \<Rightarrow> GdpAddress \<Rightarrow> GdpAddress \<Rightarrow> AddressAuthority" where
  "authority_pend a t client candidate =
    a\<lparr>aa_pending := bt_insert (aa_pending a) t \<lparr>pao_client = client, pao_candidate = candidate\<rparr>\<rparr>"

definition handle_router_solicit :: "Endpoint \<Rightarrow> GdpAddress \<Rightarrow> GctlMessage \<Rightarrow> (Endpoint, bool) outcome" where
  "handle_router_solicit e src msg =
    sbind (lift_r (parse_solicit msg) e) (\<lambda>solicit e.
    if sol_service_type solicit \<noteq> service_router then (Ok False, e)
    else case en_authority e of
        None \<Rightarrow> (Ok False, e)
      | Some a \<Rightarrow>
          let provider = en_primary_address e; t = gm_transaction_id msg in
          (case allocate_candidate a provider of
              (Err er, a) \<Rightarrow> (Err er, on_authority e a)
            | (Panic, a) \<Rightarrow> (Panic, on_authority e a)
            | (Ok candidate, a) \<Rightarrow>
                let e = on_authority e (authority_pend a t src candidate) in
                sbind (send_gctl_from e (en_link_local_address e) src (gctl_advertise t (authority_advertise a provider)) None) (\<lambda>_ e.
                sbind (lift_r (gctl_address_offer t (authority_offer a provider candidate)) e) (\<lambda>offer e.
                sbind (send_gctl_from e (en_link_local_address e) src offer None) (\<lambda>_ e. (Ok True, e))))))"

definition handle_address_offer :: "Endpoint \<Rightarrow> GdpAddress \<Rightarrow> GctlMessage \<Rightarrow> (Endpoint, unit) outcome" where
  "handle_address_offer e src msg =
    sbind (lift_r (parse_address_offer msg) e) (\<lambda>offer e.
    let t = gm_transaction_id msg in
    if en_address_state e \<noteq> AsSoliciting t then (Err InvalidState, e)
    else sbind (lift_r (address_matches_prefix (off_candidate offer) (off_prefix offer) (off_prefix_len offer)) e) (\<lambda>inside e.
    if \<not> inside then (Err InvalidField, e)
    else
      let nonce = en_next_claim_nonce e;
          e = e\<lparr>en_router_address := Some (off_router offer),
                en_pending_client_offer := Some \<lparr>pco_transaction_id = t, pco_source = src, pco_offer = offer\<rparr>,
                en_address_state := AsOffered t (off_router offer) (off_candidate offer),
                en_next_claim_nonce := max (nonce + 1) 1\<rparr> in
      send_gctl_from e (en_link_local_address e) src (gctl_address_claim t \<lparr>clm_candidate = off_candidate offer, clm_nonce = nonce\<rparr>) None))"

definition claim_valid :: "AddressAuthority \<Rightarrow> u32 \<Rightarrow> GdpAddress \<Rightarrow> GdpAddress \<Rightarrow> bool" where
  "claim_valid a t src candidate = (case bt_get (aa_pending a) t of
      Some p \<Rightarrow> pao_client p = src \<and> pao_candidate p = candidate
    | None \<Rightarrow> False)"

definition authority_lease :: "AddressAuthority \<Rightarrow> u32 \<Rightarrow> GdpAddress \<Rightarrow> GdpAddress \<Rightarrow> AddressAuthority" where
  "authority_lease a t src candidate =
    a\<lparr>aa_pending := bt_remove (aa_pending a) t, aa_leases := bt_insert (aa_leases a) candidate src\<rparr>"

definition handle_address_claim :: "Endpoint \<Rightarrow> GdpAddress \<Rightarrow> GctlMessage \<Rightarrow> (Endpoint, bool) outcome" where
  "handle_address_claim e src msg =
    sbind (lift_r (parse_address_claim msg) e) (\<lambda>claim e.
    case en_authority e of
        None \<Rightarrow> (Ok False, e)
      | Some a \<Rightarrow>
          let t = gm_transaction_id msg; candidate = clm_candidate claim in
          if claim_valid a t src candidate then
            let e = on_authority e (authority_lease a t src candidate) in
            sbind (send_gctl_from e (en_link_local_address e) src
                (gctl_address_ack t \<lparr>ack_candidate = candidate, ack_lifetime = aac_lifetime (aa_config a)\<rparr>) None) (\<lambda>_ e. (Ok True, e))
          else
            sbind (send_gctl_from e (en_link_local_address e) src
                (gctl_address_nak t \<lparr>nak_candidate = candidate, nak_reason = 1, nak_retry_delay = 1\<rparr>) None) (\<lambda>_ e. (Ok True, e)))"

definition adopt_address :: "Endpoint \<Rightarrow> PendingClientOffer \<Rightarrow> AddressAck \<Rightarrow> Endpoint" where
  "adopt_address e pending ack =
    (let offer = pco_offer pending;
         e = e\<lparr>en_primary_address := ack_candidate ack, en_router_address := Some (off_router offer),
               en_address_state := AsAssigned (ack_candidate ack) (off_router offer) (ack_lifetime ack)\<rparr>;
         e = (if off_prefix_len offer = 48 then
                let prefix = off_prefix offer AND NOT 0xffff in
                e\<lparr>en_config := (en_config e)\<lparr>ec_local_context_prefix := Some prefix\<rparr>, en_dlp := set_local_prefix (en_dlp e) prefix\<rparr>
              else e)
     in e\<lparr>en_pending_client_offer := None\<rparr>)"

definition handle_address_ack :: "Endpoint \<Rightarrow> GctlMessage \<Rightarrow> (Endpoint, unit) outcome" where
  "handle_address_ack e msg =
    sbind (lift_r (parse_address_ack msg) e) (\<lambda>ack e.
    sbind (lift_r (ok_or (en_pending_client_offer e) InvalidState) e) (\<lambda>pending e.
    if pco_transaction_id pending \<noteq> gm_transaction_id msg \<or> off_candidate (pco_offer pending) \<noteq> ack_candidate ack
    then (Err InvalidField, e) else (Ok (), adopt_address e pending ack)))"

definition handle_address_nak :: "Endpoint \<Rightarrow> GctlMessage \<Rightarrow> (Endpoint, unit) outcome" where
  "handle_address_nak e msg =
    sbind (lift_r (parse_address_nak msg) e) (\<lambda>nak e.
    (Ok (), e\<lparr>en_address_state := AsRejected (nak_reason nak) (nak_retry_delay nak), en_pending_client_offer := None\<rparr>))"

section \<open>Leases are unique\<close>

text \<open>The well-formed authority: no candidate is pending twice, and none is leased as well.\<close>

definition authority_inv :: "AddressAuthority \<Rightarrow> bool" where
  "authority_inv a \<longleftrightarrow> bt_inv (aa_pending a) \<and> bt_inv (aa_leases a) \<and>
    (\<forall>t u p q. bt_get (aa_pending a) t = Some p \<longrightarrow> bt_get (aa_pending a) u = Some q \<longrightarrow> pao_candidate p = pao_candidate q \<longrightarrow> t = u) \<and>
    (\<forall>t p. bt_get (aa_pending a) t = Some p \<longrightarrow> bt_get (aa_leases a) (pao_candidate p) = None)"

lemma pending_in_use: "bt_get (aa_pending a) t = Some p \<Longrightarrow> candidate_in_use a (pao_candidate p)"
  by (force simp: candidate_in_use_def bt_values_def list_ex_iff bt_get_def dest!: map_of_SomeD)

lemma allocate_loop_fresh:
  "allocate_loop n hosts router a = (res, a') \<Longrightarrow> (\<exists>h. a' = a\<lparr>aa_next_host := h\<rparr>) \<and>
    (\<forall>c. res = Ok c \<longrightarrow> c \<noteq> router \<and> \<not> candidate_in_use a c \<and> (\<exists>h. h \<noteq> 0 \<and> h AND hosts = h \<and> c = aac_prefix (aa_config a) OR h))"
proof (induction n arbitrary: a)
  case 0
  then show ?case by (auto intro!: exI[of _ "aa_next_host a"])
next
  case (Suc n)
  have use: "candidate_in_use (a\<lparr>aa_next_host := h\<rparr>) c = candidate_in_use a c" for h c by (simp add: candidate_in_use_def)
  let ?host = "aa_next_host a AND hosts"
  show ?case
  proof (cases "add_r (aa_next_host a) 1")
    case (Ok m)
    let ?a = "a\<lparr>aa_next_host := if m AND hosts = 0 then 1 else m AND hosts\<rparr>"
    show ?thesis
    proof (cases "?host \<noteq> 0 \<and> aac_prefix (aa_config a) OR ?host \<noteq> router \<and> \<not> candidate_in_use a (aac_prefix (aa_config a) OR ?host)")
      case True
      then have "res = Ok (aac_prefix (aa_config a) OR ?host)" "a' = ?a" using Suc.prems Ok by (auto simp: Let_def use)
      moreover have "?host AND hosts = ?host" by (simp add: bit_eq_iff bit_simps)
      ultimately show ?thesis using True by blast
    next
      case False
      then have "allocate_loop n hosts router ?a = (res, a')" using Suc.prems Ok by (auto simp: Let_def use split: if_splits)
      from Suc.IH[OF this] show ?thesis by (auto simp: use)
    qed
  next
    case (Err x2)
    then show ?thesis using Suc.prems by (auto simp: Let_def lift_r_def intro!: exI[of _ "aa_next_host a"])
  next
    case Panic
    then show ?thesis using Suc.prems by (auto simp: Let_def lift_r_def intro!: exI[of _ "aa_next_host a"])
  qed
qed

lemma allocate_candidate_fresh:
  "allocate_candidate a router = (res, a') \<Longrightarrow> (\<exists>h. a' = a\<lparr>aa_next_host := h\<rparr>) \<and>
    (\<forall>c. res = Ok c \<longrightarrow> c \<noteq> router \<and> \<not> candidate_in_use a c)"
proof -
  assume e: "allocate_candidate a router = (res, a')"
  show ?thesis
  proof (cases "authority_host_mask a")
    case (Ok hosts)
    then have "allocate_loop (unat (max (min hosts 65535) 1)) hosts router a = (res, a')"
      using e by (simp add: allocate_candidate_def)
    from allocate_loop_fresh[OF this] show ?thesis by blast
  next
    case (Err x2)
    then show ?thesis using e by (auto simp: allocate_candidate_def lift_r_def intro!: exI[of _ "aa_next_host a"])
  next
    case Panic
    then show ?thesis using e by (auto simp: allocate_candidate_def lift_r_def intro!: exI[of _ "aa_next_host a"])
  qed
qed

lemma authority_inv_next_host [simp]: "authority_inv (a\<lparr>aa_next_host := h\<rparr>) = authority_inv a"
  by (simp add: authority_inv_def)

lemma authority_pend_inv:
  assumes "authority_inv a" "\<not> candidate_in_use a c"
  shows "authority_inv (authority_pend a t client c)"
proof -
  have i: "bt_inv (aa_pending a)" using assms(1) by (simp add: authority_inv_def)
  have "pao_candidate p \<noteq> c" if "bt_get (aa_pending a) u = Some p" for u p using pending_in_use[OF that] assms(2) by blast
  moreover have "bt_get (aa_leases a) c = None" using assms(2) by (simp add: candidate_in_use_def)
  ultimately show ?thesis using assms(1) by (auto simp: authority_inv_def authority_pend_def bt.inv_ins[OF i] bt.get_ins[OF i])
qed

lemma authority_lease_inv:
  assumes "authority_inv a" "claim_valid a t src c"
  shows "authority_inv (authority_lease a t src c) \<and>
    (\<forall>x y. bt_get (aa_leases a) x = Some y \<longrightarrow> bt_get (aa_leases (authority_lease a t src c)) x = Some y)"
proof -
  have i: "bt_inv (aa_pending a)" "bt_inv (aa_leases a)" using assms(1) by (simp_all add: authority_inv_def)
  obtain p where p: "bt_get (aa_pending a) t = Some p" "pao_candidate p = c"
    using assms(2) by (auto simp: claim_valid_def split: option.splits)
  then have free: "bt_get (aa_leases a) c = None" using assms(1) by (auto simp: authority_inv_def)
  have other: "pao_candidate q \<noteq> c" if "bt_get (aa_pending a) u = Some q" "u \<noteq> t" for u q
    using assms(1) p that unfolding authority_inv_def by metis
  have "authority_inv (authority_lease a t src c)"
    using assms(1) other unfolding authority_inv_def authority_lease_def
    by (auto simp: bt.inv_ins[OF i(2)] bt.inv_del[OF i(1)] bt.get_ins[OF i(2)] bt.get_del[OF i(1)] split: if_splits) 
  then show ?thesis using free by (auto simp: authority_lease_def bt.get_ins[OF i(2)])
qed

end
