(* ===== verification/Endpoint_Gts.thy ===== *)
theory Endpoint_Gts
  imports Endpoint_Core
begin

text \<open>
  The endpoint of src/src/endpoint/core.rs, second part: the application's operations on tunnels and streams, the
  handlers for transport packets, and the retransmission tick. A tunnel record or stream that the code borrows
  mutably is changed in place, so a call that fails later keeps the changes made before: \<open>on_record\<close>, \<open>on_tun\<close> and
  \<open>on_strm\<close> put the changed part back whatever the result.
\<close>

definition on_record :: "Endpoint \<Rightarrow> u32 \<Rightarrow> (TunnelRecord \<Rightarrow> (TunnelRecord, 'a) outcome) \<Rightarrow> (Endpoint, 'a) outcome" where
  "on_record e h f = (case bt_get (en_tunnels e) h of
      None \<Rightarrow> (Err UnknownTunnel, e)
    | Some r \<Rightarrow> (case f r of (res, r) \<Rightarrow> (res, e\<lparr>en_tunnels := bt_insert (en_tunnels e) h r\<rparr>)))"

definition on_tun :: "TunnelRecord \<Rightarrow> (GtsTunnel \<Rightarrow> (GtsTunnel, 'a) outcome) \<Rightarrow> (TunnelRecord, 'a) outcome" where
  "on_tun r f = (case f (tr_tunnel r) of (res, t) \<Rightarrow> (res, r\<lparr>tr_tunnel := t\<rparr>))"

definition on_strm :: "u8 \<Rightarrow> (GtsStream \<Rightarrow> (GtsStream, 'a) outcome) \<Rightarrow> GtsTunnel \<Rightarrow> (GtsTunnel, 'a) outcome" where
  "on_strm i f t = (case bt_get (tun_streams t) i of
      None \<Rightarrow> (Err UnknownStream, t)
    | Some s \<Rightarrow> (case f s of (res, s) \<Rightarrow> (res, t\<lparr>tun_streams := bt_insert (tun_streams t) i s\<rparr>)))"

definition pure_s :: "('s \<Rightarrow> 's) \<Rightarrow> 's \<Rightarrow> ('s, unit) outcome" where
  "pure_s f s = (Ok (), f s)"

text \<open>The peer and the remote tunnel identifier, read at the end of a borrow.\<close>

definition with_remote :: "(TunnelRecord, 'a) outcome \<Rightarrow> (TunnelRecord, GdpAddress \<times> u32 \<times> 'a) outcome" where
  "with_remote m = sbind m (\<lambda>x r. sbind (lift_r (remote_id (tr_tunnel r)) r) (\<lambda>remote r. (Ok (tr_peer r, remote, x), r)))"

section \<open>Application operations\<close>

definition endpoint_connect :: "Endpoint \<Rightarrow> GdpAddress \<Rightarrow> ServiceSelector \<Rightarrow> StreamProfile \<Rightarrow> (Endpoint, TunnelHandle) outcome" where
  "endpoint_connect e remote css profile =
    sbind (lift_r (profile_validate profile) e) (\<lambda>_ e.
    case alloc_tunnel e of ((local, reset), e) \<Rightarrow>
      let credit = local_gts_credit e profile True in
      sbind (lift_r (tunnel_initiator local reset css profile credit) e) (\<lambda>tunnel e.
      let e = e\<lparr>en_tunnels := bt_insert (en_tunnels e) local \<lparr>tr_peer = remote, tr_tunnel = tunnel\<rparr>\<rparr> in
      sbind (send_gts e remote (PConnect local reset profile credit css) None) (\<lambda>_ e. (Ok local, e))))"

definition opened_credit :: "u8 \<Rightarrow> StreamProfile \<Rightarrow> u8" where
  "opened_credit slots profile = (if \<not> sp_unreliable profile \<and> peer_may_send (sp_direction profile) then slots else 0)"

definition accepted_credit :: "u8 \<Rightarrow> StreamProfile \<Rightarrow> u8" where
  "accepted_credit slots profile = (if \<not> sp_unreliable profile \<and> opener_may_send (sp_direction profile) then slots else 0)"

definition open_stream :: "Endpoint \<Rightarrow> TunnelHandle \<Rightarrow> StreamProfile \<Rightarrow> (Endpoint, u8) outcome" where
  "open_stream e h profile =
    sbind (lift_r (profile_validate profile) e) (\<lambda>_ e.
    let credit = opened_credit (ec_gts_receive_slots (en_config e)) profile in
    sbind (on_record e h (\<lambda>r. with_remote (on_tun r (\<lambda>t.
        sbind (alloc_stream_id t) (\<lambda>i t.
        sbind (add_stream t i profile True credit 0) (\<lambda>_ t.
        sbind (on_strm i (pure_s mark_opening) t) (\<lambda>_ t. (Ok i, t)))))))) (\<lambda>(peer, remote, i) e.
    sbind (send_gts e peer (PStreamOpen remote i profile credit) None) (\<lambda>_ e. (Ok i, e))))"

definition send_inner :: "Endpoint \<Rightarrow> TunnelHandle \<Rightarrow> u8 \<Rightarrow> bytes \<Rightarrow> bool \<Rightarrow> u64 \<Rightarrow> (Endpoint, unit) outcome" where
  "send_inner e h i data fin now =
    sbind (on_record e h (\<lambda>r.
      if tun_state (tr_tunnel r) \<noteq> TunEstablished then (Err InvalidState, r)
      else sbind (lift_r (remote_id (tr_tunnel r)) r) (\<lambda>remote r.
        sbind (on_tun r (on_strm i (\<lambda>s. sbind (send_packet s remote data fin now) (\<lambda>p s'. (Ok (st_profile s, p), s')))))
          (\<lambda>(profile, packet) r. (Ok (tr_peer r, profile, packet), r))))) (\<lambda>(peer, profile, packet) e.
    send_gts e peer packet (Some profile))"

definition endpoint_send :: "Endpoint \<Rightarrow> TunnelHandle \<Rightarrow> u8 \<Rightarrow> bytes \<Rightarrow> u64 \<Rightarrow> (Endpoint, unit) outcome" where
  "endpoint_send e h i data now = send_inner e h i data False now"

definition endpoint_send_end :: "Endpoint \<Rightarrow> TunnelHandle \<Rightarrow> u8 \<Rightarrow> bytes \<Rightarrow> u64 \<Rightarrow> (Endpoint, unit) outcome" where
  "endpoint_send_end e h i data now = send_inner e h i data True now"

definition endpoint_recv :: "Endpoint \<Rightarrow> TunnelHandle \<Rightarrow> u8 \<Rightarrow> (Endpoint, bytes option) outcome" where
  "endpoint_recv e h i =
    sbind (on_record e h (\<lambda>r. sbind (lift_r (remote_id (tr_tunnel r)) r) (\<lambda>remote r.
      sbind (on_tun r (on_strm i (\<lambda>s. sbind (stream_recv s) (\<lambda>message s'.
          (Ok (st_profile s, message, if message \<noteq> None then receive_credit_ack s' remote else None), s')))))
        (\<lambda>(profile, message, ack) r. (Ok (tr_peer r, profile, message, ack), r))))) (\<lambda>(peer, profile, message, ack) e.
    case ack of
        Some a \<Rightarrow> sbind (send_gts e peer a (Some profile)) (\<lambda>_ e. (Ok message, e))
      | None \<Rightarrow> (Ok message, e))"

definition endpoint_reset_stream :: "Endpoint \<Rightarrow> TunnelHandle \<Rightarrow> u8 \<Rightarrow> u8 \<Rightarrow> (Endpoint, unit) outcome" where
  "endpoint_reset_stream e h i reason =
    sbind (on_record e h (\<lambda>r. with_remote (on_tun r (on_strm i (pure_s stream_reset))))) (\<lambda>(peer, remote, _) e.
    send_gts e peer (PStreamReset remote i reason False) None)"

definition start_closing :: "GtsStream \<Rightarrow> (GtsStream, unit) outcome" where
  "start_closing s = (if st_state s \<in> {StOpen, StClosing} then (Ok (), s\<lparr>st_state := StClosing\<rparr>) else (Err InvalidState, s))"

definition close_stream :: "Endpoint \<Rightarrow> TunnelHandle \<Rightarrow> u8 \<Rightarrow> (Endpoint, unit) outcome" where
  "close_stream e h i =
    sbind (on_record e h (\<lambda>r. with_remote (on_tun r (on_strm i start_closing)))) (\<lambda>(peer, remote, _) e.
    send_gts e peer (PStreamClose remote i 0 False) None)"

definition streams_done :: "GtsTunnel \<Rightarrow> bool" where
  "streams_done t = list_all (\<lambda>s. st_state s \<in> {StClosed, StReset}) (bt_values (tun_streams t))"

definition finish_tunnel :: "TunnelState \<Rightarrow> GtsTunnel \<Rightarrow> (GtsTunnel, unit) outcome" where
  "finish_tunnel st t = (if streams_done t then (Ok (), t\<lparr>tun_state := st\<rparr>) else (Err InvalidState, t))"

definition close_tunnel :: "Endpoint \<Rightarrow> TunnelHandle \<Rightarrow> (Endpoint, unit) outcome" where
  "close_tunnel e h =
    sbind (on_record e h (\<lambda>r. with_remote (on_tun r (finish_tunnel TunClosing)))) (\<lambda>(peer, remote, _) e.
    send_gts e peer (PTunnelClose remote False) None)"

definition reset_tunnel :: "Endpoint \<Rightarrow> TunnelHandle \<Rightarrow> u8 \<Rightarrow> (Endpoint, unit) outcome" where
  "reset_tunnel e h reason =
    sbind (on_record e h (\<lambda>r.
      sbind (lift_r (remote_id (tr_tunnel r)) r) (\<lambda>remote r.
      sbind (lift_r (ok_or (tun_remote_reset_id (tr_tunnel r)) InvalidState) r) (\<lambda>reset r.
      sbind (on_tun r (pure_s tunnel_reset)) (\<lambda>_ r. (Ok (tr_peer r, remote, reset), r)))))) (\<lambda>(peer, remote, reset) e.
    send_gts e peer (PReset remote reset reason) None)"

definition send_echo :: "Endpoint \<Rightarrow> GdpAddress \<Rightarrow> u32 \<Rightarrow> bytes \<Rightarrow> SizeClass \<Rightarrow> (Endpoint, unit) outcome" where
  "send_echo e remote t body cls = send_gctl e remote (gctl_new GEchoRequest t body) cls"

definition take_echo_reply :: "Endpoint \<Rightarrow> u32 \<Rightarrow> bytes option \<times> Endpoint" where
  "take_echo_reply e t = (bt_get (en_echo_replies e) t, e\<lparr>en_echo_replies := bt_remove (en_echo_replies e) t\<rparr>)"

definition take_gctl :: "Endpoint \<Rightarrow> (GdpAddress \<times> GctlMessage) option \<times> Endpoint" where
  "take_gctl e = (case en_gctl_inbox e of [] \<Rightarrow> (None, e) | m # ms \<Rightarrow> (Some m, e\<lparr>en_gctl_inbox := ms\<rparr>))"

section \<open>Transport packets\<close>

definition stream_scoped :: "GtsType \<Rightarrow> bool" where
  "stream_scoped ty \<longleftrightarrow> ty \<in> {TyData, TyDataEnd, TyDatagram, TyAck, TyStreamClose, TyStreamCloseAck, TyStreamReset, TyStreamResetAck}"

definition gts_profile_for :: "Endpoint \<Rightarrow> bytes \<Rightarrow> StreamProfile option result" where
  "gts_profile_for e payload =
    (if payload = [] then Err InvalidLength
     else rbind (rbind (idx payload 0) (\<lambda>b. gts_type_from_wire (b AND 0xf))) (\<lambda>ty.
       if \<not> stream_scoped ty then Ok None
       else if length payload < 6 then Err InvalidLength
       else rbind (slice payload 1 5) (\<lambda>t. rbind (idx payload 5) (\<lambda>i.
         rbind (ok_or (bt_get (en_tunnels e) (from_be t)) UnknownTunnel) (\<lambda>r.
         rbind (tunnel_stream (tr_tunnel r) i) (\<lambda>s. Ok (Some (st_profile s))))))))"

definition remote_stream_id_valid :: "TunnelRole \<Rightarrow> u8 \<Rightarrow> bool" where
  "remote_stream_id_valid role i =
    (if i = 0 then False else case role of Initiator \<Rightarrow> i mod 2 = 1 | Responder \<Rightarrow> i mod 2 = 0)"

definition on_connect :: "Endpoint \<Rightarrow> GdpAddress \<Rightarrow> u32 \<Rightarrow> u32 \<Rightarrow> StreamProfile \<Rightarrow> u8 \<Rightarrow> ServiceSelector \<Rightarrow> (Endpoint, unit) outcome" where
  "on_connect e src initiator initiator_reset profile peer_credit css =
    sbind (lift_r (ok_or (bt_get (en_listeners e) css) UnknownService) e) (\<lambda>listener e.
    case alloc_tunnel e of ((local, reset), e) \<Rightarrow>
      let credit = accepted_credit (lc_receive_slots listener) profile in
      sbind (lift_r (tunnel_responder local reset initiator initiator_reset css profile credit peer_credit) e) (\<lambda>tunnel e.
      let e = e\<lparr>en_tunnels := bt_insert (en_tunnels e) local \<lparr>tr_peer = src, tr_tunnel = tunnel\<rparr>,
                en_accepted := en_accepted e @ [local]\<rparr> in
      send_gts e src (PConnectAck initiator local reset 0 credit) None))"

definition on_connect_ack :: "Endpoint \<Rightarrow> u32 \<Rightarrow> u32 \<Rightarrow> u32 \<Rightarrow> u8 \<Rightarrow> u8 \<Rightarrow> (Endpoint, unit) outcome" where
  "on_connect_ack e initiator responder responder_reset status credit =
    (if status \<noteq> 0 then (Err UnknownService, e)
     else on_record e initiator (\<lambda>r. on_tun r (\<lambda>t.
       sbind (lift_r (tunnel_stream t 0) t) (\<lambda>s t.
       if sp_unreliable (st_profile s) \<and> credit \<noteq> 0 then (Err ProfileViolation, t)
       else establish_initiator t responder responder_reset credit))))"

definition on_stream_open :: "Endpoint \<Rightarrow> u32 \<Rightarrow> u8 \<Rightarrow> StreamProfile \<Rightarrow> u8 \<Rightarrow> (Endpoint, unit) outcome" where
  "on_stream_open e h i profile peer_credit =
    (let credit = accepted_credit (ec_gts_receive_slots (en_config e)) profile in
     sbind (on_record e h (\<lambda>r. with_remote (on_tun r (\<lambda>t.
       if \<not> remote_stream_id_valid (tun_role t) i then (Err ProfileViolation, t)
       else if sp_unreliable profile \<and> peer_credit \<noteq> 0 then (Err ProfileViolation, t)
       else add_stream t i profile False credit peer_credit)))) (\<lambda>(peer, remote, _) e.
     send_gts e peer (PStreamAck remote i 0 credit) None))"

definition on_stream_ack :: "Endpoint \<Rightarrow> u32 \<Rightarrow> u8 \<Rightarrow> u8 \<Rightarrow> u8 \<Rightarrow> (Endpoint, unit) outcome" where
  "on_stream_ack e h i status credit =
    (if status \<noteq> 0 then (Err ProfileViolation, e)
     else on_record e h (\<lambda>r. on_tun r (on_strm i (\<lambda>s.
       if sp_unreliable (st_profile s) \<and> credit \<noteq> 0 then (Err ProfileViolation, s) else apply_open_ack s credit))))"

definition checked_receive :: "SizeClass \<Rightarrow> GtsPacket \<Rightarrow> GtsStream \<Rightarrow> (GtsStream, StreamProfile \<times> GtsPacket option) outcome" where
  "checked_receive cls p s =
    sbind (lift_r (validate_incoming s cls p) s) (\<lambda>_ s. sbind (receive_packet s p) (\<lambda>ack s'. (Ok (st_profile s, ack), s')))"

definition on_data :: "Endpoint \<Rightarrow> SizeClass \<Rightarrow> u32 \<Rightarrow> u8 \<Rightarrow> GtsPacket \<Rightarrow> (Endpoint, unit) outcome" where
  "on_data e cls h i p =
    sbind (on_record e h (\<lambda>r. with_remote (on_tun r (on_strm i (checked_receive cls p))))) (\<lambda>(peer, remote, profile, ack) e.
    case ack of
        Some (PAck _ j base bitmap credit) \<Rightarrow> send_gts e peer (PAck remote j base bitmap credit) (Some profile)
      | _ \<Rightarrow> (Ok (), e))"

definition on_datagram :: "Endpoint \<Rightarrow> SizeClass \<Rightarrow> u32 \<Rightarrow> u8 \<Rightarrow> GtsPacket \<Rightarrow> (Endpoint, unit) outcome" where
  "on_datagram e cls h i p =
    sbind (on_record e h (\<lambda>r. on_tun r (on_strm i (checked_receive cls p)))) (\<lambda>_ e. (Ok (), e))"

definition on_ack_packet :: "Endpoint \<Rightarrow> SizeClass \<Rightarrow> u32 \<Rightarrow> u8 \<Rightarrow> u32 \<Rightarrow> u32 \<Rightarrow> u8 \<Rightarrow> (Endpoint, unit) outcome" where
  "on_ack_packet e cls h i base bitmap credit =
    on_record e h (\<lambda>r. on_tun r (on_strm i (\<lambda>s.
      sbind (lift_r (validate_incoming s cls (PAck h i base bitmap credit)) s) (\<lambda>_ s. stream_on_ack s base bitmap credit))))"

definition close_checked :: "SizeClass \<Rightarrow> GtsPacket \<Rightarrow> GtsStream \<Rightarrow> (GtsStream, unit) outcome" where
  "close_checked cls p s = sbind (lift_r (validate_incoming s cls p) s) (\<lambda>_ s. (Ok (), s\<lparr>st_state := StClosed\<rparr>))"

definition on_stream_close :: "Endpoint \<Rightarrow> SizeClass \<Rightarrow> u32 \<Rightarrow> u8 \<Rightarrow> u32 \<Rightarrow> bool \<Rightarrow> (Endpoint, unit) outcome" where
  "on_stream_close e cls h i final_sequence is_ack =
    (let p = PStreamClose h i final_sequence is_ack in
     if is_ack then on_record e h (\<lambda>r. on_tun r (on_strm i (close_checked cls p)))
     else sbind (on_record e h (\<lambda>r. with_remote (on_tun r (on_strm i (close_checked cls p))))) (\<lambda>(peer, remote, _) e.
       send_gts e peer (PStreamClose remote i final_sequence True) None))"

definition on_stream_reset :: "Endpoint \<Rightarrow> u32 \<Rightarrow> u8 \<Rightarrow> u8 \<Rightarrow> bool \<Rightarrow> (Endpoint, unit) outcome" where
  "on_stream_reset e h i reason is_ack =
    (if is_ack then on_record e h (\<lambda>r. on_tun r (on_strm i (pure_s stream_reset)))
     else sbind (on_record e h (\<lambda>r. with_remote (on_tun r (on_strm i (pure_s stream_reset))))) (\<lambda>(peer, remote, _) e.
       send_gts e peer (PStreamReset remote i reason True) None))"

definition on_tunnel_close :: "Endpoint \<Rightarrow> u32 \<Rightarrow> bool \<Rightarrow> (Endpoint, unit) outcome" where
  "on_tunnel_close e h is_ack =
    (if is_ack then on_record e h (\<lambda>r. on_tun r (pure_s (\<lambda>t. t\<lparr>tun_state := TunClosed\<rparr>)))
     else sbind (on_record e h (\<lambda>r. with_remote (on_tun r (finish_tunnel TunClosed)))) (\<lambda>(peer, remote, _) e.
       send_gts e peer (PTunnelClose remote True) None))"

definition on_reset :: "Endpoint \<Rightarrow> u32 \<Rightarrow> u32 \<Rightarrow> (Endpoint, unit) outcome" where
  "on_reset e h reset = on_record e h (\<lambda>r. on_tun r (\<lambda>t.
     if reset \<noteq> tun_local_reset_id t then (Err InvalidField, t) else (Ok (), tunnel_reset t)))"

definition dispatch_gts :: "Endpoint \<Rightarrow> GdpAddress \<Rightarrow> SizeClass \<Rightarrow> GtsPacket \<Rightarrow> (Endpoint, unit) outcome" where
  "dispatch_gts e src cls g = (case g of
      PConnect initiator reset profile credit css \<Rightarrow> on_connect e src initiator reset profile credit css
    | PConnectAck initiator responder reset status credit \<Rightarrow> on_connect_ack e initiator responder reset status credit
    | PStreamOpen h i profile credit \<Rightarrow> on_stream_open e h i profile credit
    | PStreamAck h i status credit \<Rightarrow> on_stream_ack e h i status credit
    | PData h i _ _ _ \<Rightarrow> on_data e cls h i g
    | PDatagram h i _ _ \<Rightarrow> on_datagram e cls h i g
    | PAck h i base bitmap credit \<Rightarrow> on_ack_packet e cls h i base bitmap credit
    | PStreamClose h i final_sequence is_ack \<Rightarrow> on_stream_close e cls h i final_sequence is_ack
    | PStreamReset h i reason is_ack \<Rightarrow> on_stream_reset e h i reason is_ack
    | PTunnelClose h is_ack \<Rightarrow> on_tunnel_close e h is_ack
    | PReset h reset _ \<Rightarrow> on_reset e h reset)"

definition handle_gts :: "Endpoint \<Rightarrow> GdpAddress \<Rightarrow> GdpPacket \<Rightarrow> (Endpoint, unit) outcome" where
  "handle_gts e src packet =
    sbind (lift_r (gts_profile_for e (pkt_payload packet)) e) (\<lambda>profile e.
    sbind (lift_r (decode_packet (pkt_payload packet) \<lparr>ctx_gdp_version = gdp_version (pkt_header packet),
        ctx_size_class = size_class (pkt_header packet), ctx_source = src, ctx_destination = en_primary_address e\<rparr> profile) e) (\<lambda>g e.
    dispatch_gts e src (size_class (pkt_header packet)) g))"

section \<open>Retransmission\<close>

fun tick_streams :: "u64 \<Rightarrow> u32 \<Rightarrow> (u8 \<times> GtsStream) list \<Rightarrow> (StreamProfile \<times> GtsPacket) list \<times> (u8 \<times> GtsStream) list" where
  "tick_streams now remote [] = ([], [])"
| "tick_streams now remote ((i, s) # ss) =
    (let (packets, s') = retransmit_due s remote now; (out, ss') = tick_streams now remote ss in
     (map (\<lambda>p. (st_profile s, p)) packets @ out, (i, s') # ss'))"

fun tick_records :: "u64 \<Rightarrow> (u32 \<times> TunnelRecord) list \<Rightarrow>
    ((u32 \<times> TunnelRecord) list, (GdpAddress \<times> StreamProfile \<times> GtsPacket) list) outcome" where
  "tick_records now [] = (Ok [], [])"
| "tick_records now ((h, r) # rs) =
    (if tun_state (tr_tunnel r) \<noteq> TunEstablished then
       (case tick_records now rs of (res, rs') \<Rightarrow> (res, (h, r) # rs'))
     else case remote_id (tr_tunnel r) of
         Ok remote \<Rightarrow>
           (let (out, ss) = tick_streams now remote (tun_streams (tr_tunnel r));
                r' = r\<lparr>tr_tunnel := (tr_tunnel r)\<lparr>tun_streams := ss\<rparr>\<rparr> in
            (case tick_records now rs of (res, rs') \<Rightarrow>
              (rbind res (\<lambda>rest. Ok (map (\<lambda>(p, g). (tr_peer r, p, g)) out @ rest)), (h, r') # rs')))
       | Err er \<Rightarrow> (Err er, (h, r) # rs)
       | Panic \<Rightarrow> (Panic, (h, r) # rs))"

fun send_pending :: "Endpoint \<Rightarrow> (GdpAddress \<times> StreamProfile \<times> GtsPacket) list \<Rightarrow> (Endpoint, unit) outcome" where
  "send_pending e [] = (Ok (), e)"
| "send_pending e ((peer, profile, p) # ps) = sbind (send_gts e peer p (Some profile)) (\<lambda>_ e. send_pending e ps)"

definition endpoint_tick :: "Endpoint \<Rightarrow> u64 \<Rightarrow> (Endpoint, nat) outcome" where
  "endpoint_tick e now = (case tick_records now (en_tunnels e) of (res, rs) \<Rightarrow>
     sbind (res, e\<lparr>en_tunnels := rs\<rparr>) (\<lambda>pending e. sbind (send_pending e pending) (\<lambda>_ e. (Ok (length pending), e))))"

end
