(* ===== verification/Endpoint.thy ===== *)
theory Endpoint
  imports Endpoint_Gts Routing
begin

text \<open>
  The endpoint, third part: dispatch of received packets, src/src/endpoint/core.rs; the direct link that pumps flits
  between two endpoints; the link interface of src/src/endpoint/link_api.rs, with the managed receive path that bounds
  the credit a peer may grant; and the endpoint with its routing table, src/src/endpoint.rs.
\<close>

section \<open>Control messages\<close>

definition inbox :: "Endpoint \<Rightarrow> GdpAddress \<Rightarrow> GctlMessage \<Rightarrow> Endpoint" where
  "inbox e src msg = e\<lparr>en_gctl_inbox := en_gctl_inbox e @ [(src, msg)]\<rparr>"

definition on_credit_request :: "Endpoint \<Rightarrow> GdpAddress \<Rightarrow> GctlMessage \<Rightarrow> (Endpoint, unit) outcome" where
  "on_credit_request e src msg =
    sbind (lift_r (parse_credit_request msg) e) (\<lambda>requested e.
    let available = grantable_data_credit (en_dlp e);
        grant = (if requested = 0 then available else min available requested) in
    if grant > 0 then
      let peer = (case en_peer_link_local e of Some p \<Rightarrow> p | None \<Rightarrow> src) in
      sbind (send_gctl_from e (en_link_local_address e) peer (gctl_credit (gm_transaction_id msg) grant) None) (\<lambda>_ e.
      on_dlp e (\<lambda>d. note_data_credit_granted d grant))
    else (Ok (), e))"

definition on_credit :: "Endpoint \<Rightarrow> GctlMessage \<Rightarrow> (Endpoint, unit) outcome" where
  "on_credit e msg =
    sbind (lift_r (parse_credit msg) e) (\<lambda>granted e.
    (Ok (), e\<lparr>en_dlp := grant_data_tx_credit (en_dlp e) granted, en_credit_request_pending := False\<rparr>))"

definition on_advertise :: "Endpoint \<Rightarrow> GdpAddress \<Rightarrow> GctlMessage \<Rightarrow> (Endpoint, unit) outcome" where
  "on_advertise e src msg =
    sbind (lift_r (parse_advertise msg) e) (\<lambda>advertise e.
    let e = (if adv_service_type advertise = service_router \<and> en_address_state e = AsSoliciting (gm_transaction_id msg)
             then e\<lparr>en_router_address := Some (adv_provider advertise)\<rparr> else e) in
    (Ok (), inbox e src msg))"

definition or_inbox :: "GdpAddress \<Rightarrow> GctlMessage \<Rightarrow> (Endpoint, bool) outcome \<Rightarrow> (Endpoint, unit) outcome" where
  "or_inbox src msg m = sbind m (\<lambda>handled e. (Ok (), if handled then e else inbox e src msg))"

definition dispatch_gctl :: "Endpoint \<Rightarrow> GdpAddress \<Rightarrow> SizeClass \<Rightarrow> GctlMessage \<Rightarrow> (Endpoint, unit) outcome" where
  "dispatch_gctl e src cls msg = (case gm_type msg of
        GCreditRequest \<Rightarrow> on_credit_request e src msg
      | GCredit \<Rightarrow> on_credit e msg
      | GEchoRequest \<Rightarrow> sbind (lift_r (echo_reply msg) e) (\<lambda>reply e.
          send_gctl_from e (en_primary_address e) src reply (Some cls))
      | GEchoReply \<Rightarrow> (Ok (), e\<lparr>en_echo_replies := bt_insert (en_echo_replies e) (gm_transaction_id msg) (gm_body msg)\<rparr>)
      | GSolicit \<Rightarrow> or_inbox src msg (handle_router_solicit e src msg)
      | GAdvertise \<Rightarrow> on_advertise e src msg
      | GAddressOffer \<Rightarrow> handle_address_offer e src msg
      | GAddressClaim \<Rightarrow> or_inbox src msg (handle_address_claim e src msg)
      | GAddressAck \<Rightarrow> handle_address_ack e msg
      | GAddressNak \<Rightarrow> handle_address_nak e msg
      | _ \<Rightarrow> (Ok (), inbox e src msg))"

definition handle_gctl :: "Endpoint \<Rightarrow> GdpAddress \<Rightarrow> GdpPacket \<Rightarrow> (Endpoint, unit) outcome" where
  "handle_gctl e src packet =
    sbind (lift_r (gctl_decode (pkt_payload packet)) e) (\<lambda>msg e. dispatch_gctl e src (size_class (pkt_header packet)) msg)"

section \<open>Received packets\<close>

definition accepts_destination :: "Endpoint \<Rightarrow> GdpAddress \<Rightarrow> bool" where
  "accepts_destination e d \<longleftrightarrow> d = en_primary_address e \<or> d = en_link_local_address e \<or> d = bootstrap_address"

definition handle_gdp :: "Endpoint \<Rightarrow> GdpPacket \<Rightarrow> (Endpoint, unit) outcome" where
  "handle_gdp e packet =
    (let h = pkt_header packet; src = gdp_source h in
     if \<not> accepts_destination e (gdp_destination h) then (Err InvalidField, e)
     else let e = e\<lparr>en_last_rx_address_form := Some (gdp_form (addresses h))\<rparr> in
     case packet_type h of
         Gctl \<Rightarrow> handle_gctl e src packet
       | Gts \<Rightarrow> if gdp_destination h = bootstrap_address then (Err InvalidField, e) else handle_gts e src packet
       | Reserved _ \<Rightarrow> (Err Unsupported, e))"

definition endpoint_poll_tx_flit :: "Endpoint \<Rightarrow> (Endpoint, Flit option) outcome" where
  "endpoint_poll_tx_flit e = sbind (maybe_request_link_credit e) (\<lambda>_ e. on_dlp e poll_tx)"

definition endpoint_poll_tx_frame :: "Endpoint \<Rightarrow> (Endpoint, GnetFrame option) outcome" where
  "endpoint_poll_tx_frame e = sbind (maybe_request_link_credit e) (\<lambda>_ e. on_dlp e poll_tx_frame)"

definition endpoint_receive_flit :: "Endpoint \<Rightarrow> Flit \<Rightarrow> (Endpoint, bool) outcome" where
  "endpoint_receive_flit e flit =
    sbind (on_dlp e (\<lambda>d. dlp_receive d flit)) (\<lambda>packet e. case packet of
        Some p \<Rightarrow> sbind (handle_gdp e p) (\<lambda>_ e. sbind (advertise_link_credit e False) (\<lambda>_ e. (Ok True, e)))
      | None \<Rightarrow> (Ok False, e))"

definition endpoint_receive_frame :: "Endpoint \<Rightarrow> GnetFrame \<Rightarrow> (Endpoint, bool) outcome" where
  "endpoint_receive_frame e frame =
    sbind (on_dlp e (\<lambda>d. receive_frame d frame)) (\<lambda>p e.
    sbind (handle_gdp e p) (\<lambda>_ e. sbind (advertise_link_credit e False) (\<lambda>_ e. (Ok True, e))))"

section \<open>The link interface\<close>

definition link_attached :: "Endpoint \<Rightarrow> GdpAddress \<Rightarrow> u32 \<Rightarrow> (Endpoint, unit) outcome" where
  "link_attached e peer window =
    (if window = 0 then (Err InvalidField, e)
     else on_link_attached (e\<lparr>en_dlp := grant_control_tx_credit (set_link_up (en_dlp e) True) window\<rparr>) peer)"

definition bind_managed_link_peer :: "Endpoint \<Rightarrow> GdpAddress \<Rightarrow> u32 \<Rightarrow> (Endpoint, unit) outcome" where
  "bind_managed_link_peer e peer window =
    (if window = 0 then (Err InvalidField, e)
     else advertise_link_credit (e\<lparr>en_peer_link_local := Some peer, en_credit_request_pending := False,
       en_dlp := grant_control_tx_credit (en_dlp e) window\<rparr>) True)"

definition retry_managed_link_credit_request :: "Endpoint \<Rightarrow> (Endpoint, unit) outcome" where
  "retry_managed_link_credit_request e =
    (let e = e\<lparr>en_credit_request_pending := False\<rparr>;
         queued = queued_data_flits (en_dlp e); credit = unat (ep_data_tx_credit (en_dlp e)) in
     if queued = 0 \<or> queued \<le> credit then (Ok (), e)
     else case en_peer_link_local e of
         None \<Rightarrow> (Ok (), e)
       | Some peer \<Rightarrow>
           let requested = u32_clamp (queued - credit) in
           case take_control_transaction e of (tx, e) \<Rightarrow>
             (case send_gctl_from e (en_link_local_address e) peer (gctl_credit_request tx (max requested 1)) None of
                 (Ok _, e) \<Rightarrow> (Ok (), e\<lparr>en_credit_request_pending := True\<rparr>)
               | (Err _, e) \<Rightarrow> (Ok (), e)
               | (Panic, e) \<Rightarrow> (Panic, e)))"

definition validate_managed_credit_grant :: "Endpoint \<Rightarrow> GdpPacket \<Rightarrow> u32 \<Rightarrow> unit result" where
  "validate_managed_credit_grant e packet peer_limit =
    (if packet_type (pkt_header packet) \<noteq> Gctl then Ok ()
     else rbind (gctl_decode (pkt_payload packet)) (\<lambda>msg.
       if gm_type msg \<noteq> GCredit then Ok ()
       else rbind (parse_credit msg) (\<lambda>grant.
         if grant = 0 then Err InvalidField
         else if saturating_sub peer_limit (ep_data_tx_credit (en_dlp e)) < grant then Err CreditViolation
         else Ok ())))"

definition managed_handle :: "Endpoint \<Rightarrow> GdpPacket \<Rightarrow> u32 \<Rightarrow> (Endpoint, bool) outcome" where
  "managed_handle e p limit =
    sbind (lift_r (validate_managed_credit_grant e p limit) e) (\<lambda>_ e.
    sbind (handle_gdp e p) (\<lambda>_ e. sbind (advertise_link_credit e False) (\<lambda>_ e. (Ok True, e))))"

definition receive_managed_flit :: "Endpoint \<Rightarrow> Flit \<Rightarrow> u32 \<Rightarrow> (Endpoint, bool) outcome" where
  "receive_managed_flit e flit limit =
    sbind (on_dlp e (\<lambda>d. dlp_receive d flit)) (\<lambda>packet e. case packet of
        Some p \<Rightarrow> managed_handle e p limit
      | None \<Rightarrow> (Ok False, e))"

definition receive_managed_frame :: "Endpoint \<Rightarrow> GnetFrame \<Rightarrow> u32 \<Rightarrow> (Endpoint, bool) outcome" where
  "receive_managed_frame e frame limit =
    sbind (on_dlp e (\<lambda>d. receive_frame d frame)) (\<lambda>p e. managed_handle e p limit)"

definition link_detached :: "Endpoint \<Rightarrow> Endpoint" where
  "link_detached e = e\<lparr>en_peer_link_local := None, en_credit_request_pending := False, en_dlp := set_link_up (en_dlp e) False\<rparr>"

section \<open>The direct link\<close>

record DirectLink =
  dl_attached :: bool

definition direct_link_new :: DirectLink where
  "direct_link_new = \<lparr>dl_attached = False\<rparr>"

type_synonym pair_state = "DirectLink \<times> Endpoint \<times> Endpoint"

definition on_fst :: "(Endpoint, 'a) outcome \<Rightarrow> DirectLink \<Rightarrow> Endpoint \<Rightarrow> (pair_state, 'a) outcome" where
  "on_fst m l b = (fst m, (l, snd m, b))"

definition on_snd :: "(Endpoint, 'a) outcome \<Rightarrow> DirectLink \<Rightarrow> Endpoint \<Rightarrow> (pair_state, 'a) outcome" where
  "on_snd m l a = (fst m, (l, a, snd m))"

definition direct_attach :: "pair_state \<Rightarrow> (pair_state, unit) outcome" where
  "direct_attach st = (case st of (l, a, b) \<Rightarrow>
    if dl_attached l then (Ok (), st)
    else
      let a = a\<lparr>en_dlp := grant_control_tx_credit (en_dlp a) (ep_control_window_flits (en_dlp b))\<rparr>;
          b = b\<lparr>en_dlp := grant_control_tx_credit (en_dlp b) (ep_control_window_flits (en_dlp a))\<rparr> in
      sbind (on_fst (on_link_attached a (en_link_local_address b)) l b) (\<lambda>_ (l, a, b).
      sbind (on_snd (on_link_attached b (en_link_local_address a)) l a) (\<lambda>_ (l, a, b).
      (Ok (), (l\<lparr>dl_attached := True\<rparr>, a, b)))))"

text \<open>One direction: the flit that the sender offers goes to the receiver; a flit of the control channel gives the
  sender its credit back. The result says whether a flit moved.\<close>

definition offer_flit :: "Endpoint \<Rightarrow> (Endpoint, Flit option) outcome" where
  "offer_flit e = (case endpoint_poll_tx_flit e of
      (Err NoCredit, e) \<Rightarrow> (Ok None, e)
    | other \<Rightarrow> other)"

definition return_control_credit :: "Flit \<Rightarrow> Endpoint \<Rightarrow> Endpoint" where
  "return_control_credit f e = (if vcid_is_control (flit_vcid f) then e\<lparr>en_dlp := grant_control_tx_credit (en_dlp e) 1\<rparr> else e)"

definition pump_forward :: "pair_state \<Rightarrow> (pair_state, bool) outcome" where
  "pump_forward st = (case st of (l, a, b) \<Rightarrow>
    sbind (on_fst (offer_flit a) l b) (\<lambda>f (l, a, b). case f of
        None \<Rightarrow> (Ok False, (l, a, b))
      | Some f \<Rightarrow> sbind (on_snd (endpoint_receive_flit b f) l a) (\<lambda>_ (l, a, b). (Ok True, (l, return_control_credit f a, b)))))"

definition pump_backward :: "pair_state \<Rightarrow> (pair_state, bool) outcome" where
  "pump_backward st = (case st of (l, a, b) \<Rightarrow>
    sbind (on_snd (offer_flit b) l a) (\<lambda>f (l, a, b). case f of
        None \<Rightarrow> (Ok False, (l, a, b))
      | Some f \<Rightarrow> sbind (on_fst (endpoint_receive_flit a f) l b) (\<lambda>_ (l, a, b). (Ok True, (l, a, return_control_credit f b)))))"

function pump_loop :: "nat \<Rightarrow> nat \<Rightarrow> pair_state \<Rightarrow> (pair_state, nat) outcome" where
  "pump_loop limit moved st =
    (if limit \<le> moved then (Err BufferFull, st)
     else sbind (pump_forward st) (\<lambda>f st. sbind (pump_backward st) (\<lambda>b st.
       let moved' = moved + (if f then 1 else 0) + (if b then 1 else 0) in
       if \<not> f \<and> \<not> b then (Ok moved', st) else pump_loop limit moved' st)))"
  by pat_completeness auto
termination
  by (relation "measure (\<lambda>(limit, moved, st). limit - moved)") auto

declare pump_loop.simps [simp del]

definition direct_pump :: "pair_state \<Rightarrow> nat \<Rightarrow> (pair_state, nat) outcome" where
  "direct_pump st max_flits = sbind (direct_attach st) (\<lambda>_ st. pump_loop max_flits 0 st)"

section \<open>The endpoint with a routing table\<close>

definition endpoint_route_capacity :: nat where
  "endpoint_route_capacity = 8"

record RoutedEndpoint =
  re_inner :: Endpoint
  re_routes :: RouteTable

definition routed_new :: "GdpAddress \<Rightarrow> EndpointConfig \<Rightarrow> RoutedEndpoint result" where
  "routed_new address c = rbind (endpoint_new address c) (\<lambda>e. Ok \<lparr>re_inner = e, re_routes = rt_new endpoint_route_capacity\<rparr>)"

definition routed_unconfigured :: "u64 \<Rightarrow> EndpointConfig \<Rightarrow> RoutedEndpoint result" where
  "routed_unconfigured suffix c = rbind (endpoint_unconfigured suffix c) (\<lambda>e. Ok \<lparr>re_inner = e, re_routes = rt_new endpoint_route_capacity\<rparr>)"

definition endpoint_route :: "RoutedEndpoint \<Rightarrow> GdpAddress \<Rightarrow> Instant \<Rightarrow> GdpAddress option result" where
  "endpoint_route e d now = rt_lookup (re_routes e) d now"

definition next_hop :: "RoutedEndpoint \<Rightarrow> GdpAddress \<Rightarrow> Instant \<Rightarrow> GdpAddress option result" where
  "next_hop e d now = (if rt_is_empty (re_routes e) then Ok (Some d) else endpoint_route e d now)"

definition require_next_hop :: "RoutedEndpoint \<Rightarrow> GdpAddress \<Rightarrow> Instant \<Rightarrow> GdpAddress result" where
  "require_next_hop e d now = rbind (next_hop e d now) (\<lambda>hop. ok_or hop NoRoute)"

definition on_inner :: "RoutedEndpoint \<Rightarrow> (Endpoint \<Rightarrow> (Endpoint, 'a) outcome) \<Rightarrow> (RoutedEndpoint, 'a) outcome" where
  "on_inner e f = (case f (re_inner e) of (res, i) \<Rightarrow> (res, e\<lparr>re_inner := i\<rparr>))"

definition connect_at :: "RoutedEndpoint \<Rightarrow> GdpAddress \<Rightarrow> ServiceSelector \<Rightarrow> StreamProfile \<Rightarrow> Instant \<Rightarrow> (RoutedEndpoint, TunnelHandle) outcome" where
  "connect_at e remote css profile now =
    sbind (lift_r (require_next_hop e remote now) e) (\<lambda>_ e. on_inner e (\<lambda>i. endpoint_connect i remote css profile))"

definition send_gctl_at :: "RoutedEndpoint \<Rightarrow> GdpAddress \<Rightarrow> GctlMessage \<Rightarrow> SizeClass \<Rightarrow> Instant \<Rightarrow> (RoutedEndpoint, unit) outcome" where
  "send_gctl_at e remote msg cls now =
    sbind (lift_r (require_next_hop e remote now) e) (\<lambda>_ e. on_inner e (\<lambda>i. send_gctl i remote msg cls))"

definition send_echo_at :: "RoutedEndpoint \<Rightarrow> GdpAddress \<Rightarrow> u32 \<Rightarrow> bytes \<Rightarrow> SizeClass \<Rightarrow> Instant \<Rightarrow> (RoutedEndpoint, unit) outcome" where
  "send_echo_at e remote t body cls now =
    sbind (lift_r (require_next_hop e remote now) e) (\<lambda>_ e. on_inner e (\<lambda>i. send_echo i remote t body cls))"

end
