(* ===== verification/Endpoint_Safety.thy ===== *)
theory Endpoint_Safety
  imports Endpoint
begin

text \<open>
  What every sequence of calls on an endpoint keeps: the addresses its authority has leased, and, when packets arrive by
  the managed receive path, the bound on the credit its peer granted and the virtual channels in use. All rest on one
  observation, \<open>steady\<close>: outside a few handlers no call touches the authority, raises the credit or leaves the
  channels of the installed mode.
\<close>

section \<open>Steady calls\<close>

text \<open>\<open>channels_ok d\<close>: every frame that waits for transmission is on a channel of the installed mode.\<close>

definition channels_ok :: "DlpEndpoint \<Rightarrow> bool" where
  "channels_ok d \<longleftrightarrow> (\<forall>f \<in> set (ep_control_tx_queue d @ ep_data_tx_queue d). tf_vcid f < vc_mode_count (ep_vc_mode d))"

definition channels_kept :: "DlpEndpoint \<Rightarrow> DlpEndpoint \<Rightarrow> bool" where
  "channels_kept d d' \<longleftrightarrow> ep_vc_mode d' = ep_vc_mode d \<and> (channels_ok d \<longrightarrow> channels_ok d')"

definition dlp_steady :: "DlpEndpoint \<Rightarrow> DlpEndpoint \<Rightarrow> bool" where
  "dlp_steady d d' \<longleftrightarrow> ep_data_tx_credit d' \<le> ep_data_tx_credit d \<and> channels_kept d d'"

definition steady :: "Endpoint \<Rightarrow> Endpoint \<Rightarrow> bool" where
  "steady e e' \<longleftrightarrow> en_authority e' = en_authority e \<and> dlp_steady (en_dlp e) (en_dlp e')"

lemma channels_kept_refl [simp]: "channels_kept d d"
  by (simp add: channels_kept_def)

lemma channels_kept_trans [trans]: "channels_kept a b \<Longrightarrow> channels_kept b c \<Longrightarrow> channels_kept a c"
  by (simp add: channels_kept_def)

text \<open>Nothing but the queues and the mode matters, and a queue may lose frames.\<close>

lemma channels_kept_subset:
  assumes "ep_vc_mode d' = ep_vc_mode d" "\<forall>f \<in> set (ep_control_tx_queue d'). \<exists>g \<in> set (ep_control_tx_queue d). tf_vcid f = tf_vcid g"
    "\<forall>f \<in> set (ep_data_tx_queue d'). \<exists>g \<in> set (ep_data_tx_queue d). tf_vcid f = tf_vcid g"
  shows "channels_kept d d'"
  using assms by (fastforce simp: channels_kept_def channels_ok_def)

lemma channels_kept_same:
  "ep_vc_mode d' = ep_vc_mode d \<Longrightarrow> ep_control_tx_queue d' = ep_control_tx_queue d \<Longrightarrow> ep_data_tx_queue d' = ep_data_tx_queue d \<Longrightarrow>
   channels_kept d d'"
  by (simp add: channels_kept_def channels_ok_def)

lemma dlp_steady_refl [simp]: "dlp_steady d d"
  by (simp add: dlp_steady_def)

lemma dlp_steady_trans: "dlp_steady a b \<Longrightarrow> dlp_steady b c \<Longrightarrow> dlp_steady a c"
  by (auto simp: dlp_steady_def intro: channels_kept_trans)

lemma steady_refl [simp, intro!]: "steady e e"
  by (simp add: steady_def)

lemma steady_trans [trans]: "steady a b \<Longrightarrow> steady b c \<Longrightarrow> steady a c"
  by (auto simp: steady_def intro: dlp_steady_trans)

lemma steady_sbind:
  assumes "steady e (snd m)" and "\<And>x s. m = (Ok x, s) \<Longrightarrow> steady s (snd (k x s))"
  shows "steady e (snd (sbind m k))"
  using assms by (cases m; cases "fst m") (auto intro: steady_trans)

lemma steady_lift [simp, intro!]: "steady e (snd (lift_r x e))"
  by (simp add: lift_r_def)

lemma steady_pure [simp]: "steady e (snd (r, s)) = steady e s"
  by simp

lemma on_dlp_steady: "(\<And>d. dlp_steady d (snd (f d))) \<Longrightarrow> steady e (snd (on_dlp e f))"
  by (cases "f (en_dlp e)") (auto simp: on_dlp_def steady_def dest: meta_spec[of _ "en_dlp e"])

lemma on_record_steady [simp, intro!]: "steady e (snd (on_record e h f))"
  by (auto simp: on_record_def steady_def split: option.split prod.split)

lemma queue_packet_steady: "dlp_steady d (snd (queue_packet_on d traffic vc p))"
proof -
  have "ep_data_tx_credit (snd (queue_packet_on d traffic vc p)) = ep_data_tx_credit d"
    by (cases "gdp_packet_encode p (ep_cfg d)") (auto simp: queue_packet_on_def lift_r_def Let_def split: LinkTraffic.split)
  moreover have "channels_kept d (snd (queue_packet_on d traffic vc p))"
    by (cases "gdp_packet_encode p (ep_cfg d)")
      (auto simp: queue_packet_on_def lift_r_def Let_def channels_kept_def channels_ok_def split: LinkTraffic.split)
  ultimately show ?thesis by (simp add: dlp_steady_def)
qed

lemma queue_steady: "dlp_steady d (snd (queue_control_packet d p))" "dlp_steady d (snd (queue_data_packet d p))"
proof -
  have "dlp_steady d (snd (choose_data_vc d))" by (simp add: choose_data_vc_def Let_def dlp_steady_def channels_kept_same)
  then show "dlp_steady d (snd (queue_data_packet d p))"
    using queue_packet_steady[of "snd (choose_data_vc d)" Data "fst (choose_data_vc d)" p]
    by (auto simp: queue_data_packet_def case_prod_beta intro: dlp_steady_trans)
qed (simp add: queue_control_packet_def queue_packet_steady)

lemma note_steady: "dlp_steady d (snd (note_data_credit_granted d n))"
  by (auto simp: note_data_credit_granted_def dlp_steady_def channels_kept_same)


lemma poll_tx_steady: "dlp_steady d (snd (poll_tx d))"
proof -
  obtain cf cq cc where c: "emit_queue_flits (ep_control_tx_queue d) (ep_control_tx_credit d) 1 = (cf, cq, cc)" using prod_cases3 by blast
  obtain df dq dc where e: "emit_queue_flits (ep_data_tx_queue d) (ep_data_tx_credit d) (1 - length cf) = (df, dq, dc)" using prod_cases3 by blast
  have "dc \<le> ep_data_tx_credit d" using emit_queue_flits_spec[OF e] by (simp add: word_le_nat_alt)
  moreover have "channels_kept d (d\<lparr>ep_control_tx_queue := cq, ep_control_tx_credit := cc, ep_data_tx_queue := dq, ep_data_tx_credit := dc\<rparr>)"
    using emit_queue_flits_spec[OF c] emit_queue_flits_spec[OF e] by (intro channels_kept_subset) (auto simp: same_frame_def)
  ultimately show ?thesis using c e by (simp add: poll_tx_def poll_tx_burst_def dlp_steady_def Let_def)
qed

lemma pop_sendable_subset: "pop_sendable_frame q n = (r, (q', n')) \<Longrightarrow> set q' \<subseteq> set q"
  by (cases q) (auto simp: pop_sendable_frame_def Let_def split: if_splits)

lemma pop_sendable_credit: "pop_sendable_frame q n = (r, (q', n')) \<Longrightarrow> n' \<le> n"
proof (cases q)
  case (Cons f fs)
  assume pop: "pop_sendable_frame q n = (r, (q', n'))"
  have "n - of_nat k \<le> n" if "k \<le> unat n" for k
  proof -
    have "of_nat k \<le> n" using that by (simp add: word_le_nat_alt unat_of_nat)
    then show ?thesis by (rule word_sub_le)
  qed
  then show ?thesis using pop Cons by (auto simp: pop_sendable_frame_def Let_def split: if_splits)
qed (simp add: pop_sendable_frame_def)

lemma poll_tx_frame_steady: "dlp_steady d (snd (poll_tx_frame d))"
proof -
  obtain r cq cc where c: "pop_sendable_frame (ep_control_tx_queue d) (ep_control_tx_credit d) = (r, (cq, cc))" using prod_cases3 by blast
  obtain r' dq dc where e: "pop_sendable_frame (ep_data_tx_queue d) (ep_data_tx_credit d) = (r', (dq, dc))" using prod_cases3 by blast
  have kept: "channels_kept d (d\<lparr>ep_control_tx_queue := cq, ep_control_tx_credit := cc\<rparr>)"
      "channels_kept d (d\<lparr>ep_control_tx_queue := cq, ep_control_tx_credit := cc, ep_data_tx_queue := dq, ep_data_tx_credit := dc\<rparr>)"
    using pop_sendable_subset[OF c] pop_sendable_subset[OF e] by (auto intro!: channels_kept_subset)
  show ?thesis using pop_sendable_credit[OF e] kept
    by (cases r; cases r') (auto simp: poll_tx_frame_def c e Let_def dlp_steady_def split: option.split)
qed

lemma receive_frame_steady: "dlp_steady d (snd (receive_frame d f))"
  by (auto simp: receive_frame_def dlp_steady_def release_data_segment_def Let_def intro!: channels_kept_same)

lemma dlp_receive_steady: "dlp_steady d (snd (dlp_receive d f))"
proof -
  have seg: "dlp_steady x (snd (open_segment x i t w))" for x i t w
    by (auto simp: open_segment_def release_data_segment_def dlp_steady_def split: option.split result.split intro!: channels_kept_same)
  have fin: "dlp_steady x (snd (finish_segment x i s))" for x i s
    by (auto simp: finish_segment_def release_data_segment_def Let_def dlp_steady_def split: option.split result.split intro!: channels_kept_same)
  have upd: "dlp_steady x (x\<lparr>ep_rx := r\<rparr>)" "dlp_steady x (x\<lparr>ep_data_credit_outstanding := n, ep_data_rx_in_use := k\<rparr>)" for x r n k
    by (simp_all add: dlp_steady_def channels_kept_same)
  have app: "dlp_steady x (snd (append_flit x i t w s))" for x i t w s
    by (auto simp: append_flit_def upd Let_def intro: dlp_steady_trans[OF upd(1) fin])
  have both: "dlp_steady x (snd (sbind (open_segment x i t w) (\<lambda>s x. append_flit x i t w s)))" for x i t w
    using seg[of x i t w] by (cases "open_segment x i t w"; cases "fst (open_segment x i t w)") (auto intro: dlp_steady_trans app)
  show ?thesis by (auto simp: dlp_receive_def Let_def both intro: dlp_steady_trans[OF upd(2) both])
qed

section \<open>The operations of the endpoint\<close>

named_theorems steady_rules

lemma steady_update [simp]:
  "steady e (f\<lparr>en_tunnels := x1\<rparr>) = steady e f" "steady (e\<lparr>en_tunnels := x1\<rparr>) f = steady e f"
  "steady e (f\<lparr>en_accepted := x2\<rparr>) = steady e f" "steady (e\<lparr>en_accepted := x2\<rparr>) f = steady e f"
  "steady e (f\<lparr>en_next_tunnel := x3\<rparr>) = steady e f" "steady (e\<lparr>en_next_tunnel := x3\<rparr>) f = steady e f"
  "steady e (f\<lparr>en_next_reset := x3\<rparr>) = steady e f" "steady (e\<lparr>en_next_reset := x3\<rparr>) f = steady e f"
  "steady e (f\<lparr>en_next_control_transaction := x3\<rparr>) = steady e f" "steady (e\<lparr>en_next_control_transaction := x3\<rparr>) f = steady e f"
  "steady e (f\<lparr>en_address_state := x4\<rparr>) = steady e f" "steady (e\<lparr>en_address_state := x4\<rparr>) f = steady e f"
  "steady e (f\<lparr>en_router_address := x5\<rparr>) = steady e f" "steady (e\<lparr>en_router_address := x5\<rparr>) f = steady e f"
  "steady e (f\<lparr>en_pending_client_offer := x6\<rparr>) = steady e f" "steady (e\<lparr>en_pending_client_offer := x6\<rparr>) f = steady e f"
  "steady e (f\<lparr>en_next_claim_nonce := x7\<rparr>) = steady e f" "steady (e\<lparr>en_next_claim_nonce := x7\<rparr>) f = steady e f"
  "steady e (f\<lparr>en_peer_link_local := x5\<rparr>) = steady e f" "steady (e\<lparr>en_peer_link_local := x5\<rparr>) f = steady e f"
  "steady e (f\<lparr>en_credit_request_pending := x8\<rparr>) = steady e f" "steady (e\<lparr>en_credit_request_pending := x8\<rparr>) f = steady e f"
  "steady e (f\<lparr>en_listeners := x9\<rparr>) = steady e f" "steady e (f\<lparr>en_echo_replies := x10\<rparr>) = steady e f"
  "steady e (f\<lparr>en_gctl_inbox := x11\<rparr>) = steady e f" "steady e (f\<lparr>en_last_rx_address_form := x12\<rparr>) = steady e f"
  "steady (e\<lparr>en_last_rx_address_form := x12\<rparr>) f = steady e f"
  "steady e (f\<lparr>en_primary_address := x13\<rparr>) = steady e f" "steady e (f\<lparr>en_config := x14\<rparr>) = steady e f"
  by (simp_all add: steady_def)

lemma steady_dlp_update [simp]: "steady e (e\<lparr>en_dlp := d\<rparr>) \<longleftrightarrow> dlp_steady (en_dlp e) d"
  by (simp add: steady_def)

lemma send_gctl_from_steady [steady_rules]: "steady e (snd (send_gctl_from e source remote msg cls))"
  unfolding send_gctl_from_def by (intro steady_sbind steady_lift on_dlp_steady queue_steady) simp_all

lemma send_gts_steady [steady_rules]: "steady e (snd (send_gts e remote p profile))"
  unfolding send_gts_def by (intro steady_sbind steady_lift on_dlp_steady queue_steady) simp_all

lemma steady_sbind_state [steady_rules]:
  assumes "steady e (snd m)" and "\<And>x s. steady s (snd (k x s))"
  shows "steady e (snd (sbind m k))"
  using assms by (rule steady_sbind)

lemmas [steady_rules] = steady_lift on_record_steady on_dlp_steady note_steady poll_tx_steady poll_tx_frame_steady
  dlp_receive_steady receive_frame_steady

lemma take_control_steady: "steady e f \<Longrightarrow> steady e (snd (take_control_transaction f))"
  by (simp add: take_control_transaction_def)

lemma lift_after [steady_rules]: "steady e f \<Longrightarrow> steady e (snd (lift_r x f))"
  by (simp add: lift_r_def)

lemma send_gctl_after [steady_rules]: "steady e f \<Longrightarrow> steady e (snd (send_gctl_from f source remote msg cls))"
  by (rule steady_trans[OF _ send_gctl_from_steady])

lemma send_gts_after [steady_rules]: "steady e f \<Longrightarrow> steady e (snd (send_gts f remote p profile))"
  by (rule steady_trans[OF _ send_gts_steady])

lemma advertise_steady [steady_rules]: "steady e (snd (advertise_link_credit e force))"
  by (auto simp: advertise_link_credit_def take_control_transaction_def Let_def split: option.split intro!: steady_rules)

lemma maybe_request_steady [steady_rules]: "steady e (snd (maybe_request_link_credit e))"
  by (auto simp: maybe_request_link_credit_def take_control_transaction_def Let_def split: option.split intro!: steady_rules)

lemma application_steady [steady_rules]:
  "steady e (snd (solicit_router e t))" "steady e (snd (send_gctl e remote msg cls))" "steady e (snd (send_echo e remote t body cls))"
  "steady e (snd (endpoint_connect e remote css profile))" "steady e (snd (open_stream e h profile))"
  "steady e (snd (send_inner e h i bytes fin now))" "steady e (snd (endpoint_recv e h i))"
  "steady e (snd (endpoint_reset_stream e h i reason))" "steady e (snd (close_stream e h i))"
  "steady e (snd (close_tunnel e h))" "steady e (snd (reset_tunnel e h reason))"
  by (auto simp: solicit_router_def send_gctl_def send_echo_def endpoint_connect_def alloc_tunnel_def open_stream_def send_inner_def
      endpoint_recv_def endpoint_reset_stream_def close_stream_def close_tunnel_def reset_tunnel_def Let_def
      split: prod.split option.split intro!: steady_rules)

lemma gts_handlers_steady [steady_rules]:
  "steady e (snd (on_connect e src i r profile credit css))" "steady e (snd (on_connect_ack e i r r' status credit))"
  "steady e (snd (on_stream_open e h j profile credit))" "steady e (snd (on_stream_ack e h j status credit))"
  "steady e (snd (on_data e cls h j p))" "steady e (snd (on_datagram e cls h j p))"
  "steady e (snd (on_ack_packet e cls h j base bitmap credit))" "steady e (snd (on_stream_close e cls h j final is_ack))"
  "steady e (snd (on_stream_reset e h j reason is_ack))" "steady e (snd (on_tunnel_close e h is_ack))"
  "steady e (snd (on_reset e h reset))"
  by (auto simp: on_connect_def alloc_tunnel_def on_connect_ack_def on_stream_open_def on_stream_ack_def on_data_def on_datagram_def
      on_ack_packet_def on_stream_close_def on_stream_reset_def on_tunnel_close_def on_reset_def Let_def
      split: prod.split option.split GtsPacket.split intro!: steady_rules)

lemma dispatch_gts_steady [steady_rules]: "steady e (snd (dispatch_gts e src cls g))"
  by (cases g) (auto simp: dispatch_gts_def intro!: steady_rules)

lemma handle_gts_steady [steady_rules]: "steady e (snd (handle_gts e src packet))"
  unfolding handle_gts_def by (intro steady_rules)

lemma send_pending_steady [steady_rules]: "steady e (snd (send_pending e ps))"
  by (induction ps arbitrary: e rule: list.induct) (auto split: prod.split intro!: steady_rules)

lemma endpoint_tick_steady [steady_rules]: "steady e (snd (endpoint_tick e now))"
  by (cases "tick_records now (en_tunnels e)") (auto simp: endpoint_tick_def intro!: steady_rules)

lemma poll_endpoint_steady [steady_rules]:
  "steady e (snd (endpoint_poll_tx_flit e))" "steady e (snd (endpoint_poll_tx_frame e))"
  unfolding endpoint_poll_tx_flit_def endpoint_poll_tx_frame_def by (intro steady_rules)+

lemma client_steady [steady_rules]:
  "steady e (snd (on_credit_request e src msg))" "steady e (snd (on_advertise e src msg))"
  "steady e (snd (handle_address_offer e src msg))" "steady e (snd (handle_address_nak e msg))"
  by (auto simp: on_credit_request_def on_advertise_def handle_address_offer_def handle_address_nak_def inbox_def Let_def
      intro!: steady_rules)

lemma adopt_address_steady: "steady e (adopt_address e pending ack)"
  by (simp add: adopt_address_def Let_def steady_def set_local_prefix_def dlp_steady_def channels_kept_same)

lemma handle_address_ack_steady [steady_rules]: "steady e (snd (handle_address_ack e msg))"
  by (auto simp: handle_address_ack_def adopt_address_steady Let_def intro!: steady_rules)

lemma link_steady [steady_rules]:
  "steady e (snd (link_attached e peer window))" "steady e (snd (bind_managed_link_peer e peer window))"
  "steady e (snd (retry_managed_link_credit_request e))" "steady e (link_detached e)"
proof -
  have [simp]: "dlp_steady d (grant_control_tx_credit d' w) = dlp_steady d d'" "dlp_steady d (set_link_up d b)" for d d' w b
    by (simp_all add: grant_control_tx_credit_def set_link_up_def dlp_steady_def channels_kept_def channels_ok_def)
  have after: "steady e f \<Longrightarrow> steady e (snd (advertise_link_credit f b))" for e f b by (rule steady_trans[OF _ advertise_steady])
  show "steady e (snd (link_attached e peer window))"
    by (auto simp: link_attached_def on_link_attached_def intro!: after)
  show "steady e (snd (bind_managed_link_peer e peer window))"
  proof -
    have "steady e (e\<lparr>en_peer_link_local := Some peer, en_credit_request_pending := False,
        en_dlp := grant_control_tx_credit (en_dlp e) window\<rparr>)" by (simp add: steady_def)
    then show ?thesis by (simp add: bind_managed_link_peer_def after)
  qed
  show "steady e (link_detached e)" by (simp add: link_detached_def steady_def)
  show "steady e (snd (retry_managed_link_credit_request e))"
  proof (cases "en_peer_link_local e")
    case (Some peer)
    let ?f = "snd (take_control_transaction (e\<lparr>en_credit_request_pending := False\<rparr>))"
    have f: "steady e ?f" by (simp add: take_control_transaction_def)
    have "steady e (snd (case send_gctl_from ?f src peer msg None of
        (Ok x, g) \<Rightarrow> (Ok (), g\<lparr>en_credit_request_pending := True\<rparr>) | (Err _, g) \<Rightarrow> (Ok (), g) | (Panic, g) \<Rightarrow> (Panic, g)))" for src msg
      using send_gctl_after[OF f, of src peer msg None] by (auto split: prod.split result.split)
    then show ?thesis using Some by (auto simp: retry_managed_link_credit_request_def Let_def take_control_transaction_def)
  qed (simp add: retry_managed_link_credit_request_def Let_def)
qed

section \<open>Leases only grow\<close>

definition leases :: "AddressAuthority \<Rightarrow> GdpAddress \<Rightarrow> GdpAddress option" where
  "leases a = bt_get (aa_leases a)"

definition leases_kept :: "Endpoint \<Rightarrow> Endpoint \<Rightarrow> bool" where
  "leases_kept e e' \<longleftrightarrow> (\<forall>a. en_authority e = Some a \<longrightarrow> authority_inv a \<longrightarrow>
    (\<exists>a'. en_authority e' = Some a' \<and> authority_inv a' \<and> leases a \<subseteq>\<^sub>m leases a'))"

lemma leases_kept_refl: "leases_kept e e"
  by (auto simp: leases_kept_def)

lemma leases_kept_trans: "leases_kept a b \<Longrightarrow> leases_kept b c \<Longrightarrow> leases_kept a c"
  unfolding leases_kept_def by (meson map_le_trans)

lemma steady_leases: "steady e e' \<Longrightarrow> leases_kept e e'"
  by (auto simp: steady_def leases_kept_def)

text \<open>A tame call keeps the leases and is steady on the data link.\<close>

definition tame :: "Endpoint \<Rightarrow> Endpoint \<Rightarrow> bool" where
  "tame e e' \<longleftrightarrow> leases_kept e e' \<and> dlp_steady (en_dlp e) (en_dlp e')"

lemma tame_refl: "tame e e"
  by (simp add: tame_def leases_kept_refl)

lemma tame_trans: "tame a b \<Longrightarrow> tame b c \<Longrightarrow> tame a c"
  by (auto simp: tame_def intro: leases_kept_trans dlp_steady_trans)

lemma steady_tame: "steady e e' \<Longrightarrow> tame e e'"
  by (simp add: tame_def steady_leases) (simp add: steady_def)

lemma tame_sbind:
  assumes "tame e (snd m)" and "\<And>x s. tame s (snd (k x s))"
  shows "tame e (snd (sbind m k))"
  using assms by (cases m; cases "fst m") (auto intro: tame_trans)

lemma on_authority_tame:
  assumes "en_authority e = Some a" and "authority_inv a \<Longrightarrow> authority_inv a' \<and> leases a \<subseteq>\<^sub>m leases a'"
  shows "tame e (on_authority e a')"
  using assms by (auto simp: tame_def leases_kept_def on_authority_def)

lemma handle_router_solicit_tame: "tame e (snd (handle_router_solicit e src msg))"
proof -
  have main: "tame e (snd (case allocate_candidate a provider of
              (Err er, a) \<Rightarrow> (Err er, on_authority e a)
            | (Panic, a) \<Rightarrow> (Panic, on_authority e a)
            | (Ok candidate, a) \<Rightarrow>
                sbind (send_gctl_from (on_authority e (authority_pend a t src candidate)) (ll a candidate) src (adv a candidate) None) (\<lambda>_ e.
                sbind (lift_r (off a candidate) e) (\<lambda>offer e.
                sbind (send_gctl_from e (en_link_local_address e) src offer None) (\<lambda>_ e. (Ok True, e))))))"
    if auth: "en_authority e = Some a" for e a provider t ll adv off
  proof -
    obtain res a' where al: "allocate_candidate a provider = (res, a')" by force
    obtain h where a': "a' = a\<lparr>aa_next_host := h\<rparr>" using allocate_candidate_fresh[OF al] by blast
    have same: "tame e (on_authority e a')" by (rule on_authority_tame[OF auth]) (simp add: a' leases_def)
    show ?thesis
    proof (cases res)
      case (Ok c)
      have use: "candidate_in_use a' c = candidate_in_use a c" by (simp add: a' candidate_in_use_def)
      have "\<not> candidate_in_use a c" using allocate_candidate_fresh[OF al] Ok by blast
      then have inv: "authority_inv a \<Longrightarrow> authority_inv (authority_pend a' t src c)" by (intro authority_pend_inv) (simp_all add: use, simp add: a')
      have "tame e (on_authority e (authority_pend a' t src c))"
        using inv by (intro on_authority_tame[OF auth]) (simp_all add: leases_def authority_pend_def a')
      moreover have "steady f (snd (sbind (send_gctl_from f (ll a' c) src (adv a' c) None) (\<lambda>_ e.
                sbind (lift_r (off a' c) e) (\<lambda>offer e.
                sbind (send_gctl_from e (en_link_local_address e) src offer None) (\<lambda>_ e. (Ok True, e))))))" for f
        by (auto intro!: steady_rules)
      ultimately show ?thesis by (auto simp: al Ok intro: tame_trans steady_tame)
    qed (simp_all add: al same)
  qed
  show ?thesis
    unfolding handle_router_solicit_def Let_def
    by (rule tame_sbind) (auto simp: tame_refl main steady_tame steady_lift split: option.split)
qed

lemma handle_address_claim_tame: "tame e (snd (handle_address_claim e src msg))"
proof -
  have send: "steady f (snd (sbind (send_gctl_from f ll src m None) (\<lambda>_ e. (Ok True, e))))" for f ll m
    by (auto intro!: steady_rules)
  have lease: "tame f (on_authority f (authority_lease a t src c))"
    if "en_authority f = Some a" "claim_valid a t src c" for f a t c
    using authority_lease_inv[OF _ that(2)] by (intro on_authority_tame[OF that(1)]) (auto simp: leases_def map_le_def)
  show ?thesis
    unfolding handle_address_claim_def
    by (rule tame_sbind)
      (auto simp: Let_def tame_refl steady_tame steady_lift send split: option.split
        intro: tame_trans[OF lease steady_tame[OF send]])
qed

lemma dispatch_gctl_tame:
  assumes "gm_type msg \<noteq> GCredit"
  shows "tame e (snd (dispatch_gctl e src cls msg))"
proof -
  have keep: "tame s (if b then s else inbox s src msg)" for s b
    by (intro steady_tame) (simp add: inbox_def)
  have or_inbox: "tame e (snd m) \<Longrightarrow> tame e (snd (or_inbox src msg m))" for m
    unfolding or_inbox_def by (rule tame_sbind) (auto simp: keep)
  show ?thesis using assms
    by (cases "gm_type msg") (auto simp: dispatch_gctl_def or_inbox handle_router_solicit_tame handle_address_claim_tame inbox_def
      intro!: steady_tame steady_rules)
qed

lemma on_credit_kept: "leases_kept e (snd (on_credit e msg))"
  by (cases "parse_credit msg") (auto simp: on_credit_def leases_kept_def lift_r_def)

lemma leases_sbind:
  assumes "leases_kept e (snd m)" and "\<And>x s. leases_kept s (snd (k x s))"
  shows "leases_kept e (snd (sbind m k))"
  using assms by (cases m; cases "fst m") (auto intro: leases_kept_trans)

lemma handle_gctl_kept: "leases_kept e (snd (handle_gctl e src packet))"
proof -
  have "leases_kept s (snd (dispatch_gctl s src cls msg))" for s cls msg
    using dispatch_gctl_tame[of msg s src cls] on_credit_kept[of s msg]
    by (cases "gm_type msg = GCredit") (auto simp: tame_def dispatch_gctl_def)
  then show ?thesis unfolding handle_gctl_def by (intro leases_sbind) (simp_all add: steady_leases)
qed

lemma handle_gdp_kept: "leases_kept e (snd (handle_gdp e packet))"
proof -
  have form: "leases_kept e (e\<lparr>en_last_rx_address_form := x\<rparr>)" for x by (intro steady_leases) simp
  show ?thesis
    by (auto simp: handle_gdp_def Let_def leases_kept_refl form split: GdpType.split
        intro: leases_kept_trans[OF form handle_gctl_kept] leases_kept_trans[OF form steady_leases[OF handle_gts_steady]])
qed

lemma receive_kept:
  "leases_kept e (snd (endpoint_receive_flit e f))" "leases_kept e (snd (endpoint_receive_frame e g))"
  "leases_kept e (snd (receive_managed_flit e f limit))" "leases_kept e (snd (receive_managed_frame e g limit))"
proof -
  have adv: "leases_kept s (snd (sbind (advertise_link_credit s False) (\<lambda>_ s. (Ok True, s))))" for s
    by (intro steady_leases steady_rules) simp
  have handle: "leases_kept s (snd (sbind (handle_gdp s p) (\<lambda>_ s. sbind (advertise_link_credit s False) (\<lambda>_ s. (Ok True, s)))))" for s p
    by (rule leases_sbind[OF handle_gdp_kept adv])
  have managed: "leases_kept s (snd (managed_handle s p limit))" for s p
    unfolding managed_handle_def by (rule leases_sbind[OF _ handle]) (simp add: steady_leases)
  note dlp = steady_leases[OF on_dlp_steady[OF dlp_receive_steady]] steady_leases[OF on_dlp_steady[OF receive_frame_steady]]
  show "leases_kept e (snd (endpoint_receive_flit e f))" unfolding endpoint_receive_flit_def
    by (rule leases_sbind[OF dlp(1)]) (auto simp: handle leases_kept_refl split: option.split)
  show "leases_kept e (snd (endpoint_receive_frame e g))" unfolding endpoint_receive_frame_def
    by (rule leases_sbind[OF dlp(2) handle])
  show "leases_kept e (snd (receive_managed_flit e f limit))" unfolding receive_managed_flit_def
    by (rule leases_sbind[OF dlp(1)]) (auto simp: managed leases_kept_refl split: option.split)
  show "leases_kept e (snd (receive_managed_frame e g limit))" unfolding receive_managed_frame_def
    by (rule leases_sbind[OF dlp(2) managed])
qed

section \<open>The credit of a managed link\<close>

lemma handle_gdp_tame:
  assumes "packet_type (pkt_header p) = Gctl \<Longrightarrow> (\<And>msg. gctl_decode (pkt_payload p) = Ok msg \<Longrightarrow> gm_type msg \<noteq> GCredit)"
  shows "tame e (snd (handle_gdp e p))"
proof -
  have form: "tame e (e\<lparr>en_last_rx_address_form := x\<rparr>)" for x by (intro steady_tame) simp
  have "tame s (snd (handle_gctl s src p))" if "packet_type (pkt_header p) = Gctl" for s src
    using assms[OF that] by (cases "gctl_decode (pkt_payload p)") (auto simp: handle_gctl_def lift_r_def tame_refl dispatch_gctl_tame)
  then show ?thesis
    by (auto simp: handle_gdp_def Let_def tame_refl form split: GdpType.split
        intro: tame_trans[OF form] tame_trans[OF form steady_tame[OF handle_gts_steady]])
qed

lemma granted_within:
  fixes c g l limit :: u32
  assumes "c \<le> l" "limit \<le> l" "g \<noteq> 0" "\<not> saturating_sub limit c < g"
  shows "saturating_add c g \<le> l"
proof -
  have "0 < unat g" using assms(3) by (simp add: unat_gt_0)
  moreover have "unat g \<le> unat limit - unat c" using assms(4) by (simp add: word_less_nat_alt unat_saturating_sub not_less)
  ultimately show ?thesis using assms(1,2) by (simp add: word_le_nat_alt unat_saturating_add)
qed

lemma managed_gdp_credit:
  assumes "ep_data_tx_credit (en_dlp e) \<le> l" "limit \<le> l" "validate_managed_credit_grant e p limit = Ok u"
  shows "ep_data_tx_credit (en_dlp (snd (handle_gdp e p))) \<le> l"
proof (cases "packet_type (pkt_header p) = Gctl \<and> (\<exists>msg. gctl_decode (pkt_payload p) = Ok msg \<and> gm_type msg = GCredit)")
  case True
  then obtain msg where msg: "packet_type (pkt_header p) = Gctl" "gctl_decode (pkt_payload p) = Ok msg" "gm_type msg = GCredit" by blast
  then obtain g where g: "parse_credit msg = Ok g" "g \<noteq> 0" "\<not> saturating_sub limit (ep_data_tx_credit (en_dlp e)) < g"
    using assms(3) by (cases "parse_credit msg") (auto simp: validate_managed_credit_grant_def split: if_splits)
  show ?thesis using granted_within[OF assms(1,2) g(2,3)] assms(1) msg g(1)
    by (simp add: handle_gdp_def Let_def handle_gctl_def dispatch_gctl_def on_credit_def grant_data_tx_credit_def)
next
  case False
  then have "tame e (snd (handle_gdp e p))" by (intro handle_gdp_tame) blast
  then show ?thesis using assms(1) by (auto simp: tame_def dlp_steady_def)
qed

lemma steady_credit: "steady e e' \<Longrightarrow> ep_data_tx_credit (en_dlp e) \<le> l \<Longrightarrow> ep_data_tx_credit (en_dlp e') \<le> l"
  by (auto simp: steady_def dlp_steady_def)

lemma managed_handle_credit:
  assumes "ep_data_tx_credit (en_dlp e) \<le> l" "limit \<le> l"
  shows "ep_data_tx_credit (en_dlp (snd (managed_handle e p limit))) \<le> l"
proof (cases "validate_managed_credit_grant e p limit")
  case (Ok u)
  have adv: "steady s (snd (sbind (advertise_link_credit s False) (\<lambda>_ s. (Ok True, s))))" for s by (intro steady_rules) simp
  show ?thesis using managed_gdp_credit[OF assms Ok] steady_credit[OF adv]
    by (cases "handle_gdp e p"; cases "fst (handle_gdp e p)") (auto simp: managed_handle_def Ok)
qed (simp_all add: managed_handle_def assms lift_r_def)

lemma managed_receive_credit:
  assumes "ep_data_tx_credit (en_dlp e) \<le> l" "limit \<le> l"
  shows "ep_data_tx_credit (en_dlp (snd (receive_managed_flit e f limit))) \<le> l"
    and "ep_data_tx_credit (en_dlp (snd (receive_managed_frame e g limit))) \<le> l"
proof -
  note flit = steady_credit[OF on_dlp_steady[OF dlp_receive_steady] assms(1)]
    and frame = steady_credit[OF on_dlp_steady[OF receive_frame_steady] assms(1)]
  show "ep_data_tx_credit (en_dlp (snd (receive_managed_flit e f limit))) \<le> l"
    using flit[of "\<lambda>_. f"] managed_handle_credit[OF _ assms(2)]
    by (cases "on_dlp e (\<lambda>d. dlp_receive d f)"; cases "fst (on_dlp e (\<lambda>d. dlp_receive d f))")
      (auto simp: receive_managed_flit_def split: option.split)
  show "ep_data_tx_credit (en_dlp (snd (receive_managed_frame e g limit))) \<le> l"
    using frame[of "\<lambda>_. g"] managed_handle_credit[OF _ assms(2)]
    by (cases "on_dlp e (\<lambda>d. receive_frame d g)"; cases "fst (on_dlp e (\<lambda>d. receive_frame d g))")
      (auto simp: receive_managed_frame_def)
qed

text \<open>No packet makes an endpoint leave the channels of its mode: the handler of a grant touches only the credit.\<close>

abbreviation core_channels :: "Endpoint \<Rightarrow> Endpoint \<Rightarrow> bool" where
  "core_channels e e' \<equiv> channels_kept (en_dlp e) (en_dlp e')"

lemma steady_channels: "steady e e' \<Longrightarrow> core_channels e e'" "tame e e' \<Longrightarrow> core_channels e e'"
  by (simp_all add: steady_def tame_def dlp_steady_def)

lemma channels_sbind:
  assumes "core_channels e (snd m)" and "\<And>x s. core_channels s (snd (k x s))"
  shows "core_channels e (snd (sbind m k))"
  using assms by (cases m; cases "fst m") (auto intro: channels_kept_trans)

lemma handle_gdp_channels: "core_channels e (snd (handle_gdp e p))"
proof (cases "packet_type (pkt_header p) = Gctl \<and> (\<exists>msg. gctl_decode (pkt_payload p) = Ok msg \<and> gm_type msg = GCredit)")
  case True
  then obtain msg where msg: "packet_type (pkt_header p) = Gctl" "gctl_decode (pkt_payload p) = Ok msg" "gm_type msg = GCredit" by blast
  then show ?thesis
    by (cases "parse_credit msg")
      (auto simp: handle_gdp_def Let_def handle_gctl_def dispatch_gctl_def on_credit_def grant_data_tx_credit_def lift_r_def
        intro!: channels_kept_same)
next
  case False
  then have "tame e (snd (handle_gdp e p))" by (intro handle_gdp_tame) blast
  then show ?thesis by (rule steady_channels)
qed

lemma managed_receive_channels:
  "core_channels e (snd (receive_managed_flit e f limit))" "core_channels e (snd (receive_managed_frame e g limit))"
proof -
  have adv: "core_channels s (snd (sbind (advertise_link_credit s False) (\<lambda>_ s. (Ok True, s))))" for s
    by (intro steady_channels(1) steady_rules) simp
  have managed: "core_channels s (snd (managed_handle s p limit))" for s p
    unfolding managed_handle_def by (intro channels_sbind handle_gdp_channels adv) (simp add: steady_channels)
  note dlp = steady_channels(1)[OF on_dlp_steady[OF dlp_receive_steady]] steady_channels(1)[OF on_dlp_steady[OF receive_frame_steady]]
  show "core_channels e (snd (receive_managed_flit e f limit))" unfolding receive_managed_flit_def
    by (rule channels_sbind[OF dlp(1)]) (auto simp: managed split: option.split)
  show "core_channels e (snd (receive_managed_frame e g limit))" unfolding receive_managed_frame_def
    by (rule channels_sbind[OF dlp(2) managed])
qed

section \<open>Sequences of calls\<close>

text \<open>The calls that the application, the clock and the link make on an endpoint. Whatever a call returns, the next one
  starts in the state it left.\<close>

datatype endpoint_call =
    CListen ServiceSelector ListenerConfig
  | CConnect GdpAddress ServiceSelector StreamProfile
  | CAccept
  | COpenStream u32 StreamProfile
  | CSend u32 u8 bytes bool u64
  | CRecv u32 u8
  | CResetStream u32 u8 u8
  | CCloseStream u32 u8
  | CCloseTunnel u32
  | CResetTunnel u32 u8
  | CGctl GdpAddress GctlMessage SizeClass
  | CTakeEcho u32
  | CTakeGctl
  | CSolicit u32
  | CTick u64
  | CPollFlit
  | CPollFrame
  | CReceiveFlit Flit
  | CReceiveFrame GnetFrame
  | CManagedFlit Flit u32
  | CManagedFrame GnetFrame u32
  | CAttached GdpAddress u32
  | CBindPeer GdpAddress u32
  | CRetryCredit
  | CDetached

fun endpoint_do :: "Endpoint \<Rightarrow> endpoint_call \<Rightarrow> Endpoint" where
  "endpoint_do e (CListen css c) = endpoint_listen e css c"
| "endpoint_do e (CConnect remote css profile) = snd (endpoint_connect e remote css profile)"
| "endpoint_do e CAccept = snd (endpoint_accept e)"
| "endpoint_do e (COpenStream h profile) = snd (open_stream e h profile)"
| "endpoint_do e (CSend h i bytes fin now) = snd (if fin then endpoint_send_end e h i bytes now else endpoint_send e h i bytes now)"
| "endpoint_do e (CRecv h i) = snd (endpoint_recv e h i)"
| "endpoint_do e (CResetStream h i reason) = snd (endpoint_reset_stream e h i reason)"
| "endpoint_do e (CCloseStream h i) = snd (close_stream e h i)"
| "endpoint_do e (CCloseTunnel h) = snd (close_tunnel e h)"
| "endpoint_do e (CResetTunnel h reason) = snd (reset_tunnel e h reason)"
| "endpoint_do e (CGctl remote msg cls) = snd (send_gctl e remote msg cls)"
| "endpoint_do e (CTakeEcho t) = snd (take_echo_reply e t)"
| "endpoint_do e CTakeGctl = snd (take_gctl e)"
| "endpoint_do e (CSolicit t) = snd (solicit_router e t)"
| "endpoint_do e (CTick now) = snd (endpoint_tick e now)"
| "endpoint_do e CPollFlit = snd (endpoint_poll_tx_flit e)"
| "endpoint_do e CPollFrame = snd (endpoint_poll_tx_frame e)"
| "endpoint_do e (CReceiveFlit f) = snd (endpoint_receive_flit e f)"
| "endpoint_do e (CReceiveFrame f) = snd (endpoint_receive_frame e f)"
| "endpoint_do e (CManagedFlit f limit) = snd (receive_managed_flit e f limit)"
| "endpoint_do e (CManagedFrame f limit) = snd (receive_managed_frame e f limit)"
| "endpoint_do e (CAttached peer window) = snd (link_attached e peer window)"
| "endpoint_do e (CBindPeer peer window) = snd (bind_managed_link_peer e peer window)"
| "endpoint_do e CRetryCredit = snd (retry_managed_link_credit_request e)"
| "endpoint_do e CDetached = link_detached e"

definition endpoint_run :: "Endpoint \<Rightarrow> endpoint_call list \<Rightarrow> Endpoint" where
  "endpoint_run e calls = foldl endpoint_do e calls"

fun receive_call :: "endpoint_call \<Rightarrow> bool" where
  "receive_call (CReceiveFlit f) = True"
| "receive_call (CReceiveFrame f) = True"
| "receive_call (CManagedFlit f l) = True"
| "receive_call (CManagedFrame f l) = True"
| "receive_call _ = False"

lemma quiet_call_steady: "\<not> receive_call c \<Longrightarrow> steady e (endpoint_do e c)"
  by (cases c) (auto simp: endpoint_listen_def endpoint_accept_def endpoint_send_def endpoint_send_end_def take_echo_reply_def take_gctl_def
      split: list.split intro!: steady_rules)

lemma call_kept: "leases_kept e (endpoint_do e c)"
proof (cases "receive_call c")
  case True
  then show ?thesis by (cases c) (simp_all add: receive_kept)
qed (simp add: quiet_call_steady steady_leases)

lemma run_kept: "leases_kept e (endpoint_run e calls)"
  unfolding endpoint_run_def by (induction calls arbitrary: e) (auto simp: leases_kept_refl intro: leases_kept_trans call_kept)

text \<open>The calls of a managed link: packets arrive by the managed receive path, with a limit of at most \<open>l\<close>.\<close>

fun managed_call :: "u32 \<Rightarrow> endpoint_call \<Rightarrow> bool" where
  "managed_call l (CReceiveFlit f) = False"
| "managed_call l (CReceiveFrame f) = False"
| "managed_call l (CManagedFlit f limit) = (limit \<le> l)"
| "managed_call l (CManagedFrame f limit) = (limit \<le> l)"
| "managed_call l _ = True"

lemma managed_call_credit:
  assumes "managed_call l c" "ep_data_tx_credit (en_dlp e) \<le> l"
  shows "ep_data_tx_credit (en_dlp (endpoint_do e c)) \<le> l"
proof (cases "receive_call c")
  case True
  then show ?thesis using assms by (cases c) (simp_all add: managed_receive_credit)
qed (rule steady_credit[OF quiet_call_steady assms(2)])

section \<open>The properties\<close>

text \<open>C5. An address authority never leases an address twice. From the moment it is enabled, after any sequence of calls
  of the application, the clock and the link, with any packets received and any of them failing, the addresses on offer are
  pairwise different and none of them is leased (\<open>authority_inv\<close>); and whatever calls follow, every address leased by then
  stays leased to the same client.\<close>

theorem address_leases_unique:
  "\<exists>a a'. en_authority (endpoint_run (enable_address_authority e c) calls) = Some a \<and>
    en_authority (endpoint_run (enable_address_authority e c) (calls @ later)) = Some a' \<and>
    authority_inv a \<and> authority_inv a' \<and> leases a \<subseteq>\<^sub>m leases a'"
proof -
  have "authority_inv (authority_new c)" by (simp add: authority_inv_def authority_new_def bt_get_def)
  then obtain a where a: "en_authority (endpoint_run (enable_address_authority e c) calls) = Some a" "authority_inv a"
    using run_kept[of "enable_address_authority e c" calls] by (auto simp: leases_kept_def enable_address_authority_def)
  have "endpoint_run (enable_address_authority e c) (calls @ later) = endpoint_run (endpoint_run (enable_address_authority e c) calls) later"
    by (simp add: endpoint_run_def)
  then show ?thesis using run_kept[of "endpoint_run (enable_address_authority e c) calls" later] a by (auto simp: leases_kept_def)
qed

text \<open>On a managed link a peer cannot raise the credit past the negotiated limit: as long as packets arrive by the
  managed receive path with limits of at most \<open>l\<close>, every sequence of calls leaves the data credit at most \<open>l\<close>, or
  what it was at the start if that was more.\<close>

theorem managed_credit_bounded:
  assumes "list_all (managed_call l) calls"
  shows "ep_data_tx_credit (en_dlp (endpoint_run e calls)) \<le> max l (ep_data_tx_credit (en_dlp e))"
proof -
  have "ep_data_tx_credit (en_dlp (foldl endpoint_do s calls)) \<le> m"
    if "ep_data_tx_credit (en_dlp s) \<le> m" "list_all (managed_call m) calls" for s m
    using that by (induction calls arbitrary: s) (auto simp: managed_call_credit)
  moreover have "managed_call l c \<Longrightarrow> l \<le> m \<Longrightarrow> managed_call m c" for m c by (cases c) auto
  then have "list_all (managed_call (max l (ep_data_tx_credit (en_dlp e)))) calls"
    using assms by (auto simp: list_all_iff)
  ultimately show ?thesis by (simp add: endpoint_run_def)
qed

theorem managed_credit_bounded_witness:
  "list_all (managed_call 40) [CSolicit 7, CManagedFlit \<lparr>flit_vcid = 0, flit_data = 9\<rparr> 40, CPollFrame] \<and>
   (case endpoint_new 0x10 (endpoint_config_new 64) of
      Ok e \<Rightarrow> ep_data_tx_credit (en_dlp (endpoint_run e [CSolicit 7, CManagedFlit \<lparr>flit_vcid = 0, flit_data = 9\<rparr> 40, CPollFrame])) \<le> 40
    | _ \<Rightarrow> False)"
proof -
  let ?calls = "[CSolicit 7, CManagedFlit \<lparr>flit_vcid = 0, flit_data = 9\<rparr> 40, CPollFrame]"
  have m: "list_all (managed_call 40) ?calls" by simp
  obtain e where e: "endpoint_new 0x10 (endpoint_config_new 64) = Ok e" "ep_data_tx_credit (en_dlp e) = 0"
    by (simp add: endpoint_new_def endpoint_config_validate_def endpoint_config_new_def make_link_local_def link_local_suffix_mask_def
        endpoint_build_def endpoint_dlp_config_def dlp_config_new_def dlp_new_def)
  show ?thesis using managed_credit_bounded[OF m, of e] m e by simp
qed

end
