(* ===== verification/Dlp_Control.thy ===== *)
theory Dlp_Control
  imports Endpoint_Safety
begin

text \<open>
  Link control, src/src/dlp_control.rs: the one-word control frames, the endpoint that negotiates virtual channel mode,
  rate, receive window and burst with its peer before the data path opens, and the cable that carries control frames and
  flits between two such endpoints. A frame that the code pushes to \<open>control_tx\<close> is appended to \<open>me_control_tx\<close>;
  \<open>Endpoint\<close> in that file is the endpoint with a routing table, so the operations of the inner endpoint are reached through
  \<open>on_core\<close>.
\<close>

section \<open>Control frames\<close>

definition dlp_control_version :: u8 where
  "dlp_control_version = 1"

definition dlp_control_parameter_unit_flits :: u32 where
  "dlp_control_parameter_unit_flits = 4"

definition dlp_reserved_control_window_flits :: u32 where
  "dlp_reserved_control_window_flits = 32"

definition flag_vc2 :: u8 where
  "flag_vc2 = 1"

definition flag_vc4 :: u8 where
  "flag_vc4 = 2"

definition rate_all :: u8 where
  "rate_all = 7"

definition credit_request_retry_polls :: u8 where
  "credit_request_retry_polls = 8"

datatype DlpControlOpcode = OpHello | OpCapabilities | OpReset | OpLinkParameters

primrec opcode_wire :: "DlpControlOpcode \<Rightarrow> u8" where
  "opcode_wire OpHello = 1"
| "opcode_wire OpCapabilities = 2"
| "opcode_wire OpReset = 3"
| "opcode_wire OpLinkParameters = 8"

definition opcode_from_wire :: "u8 \<Rightarrow> DlpControlOpcode result" where
  "opcode_from_wire v =
    (if v = 1 then Ok OpHello else if v = 2 then Ok OpCapabilities else if v = 3 then Ok OpReset
     else if v = 8 then Ok OpLinkParameters else Err Unsupported)"

datatype DlpHelloKind = HelloInitial | HelloAck

primrec hello_kind_wire :: "DlpHelloKind \<Rightarrow> u8" where
  "hello_kind_wire HelloInitial = 0"
| "hello_kind_wire HelloAck = 1"

definition hello_kind_from_wire :: "u8 \<Rightarrow> DlpHelloKind result" where
  "hello_kind_from_wire v = (if v = 0 then Ok HelloInitial else if v = 1 then Ok HelloAck else Err InvalidField)"

datatype DlpCapabilityKind = CapOffer | CapSelection | CapConfirmation

primrec cap_kind_wire :: "DlpCapabilityKind \<Rightarrow> u8" where
  "cap_kind_wire CapOffer = 0"
| "cap_kind_wire CapSelection = 1"
| "cap_kind_wire CapConfirmation = 2"

definition cap_kind_from_wire :: "u8 \<Rightarrow> DlpCapabilityKind result" where
  "cap_kind_from_wire v =
    (if v = 0 then Ok CapOffer else if v = 1 then Ok CapSelection else if v = 2 then Ok CapConfirmation else Err InvalidField)"

datatype DlpControlState = CsDown | CsHello | CsNegotiate | CsCreditSync | CsUp | CsResetting

record DlpNegotiatedProfile =
  np_vc_mode :: VcMode
  np_burst_flits :: u32
  np_peer_rx_buffer_flits :: u32
  np_peer_control_window_flits :: u32

text \<open>The fields in the order of the source: kind, sender generation, then the two values of the frame.\<close>

datatype DlpControlFrame =
    CfHello DlpHelloKind u8 u8
  | CfCapabilities DlpCapabilityKind u8 u8 u8
  | CfReset u8 u8
  | CfLinkParameters DlpCapabilityKind u8 u8 u8

primrec frame_opcode :: "DlpControlFrame \<Rightarrow> DlpControlOpcode" where
  "frame_opcode (CfHello k s p) = OpHello"
| "frame_opcode (CfCapabilities k s p r) = OpCapabilities"
| "frame_opcode (CfReset s r) = OpReset"
| "frame_opcode (CfLinkParameters k s w b) = OpLinkParameters"

primrec frame_sender_generation :: "DlpControlFrame \<Rightarrow> u8" where
  "frame_sender_generation (CfHello k s p) = s"
| "frame_sender_generation (CfCapabilities k s p r) = s"
| "frame_sender_generation (CfReset s r) = s"
| "frame_sender_generation (CfLinkParameters k s w b) = s"

definition control_prefix :: "DlpControlOpcode \<Rightarrow> u32" where
  "control_prefix op = push_bit 28 (ucast (opcode_wire op)) OR push_bit 24 (ucast dlp_control_version)"

primrec control_word :: "DlpControlFrame \<Rightarrow> u32" where
  "control_word (CfHello k s p) = control_prefix OpHello OR push_bit 22 (ucast (hello_kind_wire k))
     OR push_bit 16 (ucast (s AND 0x3f)) OR push_bit 10 (ucast (p AND 0x3f))"
| "control_word (CfCapabilities k s p r) = control_prefix OpCapabilities OR push_bit 18 (ucast (s AND 0x3f))
     OR push_bit 16 (ucast (cap_kind_wire k)) OR push_bit 12 (ucast (p AND 0xf)) OR push_bit 9 (ucast (r AND 7))"
| "control_word (CfReset s r) = control_prefix OpReset OR push_bit 18 (ucast (s AND 0x3f)) OR push_bit 14 (ucast (r AND 0xf))"
| "control_word (CfLinkParameters k s w b) = control_prefix OpLinkParameters OR push_bit 18 (ucast (s AND 0x3f))
     OR push_bit 16 (ucast (cap_kind_wire k)) OR push_bit 8 (ucast w) OR ucast b"

definition control_encode :: "DlpControlFrame \<Rightarrow> bytes" where
  "control_encode f = to_be 4 (control_word f)"

definition field :: "u32 \<Rightarrow> nat \<Rightarrow> u32 \<Rightarrow> u8" where
  "field word n m = ucast (drop_bit n word AND m)"

definition decode_hello :: "u32 \<Rightarrow> DlpControlFrame result" where
  "decode_hello word =
    (if word AND 0x3ff \<noteq> 0 then Err NonCanonical
     else rbind (hello_kind_from_wire (field word 22 3)) (\<lambda>kind.
       let sender = field word 16 0x3f; peer = field word 10 0x3f in
       if sender = 0 then Err InvalidField
       else if kind = HelloInitial \<and> peer \<noteq> 0 then Err InvalidField
       else if kind = HelloAck \<and> peer = 0 then Err InvalidField
       else Ok (CfHello kind sender peer)))"

text \<open>\<open>u8::is_power_of_two\<close>.\<close>

definition is_power_of_two :: "u8 \<Rightarrow> bool" where
  "is_power_of_two v \<longleftrightarrow> v \<in> {1, 2, 4, 8, 16, 32, 64, 128}"

definition decode_capabilities :: "u32 \<Rightarrow> DlpControlFrame result" where
  "decode_capabilities word =
    (if word AND 0x1ff \<noteq> 0 then Err NonCanonical
     else let sender = field word 18 0x3f in
       rbind (cap_kind_from_wire (field word 16 3)) (\<lambda>kind.
       let profiles = field word 12 0xf; rates = field word 9 7 in
       if sender = 0 \<or> profiles = 0 \<or> rates = 0 then Err InvalidField
       else if kind \<noteq> CapOffer \<and> (\<not> is_power_of_two profiles \<or> \<not> is_power_of_two rates) then Err InvalidField
       else Ok (CfCapabilities kind sender profiles rates)))"

definition decode_reset :: "u32 \<Rightarrow> DlpControlFrame result" where
  "decode_reset word =
    (if word AND 0x3fff \<noteq> 0 then Err NonCanonical
     else let sender = field word 18 0x3f; reason = field word 14 0xf in
       if sender = 0 then Err InvalidField else Ok (CfReset sender reason))"

definition decode_link_parameters :: "u32 \<Rightarrow> DlpControlFrame result" where
  "decode_link_parameters word =
    (let sender = field word 18 0x3f in
     rbind (cap_kind_from_wire (field word 16 3)) (\<lambda>kind.
       let window = field word 8 0xff; burst = field word 0 0xff in
       if sender = 0 \<or> window = 0 \<or> burst = 0 then Err InvalidField else Ok (CfLinkParameters kind sender window burst)))"

definition control_decode :: "bytes \<Rightarrow> DlpControlFrame result" where
  "control_decode bs =
    (if length bs \<noteq> 4 then Err InvalidLength
     else let word = from_be bs :: u32 in
       rbind (opcode_from_wire (field word 28 0xf)) (\<lambda>opcode.
       if field word 24 0xf \<noteq> dlp_control_version then Err Unsupported
       else case opcode of
           OpHello \<Rightarrow> decode_hello word
         | OpCapabilities \<Rightarrow> decode_capabilities word
         | OpReset \<Rightarrow> decode_reset word
         | OpLinkParameters \<Rightarrow> decode_link_parameters word))"

section \<open>Parameters, modes and rates\<close>

definition encode_parameter_units :: "u32 \<Rightarrow> u8 result" where
  "encode_parameter_units v =
    (if v = 0 \<or> v mod dlp_control_parameter_unit_flits \<noteq> 0 then Err InvalidField
     else let units = v div dlp_control_parameter_unit_flits in
       if units = 0 \<or> 255 < units then Err InvalidField else Ok (ucast units))"

definition validate_parameter_value :: "u32 \<Rightarrow> unit result" where
  "validate_parameter_value v = rbind (encode_parameter_units v) (\<lambda>_. Ok ())"

definition decode_parameter_units :: "u8 \<Rightarrow> u32 result" where
  "decode_parameter_units units =
    (if units = 0 then Err InvalidField else Ok (ucast units * dlp_control_parameter_unit_flits))"

definition control_next_generation :: "u8 \<Rightarrow> u8" where
  "control_next_generation g = (if 63 \<le> g then 1 else g + 1)"

primrec supported_mode_flags :: "VcMode \<Rightarrow> u8" where
  "supported_mode_flags VcTwo = flag_vc2"
| "supported_mode_flags VcFour = flag_vc2 OR flag_vc4"

primrec selected_mode_flag :: "VcMode \<Rightarrow> u8" where
  "selected_mode_flag VcTwo = flag_vc2"
| "selected_mode_flag VcFour = flag_vc4"

definition choose_vc_mode :: "VcMode \<Rightarrow> u8 \<Rightarrow> VcMode result" where
  "choose_vc_mode local_max peer_flags =
    (let common = supported_mode_flags local_max AND peer_flags in
     if common AND flag_vc4 \<noteq> 0 then Ok VcFour else if common AND flag_vc2 \<noteq> 0 then Ok VcTwo else Err Unsupported)"

definition choose_rate :: "u8 \<Rightarrow> u8 \<Rightarrow> u8 result" where
  "choose_rate local_rates peer_rates =
    (let common = (local_rates AND peer_rates) AND 7 in
     if common AND 4 \<noteq> 0 then Ok 4 else if common AND 2 \<noteq> 0 then Ok 2 else if common AND 1 \<noteq> 0 then Ok 1 else Err Unsupported)"

section \<open>The managed endpoint\<close>

record PeerCapabilityOffer =
  pc_profiles :: u8
  pc_rates :: u8

record PeerParameterOffer =
  pp_rx_buffer_flits :: u32
  pp_max_burst_flits :: u32

record DlpManagedEndpoint =
  me_endpoint :: RoutedEndpoint
  me_endpoint_config :: EndpointConfig
  me_max_burst_flits :: u32
  me_state :: DlpControlState
  me_negotiated :: "DlpNegotiatedProfile option"
  me_local_generation :: u8
  me_peer_generation :: "u8 option"
  me_control_tx :: "DlpControlFrame list"
  me_hello_ack_sent :: bool
  me_hello_ack_received :: bool
  me_cap_offer_sent :: bool
  me_peer_cap_offer :: "PeerCapabilityOffer option"
  me_selected_mode :: "VcMode option"
  me_selected_rate :: "u8 option"
  me_cap_selection_sent :: bool
  me_cap_confirmation_sent :: bool
  me_cap_confirmation_received :: bool
  me_params_offer_sent :: bool
  me_peer_params_offer :: "PeerParameterOffer option"
  me_selected_peer_rx :: "u32 option"
  me_selected_burst :: "u32 option"
  me_params_selection_sent :: bool
  me_params_confirmation_sent :: bool
  me_params_confirmation_received :: bool
  me_credit_stall_polls :: u8

definition managed_build :: "RoutedEndpoint \<Rightarrow> EndpointConfig \<Rightarrow> u32 \<Rightarrow> DlpManagedEndpoint" where
  "managed_build endpoint config burst = \<lparr>me_endpoint = endpoint, me_endpoint_config = config, me_max_burst_flits = burst,
     me_state = CsDown, me_negotiated = None, me_local_generation = 1, me_peer_generation = None, me_control_tx = [],
     me_hello_ack_sent = False, me_hello_ack_received = False, me_cap_offer_sent = False, me_peer_cap_offer = None,
     me_selected_mode = None, me_selected_rate = None, me_cap_selection_sent = False, me_cap_confirmation_sent = False,
     me_cap_confirmation_received = False, me_params_offer_sent = False, me_peer_params_offer = None,
     me_selected_peer_rx = None, me_selected_burst = None, me_params_selection_sent = False,
     me_params_confirmation_sent = False, me_params_confirmation_received = False, me_credit_stall_polls = 0\<rparr>"

abbreviation me_core :: "DlpManagedEndpoint \<Rightarrow> Endpoint" where
  "me_core m \<equiv> re_inner (me_endpoint m)"

definition set_core :: "DlpManagedEndpoint \<Rightarrow> Endpoint \<Rightarrow> DlpManagedEndpoint" where
  "set_core m e = m\<lparr>me_endpoint := (me_endpoint m)\<lparr>re_inner := e\<rparr>\<rparr>"

definition on_core :: "DlpManagedEndpoint \<Rightarrow> (Endpoint \<Rightarrow> (Endpoint, 'a) outcome) \<Rightarrow> (DlpManagedEndpoint, 'a) outcome" where
  "on_core m f = (case f (me_core m) of (res, e) \<Rightarrow> (res, set_core m e))"

definition with_link_down :: "RoutedEndpoint \<Rightarrow> RoutedEndpoint" where
  "with_link_down r = r\<lparr>re_inner := (re_inner r)\<lparr>en_dlp := set_link_up (en_dlp (re_inner r)) False\<rparr>\<rparr>"

definition managed_checks :: "EndpointConfig \<Rightarrow> u32 \<Rightarrow> unit result" where
  "managed_checks config burst =
    rbind (validate_parameter_value (ec_rx_buffer_flits config)) (\<lambda>_.
    rbind (validate_parameter_value burst) (\<lambda>_.
    if ec_control_window_flits config \<noteq> dlp_reserved_control_window_flits then Err InvalidField else Ok ()))"

definition managed_new :: "GdpAddress \<Rightarrow> EndpointConfig \<Rightarrow> u32 \<Rightarrow> DlpManagedEndpoint result" where
  "managed_new address config burst = rbind (managed_checks config burst) (\<lambda>_.
     rbind (routed_new address config) (\<lambda>r. Ok (managed_build (with_link_down r) config burst)))"

definition managed_unconfigured :: "u64 \<Rightarrow> EndpointConfig \<Rightarrow> u32 \<Rightarrow> DlpManagedEndpoint result" where
  "managed_unconfigured suffix config burst = rbind (managed_checks config burst) (\<lambda>_.
     rbind (routed_unconfigured suffix config) (\<lambda>r. Ok (managed_build (with_link_down r) config burst)))"

definition control_pending :: "DlpManagedEndpoint \<Rightarrow> bool" where
  "control_pending m \<longleftrightarrow> me_control_tx m \<noteq> []"

definition push_control :: "DlpManagedEndpoint \<Rightarrow> DlpControlFrame \<Rightarrow> DlpManagedEndpoint" where
  "push_control m f = m\<lparr>me_control_tx := me_control_tx m @ [f]\<rparr>"

definition clear_negotiation_state :: "DlpManagedEndpoint \<Rightarrow> DlpManagedEndpoint" where
  "clear_negotiation_state m = m\<lparr>me_negotiated := None, me_hello_ack_sent := False, me_hello_ack_received := False,
     me_cap_offer_sent := False, me_peer_cap_offer := None, me_selected_mode := None, me_selected_rate := None,
     me_cap_selection_sent := False, me_cap_confirmation_sent := False, me_cap_confirmation_received := False,
     me_params_offer_sent := False, me_peer_params_offer := None, me_selected_peer_rx := None, me_selected_burst := None,
     me_params_selection_sent := False, me_params_confirmation_sent := False, me_params_confirmation_received := False,
     me_credit_stall_polls := 0\<rparr>"

definition queue_hello_initial :: "DlpManagedEndpoint \<Rightarrow> DlpManagedEndpoint" where
  "queue_hello_initial m = push_control m (CfHello HelloInitial (me_local_generation m) 0)"

definition queue_hello_ack :: "DlpManagedEndpoint \<Rightarrow> u8 \<Rightarrow> DlpManagedEndpoint" where
  "queue_hello_ack m peer = (push_control m (CfHello HelloAck (me_local_generation m) peer))\<lparr>me_hello_ack_sent := True\<rparr>"

definition detach_core :: "DlpManagedEndpoint \<Rightarrow> DlpManagedEndpoint" where
  "detach_core m = set_core m (link_detached (me_core m))"

definition restart_negotiation :: "DlpManagedEndpoint \<Rightarrow> bool \<Rightarrow> bool \<Rightarrow> DlpManagedEndpoint" where
  "restart_negotiation m increment preserve =
    (let m = detach_core m;
         m = (if increment then m\<lparr>me_local_generation := control_next_generation (me_local_generation m)\<rparr> else m);
         m = (if preserve then m else m\<lparr>me_control_tx := []\<rparr>);
         m = clear_negotiation_state m
     in queue_hello_initial (m\<lparr>me_state := CsHello\<rparr>))"

definition carrier_up :: "DlpManagedEndpoint \<Rightarrow> (DlpManagedEndpoint, unit) outcome" where
  "carrier_up m = (if me_state m \<noteq> CsDown then (Err InvalidState, m) else (Ok (), restart_negotiation m False False))"

definition carrier_down :: "DlpManagedEndpoint \<Rightarrow> DlpManagedEndpoint" where
  "carrier_down m = (clear_negotiation_state ((detach_core m)\<lparr>me_control_tx := [], me_peer_generation := None\<rparr>))\<lparr>me_state := CsDown\<rparr>"

definition request_reset :: "DlpManagedEndpoint \<Rightarrow> u32 \<Rightarrow> (DlpManagedEndpoint, unit) outcome" where
  "request_reset m reason =
    (if me_state m = CsDown then (Err LinkDown, m)
     else if 0xf < reason then (Err InvalidField, m)
     else let old = me_local_generation m;
              m = push_control ((detach_core m)\<lparr>me_control_tx := []\<rparr>) (CfReset old (ucast reason));
              m = m\<lparr>me_local_generation := control_next_generation (me_local_generation m), me_peer_generation := None\<rparr>;
              m = (clear_negotiation_state m)\<lparr>me_state := CsHello\<rparr>
          in (Ok (), queue_hello_initial m))"

definition poll_control :: "DlpManagedEndpoint \<Rightarrow> bytes option \<times> DlpManagedEndpoint" where
  "poll_control m = (case me_control_tx m of
      [] \<Rightarrow> (None, m)
    | f # fs \<Rightarrow> (Some (control_encode f), m\<lparr>me_control_tx := fs\<rparr>))"

definition maybe_start_capability_exchange :: "DlpManagedEndpoint \<Rightarrow> (DlpManagedEndpoint, unit) outcome" where
  "maybe_start_capability_exchange m =
    (if \<not> me_hello_ack_sent m \<or> \<not> me_hello_ack_received m \<or> me_peer_generation m = None then (Ok (), m)
     else
       let m = m\<lparr>me_state := CsNegotiate\<rparr>;
           m = (if \<not> me_cap_offer_sent m then
                  (push_control m (CfCapabilities CapOffer (me_local_generation m)
                     (supported_mode_flags (ec_vc_mode (me_endpoint_config m))) rate_all))\<lparr>me_cap_offer_sent := True\<rparr>
                else m) in
       if \<not> me_params_offer_sent m then
         sbind (lift_r (encode_parameter_units (ec_rx_buffer_flits (me_endpoint_config m))) m) (\<lambda>window m.
         sbind (lift_r (encode_parameter_units (me_max_burst_flits m)) m) (\<lambda>burst m.
         (Ok (), (push_control m (CfLinkParameters CapOffer (me_local_generation m) window burst))\<lparr>me_params_offer_sent := True\<rparr>)))
       else (Ok (), m))"

definition on_hello_initial :: "DlpManagedEndpoint \<Rightarrow> u8 \<Rightarrow> (DlpManagedEndpoint, unit) outcome" where
  "on_hello_initial m sender =
    (let accept = (\<lambda>m. maybe_start_capability_exchange (queue_hello_ack (m\<lparr>me_peer_generation := Some sender\<rparr>) sender)) in
     case me_peer_generation m of
        Some current \<Rightarrow>
          if sender \<noteq> current then
            if sender \<noteq> control_next_generation current then (Ok (), m)
            else accept (restart_negotiation m (me_state m \<in> {CsNegotiate, CsCreditSync, CsUp}) False)
          else accept m
      | None \<Rightarrow> if me_state m = CsDown then (Err InvalidState, m) else accept m)"

definition on_hello_ack :: "DlpManagedEndpoint \<Rightarrow> u8 \<Rightarrow> u8 \<Rightarrow> (DlpManagedEndpoint, unit) outcome" where
  "on_hello_ack m sender peer =
    (if peer \<noteq> me_local_generation m then (Ok (), m)
     else
       let adopt = (\<lambda>m. queue_hello_ack (m\<lparr>me_peer_generation := Some sender\<rparr>) sender);
           proceed = (\<lambda>m. maybe_start_capability_exchange (m\<lparr>me_hello_ack_received := True\<rparr>)) in
       case me_peer_generation m of
           Some g \<Rightarrow>
             if g \<noteq> sender then
               if sender \<noteq> control_next_generation g then (Ok (), m)
               else proceed (adopt (restart_negotiation m True False))
             else proceed m
         | None \<Rightarrow> proceed (adopt m))"

definition on_hello :: "DlpManagedEndpoint \<Rightarrow> DlpHelloKind \<Rightarrow> u8 \<Rightarrow> u8 \<Rightarrow> (DlpManagedEndpoint, unit) outcome" where
  "on_hello m kind sender peer = (case kind of
      HelloInitial \<Rightarrow> on_hello_initial m sender
    | HelloAck \<Rightarrow> on_hello_ack m sender peer)"

definition managed_dlp_config :: "DlpManagedEndpoint \<Rightarrow> VcMode \<Rightarrow> DlpConfig result" where
  "managed_dlp_config m mode = rbind (dlp_config_new (ec_rx_buffer_flits (me_endpoint_config m)) mode) (\<lambda>d.
     Ok (d\<lparr>dc_gdp := ec_gdp_wire (me_endpoint_config m),
           dc_local_prefix := (case ec_local_context_prefix (me_endpoint_config m) of Some p \<Rightarrow> p | None \<Rightarrow> 0) AND NOT 0xffff,
           dc_control_window_flits := dlp_reserved_control_window_flits\<rparr>))"

definition maybe_install_profile :: "DlpManagedEndpoint \<Rightarrow> (DlpManagedEndpoint, unit) outcome" where
  "maybe_install_profile m =
    (if me_state m \<noteq> CsNegotiate \<or> \<not> me_cap_confirmation_sent m \<or> \<not> me_cap_confirmation_received m \<or>
        \<not> me_params_confirmation_sent m \<or> \<not> me_params_confirmation_received m
     then (Ok (), m)
     else
       sbind (lift_r (ok_or (me_selected_mode m) InvalidState) m) (\<lambda>mode m.
       sbind (lift_r (ok_or (me_selected_burst m) InvalidState) m) (\<lambda>burst m.
       sbind (lift_r (ok_or (me_selected_peer_rx m) InvalidState) m) (\<lambda>peer_rx m.
       sbind (lift_r (rbind (managed_dlp_config m mode) dlp_new) m) (\<lambda>dlp m.
       (Ok (), (set_core m ((me_core m)\<lparr>en_dlp := dlp\<rparr>))\<lparr>
          me_negotiated := Some \<lparr>np_vc_mode = mode, np_burst_flits = burst, np_peer_rx_buffer_flits = peer_rx,
            np_peer_control_window_flits = dlp_reserved_control_window_flits\<rparr>,
          me_state := CsCreditSync\<rparr>))))))"

definition cap_offer :: "DlpManagedEndpoint \<Rightarrow> u8 \<Rightarrow> u8 \<Rightarrow> (DlpManagedEndpoint, unit) outcome" where
  "cap_offer m profiles rates =
    (let fresh = \<lparr>pc_profiles = profiles, pc_rates = rates\<rparr> in
     if (case me_peer_cap_offer m of Some old \<Rightarrow> pc_profiles old \<noteq> profiles \<or> pc_rates old \<noteq> rates | None \<Rightarrow> False)
     then (Err InvalidField, m)
     else
       let m = (if me_peer_cap_offer m = None then m\<lparr>me_peer_cap_offer := Some fresh\<rparr> else m) in
       sbind (lift_r (choose_vc_mode (ec_vc_mode (me_endpoint_config m)) profiles) m) (\<lambda>mode m.
       sbind (lift_r (choose_rate rate_all rates) m) (\<lambda>rate m.
       let m = m\<lparr>me_selected_mode := Some mode, me_selected_rate := Some rate\<rparr> in
       (Ok (), if \<not> me_cap_selection_sent m
         then (push_control m (CfCapabilities CapSelection (me_local_generation m) (selected_mode_flag mode) rate))
                \<lparr>me_cap_selection_sent := True\<rparr>
         else m))))"

definition cap_selection :: "DlpManagedEndpoint \<Rightarrow> u8 \<Rightarrow> u8 \<Rightarrow> (DlpManagedEndpoint, unit) outcome" where
  "cap_selection m profiles rates =
    sbind (lift_r (ok_or (me_peer_cap_offer m) InvalidState) m) (\<lambda>offer m.
    sbind (lift_r (choose_vc_mode (ec_vc_mode (me_endpoint_config m)) (pc_profiles offer)) m) (\<lambda>mode m.
    sbind (lift_r (choose_rate rate_all (pc_rates offer)) m) (\<lambda>rate m.
    if profiles \<noteq> selected_mode_flag mode \<or> rates \<noteq> rate then (Err InvalidField, m)
    else (Ok (), if \<not> me_cap_confirmation_sent m
      then (push_control m (CfCapabilities CapConfirmation (me_local_generation m) profiles rates))\<lparr>me_cap_confirmation_sent := True\<rparr>
      else m))))"

definition cap_confirmation :: "DlpManagedEndpoint \<Rightarrow> u8 \<Rightarrow> u8 \<Rightarrow> (DlpManagedEndpoint, unit) outcome" where
  "cap_confirmation m profiles rates =
    sbind (lift_r (ok_or (me_selected_mode m) InvalidState) m) (\<lambda>mode m.
    sbind (lift_r (ok_or (me_selected_rate m) InvalidState) m) (\<lambda>rate m.
    if profiles \<noteq> selected_mode_flag mode \<or> rates \<noteq> rate then (Err InvalidField, m)
    else (Ok (), m\<lparr>me_cap_confirmation_received := True\<rparr>)))"

definition on_capabilities ::
    "DlpManagedEndpoint \<Rightarrow> DlpCapabilityKind \<Rightarrow> u8 \<Rightarrow> u8 \<Rightarrow> (DlpManagedEndpoint, unit) outcome" where
  "on_capabilities m kind profiles rates =
    (if me_state m \<noteq> CsNegotiate then (Err InvalidState, m)
     else sbind (case kind of
         CapOffer \<Rightarrow> cap_offer m profiles rates
       | CapSelection \<Rightarrow> cap_selection m profiles rates
       | CapConfirmation \<Rightarrow> cap_confirmation m profiles rates) (\<lambda>_ m. maybe_install_profile m))"

definition params_offer :: "DlpManagedEndpoint \<Rightarrow> u32 \<Rightarrow> u32 \<Rightarrow> (DlpManagedEndpoint, unit) outcome" where
  "params_offer m rx burst =
    (let fresh = \<lparr>pp_rx_buffer_flits = rx, pp_max_burst_flits = burst\<rparr> in
     if (case me_peer_params_offer m of Some old \<Rightarrow> pp_rx_buffer_flits old \<noteq> rx \<or> pp_max_burst_flits old \<noteq> burst | None \<Rightarrow> False)
     then (Err InvalidField, m)
     else
       let m = (if me_peer_params_offer m = None then m\<lparr>me_peer_params_offer := Some fresh\<rparr> else m);
           selected = min (me_max_burst_flits m) burst;
           m = m\<lparr>me_selected_peer_rx := Some rx, me_selected_burst := Some selected\<rparr> in
       if \<not> me_params_selection_sent m then
         sbind (lift_r (encode_parameter_units rx) m) (\<lambda>w m.
         sbind (lift_r (encode_parameter_units selected) m) (\<lambda>b m.
         (Ok (), (push_control m (CfLinkParameters CapSelection (me_local_generation m) w b))\<lparr>me_params_selection_sent := True\<rparr>)))
       else (Ok (), m))"

definition params_selection ::
    "DlpManagedEndpoint \<Rightarrow> u8 \<Rightarrow> u8 \<Rightarrow> u32 \<Rightarrow> u32 \<Rightarrow> (DlpManagedEndpoint, unit) outcome" where
  "params_selection m window_units burst_units rx burst =
    sbind (lift_r (ok_or (me_peer_params_offer m) InvalidState) m) (\<lambda>offer m.
    if rx \<noteq> ec_rx_buffer_flits (me_endpoint_config m) \<or> burst \<noteq> min (me_max_burst_flits m) (pp_max_burst_flits offer)
    then (Err InvalidField, m)
    else (Ok (), if \<not> me_params_confirmation_sent m
      then (push_control m (CfLinkParameters CapConfirmation (me_local_generation m) window_units burst_units))
             \<lparr>me_params_confirmation_sent := True\<rparr>
      else m))"

definition params_confirmation :: "DlpManagedEndpoint \<Rightarrow> u32 \<Rightarrow> u32 \<Rightarrow> (DlpManagedEndpoint, unit) outcome" where
  "params_confirmation m rx burst =
    sbind (lift_r (ok_or (me_selected_peer_rx m) InvalidState) m) (\<lambda>peer_rx m.
    sbind (lift_r (ok_or (me_selected_burst m) InvalidState) m) (\<lambda>selected m.
    if rx \<noteq> peer_rx \<or> burst \<noteq> selected then (Err InvalidField, m)
    else (Ok (), m\<lparr>me_params_confirmation_received := True\<rparr>)))"

definition on_link_parameters ::
    "DlpManagedEndpoint \<Rightarrow> DlpCapabilityKind \<Rightarrow> u8 \<Rightarrow> u8 \<Rightarrow> (DlpManagedEndpoint, unit) outcome" where
  "on_link_parameters m kind window_units burst_units =
    (if me_state m \<noteq> CsNegotiate then (Err InvalidState, m)
     else sbind (lift_r (decode_parameter_units window_units) m) (\<lambda>rx m.
       sbind (lift_r (decode_parameter_units burst_units) m) (\<lambda>burst m.
       sbind (case kind of
           CapOffer \<Rightarrow> params_offer m rx burst
         | CapSelection \<Rightarrow> params_selection m window_units burst_units rx burst
         | CapConfirmation \<Rightarrow> params_confirmation m rx burst) (\<lambda>_ m. maybe_install_profile m))))"

definition on_link_reset :: "DlpManagedEndpoint \<Rightarrow> u8 \<Rightarrow> (DlpManagedEndpoint, unit) outcome" where
  "on_link_reset m sender =
    (if me_peer_generation m \<noteq> Some sender then (Ok (), m)
     else let m = (detach_core m)\<lparr>me_control_tx := [], me_peer_generation := None\<rparr>;
              m = m\<lparr>me_local_generation := control_next_generation (me_local_generation m)\<rparr>;
              m = (clear_negotiation_state m)\<lparr>me_state := CsHello\<rparr>
          in (Ok (), queue_hello_initial m))"

definition frame_is_current :: "DlpManagedEndpoint \<Rightarrow> DlpControlFrame \<Rightarrow> bool" where
  "frame_is_current m f \<longleftrightarrow> me_peer_generation m = Some (frame_sender_generation f)"

definition dispatch_control :: "DlpManagedEndpoint \<Rightarrow> DlpControlFrame \<Rightarrow> (DlpManagedEndpoint, unit) outcome" where
  "dispatch_control m f = (case f of
      CfHello kind sender peer \<Rightarrow> on_hello m kind sender peer
    | CfReset sender reason \<Rightarrow> on_link_reset m sender
    | CfCapabilities kind sender profiles rates \<Rightarrow>
        if \<not> frame_is_current m f then (Ok (), m) else on_capabilities m kind profiles rates
    | CfLinkParameters kind sender window burst \<Rightarrow>
        if \<not> frame_is_current m f then (Ok (), m) else on_link_parameters m kind window burst)"

definition receive_control :: "DlpManagedEndpoint \<Rightarrow> bytes \<Rightarrow> (DlpManagedEndpoint, unit) outcome" where
  "receive_control m bs = sbind (lift_r (control_decode bs) m) (\<lambda>f m. dispatch_control m f)"

section \<open>The data path\<close>

definition data_path_active :: "DlpManagedEndpoint \<Rightarrow> bool" where
  "data_path_active m \<longleftrightarrow> me_state m \<in> {CsCreditSync, CsUp}"

definition maybe_retry_data_credit_request :: "DlpManagedEndpoint \<Rightarrow> (DlpManagedEndpoint, unit) outcome" where
  "maybe_retry_data_credit_request m =
    (if me_state m \<noteq> CsUp then (Ok (), m\<lparr>me_credit_stall_polls := 0\<rparr>)
     else
       let queued = queued_data_flits (en_dlp (me_core m)); credit = unat (ep_data_tx_credit (en_dlp (me_core m))) in
       if queued = 0 \<or> queued \<le> credit then (Ok (), m\<lparr>me_credit_stall_polls := 0\<rparr>)
       else
         let m = m\<lparr>me_credit_stall_polls := saturating_add (me_credit_stall_polls m) 1\<rparr> in
         if credit_request_retry_polls \<le> me_credit_stall_polls m
         then sbind (on_core m retry_managed_link_credit_request) (\<lambda>_ m. (Ok (), m\<lparr>me_credit_stall_polls := 0\<rparr>))
         else (Ok (), m))"

definition managed_poll_tx_flit :: "DlpManagedEndpoint \<Rightarrow> (DlpManagedEndpoint, Flit option) outcome" where
  "managed_poll_tx_flit m =
    (if \<not> data_path_active m then (Err LinkDown, m)
     else sbind (maybe_retry_data_credit_request m) (\<lambda>_ m. on_core m endpoint_poll_tx_flit))"

definition managed_poll_tx_frame :: "DlpManagedEndpoint \<Rightarrow> (DlpManagedEndpoint, GnetFrame option) outcome" where
  "managed_poll_tx_frame m =
    (if \<not> data_path_active m then (Err LinkDown, m)
     else sbind (maybe_retry_data_credit_request m) (\<lambda>_ m. on_core m endpoint_poll_tx_frame))"

definition managed_receive_flit :: "DlpManagedEndpoint \<Rightarrow> Flit \<Rightarrow> (DlpManagedEndpoint, bool) outcome" where
  "managed_receive_flit m flit =
    (if \<not> data_path_active m then (Err LinkDown, m)
     else sbind (lift_r (ok_or (me_negotiated m) InvalidState) m) (\<lambda>p m.
       on_core m (\<lambda>e. receive_managed_flit e flit (np_peer_rx_buffer_flits p))))"

definition managed_receive_frame :: "DlpManagedEndpoint \<Rightarrow> GnetFrame \<Rightarrow> (DlpManagedEndpoint, bool) outcome" where
  "managed_receive_frame m frame =
    (if \<not> data_path_active m then (Err LinkDown, m)
     else sbind (lift_r (ok_or (me_negotiated m) InvalidState) m) (\<lambda>p m.
       on_core m (\<lambda>e. receive_managed_frame e frame (np_peer_rx_buffer_flits p))))"

definition bind_credit_peer :: "DlpManagedEndpoint \<Rightarrow> GdpAddress \<Rightarrow> (DlpManagedEndpoint, unit) outcome" where
  "bind_credit_peer m peer =
    (if me_state m \<noteq> CsCreditSync then (Err InvalidState, m)
     else on_core m (\<lambda>e. bind_managed_link_peer e peer dlp_reserved_control_window_flits))"

definition finish_credit_sync :: "DlpManagedEndpoint \<Rightarrow> (DlpManagedEndpoint, unit) outcome" where
  "finish_credit_sync m =
    (if me_state m \<noteq> CsCreditSync then (Err InvalidState, m)
     else if ep_data_tx_credit (en_dlp (me_core m)) = 0 then (Err NoCredit, m)
     else (Ok (), m\<lparr>me_state := CsUp\<rparr>))"

section \<open>The cable\<close>

record DlpDirectCable =
  dcb_carrier :: bool
  dcb_credit_bound :: bool

definition cable_new :: DlpDirectCable where
  "cable_new = \<lparr>dcb_carrier = False, dcb_credit_bound = False\<rparr>"

type_synonym ends = "DlpManagedEndpoint \<times> DlpManagedEndpoint"

definition on_a :: "(DlpManagedEndpoint \<Rightarrow> (DlpManagedEndpoint, 'a) outcome) \<Rightarrow> ends \<Rightarrow> (ends, 'a) outcome" where
  "on_a f st = (case f (fst st) of (res, a) \<Rightarrow> (res, (a, snd st)))"

definition on_b :: "(DlpManagedEndpoint \<Rightarrow> (DlpManagedEndpoint, 'a) outcome) \<Rightarrow> ends \<Rightarrow> (ends, 'a) outcome" where
  "on_b f st = (case f (snd st) of (res, b) \<Rightarrow> (res, (fst st, b)))"

definition both_up :: "ends \<Rightarrow> bool" where
  "both_up st \<longleftrightarrow> me_state (fst st) = CsUp \<and> me_state (snd st) = CsUp"

definition both_ready_for_credit :: "ends \<Rightarrow> bool" where
  "both_ready_for_credit st \<longleftrightarrow> me_state (fst st) \<in> {CsCreditSync, CsUp} \<and> me_state (snd st) \<in> {CsCreditSync, CsUp}"

definition deliver_control :: "(DlpManagedEndpoint \<Rightarrow> bytes \<Rightarrow> (ends, unit) outcome) \<Rightarrow> bytes option \<times> DlpManagedEndpoint \<Rightarrow> ends \<Rightarrow> (ends, bool) outcome" where
  "deliver_control f polled st = (case polled of
      (Some bs, m) \<Rightarrow> sbind (f m bs) (\<lambda>_ st. (Ok True, st))
    | (None, m) \<Rightarrow> (Ok False, st))"

definition pump_control :: "ends \<Rightarrow> (ends, bool) outcome" where
  "pump_control st =
    sbind (deliver_control (\<lambda>a bs. on_b (\<lambda>b. receive_control b bs) (a, snd st)) (poll_control (fst st)) st) (\<lambda>p st.
    sbind (deliver_control (\<lambda>b bs. on_a (\<lambda>a. receive_control a bs) (fst st, b)) (poll_control (snd st)) st) (\<lambda>q st.
    (Ok (p \<or> q), st)))"

definition grant_control :: "Flit \<Rightarrow> DlpManagedEndpoint \<Rightarrow> DlpManagedEndpoint" where
  "grant_control f m = set_core m (return_control_credit f (me_core m))"

text \<open>One direction: the first of the pair sends.\<close>

definition pump_data_direction :: "ends \<Rightarrow> (ends, bool) outcome" where
  "pump_data_direction st =
    (if \<not> data_path_active (fst st) \<or> \<not> data_path_active (snd st) then (Ok False, st)
     else case on_a managed_poll_tx_flit st of
         (Ok (Some flit), st) \<Rightarrow> sbind (on_b (\<lambda>b. managed_receive_flit b flit) st) (\<lambda>_ st. (Ok True, (grant_control flit (fst st), snd st)))
       | (Ok None, st) \<Rightarrow> (Ok False, st)
       | (Err e, st) \<Rightarrow> (if e = NoCredit then Ok False else Err e, st)
       | (Panic, st) \<Rightarrow> (Panic, st))"

definition swap_ends :: "ends \<Rightarrow> ends" where
  "swap_ends st = (snd st, fst st)"

definition pump_data_once :: "ends \<Rightarrow> (ends, bool) outcome" where
  "pump_data_once st =
    sbind (pump_data_direction st) (\<lambda>p st.
    case pump_data_direction (swap_ends st) of (res, st) \<Rightarrow> sbind (res, swap_ends st) (\<lambda>q st. (Ok (p \<or> q), st)))"

fun attach_control :: "nat \<Rightarrow> ends \<Rightarrow> (ends, unit) outcome" where
  "attach_control 0 st = (Ok (), st)"
| "attach_control (Suc n) st = sbind (pump_control st) (\<lambda>progress st.
     if both_ready_for_credit st then (Ok (), st)
     else if \<not> progress then (Err InvalidState, st)
     else attach_control n st)"

definition credit_of :: "DlpManagedEndpoint \<Rightarrow> u32" where
  "credit_of m = ep_data_tx_credit (en_dlp (me_core m))"

fun attach_credit :: "nat \<Rightarrow> ends \<Rightarrow> (ends, unit) outcome" where
  "attach_credit 0 st = (Ok (), st)"
| "attach_credit (Suc n) st =
    (if credit_of (fst st) \<noteq> 0 \<and> credit_of (snd st) \<noteq> 0 then (Ok (), st)
     else sbind (pump_data_once st) (\<lambda>progress st. if \<not> progress then (Err InvalidState, st) else attach_credit n st))"

definition run_if :: "bool \<Rightarrow> ('s \<Rightarrow> ('s, unit) outcome) \<Rightarrow> 's \<Rightarrow> ('s, unit) outcome" where
  "run_if c f s = (if c then f s else (Ok (), s))"

definition attach_carrier :: "ends \<Rightarrow> (ends, unit) outcome" where
  "attach_carrier st =
    sbind (run_if (me_state (fst st) = CsDown) (on_a carrier_up) st) (\<lambda>_ st.
    run_if (me_state (snd st) = CsDown) (on_b carrier_up) st)"

definition attach_bind :: "ends \<Rightarrow> (ends, unit) outcome" where
  "attach_bind st =
    (let a_peer = en_link_local_address (me_core (snd st)); b_peer = en_link_local_address (me_core (fst st)) in
     sbind (run_if (me_state (fst st) = CsCreditSync) (on_a (\<lambda>a. bind_credit_peer a a_peer)) st) (\<lambda>_ st.
     run_if (me_state (snd st) = CsCreditSync) (on_b (\<lambda>b. bind_credit_peer b b_peer)) st))"

definition attach_finish :: "ends \<Rightarrow> (ends, unit) outcome" where
  "attach_finish st =
    (if credit_of (fst st) = 0 \<or> credit_of (snd st) = 0 then (Err NoCredit, st)
     else sbind (run_if (me_state (fst st) = CsCreditSync) (on_a finish_credit_sync) st) (\<lambda>_ st.
       run_if (me_state (snd st) = CsCreditSync) (on_b finish_credit_sync) st))"

definition in_cable :: "DlpDirectCable \<Rightarrow> (ends, 'a) outcome \<Rightarrow> (DlpDirectCable \<times> ends, 'a) outcome" where
  "in_cable c m = (case m of (res, st) \<Rightarrow> (res, (c, st)))"

definition cable_attach :: "DlpDirectCable \<times> ends \<Rightarrow> (DlpDirectCable \<times> ends, unit) outcome" where
  "cable_attach s =
    sbind (if dcb_carrier (fst s) then (Ok (), s)
           else sbind (in_cable (fst s) (attach_carrier (snd s))) (\<lambda>_ (c, st). (Ok (), (c\<lparr>dcb_carrier := True\<rparr>, st)))) (\<lambda>_ (c, st).
    sbind (if both_ready_for_credit st then (Ok (), (c, st))
           else in_cable (c\<lparr>dcb_credit_bound := False\<rparr>) (attach_control 512 st)) (\<lambda>_ (c, st).
    if \<not> both_ready_for_credit st then (Err InvalidState, (c, st))
    else
      sbind (if dcb_credit_bound c then (Ok (), (c, st))
             else sbind (in_cable c (attach_bind st)) (\<lambda>_ (c, st).
               in_cable (c\<lparr>dcb_credit_bound := True\<rparr>) (sbind (attach_credit 512 st) (\<lambda>_ st. attach_finish st)))) (\<lambda>_ (c, st).
      if \<not> both_up st then (Err InvalidState, (c, st)) else (Ok (), (c, st)))))"

definition unbind_unless_up :: "DlpDirectCable \<times> ends \<Rightarrow> DlpDirectCable \<times> ends" where
  "unbind_unless_up s = (if both_up (snd s) then s else ((fst s)\<lparr>dcb_credit_bound := False\<rparr>, snd s))"

definition pump_control_attached :: "DlpDirectCable \<times> ends \<Rightarrow> (DlpDirectCable \<times> ends, bool) outcome" where
  "pump_control_attached s =
    sbind (in_cable (fst s) (pump_control (snd s))) (\<lambda>progress s.
    if progress \<and> \<not> both_up (snd s) then sbind (cable_attach (unbind_unless_up s)) (\<lambda>_ s. (Ok True, s)) else (Ok progress, s))"

function cable_pump_loop :: "nat \<Rightarrow> nat \<Rightarrow> DlpDirectCable \<times> ends \<Rightarrow> (DlpDirectCable \<times> ends, nat) outcome" where
  "cable_pump_loop limit moved s =
    (if limit \<le> moved then (Err BufferFull, s)
     else sbind (pump_control_attached s) (\<lambda>c s. sbind (in_cable (fst s) (pump_data_once (snd s))) (\<lambda>d s.
       let moved' = moved + (if c then 1 else 0) + (if d then 1 else 0) in
       if \<not> c \<and> \<not> d then (Ok moved', s) else cable_pump_loop limit moved' s)))"
  by pat_completeness auto
termination
  by (relation "measure (\<lambda>(limit, moved, s). limit - moved)") auto

declare cable_pump_loop.simps [simp del]

definition cable_pump :: "DlpDirectCable \<times> ends \<Rightarrow> nat \<Rightarrow> (DlpDirectCable \<times> ends, nat) outcome" where
  "cable_pump s max_transfers = sbind (cable_attach (unbind_unless_up s)) (\<lambda>_ s. cable_pump_loop max_transfers 0 s)"

end
