(* ===== verification/Dlp_Negotiation.thy ===== *)
theory Dlp_Negotiation
  imports Dlp_Control
begin

text \<open>
  What link control guarantees: the control frames are in bijection with the words the decoder accepts; and whatever frames
  arrive, an endpoint with an open data path has negotiated a profile within its own capabilities, runs its data link in the
  negotiated mode and never holds more credit than the window negotiated.
\<close>

section \<open>Control frames\<close>

fun frame_ok :: "DlpControlFrame \<Rightarrow> bool" where
  "frame_ok (CfHello k s p) \<longleftrightarrow> 0 < s \<and> s < 64 \<and> p < 64 \<and> (k = HelloInitial \<longleftrightarrow> p = 0)"
| "frame_ok (CfCapabilities k s p r) \<longleftrightarrow> 0 < s \<and> s < 64 \<and> 0 < p \<and> p < 16 \<and> 0 < r \<and> r < 8 \<and>
    (k = CapOffer \<or> is_power_of_two p \<and> is_power_of_two r)"
| "frame_ok (CfReset s r) \<longleftrightarrow> 0 < s \<and> s < 64 \<and> r < 16"
| "frame_ok (CfLinkParameters k s w b) \<longleftrightarrow> 0 < s \<and> s < 64 \<and> 0 < w \<and> 0 < b"

text \<open>A field is a run of bits; a word is the disjunction of its fields, and each field of a disjunction is recovered.\<close>

definition fld :: "u32 \<Rightarrow> nat \<Rightarrow> nat \<Rightarrow> u8" where
  "fld w n k = ucast (take_bit k (drop_bit n w))"

lemma and_masks:
  fixes x :: "'a::len word"
  shows "x AND 0x3ff = take_bit 10 x" "x AND 0x1ff = take_bit 9 x" "x AND 0x3fff = take_bit 14 x"
  by (simp_all add: take_bit_eq_mask mask_eq_exp_minus_1)

lemma field_fld:
  "field w n 3 = fld w n 2" "field w n 7 = fld w n 3" "field w n 0xf = fld w n 4" "field w n 0x3f = fld w n 6" "field w n 0xff = fld w n 8"
  by (simp_all add: field_def fld_def wire_simps)

lemma bit_fld: "bit (fld w n k) i \<longleftrightarrow> i < 8 \<and> i < k \<and> bit w (n + i)"
  by (auto simp: fld_def bit_simps)

lemma push_fld: "k \<le> 8 \<Longrightarrow> push_bit n (ucast (fld w n k)) = push_bit n (take_bit k (drop_bit n w))" for w :: u32
  by (rule bit_word_eqI) (auto simp: bit_simps bit_fld)

lemma peel: "m = n + k \<Longrightarrow> take_bit m w = push_bit n (take_bit k (drop_bit n w)) OR take_bit n w" for w :: u32
  by (rule bit_word_eqI) (auto simp: bit_simps)

lemma word_top: "w = push_bit 28 (ucast (fld w 28 4)) OR push_bit 24 (ucast (fld w 24 4)) OR take_bit 24 w"
proof -
  have "w = take_bit 32 w" by (simp add: take_bit_word_eq_self)
  then show ?thesis by (simp add: push_fld peel[of 32 28 4] peel[of 28 24 4] or.assoc)
qed

lemma fld_or: "fld (a OR b) n k = fld a n k OR fld b n k"
  by (rule bit_word_eqI) (auto simp: bit_fld bit_or_iff)

text \<open>A byte fits \<open>k\<close> bits when truncation leaves it alone.\<close>

lemma fits_bit: "take_bit k x = x \<Longrightarrow> bit x i \<Longrightarrow> i < k" for x :: u8
  by (metis bit_take_bit_iff)

lemma fits_iff:
  "take_bit 2 x = x \<longleftrightarrow> x < 4" "take_bit 3 x = x \<longleftrightarrow> x < 8" "take_bit 4 x = x \<longleftrightarrow> x < 16" "take_bit 6 x = x \<longleftrightarrow> x < 64"
  "take_bit 8 x = x" for x :: u8
proof -
  have "take_bit k x = x \<longleftrightarrow> unat x < 2 ^ k" for k
    by (metis take_bit_nat_eq_self_iff unsigned_take_bit_eq unsigned_word_eqI)
  from this[of 2] this[of 3] this[of 4] this[of 6] this[of 8]
  show "take_bit 2 x = x \<longleftrightarrow> x < 4" "take_bit 3 x = x \<longleftrightarrow> x < 8" "take_bit 4 x = x \<longleftrightarrow> x < 16" "take_bit 6 x = x \<longleftrightarrow> x < 64"
    "take_bit 8 x = x" by (simp_all add: word_less_nat_alt)
qed

lemma fld_here: "take_bit k x = x \<Longrightarrow> n + k \<le> 32 \<Longrightarrow> fld (push_bit n (ucast x)) n k = x" for x :: u8
  by (rule bit_word_eqI) (auto simp: bit_fld bit_simps dest: fits_bit)

lemma fld_below: "j + k \<le> n \<Longrightarrow> take_bit k x = x \<Longrightarrow> fld (push_bit j (ucast x)) n l = 0" for x :: u8
  by (rule bit_word_eqI) (auto simp: bit_fld bit_simps dest: fits_bit)

lemma fld_above: "n + l \<le> j \<Longrightarrow> fld (push_bit j y) n l = 0"
  by (rule bit_word_eqI) (auto simp: bit_fld bit_simps)

lemma take_or: "n \<le> j \<Longrightarrow> take_bit n (push_bit j y) = 0" for y :: u32
  by (rule bit_word_eqI) (auto simp: bit_simps)

lemma kinds_fit [simp]:
  "take_bit 2 (hello_kind_wire k) = hello_kind_wire k" "take_bit 2 (cap_kind_wire c) = cap_kind_wire c"
  "take_bit 4 (opcode_wire p) = opcode_wire p" "take_bit 4 dlp_control_version = dlp_control_version"
  by (cases k; cases c; cases p; simp add: fits_iff dlp_control_version_def)+

lemmas word_fields = control_prefix_def wire_simps fld_or fld_above fld_here take_or
  fld_below[where k = 2] fld_below[where k = 3] fld_below[where k = 4] fld_below[where k = 6] fld_below[where k = 8]

text \<open>The word of each frame, field by field.\<close>

lemma hello_word:
  assumes "s < 64" "p < 64"
  shows "fld (control_word (CfHello k s p)) 28 4 = opcode_wire OpHello" "fld (control_word (CfHello k s p)) 24 4 = dlp_control_version"
    "fld (control_word (CfHello k s p)) 22 2 = hello_kind_wire k" "fld (control_word (CfHello k s p)) 16 6 = s"
    "fld (control_word (CfHello k s p)) 10 6 = p" "take_bit 10 (control_word (CfHello k s p)) = 0"
  using assms[folded fits_iff] by (simp_all add: word_fields del: opcode_wire.simps)

lemma capabilities_word:
  assumes "s < 64" "p < 16" "r < 8"
  shows "fld (control_word (CfCapabilities k s p r)) 28 4 = opcode_wire OpCapabilities"
    "fld (control_word (CfCapabilities k s p r)) 24 4 = dlp_control_version" "fld (control_word (CfCapabilities k s p r)) 18 6 = s"
    "fld (control_word (CfCapabilities k s p r)) 16 2 = cap_kind_wire k" "fld (control_word (CfCapabilities k s p r)) 12 4 = p"
    "fld (control_word (CfCapabilities k s p r)) 9 3 = r" "take_bit 9 (control_word (CfCapabilities k s p r)) = 0"
  using assms[folded fits_iff] by (simp_all add: word_fields del: opcode_wire.simps)

lemma reset_word:
  assumes "s < 64" "r < 16"
  shows "fld (control_word (CfReset s r)) 28 4 = opcode_wire OpReset" "fld (control_word (CfReset s r)) 24 4 = dlp_control_version"
    "fld (control_word (CfReset s r)) 18 6 = s" "fld (control_word (CfReset s r)) 14 4 = r" "take_bit 14 (control_word (CfReset s r)) = 0"
  using assms[folded fits_iff] by (simp_all add: word_fields del: opcode_wire.simps)

lemma parameters_word:
  assumes "s < 64"
  shows "fld (control_word (CfLinkParameters k s w b)) 28 4 = opcode_wire OpLinkParameters"
    "fld (control_word (CfLinkParameters k s w b)) 24 4 = dlp_control_version" "fld (control_word (CfLinkParameters k s w b)) 18 6 = s"
    "fld (control_word (CfLinkParameters k s w b)) 16 2 = cap_kind_wire k" "fld (control_word (CfLinkParameters k s w b)) 8 8 = w"
    "fld (control_word (CfLinkParameters k s w b)) 0 8 = b"
proof -
  have b: "fld (ucast b) 0 8 = b" "8 \<le> n \<Longrightarrow> fld (ucast b) n l = 0" for n l
    using fld_here[of 8 b 0] fld_below[of 0 8 n b l] fits_iff(5)[of b] by simp_all
  show "fld (control_word (CfLinkParameters k s w b)) 28 4 = opcode_wire OpLinkParameters"
    "fld (control_word (CfLinkParameters k s w b)) 24 4 = dlp_control_version" "fld (control_word (CfLinkParameters k s w b)) 18 6 = s"
    "fld (control_word (CfLinkParameters k s w b)) 16 2 = cap_kind_wire k" "fld (control_word (CfLinkParameters k s w b)) 8 8 = w"
    "fld (control_word (CfLinkParameters k s w b)) 0 8 = b"
    using assms[folded fits_iff] fits_iff(5)[of w] by (simp_all add: b word_fields del: opcode_wire.simps)
qed

text \<open>A word is determined by its fields.\<close>

lemma word_hello:
  "w = push_bit 28 (ucast (fld w 28 4)) OR push_bit 24 (ucast (fld w 24 4)) OR push_bit 22 (ucast (fld w 22 2))
     OR push_bit 16 (ucast (fld w 16 6)) OR push_bit 10 (ucast (fld w 10 6)) OR take_bit 10 w"
  by (subst word_top) (simp add: push_fld peel[of 24 22 2] peel[of 22 16 6] peel[of 16 10 6] or.assoc)

lemma word_capabilities:
  "w = push_bit 28 (ucast (fld w 28 4)) OR push_bit 24 (ucast (fld w 24 4)) OR push_bit 18 (ucast (fld w 18 6))
     OR push_bit 16 (ucast (fld w 16 2)) OR push_bit 12 (ucast (fld w 12 4)) OR push_bit 9 (ucast (fld w 9 3)) OR take_bit 9 w"
  by (subst word_top) (simp add: push_fld peel[of 24 18 6] peel[of 18 16 2] peel[of 16 12 4] peel[of 12 9 3] or.assoc)

lemma word_reset:
  "w = push_bit 28 (ucast (fld w 28 4)) OR push_bit 24 (ucast (fld w 24 4)) OR push_bit 18 (ucast (fld w 18 6))
     OR push_bit 14 (ucast (fld w 14 4)) OR take_bit 14 w"
  by (subst word_top) (simp add: push_fld peel[of 24 18 6] peel[of 18 14 4] or.assoc)

lemma word_parameters:
  "w = push_bit 28 (ucast (fld w 28 4)) OR push_bit 24 (ucast (fld w 24 4)) OR push_bit 18 (ucast (fld w 18 6))
     OR push_bit 16 (ucast (fld w 16 2)) OR push_bit 8 (ucast (fld w 8 8)) OR ucast (fld w 0 8)"
proof -
  have "ucast (fld w 0 8) = take_bit 8 w" using push_fld[of 8 0 w] by simp
  then show ?thesis by (subst word_top) (simp add: push_fld peel[of 24 18 6] peel[of 18 16 2] peel[of 16 8 8] or.assoc)
qed

lemma fld_fits: "take_bit k (fld w n k) = fld w n k"
  by (rule bit_word_eqI) (auto simp: bit_fld bit_simps)

lemma kind_wires [simp]:
  "hello_kind_from_wire (hello_kind_wire k) = Ok k" "cap_kind_from_wire (cap_kind_wire c) = Ok c" "opcode_from_wire (opcode_wire p) = Ok p"
  by (cases k; cases c; cases p; simp add: hello_kind_from_wire_def cap_kind_from_wire_def opcode_from_wire_def)+

lemma kind_wires_iff:
  "hello_kind_from_wire v = Ok k \<longleftrightarrow> v = hello_kind_wire k" "cap_kind_from_wire v = Ok c \<longleftrightarrow> v = cap_kind_wire c"
  "opcode_from_wire v = Ok p \<longleftrightarrow> v = opcode_wire p"
  using kind_wires(1)[of k] kind_wires(2)[of c] kind_wires(3)[of p]
  by (auto simp: hello_kind_from_wire_def cap_kind_from_wire_def opcode_from_wire_def split: if_splits)

lemma decode_encode: "frame_ok f \<Longrightarrow> control_decode (control_encode f) = Ok f"
proof (cases f)
  case (CfHello k s p)
  assume "frame_ok f"
  then show ?thesis
    by (cases k) (simp_all add: CfHello control_decode_def control_encode_def Let_def field_fld and_masks hello_word decode_hello_def hello_kind_from_wire_def
        word_gt_0 del: control_word.simps opcode_wire.simps)
next
  case (CfCapabilities k s p r)
  assume "frame_ok f"
  then show ?thesis
    by (auto simp: CfCapabilities control_decode_def control_encode_def Let_def field_fld and_masks capabilities_word decode_capabilities_def
        simp del: control_word.simps opcode_wire.simps)
next
  case (CfReset s r)
  assume "frame_ok f"
  then show ?thesis
    by (simp add: CfReset control_decode_def control_encode_def Let_def field_fld and_masks reset_word decode_reset_def
        word_gt_0 del: control_word.simps opcode_wire.simps)
next
  case (CfLinkParameters k s w b)
  assume "frame_ok f"
  then show ?thesis
    by (simp add: CfLinkParameters control_decode_def control_encode_def Let_def field_fld parameters_word decode_link_parameters_def
        word_gt_0 del: control_word.simps opcode_wire.simps)
qed

lemma fld_less: "fld w n 6 < 64" "fld w n 4 < 16" "fld w n 3 < 8"
  using fld_fits[of 6 w n] fld_fits[of 4 w n] fld_fits[of 3 w n] by (simp_all add: fits_iff)

lemma decode_hello_word:
  assumes "decode_hello w = Ok f" "fld w 28 4 = opcode_wire OpHello" "fld w 24 4 = dlp_control_version"
  shows "frame_ok f \<and> control_word f = w"
proof -
  obtain k where k: "fld w 22 2 = hello_kind_wire k" and f: "f = CfHello k (fld w 16 6) (fld w 10 6)" and z: "take_bit 10 w = 0"
      and ok: "fld w 16 6 \<noteq> 0" "k = HelloInitial \<Longrightarrow> fld w 10 6 = 0" "k = HelloAck \<Longrightarrow> fld w 10 6 \<noteq> 0"
    using assms(1) by (cases "hello_kind_from_wire (fld w 22 2)")
      (auto simp: decode_hello_def field_fld and_masks Let_def kind_wires_iff split: if_splits)
  have "frame_ok f" using ok fld_less by (cases k) (auto simp: f word_gt_0)
  moreover have "control_word f = w"
    by (rule trans[OF _ word_hello[symmetric]]) (simp add: f k z assms(2,3) control_prefix_def wire_simps fld_fits or.assoc del: opcode_wire.simps)
  ultimately show ?thesis ..
qed

lemma decode_capabilities_word:
  assumes "decode_capabilities w = Ok f" "fld w 28 4 = opcode_wire OpCapabilities" "fld w 24 4 = dlp_control_version"
  shows "frame_ok f \<and> control_word f = w"
proof -
  obtain k where k: "fld w 16 2 = cap_kind_wire k" and f: "f = CfCapabilities k (fld w 18 6) (fld w 12 4) (fld w 9 3)" and z: "take_bit 9 w = 0"
      and ok: "fld w 18 6 \<noteq> 0" "fld w 12 4 \<noteq> 0" "fld w 9 3 \<noteq> 0" "k = CapOffer \<or> is_power_of_two (fld w 12 4) \<and> is_power_of_two (fld w 9 3)"
    using assms(1) by (cases "cap_kind_from_wire (fld w 16 2)")
      (auto simp: decode_capabilities_def field_fld and_masks Let_def kind_wires_iff split: if_splits)
  have "frame_ok f" using ok fld_less by (simp add: f word_gt_0)
  moreover have "control_word f = w"
    by (rule trans[OF _ word_capabilities[symmetric]]) (simp add: f k z assms(2,3) control_prefix_def wire_simps fld_fits or.assoc del: opcode_wire.simps)
  ultimately show ?thesis ..
qed

lemma decode_reset_word:
  assumes "decode_reset w = Ok f" "fld w 28 4 = opcode_wire OpReset" "fld w 24 4 = dlp_control_version"
  shows "frame_ok f \<and> control_word f = w"
proof -
  have f: "f = CfReset (fld w 18 6) (fld w 14 4)" and z: "take_bit 14 w = 0" and ok: "fld w 18 6 \<noteq> 0"
    using assms(1) by (auto simp: decode_reset_def field_fld and_masks Let_def split: if_splits)
  have "frame_ok f" using ok fld_less by (simp add: f word_gt_0)
  moreover have "control_word f = w"
    by (rule trans[OF _ word_reset[symmetric]]) (simp add: f z assms(2,3) control_prefix_def wire_simps fld_fits or.assoc del: opcode_wire.simps)
  ultimately show ?thesis ..
qed

lemma decode_parameters_word:
  assumes "decode_link_parameters w = Ok f" "fld w 28 4 = opcode_wire OpLinkParameters" "fld w 24 4 = dlp_control_version"
  shows "frame_ok f \<and> control_word f = w"
proof -
  obtain k where k: "fld w 16 2 = cap_kind_wire k" and f: "f = CfLinkParameters k (fld w 18 6) (fld w 8 8) (fld w 0 8)"
      and ok: "fld w 18 6 \<noteq> 0" "fld w 8 8 \<noteq> 0" "fld w 0 8 \<noteq> 0"
    using assms(1) by (cases "cap_kind_from_wire (fld w 16 2)")
      (auto simp: decode_link_parameters_def field_fld Let_def kind_wires_iff split: if_splits)
  have "frame_ok f" using ok fld_less by (simp add: f word_gt_0)
  moreover have "control_word f = w"
    by (rule trans[OF _ word_parameters[symmetric]]) (simp add: f k assms(2,3) control_prefix_def wire_simps fld_fits or.assoc del: opcode_wire.simps)
  ultimately show ?thesis ..
qed

lemma decode_word:
  assumes "control_decode bs = Ok f"
  shows "frame_ok f \<and> bs = control_encode f"
proof -
  let ?w = "from_be bs :: u32"
  obtain p where len: "length bs = 4" and p: "fld ?w 28 4 = opcode_wire p" and v: "fld ?w 24 4 = dlp_control_version"
      and d: "(case p of OpHello \<Rightarrow> decode_hello ?w | OpCapabilities \<Rightarrow> decode_capabilities ?w | OpReset \<Rightarrow> decode_reset ?w
           | OpLinkParameters \<Rightarrow> decode_link_parameters ?w) = Ok f"
    using assms by (cases "opcode_from_wire (fld (from_be bs) 28 4)")
      (auto simp: control_decode_def Let_def field_fld kind_wires_iff split: if_splits)
  have "frame_ok f \<and> control_word f = ?w"
    using d p v decode_hello_word[of ?w f] decode_capabilities_word[of ?w f] decode_reset_word[of ?w f] decode_parameters_word[of ?w f]
    by (cases p) (simp_all del: opcode_wire.simps)
  then show ?thesis using len by (simp add: control_encode_def)
qed

lemma receive_encoded: "frame_ok f \<Longrightarrow> receive_control m (control_encode f) = dispatch_control m f"
  by (simp add: receive_control_def decode_encode)

text \<open>C37. Link control frames and the byte strings the decoder accepts are in bijection: decoding yields a frame exactly for
  the four bytes that encode it, and exactly these frames are ever decoded: those within their field widths, with a
  non-zero generation of the sender, a HELLO with a generation of the peer exactly if it acknowledges, capabilities with
  non-zero profiles and rates, a single one of each in selections and confirmations, and parameters with a non-zero window
  and burst.\<close>

theorem control_frames_bijective: "control_decode bs = Ok f \<longleftrightarrow> frame_ok f \<and> bs = control_encode f"
  using decode_word decode_encode by blast

section \<open>Negotiation is safe\<close>

text \<open>\<open>within c b m\<close>: the endpoint \<open>m\<close> of configuration \<open>c\<close> and largest burst \<open>b\<close> selected and negotiated
  values within its own, holds credit only within the window negotiated, and its data link runs in the negotiated mode, with
  every waiting frame on a channel of that mode.\<close>

definition profile_within :: "EndpointConfig \<Rightarrow> u32 \<Rightarrow> DlpNegotiatedProfile \<Rightarrow> bool" where
  "profile_within c b p \<longleftrightarrow> np_burst_flits p \<le> b \<and> (np_vc_mode p = VcTwo \<or> ec_vc_mode c = VcFour)"

abbreviation me_dlp :: "DlpManagedEndpoint \<Rightarrow> DlpEndpoint" where
  "me_dlp m \<equiv> en_dlp (me_core m)"

definition within :: "EndpointConfig \<Rightarrow> u32 \<Rightarrow> DlpManagedEndpoint \<Rightarrow> bool" where
  "within c b m \<longleftrightarrow> me_endpoint_config m = c \<and> me_max_burst_flits m = b \<and>
    (case me_negotiated m of
        None \<Rightarrow> \<not> data_path_active m \<and> credit_of m = 0
      | Some p \<Rightarrow> credit_of m \<le> np_peer_rx_buffer_flits p \<and> profile_within c b p \<and>
          ep_vc_mode (me_dlp m) = np_vc_mode p \<and> channels_ok (me_dlp m)) \<and>
    (case me_selected_mode m of Some mode \<Rightarrow> mode = VcTwo \<or> ec_vc_mode c = VcFour | None \<Rightarrow> True) \<and>
    (case me_selected_burst m of Some burst \<Rightarrow> burst \<le> b | None \<Rightarrow> True)"

lemmas within_sbind = sbind_invar[where I = "within c b" for c b]

lemma within_lift [simp]: "within c b (snd (lift_r x m)) = within c b m"
  by (simp add: lift_r_def)

lemma within_push [simp]: "within c b (push_control m f) = within c b m"
  by (simp add: within_def push_control_def data_path_active_def credit_of_def cong: option.case_cong)

lemma within_flags [simp]:
  "within c b (m\<lparr>me_cap_offer_sent := x\<rparr>) = within c b m" "within c b (m\<lparr>me_params_offer_sent := x\<rparr>) = within c b m"
  "within c b (m\<lparr>me_hello_ack_sent := x\<rparr>) = within c b m" "within c b (m\<lparr>me_hello_ack_received := x\<rparr>) = within c b m"
  "within c b (m\<lparr>me_cap_selection_sent := x\<rparr>) = within c b m" "within c b (m\<lparr>me_params_selection_sent := x\<rparr>) = within c b m"
  "within c b (m\<lparr>me_cap_confirmation_sent := x\<rparr>) = within c b m" "within c b (m\<lparr>me_params_confirmation_sent := x\<rparr>) = within c b m"
  "within c b (m\<lparr>me_cap_confirmation_received := x\<rparr>) = within c b m" "within c b (m\<lparr>me_params_confirmation_received := x\<rparr>) = within c b m"
  "within c b (m\<lparr>me_peer_cap_offer := y\<rparr>) = within c b m" "within c b (m\<lparr>me_peer_params_offer := z\<rparr>) = within c b m"
  "within c b (m\<lparr>me_peer_generation := g\<rparr>) = within c b m" "within c b (m\<lparr>me_local_generation := h\<rparr>) = within c b m"
  "within c b (m\<lparr>me_control_tx := t\<rparr>) = within c b m" "within c b (m\<lparr>me_selected_rate := r\<rparr>) = within c b m"
  "within c b (m\<lparr>me_selected_peer_rx := w\<rparr>) = within c b m" "within c b (m\<lparr>me_credit_stall_polls := h\<rparr>) = within c b m"
  by (simp_all add: within_def data_path_active_def credit_of_def cong: option.case_cong)

lemma within_state: "within c b m \<Longrightarrow> st \<notin> {CsCreditSync, CsUp} \<Longrightarrow> within c b (m\<lparr>me_state := st\<rparr>)"
  by (auto simp: within_def data_path_active_def credit_of_def split: option.splits)

lemma detached_credit: "credit_of (detach_core m) = 0"
  by (simp add: detach_core_def set_core_def credit_of_def link_detached_def set_link_up_def)

lemma within_clear:
  assumes "me_endpoint_config m = c" "me_max_burst_flits m = b" "credit_of m = 0" "st \<notin> {CsCreditSync, CsUp}"
  shows "within c b ((clear_negotiation_state m)\<lparr>me_state := st\<rparr>)"
  using assms by (auto simp: within_def clear_negotiation_state_def data_path_active_def credit_of_def)

lemma credit_fields [simp]:
  "credit_of (m\<lparr>me_control_tx := t\<rparr>) = credit_of m" "credit_of (m\<lparr>me_peer_generation := g\<rparr>) = credit_of m"
  "credit_of (m\<lparr>me_local_generation := h\<rparr>) = credit_of m" "credit_of (push_control m f) = credit_of m"
  by (simp_all add: credit_of_def push_control_def)

lemma detach_fields [simp]:
  "me_endpoint_config (detach_core m) = me_endpoint_config m" "me_max_burst_flits (detach_core m) = me_max_burst_flits m"
  "me_endpoint_config (push_control m f) = me_endpoint_config m" "me_max_burst_flits (push_control m f) = me_max_burst_flits m"
  by (simp_all add: detach_core_def set_core_def push_control_def)

lemma within_own: "within c b m \<Longrightarrow> me_endpoint_config m = c" "within c b m \<Longrightarrow> me_max_burst_flits m = b"
  by (simp_all add: within_def)

lemma restart_within: "within c b m \<Longrightarrow> within c b (restart_negotiation m i p)"
  by (simp add: restart_negotiation_def Let_def queue_hello_initial_def within_clear detached_credit within_own)

lemma carrier_within: "within c b m \<Longrightarrow> within c b (snd (carrier_up m))" "within c b m \<Longrightarrow> within c b (carrier_down m)"
  by (simp_all add: carrier_up_def restart_within carrier_down_def within_clear detached_credit within_own)

lemma reset_within: "within c b m \<Longrightarrow> within c b (snd (request_reset m reason))" "within c b m \<Longrightarrow> within c b (snd (on_link_reset m g))"
  by (simp_all add: request_reset_def on_link_reset_def Let_def queue_hello_initial_def within_clear detached_credit within_own)

lemma exchange_within: "within c b m \<Longrightarrow> within c b (snd (maybe_start_capability_exchange m))"
  by (auto simp: maybe_start_capability_exchange_def Let_def within_state intro!: within_sbind)

lemma hello_within: "within c b m \<Longrightarrow> within c b (snd (on_hello m k g p))"
  by (auto simp: on_hello_def on_hello_initial_def on_hello_ack_def Let_def queue_hello_ack_def restart_within exchange_within
      split: DlpHelloKind.split option.split)

lemma choose_vc_mode_within: "choose_vc_mode local flags = Ok mode \<Longrightarrow> mode = VcTwo \<or> local = VcFour"
proof -
  have "(1 AND flags) AND 2 = flags AND (1 AND 2)" by (simp only: and.assoc and.commute and.left_commute)
  moreover have "1 AND 2 = (0 :: u8)" by simp
  ultimately have "(1 AND flags) AND 2 = 0" by (simp only: and_zero_eq)
  then show "choose_vc_mode local flags = Ok mode \<Longrightarrow> mode = VcTwo \<or> local = VcFour"
    by (cases local) (auto simp: choose_vc_mode_def Let_def flag_vc2_def flag_vc4_def split: if_splits)
qed

lemma managed_config_mode: "managed_dlp_config m mode = Ok d \<Longrightarrow> dc_vc_mode d = mode"
  by (auto simp: managed_dlp_config_def dlp_config_new_def split: if_splits)

lemma installed_within:
  assumes "within c b m" "me_selected_mode m = Some mode" "me_selected_burst m = Some burst" "dlp_new d = Ok e"
    "managed_dlp_config m mode = Ok d"
  shows "within c b ((set_core m ((me_core m)\<lparr>en_dlp := e\<rparr>))\<lparr>
          me_negotiated := Some \<lparr>np_vc_mode = mode, np_burst_flits = burst, np_peer_rx_buffer_flits = rx, np_peer_control_window_flits = w\<rparr>,
          me_state := CsCreditSync\<rparr>)"
proof -
  have "ep_data_tx_credit e = 0" "ep_vc_mode e = mode" "channels_ok e"
    using assms(4) managed_config_mode[OF assms(5)] by (auto simp: dlp_new_def channels_ok_def split: if_splits)
  then show ?thesis using assms(1-3) by (auto simp: within_def set_core_def credit_of_def profile_within_def)
qed

lemma install_within: "within c b m \<Longrightarrow> within c b (snd (maybe_install_profile m))"
  by (cases "me_selected_mode m"; cases "me_selected_burst m"; cases "me_selected_peer_rx m";
      cases "rbind (managed_dlp_config m (the (me_selected_mode m))) dlp_new")
    (auto simp: maybe_install_profile_def lift_r_def ok_or_def rbind_eq_Ok intro: installed_within)

lemma capabilities_within: "within c b m \<Longrightarrow> within c b (snd (on_capabilities m k p r))"
proof -
  assume w: "within c b m"
  have mode: "within c b s \<Longrightarrow> choose_vc_mode (ec_vc_mode c) f = Ok mode \<Longrightarrow> within c b (s\<lparr>me_selected_mode := Some mode\<rparr>)" for s f mode
    using choose_vc_mode_within by (auto simp: within_def data_path_active_def credit_of_def split: option.split)
  have "within c b (snd (cap_offer m p r))"
    using w mode by (auto simp: cap_offer_def Let_def within_own lift_r_def split: result.split intro!: within_sbind)
  moreover have "within c b (snd (cap_selection m p r))" "within c b (snd (cap_confirmation m p r))"
    using w by (auto simp: cap_selection_def cap_confirmation_def intro!: within_sbind)
  ultimately show ?thesis
    using w by (auto simp: on_capabilities_def install_within intro!: within_sbind split: DlpCapabilityKind.split)
qed

lemma parameters_within: "within c b m \<Longrightarrow> within c b (snd (on_link_parameters m k p r))"
proof -
  assume w: "within c b m"
  have burst: "within c b s \<Longrightarrow> x \<le> b \<Longrightarrow> within c b (s\<lparr>me_selected_burst := Some x\<rparr>)" for s x
    by (auto simp: within_def data_path_active_def credit_of_def split: option.split)
  have "within c b s \<Longrightarrow> within c b (snd (params_offer s rx bu))" for s rx bu
    using burst by (auto simp: params_offer_def Let_def within_own intro!: within_sbind)
  moreover have "within c b s \<Longrightarrow> within c b (snd (params_selection s x y rx bu))" "within c b s \<Longrightarrow> within c b (snd (params_confirmation s rx bu))"
    for s x y rx bu by (auto simp: params_selection_def params_confirmation_def intro!: within_sbind)
  ultimately show ?thesis
    using w by (auto simp: on_link_parameters_def install_within intro!: within_sbind split: DlpCapabilityKind.split)
qed

lemma control_within: "within c b m \<Longrightarrow> within c b (snd (receive_control m bs))"
  by (auto simp: receive_control_def dispatch_control_def hello_within reset_within capabilities_within parameters_within
      intro!: within_sbind split: DlpControlFrame.split)

lemma on_core_within:
  assumes "within c b m" "\<And>e. steady e (snd (f e))"
  shows "within c b (snd (on_core m f))"
proof -
  have "steady (me_core m) (snd (f (me_core m)))" by (rule assms(2))
  then have "credit_of (snd (on_core m f)) \<le> credit_of m" "channels_kept (me_dlp m) (me_dlp (snd (on_core m f)))"
    by (cases "f (me_core m)"; simp add: on_core_def credit_of_def set_core_def steady_def dlp_steady_def)+
  moreover have "me_negotiated (snd (on_core m f)) = me_negotiated m" "me_state (snd (on_core m f)) = me_state m"
      "me_endpoint_config (snd (on_core m f)) = me_endpoint_config m" "me_max_burst_flits (snd (on_core m f)) = me_max_burst_flits m"
      "me_selected_mode (snd (on_core m f)) = me_selected_mode m" "me_selected_burst (snd (on_core m f)) = me_selected_burst m"
    by (cases "f (me_core m)"; simp add: on_core_def set_core_def)+
  ultimately show ?thesis using assms(1) by (auto simp: within_def data_path_active_def channels_kept_def split: option.splits)
qed

lemma receive_within:
  assumes "within c b m"
  shows "within c b (snd (managed_receive_flit m f))" "within c b (snd (managed_receive_frame m g))"
proof -
  have core: "within c b (snd (on_core m h))"
    if "me_negotiated m = Some p" "credit_of m \<le> l \<Longrightarrow> ep_data_tx_credit (en_dlp (snd (h (me_core m)))) \<le> l" "l = np_peer_rx_buffer_flits p"
      "core_channels (me_core m) (snd (h (me_core m)))" for h p l
    using assms that by (cases "h (me_core m)") (auto simp: within_def on_core_def set_core_def credit_of_def data_path_active_def channels_kept_def)
  have flit: "within c b (snd (on_core m (\<lambda>e. receive_managed_flit e f (np_peer_rx_buffer_flits p))))"
    and frame: "within c b (snd (on_core m (\<lambda>e. receive_managed_frame e g (np_peer_rx_buffer_flits p))))"
    if "me_negotiated m = Some p" for p
    using core[OF that _ refl, of "\<lambda>e. receive_managed_flit e f (np_peer_rx_buffer_flits p)"]
      core[OF that _ refl, of "\<lambda>e. receive_managed_frame e g (np_peer_rx_buffer_flits p)"] managed_receive_channels
      managed_receive_credit[of "me_core m" "np_peer_rx_buffer_flits p" "np_peer_rx_buffer_flits p"]
    by (simp_all add: credit_of_def)
  show "within c b (snd (managed_receive_flit m f))" "within c b (snd (managed_receive_frame m g))"
    using assms flit frame
    by (cases "me_negotiated m"; simp add: managed_receive_flit_def managed_receive_frame_def ok_or_def lift_r_def)+
qed

lemma poll_within:
  assumes "within c b m"
  shows "within c b (snd (managed_poll_tx_flit m))" "within c b (snd (managed_poll_tx_frame m))"
proof -
  have retry: "within c b (snd (maybe_retry_data_credit_request m))"
    using assms by (auto simp: maybe_retry_data_credit_request_def Let_def intro!: within_sbind on_core_within link_steady)
  show "within c b (snd (managed_poll_tx_flit m))" "within c b (snd (managed_poll_tx_frame m))"
    using assms retry by (auto simp: managed_poll_tx_flit_def managed_poll_tx_frame_def intro!: within_sbind on_core_within poll_endpoint_steady)
qed

lemma credit_sync_within:
  assumes "within c b m"
  shows "within c b (snd (bind_credit_peer m peer))" "within c b (snd (finish_credit_sync m))"
  using assms on_core_within[OF assms, of "\<lambda>e. bind_managed_link_peer e peer w" for w]
  by (auto simp: bind_credit_peer_def link_steady)
    (auto simp: finish_credit_sync_def within_def data_path_active_def credit_of_def split: option.splits)

text \<open>The events of a managed endpoint: the carrier, control frames with any bytes, the data path in both directions, credit
  synchronisation, and every call on the endpoint inside, which \<open>DerefMut\<close> makes reachable. (That \<open>dlp_mut\<close> of the endpoint inside
  hands out its data link as a whole is left aside.)\<close>

datatype managed_event =
    MCarrierUp | MCarrierDown | MReset u32 | MPollControl | MControl bytes | MPollFlit | MPollFrame | MFlit Flit | MFrame GnetFrame
  | MBind GdpAddress | MFinish | MCall endpoint_call

fun managed_do :: "DlpManagedEndpoint \<Rightarrow> managed_event \<Rightarrow> DlpManagedEndpoint" where
  "managed_do m MCarrierUp = snd (carrier_up m)"
| "managed_do m MCarrierDown = carrier_down m"
| "managed_do m (MReset reason) = snd (request_reset m reason)"
| "managed_do m MPollControl = snd (poll_control m)"
| "managed_do m (MControl bs) = snd (receive_control m bs)"
| "managed_do m MPollFlit = snd (managed_poll_tx_flit m)"
| "managed_do m MPollFrame = snd (managed_poll_tx_frame m)"
| "managed_do m (MFlit f) = snd (managed_receive_flit m f)"
| "managed_do m (MFrame f) = snd (managed_receive_frame m f)"
| "managed_do m (MBind peer) = snd (bind_credit_peer m peer)"
| "managed_do m MFinish = snd (finish_credit_sync m)"
| "managed_do m (MCall call) = set_core m (endpoint_do (me_core m) call)"

text \<open>Every event but a receive call on the endpoint inside, which goes around the wrapper's own receive methods.\<close>

fun through_wrapper :: "managed_event \<Rightarrow> bool" where
  "through_wrapper (MCall call) \<longleftrightarrow> \<not> receive_call call"
| "through_wrapper _ \<longleftrightarrow> True"

lemma event_within: "within c b m \<Longrightarrow> through_wrapper ev \<Longrightarrow> within c b (managed_do m ev)"
proof (cases ev)
  case (MCall call)
  assume "within c b m" "through_wrapper ev"
  then show ?thesis
    using on_core_within[of c b m "\<lambda>e. (Ok (), endpoint_do e call)"] quiet_call_steady[of call]
    by (auto simp: MCall on_core_def)
qed (auto simp: carrier_within reset_within control_within poll_within receive_within credit_sync_within poll_control_def split: list.split)

text \<open>C4. The data path of a managed link stays within what was negotiated. After any sequence of events, with any control
  bytes and any packets from the peer, as long as packets are received by the wrapper's own methods, an endpoint that has no
  negotiated profile has a closed data path and no credit; and one that has a profile holds at most as much data credit as the
  receive window the peer advertised, runs its data link in the negotiated channel mode with every frame that waits for
  transmission on a channel of that mode, and its profile names four channels only if it supports them and a burst of at
  most its own maximum. The burst is a number in the profile: no code enforces it. A receive call on the dereferenced
  endpoint inside is excluded: it applies grants without the ceiling.\<close>

theorem managed_link_within_profile:
  assumes "list_all through_wrapper events"
  shows "let m = foldl managed_do (managed_build (with_link_down r) c b) events in
   case me_negotiated m of
     None \<Rightarrow> \<not> data_path_active m \<and> credit_of m = 0
   | Some p \<Rightarrow> credit_of m \<le> np_peer_rx_buffer_flits p \<and>
       ep_vc_mode (en_dlp (me_core m)) = np_vc_mode p \<and>
       (\<forall>f \<in> set (ep_control_tx_queue (en_dlp (me_core m)) @ ep_data_tx_queue (en_dlp (me_core m))). tf_vcid f < vc_mode_count (np_vc_mode p)) \<and>
       (np_vc_mode p = VcTwo \<or> ec_vc_mode c = VcFour) \<and> np_burst_flits p \<le> b"
proof -
  have "within c b (managed_build (with_link_down r) c b)"
    by (simp add: within_def managed_build_def with_link_down_def data_path_active_def credit_of_def set_link_up_def)
  moreover have "within c b m \<Longrightarrow> within c b (foldl managed_do m events)" for m
    using assms by (induction events arbitrary: m) (auto simp: event_within)
  ultimately have "within c b (foldl managed_do (managed_build (with_link_down r) c b) events)" by blast
  then show ?thesis by (auto simp: Let_def within_def profile_within_def channels_ok_def split: option.splits)
qed

text \<open>The handlers of link control.\<close>

lemmas control_defs = dispatch_control_def on_hello_def on_hello_initial_def on_hello_ack_def queue_hello_ack_def push_control_def
  maybe_start_capability_exchange_def frame_is_current_def on_capabilities_def cap_offer_def cap_selection_def cap_confirmation_def
  on_link_parameters_def params_offer_def params_selection_def params_confirmation_def maybe_install_profile_def Let_def ok_or_def

text \<open>A peer of generation 5 that supports both modes, offers a window of 80 flits and bursts of 32, and an application that
  solicits a router before the link is up.\<close>

definition peer_events :: "managed_event list" where
  "peer_events = MCarrierUp # MCall (CSolicit 9) # map (MControl \<circ> control_encode)
    [CfHello HelloInitial 5 0, CfHello HelloAck 5 1, CfCapabilities CapOffer 5 3 7, CfCapabilities CapSelection 5 1 4,
     CfCapabilities CapConfirmation 5 1 4, CfLinkParameters CapOffer 5 20 8, CfLinkParameters CapSelection 5 16 8,
     CfLinkParameters CapConfirmation 5 20 8]"

theorem managed_link_within_profile_witness:
  "list_all through_wrapper peer_events \<and>
   (\<forall>r. let m = foldl managed_do (managed_build (with_link_down r) (endpoint_config_new 64) 64) peer_events in
      \<exists>p. me_negotiated m = Some p \<and> np_burst_flits p = 32 \<and> np_peer_rx_buffer_flits p = 80 \<and> credit_of m \<le> 80 \<and>
        ep_vc_mode (en_dlp (me_core m)) = VcTwo)"
proof -
  have t: "list_all through_wrapper peer_events" by (simp add: peer_events_def)
  let ?m = "\<lambda>r. foldl managed_do (managed_build (with_link_down r) (endpoint_config_new 64) 64) peer_events"
  have n: "\<exists>p. me_negotiated (?m r) = Some p \<and>
      np_burst_flits p = 32 \<and> np_peer_rx_buffer_flits p = 80 \<and> np_vc_mode p = VcTwo" for r
    by (simp add: peer_events_def receive_encoded is_power_of_two_def carrier_up_def restart_negotiation_def managed_build_def
        detach_core_def set_core_def clear_negotiation_state_def queue_hello_initial_def control_defs choose_vc_mode_def choose_rate_def
        rate_all_def flag_vc2_def flag_vc4_def encode_parameter_units_def decode_parameter_units_def dlp_control_parameter_unit_flits_def
        endpoint_config_new_def managed_dlp_config_def dlp_config_new_def dlp_new_def dlp_reserved_control_window_flits_def min_def)
  have "\<exists>p. me_negotiated (?m r) = Some p \<and> np_burst_flits p = 32 \<and> np_peer_rx_buffer_flits p = 80 \<and> credit_of (?m r) \<le> 80 \<and>
      ep_vc_mode (me_dlp (?m r)) = VcTwo" for r
  proof -
    obtain p where p: "me_negotiated (?m r) = Some p" "np_burst_flits p = 32" "np_peer_rx_buffer_flits p = 80" "np_vc_mode p = VcTwo"
      using n[of r] by blast
    from managed_link_within_profile[OF t, of r "endpoint_config_new 64" 64] show ?thesis
      unfolding Let_def p(1) option.case using p by simp
  qed
  then show ?thesis using t unfolding Let_def by blast
qed

end
