(* ===== verification/Dlp_Bringup.thy ===== *)
theory Dlp_Bringup
  imports Dlp_Negotiation
begin

text \<open>
  Two managed endpoints on a cable exchange control frames: from a cold start they negotiate the same mode and burst, learn
  each other's receive window and install their data links; and a duplicate of the HELLO that opened the link takes an
  established link down for good.
\<close>

section \<open>Symbolic rounds\<close>

lemma units_roundtrip:
  assumes "encode_parameter_units v = Ok u"
  shows "u \<noteq> 0" "decode_parameter_units u = Ok v" "v \<noteq> 0"
proof -
  let ?n = "v div 4"
  have v: "v mod 4 = 0" "v \<noteq> 0" and n: "?n \<noteq> 0" "?n \<le> 255" and u: "u = ucast ?n"
    using assms by (auto simp: encode_parameter_units_def dlp_control_parameter_unit_flits_def Let_def split: if_splits)
  have un: "unat u = unat ?n" using n(2) by (simp add: u unsigned_ucast_eq word_le_nat_alt take_bit_nat_eq_self_iff)
  show "u \<noteq> 0" using un n(1) by (metis unat_eq_zero)
  have "take_bit 32 (unat ?n) = unat ?n" by (simp add: take_bit_nat_eq_self_iff)
  then have "ucast u = ?n" using un by (simp add: word_unat_eq_iff unsigned_ucast_eq)
  then have "ucast u * 4 = v" using v(1) by (metis add.right_neutral div_mult_mod_eq)
  then show "decode_parameter_units u = Ok v" using \<open>u \<noteq> 0\<close>
    by (simp add: decode_parameter_units_def dlp_control_parameter_unit_flits_def)
  show "v \<noteq> 0" by (rule v(2))
qed

lemma round_both:
  assumes "me_control_tx a = f # fs" "frame_ok f" "me_control_tx b' = g # gs" "frame_ok g"
    and "dispatch_control b f = (Ok (), b')" "dispatch_control (a\<lparr>me_control_tx := fs\<rparr>) g = (Ok (), a')"
  shows "pump_control (a, b) = (Ok True, (a', b'\<lparr>me_control_tx := gs\<rparr>))"
  using assms by (simp add: pump_control_def deliver_control_def poll_control_def on_a_def on_b_def receive_encoded)

section \<open>A duplicate HELLO\<close>

text \<open>An established end of a link: it is up, has no control frame left to send, and knows the generation of its peer.\<close>

definition established :: "DlpManagedEndpoint \<Rightarrow> DlpManagedEndpoint \<Rightarrow> bool" where
  "established m peer \<longleftrightarrow> me_state m = CsUp \<and> me_control_tx m = [] \<and> me_hello_ack_sent m \<and> me_hello_ack_received m \<and>
    me_cap_offer_sent m \<and> me_params_offer_sent m \<and> me_peer_generation m = Some (me_local_generation peer) \<and>
    0 < me_local_generation m \<and> me_local_generation m < 64"

abbreviation hello_of :: "DlpManagedEndpoint \<Rightarrow> DlpControlFrame" where
  "hello_of m \<equiv> CfHello HelloInitial (me_local_generation m) 0"

lemma duplicate_hello_reopens:
  assumes "established b a" "established a b"
  shows "receive_control b (control_encode (hello_of a)) =
    (Ok (), b\<lparr>me_control_tx := [CfHello HelloAck (me_local_generation b) (me_local_generation a)], me_state := CsNegotiate\<rparr>)"
  using assms
  by (simp add: established_def receive_encoded dispatch_control_def on_hello_def on_hello_initial_def Let_def queue_hello_ack_def
      push_control_def maybe_start_capability_exchange_def)

text \<open>C38. A duplicate of the HELLO of the current generation takes an established link down and keeps it down, although
  docs/DLP\_LINK\_CONTROL\_V0\_1.md says that it is harmless. The end that receives it falls back to negotiation, its
  acknowledgement makes the other end do the same, and since both have sent their offers already, no frame is left that
  could complete the negotiation: pumping the cable fails, with both data paths closed and nothing to send.\<close>

theorem duplicate_hello_kills_link:
  assumes "established a b" "established b a" "dcb_carrier cable"
  shows "\<exists>cable' a' b'.
    cable_pump (cable, (a, snd (receive_control b (control_encode (hello_of a))))) n = (Err InvalidState, (cable', (a', b'))) \<and>
    \<not> data_path_active a' \<and> \<not> data_path_active b' \<and> \<not> control_pending a' \<and> \<not> control_pending b'"
proof -
  let ?b = "b\<lparr>me_control_tx := [CfHello HelloAck (me_local_generation b) (me_local_generation a)], me_state := CsNegotiate\<rparr>"
  let ?a' = "a\<lparr>me_state := CsNegotiate\<rparr>" and ?b' = "?b\<lparr>me_control_tx := []\<rparr>"
  have e: "me_state a = CsUp" "me_control_tx a = []" "me_hello_ack_sent a" "me_hello_ack_received a" "me_cap_offer_sent a" "me_params_offer_sent a"
      "me_peer_generation a = Some (me_local_generation b)" "0 < me_local_generation a" "me_local_generation a < 64"
      "0 < me_local_generation b" "me_local_generation b < 64"
    using assms by (simp_all add: established_def)
  have "frame_ok (CfHello HelloAck (me_local_generation b) (me_local_generation a))" using e by (simp add: word_gt_0)
  moreover have "a\<lparr>me_hello_ack_received := True, me_state := CsNegotiate\<rparr> = ?a'" using e(4) by (cases a) simp
  then have "dispatch_control a (CfHello HelloAck (me_local_generation b) (me_local_generation a)) = (Ok (), ?a')"
    using e by (simp add: dispatch_control_def on_hello_def on_hello_ack_def Let_def maybe_start_capability_exchange_def)
  ultimately have first: "pump_control (a, ?b) = (Ok True, (?a', ?b'))"
    using e by (simp add: pump_control_def deliver_control_def poll_control_def on_a_def receive_encoded)
  have second: "pump_control (?a', ?b') = (Ok False, (?a', ?b'))"
    using e by (simp add: pump_control_def deliver_control_def poll_control_def)
  have "attach_control 512 (a, ?b) = attach_control (Suc (Suc 510)) (a, ?b)" by simp
  also have "\<dots> = (Err InvalidState, (?a', ?b'))"
    by (simp only: attach_control.simps first second sbind_simps) (simp add: both_ready_for_credit_def)
  finally have "attach_control 512 (a, ?b) = (Err InvalidState, (?a', ?b'))" .
  then have "cable_pump (cable, (a, ?b)) n = (Err InvalidState, (cable\<lparr>dcb_credit_bound := False\<rparr>, (?a', ?b')))"
    using assms(3) e by (simp add: cable_pump_def unbind_unless_up_def both_up_def cable_attach_def both_ready_for_credit_def in_cable_def)
  moreover have "snd (receive_control b (control_encode (hello_of a))) = ?b" by (simp only: duplicate_hello_reopens[OF assms(2,1)] snd_conv)
  ultimately show ?thesis using e by (auto simp: data_path_active_def control_pending_def)
qed

theorem duplicate_hello_kills_link_witness:
  "case managed_new 0x10 (endpoint_config_new 64) 64 of
     Ok m \<Rightarrow>
       (let a = m\<lparr>me_state := CsUp, me_hello_ack_sent := True, me_hello_ack_received := True, me_cap_offer_sent := True,
                  me_params_offer_sent := True, me_peer_generation := Some 1\<rparr>;
            cable = \<lparr>dcb_carrier = True, dcb_credit_bound = True\<rparr> in
        established a a \<and> fst (cable_pump (cable, (a, snd (receive_control a (control_encode (hello_of a))))) 100) = Err InvalidState)
   | _ \<Rightarrow> False"
proof -
  let ?up = "\<lambda>m. m\<lparr>me_state := CsUp, me_hello_ack_sent := True, me_hello_ack_received := True, me_cap_offer_sent := True,
                  me_params_offer_sent := True, me_peer_generation := Some 1\<rparr>"
  obtain r where m: "managed_new 0x10 (endpoint_config_new 64) 64 = Ok (managed_build r (endpoint_config_new 64) 64)"
    by (simp add: managed_new_def managed_checks_def validate_parameter_value_def encode_parameter_units_def dlp_control_parameter_unit_flits_def
        routed_new_def endpoint_new_def endpoint_config_validate_def endpoint_config_new_def make_link_local_def link_local_suffix_mask_def
        endpoint_build_def endpoint_dlp_config_def dlp_config_new_def dlp_new_def dlp_reserved_control_window_flits_def)
  let ?a = "?up (managed_build r (endpoint_config_new 64) 64)"
  have e: "established ?a ?a" by (simp add: established_def managed_build_def)
  from duplicate_hello_kills_link[OF e e, of "\<lparr>dcb_carrier = True, dcb_credit_bound = True\<rparr>" 100]
  have "fst (cable_pump (\<lparr>dcb_carrier = True, dcb_credit_bound = True\<rparr>, (?a, snd (receive_control ?a (control_encode (hello_of ?a))))) 100) = Err InvalidState"
    by force
  with e show ?thesis unfolding m by (simp only: result.case Let_def)
qed

section \<open>Bring-up\<close>

definition common_mode :: "VcMode \<Rightarrow> VcMode \<Rightarrow> VcMode" where
  "common_mode x y = (if x = VcFour \<and> y = VcFour then VcFour else VcTwo)"

lemma mode_flags [simp]:
  "choose_vc_mode x (supported_mode_flags y) = Ok (common_mode x y)" "supported_mode_flags x \<noteq> 0" "supported_mode_flags x < 16"
  "selected_mode_flag x \<noteq> 0" "selected_mode_flag x < 16" "is_power_of_two (selected_mode_flag x)"
  by (cases x; cases y; simp add: choose_vc_mode_def Let_def flag_vc2_def flag_vc4_def common_mode_def is_power_of_two_def)+

lemma common_mode_commute: "common_mode y x = common_mode x y"
  by (auto simp: common_mode_def)

lemma rate_choice [simp]: "choose_rate rate_all rate_all = Ok 4" "rate_all \<noteq> 0" "rate_all < 8" "is_power_of_two 4"
  by (simp_all add: choose_rate_def rate_all_def Let_def is_power_of_two_def)

text \<open>One round at a time: the continuation is left alone until the round has been computed.\<close>

lemma sbind_weak_cong: "m = m' \<Longrightarrow> sbind m k = sbind m' k"
  by simp

lemmas pump_defs = pump_control_def deliver_control_def poll_control_def on_a_def on_b_def receive_encoded both_ready_for_credit_def

text \<open>The data link that a negotiated mode installs.\<close>

definition installed_dlp :: "EndpointConfig \<Rightarrow> VcMode \<Rightarrow> DlpEndpoint" where
  "installed_dlp c mode = \<lparr>ep_cfg = ec_gdp_wire c,
     ep_local_prefix = (case ec_local_context_prefix c of Some p \<Rightarrow> p | None \<Rightarrow> 0) AND NOT 0xffff AND NOT 0xffff, ep_vc_mode = mode,
     ep_rx_buffer_flits = ec_rx_buffer_flits c, ep_control_window_flits = 32, ep_data_tx_credit = 0, ep_control_tx_credit = 0,
     ep_data_credit_outstanding = 0, ep_data_rx_in_use = 0, ep_control_tx_queue = [], ep_data_tx_queue = [],
     ep_rx = replicate 4 None, ep_desynchronized = replicate 4 False, ep_next_data_vc = 1, ep_link_up = True\<rparr>"

text \<open>Eight rounds: two for the greetings, two each for offers, selections and confirmations.\<close>

lemma control_rounds:
  assumes "encode_parameter_units (ec_rx_buffer_flits ca) = Ok wa" "encode_parameter_units (ec_rx_buffer_flits cb) = Ok wb"
    "encode_parameter_units ba = Ok ua" "encode_parameter_units bb = Ok ub" "encode_parameter_units (min ba bb) = Ok um"
  shows "\<exists>a b. attach_control (Suc (Suc (Suc (Suc (Suc (Suc (Suc (Suc n))))))))
      (restart_negotiation (managed_build ra ca ba) False False, restart_negotiation (managed_build rb cb bb) False False) = (Ok (), (a, b)) \<and>
    me_state a = CsCreditSync \<and> me_state b = CsCreditSync \<and>
    me_negotiated a = Some \<lparr>np_vc_mode = common_mode (ec_vc_mode ca) (ec_vc_mode cb), np_burst_flits = min ba bb,
      np_peer_rx_buffer_flits = ec_rx_buffer_flits cb, np_peer_control_window_flits = 32\<rparr> \<and>
    me_negotiated b = Some \<lparr>np_vc_mode = common_mode (ec_vc_mode ca) (ec_vc_mode cb), np_burst_flits = min ba bb,
      np_peer_rx_buffer_flits = ec_rx_buffer_flits ca, np_peer_control_window_flits = 32\<rparr> \<and>
    me_core a = (link_detached (re_inner ra))\<lparr>en_dlp := installed_dlp ca (common_mode (ec_vc_mode ca) (ec_vc_mode cb))\<rparr> \<and>
    me_core b = (link_detached (re_inner rb))\<lparr>en_dlp := installed_dlp cb (common_mode (ec_vc_mode ca) (ec_vc_mode cb))\<rparr>"
proof -
  note units = units_roundtrip[OF assms(1)] units_roundtrip[OF assms(2)] units_roundtrip[OF assms(3)] units_roundtrip[OF assms(4)]
    units_roundtrip[OF assms(5)] min.commute[of bb ba] common_mode_commute[of "ec_vc_mode cb" "ec_vc_mode ca"]
  show ?thesis using assms units
    by (simp add: restart_negotiation_def managed_build_def detach_core_def set_core_def clear_negotiation_state_def
        queue_hello_initial_def pump_defs control_defs word_gt_0 managed_dlp_config_def dlp_config_new_def dlp_new_def
        dlp_reserved_control_window_flits_def installed_dlp_def cong: sbind_weak_cong)
qed

lemma checks_units:
  assumes "managed_checks c b = Ok ()"
  shows "\<exists>w u. encode_parameter_units (ec_rx_buffer_flits c) = Ok w \<and> encode_parameter_units b = Ok u"
  using assms by (auto simp: managed_checks_def validate_parameter_value_def result_simps)

end
