(* ===== verification/Dlp_Attach.thy ===== *)
theory Dlp_Attach
  imports Dlp_Bringup Dlp_Transfer
begin

text \<open>
  Bringing a cable up: after the control frames have settled a profile, each end advertises its receive window in one
  control packet, the packets cross flit by flit, and both ends open. \<open>syncing\<close> is the state of one end while its own
  packet is being sent and the other one is being received.
\<close>

section \<open>The packet that carries a grant\<close>

definition carries_grant :: "GdpPacket \<Rightarrow> GdpAddress \<Rightarrow> u32 \<Rightarrow> bool" where
  "carries_grant p destination g \<longleftrightarrow> packet_type (pkt_header p) = Gctl \<and> gdp_destination (pkt_header p) = destination \<and>
    (\<exists>msg. gctl_decode (pkt_payload p) = Ok msg \<and> gm_type msg = GCredit \<and> parse_credit msg = Ok g)"

definition context_of :: "EndpointConfig \<Rightarrow> u64" where
  "context_of c = (case ec_local_context_prefix c of Some p \<Rightarrow> p | None \<Rightarrow> 0) AND NOT 0xffff"

lemma and_twice: "x AND m AND m = x AND m" for x m :: u64
  by (simp add: and.assoc)

lemma low_high_join: "x AND NOT 0xffff = p AND NOT 0xffff \<Longrightarrow> (p AND NOT 0xffff) OR ucast (ucast x :: u16) = x" for x p :: u64
proof -
  assume eq: "x AND NOT 0xffff = p AND NOT 0xffff"
  have "(x AND NOT 0xffff) OR ucast (ucast x :: u16) = x"
  proof -
    have m: "(0xffff :: u64) = mask 16" by (simp add: mask_eq_exp_minus_1)
    show ?thesis unfolding m by (rule bit_word_eqI) (auto simp: bit_simps)
  qed
  then show ?thesis using eq by simp
qed

lemma header_for:
  assumes "en_config e = c"
  shows "\<exists>h. make_gdp_header e Gctl cls source destination = Ok h \<and> packet_type h = Gctl \<and> size_class h = cls \<and>
    gdp_destination h = destination \<and> gdp_header_wf h \<and> prefix_matches h (context_of c)"
proof -
  have local_case: "\<exists>h. gdp_header_local Gctl cls 15 (p AND NOT 0xffff) (ucast source) (ucast destination) = Ok h \<and> packet_type h = Gctl \<and>
      size_class h = cls \<and> gdp_destination h = destination \<and> gdp_header_wf h \<and> prefix_matches h (context_of c)"
    if "ec_local_context_prefix c = Some p" "destination AND NOT 0xffff = p AND NOT 0xffff" for p
    using that low_high_join[OF that(2)]
    by (simp add: gdp_header_local_def gdp_destination_def gdp_header_wf_def prefix_matches_def context_of_def and_twice)
  have global_case: "packet_type g = Gctl \<and> size_class g = cls \<and> gdp_destination g = destination \<and> gdp_header_wf g \<and> prefix_matches g (context_of c)"
    if "g = gdp_header_global Gctl cls 64 source destination" for g
    by (simp add: that gdp_header_global_def gdp_destination_def gdp_header_wf_def prefix_matches_def)
  show ?thesis unfolding make_gdp_header_def Let_def assms
    using local_case global_case by (auto split: option.split)
qed

lemma grant_packet:
  assumes "en_config e = c"
  shows "\<exists>p. gctl_packet e source destination (gctl_credit t g) None = Ok p \<and> gdp_packet_wf p \<and>
    prefix_matches (pkt_header p) (context_of c) \<and> carries_grant p destination g \<and> size_class_bytes (size_class (pkt_header p)) \<le> 64"
proof -
  obtain cls where cls: "recommended_size_class (gctl_credit t g) = Ok cls" "12 \<le> size_class_bytes cls" "size_class_bytes cls \<le> 64"
    by (simp add: recommended_size_class_def smallest_for_def gctl_encoded_len_def gctl_credit_def gctl_new_def size_class_bytes_def
        size_class_all_def)
  then obtain bs m where bs: "encode_exact (gctl_credit t g) (size_class_bytes cls) = Ok bs" "gctl_decode bs = Ok m" "parse_credit m = Ok g"
    using credit_body.wire_roundtrip[of t g "gctl_credit t g" "size_class_bytes cls"] by (auto simp: gctl_encoded_len_def gctl_credit_def gctl_new_def)
  have len: "length bs = size_class_bytes cls"
    using bs(1) by (auto simp: encode_exact_def result_simps copy_at_def split: if_splits)
  have "gm_type m = GCredit" using bs(3) by (auto simp: parse_credit_def typed_body_def result_simps split: if_splits)
  moreover obtain h where h: "make_gdp_header e Gctl cls source destination = Ok h" "packet_type h = Gctl" "size_class h = cls"
      "gdp_destination h = destination" "gdp_header_wf h" "prefix_matches h (context_of c)"
    using header_for[OF assms] by blast
  ultimately show ?thesis using cls bs len
    by (simp add: gctl_packet_def gdp_packet_new_def gdp_packet_wf_def carries_grant_def)
qed

section \<open>One end while credit is synchronised\<close>

text \<open>\<open>own\<close> and \<open>peer\<close> are the frames of the two grants, \<open>s\<close> flits of the first are sent and \<open>r\<close> of the second received.\<close>

definition syncing :: "EndpointConfig \<Rightarrow> DlpNegotiatedProfile \<Rightarrow> GdpAddress \<Rightarrow> bytes \<Rightarrow> nat \<Rightarrow> bytes \<Rightarrow> nat \<Rightarrow> DlpManagedEndpoint \<Rightarrow> bool" where
  "syncing c prof addr own s peer r m \<longleftrightarrow> me_state m = CsCreditSync \<and> me_negotiated m = Some prof \<and>
    en_link_local_address (me_core m) = addr \<and>
    ep_cfg (me_dlp m) = ec_gdp_wire c \<and> ep_local_prefix (me_dlp m) = context_of c \<and> ep_vc_mode (me_dlp m) = np_vc_mode prof \<and>
    ep_rx_buffer_flits (me_dlp m) = ec_rx_buffer_flits c \<and> ep_data_credit_outstanding (me_dlp m) = ec_rx_buffer_flits c \<and>
    ep_data_rx_in_use (me_dlp m) = 0 \<and> ep_control_tx_credit (me_dlp m) = 32 \<and> ep_data_tx_queue (me_dlp m) = [] \<and>
    ep_control_tx_queue (me_dlp m) = (if s < flit_len own
      then [\<lparr>tf_vcid = 0, tf_traffic = Control, tf_bytes = own, tf_flit_offset = s\<rparr>] else []) \<and>
    ep_rx (me_dlp m) = (replicate 4 None)[0 := if r < flit_len peer then partial_seg Control peer r else None] \<and>
    ep_desynchronized (me_dlp m) = replicate 4 False \<and> ep_link_up (me_dlp m) \<and>
    ep_data_tx_credit (me_dlp m) = (if r < flit_len peer then 0 else np_peer_rx_buffer_flits prof)"

lemma next_flit_word:
  assumes "s < flit_len bs"
  shows "next_flit \<lparr>tf_vcid = 0, tf_traffic = Control, tf_bytes = bs, tf_flit_offset = s\<rparr> =
    Some (\<lparr>flit_vcid = 0, flit_data = flit_word bs s\<rparr>, \<lparr>tf_vcid = 0, tf_traffic = Control, tf_bytes = bs, tf_flit_offset = Suc s\<rparr>)"
proof (cases "next_flit \<lparr>tf_vcid = 0, tf_traffic = Control, tf_bytes = bs, tf_flit_offset = s\<rparr>")
  case (Some x)
  obtain y f where x: "x = (y, f)" by (cases x)
  show ?thesis using Some next_flit_Some[OF Some[unfolded x]] assms by (simp add: x frame_flits_def upt_conv_Cons)
qed (use assms in \<open>simp add: next_flit_def Let_def\<close>)

lemma vc_mode_positive: "0 < vc_mode_count mode" "vc_mode_count mode \<noteq> 0"
  by (cases mode; simp)+

lemma sync_poll:
  assumes "syncing c prof addr own s peer r m" "s < flit_len own"
  shows "\<exists>m'. managed_poll_tx_flit m = (Ok (Some \<lparr>flit_vcid = 0, flit_data = flit_word own s\<rparr>), m') \<and>
    syncing c prof addr own (Suc s) peer r (grant_control \<lparr>flit_vcid = 0, flit_data = flit_word own s\<rparr> m')"
  using assms next_flit_word[OF assms(2)]
  by (auto simp: syncing_def managed_poll_tx_flit_def data_path_active_def maybe_retry_data_credit_request_def on_core_def set_core_def
      endpoint_poll_tx_flit_def maybe_request_link_credit_def queued_data_flits_def queue_flits_def on_dlp_def poll_tx_def poll_tx_burst_def
      emit_queue_flits.simps remaining_flits_def grant_control_def return_control_credit_def vcid_is_control_def grant_control_tx_credit_def
      saturating_add_def Let_def)

lemma sync_poll_none:
  assumes "syncing c prof addr own s peer r m" "\<not> s < flit_len own"
  shows "\<exists>m'. managed_poll_tx_flit m = (Ok None, m') \<and> syncing c prof addr own s peer r m'"
  using assms
  by (auto simp: syncing_def managed_poll_tx_flit_def data_path_active_def maybe_retry_data_credit_request_def on_core_def set_core_def
      endpoint_poll_tx_flit_def maybe_request_link_credit_def queued_data_flits_def queue_flits_def on_dlp_def poll_tx_def poll_tx_burst_def
      emit_queue_flits.simps Let_def)

text \<open>The last flit completes the packet: the grant is applied and, everything being granted already, nothing is advertised.\<close>

lemma grant_handled:
  assumes "carries_grant p (en_link_local_address e) g" "g \<noteq> 0" "ep_data_tx_credit (en_dlp e) = 0"
    "ep_data_credit_outstanding (en_dlp e) = ep_rx_buffer_flits (en_dlp e)"
  shows "managed_handle e p g = (Ok True, e\<lparr>en_last_rx_address_form := Some (gdp_form (addresses (pkt_header p))),
    en_dlp := (en_dlp e)\<lparr>ep_data_tx_credit := g\<rparr>, en_credit_request_pending := False\<rparr>)"
proof -
  have z: "saturating_sub g 0 = g" "saturating_add 0 g = g" "saturating_sub (saturating_sub x y) x = 0" for x y :: u32
  proof -
    have "unat (saturating_sub (saturating_sub x y) x) = 0" by (simp add: unat_saturating_sub)
    then show "saturating_sub (saturating_sub x y) x = 0" by (simp add: unat_eq_zero)
  qed (simp_all add: saturating_sub_def saturating_add_def)
  show ?thesis using assms
    by (auto simp: carries_grant_def managed_handle_def validate_managed_credit_grant_def handle_gdp_def accepts_destination_def Let_def
        handle_gctl_def dispatch_gctl_def on_credit_def grant_data_tx_credit_def advertise_link_credit_def grantable_data_credit_def
        available_rx_flits_def z split: option.split)
qed

lemma sync_receive:
  assumes "syncing c prof addr own s peer r m" "r < flit_len peer"
    and "gdp_packet_decode peer (ec_gdp_wire c) (context_of c) = Ok p" "carries_grant p addr (np_peer_rx_buffer_flits prof)"
    and "np_peer_rx_buffer_flits prof \<noteq> 0"
  shows "\<exists>m'. managed_receive_flit m \<lparr>flit_vcid = 0, flit_data = flit_word peer r\<rparr> = (Ok (\<not> Suc r < flit_len peer), m') \<and>
    syncing c prof addr own s peer (Suc r) m'"
proof -
  let ?f = "\<lparr>flit_vcid = 0, flit_data = flit_word peer r\<rparr>" and ?d = "me_dlp m"
  have st: "me_state m = CsCreditSync" "me_negotiated m = Some prof" "en_link_local_address (me_core m) = addr" using assms(1) by (simp_all add: syncing_def)
  have rx: "dlp_receive ?d ?f = push_seg ?d Control 0 peer r p"
    using receive_flit[of ?d 0 peer p Control r] assms by (simp add: syncing_def vc_mode_positive)
  show ?thesis
  proof (cases "Suc r < flit_len peer")
    case True
    then show ?thesis using assms(1,2) st rx
      by (simp add: managed_receive_flit_def data_path_active_def ok_or_def receive_managed_flit_def on_core_def on_dlp_def push_seg_def)
        (simp add: syncing_def set_core_def)
  next
    case False
    let ?e = "(me_core m)\<lparr>en_dlp := ?d\<lparr>ep_rx := (ep_rx ?d)[0 := None]\<rparr>\<rparr>"
    have "managed_handle ?e p (np_peer_rx_buffer_flits prof) = (Ok True, ?e\<lparr>en_last_rx_address_form := Some (gdp_form (addresses (pkt_header p))),
        en_dlp := (en_dlp ?e)\<lparr>ep_data_tx_credit := np_peer_rx_buffer_flits prof\<rparr>, en_credit_request_pending := False\<rparr>)"
      using assms by (intro grant_handled) (simp_all add: syncing_def)
    then show ?thesis using False assms(1,2) st rx
      by (simp add: managed_receive_flit_def data_path_active_def ok_or_def receive_managed_flit_def on_core_def on_dlp_def push_seg_def)
        (simp add: syncing_def set_core_def)
  qed
qed

section \<open>Both ends\<close>

text \<open>The two ends, after \<open>s\<close> flits from the first and \<open>t\<close> from the second.\<close>

definition sync_pair ::
    "EndpointConfig \<Rightarrow> DlpNegotiatedProfile \<Rightarrow> GdpAddress \<Rightarrow> bytes \<Rightarrow> nat \<Rightarrow> EndpointConfig \<Rightarrow> DlpNegotiatedProfile \<Rightarrow> GdpAddress \<Rightarrow> bytes \<Rightarrow> nat \<Rightarrow> ends \<Rightarrow> bool" where
  "sync_pair ca pa a own s cb pb b peer t st \<longleftrightarrow> syncing ca pa a own s peer t (fst st) \<and> syncing cb pb b peer t own s (snd st)"

definition grant_frame :: "EndpointConfig \<Rightarrow> GdpAddress \<Rightarrow> bytes \<Rightarrow> u32 \<Rightarrow> bool" where
  "grant_frame c destination bs g \<longleftrightarrow> g \<noteq> 0 \<and> flit_len bs \<le> 32 \<and>
    (\<exists>p. gdp_packet_decode bs (ec_gdp_wire c) (context_of c) = Ok p \<and> carries_grant p destination g)"

lemma sync_active: "syncing c prof addr own s peer r m \<Longrightarrow> data_path_active m"
  by (simp add: syncing_def data_path_active_def)

lemma sync_direction:
  assumes "sync_pair ca pa a own s cb pb b peer t st" "grant_frame cb b own (np_peer_rx_buffer_flits pb)"
  shows "\<exists>st'. pump_data_direction st = (Ok (s < flit_len own), st') \<and>
    sync_pair ca pa a own (if s < flit_len own then Suc s else s) cb pb b peer t st'"
proof -
  obtain x y where st: "st = (x, y)" by (cases st)
  have x: "syncing ca pa a own s peer t x" and y: "syncing cb pb b peer t own s y" using assms(1) by (simp_all add: sync_pair_def st)
  show ?thesis
  proof (cases "s < flit_len own")
    case True
    obtain x' where x': "managed_poll_tx_flit x = (Ok (Some \<lparr>flit_vcid = 0, flit_data = flit_word own s\<rparr>), x')"
        "syncing ca pa a own (Suc s) peer t (grant_control \<lparr>flit_vcid = 0, flit_data = flit_word own s\<rparr> x')"
      using sync_poll[OF x True] by blast
    obtain y' where y': "managed_receive_flit y \<lparr>flit_vcid = 0, flit_data = flit_word own s\<rparr> = (Ok (\<not> Suc s < flit_len own), y')"
        "syncing cb pb b peer t own (Suc s) y'"
      using sync_receive[OF y True] assms(2) by (auto simp: grant_frame_def)
    show ?thesis using True x' y' sync_active[OF x] sync_active[OF y]
      by (simp add: pump_data_direction_def st on_a_def on_b_def sync_pair_def)
  next
    case False
    obtain x' where "managed_poll_tx_flit x = (Ok None, x')" "syncing ca pa a own s peer t x'" using sync_poll_none[OF x False] by blast
    then show ?thesis using False y sync_active[OF x] sync_active[OF y]
      by (simp add: pump_data_direction_def st on_a_def sync_pair_def)
  qed
qed

lemma sync_pair_swap: "sync_pair ca pa a own s cb pb b peer t (swap_ends st) = sync_pair cb pb b peer t ca pa a own s st"
  by (auto simp: sync_pair_def swap_ends_def)

lemma sync_once:
  assumes "sync_pair ca pa a own s cb pb b peer t st" "grant_frame cb b own (np_peer_rx_buffer_flits pb)"
    "grant_frame ca a peer (np_peer_rx_buffer_flits pa)"
  shows "\<exists>st'. pump_data_once st = (Ok (s < flit_len own \<or> t < flit_len peer), st') \<and>
    sync_pair ca pa a own (if s < flit_len own then Suc s else s) cb pb b peer (if t < flit_len peer then Suc t else t) st'"
proof -
  obtain u where u: "pump_data_direction st = (Ok (s < flit_len own), u)"
      "sync_pair ca pa a own (if s < flit_len own then Suc s else s) cb pb b peer t u" using sync_direction[OF assms(1,2)] by blast
  then obtain w where w: "pump_data_direction (swap_ends u) = (Ok (t < flit_len peer), w)"
      "sync_pair cb pb b peer (if t < flit_len peer then Suc t else t) ca pa a own (if s < flit_len own then Suc s else s) w"
    using sync_direction[OF _ assms(3), where st = "swap_ends u"] by (force simp: sync_pair_swap)
  show ?thesis using u(1) w by (simp add: pump_data_once_def sync_pair_swap)
qed

lemma sync_credit:
  assumes "sync_pair ca pa a own s cb pb b peer t st" "grant_frame cb b own (np_peer_rx_buffer_flits pb)"
    "grant_frame ca a peer (np_peer_rx_buffer_flits pa)" "flit_len own \<le> s + n" "flit_len peer \<le> t + n"
  shows "\<exists>st' s' t'. attach_credit n st = (Ok (), st') \<and> flit_len own \<le> s' \<and> flit_len peer \<le> t' \<and> sync_pair ca pa a own s' cb pb b peer t' st'"
  using assms(1,4,5)
proof (induction n arbitrary: s t st)
  case (Suc n)
  have credit: "credit_of (fst st) = 0 \<longleftrightarrow> t < flit_len peer" "credit_of (snd st) = 0 \<longleftrightarrow> s < flit_len own"
    using Suc.prems(1) assms(2,3) by (auto simp: sync_pair_def syncing_def credit_of_def grant_frame_def)
  show ?case
  proof (cases "s < flit_len own \<or> t < flit_len peer")
    case True
    obtain u where u: "pump_data_once st = (Ok True, u)"
        "sync_pair ca pa a own (if s < flit_len own then Suc s else s) cb pb b peer (if t < flit_len peer then Suc t else t) u"
      using sync_once[OF Suc.prems(1) assms(2,3)] True by auto
    have "attach_credit (Suc n) st = attach_credit n u" using credit True u(1) by auto
    then show ?thesis using Suc.IH[OF u(2)] Suc.prems(2,3) by (simp del: attach_credit.simps split: if_splits)
  next
    case False
    then show ?thesis using Suc.prems credit by (intro exI[of _ st] exI[of _ s] exI[of _ t]) auto
  qed
qed auto

section \<open>Binding and opening\<close>

text \<open>An end that has just installed its profile.\<close>

definition installed :: "EndpointConfig \<Rightarrow> DlpNegotiatedProfile \<Rightarrow> GdpAddress \<Rightarrow> DlpManagedEndpoint \<Rightarrow> bool" where
  "installed c prof addr m \<longleftrightarrow> me_state m = CsCreditSync \<and> me_negotiated m = Some prof \<and> en_config (me_core m) = c \<and>
    en_link_local_address (me_core m) = addr \<and> me_dlp m = installed_dlp c (np_vc_mode prof) \<and> ec_rx_buffer_flits c \<noteq> 0"

lemma advertise_steps:
  assumes "en_peer_link_local e = Some peer" "grantable_data_credit (en_dlp e) = g" "g \<noteq> 0" "take_control_transaction e = (t, f)"
    "gctl_packet f (en_link_local_address f) peer (gctl_credit t g) None = Ok p" "queue_control_packet (en_dlp f) p = (Ok n, d)"
    "note_data_credit_granted d g = (Ok (), d')"
  shows "advertise_link_credit e True = (Ok (), f\<lparr>en_dlp := d'\<rparr>)"
  using assms by (simp add: advertise_link_credit_def send_gctl_from_def on_dlp_def)

lemma installed_bind:
  assumes "installed c prof addr m"
  shows "\<exists>m' own. bind_credit_peer m destination = (Ok (), m') \<and> 0 < flit_len own \<and>
    (\<forall>peer. 0 < flit_len peer \<longrightarrow> syncing c prof addr own 0 peer 0 m') \<and>
    (\<forall>c'. ec_gdp_wire c' = ec_gdp_wire c \<longrightarrow> context_of c' = context_of c \<longrightarrow> grant_frame c' destination own (ec_rx_buffer_flits c))"
proof -
  let ?g = "ec_rx_buffer_flits c"
  let ?e = "(me_core m)\<lparr>en_peer_link_local := Some destination, en_credit_request_pending := False,
      en_dlp := grant_control_tx_credit (me_dlp m) 32\<rparr>"
  let ?e' = "snd (take_control_transaction ?e)" and ?t = "fst (take_control_transaction ?e)"
  have m: "me_state m = CsCreditSync" "me_negotiated m = Some prof" "en_config (me_core m) = c" "en_link_local_address (me_core m) = addr"
      "me_dlp m = installed_dlp c (np_vc_mode prof)" "?g \<noteq> 0" using assms by (simp_all add: installed_def)
  have cfg: "en_config ?e' = c" using m(3) by (simp add: take_control_transaction_def)
  obtain p where p: "gctl_packet ?e' addr destination (gctl_credit ?t ?g) None = Ok p" "gdp_packet_wf p"
      "prefix_matches (pkt_header p) (context_of c)" "carries_grant p destination ?g" "size_class_bytes (size_class (pkt_header p)) \<le> 64"
    using grant_packet[OF cfg] by blast
  let ?own = "gdp_header_bytes (pkt_header p) (ec_gdp_wire c) @ pkt_payload p"
  have enc: "gdp_packet_encode p (ec_gdp_wire c) = Ok ?own" by (rule gdp_packet_encode_eq[OF p(2)])
  have dec: "gdp_packet_decode ?own (ec_gdp_wire c) (context_of c) = Ok p" by (rule gdp_packet_decode_eq[OF p(2,3)])
  have "header_len (pkt_header p) \<le> 20" by (simp add: header_len_def split: GdpAddresses.split)
  moreover have "length (pkt_payload p) = size_class_bytes (size_class (pkt_header p))" using p(2) by (simp add: gdp_packet_wf_def)
  ultimately have "length ?own \<le> 84" using p(5) unfolding length_append length_gdp_header_bytes by linarith
  then have len: "flit_len ?own \<le> 32" "0 < flit_len ?own" using segment_of_packet(2)[OF dec] by (simp_all add: flit_len_def)
  have own: "\<forall>c'. ec_gdp_wire c' = ec_gdp_wire c \<longrightarrow> context_of c' = context_of c \<longrightarrow> grant_frame c' destination ?own ?g"
    using m(6) len(1) dec p(4) by (auto simp: grant_frame_def)
  have z: "saturating_sub ?g 0 = ?g" "saturating_add 0 ?g = ?g" by (simp_all add: saturating_sub_def saturating_add_def)
  have take: "take_control_transaction ?e = (?t, ?e')" by simp
  have dlp: "en_dlp ?e' = (installed_dlp c (np_vc_mode prof))\<lparr>ep_control_tx_credit := 32\<rparr>" "en_link_local_address ?e' = addr"
    by (simp_all add: take_control_transaction_def m(4,5) grant_control_tx_credit_def installed_dlp_def saturating_add_def)
  let ?d = "(en_dlp ?e')\<lparr>ep_control_tx_queue := [\<lparr>tf_vcid = 0, tf_traffic = Control, tf_bytes = ?own, tf_flit_offset = 0\<rparr>]\<rparr>"
  have queue: "queue_control_packet (en_dlp ?e') p = (Ok (flit_len ?own), ?d)"
    using enc vc_mode_positive by (simp add: dlp queue_control_packet_def queue_packet_on_def installed_dlp_def vcid_control_def vcid_is_control_def)
  have "note_data_credit_granted ?d ?g = (Ok (), ?d\<lparr>ep_data_credit_outstanding := ?g\<rparr>)"
    by (simp add: note_data_credit_granted_def grantable_data_credit_def available_rx_flits_def dlp installed_dlp_def z)
  moreover have "grantable_data_credit (en_dlp ?e) = ?g"
    by (simp add: grantable_data_credit_def available_rx_flits_def m(5) grant_control_tx_credit_def installed_dlp_def z)
  ultimately have "advertise_link_credit ?e True = (Ok (), ?e'\<lparr>en_dlp := ?d\<lparr>ep_data_credit_outstanding := ?g\<rparr>\<rparr>)"
    using advertise_steps[OF _ _ m(6) take p(1)[folded dlp(2)] queue] by simp
  then have bind: "bind_credit_peer m destination = (Ok (), set_core m (?e'\<lparr>en_dlp := ?d\<lparr>ep_data_credit_outstanding := ?g\<rparr>\<rparr>))"
    using m(1) by (simp add: bind_credit_peer_def on_core_def bind_managed_link_peer_def dlp_reserved_control_window_flits_def)
  moreover have "\<forall>peer. 0 < flit_len peer \<longrightarrow> syncing c prof addr ?own 0 peer 0 (set_core m (?e'\<lparr>en_dlp := ?d\<lparr>ep_data_credit_outstanding := ?g\<rparr>\<rparr>))"
    using m(1,2) dlp(2) len(2) unfolding syncing_def set_core_def
    by (simp add: dlp(1) installed_dlp_def context_of_def partial_seg_def and_twice) (simp add: eval_nat_numeral)
  ultimately show ?thesis using own len(2) by blast
qed

lemma attach_credit_phase:
  assumes "installed ca pa a x" "installed cb pb b y" "np_peer_rx_buffer_flits pa = ec_rx_buffer_flits cb" "np_peer_rx_buffer_flits pb = ec_rx_buffer_flits ca"
    "ec_gdp_wire ca = ec_gdp_wire cb" "context_of ca = context_of cb"
  shows "\<exists>st x' y'. attach_bind (x, y) = (Ok (), st) \<and> sbind (attach_credit 512 st) (\<lambda>_ st. attach_finish st) = (Ok (), (x', y')) \<and>
    me_state x' = CsUp \<and> me_state y' = CsUp \<and> me_negotiated x' = Some pa \<and> me_negotiated y' = Some pb \<and>
    ep_vc_mode (me_dlp x') = np_vc_mode pa \<and> ep_vc_mode (me_dlp y') = np_vc_mode pb \<and>
    credit_of x' = ec_rx_buffer_flits cb \<and> credit_of y' = ec_rx_buffer_flits ca"
proof -
  obtain x1 own where x1: "bind_credit_peer x b = (Ok (), x1)" "0 < flit_len own" "\<And>peer. 0 < flit_len peer \<Longrightarrow> syncing ca pa a own 0 peer 0 x1"
      "grant_frame cb b own (ec_rx_buffer_flits ca)"
    using installed_bind[OF assms(1)] assms(5,6) by metis
  obtain y1 peer where y1: "bind_credit_peer y a = (Ok (), y1)" "0 < flit_len peer" "\<And>own. 0 < flit_len own \<Longrightarrow> syncing cb pb b peer 0 own 0 y1"
      "grant_frame ca a peer (ec_rx_buffer_flits cb)"
    using installed_bind[OF assms(2)] assms(5,6) by metis
  have bind: "attach_bind (x, y) = (Ok (), (x1, y1))"
    using assms(1,2) x1(1) y1(1) by (simp add: attach_bind_def installed_def run_if_def on_a_def on_b_def)
  have pair: "sync_pair ca pa a own 0 cb pb b peer 0 (x1, y1)" using x1(2,3) y1(2,3) by (simp add: sync_pair_def)
  have "flit_len own \<le> 512" "flit_len peer \<le> 512" using x1(4) y1(4) by (simp_all add: grant_frame_def)
  then obtain u v s t where u: "attach_credit 512 (x1, y1) = (Ok (), (u, v))" "flit_len own \<le> s" "flit_len peer \<le> t"
      "sync_pair ca pa a own s cb pb b peer t (u, v)"
    using sync_credit[OF pair, of 512] x1(4) y1(4) assms(3,4) by (auto simp del: attach_credit.simps)
  have c: "credit_of u = ec_rx_buffer_flits cb" "credit_of v = ec_rx_buffer_flits ca"
      "ec_rx_buffer_flits cb \<noteq> 0" "ec_rx_buffer_flits ca \<noteq> 0"
    using u(2-4) assms by (simp_all add: sync_pair_def syncing_def credit_of_def installed_def)
  have "attach_finish (u, v) = (Ok (), (u\<lparr>me_state := CsUp\<rparr>, v\<lparr>me_state := CsUp\<rparr>))"
    using u(4) c by (simp add: attach_finish_def sync_pair_def syncing_def run_if_def on_a_def on_b_def finish_credit_sync_def credit_of_def)
  then have "sbind (attach_credit 512 (x1, y1)) (\<lambda>_ st. attach_finish st) = (Ok (), (u\<lparr>me_state := CsUp\<rparr>, v\<lparr>me_state := CsUp\<rparr>))"
    using u(1) by (simp del: attach_credit.simps)
  then show ?thesis using bind u(4) c
    by (intro exI[of _ "(x1, y1)"] exI[of _ "u\<lparr>me_state := CsUp\<rparr>"] exI[of _ "v\<lparr>me_state := CsUp\<rparr>"])
      (simp add: sync_pair_def syncing_def credit_of_def del: attach_credit.simps)
qed

section \<open>Bring-up\<close>

definition managed_started :: "DlpManagedEndpoint \<Rightarrow> EndpointConfig \<Rightarrow> u32 \<Rightarrow> bool" where
  "managed_started m c burst \<longleftrightarrow> (\<exists>address. managed_new address c burst = Ok m) \<or> (\<exists>suffix. managed_unconfigured suffix c burst = Ok m)"

lemma started_form:
  assumes "managed_started m c burst"
  shows "\<exists>r. m = managed_build (with_link_down r) c burst \<and> en_config (re_inner r) = c \<and> managed_checks c burst = Ok ()"
  using assms
  by (auto simp: managed_started_def managed_new_def managed_unconfigured_def result_simps routed_new_def routed_unconfigured_def
      endpoint_new_def endpoint_unconfigured_def endpoint_config_validate_def endpoint_build_def Let_def split: if_splits)

lemma bringup_control:
  assumes "managed_checks ca ba = Ok ()" "managed_checks cb bb = Ok ()" "en_config (re_inner ra) = ca" "en_config (re_inner rb) = cb"
    "mode = common_mode (ec_vc_mode ca) (ec_vc_mode cb)"
    "pa = \<lparr>np_vc_mode = mode, np_burst_flits = min ba bb, np_peer_rx_buffer_flits = ec_rx_buffer_flits cb, np_peer_control_window_flits = 32\<rparr>"
    "pb = \<lparr>np_vc_mode = mode, np_burst_flits = min ba bb, np_peer_rx_buffer_flits = ec_rx_buffer_flits ca, np_peer_control_window_flits = 32\<rparr>"
  shows "\<exists>x y u v. attach_carrier (managed_build (with_link_down ra) ca ba, managed_build (with_link_down rb) cb bb) = (Ok (), (x, y)) \<and>
    \<not> both_ready_for_credit (x, y) \<and> attach_control 512 (x, y) = (Ok (), (u, v)) \<and>
    installed ca pa (en_link_local_address (re_inner ra)) u \<and> installed cb pb (en_link_local_address (re_inner rb)) v"
proof -
  let ?a = "managed_build (with_link_down ra) ca ba" and ?b = "managed_build (with_link_down rb) cb bb"
  let ?x = "restart_negotiation ?a False False" and ?y = "restart_negotiation ?b False False"
  obtain wa ua wb ub where u: "encode_parameter_units (ec_rx_buffer_flits ca) = Ok wa" "encode_parameter_units ba = Ok ua"
      "encode_parameter_units (ec_rx_buffer_flits cb) = Ok wb" "encode_parameter_units bb = Ok ub"
    using checks_units[OF assms(1)] checks_units[OF assms(2)] by blast
  then have m: "encode_parameter_units (min ba bb) = Ok (if ba \<le> bb then ua else ub)" by (simp add: min_def)
  have start: "attach_carrier (?a, ?b) = (Ok (), (?x, ?y))"
    by (simp add: attach_carrier_def run_if_def on_a_def on_b_def carrier_up_def) (simp add: managed_build_def)
  have wait: "\<not> both_ready_for_credit (?x, ?y)"
    by (simp add: both_ready_for_credit_def restart_negotiation_def queue_hello_initial_def push_control_def Let_def)
  have n: "Suc (Suc (Suc (Suc (Suc (Suc (Suc (Suc 504))))))) = 512" by simp
  obtain p q where r: "attach_control 512 (?x, ?y) = (Ok (), (p, q))" "me_state p = CsCreditSync" "me_state q = CsCreditSync"
      "me_negotiated p = Some pa" "me_negotiated q = Some pb"
      "me_core p = (link_detached (re_inner (with_link_down ra)))\<lparr>en_dlp := installed_dlp ca mode\<rparr>"
      "me_core q = (link_detached (re_inner (with_link_down rb)))\<lparr>en_dlp := installed_dlp cb mode\<rparr>"
    using control_rounds[OF u(1,3,2,4) m, of 504 "with_link_down ra" "with_link_down rb", unfolded n] unfolding assms(5-7) by blast
  moreover have "installed ca pa (en_link_local_address (re_inner ra)) p" "installed cb pb (en_link_local_address (re_inner rb)) q"
    using r(2-7) assms(3-7) units_roundtrip(3)[OF u(1)] units_roundtrip(3)[OF u(3)]
    by (simp_all add: installed_def link_detached_def with_link_down_def)
  ultimately show ?thesis using start wait by blast
qed

text \<open>C3. Attaching a cable brings the link up. Two endpoints fresh from their constructors, with any valid configurations that
  agree on the wire format and on the local context prefix, attached to a new cable: the attachment succeeds, both ends are
  up, both have negotiated the same virtual channel mode (four channels exactly if both support them) and run their data
  links in it, both record the same burst (the smaller of their maxima), and each holds as data credit exactly the receive
  window of the other. (Configurations that differ in the wire format pass the checks and the negotiation too, and fail when
  the first credit packet arrives: nothing negotiates the format.)\<close>

theorem link_bringup_agrees:
  assumes "managed_started a\<^sub>0 ca ba" "managed_started b\<^sub>0 cb bb"
    and "ec_gdp_wire ca = ec_gdp_wire cb" "ec_local_context_prefix ca = ec_local_context_prefix cb"
  shows "\<exists>cable a b. cable_attach (cable_new, (a\<^sub>0, b\<^sub>0)) = (Ok (), (cable, (a, b))) \<and> both_up (a, b) \<and>
    me_negotiated a = Some \<lparr>np_vc_mode = common_mode (ec_vc_mode ca) (ec_vc_mode cb), np_burst_flits = min ba bb,
      np_peer_rx_buffer_flits = ec_rx_buffer_flits cb, np_peer_control_window_flits = 32\<rparr> \<and>
    me_negotiated b = Some \<lparr>np_vc_mode = common_mode (ec_vc_mode ca) (ec_vc_mode cb), np_burst_flits = min ba bb,
      np_peer_rx_buffer_flits = ec_rx_buffer_flits ca, np_peer_control_window_flits = 32\<rparr> \<and>
    ep_vc_mode (en_dlp (me_core a)) = common_mode (ec_vc_mode ca) (ec_vc_mode cb) \<and>
    ep_vc_mode (en_dlp (me_core b)) = common_mode (ec_vc_mode ca) (ec_vc_mode cb) \<and>
    credit_of a = ec_rx_buffer_flits cb \<and> credit_of b = ec_rx_buffer_flits ca"
proof -
  let ?mode = "common_mode (ec_vc_mode ca) (ec_vc_mode cb)"
  let ?pa = "\<lparr>np_vc_mode = ?mode, np_burst_flits = min ba bb, np_peer_rx_buffer_flits = ec_rx_buffer_flits cb, np_peer_control_window_flits = 32\<rparr>"
  let ?pb = "\<lparr>np_vc_mode = ?mode, np_burst_flits = min ba bb, np_peer_rx_buffer_flits = ec_rx_buffer_flits ca, np_peer_control_window_flits = 32\<rparr>"
  obtain ra where a0: "a\<^sub>0 = managed_build (with_link_down ra) ca ba" "en_config (re_inner ra) = ca" "managed_checks ca ba = Ok ()"
    using started_form[OF assms(1)] by blast
  obtain rb where b0: "b\<^sub>0 = managed_build (with_link_down rb) cb bb" "en_config (re_inner rb) = cb" "managed_checks cb bb = Ok ()"
    using started_form[OF assms(2)] by blast
  obtain x y u v where c: "attach_carrier (a\<^sub>0, b\<^sub>0) = (Ok (), (x, y))" "\<not> both_ready_for_credit (x, y)" "attach_control 512 (x, y) = (Ok (), (u, v))"
      and i: "installed ca ?pa (en_link_local_address (re_inner ra)) u" "installed cb ?pb (en_link_local_address (re_inner rb)) v"
    using bringup_control[OF a0(3) b0(3) a0(2) b0(2) refl refl refl] unfolding a0(1) b0(1) by blast
  have "context_of ca = context_of cb" by (simp add: context_of_def assms(4))
  from attach_credit_phase[OF i _ _ assms(3) this] obtain st a b where
      up: "attach_bind (u, v) = (Ok (), st)" "sbind (attach_credit 512 st) (\<lambda>_ st. attach_finish st) = (Ok (), (a, b))"
      and ends: "me_state a = CsUp" "me_state b = CsUp" "me_negotiated a = Some ?pa" "me_negotiated b = Some ?pb"
        "ep_vc_mode (me_dlp a) = ?mode" "ep_vc_mode (me_dlp b) = ?mode" "credit_of a = ec_rx_buffer_flits cb" "credit_of b = ec_rx_buffer_flits ca"
    by auto
  have "both_ready_for_credit (u, v)" using i by (simp add: installed_def both_ready_for_credit_def)
  then have "cable_attach (cable_new, (a\<^sub>0, b\<^sub>0)) = (Ok (), (\<lparr>dcb_carrier = True, dcb_credit_bound = True\<rparr>, (a, b)))"
    using c up ends by (simp add: cable_attach_def cable_new_def in_cable_def both_up_def del: attach_control.simps attach_credit.simps)
  then show ?thesis using ends by (auto simp: both_up_def)
qed

theorem link_bringup_agrees_witness:
  "case (managed_new 0x10 (endpoint_config_new 64) 32, managed_unconfigured 7 ((endpoint_config_new 128)\<lparr>ec_vc_mode := VcFour\<rparr>) 16) of
     (Ok a\<^sub>0, Ok b\<^sub>0) \<Rightarrow> \<exists>cable a b. cable_attach (cable_new, (a\<^sub>0, b\<^sub>0)) = (Ok (), (cable, (a, b))) \<and> both_up (a, b) \<and>
       ep_vc_mode (en_dlp (me_core a)) = VcTwo \<and> credit_of a = 128 \<and> credit_of b = 64
   | _ \<Rightarrow> False"
proof -
  let ?ca = "endpoint_config_new 64" and ?cb = "(endpoint_config_new 128)\<lparr>ec_vc_mode := VcFour\<rparr>"
  have "\<exists>a\<^sub>0 b\<^sub>0. managed_new 0x10 ?ca 32 = Ok a\<^sub>0 \<and> managed_unconfigured 7 ?cb 16 = Ok b\<^sub>0"
    by (simp add: managed_new_def managed_unconfigured_def managed_checks_def validate_parameter_value_def encode_parameter_units_def
        dlp_control_parameter_unit_flits_def routed_new_def routed_unconfigured_def endpoint_new_def endpoint_unconfigured_def
        endpoint_config_validate_def endpoint_config_new_def make_link_local_def link_local_suffix_mask_def endpoint_build_def
        endpoint_dlp_config_def dlp_config_new_def dlp_new_def dlp_reserved_control_window_flits_def)
  then obtain a b where ab: "managed_new 0x10 ?ca 32 = Ok a" "managed_unconfigured 7 ?cb 16 = Ok b" by blast
  then have "managed_started a ?ca 32" "managed_started b ?cb 16" by (auto simp: managed_started_def)
  from link_bringup_agrees[OF this]
  have "\<exists>cable x y. cable_attach (cable_new, (a, b)) = (Ok (), (cable, (x, y))) \<and> both_up (x, y) \<and>
      ep_vc_mode (me_dlp x) = VcTwo \<and> credit_of x = 128 \<and> credit_of y = 64"
    by (fastforce simp: endpoint_config_new_def common_mode_def)
  then show ?thesis by (simp add: ab)
qed

end
