(* ===== verification/P4_Gdp.thy ===== *)
theory P4_Gdp
  imports Static_Switch
begin

text \<open>
  The P4 header backend of src/src/p4_gdp.rs, which \<open>GdpHeader::decode\<close> of src/src/wire/gdp.rs selects in some builds. The
  parser that the build generates from src/p4-common/gdp\_wire.p4 is the parameter \<open>parse\<close>; that it runs the P4 program on a
  complete header is the hypothesis \<open>runs_gdp_parser\<close>. The theorem shows that the P4 backend and the handwritten one decode
  the same headers with the same errors, so that the three builds are one decoder.
\<close>

section \<open>The P4 parser\<close>

text \<open>The fields as the adapters read them: numbers in network order, zero in a header that was not extracted.\<close>

record gdp_base_h =
  bh_version :: u8
  bh_packet_type :: u8
  bh_size_class :: u8
  bh_local_form :: u8
  bh_reserved :: u8
  bh_crc8 :: u8
  bh_hop :: u8

record gdp_headers =
  gh_base :: gdp_base_h
  gh_destination_hi :: u32
  gh_destination_lo :: u32
  gh_source_hi :: u32
  gh_source_lo :: u32
  gh_local_destination :: u16
  gh_local_source :: u16

definition word_at :: "bytes \<Rightarrow> nat \<Rightarrow> u32" where
  "word_at bs i = from_be (take 4 (drop i bs))"

definition parse_base :: "u32 \<Rightarrow> gdp_base_h" where
  "parse_base w = \<lparr>bh_version = ucast (drop_bit 30 w AND 3), bh_packet_type = ucast (drop_bit 26 w AND 0xf),
     bh_size_class = ucast (drop_bit 22 w AND 0xf), bh_local_form = ucast (drop_bit 21 w AND 1),
     bh_reserved = ucast (drop_bit 16 w AND 0x1f), bh_crc8 = ucast (drop_bit 8 w AND 0xff), bh_hop = ucast (w AND 0xff)\<rparr>"

definition gdp_p4_parse :: "bytes \<Rightarrow> gdp_headers option" where
  "gdp_p4_parse bs =
    (let base = parse_base (word_at bs 0);
         hdr = \<lparr>gh_base = base, gh_destination_hi = 0, gh_destination_lo = 0, gh_source_hi = 0, gh_source_lo = 0,
                gh_local_destination = 0, gh_local_source = 0\<rparr> in
     if bh_local_form base = 1
     then Some (hdr\<lparr>gh_local_destination := from_be (take 2 (drop 4 bs)), gh_local_source := from_be (take 2 (drop 6 bs))\<rparr>)
     else Some (hdr\<lparr>gh_destination_hi := word_at bs 4, gh_destination_lo := word_at bs 8, gh_source_hi := word_at bs 12,
                    gh_source_lo := word_at bs 16\<rparr>))"

definition local_form_of :: "bytes \<Rightarrow> bool" where
  "local_form_of bs \<longleftrightarrow> drop_bit 21 (word_at bs 0) AND 1 \<noteq> 0"

definition wire_header_len :: "bytes \<Rightarrow> nat" where
  "wire_header_len bs = (if local_form_of bs then 8 else 20)"

text \<open>The generated parser slices its input, so it is only defined on a complete header; there it runs the program.\<close>

definition runs_gdp_parser :: "(bytes \<Rightarrow> gdp_headers option) \<Rightarrow> bool" where
  "runs_gdp_parser parse \<longleftrightarrow> (\<forall>bs. 4 \<le> length bs \<and> wire_header_len bs \<le> length bs \<longrightarrow> parse bs = gdp_p4_parse bs)"

section \<open>The backend of the stack\<close>

datatype ParsedAddresses =
    PaGlobal u64 u64
  | PaLocal u16 u16

record ParsedGdp =
  pg_version :: u8
  pg_packet_type :: u8
  pg_size_class :: u8
  pg_local_form :: bool
  pg_reserved :: u8
  pg_crc8 :: u8
  pg_hop_limit :: u8
  pg_addresses :: ParsedAddresses

definition join32 :: "u32 \<Rightarrow> u32 \<Rightarrow> u64" where
  "join32 hi lo = push_bit 32 (ucast hi) OR ucast lo"

definition parsed_addresses :: "bool \<Rightarrow> gdp_headers \<Rightarrow> ParsedAddresses" where
  "parsed_addresses local_form hdr =
    (if local_form then PaLocal (gh_local_destination hdr) (gh_local_source hdr)
     else PaGlobal (join32 (gh_destination_hi hdr) (gh_destination_lo hdr)) (join32 (gh_source_hi hdr) (gh_source_lo hdr)))"

definition parsed_gdp :: "bool \<Rightarrow> gdp_headers \<Rightarrow> ParsedGdp" where
  "parsed_gdp local_form hdr =
    (let b = gh_base hdr in
     \<lparr>pg_version = bh_version b, pg_packet_type = bh_packet_type b, pg_size_class = bh_size_class b, pg_local_form = local_form,
      pg_reserved = bh_reserved b, pg_crc8 = bh_crc8 b, pg_hop_limit = (if local_form then bh_hop b AND 0x0f else bh_hop b),
      pg_addresses = parsed_addresses local_form hdr\<rparr>)"

definition p4_parse_header :: "(bytes \<Rightarrow> gdp_headers option) \<Rightarrow> bytes \<Rightarrow> ParsedGdp result" where
  "p4_parse_header parse bs =
    (if length bs < 4 then Err InvalidLength
     else let local_form = local_form_of bs in
     if length bs < wire_header_len bs then Err InvalidLength
     else case parse bs of
         None \<Rightarrow> Err InvalidField
       | Some hdr \<Rightarrow>
           if (bh_local_form (gh_base hdr) \<noteq> 0) \<noteq> local_form then Err InvalidAddressForm
           else Ok (parsed_gdp local_form hdr))"

definition header_of_parsed :: "ParsedGdp \<Rightarrow> SizeClass \<Rightarrow> u64 \<Rightarrow> GdpHeader" where
  "header_of_parsed p sc local_prefix =
    \<lparr>gdp_version = pg_version p, packet_type = gdp_type_from_wire (pg_packet_type p), size_class = sc, hop_limit = pg_hop_limit p,
     addresses = (case pg_addresses p of
         PaGlobal d s \<Rightarrow> AddrGlobal d s
       | PaLocal d s \<Rightarrow> AddrLocal d s (local_prefix AND NOT 0xffff))\<rparr>"

definition p4_decode_header :: "(bytes \<Rightarrow> gdp_headers option) \<Rightarrow> bytes \<Rightarrow> u64 \<Rightarrow> GdpHeader result" where
  "p4_decode_header parse bs local_prefix =
    rbind (p4_parse_header parse bs) (\<lambda>parsed.
    rbind (size_class_from_wire (pg_size_class parsed)) (\<lambda>sc.
    let header = header_of_parsed parsed sc local_prefix in
    rbind (gdp_crc8 header gdp_wire_config_default) (\<lambda>crc.
    if crc \<noteq> pg_crc8 parsed then Err InvalidCrc else Ok header)))"

definition parse_and_validate :: "(bytes \<Rightarrow> gdp_headers option) \<Rightarrow> bytes \<Rightarrow> ParsedGdp result" where
  "parse_and_validate parse bs =
    rbind (p4_parse_header parse bs) (\<lambda>parsed.
    rbind (size_class_from_wire (pg_size_class parsed)) (\<lambda>sc.
    if length bs \<noteq> (if pg_local_form parsed then 8 else 20) + size_class_bytes sc then Err InvalidLength
    else rbind (p4_decode_header parse bs 0) (\<lambda>header.
      if gdp_version header \<noteq> pg_version parsed then Err InvalidField else Ok parsed)))"

text \<open>\<open>GdpHeader::decode\<close> in the three builds: with the P4 backend, with both backends compared, and handwritten only
  (\<open>Gdp.decode_header\<close>).\<close>

definition decode_with_p4 :: "(bytes \<Rightarrow> gdp_headers option) \<Rightarrow> bytes \<Rightarrow> GdpWireConfig \<Rightarrow> u64 \<Rightarrow> GdpHeader result" where
  "decode_with_p4 parse bs cfg local_prefix =
    (if local_form_bit cfg then p4_decode_header parse bs local_prefix else decode_header bs cfg local_prefix)"

definition decode_compared :: "(bytes \<Rightarrow> gdp_headers option) \<Rightarrow> bytes \<Rightarrow> GdpWireConfig \<Rightarrow> u64 \<Rightarrow> GdpHeader result" where
  "decode_compared parse bs cfg local_prefix =
    (if local_form_bit cfg then
       (case (p4_decode_header parse bs local_prefix, decode_header bs cfg local_prefix) of
          (Ok a, Ok b) \<Rightarrow> if a = b then Ok a else Err InvalidField
        | (Err a, Err b) \<Rightarrow> if a = b then Err a else Err InvalidField
        | (Panic, _) \<Rightarrow> Panic
        | (_, Panic) \<Rightarrow> Panic
        | _ \<Rightarrow> Err InvalidField)
     else decode_header bs cfg local_prefix)"

section \<open>The two backends agree\<close>

lemma from_be_append: "from_be (xs @ ys) = push_bit (8 * length ys) (from_be xs) OR from_be ys"
  by (induction xs) (simp_all add: push_bit_or or.assoc distrib_left add.commute)

lemma ucast_from_be:
  "LENGTH('a) \<le> LENGTH('b) \<Longrightarrow> 8 * length bs \<le> LENGTH('a) \<Longrightarrow> ucast (from_be bs :: 'a::len word) = (from_be bs :: 'b::len word)"
  by (rule bit_word_eqI) (auto simp: bit_simps bit_from_be div8_less_iff)

lemma from_be_halves:
  "length bs = 8 \<Longrightarrow> from_be bs = join32 (from_be (take 4 bs)) (from_be (drop 4 bs))"
  using from_be_append[of "take 4 bs" "drop 4 bs", where 'a = 64] by (simp add: join32_def ucast_from_be)

lemma from_be_pair:
  assumes "length bs = 4"
  shows "ucast (drop_bit 16 (from_be bs :: u32)) = (from_be (take 2 bs) :: u16)" "ucast (from_be bs :: u32) = (from_be (drop 2 bs) :: u16)"
proof -
  have "(16 + n) div 8 = 2 + n div 8" "(16 + n) mod 8 = n mod 8" for n :: nat by (simp, presburger)
  moreover have "3 - n div 8 = Suc (Suc (Suc 0 - n div 8))" if "n < 16" for n :: nat using that div8_less_iff[of n 2] by simp
  ultimately show "ucast (drop_bit 16 (from_be bs :: u32)) = (from_be (take 2 bs) :: u16)"
    "ucast (from_be bs :: u32) = (from_be (drop 2 bs) :: u16)"
    using assms by (auto intro!: bit_word_eqI simp: bit_simps bit_from_be div8_less_iff)
qed

lemma form_bit_cases:
  fixes w :: u32
  shows "ucast (drop_bit 21 w AND 1) = (1 :: u8) \<longleftrightarrow> drop_bit 21 w AND 1 \<noteq> 0"
    "ucast (drop_bit 21 w AND 1) = (0 :: u8) \<longleftrightarrow> drop_bit 21 w AND 1 = 0"
proof -
  have "drop_bit 21 w AND 1 = of_bool (bit w 21)" by (rule bit_word_eqI) (auto simp: bit_simps)
  then show "ucast (drop_bit 21 w AND 1) = (1 :: u8) \<longleftrightarrow> drop_bit 21 w AND 1 \<noteq> 0"
    "ucast (drop_bit 21 w AND 1) = (0 :: u8) \<longleftrightarrow> drop_bit 21 w AND 1 = 0" by simp_all
qed

lemma hop_nibble: "ucast (w AND 0xff) AND 0x0f = (ucast (w AND 0x0f) :: u8)" for w :: u32
  by (rule bit_word_eqI) (auto simp: wire_simps bit_simps)

lemma p4_parse_header_eq:
  assumes "runs_gdp_parser parse" "4 \<le> length bs" "wire_header_len bs \<le> length bs"
  shows "p4_parse_header parse bs = Ok (parsed_gdp (local_form_of bs) (the (gdp_p4_parse bs)))"
proof -
  have "parse bs = gdp_p4_parse bs" using assms by (simp add: runs_gdp_parser_def)
  then show ?thesis using assms(2,3)
    by (simp add: p4_parse_header_def gdp_p4_parse_def parse_base_def Let_def form_bit_cases local_form_of_def)
qed

lemma p4_decode_header_eq:
  assumes "runs_gdp_parser parse"
  shows "p4_decode_header parse bs local_prefix = decode_header bs gdp_wire_config_default local_prefix"
proof (cases "4 \<le> length bs \<and> wire_header_len bs \<le> length bs")
  case True
  note lens = True[THEN conjunct1] True[THEN conjunct2]
  obtain sc where sc: "size_class_from_wire (ucast (drop_bit 22 (word_at bs 0) AND 0x0f)) = Ok sc" using size_class_from_wire_total by blast
  show ?thesis
  proof (cases "local_form_of bs")
    case loc: True
    then show ?thesis using lens sc from_be_pair[of "take 4 (drop 4 bs)"]
      by (simp add: p4_decode_header_def p4_parse_header_eq[OF assms] decode_header_def form_from_bit_def gdp_wire_config_default_def
          wire_header_len_def parsed_gdp_def gdp_p4_parse_def parse_base_def Let_def form_bit_cases gdp_crc8_eq header_of_parsed_def parsed_addresses_def
          local_form_of_def word_at_def hop_nibble take_drop)
  next
    case glo: False
    then show ?thesis using lens sc from_be_halves[of "take 8 (drop 4 bs)"] from_be_halves[of "take 8 (drop 12 bs)"]
      by (simp add: p4_decode_header_def p4_parse_header_eq[OF assms] decode_header_def form_from_bit_def gdp_wire_config_default_def
          wire_header_len_def parsed_gdp_def gdp_p4_parse_def parse_base_def Let_def form_bit_cases gdp_crc8_eq header_of_parsed_def parsed_addresses_def
          local_form_of_def word_at_def take_drop)
  qed
next
  case False
  obtain sc where "size_class_from_wire (ucast (drop_bit 22 (from_be (take 4 bs) :: u32) AND 0x0f)) = Ok sc" using size_class_from_wire_total by blast
  then show ?thesis using False
    by (auto simp: p4_decode_header_def p4_parse_header_def decode_header_def form_from_bit_def gdp_wire_config_default_def
        wire_header_len_def local_form_of_def word_at_def Let_def split: if_splits)
qed

text \<open>C19. The builds of the header decoder are one decoder: on every input, truncated and corrupt ones included, and for
  every wire configuration and link prefix, the build with the generated P4 parser and the build that runs both parsers and
  compares them return what the handwritten decoder returns, the same header or the same error; the comparison never fires.\<close>

theorem p4_header_backends_agree:
  assumes "runs_gdp_parser parse"
  shows "decode_with_p4 parse bs cfg local_prefix = decode_header bs cfg local_prefix \<and>
    decode_compared parse bs cfg local_prefix = decode_header bs cfg local_prefix"
proof -
  have "cfg = gdp_wire_config_default" if "local_form_bit cfg" using that by (cases cfg) (simp add: gdp_wire_config_default_def)
  then show ?thesis using p4_decode_header_eq[OF assms] decode_header_no_panic[of bs gdp_wire_config_default local_prefix]
    by (cases "local_form_bit cfg"; cases "decode_header bs gdp_wire_config_default local_prefix")
      (simp_all add: decode_with_p4_def decode_compared_def)
qed

theorem p4_header_backends_agree_witness:
  "runs_gdp_parser gdp_p4_parse \<and>
   decode_with_p4 gdp_p4_parse [0x08, 0x60, 0x54, 0x15, 1, 2, 3, 4] gdp_wire_config_default 0xabcd0000 =
     decode_header [0x08, 0x60, 0x54, 0x15, 1, 2, 3, 4] gdp_wire_config_default 0xabcd0000 \<and>
   decode_compared gdp_p4_parse [0x08, 0x60, 0x54] gdp_wire_config_default 0 = Err InvalidLength"
proof -
  have r: "runs_gdp_parser gdp_p4_parse" by (simp add: runs_gdp_parser_def)
  have "decode_header [0x08, 0x60, 0x54] gdp_wire_config_default 0 = Err InvalidLength" by (simp add: decode_header_def)
  then show ?thesis using r p4_header_backends_agree[OF r] by simp
qed

end
