(* ===== verification/P4_Plane.thy ===== *)
theory P4_Plane
  imports P4_Gdp
begin

text \<open>
  The stand-alone P4 forwarding plane of src/p4-gdp/src/lib.rs: a checked parser with its own checksum and size table, and a
  pipeline of exact-match routes. The generated parser is a parameter as in \<open>P4_Gdp\<close>; the generated pipeline is an argument as
  for the router, and src/p4-gdp/p4/gdp.p4 gives the hypothesis \<open>runs_gdp_p4\<close> on it.
\<close>

section \<open>The checked parser\<close>

datatype P4GdpError =
    PgTruncated
  | PgInvalidLength nat nat
  | PgParserRejected
  | PgInvalidCrc u8 u8

definition pg_crc8_update_bit :: "u8 \<Rightarrow> bool \<Rightarrow> u8" where
  "pg_crc8_update_bit crc b =
    (let top = crc AND 0x80 \<noteq> 0; crc = push_bit 1 crc in if top \<noteq> b then crc XOR 0x07 else crc)"

definition pg_crc8_update_bits :: "u8 \<Rightarrow> u64 \<Rightarrow> nat \<Rightarrow> u8" where
  "pg_crc8_update_bits crc v bits = foldl (\<lambda>crc i. pg_crc8_update_bit crc (drop_bit i v AND 1 \<noteq> 0)) crc (rev [0..<bits])"

definition pg_size_class_bytes :: "u8 \<Rightarrow> nat" where
  "pg_size_class_bytes sc =
    [0, 3, 32, 64, 128, 192, 256, 384, 512, 768, 1024, 1280, 1500, 2048, 4096, 8192] ! unat (sc AND 0x0f)"

definition pg_header_len :: "ParsedGdp \<Rightarrow> nat" where
  "pg_header_len p = (if pg_local_form p then 8 else 20)"

definition pg_payload_len :: "ParsedGdp \<Rightarrow> nat" where
  "pg_payload_len p = pg_size_class_bytes (pg_size_class p)"

definition pg_packet_len :: "ParsedGdp \<Rightarrow> nat" where
  "pg_packet_len p = pg_header_len p + pg_payload_len p"

definition recomputed_crc8 :: "ParsedGdp \<Rightarrow> u8" where
  "recomputed_crc8 p =
    (let crc = pg_crc8_update_bits 0 (ucast (pg_version p)) 2;
         crc = pg_crc8_update_bits crc (ucast (pg_packet_type p)) 4;
         crc = pg_crc8_update_bits crc (ucast (pg_size_class p)) 4;
         crc = pg_crc8_update_bit crc (pg_local_form p)
     in case pg_addresses p of
         PaGlobal d s \<Rightarrow> pg_crc8_update_bits (pg_crc8_update_bits crc d 64) s 64
       | PaLocal d s \<Rightarrow> pg_crc8_update_bits (pg_crc8_update_bits crc (ucast d) 16) (ucast s) 16)"

definition crc_is_valid :: "ParsedGdp \<Rightarrow> bool" where
  "crc_is_valid p \<longleftrightarrow> recomputed_crc8 p = pg_crc8 p"

definition parse_gdp :: "(bytes \<Rightarrow> gdp_headers option) \<Rightarrow> bytes \<Rightarrow> P4GdpError + ParsedGdp" where
  "parse_gdp parse bs =
    (if length bs < 4 then Inl PgTruncated
     else let local_form = local_form_of bs in
     if length bs < wire_header_len bs then Inl PgTruncated
     else case parse bs of
         None \<Rightarrow> Inl PgParserRejected
       | Some hdr \<Rightarrow>
           let parsed = parsed_gdp local_form hdr; expected = pg_packet_len parsed in
           if length bs \<noteq> expected then Inl (PgInvalidLength expected (length bs)) else Inr parsed)"

definition validate_gdp :: "(bytes \<Rightarrow> gdp_headers option) \<Rightarrow> bytes \<Rightarrow> P4GdpError + ParsedGdp" where
  "validate_gdp parse bs = (case parse_gdp parse bs of
      Inl e \<Rightarrow> Inl e
    | Inr parsed \<Rightarrow>
        let expected = recomputed_crc8 parsed in
        if pg_crc8 parsed \<noteq> expected then Inl (PgInvalidCrc expected (pg_crc8 parsed)) else Inr parsed)"

section \<open>The forwarding plane\<close>

datatype RouteDisposition = RdForward | RdLocal | RdDrop

primrec rd_action_name :: "RouteDisposition \<Rightarrow> string" where
  "rd_action_name RdForward = ''forward''"
| "rd_action_name RdLocal = ''deliver_local''"
| "rd_action_name RdDrop = ''drop''"

primrec rd_parameter_data :: "RouteDisposition \<Rightarrow> u16 \<Rightarrow> bytes" where
  "rd_parameter_data RdForward port = to_le 2 port"
| "rd_parameter_data RdLocal port = to_le 2 port"
| "rd_parameter_data RdDrop port = []"

record GdpOutput =
  go_port :: u16
  go_bytes :: bytes

definition add_global_route :: "'p p4_ops \<Rightarrow> 'p \<Rightarrow> u64 \<Rightarrow> u16 \<Rightarrow> RouteDisposition \<Rightarrow> 'p" where
  "add_global_route ops pl destination port disp =
    p4_add ops pl ''ingress.global_routes'' (rd_action_name disp)
      (to_le 4 (ucast (drop_bit 32 destination) :: u32) @ to_le 4 (ucast destination :: u32)) (rd_parameter_data disp port)"

definition add_local_route :: "'p p4_ops \<Rightarrow> 'p \<Rightarrow> u16 \<Rightarrow> u16 \<Rightarrow> RouteDisposition \<Rightarrow> 'p" where
  "add_local_route ops pl destination port disp =
    p4_add ops pl ''ingress.local_routes'' (rd_action_name disp) (to_le 2 destination) (rd_parameter_data disp port)"

definition gdp_process :: "(bytes \<Rightarrow> gdp_headers option) \<Rightarrow> 'p p4_ops \<Rightarrow> 'p \<Rightarrow> u16 \<Rightarrow> bytes \<Rightarrow> (P4GdpError + GdpOutput list) \<times> 'p" where
  "gdp_process parse ops pl ingress bs = (case validate_gdp parse bs of
      Inl e \<Rightarrow> (Inl e, pl)
    | Inr _ \<Rightarrow> (case p4_process ops pl ingress bs of (outs, pl) \<Rightarrow>
        (Inr (map (\<lambda>(bs, port). \<lparr>go_port = port, go_bytes = bs\<rparr>) outs), pl)))"

section \<open>The P4 program\<close>

definition gdp_action :: "string \<Rightarrow> bytes \<Rightarrow> egress_metadata \<Rightarrow> egress_metadata" where
  "gdp_action name params eg =
    (if name = ''drop'' then eg\<lparr>eg_drop := True\<rparr>
     else if name = ''deliver_local'' then eg\<lparr>eg_port := from_le params, eg_transit := False\<rparr>
     else if name = ''forward'' then eg\<lparr>eg_port := from_le params, eg_transit := True\<rparr>
     else eg)"

definition route_match :: "bytes \<Rightarrow> p4_entry \<Rightarrow> bool" where
  "route_match bs e \<longleftrightarrow>
    (if is_local_form bs then te_table e = ''ingress.local_routes'' \<and> te_key e = to_le 2 (from_be (take 2 (drop 4 bs)) :: u16)
     else te_table e = ''ingress.global_routes'' \<and> te_key e = to_le 4 (word_at bs 4) @ to_le 4 (word_at bs 8))"

definition gdp_ingress :: "p4_entry list \<Rightarrow> bytes \<Rightarrow> egress_metadata" where
  "gdp_ingress es bs =
    (let eg = \<lparr>eg_port = 0, eg_drop = False, eg_transit = False, eg_decided = False\<rparr> in
     case List.find (route_match bs) es of
       Some e \<Rightarrow> gdp_action (te_action e) (te_params e) eg
     | None \<Rightarrow> gdp_action ''drop'' [] eg)"

definition gdp_p4 :: "p4_entry list \<Rightarrow> bytes \<Rightarrow> (bytes \<times> u16) list" where
  "gdp_p4 es bs =
    (let eg = gdp_ingress es bs; hop = bs ! 3 in
     if eg_drop eg \<or> eg_transit eg \<and> (hop = 0 \<or> hop = 1) then []
     else [(if eg_transit eg then bs[3 := hop - 1] else bs, eg_port eg)])"

text \<open>The hypothesis on the generated pipeline: where the routes that a packet matches agree, it processes a complete packet
  as the P4 program does, and leaves the tables as they are.\<close>

definition runs_gdp_p4 :: "'p p4_ops \<Rightarrow> bool" where
  "runs_gdp_p4 ops \<longleftrightarrow> (\<forall>radix es ingress bs. 4 \<le> length bs \<and> wire_header_len bs \<le> length bs \<and> agreeing (route_match bs) es \<longrightarrow>
     p4_process ops (p4_fill ops (p4_new ops radix) es) ingress bs = (gdp_p4 es bs, p4_fill ops (p4_new ops radix) es))"

definition list_gdp :: "p4_entry list p4_ops" where
  "list_gdp = list_pipeline\<lparr>p4_process := \<lambda>es ingress bs. (gdp_p4 es bs, es)\<rparr>"

lemma list_gdp_runs: "runs_gdp_p4 list_gdp"
proof -
  have "p4_fill list_gdp es es' = es @ es'" for es es'
    by (induction es' arbitrary: es) (simp_all add: p4_fill_def list_gdp_def list_pipeline_def)
  then show ?thesis unfolding runs_gdp_p4_def by (simp add: list_gdp_def list_pipeline_def)
qed

section \<open>The checked parser accepts the packets of the stack\<close>

lemma pg_crc8_bit: "crc8_update_bit \<lparr>crc8_value = v\<rparr> b = \<lparr>crc8_value = pg_crc8_update_bit v b\<rparr>"
  by (simp add: crc8_update_bit_def pg_crc8_update_bit_def Let_def)

lemma pg_crc8_bits: "n \<le> 64 \<Longrightarrow> crc8_update_bits \<lparr>crc8_value = v\<rparr> x n = Ok \<lparr>crc8_value = pg_crc8_update_bits v x n\<rparr>"
proof -
  have "foldl (\<lambda>c i. crc8_update_bit c (drop_bit i x AND 1 \<noteq> 0)) \<lparr>crc8_value = v\<rparr> is =
      \<lparr>crc8_value = foldl (\<lambda>c i. pg_crc8_update_bit c (drop_bit i x AND 1 \<noteq> 0)) v is\<rparr>" for "is"
    by (induction "is" arbitrary: v) (simp_all add: pg_crc8_bit)
  then show "n \<le> 64 \<Longrightarrow> ?thesis" by (simp add: crc8_update_bits_def pg_crc8_update_bits_def)
qed

text \<open>What the parser delivers: the fields fit their widths and the addresses have the announced form.\<close>

definition parsed_ok :: "ParsedGdp \<Rightarrow> bool" where
  "parsed_ok p \<longleftrightarrow> pg_version p AND 3 = pg_version p \<and> pg_packet_type p AND 0x0f = pg_packet_type p \<and>
    pg_size_class p AND 0x0f = pg_size_class p \<and> (pg_local_form p \<longleftrightarrow> (\<exists>d s. pg_addresses p = PaLocal d s))"

lemma parsed_gdp_ok: "parsed_ok (parsed_gdp (local_form_of bs) (the (gdp_p4_parse bs)))"
proof -
  have "ucast (x AND 3) AND 3 = (ucast (x AND 3) :: u8)" "ucast (x AND 0x0f) AND 0x0f = (ucast (x AND 0x0f) :: u8)" for x :: u32
    by (rule bit_word_eqI, auto simp: wire_simps bit_simps)+
  then show ?thesis by (simp add: parsed_ok_def parsed_gdp_def parsed_addresses_def gdp_p4_parse_def parse_base_def Let_def)
qed

lemma type_wire_id: "gdp_type_to_wire (gdp_type_from_wire v) = v AND 0x0f"
  by (simp add: gdp_type_from_wire_def Let_def and.assoc)

lemma size_class_agrees:
  assumes "size_class_from_wire v = Ok sc" "v AND 0x0f = v"
  shows "of_nat (size_class_index sc) = (ucast v :: u64)" "size_class_bytes sc = pg_size_class_bytes v"
  using size_class_wire_index[OF assms(1)] assms(2) by (simp_all add: size_class_bytes_def pg_size_class_bytes_def)

lemma recomputed_crc8_eq:
  assumes "parsed_ok p" "size_class_from_wire (pg_size_class p) = Ok sc"
  shows "gdp_crc8 (header_of_parsed p sc local_prefix) gdp_wire_config_default = Ok (recomputed_crc8 p)"
  using assms size_class_agrees[OF assms(2)]
  by (cases "pg_addresses p")
    (simp_all add: gdp_crc8_def parsed_ok_def header_of_parsed_def crc8_new_def pg_crc8_bits pg_crc8_bit type_wire_id
      recomputed_crc8_def crc8_finalize_def gdp_wire_config_default_def Let_def)

lemma decode_packet_cases:
  assumes "runs_gdp_parser parse"
  defines "p \<equiv> \<lambda>bs. parsed_gdp (local_form_of bs) (the (gdp_p4_parse bs))"
  shows "gdp_packet_decode bs gdp_wire_config_default local_prefix =
    (if length bs < 4 \<or> length bs < wire_header_len bs then Err InvalidLength
     else if recomputed_crc8 (p bs) \<noteq> pg_crc8 (p bs) then Err InvalidCrc
     else if length bs \<noteq> pg_packet_len (p bs) then Err InvalidLength
     else Ok \<lparr>pkt_header = header_of_parsed (p bs) (size_class_all ! unat (pg_size_class (p bs))) local_prefix,
              pkt_payload = drop (pg_header_len (p bs)) bs\<rparr>)"
proof (cases "length bs < 4 \<or> length bs < wire_header_len bs")
  case True
  then show ?thesis unfolding gdp_packet_decode_def p4_decode_header_eq[OF assms(1), symmetric]
    by (auto simp: p4_decode_header_def p4_parse_header_def Let_def)
next
  case False
  then have lens: "4 \<le> length bs" "wire_header_len bs \<le> length bs" by auto
  obtain sc where sc: "size_class_from_wire (pg_size_class (p bs)) = Ok sc" using size_class_from_wire_total by blast
  have ok: "parsed_ok (p bs)" unfolding p_def by (rule parsed_gdp_ok)
  have p: "parsed_gdp (local_form_of bs) (the (gdp_p4_parse bs)) = p bs" by (simp add: p_def)
  have i: "sc = size_class_all ! unat (pg_size_class (p bs))" using sc ok
    by (auto simp: size_class_from_wire_def parsed_ok_def Let_def result_simps split: if_splits)
  have len: "header_len (header_of_parsed (p bs) sc local_prefix) = pg_header_len (p bs)" using ok
    by (auto simp: header_len_def header_of_parsed_def pg_header_len_def parsed_ok_def split: ParsedAddresses.splits)
  have "decode_header bs gdp_wire_config_default local_prefix =
      (if recomputed_crc8 (p bs) \<noteq> pg_crc8 (p bs) then Err InvalidCrc else Ok (header_of_parsed (p bs) sc local_prefix))"
    unfolding p4_decode_header_eq[OF assms(1), symmetric] p4_decode_header_def p4_parse_header_eq[OF assms(1) lens]
    by (simp add: p sc recomputed_crc8_eq[OF ok sc])
  moreover have "size_class_bytes sc = pg_payload_len (p bs)" using size_class_agrees(2)[OF sc] ok by (simp add: pg_payload_len_def parsed_ok_def)
  moreover have "size_class (header_of_parsed (p bs) sc local_prefix) = sc" by (simp add: header_of_parsed_def)
  ultimately show ?thesis using lens len by (simp add: gdp_packet_decode_def i pg_packet_len_def Let_def slice_def)
qed

lemma validate_gdp_cases:
  assumes "runs_gdp_parser parse"
  defines "p \<equiv> \<lambda>bs. parsed_gdp (local_form_of bs) (the (gdp_p4_parse bs))"
  shows "validate_gdp parse bs =
    (if length bs < 4 \<or> length bs < wire_header_len bs then Inl PgTruncated
     else if length bs \<noteq> pg_packet_len (p bs) then Inl (PgInvalidLength (pg_packet_len (p bs)) (length bs))
     else if pg_crc8 (p bs) \<noteq> recomputed_crc8 (p bs) then Inl (PgInvalidCrc (recomputed_crc8 (p bs)) (pg_crc8 (p bs)))
     else Inr (p bs))"
proof -
  have "\<exists>h. gdp_p4_parse bs = Some h" by (simp add: gdp_p4_parse_def Let_def)
  then show ?thesis using assms(1)
    by (auto simp: validate_gdp_def parse_gdp_def p_def runs_gdp_parser_def Let_def)
qed

text \<open>The stand-alone P4 plane accepts exactly the packets of the stack: its checked parser, with its own checksum and size
  table, returns the fields of a packet if and only if the packet decoder of the stack returns one, for whatever link
  prefix, and then the decoded header has those fields; everything else is an error of each. The P4 validator of the stack
  accepts the same packets.\<close>

theorem p4_validation_agrees:
  assumes "runs_gdp_parser parse"
  shows "case gdp_packet_decode bs gdp_wire_config_default local_prefix of
      Ok pk \<Rightarrow> (\<exists>p. validate_gdp parse bs = Inr p \<and> parse_and_validate parse bs = Ok p \<and>
        pkt_header pk = header_of_parsed p (size_class (pkt_header pk)) local_prefix \<and> length bs = pg_packet_len p)
    | Err _ \<Rightarrow> (\<exists>e. validate_gdp parse bs = Inl e) \<and> (\<exists>e. parse_and_validate parse bs = Err e)
    | Panic \<Rightarrow> False"
proof -
  let ?p = "parsed_gdp (local_form_of bs) (the (gdp_p4_parse bs))"
  obtain sc where sc: "size_class_from_wire (pg_size_class ?p) = Ok sc" using size_class_from_wire_total by blast
  have ok: "parsed_ok ?p" by (rule parsed_gdp_ok)
  have pv: "parse_and_validate parse bs =
      (if length bs < 4 \<or> length bs < wire_header_len bs \<or> length bs \<noteq> pg_packet_len ?p then Err InvalidLength
       else if recomputed_crc8 ?p \<noteq> pg_crc8 ?p then Err InvalidCrc else Ok ?p)"
  proof (cases "length bs < 4 \<or> length bs < wire_header_len bs")
    case False
    then have "p4_parse_header parse bs = Ok ?p" using p4_parse_header_eq[OF assms] by simp
    moreover have "size_class_bytes sc = pg_payload_len ?p" using size_class_agrees(2)[OF sc] ok by (simp add: pg_payload_len_def parsed_ok_def)
    ultimately show ?thesis using False recomputed_crc8_eq[OF ok sc]
      by (simp add: parse_and_validate_def p4_decode_header_def sc Let_def pg_packet_len_def pg_header_len_def header_of_parsed_def)
  qed (auto simp: parse_and_validate_def p4_parse_header_def Let_def)
  show ?thesis unfolding decode_packet_cases[OF assms] validate_gdp_cases[OF assms] pv by (simp add: header_of_parsed_def)
qed

definition sample_local :: GdpPacket where
  "sample_local = \<lparr>pkt_header = \<lparr>gdp_version = 0, packet_type = Gts, size_class = Tiny3, hop_limit = 9,
     addresses = AddrLocal 0x102 0x304 0xabcd0000\<rparr>, pkt_payload = [1, 2, 3]\<rparr>"

definition sample_bytes :: "GdpPacket \<Rightarrow> bytes" where
  "sample_bytes pk = gdp_header_bytes (pkt_header pk) gdp_wire_config_default @ pkt_payload pk"

lemma sample_local_decodes: "gdp_packet_decode (sample_bytes sample_local) gdp_wire_config_default 0xabcd1234 = Ok sample_local"
  unfolding sample_bytes_def
  by (rule gdp_packet_decode_eq) (simp_all add: sample_local_def gdp_packet_wf_def gdp_header_wf_def size_class_bytes_def prefix_matches_def)

lemma parse_runs: "runs_gdp_parser gdp_p4_parse"
  by (simp add: runs_gdp_parser_def)

theorem p4_validation_agrees_witness:
  "runs_gdp_parser gdp_p4_parse \<and> (\<exists>p. validate_gdp gdp_p4_parse (sample_bytes sample_local) = Inr p \<and>
     pkt_header sample_local = header_of_parsed p Tiny3 0xabcd1234)"
  using parse_runs p4_validation_agrees[OF parse_runs, where bs = "sample_bytes sample_local" and local_prefix = "0xabcd1234"]
  unfolding sample_local_decodes by (auto simp: sample_local_def)

section \<open>Exact-match forwarding\<close>

text \<open>The plane after a sequence of route commands, and what the routes say about a destination.\<close>

datatype gdp_route = GlobalRoute u64 u16 RouteDisposition | LocalRoute u16 u16 RouteDisposition

primrec add_route :: "'p p4_ops \<Rightarrow> 'p \<Rightarrow> gdp_route \<Rightarrow> 'p" where
  "add_route ops pl (GlobalRoute d port disp) = add_global_route ops pl d port disp"
| "add_route ops pl (LocalRoute d port disp) = add_local_route ops pl d port disp"

definition plane_of :: "'p p4_ops \<Rightarrow> u16 \<Rightarrow> gdp_route list \<Rightarrow> 'p" where
  "plane_of ops radix routes = foldl (add_route ops) (p4_new ops radix) routes"

fun leads :: "GdpAddresses \<Rightarrow> gdp_route \<Rightarrow> bool" where
  "leads (AddrGlobal d s) (GlobalRoute d' port disp) = (d = d')"
| "leads (AddrLocal d s p) (LocalRoute d' port disp) = (d = d')"
| "leads _ _ = False"

primrec route_target :: "gdp_route \<Rightarrow> u16 \<times> RouteDisposition" where
  "route_target (GlobalRoute d port disp) = (port, disp)"
| "route_target (LocalRoute d port disp) = (port, disp)"

definition route_for :: "gdp_route list \<Rightarrow> GdpAddresses \<Rightarrow> (u16 \<times> RouteDisposition) option" where
  "route_for routes a = map_option route_target (List.find (leads a) routes)"

definition consistent :: "gdp_route list \<Rightarrow> bool" where
  "consistent routes \<longleftrightarrow> (\<forall>a. \<forall>r\<in>set routes. \<forall>r'\<in>set routes. leads a r \<and> leads a r' \<longrightarrow> r = r')"

primrec route_entry :: "gdp_route \<Rightarrow> p4_entry" where
  "route_entry (GlobalRoute d port disp) = \<lparr>te_table = ''ingress.global_routes'', te_action = rd_action_name disp,
     te_key = to_le 4 (hi32 d) @ to_le 4 (lo32 d), te_params = rd_parameter_data disp port\<rparr>"
| "route_entry (LocalRoute d port disp) = \<lparr>te_table = ''ingress.local_routes'', te_action = rd_action_name disp,
     te_key = to_le 2 d, te_params = rd_parameter_data disp port\<rparr>"

lemma plane_of_fill: "plane_of ops radix routes = p4_fill ops (p4_new ops radix) (map route_entry routes)"
proof -
  have "add_route ops pl r = p4_fill ops pl [route_entry r]" for pl r
    by (cases r) (simp_all add: add_global_route_def add_local_route_def p4_fill_def hi32_def lo32_def)
  then have "foldl (add_route ops) pl routes = p4_fill ops pl (map route_entry routes)" for pl
    by (induction routes arbitrary: pl) (simp_all add: p4_fill_def)
  then show ?thesis by (simp add: plane_of_def)
qed

text \<open>Rewriting the hop byte changes the hop limit of the packet and nothing else.\<close>

lemma word_with_hop:
  assumes "4 \<le> length bs"
  shows "word_at (bs[3 := n]) 0 = (word_at bs 0 AND NOT (mask 8)) OR ucast n"
proof (rule bit_word_eqI)
  fix k assume k: "k < LENGTH(32)"
  then have d: "k div 8 < 4" by simp
  show "bit (word_at (bs[3 := n]) 0) k = bit ((word_at bs 0 AND NOT (mask 8)) OR ucast n) k"
  proof (cases "k < 8")
    case True
    then show ?thesis using assms by (simp add: word_at_def bit_from_be bit_simps)
  next
    case False
    then have "3 - k div 8 \<noteq> 3" "\<not> bit n k" using d bit_imp_le_length[of n k] by auto
    then show ?thesis using assms k d False by (simp add: word_at_def bit_from_be bit_simps)
  qed
qed

lemma base_with_hop:
  fixes w :: u32
  shows "parse_base ((w AND NOT (mask 8)) OR ucast (n :: u8)) = (parse_base w)\<lparr>bh_hop := n\<rparr>"
proof -
  let ?w = "(w AND NOT (mask 8)) OR ucast n"
  have b: "bit ?w k \<longleftrightarrow> (if k < 8 then bit n k else bit w k)" for k
    using bit_imp_le_length[of n k] bit_imp_le_length[of w k] by (auto simp: bit_simps)
  have "drop_bit (8 + i) ?w = drop_bit (8 + i) w" for i by (rule bit_eqI) (simp only: bit_drop_bit_eq b o_apply, simp)
  from this[of 22] this[of 18] this[of 14] this[of 13] this[of 8] this[of 0]
  have d: "drop_bit 30 ?w = drop_bit 30 w" "drop_bit 26 ?w = drop_bit 26 w" "drop_bit 22 ?w = drop_bit 22 w"
    "drop_bit 21 ?w = drop_bit 21 w" "drop_bit 16 ?w = drop_bit 16 w" "drop_bit 8 ?w = drop_bit 8 w" by simp_all
  moreover have "ucast (?w AND 0xff) = n" by (rule bit_word_eqI) (simp add: wire_simps bit_simps)
  ultimately show ?thesis by (simp add: parse_base_def)
qed

lemma parsed_with_hop:
  assumes "4 \<le> length bs"
  shows "parsed_gdp (local_form_of (bs[3 := n])) (the (gdp_p4_parse (bs[3 := n]))) =
    (parsed_gdp (local_form_of bs) (the (gdp_p4_parse bs)))\<lparr>pg_hop_limit := if local_form_of bs then n AND 0x0f else n\<rparr>"
    and "local_form_of (bs[3 := n]) = local_form_of bs"
proof -
  have w: "word_at (bs[3 := n]) i = word_at bs i" if "4 \<le> i" for i using that by (simp add: word_at_def)
  show l: "local_form_of (bs[3 := n]) = local_form_of bs"
    using base_with_hop[of "word_at bs 0" n] form_bit_cases[of "word_at bs 0"] form_bit_cases[of "word_at (bs[3 := n]) 0"]
    by (simp add: local_form_of_def word_with_hop[OF assms] parse_base_def)
  show "parsed_gdp (local_form_of (bs[3 := n])) (the (gdp_p4_parse (bs[3 := n]))) =
    (parsed_gdp (local_form_of bs) (the (gdp_p4_parse bs)))\<lparr>pg_hop_limit := if local_form_of bs then n AND 0x0f else n\<rparr>"
    unfolding l by (simp add: gdp_p4_parse_def word_with_hop[OF assms] base_with_hop parsed_gdp_def parsed_addresses_def w Let_def)
qed

lemma hop_not_covered:
  "recomputed_crc8 (p\<lparr>pg_hop_limit := n\<rparr>) = recomputed_crc8 p" "pg_packet_len (p\<lparr>pg_hop_limit := n\<rparr>) = pg_packet_len p"
  "pg_header_len (p\<lparr>pg_hop_limit := n\<rparr>) = pg_header_len p"
  "header_of_parsed (p\<lparr>pg_hop_limit := n\<rparr>) sc pre = (header_of_parsed p sc pre)\<lparr>hop_limit := n\<rparr>"
  by (simp_all add: recomputed_crc8_def pg_packet_len_def pg_header_len_def pg_payload_len_def header_of_parsed_def)

lemma packet_with_hop:
  assumes "gdp_packet_decode bs gdp_wire_config_default local_prefix = Ok pk"
  shows "gdp_packet_decode (bs[3 := n]) gdp_wire_config_default local_prefix =
    Ok (with_hop pk (if local_form_of bs then n AND 0x0f else n))"
proof -
  have len: "4 \<le> length bs" using assms unfolding decode_packet_cases[OF parse_runs] by (auto split: if_splits)
  obtain p where p: "p = parsed_gdp (local_form_of bs) (the (gdp_p4_parse bs))" by blast
  have "3 < pg_header_len p" by (simp add: pg_header_len_def)
  then have "drop (pg_header_len p) (bs[3 := n]) = drop (pg_header_len p) bs" by simp
  moreover have "wire_header_len (bs[3 := n]) = wire_header_len bs" by (simp add: wire_header_len_def parsed_with_hop(2)[OF len])
  ultimately show ?thesis using assms
    unfolding decode_packet_cases[OF parse_runs] parsed_with_hop(1)[OF len] p[symmetric] hop_not_covered
    by (simp add: with_hop_def split: if_splits) auto
qed

text \<open>What an accepted packet shows to the tables.\<close>

lemma packet_tables:
  assumes "gdp_packet_decode bs gdp_wire_config_default local_prefix = Ok pk"
  shows "4 \<le> length bs" "wire_header_len bs \<le> length bs"
    "is_local_form bs \<longleftrightarrow> local_form_of bs"
    "case addresses (pkt_header pk) of
        AddrGlobal d s \<Rightarrow> \<not> local_form_of bs \<and> word_at bs 4 = hi32 d \<and> word_at bs 8 = lo32 d
      | AddrLocal d s p \<Rightarrow> local_form_of bs \<and> from_be (take 2 (drop 4 bs)) = d"
    "hop_limit (pkt_header pk) = (if local_form_of bs then bs ! 3 AND 0x0f else bs ! 3)"
proof -
  obtain p where p: "p = parsed_gdp (local_form_of bs) (the (gdp_p4_parse bs))" by blast
  show "4 \<le> length bs" "wire_header_len bs \<le> length bs"
    using assms unfolding decode_packet_cases[OF parse_runs] by (auto split: if_splits)
  have "pk = with_hop pk (if local_form_of bs then bs ! 3 AND 0x0f else bs ! 3)"
    using packet_with_hop[OF assms, of "bs ! 3"] assms by simp
  then have "hop_limit (pkt_header pk) = hop_limit (pkt_header (with_hop pk (if local_form_of bs then bs ! 3 AND 0x0f else bs ! 3)))"
    by (rule arg_cong)
  then show "hop_limit (pkt_header pk) = (if local_form_of bs then bs ! 3 AND 0x0f else bs ! 3)" by (simp add: with_hop_def)
  have b: "drop_bit 21 w AND 1 \<noteq> 0 \<longleftrightarrow> bit w 21" for w :: u32 by (simp add: bit_iff_odd_drop_bit and_one_eq odd_iff_mod_2_eq_one)
  show "is_local_form bs \<longleftrightarrow> local_form_of bs" unfolding local_form_of_def is_local_form_def word_at_def b by simp
  have "\<not> bit y (32 + n)" for y :: u32 and n using bit_imp_le_length[of y "32 + n"] by auto
  then have hi: "hi32 (join32 x y) = x" "lo32 (join32 x y) = y" for x y
    by (auto intro!: bit_word_eqI simp: hi32_def lo32_def join32_def bit_simps)
  have "\<exists>sc. pkt_header pk = header_of_parsed p sc local_prefix"
    using assms unfolding decode_packet_cases[OF parse_runs] p[symmetric] by (auto split: if_splits)
  then show "case addresses (pkt_header pk) of
        AddrGlobal d s \<Rightarrow> \<not> local_form_of bs \<and> word_at bs 4 = hi32 d \<and> word_at bs 8 = lo32 d
      | AddrLocal d s p \<Rightarrow> local_form_of bs \<and> from_be (take 2 (drop 4 bs)) = d"
    by (auto simp: header_of_parsed_def p parsed_gdp_def parsed_addresses_def gdp_p4_parse_def parse_base_def form_bit_cases local_form_of_def hi Let_def)
qed

lemma plane_process:
  assumes "runs_gdp_parser parse" "runs_gdp_p4 ops" "consistent routes"
    and pk: "gdp_packet_decode bs gdp_wire_config_default local_prefix = Ok pk"
  shows "gdp_process parse ops (plane_of ops radix routes) ingress bs =
    (Inr (case route_for routes (addresses (pkt_header pk)) of
        None \<Rightarrow> []
      | Some (port, RdDrop) \<Rightarrow> []
      | Some (port, RdLocal) \<Rightarrow> [\<lparr>go_port = port, go_bytes = bs\<rparr>]
      | Some (port, RdForward) \<Rightarrow> if bs ! 3 \<le> 1 then [] else [\<lparr>go_port = port, go_bytes = bs[3 := bs ! 3 - 1]\<rparr>]),
     plane_of ops radix routes)"
proof -
  note t = packet_tables[OF pk]
  let ?a = "addresses (pkt_header pk)"
  have m: "route_match bs (route_entry r) \<longleftrightarrow> leads ?a r" for r
    using t(3,4) hi_lo_inject by (cases ?a; cases r) (auto simp: route_match_def le_inject)
  have agree: "agreeing (route_match bs) (map route_entry routes)"
    unfolding agreeing_def using assms(3) m by (fastforce simp: consistent_def)
  have "List.find (route_match bs) (map route_entry routes) = map_option route_entry (List.find (leads ?a) routes)"
    using m by (induction routes) simp_all
  moreover have "te_action (route_entry r) = rd_action_name (snd (route_target r))"
    "te_params (route_entry r) = rd_parameter_data (snd (route_target r)) (fst (route_target r))" for r by (cases r; simp)+
  moreover have small: "x = 0 \<or> x = 1 \<longleftrightarrow> x \<le> 1" for x :: u8 by (auto simp: word_le_nat_alt word_unat_eq_iff)
  ultimately have "gdp_p4 (map route_entry routes) bs = (case route_for routes ?a of
        None \<Rightarrow> [] | Some (port, RdDrop) \<Rightarrow> [] | Some (port, RdLocal) \<Rightarrow> [(bs, port)]
      | Some (port, RdForward) \<Rightarrow> if bs ! 3 \<le> 1 then [] else [(bs[3 := bs ! 3 - 1], port)])"
    by (auto simp: gdp_p4_def gdp_ingress_def route_for_def gdp_action_def Let_def split: option.splits RouteDisposition.splits prod.splits)
  moreover have "\<exists>p. validate_gdp parse bs = Inr p" using pk
    unfolding decode_packet_cases[OF assms(1)] validate_gdp_cases[OF assms(1)] by (auto split: if_splits)
  ultimately show ?thesis using assms(2) t(1,2) agree
    by (auto simp: gdp_process_def plane_of_fill runs_gdp_p4_def split: option.splits RouteDisposition.splits)
qed

definition hop_down :: "GdpPacket \<Rightarrow> GdpPacket" where
  "hop_down pk = with_hop pk (hop_limit (pkt_header pk) - 1)"

text \<open>C20. Exact-match forwarding: with routes that do not contradict each other, the plane treats a valid packet with global
  addresses as its destination's route says. Without a route it is dropped, as for a drop route; a local route delivers it
  unchanged; a forwarding route emits, on the port of the route, a packet that the stack decodes to the same packet with the
  hop limit one lower, and nothing when the hop limit is used up. The tables stay as they are, and a packet that the stack
  rejects never reaches them.\<close>

theorem p4_plane_forwards_exactly:
  assumes "runs_gdp_parser parse" "runs_gdp_p4 ops" "consistent routes"
  shows "case gdp_packet_decode bs gdp_wire_config_default local_prefix of
      Ok pk \<Rightarrow> gdp_form (addresses (pkt_header pk)) = FormGlobal \<longrightarrow>
        (\<exists>outs. gdp_process parse ops (plane_of ops radix routes) ingress bs = (Inr outs, plane_of ops radix routes) \<and>
          map (\<lambda>out. (go_port out, gdp_packet_decode (go_bytes out) gdp_wire_config_default local_prefix)) outs =
          (case route_for routes (addresses (pkt_header pk)) of
             Some (port, RdLocal) \<Rightarrow> [(port, Ok pk)]
           | Some (port, RdForward) \<Rightarrow> if hop_limit (pkt_header pk) \<le> 1 then [] else [(port, Ok (hop_down pk))]
           | _ \<Rightarrow> []))
    | _ \<Rightarrow> \<exists>e. gdp_process parse ops (plane_of ops radix routes) ingress bs = (Inl e, plane_of ops radix routes)"
proof (cases "gdp_packet_decode bs gdp_wire_config_default local_prefix")
  case (Ok pk)
  have "gdp_packet_decode (bs[3 := bs ! 3 - 1]) gdp_wire_config_default local_prefix = Ok (hop_down pk) \<and> hop_limit (pkt_header pk) = bs ! 3"
    if "gdp_form (addresses (pkt_header pk)) = FormGlobal"
    using that packet_tables(4,5)[OF Ok] packet_with_hop[OF Ok, of "bs ! 3 - 1"] by (auto simp: hop_down_def split: GdpAddresses.splits)
  then show ?thesis unfolding plane_process[OF assms Ok]
    by (auto simp: Ok split: option.splits RouteDisposition.splits)
next
  case (Err e)
  then have "\<exists>e. validate_gdp parse bs = Inl e"
    unfolding decode_packet_cases[OF assms(1)] validate_gdp_cases[OF assms(1)] by (auto split: if_splits)
  then show ?thesis using Err by (auto simp: gdp_process_def)
next
  case Panic
  then show ?thesis unfolding decode_packet_cases[OF assms(1)] by (auto split: if_splits)
qed

definition sample_global :: GdpPacket where
  "sample_global = \<lparr>pkt_header = \<lparr>gdp_version = 0, packet_type = Gts, size_class = Tiny3, hop_limit = 9,
     addresses = AddrGlobal 0x1122334455667788 0x99\<rparr>, pkt_payload = [1, 2, 3]\<rparr>"

lemma sample_global_decodes: "gdp_packet_decode (sample_bytes sample_global) gdp_wire_config_default 0 = Ok sample_global"
  unfolding sample_bytes_def
  by (rule gdp_packet_decode_eq) (simp_all add: sample_global_def gdp_packet_wf_def gdp_header_wf_def size_class_bytes_def prefix_matches_def)

theorem p4_plane_forwards_exactly_witness:
  "runs_gdp_parser gdp_p4_parse \<and> runs_gdp_p4 list_gdp \<and> consistent [GlobalRoute 0x1122334455667788 4 RdForward] \<and>
   (\<exists>outs. gdp_process gdp_p4_parse list_gdp (plane_of list_gdp 8 [GlobalRoute 0x1122334455667788 4 RdForward]) 0 (sample_bytes sample_global) =
       (Inr outs, plane_of list_gdp 8 [GlobalRoute 0x1122334455667788 4 RdForward]) \<and>
     map (\<lambda>out. (go_port out, gdp_packet_decode (go_bytes out) gdp_wire_config_default 0)) outs = [(4, Ok (with_hop sample_global 8))])"
proof -
  have c: "consistent [GlobalRoute 0x1122334455667788 4 RdForward]" by (simp add: consistent_def)
  have "addresses (pkt_header sample_global) = AddrGlobal 0x1122334455667788 0x99" "hop_limit (pkt_header sample_global) = 9" "\<not> (9 :: u8) \<le> 1"
    by (simp_all add: sample_global_def word_le_nat_alt)
  then show ?thesis
    using p4_plane_forwards_exactly[OF parse_runs list_gdp_runs c, where bs = "sample_bytes sample_global" and local_prefix = 0 and radix = 8 and ingress = 0]
      parse_runs list_gdp_runs c
    by (simp add: sample_global_decodes route_for_def hop_down_def)
qed

lemma low_nibble_wraps:
  assumes "x AND 0x0f = 0" "x \<noteq> (0 :: u8)"
  shows "\<not> x \<le> 1" "(x - 1) AND 0x0f = 15"
proof -
  have m: "unat (y AND 0x0f) = unat y mod 16" for y :: u8
    using unsigned_take_bit_eq[of 4 y, where 'a = nat] by (simp add: wire_simps take_bit_eq_mod)
  have x: "unat x mod 16 = 0" "0 < unat x" using m[of x] assms by (simp_all add: unat_gt_0)
  then show "\<not> x \<le> 1" by (auto simp: word_le_nat_alt)
  have "unat (x - 1) = unat x - 1" using x(2) by (simp add: unat_minus_one assms(2))
  moreover have "(unat x - 1) mod 16 = 15"
  proof -
    obtain k where "unat x = 16 * k" using x(1) by (auto simp: mod_eq_0_iff_dvd)
    with x(2) obtain j where "unat x = 16 * Suc j" by (cases k) auto
    then have "unat x - 1 = 15 + 16 * j" by simp
    then show ?thesis by (simp only: mod_mult_self2) simp
  qed
  ultimately have "unat ((x - 1) AND 0x0f) = unat (15 :: u8)" using m[of "x - 1"] by simp
  then show "(x - 1) AND 0x0f = 15" by (simp only: word_unat_eq_iff)
qed

text \<open>C39. The hop limit of a local packet can grow: the program counts the hop byte down, the stack reads its low four bits.
  A valid local packet whose hop limit is 0 but whose hop byte is not is not dropped by a forwarding route: it leaves on the
  port of the route with hop limit 15.\<close>

theorem p4_plane_revives_local_hops:
  assumes "runs_gdp_parser parse" "runs_gdp_p4 ops" "consistent routes"
    and "gdp_packet_decode bs gdp_wire_config_default local_prefix = Ok pk"
    and "gdp_form (addresses (pkt_header pk)) = FormLocal" "hop_limit (pkt_header pk) = 0" "bs ! 3 \<noteq> 0"
    and "route_for routes (addresses (pkt_header pk)) = Some (port, RdForward)"
  shows "\<exists>out. gdp_process parse ops (plane_of ops radix routes) ingress bs = (Inr [out], plane_of ops radix routes) \<and>
    go_port out = port \<and> gdp_packet_decode (go_bytes out) gdp_wire_config_default local_prefix = Ok (with_hop pk 15)"
proof -
  have l: "local_form_of bs" "bs ! 3 AND 0x0f = 0"
    using packet_tables(4,5)[OF assms(4)] assms(5,6) by (auto split: GdpAddresses.splits)
  have "bs ! 3 \<noteq> 0" by fact
  note low_nibble_wraps[OF l(2) this]
  then show ?thesis using packet_with_hop[OF assms(4), of "bs ! 3 - 1"] l(1) assms(8)
    unfolding plane_process[OF assms(1-4)] by simp
qed

definition revived_bytes :: bytes where
  "revived_bytes = (sample_bytes sample_local)[3 := 0x10]"

theorem p4_plane_revives_local_hops_witness:
  "gdp_packet_decode revived_bytes gdp_wire_config_default 0xabcd1234 = Ok (with_hop sample_local 0) \<and>
   (\<exists>out. gdp_process gdp_p4_parse list_gdp (plane_of list_gdp 8 [LocalRoute 0x102 4 RdForward]) 0 revived_bytes =
       (Inr [out], plane_of list_gdp 8 [LocalRoute 0x102 4 RdForward]) \<and> go_port out = 4 \<and>
     gdp_packet_decode (go_bytes out) gdp_wire_config_default 0xabcd1234 = Ok (with_hop (with_hop sample_local 0) 15))"
proof -
  have c: "consistent [LocalRoute 0x102 4 RdForward]" by (simp add: consistent_def)
  have "local_form_of (sample_bytes sample_local)" using packet_tables(4)[OF sample_local_decodes] by (simp add: sample_local_def)
  then have d: "gdp_packet_decode revived_bytes gdp_wire_config_default 0xabcd1234 = Ok (with_hop sample_local 0)"
    using packet_with_hop[OF sample_local_decodes, of "0x10"] by (simp add: revived_bytes_def)
  have a: "addresses (pkt_header (with_hop sample_local 0)) = AddrLocal 0x102 0x304 0xabcd0000" by (simp add: sample_local_def with_hop_def)
  have "3 < length (sample_bytes sample_local)" by (simp add: sample_bytes_def length_gdp_header_bytes header_len_def sample_local_def)
  then have h: "revived_bytes ! 3 \<noteq> 0" by (simp add: revived_bytes_def)
  show ?thesis
    using d p4_plane_revives_local_hops[OF parse_runs list_gdp_runs c d _ _ h, where port = 4 and radix = 8 and ingress = 0]
    unfolding a by (simp add: with_hop_def route_for_def)
qed

end
