(* ===== verification/P4_Gts.thy ===== *)
theory P4_Gts
  imports Gts_Packet
begin

text \<open>
  The P4 backend of the GTS wire format, src/src/p4_gts.rs: a second implementation of the traits \<open>GtsLowerDecoder\<close> and
  \<open>GtsLowerEncoder\<close> over code that the build generates from src/p4-common/gts\_wire.p4, and the builds of
  \<open>GtsPacket::decode\<close> (src/src/wire/gts.rs) and \<open>encode_packet\<close> (src/src/wire/gts\_tx.rs) that select it or compare it with the
  handwritten one. The generated parser and the generated header structure are parameters; \<open>runs_gts_parser\<close> and
  \<open>runs_gts_headers\<close> state that they run the P4 program. The theorem shows that all builds encode and decode alike.
\<close>

section \<open>The P4 parser\<close>

text \<open>The fields as the adapter reads them, per header in the order of the program; a header that was not extracted is zero.\<close>

record gts_headers =
  gw_kind :: "u8 \<times> u8"
  gw_connect :: "u32 \<times> u32 \<times> u16 \<times> u8"
  gw_connect_ack :: "u32 \<times> u32 \<times> u32 \<times> u8 \<times> u8 \<times> u8"
  gw_stream_open :: "u32 \<times> u8 \<times> u16 \<times> u8 \<times> u8"
  gw_stream_ack :: "u32 \<times> u8 \<times> u8 \<times> u8 \<times> u8"
  gw_data :: "u32 \<times> u8 \<times> u32"
  gw_data_option :: u16
  gw_ack :: "u32 \<times> u8 \<times> u32 \<times> u32 \<times> u8 \<times> u8"
  gw_datagram :: "u32 \<times> u8"
  gw_datagram_options :: bytes
  gw_stream_close :: "u32 \<times> u8 \<times> u32"
  gw_tunnel_close :: u32
  gw_reset :: "u32 \<times> u32 \<times> u8"
  gw_stream_reset :: "u32 \<times> u8 \<times> u8 \<times> u8"

definition gts_headers_default :: gts_headers where
  "gts_headers_default = \<lparr>gw_kind = (0, 0), gw_connect = (0, 0, 0, 0), gw_connect_ack = (0, 0, 0, 0, 0, 0),
     gw_stream_open = (0, 0, 0, 0, 0), gw_stream_ack = (0, 0, 0, 0, 0), gw_data = (0, 0, 0), gw_data_option = 0,
     gw_ack = (0, 0, 0, 0, 0, 0), gw_datagram = (0, 0), gw_datagram_options = replicate 6 0, gw_stream_close = (0, 0, 0),
     gw_tunnel_close = 0, gw_reset = (0, 0, 0), gw_stream_reset = (0, 0, 0, 0)\<rparr>"

definition b32 :: "bytes \<Rightarrow> nat \<Rightarrow> u32" where
  "b32 bs i = from_be (take 4 (drop i bs))"

definition b16 :: "bytes \<Rightarrow> nat \<Rightarrow> u16" where
  "b16 bs i = from_be (take 2 (drop i bs))"

text \<open>The states of the parser, at the offset behind the first byte.\<close>

definition gts_p4_parse :: "bytes \<Rightarrow> gts_headers option" where
  "gts_p4_parse bs =
    (let k = bs ! 0; t = k AND 0x0f; hdr = gts_headers_default\<lparr>gw_kind := (drop_bit 4 k, t)\<rparr> in
     if drop_bit 4 k \<noteq> 0 then None
     else if t = 1 then Some (hdr\<lparr>gw_connect := (b32 bs 1, b32 bs 5, b16 bs 9, bs ! 11)\<rparr>)
     else if t = 2 then Some (hdr\<lparr>gw_connect_ack := (b32 bs 1, b32 bs 5, b32 bs 9, bs ! 13, bs ! 14, bs ! 15)\<rparr>)
     else if t = 3 then Some (hdr\<lparr>gw_stream_open := (b32 bs 1, bs ! 5, b16 bs 6, bs ! 8, bs ! 9)\<rparr>)
     else if t = 4 then Some (hdr\<lparr>gw_stream_ack := (b32 bs 1, bs ! 5, bs ! 6, bs ! 7, bs ! 8)\<rparr>)
     else if t = 5 \<or> t = 7 then Some (hdr\<lparr>gw_data := (b32 bs 1, bs ! 5, b32 bs 6), gw_data_option := b16 bs 10\<rparr>)
     else if t = 6 then Some (hdr\<lparr>gw_ack := (b32 bs 1, bs ! 5, b32 bs 6, b32 bs 10, bs ! 14, bs ! 15)\<rparr>)
     else if t = 8 \<or> t = 9 then Some (hdr\<lparr>gw_stream_close := (b32 bs 1, bs ! 5, b32 bs 6)\<rparr>)
     else if t = 10 \<or> t = 11 then Some (hdr\<lparr>gw_tunnel_close := b32 bs 1\<rparr>)
     else if t = 12 then Some (hdr\<lparr>gw_reset := (b32 bs 1, b32 bs 5, bs ! 9)\<rparr>)
     else if t = 13 then Some (hdr\<lparr>gw_datagram := (b32 bs 1, bs ! 5), gw_datagram_options := take 6 (drop 6 bs)\<rparr>)
     else if t = 14 \<or> t = 15 then Some (hdr\<lparr>gw_stream_reset := (b32 bs 1, bs ! 5, bs ! 6, bs ! 7)\<rparr>)
     else None)"

text \<open>The generated parser slices its input: it is only relied on where the headers of the packet type are complete.\<close>

definition runs_gts_parser :: "(bytes \<Rightarrow> gts_headers option) \<Rightarrow> bool" where
  "runs_gts_parser parse \<longleftrightarrow> (\<forall>bs ty n. bs \<noteq> [] \<and> gts_type_from_wire (bs ! 0 AND 0x0f) = Ok ty \<and> lower_prefix_len ty = Ok n \<and> n \<le> length bs
     \<longrightarrow> parse bs = gts_p4_parse bs)"

section \<open>The lower decoder\<close>

definition p4_lower_of :: "GtsType \<Rightarrow> gts_headers \<Rightarrow> GtsLowerPacket result" where
  "p4_lower_of ty hdr = (case ty of
      TyConnect \<Rightarrow> (case gw_connect hdr of (a, b, p, c) \<Rightarrow> Ok (LConnect a b p c))
    | TyConnectAck \<Rightarrow> (case gw_connect_ack hdr of (a, b, c, s, i, r) \<Rightarrow> Ok (LConnectAck a b c s i r))
    | TyStreamOpen \<Rightarrow> (case gw_stream_open hdr of (t, s, p, i, r) \<Rightarrow> Ok (LStreamOpen t s p i r))
    | TyStreamAck \<Rightarrow> (case gw_stream_ack hdr of (t, s, st, i, r) \<Rightarrow> Ok (LStreamAck t s st i r))
    | TyAck \<Rightarrow> (case gw_ack hdr of (t, s, b, m, c, r) \<Rightarrow> Ok (LAck t s b m c r))
    | TyDatagram \<Rightarrow> (case gw_datagram hdr of (t, s) \<Rightarrow> Ok (LDatagram t s (gw_datagram_options hdr)))
    | TyReset \<Rightarrow> (case gw_reset hdr of (t, i, r) \<Rightarrow> Ok (LReset t i r))
    | TyReserved \<Rightarrow> Err Unsupported
    | _ \<Rightarrow>
        if ty = TyData \<or> ty = TyDataEnd then (case gw_data hdr of (t, s, q) \<Rightarrow> Ok (LData t s q (ty = TyDataEnd) (gw_data_option hdr)))
        else if ty = TyStreamClose \<or> ty = TyStreamCloseAck
        then (case gw_stream_close hdr of (t, s, f) \<Rightarrow> Ok (LStreamClose t s f (ty = TyStreamCloseAck)))
        else if ty = TyTunnelClose \<or> ty = TyTunnelCloseAck then Ok (LTunnelClose (gw_tunnel_close hdr) (ty = TyTunnelCloseAck))
        else (case gw_stream_reset hdr of (t, s, e, r) \<Rightarrow> Ok (LStreamReset t s e r (ty = TyStreamResetAck))))"

definition p4_parse_lower :: "(bytes \<Rightarrow> gts_headers option) \<Rightarrow> bytes \<Rightarrow> GtsLowerPacket result" where
  "p4_parse_lower parse bs =
    (if length bs < 5 then Err InvalidLength
     else rbind (idx bs 0) (\<lambda>b0.
       if drop_bit 4 b0 \<noteq> 0 then Err Unsupported
       else rbind (gts_type_from_wire (b0 AND 0x0f)) (\<lambda>ty.
         rbind (lower_prefix_len ty) (\<lambda>prefix_len.
         if length bs < prefix_len + 4 then Err InvalidLength
         else case parse bs of
             None \<Rightarrow> Err Unsupported
           | Some hdr \<Rightarrow>
               if snd (gw_kind hdr) \<noteq> of_nat (gts_type_index ty) then Err InvalidField
               else p4_lower_of ty hdr))))"

section \<open>The lower encoder\<close>

datatype gts_header_id =
    HKind | HConnect | HConnectAck | HStreamOpen | HStreamAck | HData | HDataOption | HAck | HDatagram | HDatagramOptions
  | HStreamClose | HTunnelClose | HReset | HStreamReset

definition gts_header_order :: "gts_header_id list" where
  "gts_header_order = [HKind, HConnect, HConnectAck, HStreamOpen, HStreamAck, HData, HDataOption, HAck, HDatagram, HDatagramOptions,
     HStreamClose, HTunnelClose, HReset, HStreamReset]"

primrec gts_header_size :: "gts_header_id \<Rightarrow> nat" where
  "gts_header_size HKind = 1"
| "gts_header_size HConnect = 11"
| "gts_header_size HConnectAck = 15"
| "gts_header_size HStreamOpen = 9"
| "gts_header_size HStreamAck = 8"
| "gts_header_size HData = 9"
| "gts_header_size HDataOption = 2"
| "gts_header_size HAck = 15"
| "gts_header_size HDatagram = 5"
| "gts_header_size HDatagramOptions = 6"
| "gts_header_size HStreamClose = 9"
| "gts_header_size HTunnelClose = 4"
| "gts_header_size HReset = 9"
| "gts_header_size HStreamReset = 7"

text \<open>The generated header structure: its default, \<open>Header::set\<close> with \<open>set_valid\<close>, which fails on a slice of another size,
  and \<open>to_bitvec\<close>.\<close>

record 'h gts_header_ops =
  gh_default :: 'h
  gh_set :: "'h \<Rightarrow> gts_header_id \<Rightarrow> bytes \<Rightarrow> 'h option"
  gh_bytes :: "'h \<Rightarrow> bytes"

definition set_header :: "'h gts_header_ops \<Rightarrow> 'h \<Rightarrow> gts_header_id \<Rightarrow> bytes \<Rightarrow> 'h result" where
  "set_header ops hdr i b = ok_or (gh_set ops hdr i b) InvalidLength"

definition set_lower :: "'h gts_header_ops \<Rightarrow> 'h \<Rightarrow> GtsLowerPacket \<Rightarrow> 'h result" where
  "set_lower ops hdr lower = (case lower of
      LConnect a b p c \<Rightarrow> set_header ops hdr HConnect (to_be 4 a @ to_be 4 b @ to_be 2 p @ [c])
    | LConnectAck a b c s i r \<Rightarrow> set_header ops hdr HConnectAck (to_be 4 a @ to_be 4 b @ to_be 4 c @ [s, i, r])
    | LStreamOpen t s p i r \<Rightarrow> set_header ops hdr HStreamOpen (to_be 4 t @ [s] @ to_be 2 p @ [i, r])
    | LStreamAck t s st i r \<Rightarrow> set_header ops hdr HStreamAck (to_be 4 t @ [s, st, i, r])
    | LData t s q _ o' \<Rightarrow> rbind (set_header ops hdr HData (to_be 4 t @ [s] @ to_be 4 q)) (\<lambda>hdr. set_header ops hdr HDataOption (to_be 2 o'))
    | LAck t s b m c r \<Rightarrow> set_header ops hdr HAck (to_be 4 t @ [s] @ to_be 4 b @ to_be 4 m @ [c, r])
    | LDatagram t s o' \<Rightarrow> rbind (set_header ops hdr HDatagram (to_be 4 t @ [s])) (\<lambda>hdr. set_header ops hdr HDatagramOptions o')
    | LStreamClose t s f _ \<Rightarrow> set_header ops hdr HStreamClose (to_be 4 t @ [s] @ to_be 4 f)
    | LTunnelClose t _ \<Rightarrow> set_header ops hdr HTunnelClose (to_be 4 t)
    | LReset t i r \<Rightarrow> set_header ops hdr HReset (to_be 4 t @ to_be 4 i @ [r])
    | LStreamReset t s e r _ \<Rightarrow> set_header ops hdr HStreamReset (to_be 4 t @ [s, e, r]))"

definition p4_encode_lower :: "'h gts_header_ops \<Rightarrow> GtsLowerPacket \<Rightarrow> bytes result" where
  "p4_encode_lower ops lower =
    rbind (set_header ops (gh_default ops) HKind [of_nat (gts_type_index (lower_packet_type lower))]) (\<lambda>hdr.
    rbind (set_lower ops hdr lower) (\<lambda>hdr.
    let out = gh_bytes ops hdr in
    rbind (lower_prefix_len (lower_packet_type lower)) (\<lambda>n.
    if length out \<noteq> n then Err InvalidLength else Ok out)))"

text \<open>The hypothesis on the generated structure: setting succeeds on slices of the size of the header, and the serialisation
  of a default structure in which some headers were set, each once, is their bytes in the order of the structure.\<close>

fun set_all :: "'h gts_header_ops \<Rightarrow> 'h \<Rightarrow> (gts_header_id \<times> bytes) list \<Rightarrow> 'h option" where
  "set_all ops hdr [] = Some hdr"
| "set_all ops hdr ((i, b) # xs) = (case gh_set ops hdr i b of None \<Rightarrow> None | Some hdr \<Rightarrow> set_all ops hdr xs)"

definition emit :: "(gts_header_id \<times> bytes) list \<Rightarrow> bytes" where
  "emit xs = concat (map (\<lambda>i. case map_of xs i of None \<Rightarrow> [] | Some b \<Rightarrow> b) gts_header_order)"

definition runs_gts_headers :: "'h gts_header_ops \<Rightarrow> bool" where
  "runs_gts_headers ops \<longleftrightarrow> (\<forall>hdr i b. gh_set ops hdr i b = None \<longleftrightarrow> length b \<noteq> gts_header_size i) \<and>
    (\<forall>xs hdr. distinct (map fst xs) \<and> set_all ops (gh_default ops) xs = Some hdr \<longrightarrow> gh_bytes ops hdr = emit xs)"

definition list_headers :: "(gts_header_id \<times> bytes) list gts_header_ops" where
  "list_headers = \<lparr>gh_default = [], gh_set = (\<lambda>xs i b. if length b = gts_header_size i then Some (xs @ [(i, b)]) else None), gh_bytes = emit\<rparr>"

lemma list_headers_run: "runs_gts_headers list_headers"
proof -
  have a: "set_all list_headers ys xs = Some hdr \<Longrightarrow> hdr = ys @ xs" for xs ys hdr
    by (induction xs arbitrary: ys) (fastforce simp: list_headers_def split: if_splits)+
  have "gh_set list_headers hdr i b = None \<longleftrightarrow> length b \<noteq> gts_header_size i" for hdr i b by (simp add: list_headers_def)
  moreover have "gh_bytes list_headers hdr = emit xs" if "set_all list_headers (gh_default list_headers) xs = Some hdr" for xs hdr
    using a[OF that] by (simp add: list_headers_def)
  ultimately show ?thesis unfolding runs_gts_headers_def by blast
qed

section \<open>The builds\<close>

definition decode_p4_reference :: "(bytes \<Rightarrow> gts_headers option) \<Rightarrow> bytes \<Rightarrow> GtsContext \<Rightarrow> StreamProfile option \<Rightarrow> GtsPacket result" where
  "decode_p4_reference parse = decode_with (p4_parse_lower parse)"

definition gts_decode_compared :: "(bytes \<Rightarrow> gts_headers option) \<Rightarrow> bytes \<Rightarrow> GtsContext \<Rightarrow> StreamProfile option \<Rightarrow> GtsPacket result" where
  "gts_decode_compared parse buf ctx profile =
    (if length buf \<noteq> size_class_bytes (ctx_size_class ctx) \<or> length buf < 5 then Err InvalidLength
     else case parse_lower buf of
         Panic \<Rightarrow> Panic
       | handwritten \<Rightarrow> (case p4_parse_lower parse buf of
           Panic \<Rightarrow> Panic
         | p4 \<Rightarrow> if handwritten \<noteq> p4 then Err InvalidField else rbind p4 (finish_decode buf ctx profile)))"

definition encode_p4_reference :: "'h gts_header_ops \<Rightarrow> GtsPacket \<Rightarrow> GtsContext \<Rightarrow> StreamProfile option \<Rightarrow> bytes result" where
  "encode_p4_reference ops = encode_with (p4_encode_lower ops)"

definition gts_encode_compared :: "'h gts_header_ops \<Rightarrow> GtsPacket \<Rightarrow> GtsContext \<Rightarrow> StreamProfile option \<Rightarrow> bytes result" where
  "gts_encode_compared ops pk ctx profile = (case encode_with encode_lower pk ctx profile of
      Panic \<Rightarrow> Panic
    | handwritten \<Rightarrow> (case encode_with (p4_encode_lower ops) pk ctx profile of
        Panic \<Rightarrow> Panic
      | p4 \<Rightarrow> if handwritten \<noteq> p4 then Err InvalidField else p4))"

section \<open>The backends agree\<close>

lemma type_index_wire:
  assumes "gts_type_from_wire (v AND 0x0f) = Ok ty"
  shows "v AND 0x0f = of_nat (gts_type_index ty)"
proof -
  have "map gts_type_index gts_type_all = [0..<16]" by (simp add: gts_type_all_def upt_conv_Cons)
  then have i: "gts_type_index (gts_type_all ! i) = i" if "i < 16" for i
    using that by (metis add_0 length_map length_upt minus_nat.diff_0 nth_map nth_upt)
  have "unat (v AND 0x0f) < 16" using word_and_le1[of v "0x0f"] by (simp add: word_le_nat_alt)
  then have "gts_type_index ty = unat (v AND 0x0f)" using assms i by (auto simp: gts_type_from_wire_def idx_def and.assoc split: if_splits)
  then show ?thesis by simp
qed

lemma p4_lower_eq:
  assumes "drop_bit 4 (bs ! 0) = 0" "bs ! 0 AND 0x0f = of_nat (gts_type_index ty)" "lower_prefix_len ty = Ok n" "n \<le> length bs"
  shows "\<exists>hdr. gts_p4_parse bs = Some hdr \<and> snd (gw_kind hdr) = of_nat (gts_type_index ty) \<and> p4_lower_of ty hdr = parse_lower_body ty bs 1 n"
  using assms
  by (cases ty)
    (simp_all add: gts_p4_parse_def p4_lower_of_def parse_lower_body_def read_u32_def read_u16_def read_u8_def read_octets_eq b32_def b16_def idx_def Let_def)

lemma p4_parse_lower_eq:
  assumes "runs_gts_parser parse"
  shows "p4_parse_lower parse bs = parse_lower bs"
proof (cases "5 \<le> length bs \<and> drop_bit 4 (bs ! 0) = 0")
  case True
  obtain ty where ty: "gts_type_from_wire (bs ! 0 AND 0x0f) = Ok ty" using gts_type_from_wire_total by blast
  show ?thesis
  proof (cases "lower_prefix_len ty")
    case (Ok n)
    show ?thesis
    proof (cases "n + 4 \<le> length bs")
      case long: True
      then have "n \<le> length bs" "bs \<noteq> []" using True by auto
      then have "parse bs = gts_p4_parse bs" using assms ty Ok unfolding runs_gts_parser_def by blast
      then show ?thesis using p4_lower_eq[OF _ type_index_wire[OF ty] Ok] True ty Ok long
        by (auto simp: p4_parse_lower_def parse_lower_def idx_def)
    qed (use True ty Ok in \<open>auto simp: p4_parse_lower_def parse_lower_def idx_def\<close>)
  qed (use True ty in \<open>auto simp: p4_parse_lower_def parse_lower_def idx_def\<close>)
qed (auto simp: p4_parse_lower_def parse_lower_def idx_def)

text \<open>The headers that a lower packet sets behind the first.\<close>

definition lower_headers :: "GtsLowerPacket \<Rightarrow> (gts_header_id \<times> bytes) list" where
  "lower_headers l = (case l of
      LConnect a b p c \<Rightarrow> [(HConnect, concat (lower_chunks l))]
    | LConnectAck a b c s i r \<Rightarrow> [(HConnectAck, concat (lower_chunks l))]
    | LStreamOpen t s p i r \<Rightarrow> [(HStreamOpen, concat (lower_chunks l))]
    | LStreamAck t s st i r \<Rightarrow> [(HStreamAck, concat (lower_chunks l))]
    | LData t s q e o' \<Rightarrow> [(HData, to_be 4 t @ [s] @ to_be 4 q), (HDataOption, to_be 2 o')]
    | LAck t s b m c r \<Rightarrow> [(HAck, concat (lower_chunks l))]
    | LDatagram t s o' \<Rightarrow> [(HDatagram, to_be 4 t @ [s]), (HDatagramOptions, o')]
    | LStreamClose t s f a \<Rightarrow> [(HStreamClose, concat (lower_chunks l))]
    | LTunnelClose t a \<Rightarrow> [(HTunnelClose, concat (lower_chunks l))]
    | LReset t i r \<Rightarrow> [(HReset, concat (lower_chunks l))]
    | LStreamReset t s e r a \<Rightarrow> [(HStreamReset, concat (lower_chunks l))])"

lemma set_lower_eq: "set_lower ops hdr l = ok_or (set_all ops hdr (lower_headers l)) InvalidLength"
  by (cases l) (simp_all add: set_lower_def lower_headers_def set_header_def ok_or_def del: to_be.simps split: option.splits)

lemma set_all_total:
  assumes "runs_gts_headers ops"
  shows "list_all (\<lambda>(i, b). length b = gts_header_size i) xs \<Longrightarrow> \<exists>h. set_all ops hdr xs = Some h"
proof (induction xs arbitrary: hdr)
  case (Cons x xs)
  obtain i b where x: "x = (i, b)" by force
  then have "gh_set ops hdr i b \<noteq> None" using Cons.prems assms unfolding runs_gts_headers_def by simp
  then show ?case using Cons x by auto
qed simp

lemma lower_headers_ok:
  assumes "lower_wf l"
  shows "list_all (\<lambda>(i, b). length b = gts_header_size i) (lower_headers l)" "distinct (map fst ((HKind, k) # lower_headers l))"
    "emit ((HKind, k) # lower_headers l) = k @ concat (lower_chunks l)"
  using assms by (cases l; simp add: lower_headers_def lower_wf_def emit_def gts_header_order_def concat_map_singleton del: to_be.simps)+

lemma p4_encode_lower_eq:
  assumes "runs_gts_headers ops" "lower_wf l"
  shows "p4_encode_lower ops l = Ok (lower_bytes l)"
proof -
  let ?k = "[of_nat (gts_type_index (lower_packet_type l))]"
  let ?xs = "(HKind, ?k) # lower_headers l"
  have "list_all (\<lambda>(i, b). length b = gts_header_size i) ?xs" using lower_headers_ok(1)[OF assms(2)] by simp
  then obtain h where h: "set_all ops (gh_default ops) ?xs = Some h" using set_all_total[OF assms(1)] by blast
  then have "gh_bytes ops h = emit ?xs" using assms(1) lower_headers_ok(2)[OF assms(2)] unfolding runs_gts_headers_def by blast
  then have "gh_bytes ops h = lower_bytes l" using lower_headers_ok(3)[OF assms(2), of ?k] by (simp add: lower_bytes_def)
  then show ?thesis using h lower_bytes_length[OF assms(2)]
    by (auto simp: p4_encode_lower_def set_lower_eq set_header_def ok_or_def split: option.splits)
qed

interpretation p4_codec: gts_lower_codec "p4_encode_lower list_headers" "p4_parse_lower gts_p4_parse"
proof -
  have d: "p4_parse_lower gts_p4_parse = parse_lower" by (rule ext, rule p4_parse_lower_eq) (simp add: runs_gts_parser_def)
  have e: "p4_encode_lower list_headers l = encode_lower l" if "lower_wf l" for l
    using p4_encode_lower_eq[OF list_headers_run that] encode_lower_eq[OF that] by simp
  show "gts_lower_codec (p4_encode_lower list_headers) (p4_parse_lower gts_p4_parse)"
    unfolding d using handwritten.enc_dec handwritten.enc_data handwritten.enc_datagram handwritten.dec_safe handwritten.dec_fits e
    by unfold_locales (auto simp: lower_wf_def)
qed

lemma encode_p4_eq:
  assumes "runs_gts_headers ops"
  shows "encode_with (p4_encode_lower ops) pk ctx profile = encode_packet pk ctx profile"
proof (cases "prepare_encode pk ctx profile")
  case (Ok plan)
  then have "p4_encode_lower ops (plan_lower plan) = encode_lower (plan_lower plan)"
    using p4_encode_lower_eq[OF assms] encode_lower_eq handwritten.plan_lower_wf by simp
  then show ?thesis by (simp add: encode_with_def encode_packet_def finish_encode_def Ok)
qed (simp_all add: encode_with_def encode_packet_def)

text \<open>C8. The builds of the GTS codec are one codec: on every packet and on every input, whatever the context and profile, the
  build with the generated P4 backend and the build that runs both backends and compares them encode and decode as the
  handwritten build does, errors included; the comparison never fires.\<close>

theorem p4_gts_backends_agree:
  assumes "runs_gts_parser parse" "runs_gts_headers ops"
  shows "decode_p4_reference parse buf ctx profile = decode_packet buf ctx profile \<and>
    gts_decode_compared parse buf ctx profile = decode_packet buf ctx profile \<and>
    encode_p4_reference ops pk ctx profile = encode_packet pk ctx profile \<and>
    gts_encode_compared ops pk ctx profile = encode_packet pk ctx profile"
proof (intro conjI)
  have d: "p4_parse_lower parse = parse_lower" by (rule ext) (rule p4_parse_lower_eq[OF assms(1)])
  show "decode_p4_reference parse buf ctx profile = decode_packet buf ctx profile" by (simp add: decode_p4_reference_def decode_packet_def d)
  show "gts_decode_compared parse buf ctx profile = decode_packet buf ctx profile"
    using handwritten.dec_safe[of buf] by (cases "parse_lower buf") (simp_all add: gts_decode_compared_def decode_packet_def decode_with_def d)
  show "encode_p4_reference ops pk ctx profile = encode_packet pk ctx profile" by (simp add: encode_p4_reference_def encode_p4_eq[OF assms(2)])
  have "encode_with encode_lower pk ctx profile = encode_packet pk ctx profile" by (simp add: encode_packet_def)
  then show "gts_encode_compared ops pk ctx profile = encode_packet pk ctx profile"
    by (cases "encode_packet pk ctx profile") (simp_all add: gts_encode_compared_def encode_p4_eq[OF assms(2)])
qed

theorem p4_gts_backends_agree_witness:
  "runs_gts_parser gts_p4_parse \<and> runs_gts_headers list_headers \<and>
   gts_decode_compared gts_p4_parse (replicate 32 0) \<lparr>ctx_gdp_version = 0, ctx_size_class = Ctrl32, ctx_source = 1, ctx_destination = 2\<rparr> None = Err Unsupported"
proof -
  have r: "runs_gts_parser gts_p4_parse" by (simp add: runs_gts_parser_def)
  have "decode_packet (replicate 32 0) \<lparr>ctx_gdp_version = 0, ctx_size_class = Ctrl32, ctx_source = 1, ctx_destination = 2\<rparr> None = Err Unsupported"
    by (simp add: decode_packet_def decode_with_def parse_lower_def gts_type_from_wire_def gts_type_all_def size_class_bytes_def idx_def)
  then show ?thesis using r list_headers_run p4_gts_backends_agree[OF r list_headers_run] by simp
qed

end
