(* ===== verification/Trace.thy ===== *)
theory Trace
  imports Dlp
begin

text \<open>
  Observed devices: the device interfaces of src/src/qdx.rs and the wrapper of src/src/trace.rs. The traits have no
  implementation in the library: a frame device is a record of operations and a trace sink a function on its state, both
  arguments of the wrapper. The theorem shows that the wrapper observes and does not interfere.
\<close>

section \<open>Devices and sinks\<close>

record 'd frame_device =
  fd_transmit :: "'d \<Rightarrow> GnetFrame \<Rightarrow> ('d, unit) outcome"
  fd_receive :: "'d \<Rightarrow> ('d, GnetFrame option) outcome"

datatype TraceDirection = DirTransmit | DirReceive

record TraceEvent =
  te_direction :: TraceDirection
  te_vcid :: Vcid
  te_traffic :: LinkTraffic
  te_equivalent_flits :: nat
  te_bytes :: bytes

record ('d, 's) Tracer =
  tracer_inner :: 'd
  tracer_sink :: 's

definition tracer_event :: "TraceDirection \<Rightarrow> GnetFrame \<Rightarrow> TraceEvent" where
  "tracer_event dir frame = \<lparr>te_direction = dir, te_vcid = gf_vcid frame, te_traffic = gf_traffic frame,
     te_equivalent_flits = flit_len (gf_bytes frame), te_bytes = gf_bytes frame\<rparr>"

definition tracer_new :: "'d \<Rightarrow> 's \<Rightarrow> ('d, 's) Tracer" where
  "tracer_new inner sink = \<lparr>tracer_inner = inner, tracer_sink = sink\<rparr>"

definition tracer_transmit :: "'d frame_device \<Rightarrow> ('s \<Rightarrow> TraceEvent \<Rightarrow> 's) \<Rightarrow> ('d, 's) Tracer \<Rightarrow> GnetFrame \<Rightarrow> (('d, 's) Tracer, unit) outcome" where
  "tracer_transmit dev trace t frame =
    (let t = t\<lparr>tracer_sink := trace (tracer_sink t) (tracer_event DirTransmit frame)\<rparr> in
     case fd_transmit dev (tracer_inner t) frame of (res, d) \<Rightarrow> (res, t\<lparr>tracer_inner := d\<rparr>))"

definition tracer_receive :: "'d frame_device \<Rightarrow> ('s \<Rightarrow> TraceEvent \<Rightarrow> 's) \<Rightarrow> ('d, 's) Tracer \<Rightarrow> (('d, 's) Tracer, GnetFrame option) outcome" where
  "tracer_receive dev trace t =
    sbind (case fd_receive dev (tracer_inner t) of (res, d) \<Rightarrow> (res, t\<lparr>tracer_inner := d\<rparr>)) (\<lambda>frame t.
      (Ok frame, case frame of
          Some f \<Rightarrow> t\<lparr>tracer_sink := trace (tracer_sink t) (tracer_event DirReceive f)\<rparr>
        | None \<Rightarrow> t))"

definition traced :: "'d frame_device \<Rightarrow> ('s \<Rightarrow> TraceEvent \<Rightarrow> 's) \<Rightarrow> ('d, 's) Tracer frame_device" where
  "traced dev trace = \<lparr>fd_transmit = tracer_transmit dev trace, fd_receive = tracer_receive dev trace\<rparr>"

section \<open>Sequences of device calls\<close>

datatype device_call = CallTransmit GnetFrame | CallReceive

datatype device_reply = TransmitReply "unit result" | ReceiveReply "GnetFrame option result"

primrec device_do :: "'d frame_device \<Rightarrow> 'd \<Rightarrow> device_call \<Rightarrow> device_reply \<times> 'd" where
  "device_do dev d (CallTransmit f) = (case fd_transmit dev d f of (r, d) \<Rightarrow> (TransmitReply r, d))"
| "device_do dev d CallReceive = (case fd_receive dev d of (r, d) \<Rightarrow> (ReceiveReply r, d))"

fun device_run :: "'d frame_device \<Rightarrow> 'd \<Rightarrow> device_call list \<Rightarrow> device_reply list \<times> 'd" where
  "device_run dev d [] = ([], d)"
| "device_run dev d (c # cs) = (let (r, d) = device_do dev d c; (rs, d) = device_run dev d cs in (r # rs, d))"

text \<open>What a call with its reply shows: a frame offered for transmission, accepted or not, or a frame received.\<close>

fun observed :: "device_call \<Rightarrow> device_reply \<Rightarrow> TraceEvent list" where
  "observed (CallTransmit f) r = [tracer_event DirTransmit f]"
| "observed CallReceive (ReceiveReply (Ok (Some f))) = [tracer_event DirReceive f]"
| "observed CallReceive r = []"

lemma traced_step:
  assumes "device_do dev d c = (r, d')"
  shows "device_do (traced dev trace) \<lparr>tracer_inner = d, tracer_sink = s\<rparr> c =
    (r, \<lparr>tracer_inner = d', tracer_sink = foldl trace s (observed c r)\<rparr>)"
proof (cases c)
  case (CallTransmit f)
  then show ?thesis using assms by (auto simp: traced_def tracer_transmit_def split: prod.splits)
next
  case CallReceive
  then show ?thesis using assms
    by (auto simp: traced_def tracer_receive_def sbind_def split: prod.splits result.splits option.splits)
qed

text \<open>Tracing is transparent: for every device, sink and sequence of calls, a traced device gives the replies of the bare
  device and leaves it in the same state, and the sink has seen exactly the frames of those calls, each once and in their
  order.\<close>

theorem tracer_is_transparent:
  "device_run (traced dev trace) (tracer_new d s) calls =
    (let (replies, d') = device_run dev d calls in
     (replies, tracer_new d' (foldl trace s (concat (map2 observed calls replies)))))"
proof (induction calls arbitrary: d s)
  case (Cons c calls)
  obtain r d1 where "device_do dev d c = (r, d1)" by force
  then show ?case using Cons traced_step[of dev d c r d1 trace s] by (auto simp: tracer_new_def split: prod.splits)
qed (simp add: tracer_new_def)

end
