(* ===== verification/Runtime.thy ===== *)
theory Runtime
  imports Endpoint
begin

text \<open>
  Driving an endpoint from a scheduler: the typed-time methods and the asynchronous wrapper of src/src/runtime.rs. A waker is
  a value of an abstract type; \<open>will_wake\<close> is the test of the task library, an argument of the operations, and a wake-up is
  recorded in the field \<open>ae_woken\<close>. The theorems show that the deadline of \<open>poll_at\<close> misses nothing, that a registered
  task is woken by traffic, and what pruning does to an expired table.
\<close>

section \<open>Typed time\<close>

definition send_at :: "RoutedEndpoint \<Rightarrow> TunnelHandle \<Rightarrow> u8 \<Rightarrow> bytes \<Rightarrow> Instant \<Rightarrow> (RoutedEndpoint, unit) outcome" where
  "send_at e tunnel stream_id data now = on_inner e (\<lambda>i. endpoint_send i tunnel stream_id data (instant_millis now))"

definition send_end_at :: "RoutedEndpoint \<Rightarrow> TunnelHandle \<Rightarrow> u8 \<Rightarrow> bytes \<Rightarrow> Instant \<Rightarrow> (RoutedEndpoint, unit) outcome" where
  "send_end_at e tunnel stream_id data now = on_inner e (\<lambda>i. endpoint_send_end i tunnel stream_id data (instant_millis now))"

text \<open>The receive path ignores the time it is given.\<close>

definition receive_flit_at :: "RoutedEndpoint \<Rightarrow> Flit \<Rightarrow> Instant \<Rightarrow> (RoutedEndpoint, bool) outcome" where
  "receive_flit_at e flit now = on_inner e (\<lambda>i. endpoint_receive_flit i flit)"

definition receive_frame_at :: "RoutedEndpoint \<Rightarrow> GnetFrame \<Rightarrow> Instant \<Rightarrow> (RoutedEndpoint, bool) outcome" where
  "receive_frame_at e frame now = on_inner e (\<lambda>i. endpoint_receive_frame i frame)"

definition tick_at :: "RoutedEndpoint \<Rightarrow> Instant \<Rightarrow> (RoutedEndpoint, nat) outcome" where
  "tick_at e now =
    (case rt_prune_expired (re_routes e) now of (pruned, routes) \<Rightarrow>
     sbind (on_inner (e\<lparr>re_routes := routes\<rparr>) (\<lambda>i. endpoint_tick i (instant_millis now))) (\<lambda>transport_work e.
       (Ok (transport_work + pruned), e)))"

definition poll_at :: "RoutedEndpoint \<Rightarrow> Instant \<Rightarrow> PollAt" where
  "poll_at e now =
    (if queued_flits (en_dlp (re_inner e)) \<noteq> 0 then PollNow
     else let transport_deadline = instant_add now (Duration default_rto_ms) in
     case rt_next_expiry (re_routes e) of
         Some expiry \<Rightarrow>
           if expiry \<le> now then PollNow
           else if expiry < transport_deadline then PollTime expiry
           else PollTime transport_deadline
       | None \<Rightarrow> PollTime transport_deadline)"

definition poll_delay :: "RoutedEndpoint \<Rightarrow> Instant \<Rightarrow> Duration option" where
  "poll_delay e now = delay_from (poll_at e now) now"

section \<open>Wakers\<close>

record 'w WakerRegistration =
  wr_waker :: "'w option"

definition waker_registration_new :: "'w WakerRegistration" where
  "waker_registration_new = \<lparr>wr_waker = None\<rparr>"

definition wr_register :: "('w \<Rightarrow> 'w \<Rightarrow> bool) \<Rightarrow> 'w WakerRegistration \<Rightarrow> 'w \<Rightarrow> 'w WakerRegistration" where
  "wr_register will_wake r w =
    (if (case wr_waker r of Some old \<Rightarrow> will_wake old w | None \<Rightarrow> False) then r else r\<lparr>wr_waker := Some w\<rparr>)"

text \<open>The wakers woken by the call, and the registration after it.\<close>

definition wr_wake :: "'w WakerRegistration \<Rightarrow> 'w list \<times> 'w WakerRegistration" where
  "wr_wake r = (case wr_waker r of Some w \<Rightarrow> ([w], r\<lparr>wr_waker := None\<rparr>) | None \<Rightarrow> ([], r))"

definition wr_clear :: "'w WakerRegistration \<Rightarrow> 'w WakerRegistration" where
  "wr_clear r = r\<lparr>wr_waker := None\<rparr>"

section \<open>The asynchronous endpoint\<close>

record 'w AsyncEndpoint =
  ae_endpoint :: RoutedEndpoint
  ae_rx_waker :: "'w WakerRegistration"
  ae_tx_waker :: "'w WakerRegistration"
  ae_woken :: "'w list"

definition async_new :: "RoutedEndpoint \<Rightarrow> 'w AsyncEndpoint" where
  "async_new e = \<lparr>ae_endpoint = e, ae_rx_waker = waker_registration_new, ae_tx_waker = waker_registration_new, ae_woken = []\<rparr>"

definition on_endpoint :: "'w AsyncEndpoint \<Rightarrow> (RoutedEndpoint \<Rightarrow> (RoutedEndpoint, 'a) outcome) \<Rightarrow> ('w AsyncEndpoint, 'a) outcome" where
  "on_endpoint a f = (case f (ae_endpoint a) of (res, e) \<Rightarrow> (res, a\<lparr>ae_endpoint := e\<rparr>))"

definition wake_rx :: "'w AsyncEndpoint \<Rightarrow> 'w AsyncEndpoint" where
  "wake_rx a = (case wr_wake (ae_rx_waker a) of (ws, r) \<Rightarrow> a\<lparr>ae_rx_waker := r, ae_woken := ae_woken a @ ws\<rparr>)"

definition wake_tx :: "'w AsyncEndpoint \<Rightarrow> 'w AsyncEndpoint" where
  "wake_tx a = (case wr_wake (ae_tx_waker a) of (ws, r) \<Rightarrow> a\<lparr>ae_tx_waker := r, ae_woken := ae_woken a @ ws\<rparr>)"

definition register_recv_waker :: "('w \<Rightarrow> 'w \<Rightarrow> bool) \<Rightarrow> 'w AsyncEndpoint \<Rightarrow> 'w \<Rightarrow> 'w AsyncEndpoint" where
  "register_recv_waker will_wake a w = a\<lparr>ae_rx_waker := wr_register will_wake (ae_rx_waker a) w\<rparr>"

definition register_send_waker :: "('w \<Rightarrow> 'w \<Rightarrow> bool) \<Rightarrow> 'w AsyncEndpoint \<Rightarrow> 'w \<Rightarrow> 'w AsyncEndpoint" where
  "register_send_waker will_wake a w = a\<lparr>ae_tx_waker := wr_register will_wake (ae_tx_waker a) w\<rparr>"

definition async_receive_frame_at :: "'w AsyncEndpoint \<Rightarrow> GnetFrame \<Rightarrow> Instant \<Rightarrow> ('w AsyncEndpoint, bool) outcome" where
  "async_receive_frame_at a frame now =
    (case on_endpoint a (\<lambda>e. receive_frame_at e frame now) of (res, a) \<Rightarrow> (res, if is_ok res then wake_tx (wake_rx a) else a))"

definition async_receive_flit_at :: "'w AsyncEndpoint \<Rightarrow> Flit \<Rightarrow> Instant \<Rightarrow> ('w AsyncEndpoint, bool) outcome" where
  "async_receive_flit_at a flit now =
    (case on_endpoint a (\<lambda>e. receive_flit_at e flit now) of (res, a) \<Rightarrow> (res, if is_ok res then wake_tx (wake_rx a) else a))"

definition async_recv :: "'w AsyncEndpoint \<Rightarrow> TunnelHandle \<Rightarrow> u8 \<Rightarrow> ('w AsyncEndpoint, bytes option) outcome" where
  "async_recv a tunnel stream_id =
    sbind (on_endpoint a (\<lambda>e. on_inner e (\<lambda>i. endpoint_recv i tunnel stream_id))) (\<lambda>res a.
      (Ok res, if res \<noteq> None then wake_tx a else a))"

definition async_send_at :: "'w AsyncEndpoint \<Rightarrow> TunnelHandle \<Rightarrow> u8 \<Rightarrow> bytes \<Rightarrow> Instant \<Rightarrow> ('w AsyncEndpoint, unit) outcome" where
  "async_send_at a tunnel stream_id data now = on_endpoint a (\<lambda>e. send_at e tunnel stream_id data now)"

definition async_tick_at :: "'w AsyncEndpoint \<Rightarrow> Instant \<Rightarrow> ('w AsyncEndpoint, nat) outcome" where
  "async_tick_at a now =
    sbind (on_endpoint a (\<lambda>e. tick_at e now)) (\<lambda>count a. (Ok count, if count \<noteq> 0 then wake_tx a else a))"

definition async_poll_at :: "'w AsyncEndpoint \<Rightarrow> Instant \<Rightarrow> PollAt" where
  "async_poll_at a now = poll_at (ae_endpoint a) now"

definition async_poll_delay :: "'w AsyncEndpoint \<Rightarrow> Instant \<Rightarrow> Duration option" where
  "async_poll_delay a now = poll_delay (ae_endpoint a) now"

text \<open>\<open>DerefMut\<close> hands out the endpoint itself: any of its methods can be called past the wrapper.\<close>

definition async_deref_mut :: "'w AsyncEndpoint \<Rightarrow> (RoutedEndpoint \<Rightarrow> (RoutedEndpoint, 'a) outcome) \<Rightarrow> ('w AsyncEndpoint, 'a) outcome" where
  "async_deref_mut a f = on_endpoint a f"

section \<open>The deadline of a poll\<close>

definition table_routes :: "RoutedEndpoint \<Rightarrow> Route list" where
  "table_routes e = flatten_opt (rt_routes (re_routes e))"

lemma next_expiry_cases:
  "case rt_next_expiry t of
     None \<Rightarrow> \<forall>r\<in>set (flatten_opt (rt_routes t)). expires_at r = None
   | Some x \<Rightarrow> (\<exists>r\<in>set (flatten_opt (rt_routes t)). expires_at r = Some x) \<and>
       (\<forall>r\<in>set (flatten_opt (rt_routes t)). \<forall>y. expires_at r = Some y \<longrightarrow> x \<le> y)"
proof (cases "flatten_opt (map expires_at (flatten_opt (rt_routes t))) = []")
  case True
  then have "Some y \<notin> expires_at ` set (flatten_opt (rt_routes t))" for y
    using set_flatten_opt[of y "map expires_at (flatten_opt (rt_routes t))"] by simp
  then show ?thesis using True by (auto simp: rt_next_expiry_def) (metis image_eqI not_Some_eq)
next
  case False
  let ?es = "flatten_opt (map expires_at (flatten_opt (rt_routes t)))"
  have m: "y \<in> set ?es \<longleftrightarrow> (\<exists>r\<in>set (flatten_opt (rt_routes t)). expires_at r = Some y)" for y
    unfolding set_flatten_opt by force
  have "Min (set ?es) \<in> set ?es" using False by (intro Min_in) auto
  moreover have "Min (set ?es) \<le> y" if "r \<in> set (flatten_opt (rt_routes t))" "expires_at r = Some y" for r y
    using that m by (intro Min_le) auto
  ultimately show ?thesis using False m by (auto simp: rt_next_expiry_def)
qed

text \<open>C22. The scheduler's deadline misses no queued flit and no expiry of a route: an endpoint asks to be polled at once only when flits are queued or a route
  has reached its expiry; otherwise it names an instant that is not in the past, at most one retransmission timeout away, and
  such that no route of the table expires up to it. It never asks to wait for traffic only. (When a message in flight is due for retransmission plays no part:
  the timeout is always counted from now.)\<close>

theorem poll_deadline_sound:
  "case poll_at e now of
     PollNow \<Rightarrow> queued_flits (en_dlp (re_inner e)) \<noteq> 0 \<or> (\<exists>r\<in>set (table_routes e). \<exists>x. expires_at r = Some x \<and> x \<le> now)
   | PollTime t \<Rightarrow> queued_flits (en_dlp (re_inner e)) = 0 \<and> now \<le> t \<and> ms t \<le> ms now + 500 \<and>
       (\<forall>u. u \<le> t \<longrightarrow> (\<forall>r\<in>set (table_routes e). \<not> route_is_expired r u))
   | PollIngress \<Rightarrow> False"
proof -
  have dl: "now \<le> instant_add now (Duration default_rto_ms)" "ms (instant_add now (Duration default_rto_ms)) \<le> ms now + 500"
    using instant_add_increasing by (simp_all add: ms_add default_rto_ms_def)
  have le: "x < y \<Longrightarrow> ms y \<le> n \<Longrightarrow> ms x \<le> n" for x y n using ms_less_eq[of x y] by auto
  show ?thesis
  proof (cases "rt_next_expiry (re_routes e)")
    case None
    then show ?thesis using next_expiry_cases[of "re_routes e"] dl
      by (auto simp: poll_at_def table_routes_def route_is_expired_def Let_def)
  next
    case (Some x)
    then have ex: "\<exists>r\<in>set (table_routes e). expires_at r = Some x" "\<And>r y. r \<in> set (table_routes e) \<Longrightarrow> expires_at r = Some y \<Longrightarrow> x \<le> y"
      using next_expiry_cases[of "re_routes e"] by (auto simp: table_routes_def)
    have no: "\<not> route_is_expired r u" if "r \<in> set (table_routes e)" "u \<le> x" for r u
      using that ex(2)[OF that(1)] by (fastforce simp: route_is_expired_def split: option.splits)
    show ?thesis using Some ex(1) no dl le by (auto simp: poll_at_def Let_def)
  qed
qed

section \<open>Ticks and routes\<close>

lemma on_inner_routes: "re_routes (snd (on_inner e f)) = re_routes e"
  by (simp add: on_inner_def split: prod.splits)

lemma tick_at_routes: "re_routes (snd (tick_at e now)) = snd (rt_prune_expired (re_routes e) now)"
proof -
  obtain n t where p: "rt_prune_expired (re_routes e) now = (n, t)" by force
  let ?o = "on_inner (e\<lparr>re_routes := t\<rparr>) (\<lambda>i. endpoint_tick i (instant_millis now))"
  have "re_routes (snd ?o) = t" by (simp add: on_inner_routes)
  then show ?thesis using p by (auto simp: tick_at_def sbind_def split: prod.splits result.splits)
qed

lemma pruned_routes: "table_routes (snd (tick_at e now)) = filter (\<lambda>r. \<not> route_is_expired r now) (table_routes e)"
  using flatten_prune[of now "rt_routes (re_routes e)"]
  by (simp add: table_routes_def tick_at_routes rt_prune_expired_def split_beta)

lemma expired_later: "route_is_expired r now \<Longrightarrow> now \<le> u \<Longrightarrow> route_is_expired r u"
  by (auto simp: route_is_expired_def split: option.splits)

text \<open>A tick forgets exactly the expired routes: afterwards none of them is left, every other one is, and for every destination
  and every instant from then on the table gives the answer it would have given without the tick.\<close>

theorem tick_keeps_lookups:
  assumes "rt_inv (re_routes e)" "now \<le> u"
  shows "table_routes (snd (tick_at e now)) = filter (\<lambda>r. \<not> route_is_expired r now) (table_routes e) \<and>
    endpoint_route (snd (tick_at e now)) d u = endpoint_route e d u"
proof -
  let ?f = "\<lambda>b r. if route_applies d u r then better b r else b"
  have wf: "\<forall>r\<in>set (table_routes e). prefix_wf (rt_prefix r)" using assms(1) by (simp add: rt_inv_def table_routes_def)
  then have wf': "\<forall>r\<in>set (filter (\<lambda>r. \<not> route_is_expired r now) (table_routes e)). prefix_wf (rt_prefix r)" by simp
  have "foldl ?f b (filter (\<lambda>r. \<not> route_is_expired r now) rs) = foldl ?f b rs" for b rs
    by (induction rs arbitrary: b) (auto simp: route_applies_def dest: expired_later[OF _ assms(2)])
  then show ?thesis using lookup_fold[OF wf, of d u None] lookup_fold[OF wf', of d u None] pruned_routes[of e now]
    by (simp add: endpoint_route_def rt_lookup_def table_routes_def)
qed

definition sample_route :: Route where
  "sample_route = \<lparr>rt_prefix = \<lparr>network = 0, prefix_len = 0\<rparr>, via_router = 2, preferred_until = None,
     expires_at = Some (Instant 1250)\<rparr>"

definition sample_endpoint :: "Endpoint \<Rightarrow> RoutedEndpoint" where
  "sample_endpoint i = \<lparr>re_inner = i, re_routes = \<lparr>rt_routes = Some sample_route # replicate 7 None, rt_len = 1\<rparr>\<rparr>"

lemma flatten_none: "flatten_opt (replicate n None) = []"
  by (induction n) simp_all

lemma sample_table: "table_routes (sample_endpoint i) = [sample_route]" "re_routes (sample_endpoint i) = re_routes (sample_endpoint j)"
  by (simp_all add: table_routes_def sample_endpoint_def flatten_none)

lemma sample_table_inv: "rt_inv (re_routes (sample_endpoint i))"
  using sample_table(1)[of i] by (auto simp: rt_inv_def table_routes_def sample_endpoint_def sample_route_def prefix_wf_def flatten_none)

theorem poll_deadline_sound_witness:
  "\<forall>i. case poll_at (sample_endpoint i) (Instant 1000) of
     PollNow \<Rightarrow> queued_flits (en_dlp i) \<noteq> 0
   | PollTime t \<Rightarrow> queued_flits (en_dlp i) = 0 \<and> t \<le> Instant 1250 \<and> \<not> route_is_expired sample_route t
   | PollIngress \<Rightarrow> False"
proof
  fix i
  have "\<not> t \<le> Instant 1250 \<Longrightarrow> route_is_expired sample_route t" for t by (simp add: route_is_expired_def sample_route_def)
  moreover have "re_inner (sample_endpoint i) = i" "expires_at sample_route = Some (Instant 1250)" "\<not> Instant 1250 \<le> Instant 1000"
    by (simp_all add: sample_endpoint_def sample_route_def less_eq_Instant_def)
  ultimately show "case poll_at (sample_endpoint i) (Instant 1000) of
     PollNow \<Rightarrow> queued_flits (en_dlp i) \<noteq> 0
   | PollTime t \<Rightarrow> queued_flits (en_dlp i) = 0 \<and> t \<le> Instant 1250 \<and> \<not> route_is_expired sample_route t
   | PollIngress \<Rightarrow> False"
    using poll_deadline_sound[of "sample_endpoint i" "Instant 1000"]
    by (cases "poll_at (sample_endpoint i) (Instant 1000)")
      (auto simp: sample_table(1))
qed

theorem tick_keeps_lookups_witness:
  "\<forall>i d. endpoint_route (snd (tick_at (sample_endpoint i) (Instant 1251))) d (Instant 1300) = endpoint_route (sample_endpoint i) d (Instant 1300)"
  using tick_keeps_lookups[OF sample_table_inv, of "Instant 1251" "Instant 1300"] by (simp add: less_eq_Instant_def)

text \<open>At the instant of an expiry the scheduler spins: the endpoint asks to be polled at once because the earliest expiry has
  been reached, but a tick at that instant removes nothing, as a route is still valid then, and the endpoint asks again to be
  polled at once.\<close>

theorem poll_spins_at_expiry:
  assumes "rt_next_expiry (re_routes e) = Some now"
  shows "poll_at e now = PollNow \<and> table_routes (snd (tick_at e now)) = table_routes e \<and> poll_at (snd (tick_at e now)) now = PollNow"
proof -
  have "\<not> route_is_expired r now" if "r \<in> set (table_routes e)" for r
    using next_expiry_cases[of "re_routes e"] assms that by (auto simp: table_routes_def route_is_expired_def split: option.splits)
  then have same: "table_routes (snd (tick_at e now)) = table_routes e" unfolding pruned_routes by (simp add: filter_id_conv)
  then have "rt_next_expiry (re_routes (snd (tick_at e now))) = Some now" using assms by (simp add: rt_next_expiry_def table_routes_def)
  then show ?thesis using same assms by (simp add: poll_at_def Let_def)
qed

theorem poll_spins_at_expiry_witness:
  "\<forall>i. poll_at (sample_endpoint i) (Instant 1250) = PollNow \<and> poll_at (snd (tick_at (sample_endpoint i) (Instant 1250))) (Instant 1250) = PollNow"
proof
  fix i
  have "rt_next_expiry (re_routes (sample_endpoint i)) = Some (Instant 1250)"
    by (simp add: rt_next_expiry_def sample_endpoint_def sample_route_def flatten_none)
  from poll_spins_at_expiry[OF this]
  show "poll_at (sample_endpoint i) (Instant 1250) = PollNow \<and> poll_at (snd (tick_at (sample_endpoint i) (Instant 1250))) (Instant 1250) = PollNow"
    by simp
qed

text \<open>C40. Pruning reopens a closed table: when all routes of a configured table have expired, no destination has a next hop;
  after a tick the table counts as empty and every destination is its own next hop again, as if routing had never been
  configured.\<close>

theorem pruning_restores_direct_delivery:
  assumes "rt_inv (re_routes e)" "table_routes e \<noteq> []" "\<forall>r\<in>set (table_routes e). route_is_expired r now"
  shows "next_hop e d now = Ok None \<and> next_hop (snd (tick_at e now)) d now = Ok (Some d)"
proof -
  have wf: "\<forall>r\<in>set (table_routes e). prefix_wf (rt_prefix r)" using assms(1) by (simp add: rt_inv_def table_routes_def)
  have "foldl (\<lambda>b r. if route_applies d now r then better b r else b) None rs = None" if "\<forall>r\<in>set rs. route_is_expired r now" for rs
    using that by (induction rs) (auto simp: route_applies_def)
  then have "endpoint_route e d now = Ok None"
    using lookup_fold[OF wf, of d now None] assms(3) by (simp add: endpoint_route_def rt_lookup_def table_routes_def)
  moreover have "\<not> rt_is_empty (re_routes e)" using assms(1,2) by (simp add: rt_is_empty_def rt_inv_def table_routes_def)
  moreover have "rt_is_empty (re_routes (snd (tick_at e now)))"
    using rt_prune_inv[OF assms(1), of now] pruned_routes[of e now] assms(3)
    by (simp add: tick_at_routes rt_is_empty_def rt_inv_def table_routes_def)
  ultimately show ?thesis by (simp add: next_hop_def)
qed

theorem pruning_restores_direct_delivery_witness:
  "\<forall>i. next_hop (sample_endpoint i) 7 (Instant 1251) = Ok None \<and>
     next_hop (snd (tick_at (sample_endpoint i) (Instant 1251))) 7 (Instant 1251) = Ok (Some 7)"
proof
  fix i
  have "table_routes (sample_endpoint i) \<noteq> []" "\<forall>r\<in>set (table_routes (sample_endpoint i)). route_is_expired r (Instant 1251)"
    by (simp_all add: sample_table(1) route_is_expired_def sample_route_def less_Instant_def)
  from pruning_restores_direct_delivery[OF sample_table_inv this]
  show "next_hop (sample_endpoint i) 7 (Instant 1251) = Ok None \<and> next_hop (snd (tick_at (sample_endpoint i) (Instant 1251))) 7 (Instant 1251) = Ok (Some 7)" .
qed

section \<open>Wake-ups\<close>

datatype 'w async_call =
    RegRecv 'w | RegSend 'w | AFrame GnetFrame Instant | AFlit Flit Instant | ARecv TunnelHandle u8
  | ASend TunnelHandle u8 bytes Instant | ATick Instant | ADeref "RoutedEndpoint \<Rightarrow> (RoutedEndpoint, unit) outcome"

primrec async_do :: "('w \<Rightarrow> 'w \<Rightarrow> bool) \<Rightarrow> 'w AsyncEndpoint \<Rightarrow> 'w async_call \<Rightarrow> 'w AsyncEndpoint" where
  "async_do ww a (RegRecv w) = register_recv_waker ww a w"
| "async_do ww a (RegSend w) = register_send_waker ww a w"
| "async_do ww a (AFrame f now) = snd (async_receive_frame_at a f now)"
| "async_do ww a (AFlit f now) = snd (async_receive_flit_at a f now)"
| "async_do ww a (ARecv t s) = snd (async_recv a t s)"
| "async_do ww a (ASend t s d now) = snd (async_send_at a t s d now)"
| "async_do ww a (ATick now) = snd (async_tick_at a now)"
| "async_do ww a (ADeref f) = snd (async_deref_mut a f)"

text \<open>Traffic was accepted by one of the wrapper's own receive methods.\<close>

definition accepted :: "'w AsyncEndpoint \<Rightarrow> 'w async_call \<Rightarrow> bool" where
  "accepted a c = (case c of
      AFrame f now \<Rightarrow> is_ok (fst (async_receive_frame_at a f now))
    | AFlit f now \<Rightarrow> is_ok (fst (async_receive_flit_at a f now))
    | _ \<Rightarrow> False)"

fun any_accepted :: "('w \<Rightarrow> 'w \<Rightarrow> bool) \<Rightarrow> 'w AsyncEndpoint \<Rightarrow> 'w async_call list \<Rightarrow> bool" where
  "any_accepted ww a [] = False"
| "any_accepted ww a (c # cs) = (accepted a c \<or> any_accepted ww (async_do ww a c) cs)"

lemma wake_fields:
  "ae_rx_waker (wake_tx a) = ae_rx_waker a" "wr_waker (ae_rx_waker (wake_rx a)) = None" "ae_tx_waker (wake_rx a) = ae_tx_waker a"
  "ae_woken (wake_rx a) = ae_woken a @ (case wr_waker (ae_rx_waker a) of Some w \<Rightarrow> [w] | None \<Rightarrow> [])"
  "ae_woken (wake_tx a) = ae_woken a @ (case wr_waker (ae_tx_waker a) of Some w \<Rightarrow> [w] | None \<Rightarrow> [])"
  by (simp_all add: wake_tx_def wake_rx_def wr_wake_def split: prod.splits option.splits)

lemma on_endpoint_fields:
  "on_endpoint a f = (res, a') \<Longrightarrow> ae_rx_waker a' = ae_rx_waker a \<and> ae_tx_waker a' = ae_tx_waker a \<and> ae_woken a' = ae_woken a"
  by (auto simp: on_endpoint_def split: prod.splits)

definition rx_step :: "bool \<Rightarrow> 'w AsyncEndpoint \<Rightarrow> 'w AsyncEndpoint \<Rightarrow> bool" where
  "rx_step acc a b \<longleftrightarrow> set (ae_woken a) \<subseteq> set (ae_woken b) \<and>
    (if acc then set_option (wr_waker (ae_rx_waker a)) \<subseteq> set (ae_woken b) else ae_rx_waker b = ae_rx_waker a)"

lemma rx_wakes:
  assumes "on_endpoint a f = (res, b)"
  shows "rx_step True a (wake_tx (wake_rx b))" "rx_step False a (wake_tx b)" "rx_step False a b"
  using on_endpoint_fields[OF assms] by (auto simp: rx_step_def wake_fields)

lemma async_do_rx:
  assumes "\<forall>w. c \<noteq> RegRecv w"
  shows "rx_step (accepted a c) a (async_do ww a c)"
proof (cases c)
  case (AFrame f now)
  then show ?thesis using rx_wakes by (auto simp: accepted_def async_receive_frame_at_def split: prod.splits)
next
  case (AFlit f now)
  then show ?thesis using rx_wakes by (auto simp: accepted_def async_receive_flit_at_def split: prod.splits)
next
  case (ARecv t s)
  obtain res b where "on_endpoint a (\<lambda>e. on_inner e (\<lambda>i. endpoint_recv i t s)) = (res, b)" by force
  then show ?thesis using ARecv rx_wakes(2,3) by (cases res) (auto simp: accepted_def async_recv_def)
next
  case (ASend t s d now)
  obtain res b where "on_endpoint a (\<lambda>e. send_at e t s d now) = (res, b)" by force
  then show ?thesis using ASend rx_wakes(3) by (auto simp: accepted_def async_send_at_def)
next
  case (ATick now)
  obtain res b where "on_endpoint a (\<lambda>e. tick_at e now) = (res, b)" by force
  then show ?thesis using ATick rx_wakes(2,3) by (cases res) (auto simp: accepted_def async_tick_at_def)
next
  case (ADeref f)
  obtain res b where "on_endpoint a f = (res, b)" by force
  then show ?thesis using ADeref rx_wakes(3) by (auto simp: accepted_def async_deref_mut_def)
qed (use assms in \<open>auto simp: accepted_def rx_step_def register_send_waker_def\<close>)

lemma woken_grows:
  "\<forall>c\<in>set cs. \<forall>x. c \<noteq> RegRecv x \<Longrightarrow> set (ae_woken b) \<subseteq> set (ae_woken (foldl (async_do ww) b cs))"
proof (induction cs arbitrary: b)
  case (Cons c cs)
  then have "set (ae_woken b) \<subseteq> set (ae_woken (async_do ww b c))" using async_do_rx[of c b ww] by (simp add: rx_step_def)
  also have "\<dots> \<subseteq> set (ae_woken (foldl (async_do ww) (async_do ww b c) cs))" using Cons by simp
  finally show ?case by simp
qed simp

lemma waker_run:
  assumes "\<forall>c\<in>set calls. \<forall>x. c \<noteq> RegRecv x" "wr_waker (ae_rx_waker b) = Some x"
  shows "if any_accepted ww b calls then x \<in> set (ae_woken (foldl (async_do ww) b calls))
    else wr_waker (ae_rx_waker (foldl (async_do ww) b calls)) = Some x"
  using assms
proof (induction calls arbitrary: b)
  case (Cons c cs)
  have c: "\<forall>x. c \<noteq> RegRecv x" and cs: "\<forall>c\<in>set cs. \<forall>x. c \<noteq> RegRecv x" using Cons.prems(1) by auto
  show ?case
  proof (cases "accepted b c")
    case True
    then have "x \<in> set (ae_woken (async_do ww b c))" using async_do_rx[OF c, of b ww] Cons.prems(2) by (auto simp: rx_step_def)
    then show ?thesis using woken_grows[OF cs] True by auto
  next
    case False
    then show ?thesis using async_do_rx[OF c, of b ww] Cons.IH[OF cs] Cons.prems(2) by (auto simp: rx_step_def)
  qed
qed simp

text \<open>C23. No wake-up of the wrapper's own receive methods is lost: a task that registers to receive and is not replaced by another
  registration has been woken once \<open>receive_frame_at\<close> or \<open>receive_flit_at\<close> of the wrapper has accepted a frame or flit,
  whatever methods of the wrapper or of the dereferenced endpoint are called in between, and is still registered until then;
  \<open>will_wake\<close> has only to identify wakers of the same task. A method called on the dereferenced endpoint, its receive
  methods included, wakes nobody and leaves both registrations as they are.\<close>

theorem receiver_wakeup_not_lost:
  assumes "\<forall>x y. ww x y \<longrightarrow> task x = task y" "\<forall>c\<in>set calls. \<forall>x. c \<noteq> RegRecv x"
  shows "(if any_accepted ww (register_recv_waker ww a w) calls
    then task w \<in> task ` set (ae_woken (foldl (async_do ww) (register_recv_waker ww a w) calls))
    else \<exists>x. wr_waker (ae_rx_waker (foldl (async_do ww) (register_recv_waker ww a w) calls)) = Some x \<and> task x = task w) \<and>
   (\<forall>(f :: RoutedEndpoint \<Rightarrow> (RoutedEndpoint, bool) outcome) b. b = snd (async_deref_mut a f) \<longrightarrow>
      ae_woken b = ae_woken a \<and> ae_rx_waker b = ae_rx_waker a \<and> ae_tx_waker b = ae_tx_waker a)"
proof -
  have deref: "ae_woken b = ae_woken a \<and> ae_rx_waker b = ae_rx_waker a \<and> ae_tx_waker b = ae_tx_waker a"
    if "b = snd (async_deref_mut a f)" for f :: "RoutedEndpoint \<Rightarrow> (RoutedEndpoint, bool) outcome" and b
    using on_endpoint_fields[of a f "fst (on_endpoint a f)" b] that by (simp add: async_deref_mut_def)
  obtain x where x: "wr_waker (ae_rx_waker (register_recv_waker ww a w)) = Some x" "task x = task w"
    using assms(1) by (cases "wr_waker (ae_rx_waker a)"; cases "ww (the (wr_waker (ae_rx_waker a))) w")
      (auto simp: register_recv_waker_def wr_register_def)
  show ?thesis
    by (rule conjI, use waker_run[OF assms(2) x(1), of ww] x(2) in \<open>metis image_eqI\<close>, use deref in blast)
qed

theorem receiver_wakeup_not_lost_witness:
  "\<forall>e. wr_waker (ae_rx_waker (foldl (async_do (=)) (register_recv_waker (=) (async_new e) (7 :: nat))
     [ADeref (\<lambda>e. on_inner e (\<lambda>i. (Ok (), link_detached i))), ATick (Instant 2)])) = Some 7"
proof
  fix e
  show "wr_waker (ae_rx_waker (foldl (async_do (=)) (register_recv_waker (=) (async_new e) (7 :: nat))
     [ADeref (\<lambda>e. on_inner e (\<lambda>i. (Ok (), link_detached i))), ATick (Instant 2)])) = Some 7"
    using receiver_wakeup_not_lost[of "(=)" "\<lambda>x. x" "[ADeref (\<lambda>e. on_inner e (\<lambda>i. (Ok (), link_detached i))), ATick (Instant 2)]"
        "async_new e" "7 :: nat"]
    by (simp add: accepted_def)
qed

end
