(* ===== verification/Endpoint_Total.thy ===== *)
theory Endpoint_Total
  imports Endpoint_Safety
begin

text \<open>
  No call makes an endpoint panic: not one of the application, whatever its arguments, nor one of the clock or the link,
  whatever bytes arrive. The encoders are total, the decoders are, and the invariant \<open>endpoint_ok\<close>, which every call keeps,
  covers the places where the code unwraps an option or could overflow.
\<close>

section \<open>Total functions\<close>

named_theorems total_rules

lemma encode_exact_total [total_rules]: "encode_exact m sz \<noteq> Panic"
  by (auto simp: encode_exact_def gctl_encoded_len_def)

lemma gdp_packet_new_total [total_rules]: "gdp_packet_new h p \<noteq> Panic"
  by (simp add: gdp_packet_new_def)

lemma encode_header_into_total: "header_len h \<le> length out \<Longrightarrow> encode_header_into h cfg out \<noteq> Panic"
  by (auto simp: encode_header_into_def gdp_crc8_eq header_len_def Let_def result_simps split: GdpAddresses.splits)

lemma encode_header_into_length:
  "encode_header_into h cfg out = Ok (out', n) \<Longrightarrow> length out' = length out \<and> n = header_len h"
  by (cases "addresses h") (auto simp: encode_header_into_def gdp_crc8_eq header_len_def Let_def result_simps split: if_splits)

lemma gdp_packet_encode_total [total_rules]: "gdp_packet_encode p cfg \<noteq> Panic"
proof -
  have "copy_at out n (pkt_payload p) \<noteq> Panic"
    if "encode_header_into (pkt_header p) cfg (replicate (header_len (pkt_header p) + length (pkt_payload p)) 0) = Ok (out, n)" for out n
    using encode_header_into_length[OF that] by simp
  then show ?thesis using encode_header_into_total
    by (auto simp: gdp_packet_encode_def gdp_packet_encode_into_def gdp_packet_new_def Let_def result_simps split: if_splits)
qed

lemma make_gdp_header_total [total_rules]: "make_gdp_header e ty cls s d \<noteq> Panic"
  by (auto simp: make_gdp_header_def gdp_header_local_def Let_def split: option.splits)

lemma gctl_packet_total [total_rules]: "gctl_packet e s r msg cls \<noteq> Panic"
  by (auto simp: gctl_packet_def recommended_size_class_def result_simps total_rules split: option.splits)

lemma profile_total [total_rules]: "profile_validate p \<noteq> Panic" "profile_to_wire p \<noteq> Panic"
  by (auto simp: profile_validate_def profile_to_wire_def result_simps)

lemma lower_prefix_len_total [total_rules]: "lower_prefix_len ty \<noteq> Panic"
  by (cases ty) simp_all

lemma plain_plan_total [total_rules]: "zero_tail sz l \<noteq> Panic" "plain_plan sz crc_off l \<noteq> Panic"
  by (auto simp: plain_plan_def zero_tail_def result_simps total_rules)

lemma copy_at_length: "copy_at out a src = Ok out' \<Longrightarrow> length out' = length out"
  by (auto simp: copy_at_def split: if_splits)

lemma copy_at_total: "a + length src \<le> length out \<Longrightarrow> copy_at out a src \<noteq> Panic"
  by simp

lemma slice_total: "a \<le> b \<Longrightarrow> b \<le> length xs \<Longrightarrow> slice xs a b \<noteq> Panic"
  by simp

lemma plan_data_total [total_rules]: "plan_data crc_off ctx profile t s q d e \<noteq> Panic"
  by (auto simp: plan_data_def result_simps total_rules Let_def)

lemma plan_datagram_total [total_rules]: "plan_datagram crc_off ctx profile t s q d \<noteq> Panic"
  by (auto simp: plan_datagram_def result_simps total_rules Let_def)

lemma css_total [total_rules]:
  assumes "selector_array css"
  shows "css_encoded_len css \<noteq> Panic" "css_encode css \<noteq> Panic"
proof -
  have "canonical_wire css \<noteq> Panic" "canonical_wire css = Ok (CssShort v) \<Longrightarrow> length v = 4" "canonical_wire css = Ok (CssFull v) \<Longrightarrow> length v = 16" for v
    using assms by (auto simp: canonical_wire_def selector_array_def Let_def split: if_splits option.splits)
  then show "css_encoded_len css \<noteq> Panic" "css_encode css \<noteq> Panic"
    by (auto simp: css_encode_def css_encode_into_def css_encoded_len_def result_simps Let_def split: CssWire.splits)
qed

lemma plan_connect_total [total_rules]: "selector_array css \<Longrightarrow> plan_connect sz crc_off a b sp credit css \<noteq> Panic"
  by (auto simp: plan_connect_def result_simps total_rules Let_def)

lemma prepare_encode_total [total_rules]: "gts_packet_wf p \<Longrightarrow> prepare_encode p ctx profile \<noteq> Panic"
  by (cases p) (auto simp: prepare_encode_def gts_packet_wf_def result_simps total_rules Let_def)

lemma encode_packet_total [total_rules]:
  assumes "gts_packet_wf p"
  shows "encode_packet p ctx profile \<noteq> Panic"
proof -
  have "finish_encode encode_lower plan ctx \<noteq> Panic" if plan: "prepare_encode p ctx profile = Ok plan" for plan
  proof -
    obtain n crc_off where s: "crc_off + 4 = size_class_bytes (ctx_size_class ctx)" "lower_prefix_len (lower_packet_type (plan_lower plan)) = Ok n"
      "n + length (plan_tail plan) = crc_off" "plan_crc_coverage_end plan \<le> crc_off" using handwritten.plan_shape[OF plan] by blast
    have l: "encode_lower (plan_lower plan) = Ok (lower_bytes (plan_lower plan))" "length (lower_bytes (plan_lower plan)) = n"
      using encode_lower_eq lower_bytes_length handwritten.plan_lower_wf[OF plan] s(2) by auto
    have "compute_crc ctx bs \<noteq> Panic" for bs using compute_crc_Ok[of ctx bs] by auto
    then show ?thesis using s l by (auto simp: finish_encode_def checked_sub_def result_simps Let_def)
  qed
  then show ?thesis using assms by (auto simp: encode_packet_def encode_with_def result_simps total_rules)
qed

lemma choose_size_class_total [total_rules]: "gts_packet_wf p \<Longrightarrow> choose_size_class p profile \<noteq> Panic"
proof -
  have "gts_minimum_len p pr \<noteq> Panic" if "gts_packet_wf p" for pr
    using that by (cases p) (auto simp: gts_minimum_len_def gts_packet_wf_def result_simps total_rules split: option.splits)
  then show "gts_packet_wf p \<Longrightarrow> ?thesis"
    by (auto simp: choose_size_class_def choose_variable_class_def result_simps Let_def split: option.splits GtsPacket.splits)
qed

lemma gts_packet_out_total [total_rules]: "gts_packet_wf p \<Longrightarrow> gts_packet_out e remote p profile \<noteq> Panic"
  by (auto simp: gts_packet_out_def result_simps total_rules Let_def)

lemma typed_body_length: "typed_body m ty n = Ok b \<Longrightarrow> length b = n"
  by (auto simp: typed_body_def result_simps split: if_splits)

lemma typed_body_total [total_rules]: "typed_body m ty n \<noteq> Panic"
  by (auto simp: typed_body_def result_simps)

lemma prefix_total [total_rules]: "normalize_prefix p n \<noteq> Panic" "address_matches_prefix a p n \<noteq> Panic" "offer_consistent f \<noteq> Panic"
  by (auto simp: normalize_prefix_def address_matches_prefix_def offer_consistent_def gctl_prefix_mask_def result_simps)

lemma scope_total [total_rules]: "discovery_scope_from_wire v \<noteq> Panic" "gctl_type_from_wire v \<noteq> Panic"
  by (auto simp: discovery_scope_from_wire_def gctl_type_from_wire_def)

lemma gctl_decode_total [total_rules]: "gctl_decode buf \<noteq> Panic"
  by (auto simp: gctl_decode_def result_simps total_rules)

lemma parse_total [total_rules]:
  "parse_credit_request m \<noteq> Panic" "parse_credit m \<noteq> Panic" "parse_solicit m \<noteq> Panic" "parse_advertise m \<noteq> Panic"
  "parse_address_offer m \<noteq> Panic" "parse_address_claim m \<noteq> Panic" "parse_address_ack m \<noteq> Panic" "parse_address_nak m \<noteq> Panic"
  "gctl_address_offer t f \<noteq> Panic" "echo_reply m \<noteq> Panic"
  by (auto simp: parse_credit_request_def parse_credit_def parse_solicit_def parse_advertise_def parse_address_offer_def parse_address_claim_def
      parse_address_ack_def parse_address_nak_def gctl_address_offer_def echo_reply_def result_simps total_rules Let_def dest: typed_body_length)

lemma gdp_decode_total [total_rules]: "gdp_packet_decode bs cfg pre \<noteq> Panic"
proof -
  have "header_len h \<le> length bs" if "decode_header bs cfg pre = Ok h" for h using decode_header_wf[OF that] by simp
  then show ?thesis using decode_header_no_panic[of bs cfg pre] by (auto simp: gdp_packet_decode_def result_simps Let_def)
qed

lemma gts_profile_total [total_rules]: "gts_profile_for e payload \<noteq> Panic"
  using gts_type_from_wire_total[of "payload ! 0 AND 0xf"]
  by (auto simp: gts_profile_for_def tunnel_stream_def result_simps)

lemma decode_packet_total [total_rules]: "decode_packet buf ctx profile \<noteq> Panic"
  using handwritten.decode_total by (simp add: decode_packet_def)

section \<open>Safe calls\<close>

text \<open>A call is safe when it does not panic and leaves a state that satisfies the invariant, whatever else it returns.\<close>

definition safe :: "('s \<Rightarrow> bool) \<Rightarrow> ('s, 'a) outcome \<Rightarrow> bool" where
  "safe I m \<longleftrightarrow> fst m \<noteq> Panic \<and> I (snd m)"

named_theorems safe_rules

lemma safe_sbind [safe_rules]:
  assumes "safe I m" "\<And>x s. I s \<Longrightarrow> safe I (k x s)"
  shows "safe I (sbind m k)"
  using assms by (cases m; cases "fst m") (auto simp: safe_def)

lemma safe_lift [safe_rules]: "x \<noteq> Panic \<Longrightarrow> I s \<Longrightarrow> safe I (lift_r x s)"
  by (simp add: safe_def lift_r_def)

lemma safe_pair [simp]: "safe I (r, s) \<longleftrightarrow> r \<noteq> Panic \<and> I s"
  by (simp add: safe_def)

lemma safe_if [safe_rules]: "(b \<Longrightarrow> safe I m) \<Longrightarrow> (\<not> b \<Longrightarrow> safe I m') \<Longrightarrow> safe I (if b then m else m')"
  by simp

section \<open>The invariant\<close>

text \<open>A reliable stream has both halves.\<close>

definition stream_ok :: "GtsStream \<Rightarrow> bool" where
  "stream_ok s \<longleftrightarrow> (\<not> sp_unreliable (st_profile s) \<longrightarrow> st_reliable_tx s \<noteq> None \<and> st_reliable_rx s \<noteq> None)"

definition tunnel_ok :: "GtsTunnel \<Rightarrow> bool" where
  "tunnel_ok t \<longleftrightarrow> (\<forall>(i, s)\<in>set (tun_streams t). stream_ok s)"

definition record_ok :: "TunnelRecord \<Rightarrow> bool" where
  "record_ok r \<longleftrightarrow> tunnel_ok (tr_tunnel r)"

text \<open>The authority has a prefix of an allowed length, and its host counter fits the host part.\<close>

definition authority_ok :: "AddressAuthority \<Rightarrow> bool" where
  "authority_ok a \<longleftrightarrow> aac_prefix_len (aa_config a) \<in> {16, 32, 48, 56} \<and> aa_next_host a < 2 ^ 48"

definition endpoint_ok :: "Endpoint \<Rightarrow> bool" where
  "endpoint_ok e \<longleftrightarrow> (\<forall>(h, r)\<in>set (en_tunnels e). record_ok r) \<and> (\<forall>a. en_authority e = Some a \<longrightarrow> authority_ok a)"

lemma endpoint_ok_update [simp]:
  "endpoint_ok (e\<lparr>en_accepted := x2\<rparr>) = endpoint_ok e" "endpoint_ok (e\<lparr>en_next_tunnel := x3\<rparr>) = endpoint_ok e"
  "endpoint_ok (e\<lparr>en_next_reset := x3\<rparr>) = endpoint_ok e" "endpoint_ok (e\<lparr>en_next_control_transaction := x3\<rparr>) = endpoint_ok e"
  "endpoint_ok (e\<lparr>en_address_state := x4\<rparr>) = endpoint_ok e" "endpoint_ok (e\<lparr>en_router_address := x5\<rparr>) = endpoint_ok e"
  "endpoint_ok (e\<lparr>en_pending_client_offer := x6\<rparr>) = endpoint_ok e" "endpoint_ok (e\<lparr>en_next_claim_nonce := x7\<rparr>) = endpoint_ok e"
  "endpoint_ok (e\<lparr>en_peer_link_local := x5\<rparr>) = endpoint_ok e" "endpoint_ok (e\<lparr>en_credit_request_pending := x8\<rparr>) = endpoint_ok e"
  "endpoint_ok (e\<lparr>en_listeners := x9\<rparr>) = endpoint_ok e" "endpoint_ok (e\<lparr>en_echo_replies := x10\<rparr>) = endpoint_ok e"
  "endpoint_ok (e\<lparr>en_gctl_inbox := x11\<rparr>) = endpoint_ok e" "endpoint_ok (e\<lparr>en_last_rx_address_form := x12\<rparr>) = endpoint_ok e"
  "endpoint_ok (e\<lparr>en_primary_address := x13\<rparr>) = endpoint_ok e" "endpoint_ok (e\<lparr>en_config := x14\<rparr>) = endpoint_ok e"
  "endpoint_ok (e\<lparr>en_dlp := x15\<rparr>) = endpoint_ok e"
  by (simp_all add: endpoint_ok_def)

lemma bt_insert_sub: "set (bt_insert m k v) \<subseteq> insert (k, v) (set m)"
  by (induction m k v rule: bt_insert.induct) auto

lemma bt_get_in: "bt_get m k = Some v \<Longrightarrow> (k, v) \<in> set m"
  by (simp add: bt_get_def map_of_SomeD)

lemma endpoint_ok_tunnel: "endpoint_ok e \<Longrightarrow> record_ok r \<Longrightarrow> endpoint_ok (e\<lparr>en_tunnels := bt_insert (en_tunnels e) h r\<rparr>)"
  using bt_insert_sub[of "en_tunnels e" h r] by (fastforce simp: endpoint_ok_def)

lemma tunnel_ok_stream: "tunnel_ok t \<Longrightarrow> stream_ok s \<Longrightarrow> tunnel_ok (t\<lparr>tun_streams := bt_insert (tun_streams t) i s\<rparr>)"
  using bt_insert_sub[of "tun_streams t" i s] by (fastforce simp: tunnel_ok_def)

section \<open>Borrowed parts\<close>

lemma safe_on_dlp [safe_rules]: "(\<And>d. fst (f d) \<noteq> Panic) \<Longrightarrow> endpoint_ok e \<Longrightarrow> safe endpoint_ok (on_dlp e f)"
  by (auto simp: on_dlp_def dest: meta_spec[of _ "en_dlp e"] split: prod.split)

lemma safe_on_record [safe_rules]:
  assumes "\<And>r. record_ok r \<Longrightarrow> safe record_ok (f r)" "endpoint_ok e"
  shows "safe endpoint_ok (on_record e h f)"
proof (cases "bt_get (en_tunnels e) h")
  case (Some r)
  then have "record_ok r" using assms(2) bt_get_in[OF Some] by (auto simp: endpoint_ok_def)
  from assms(1)[OF this] show ?thesis using Some assms(2) by (auto simp: on_record_def safe_def endpoint_ok_tunnel split: prod.split)
qed (use assms(2) in \<open>simp add: on_record_def\<close>)

lemma safe_on_tun [safe_rules]: "(\<And>t. tunnel_ok t \<Longrightarrow> safe tunnel_ok (f t)) \<Longrightarrow> record_ok r \<Longrightarrow> safe record_ok (on_tun r f)"
  by (auto simp: on_tun_def record_ok_def safe_def dest: meta_spec[of _ "tr_tunnel r"] split: prod.split)

lemma safe_on_strm [safe_rules]:
  assumes "\<And>s. stream_ok s \<Longrightarrow> safe stream_ok (f s)" "tunnel_ok t"
  shows "safe tunnel_ok (on_strm i f t)"
proof (cases "bt_get (tun_streams t) i")
  case (Some s)
  then have "stream_ok s" using assms(2) bt_get_in[OF Some] by (auto simp: tunnel_ok_def)
  from assms(1)[OF this] show ?thesis using Some assms(2) by (auto simp: on_strm_def safe_def tunnel_ok_stream split: prod.split)
qed (use assms(2) in \<open>simp add: on_strm_def\<close>)

lemma remote_id_total [total_rules]: "remote_id t \<noteq> Panic" "tunnel_stream t i \<noteq> Panic" "ok_or x er \<noteq> Panic"
  by (simp_all add: remote_id_def tunnel_stream_def result_simps)

lemma safe_with_remote [safe_rules]: "safe record_ok m \<Longrightarrow> safe record_ok (with_remote m)"
  unfolding with_remote_def by (intro safe_rules total_rules) simp_all

lemma queue_total [total_rules]:
  "fst (queue_control_packet d p) \<noteq> Panic" "fst (queue_data_packet d p) \<noteq> Panic" "fst (note_data_credit_granted d n) \<noteq> Panic"
proof -
  have "fst (queue_packet_on d t v p) \<noteq> Panic" for d t v
    using gdp_packet_encode_total[of p "ep_cfg d"]
    by (cases "gdp_packet_encode p (ep_cfg d)") (auto simp: queue_packet_on_def lift_r_def Let_def)
  then show "fst (queue_control_packet d p) \<noteq> Panic" "fst (queue_data_packet d p) \<noteq> Panic" "fst (note_data_credit_granted d n) \<noteq> Panic"
    by (simp_all add: queue_control_packet_def queue_data_packet_def note_data_credit_granted_def split: prod.split)
qed

lemma poll_total [total_rules]: "fst (poll_tx d) \<noteq> Panic" "fst (poll_tx_frame d) \<noteq> Panic"
proof -
  obtain cf cq cc where c: "emit_queue_flits (ep_control_tx_queue d) (ep_control_tx_credit d) 1 = (cf, cq, cc)" using prod_cases3 by blast
  obtain df dq dc where e: "emit_queue_flits (ep_data_tx_queue d) (ep_data_tx_credit d) (1 - length cf) = (df, dq, dc)" using prod_cases3 by blast
  have "length cf + length df \<le> 1" using emit_queue_flits_spec[OF c] emit_queue_flits_spec[OF e] by auto
  then consider "length cf + length df = 0" | "length cf + length df = 1" by linarith
  then show "fst (poll_tx d) \<noteq> Panic" using c e by cases (auto simp: poll_tx_def poll_tx_burst_def Let_def)
  have pop: "fst (pop_sendable_frame q n) \<noteq> Panic" for q n
    by (auto simp: pop_sendable_frame_def into_frame_def Let_def split: list.split)
  obtain r cq' cc' where c': "pop_sendable_frame (ep_control_tx_queue d) (ep_control_tx_credit d) = (r, (cq', cc'))" using prod_cases3 by blast
  obtain r' dq' dc' where d': "pop_sendable_frame (ep_data_tx_queue d) (ep_data_tx_credit d) = (r', (dq', dc'))" using prod_cases3 by blast
  have "r \<noteq> Panic" "r' \<noteq> Panic" using pop c' d' by (metis fst_conv)+
  then show "fst (poll_tx_frame d) \<noteq> Panic"
    by (cases r; cases r') (auto simp: poll_tx_frame_def c' d' Let_def split: option.split)
qed

lemma receive_total [total_rules]: "fst (receive_frame d f) \<noteq> Panic" "fst (dlp_receive d g) \<noteq> Panic"
proof -
  show "fst (receive_frame d f) \<noteq> Panic" by (simp add: receive_frame_def total_rules Let_def)
  have "fst (open_segment d i t w) \<noteq> Panic" for d i t w
    using size_class_from_wire_total[of "ucast (drop_bit 22 w AND 0xf)"]
    by (auto simp: open_segment_def segment_of_def Let_def split: option.split result.split)
  moreover have "fst (append_flit d i t w s) \<noteq> Panic" for d i t w s
    using gdp_decode_total by (auto simp: append_flit_def finish_segment_def Let_def split: result.split)
  ultimately have "fst (sbind (open_segment d i t w) (\<lambda>s d. append_flit d i t w s)) \<noteq> Panic" for d i t w
    by (cases "open_segment d i t w"; cases "fst (open_segment d i t w)") (auto, metis fst_conv)
  then show "fst (dlp_receive d g) \<noteq> Panic" by (simp add: dlp_receive_def Let_def)
qed

section \<open>Streams and tunnels\<close>

lemma stream_ok_update [simp]:
  "stream_ok (s\<lparr>st_state := x1\<rparr>) = stream_ok s" "stream_ok (s\<lparr>st_unrel_tx_sequence := x2\<rparr>) = stream_ok s"
  "stream_ok (s\<lparr>st_unrel_rx_highest := x3\<rparr>) = stream_ok s" "stream_ok (s\<lparr>st_unrel_delivered := x4\<rparr>) = stream_ok s"
  "stream_ok (s\<lparr>st_local_ended := x5\<rparr>) = stream_ok s" "stream_ok (s\<lparr>st_remote_ended := x5\<rparr>) = stream_ok s"
  by (simp_all add: stream_ok_def)

lemma stream_ok_halves [simp]: "stream_ok s \<Longrightarrow> stream_ok (s\<lparr>st_reliable_tx := Some tx\<rparr>)" "stream_ok s \<Longrightarrow> stream_ok (s\<lparr>st_reliable_rx := Some rx\<rparr>)"
  by (simp_all add: stream_ok_def)

lemma validate_total [total_rules]: "validate_send_len s n e \<noteq> Panic" "validate_incoming s c p \<noteq> Panic"
  by (auto simp: validate_send_len_def validate_incoming_def validate_data_def validate_datagram_def fixed_unreliable_data_len_def
      fixed_reliable_end_capacity_def fixed_reliable_data_len_def result_simps split: GtsPacket.split)

lemma send_packet_safe [safe_rules]: "stream_ok s \<Longrightarrow> safe stream_ok (send_packet s t d e now)"
  unfolding send_packet_def
  by (intro safe_rules total_rules) (auto simp: rtx_queue_def stream_ok_def Let_def split: option.split)

lemma receive_packet_safe [safe_rules]: "stream_ok s \<Longrightarrow> safe stream_ok (receive_packet s p)"
proof -
  assume s: "stream_ok s"
  have "fst (rrx_receive rx seq d) \<noteq> Panic" for rx seq d by (auto simp: rrx_receive_def Let_def split: prod.split)
  then have "safe stream_ok (receive_data s t i seq d e)" if "\<not> sp_unreliable (st_profile s)" for t i seq d e
    using s that by (auto simp: receive_data_def stream_ok_def split: option.split prod.split result.split) (metis fst_conv)
  moreover have "safe stream_ok (receive_datagram s i seq d)" for i seq d using s by (auto simp: receive_datagram_def split: option.split)
  ultimately show ?thesis using s by (cases p) (auto simp: receive_packet_def)
qed

lemma stream_calls_safe [safe_rules]:
  assumes "stream_ok s"
  shows "safe stream_ok (checked_receive cls p s)" "safe stream_ok (stream_recv s)" "safe stream_ok (stream_on_ack s base bitmap credit)"
    "safe stream_ok (apply_open_ack s credit)" "safe stream_ok (start_closing s)" "safe stream_ok (close_checked cls p s)"
    "safe stream_ok (pure_s mark_opening s)" "safe stream_ok (pure_s stream_reset s)"
proof -
  show "safe stream_ok (checked_receive cls p s)" unfolding checked_receive_def by (intro safe_rules total_rules assms) simp_all
  show "safe stream_ok (stream_recv s)" using assms by (auto simp: stream_recv_def stream_ok_def split: option.split prod.split list.split)
  show "safe stream_ok (stream_on_ack s base bitmap credit)" using assms by (auto simp: stream_on_ack_def split: option.split)
  show "safe stream_ok (apply_open_ack s credit)" using assms by (auto simp: apply_open_ack_def set_peer_credit_def stream_ok_def)
  show "safe stream_ok (start_closing s)" using assms by (simp add: start_closing_def)
  show "safe stream_ok (close_checked cls p s)" unfolding close_checked_def by (intro safe_rules total_rules assms) simp_all
  show "safe stream_ok (pure_s mark_opening s)" "safe stream_ok (pure_s stream_reset s)"
    using assms by (simp_all add: pure_s_def mark_opening_def stream_reset_def stream_ok_def)
qed

lemma stream_new_ok: "stream_new i p o' c c' = Ok s \<Longrightarrow> stream_ok s"
  by (auto simp: stream_new_def stream_ok_def result_simps)

lemma stream_new_total [total_rules]: "stream_new i p o' c c' \<noteq> Panic"
  by (auto simp: stream_new_def result_simps total_rules)

lemma tunnel_ok_update [simp]:
  "tunnel_ok (t\<lparr>tun_state := x1\<rparr>) = tunnel_ok t" "tunnel_ok (t\<lparr>tun_next_stream_id := x2\<rparr>) = tunnel_ok t"
  "tunnel_ok (t\<lparr>tun_remote_receive_id := x3\<rparr>) = tunnel_ok t" "tunnel_ok (t\<lparr>tun_remote_reset_id := x3\<rparr>) = tunnel_ok t"
  by (simp_all add: tunnel_ok_def)

lemma tunnel_calls_safe [safe_rules]:
  assumes "tunnel_ok t"
  shows "safe tunnel_ok (alloc_stream_id t)" "safe tunnel_ok (add_stream t i p o' c c')" "safe tunnel_ok (finish_tunnel st t)"
    "safe tunnel_ok (pure_s tunnel_reset t)" "safe tunnel_ok (pure_s (\<lambda>t. t\<lparr>tun_state := st\<rparr>) t)"
    "bt_get (tun_streams t) 0 \<noteq> None \<Longrightarrow> safe tunnel_ok (establish_initiator t r r' c)"
proof -
  show "safe tunnel_ok (alloc_stream_id t)" using assms by (simp add: alloc_stream_id_def Let_def)
  show "safe tunnel_ok (add_stream t i p o' c c')"
    using assms stream_new_total[of i p o' c c'] stream_new_ok[of i p o' c c']
    by (cases "stream_new i p o' c c'") (auto simp: add_stream_def lift_r_def tunnel_ok_stream)
  show "safe tunnel_ok (finish_tunnel st t)" using assms by (simp add: finish_tunnel_def)
  show "safe tunnel_ok (pure_s tunnel_reset t)" using assms
    by (auto simp: pure_s_def tunnel_reset_def tunnel_ok_def stream_reset_def stream_ok_def)
  show "safe tunnel_ok (pure_s (\<lambda>t. t\<lparr>tun_state := st\<rparr>) t)" using assms by (simp add: pure_s_def)
  show "safe tunnel_ok (establish_initiator t r r' c)" if some: "bt_get (tun_streams t) 0 \<noteq> None"
  proof -
    obtain s where s: "bt_get (tun_streams t) 0 = Some s" using some by blast
    then have "stream_ok (set_peer_credit c s)" using assms bt_get_in[OF s] by (auto simp: tunnel_ok_def set_peer_credit_def stream_ok_def)
    then have "tunnel_ok (t\<lparr>tun_streams := bt_insert (tun_streams t) 0 (set_peer_credit c s)\<rparr>)" using assms tunnel_ok_stream by blast
    then show ?thesis using assms s by (auto simp: establish_initiator_def Let_def tunnel_ok_def)
  qed
qed

lemma new_tunnel_ok:
  "tunnel_initiator l r css p c = Ok t \<Longrightarrow> tunnel_ok t" "tunnel_responder l r l' r' css p c c' = Ok t \<Longrightarrow> tunnel_ok t"
  by (auto simp: tunnel_initiator_def tunnel_responder_def tunnel_ok_def result_simps dest: stream_new_ok)

lemma new_tunnel_total [total_rules]: "tunnel_initiator l r css p c \<noteq> Panic" "tunnel_responder l r l' r' css p c c' \<noteq> Panic"
  by (auto simp: tunnel_initiator_def tunnel_responder_def result_simps total_rules)

section \<open>The calls of the application\<close>

lemma send_gctl_from_safe [safe_rules]: "endpoint_ok e \<Longrightarrow> safe endpoint_ok (send_gctl_from e s r msg cls)"
  unfolding send_gctl_from_def by (intro safe_rules total_rules) simp_all

lemma send_gts_safe [safe_rules]: "endpoint_ok e \<Longrightarrow> gts_packet_wf p \<Longrightarrow> safe endpoint_ok (send_gts e r p profile)"
  unfolding send_gts_def by (intro safe_rules total_rules) simp_all

lemma take_control_ok [simp]: "endpoint_ok (snd (take_control_transaction e)) = endpoint_ok e"
  by (simp add: take_control_transaction_def)

lemma advertise_safe [safe_rules]: "endpoint_ok e \<Longrightarrow> safe endpoint_ok (advertise_link_credit e force)"
  by (auto simp: advertise_link_credit_def take_control_transaction_def Let_def split: option.split intro!: safe_rules total_rules)

lemma maybe_request_safe [safe_rules]: "endpoint_ok e \<Longrightarrow> safe endpoint_ok (maybe_request_link_credit e)"
  by (auto simp: maybe_request_link_credit_def take_control_transaction_def Let_def split: option.split intro!: safe_rules)

lemma poll_endpoint_safe [safe_rules]:
  "endpoint_ok e \<Longrightarrow> safe endpoint_ok (endpoint_poll_tx_flit e)" "endpoint_ok e \<Longrightarrow> safe endpoint_ok (endpoint_poll_tx_frame e)"
  by (auto simp: endpoint_poll_tx_flit_def endpoint_poll_tx_frame_def intro!: safe_rules total_rules)

lemma gts_packet_wf_simps [simp]:
  "gts_packet_wf (PConnect a b sp c css) = selector_array css" "gts_packet_wf (PConnectAck a b' c' s i)" "gts_packet_wf (PStreamOpen t j sp c)"
  "gts_packet_wf (PStreamAck t j st c)" "gts_packet_wf (PData t j q d fin)" "gts_packet_wf (PAck t j base m c)" "gts_packet_wf (PDatagram t j sq d)"
  "gts_packet_wf (PStreamClose t j f k)" "gts_packet_wf (PTunnelClose t k)" "gts_packet_wf (PReset t b c)" "gts_packet_wf (PStreamReset t j er k)"
  by (simp_all add: gts_packet_wf_def)

lemma connect_safe:
  assumes "endpoint_ok e" "selector_array css"
  shows "safe endpoint_ok (endpoint_connect e remote css profile)"
proof (cases "profile_validate profile")
  case (Ok u)
  obtain l rs e' where a: "alloc_tunnel e = ((l, rs), e')" using prod_cases3 by (metis prod.collapse)
  have e': "endpoint_ok e'" using a assms(1) by (auto simp: alloc_tunnel_def)
  let ?c = "local_gts_credit e' profile True"
  show ?thesis
  proof (cases "tunnel_initiator l rs css profile ?c")
    case tun: (Ok t)
    then have "endpoint_ok (e'\<lparr>en_tunnels := bt_insert (en_tunnels e') l \<lparr>tr_peer = remote, tr_tunnel = t\<rparr>\<rparr>)"
      using new_tunnel_ok(1)[OF tun] e' by (intro endpoint_ok_tunnel) (simp_all add: record_ok_def)
    then show ?thesis using Ok a tun assms(2) by (simp add: endpoint_connect_def Let_def) (intro safe_rules, simp_all)
  qed (use Ok a e' new_tunnel_total(1)[of l rs css profile ?c] in \<open>simp_all add: endpoint_connect_def Let_def lift_r_def\<close>)
qed (use assms profile_total(1)[of profile] in \<open>simp_all add: endpoint_connect_def lift_r_def\<close>)

text \<open>The packets that are sent come from the stream.\<close>

lemma safe_sbind_value:
  assumes "safe I m" "\<And>x s. m = (Ok x, s) \<Longrightarrow> I s \<Longrightarrow> safe I (k x s)"
  shows "safe I (sbind m k)"
  using assms by (cases m; cases "fst m") (auto simp: safe_def)

lemma on_record_value: "on_record e h f = (Ok x, e') \<Longrightarrow> \<exists>r r'. f r = (Ok x, r')"
  by (auto simp: on_record_def split: option.splits prod.splits)

lemma on_tun_value: "on_tun r f = (Ok x, r') \<Longrightarrow> \<exists>t t'. f t = (Ok x, t')"
  by (auto simp: on_tun_def split: prod.splits)

lemma on_strm_value: "on_strm i f t = (Ok x, t') \<Longrightarrow> \<exists>s s'. f s = (Ok x, s')"
  by (auto simp: on_strm_def split: option.splits prod.splits)

lemma send_packet_value: "send_packet s t d fin now = (Ok p, s') \<Longrightarrow> gts_packet_wf p"
  by (auto simp: send_packet_def rtx_queue_def lift_r_def result_simps Let_def split: if_splits option.splits prod.splits result.splits)

lemma receive_credit_ack_value: "receive_credit_ack s t = Some p \<Longrightarrow> gts_packet_wf p"
  by (auto simp: receive_credit_ack_def ack_packet_def split: if_splits option.splits prod.splits)

lemma send_inner_safe [safe_rules]:
  assumes "endpoint_ok e"
  shows "safe endpoint_ok (send_inner e h i d fin now)"
  unfolding send_inner_def
proof (rule safe_sbind_value)
  show "safe endpoint_ok (on_record e h (\<lambda>r.
      if tun_state (tr_tunnel r) \<noteq> TunEstablished then (Err InvalidState, r)
      else sbind (lift_r (remote_id (tr_tunnel r)) r) (\<lambda>remote r.
        sbind (on_tun r (on_strm i (\<lambda>s. sbind (send_packet s remote d fin now) (\<lambda>p s'. (Ok (st_profile s, p), s')))))
          (\<lambda>(profile, packet) r. (Ok (tr_peer r, profile, packet), r)))))"
    using assms by (auto intro!: safe_rules total_rules)
qed (auto dest!: on_record_value on_tun_value on_strm_value send_packet_value simp: result_simps intro!: safe_rules split: if_splits)

lemma recv_safe [safe_rules]:
  assumes "endpoint_ok e"
  shows "safe endpoint_ok (endpoint_recv e h i)"
  unfolding endpoint_recv_def
proof (rule safe_sbind_value)
  show "safe endpoint_ok (on_record e h (\<lambda>r. sbind (lift_r (remote_id (tr_tunnel r)) r) (\<lambda>remote r.
      sbind (on_tun r (on_strm i (\<lambda>s. sbind (stream_recv s) (\<lambda>message s'.
          (Ok (st_profile s, message, if message \<noteq> None then receive_credit_ack s' remote else None), s')))))
        (\<lambda>(profile, message, ack) r. (Ok (tr_peer r, profile, message, ack), r)))))"
    using assms by (auto intro!: safe_rules total_rules)
qed (auto dest!: on_record_value on_tun_value on_strm_value receive_credit_ack_value simp: result_simps
    intro!: safe_rules split: if_splits option.split)

lemma application_safe [safe_rules]:
  assumes "endpoint_ok e"
  shows "safe endpoint_ok (open_stream e h profile)"
    "safe endpoint_ok (endpoint_reset_stream e h i reason)" "safe endpoint_ok (close_stream e h i)" "safe endpoint_ok (close_tunnel e h)"
    "safe endpoint_ok (reset_tunnel e h reason)" "safe endpoint_ok (send_gctl e remote msg cls)" "safe endpoint_ok (solicit_router e t)"
  using assms
  by (auto simp: open_stream_def endpoint_reset_stream_def close_stream_def close_tunnel_def reset_tunnel_def send_gctl_def solicit_router_def Let_def
      intro!: safe_rules total_rules)

section \<open>Transport packets\<close>

lemma on_connect_safe:
  assumes "endpoint_ok e"
  shows "safe endpoint_ok (on_connect e src i r profile credit css)"
proof (cases "bt_get (en_listeners e) css")
  case (Some l)
  obtain h rs e' where a: "alloc_tunnel e = ((h, rs), e')" using prod_cases3 by (metis prod.collapse)
  have e': "endpoint_ok e'" using a assms by (auto simp: alloc_tunnel_def)
  let ?c = "accepted_credit (lc_receive_slots l) profile"
  show ?thesis
  proof (cases "tunnel_responder h rs i r css profile ?c credit")
    case tun: (Ok t)
    then have "endpoint_ok (e'\<lparr>en_tunnels := bt_insert (en_tunnels e') h \<lparr>tr_peer = src, tr_tunnel = t\<rparr>\<rparr>)"
      using new_tunnel_ok(2)[OF tun] e' by (intro endpoint_ok_tunnel) (simp_all add: record_ok_def)
    then show ?thesis using Some a tun by (simp add: on_connect_def Let_def) (intro safe_rules, simp_all add: endpoint_ok_def)
  qed (use Some a e' new_tunnel_total(2)[of h rs i r css profile ?c credit] in \<open>simp_all add: on_connect_def Let_def lift_r_def\<close>)
qed (use assms in \<open>simp add: on_connect_def lift_r_def\<close>)

lemma on_connect_ack_safe:
  assumes "endpoint_ok e"
  shows "safe endpoint_ok (on_connect_ack e i r r' status credit)"
proof -
  have "safe tunnel_ok (sbind (lift_r (tunnel_stream t 0) t) (\<lambda>s t.
       if sp_unreliable (st_profile s) \<and> credit \<noteq> 0 then (Err ProfileViolation, t) else establish_initiator t r r' credit))" if "tunnel_ok t" for t
    using that tunnel_calls_safe(6)[OF that] by (cases "bt_get (tun_streams t) 0") (auto simp: tunnel_stream_def lift_r_def)
  then show ?thesis using assms unfolding on_connect_ack_def by (intro safe_if safe_on_record safe_on_tun) simp_all
qed

lemma gts_handlers_safe [safe_rules]:
  assumes "endpoint_ok e"
  shows "safe endpoint_ok (on_stream_open e h j profile credit)" "safe endpoint_ok (on_stream_ack e h j status credit)"
    "safe endpoint_ok (on_data e cls h j p)" "safe endpoint_ok (on_datagram e cls h j p)"
    "safe endpoint_ok (on_ack_packet e cls h j base bitmap credit)" "safe endpoint_ok (on_stream_close e cls h j final is_ack)"
    "safe endpoint_ok (on_stream_reset e h j reason is_ack)" "safe endpoint_ok (on_tunnel_close e h is_ack)"
  using assms
  by (auto simp: on_stream_open_def on_stream_ack_def on_data_def on_datagram_def on_ack_packet_def on_stream_close_def on_stream_reset_def
      on_tunnel_close_def Let_def split: option.split GtsPacket.split intro!: safe_rules total_rules)

lemma on_reset_safe: "endpoint_ok e \<Longrightarrow> safe endpoint_ok (on_reset e h reset)"
  using tunnel_calls_safe(4) by (auto simp: on_reset_def pure_s_def intro!: safe_rules)

lemma handle_gts_safe [safe_rules]: "endpoint_ok e \<Longrightarrow> safe endpoint_ok (handle_gts e src p)"
proof -
  have "safe endpoint_ok (dispatch_gts e src cls g)" if "endpoint_ok e" for e cls g
    using that by (cases g) (auto simp: dispatch_gts_def on_connect_safe on_connect_ack_safe on_reset_safe intro!: safe_rules)
  then show "endpoint_ok e \<Longrightarrow> ?thesis" unfolding handle_gts_def by (intro safe_rules total_rules)
qed

section \<open>Retransmission\<close>

lemma retransmit_ok: "stream_ok s \<Longrightarrow> retransmit_due s t now = (ps, s') \<Longrightarrow> stream_ok s' \<and> list_all gts_packet_wf ps"
  by (auto simp: retransmit_due_def stream_ok_def list_all_iff split: option.splits prod.splits)

lemma tick_streams_ok:
  "\<forall>(i, s)\<in>set ss. stream_ok s \<Longrightarrow> tick_streams now t ss = (out, ss') \<Longrightarrow>
   (\<forall>(i, s)\<in>set ss'. stream_ok s) \<and> (\<forall>(p, g)\<in>set out. gts_packet_wf g)"
proof (induction now t ss arbitrary: out ss' rule: tick_streams.induct)
  case (2 now t i s ss)
  obtain ps s1 where r: "retransmit_due s t now = (ps, s1)" by force
  obtain o1 ss1 where o: "tick_streams now t ss = (o1, ss1)" by force
  have "stream_ok s" "\<forall>(i, s)\<in>set ss. stream_ok s" using 2 by auto
  then show ?case using "2.IH"[OF r[symmetric] refl _ o] retransmit_ok[OF _ r] "2.prems"(2) r o by (auto simp: list_all_iff)
qed simp

lemma tick_records_ok:
  "\<forall>(h, r)\<in>set rs. record_ok r \<Longrightarrow> tick_records now rs = (res, rs') \<Longrightarrow>
   (\<forall>(h, r)\<in>set rs'. record_ok r) \<and> res \<noteq> Panic \<and> (\<forall>out. res = Ok out \<longrightarrow> (\<forall>(a, p, g)\<in>set out. gts_packet_wf g))"
proof (induction now rs arbitrary: res rs' rule: tick_records.induct)
  case (2 now h r rs)
  obtain res1 rs1 where t: "tick_records now rs = (res1, rs1)" by force
  have rs: "\<forall>(h, r)\<in>set rs. record_ok r" and r: "record_ok r" using "2.prems"(1) by auto
  show ?case
  proof (cases "tun_state (tr_tunnel r) \<noteq> TunEstablished")
    case True
    then show ?thesis using "2.IH"(1)[OF True rs t] "2.prems"(2) t r by auto
  next
    case est: False
    show ?thesis
    proof (cases "remote_id (tr_tunnel r)")
      case (Ok remote)
      obtain out ss where o: "tick_streams now remote (tun_streams (tr_tunnel r)) = (out, ss)" by force
      have ok: "(\<forall>(i, s)\<in>set ss. stream_ok s) \<and> (\<forall>(p, g)\<in>set out. gts_packet_wf g)"
        using tick_streams_ok[OF _ o] r by (simp add: record_ok_def tunnel_ok_def)
      have rest: "(\<forall>(h, r)\<in>set rs1. record_ok r) \<and> res1 \<noteq> Panic \<and> (\<forall>out. res1 = Ok out \<longrightarrow> (\<forall>(a, p, g)\<in>set out. gts_packet_wf g))"
        using "2.IH"(2)[OF est Ok refl o[symmetric] refl rs t] by simp
      show ?thesis using ok rest est Ok o t "2.prems"(2)
        by (cases res1) (fastforce simp: record_ok_def tunnel_ok_def)+
    next
      case (Err er)
      then show ?thesis using est "2.prems" by auto
    next
      case Panic
      then show ?thesis by (simp add: total_rules)
    qed
  qed
qed auto

lemma send_pending_safe: "endpoint_ok e \<Longrightarrow> \<forall>(a, p, g)\<in>set ps. gts_packet_wf g \<Longrightarrow> safe endpoint_ok (send_pending e ps)"
  by (induction e ps rule: send_pending.induct) (auto intro!: safe_sbind_value send_gts_safe)

lemma tick_safe: "endpoint_ok e \<Longrightarrow> safe endpoint_ok (endpoint_tick e now)"
proof -
  assume e: "endpoint_ok e"
  obtain res rs where t: "tick_records now (en_tunnels e) = (res, rs)" by force
  have ok: "(\<forall>(h, r)\<in>set rs. record_ok r) \<and> res \<noteq> Panic \<and> (\<forall>out. res = Ok out \<longrightarrow> (\<forall>(a, p, g)\<in>set out. gts_packet_wf g))"
    using tick_records_ok[OF _ t] e by (simp add: endpoint_ok_def)
  then have "endpoint_ok (e\<lparr>en_tunnels := rs\<rparr>)" using e by (simp add: endpoint_ok_def)
  then show ?thesis using ok t send_pending_safe by (cases res) (auto simp: endpoint_tick_def intro!: safe_sbind)
qed

section \<open>Control messages\<close>

lemma authority_mask:
  assumes "authority_ok a"
  shows "\<exists>k. authority_host_mask a = Ok (mask k) \<and> k \<le> 48"
proof -
  have "push_bit k 1 - 1 = (mask k :: u64)" for k by (simp add: mask_eq_exp_minus_1 push_bit_eq_mult)
  then show ?thesis using assms
    by (intro exI[of _ "64 - unat (aac_prefix_len (aa_config a))"]) (auto simp: authority_ok_def authority_host_mask_def word_less_nat_alt)
qed

lemma allocate_loop_safe:
  assumes "k \<le> 48"
  shows "authority_ok a \<Longrightarrow> safe authority_ok (allocate_loop n (mask k) router a)"
proof (induction n arbitrary: a)
  case (Suc n)
  have small: "x AND mask k < 2 ^ 48" for x :: u64
  proof -
    have "x AND mask k = take_bit k x" by (simp add: take_bit_eq_mask)
    moreover have "unat (take_bit k x) < 2 ^ k" by (simp add: unsigned_take_bit_eq)
    moreover have "(2 :: nat) ^ k \<le> 2 ^ 48" using assms by (rule power_increasing) simp
    ultimately show ?thesis by (simp add: word_less_nat_alt)
  qed
  have "\<exists>m. add_r (aa_next_host a) 1 = Ok m"
    using Suc.prems by (simp add: add_r_def checked_add_def authority_ok_def word_less_nat_alt unat_word_ariths)
  then obtain m where m: "add_r (aa_next_host a) 1 = Ok m" by blast
  let ?a = "a\<lparr>aa_next_host := if m AND mask k = 0 then 1 else m AND mask k\<rparr>"
  have "authority_ok ?a" using Suc.prems small[of m] by (simp add: authority_ok_def)
  then show ?case using Suc.IH[of ?a] m by (auto simp: Let_def)
qed simp

lemma allocate_candidate_safe:
  assumes "authority_ok a" shows "safe authority_ok (allocate_candidate a router)"
proof -
  obtain k where k: "authority_host_mask a = Ok (mask k)" "k \<le> 48" using authority_mask[OF assms] by blast
  show ?thesis using allocate_loop_safe[OF k(2) assms] by (simp add: allocate_candidate_def k(1))
qed

lemma endpoint_ok_authority: "endpoint_ok e \<Longrightarrow> authority_ok a \<Longrightarrow> endpoint_ok (on_authority e a)"
  by (simp add: on_authority_def endpoint_ok_def)

lemma solicit_safe:
  assumes "endpoint_ok e"
  shows "safe endpoint_ok (handle_router_solicit e src msg)"
proof -
  have "safe endpoint_ok (case allocate_candidate a p of
              (Err er, a) \<Rightarrow> (Err er, on_authority e a)
            | (Panic, a) \<Rightarrow> (Panic, on_authority e a)
            | (Ok candidate, a) \<Rightarrow>
                let e = on_authority e (authority_pend a t src candidate) in
                sbind (send_gctl_from e (en_link_local_address e) src (gctl_advertise t (authority_advertise a p)) None) (\<lambda>_ e.
                sbind (lift_r (gctl_address_offer t (authority_offer a p candidate)) e) (\<lambda>offer e.
                sbind (send_gctl_from e (en_link_local_address e) src offer None) (\<lambda>_ e. (Ok True, e)))))"
    if "endpoint_ok e" "authority_ok a" for e a p t
  proof -
    have s: "safe authority_ok (allocate_candidate a p)" using allocate_candidate_safe that by blast
    have pend: "endpoint_ok (on_authority e (authority_pend a' t src c))" if "authority_ok a'" for a' c
      using that \<open>endpoint_ok e\<close> by (intro endpoint_ok_authority) (simp_all add: authority_pend_def authority_ok_def)
    show ?thesis
    proof (cases "allocate_candidate a p")
      case (Pair r a')
      then show ?thesis using s that pend endpoint_ok_authority
        by (cases r) (auto simp: Let_def intro!: safe_rules total_rules)
    qed
  qed
  then show ?thesis using assms
    unfolding handle_router_solicit_def Let_def
    by (intro safe_rules total_rules) (auto simp: endpoint_ok_def split: option.split)
qed

lemma claim_safe:
  assumes "endpoint_ok e"
  shows "safe endpoint_ok (handle_address_claim e src msg)"
proof -
  have "endpoint_ok (on_authority e (authority_lease a t src c))" if "endpoint_ok e" "en_authority e = Some a" for e a t c
    using that by (intro endpoint_ok_authority) (simp_all add: authority_lease_def authority_ok_def endpoint_ok_def)
  then show ?thesis using assms
    by (auto simp: handle_address_claim_def Let_def split: option.split intro!: safe_rules total_rules)
qed

lemma adopt_address_ok [simp]: "endpoint_ok (adopt_address e p a) = endpoint_ok e"
  by (simp add: adopt_address_def Let_def)

lemma gctl_handlers_safe [safe_rules]:
  assumes "endpoint_ok e"
  shows "safe endpoint_ok (on_credit_request e src msg)" "safe endpoint_ok (on_credit e msg)" "safe endpoint_ok (on_advertise e src msg)"
    "safe endpoint_ok (handle_address_offer e src msg)" "safe endpoint_ok (handle_address_ack e msg)" "safe endpoint_ok (handle_address_nak e msg)"
  using assms
  by (auto simp: on_credit_request_def on_credit_def on_advertise_def handle_address_offer_def handle_address_ack_def handle_address_nak_def
      inbox_def Let_def intro!: safe_rules total_rules)

lemma or_inbox_safe: "safe endpoint_ok m \<Longrightarrow> safe endpoint_ok (or_inbox src msg m)"
  unfolding or_inbox_def by (intro safe_rules) (simp_all add: inbox_def)

lemma handle_gctl_safe [safe_rules]: "endpoint_ok e \<Longrightarrow> safe endpoint_ok (handle_gctl e src p)"
proof -
  have "safe endpoint_ok (dispatch_gctl e src cls msg)" if "endpoint_ok e" for e cls msg
    using that by (cases "gm_type msg")
      (auto simp: dispatch_gctl_def inbox_def solicit_safe claim_safe or_inbox_safe intro!: safe_rules total_rules)
  then show "endpoint_ok e \<Longrightarrow> ?thesis" unfolding handle_gctl_def by (intro safe_rules total_rules)
qed

lemma handle_gdp_safe [safe_rules]: "endpoint_ok e \<Longrightarrow> safe endpoint_ok (handle_gdp e p)"
  by (auto simp: handle_gdp_def Let_def split: GdpType.split intro!: safe_rules)

lemma grant_total [total_rules]: "validate_managed_credit_grant e p l \<noteq> Panic"
  by (auto simp: validate_managed_credit_grant_def result_simps total_rules)

lemma receive_safe [safe_rules]:
  assumes "endpoint_ok e"
  shows "safe endpoint_ok (endpoint_receive_flit e f)" "safe endpoint_ok (endpoint_receive_frame e g)"
    "safe endpoint_ok (receive_managed_flit e f l)" "safe endpoint_ok (receive_managed_frame e g l)"
proof -
  have m: "safe endpoint_ok (managed_handle e p l)" if "endpoint_ok e" for e p
    unfolding managed_handle_def using that by (auto intro!: safe_rules total_rules)
  show "safe endpoint_ok (endpoint_receive_flit e f)" "safe endpoint_ok (endpoint_receive_frame e g)"
    "safe endpoint_ok (receive_managed_flit e f l)" "safe endpoint_ok (receive_managed_frame e g l)"
    using assms m by (auto simp: endpoint_receive_flit_def endpoint_receive_frame_def receive_managed_flit_def receive_managed_frame_def
        split: option.split intro!: safe_rules total_rules)
qed

lemma link_calls_safe [safe_rules]:
  assumes "endpoint_ok e"
  shows "safe endpoint_ok (link_attached e peer w)" "safe endpoint_ok (bind_managed_link_peer e peer w)"
    "safe endpoint_ok (retry_managed_link_credit_request e)"
proof -
  show "safe endpoint_ok (link_attached e peer w)" "safe endpoint_ok (bind_managed_link_peer e peer w)"
    using assms by (auto simp: link_attached_def on_link_attached_def bind_managed_link_peer_def intro!: safe_rules)
  have "safe endpoint_ok (case send_gctl_from f src peer msg None of
      (Ok x, g) \<Rightarrow> (Ok (), g\<lparr>en_credit_request_pending := True\<rparr>) | (Err _, g) \<Rightarrow> (Ok (), g) | (Panic, g) \<Rightarrow> (Panic, g))"
    if "endpoint_ok f" for f src peer msg
    using send_gctl_from_safe[OF that, of src peer msg None] by (auto simp: safe_def split: prod.splits result.splits)
  then show "safe endpoint_ok (retry_managed_link_credit_request e)" using assms
    by (auto simp: retry_managed_link_credit_request_def take_control_transaction_def Let_def split: option.split)
qed

section \<open>Sequences of calls\<close>

text \<open>Whether a call returns at all: a result, of whatever kind, and not a panic.\<close>

fun endpoint_returns :: "Endpoint \<Rightarrow> endpoint_call \<Rightarrow> bool" where
  "endpoint_returns e (CConnect remote css profile) = (fst (endpoint_connect e remote css profile) \<noteq> Panic)"
| "endpoint_returns e (COpenStream h profile) = (fst (open_stream e h profile) \<noteq> Panic)"
| "endpoint_returns e (CSend h i bytes fin now) =
    (fst (if fin then endpoint_send_end e h i bytes now else endpoint_send e h i bytes now) \<noteq> Panic)"
| "endpoint_returns e (CRecv h i) = (fst (endpoint_recv e h i) \<noteq> Panic)"
| "endpoint_returns e (CResetStream h i reason) = (fst (endpoint_reset_stream e h i reason) \<noteq> Panic)"
| "endpoint_returns e (CCloseStream h i) = (fst (close_stream e h i) \<noteq> Panic)"
| "endpoint_returns e (CCloseTunnel h) = (fst (close_tunnel e h) \<noteq> Panic)"
| "endpoint_returns e (CResetTunnel h reason) = (fst (reset_tunnel e h reason) \<noteq> Panic)"
| "endpoint_returns e (CGctl remote msg cls) = (fst (send_gctl e remote msg cls) \<noteq> Panic)"
| "endpoint_returns e (CSolicit t) = (fst (solicit_router e t) \<noteq> Panic)"
| "endpoint_returns e (CTick now) = (fst (endpoint_tick e now) \<noteq> Panic)"
| "endpoint_returns e CPollFlit = (fst (endpoint_poll_tx_flit e) \<noteq> Panic)"
| "endpoint_returns e CPollFrame = (fst (endpoint_poll_tx_frame e) \<noteq> Panic)"
| "endpoint_returns e (CReceiveFlit f) = (fst (endpoint_receive_flit e f) \<noteq> Panic)"
| "endpoint_returns e (CReceiveFrame f) = (fst (endpoint_receive_frame e f) \<noteq> Panic)"
| "endpoint_returns e (CManagedFlit f limit) = (fst (receive_managed_flit e f limit) \<noteq> Panic)"
| "endpoint_returns e (CManagedFrame f limit) = (fst (receive_managed_frame e f limit) \<noteq> Panic)"
| "endpoint_returns e (CAttached peer window) = (fst (link_attached e peer window) \<noteq> Panic)"
| "endpoint_returns e (CBindPeer peer window) = (fst (bind_managed_link_peer e peer window) \<noteq> Panic)"
| "endpoint_returns e CRetryCredit = (fst (retry_managed_link_credit_request e) \<noteq> Panic)"
| "endpoint_returns e _ = True"

text \<open>What the types of the code say of the arguments: a service selector is an array of 16 bytes.\<close>

fun call_typed :: "endpoint_call \<Rightarrow> bool" where
  "call_typed (CConnect remote css profile) = selector_array css"
| "call_typed _ = True"

lemma call_safe:
  assumes "endpoint_ok e" "call_typed c"
  shows "endpoint_returns e c \<and> endpoint_ok (endpoint_do e c)"
proof -
  note rules = connect_safe[OF assms(1), unfolded safe_def] application_safe[OF assms(1), unfolded safe_def]
    send_inner_safe[OF assms(1), unfolded safe_def] recv_safe[OF assms(1), unfolded safe_def] tick_safe[OF assms(1), unfolded safe_def]
    poll_endpoint_safe[OF assms(1), unfolded safe_def] receive_safe[OF assms(1), unfolded safe_def] link_calls_safe[OF assms(1), unfolded safe_def]
  show ?thesis using assms
    by (cases c) (simp_all add: rules endpoint_send_def endpoint_send_end_def endpoint_listen_def endpoint_accept_def take_echo_reply_def
        take_gctl_def link_detached_def split: list.split)
qed

lemma run_safe: "endpoint_ok e \<Longrightarrow> list_all call_typed calls \<Longrightarrow> endpoint_ok (endpoint_run e calls)"
  unfolding endpoint_run_def by (induction calls arbitrary: e) (simp_all add: call_safe)

text \<open>The endpoints an application can start with: a static or an unconfigured one, and either of them as an address
  authority with a configuration that its constructor accepted.\<close>

inductive endpoint_started :: "Endpoint \<Rightarrow> bool" where
  static: "endpoint_new address c = Ok e \<Longrightarrow> endpoint_started e"
| unconfigured: "endpoint_unconfigured suffix c = Ok e \<Longrightarrow> endpoint_started e"
| authority: "endpoint_started e \<Longrightarrow> authority_config_new prefix len lifetime = Ok config \<Longrightarrow>
    endpoint_started (enable_address_authority e config)"

lemma build_ok: "endpoint_build a ll st c = Ok e \<Longrightarrow> endpoint_ok e"
  by (auto simp: endpoint_build_def endpoint_ok_def result_simps)

lemma started_ok: "endpoint_started e \<Longrightarrow> endpoint_ok e"
proof (induction rule: endpoint_started.induct)
  case (authority e prefix len lifetime config)
  then show ?case
    by (auto simp: enable_address_authority_def endpoint_ok_def authority_ok_def authority_new_def authority_config_new_def
        normalize_prefix_def gctl_prefix_mask_def result_simps split: if_splits)
qed (auto simp: endpoint_new_def endpoint_unconfigured_def Let_def result_simps dest: build_ok)

text \<open>The fields of an authority configuration are public, and a configuration that does not come from its constructor is not
  checked: with a prefix length of 0 or above 64 the first allocation panics.\<close>

lemma unchecked_authority_panics:
  "aac_prefix_len c = 0 \<or> 64 < aac_prefix_len c \<Longrightarrow> fst (allocate_candidate (authority_new c) router) = Panic"
  by (auto simp: allocate_candidate_def authority_host_mask_def authority_new_def lift_r_def)

section \<open>The direct link\<close>

text \<open>The loop of \<open>DirectLink::pump\<close> as the code writes it, where a run that never ends has no value.\<close>

partial_function (option) pump_run :: "nat \<Rightarrow> nat \<Rightarrow> pair_state \<Rightarrow> (pair_state, nat) outcome option" where
  "pump_run limit moved st =
    (if limit \<le> moved then Some (Err BufferFull, st)
     else case pump_forward st of
         (Panic, st) \<Rightarrow> Some (Panic, st)
       | (Err er, st) \<Rightarrow> Some (Err er, st)
       | (Ok f, st) \<Rightarrow> (case pump_backward st of
             (Panic, st) \<Rightarrow> Some (Panic, st)
           | (Err er, st) \<Rightarrow> Some (Err er, st)
           | (Ok b, st) \<Rightarrow>
               let moved' = moved + (if f then 1 else 0) + (if b then 1 else 0) in
               if \<not> f \<and> \<not> b then Some (Ok moved', st) else pump_run limit moved' st))"

lemma pump_run_eq: "pump_run limit moved st = Some (pump_loop limit moved st)"
proof (induction "limit - moved" arbitrary: moved st rule: less_induct)
  case less
  have step: "pump_run limit moved' st' = Some (pump_loop limit moved' st')" if "moved < moved'" "\<not> limit \<le> moved" for moved' st'
    using less[of moved'] that by simp
  show ?case
    using step by (subst pump_run.simps, subst pump_loop.simps) (auto simp: Let_def split: prod.splits result.splits)
qed

abbreviation pair_ok :: "pair_state \<Rightarrow> bool" where
  "pair_ok st \<equiv> case st of (l, a, b) \<Rightarrow> endpoint_ok a \<and> endpoint_ok b"

lemma pair_safe [safe_rules]:
  "safe endpoint_ok m \<Longrightarrow> endpoint_ok b \<Longrightarrow> safe pair_ok (on_fst m l b)"
  "safe endpoint_ok m \<Longrightarrow> endpoint_ok a \<Longrightarrow> safe pair_ok (on_snd m l a)"
  by (simp_all add: safe_def on_fst_def on_snd_def)

lemma offer_flit_safe [safe_rules]: "endpoint_ok e \<Longrightarrow> safe endpoint_ok (offer_flit e)"
  using poll_endpoint_safe(1)[of e] by (auto simp: offer_flit_def safe_def split: prod.splits result.splits error.splits)

lemma pump_safe:
  assumes "pair_ok st"
  shows "safe pair_ok (pump_forward st)" "safe pair_ok (pump_backward st)" "safe pair_ok (direct_attach st)"
  using assms by (auto simp: pump_forward_def pump_backward_def direct_attach_def return_control_credit_def on_link_attached_def Let_def
      split: option.split intro!: safe_rules)

lemma pump_loop_safe:
  "pair_ok st \<Longrightarrow> safe pair_ok (pump_loop limit moved st) \<and> (\<forall>n. fst (pump_loop limit moved st) = Ok n \<longrightarrow> n < limit)"
proof (induction "limit - moved" arbitrary: moved st rule: less_induct)
  case less
  show ?case
  proof (cases "limit \<le> moved")
    case True
    then show ?thesis using less.prems by (simp add: pump_loop.simps[of limit moved st])
  next
    case False
    obtain f st1 where f: "pump_forward st = (f, st1)" by (cases "pump_forward st")
    obtain b st2 where b: "pump_backward st1 = (b, st2)" by (cases "pump_backward st1")
    have 1: "pair_ok st1" "f \<noteq> Panic" using pump_safe(1)[OF less.prems] f by auto
    have 2: "pair_ok st2" "b \<noteq> Panic" using pump_safe(2)[OF 1(1)] b by auto
    define moved' where "moved' x y = moved + (if x then 1 else 0) + (if y then 1 else 0)" for x y :: bool
    have step: "safe pair_ok (pump_loop limit (moved' x y) st2) \<and> (\<forall>n. fst (pump_loop limit (moved' x y) st2) = Ok n \<longrightarrow> n < limit)"
      if "x \<or> y" for x y
      using less.hyps[of "moved' x y" st2] that 2 False by (auto simp: moved'_def)
    have run: "pump_loop limit moved st = sbind (f, st1) (\<lambda>x _. sbind (b, st2) (\<lambda>y st. if \<not> x \<and> \<not> y then (Ok moved, st) else pump_loop limit (moved' x y) st))"
      using False f b by (subst pump_loop.simps) (cases f; cases b; simp add: moved'_def)
    show ?thesis
    proof (cases "\<exists>x y. f = Ok x \<and> b = Ok y \<and> (x \<or> y)")
      case True
      then obtain x y where xy: "f = Ok x" "b = Ok y" "x \<or> y" by blast
      then have "pump_loop limit moved st = pump_loop limit (moved' x y) st2" using run by auto
      then show ?thesis using step[OF xy(3)] by auto
    next
      case stop: False
      then show ?thesis using run 1 2 False by (cases f; cases b) auto
    qed
  qed
qed

section \<open>The properties\<close>

text \<open>C6. No call panics an endpoint. Start with any endpoint the constructors return, without an address authority or with one
  whose configuration \<open>AddressAuthorityConfig::new\<close> returned, and make any
  sequence of calls of the application, the clock and the link, with any arguments of the right types, any bytes on the wire
  and any of them failing: every further call returns a value or an error, and the invariant \<open>endpoint_ok\<close> holds, so every
  reliable stream still has both of its halves and the authority's host counter cannot overflow.\<close>

theorem endpoint_never_panics:
  assumes "endpoint_started e" "list_all call_typed calls" "call_typed c"
  shows "endpoint_returns (endpoint_run e calls) c \<and> endpoint_ok (endpoint_do (endpoint_run e calls) c)"
  using call_safe[OF run_safe[OF started_ok[OF assms(1)] assms(2)] assms(3)] .

theorem endpoint_never_panics_witness:
  "\<exists>e config. endpoint_new 0x10 (endpoint_config_new 64) = Ok e \<and> authority_config_new 0xfd00000000000000 16 600 = Ok config \<and>
    list_all call_typed [CListen (ServiceSelector (replicate 16 7)) listener_config_default, CReceiveFlit \<lparr>flit_vcid = 0, flit_data = 9\<rparr>, CTick 5] \<and>
    endpoint_returns (endpoint_run (enable_address_authority e config)
      [CListen (ServiceSelector (replicate 16 7)) listener_config_default, CReceiveFlit \<lparr>flit_vcid = 0, flit_data = 9\<rparr>, CTick 5])
      (CConnect 0x20 (ServiceSelector (replicate 16 7)) (reliable_fixed Msg128 Bidirectional))"
proof -
  let ?calls = "[CListen (ServiceSelector (replicate 16 7)) listener_config_default, CReceiveFlit \<lparr>flit_vcid = 0, flit_data = 9\<rparr>, CTick 5]"
  obtain e where e: "endpoint_new 0x10 (endpoint_config_new 64) = Ok e"
    by (simp add: endpoint_new_def endpoint_config_validate_def endpoint_config_new_def make_link_local_def link_local_suffix_mask_def
        endpoint_build_def endpoint_dlp_config_def dlp_config_new_def dlp_new_def)
  obtain config where config: "authority_config_new 0xfd00000000000000 16 600 = Ok config"
    by (simp add: authority_config_new_def normalize_prefix_def gctl_prefix_mask_def)
  have "endpoint_started (enable_address_authority e config)" using e config by (intro endpoint_started.intros)
  from endpoint_never_panics[OF this, of ?calls "CConnect 0x20 (ServiceSelector (replicate 16 7)) (reliable_fixed Msg128 Bidirectional)"]
  show ?thesis using e config by (auto simp: selector_array_def)
qed

text \<open>C21. Pumping a direct link ends. The loop of \<open>pump\<close>, which the code leaves only by a return or when no endpoint had a flit to
  send, reaches an end from every pair of endpoints that started as in the previous property, because each round that goes on has moved a flit and the rounds stop at
  \<open>max_flits\<close>; it is the function \<open>pump_loop\<close> of the model, it does not
  panic and the number of flits it reports is below the limit.\<close>

theorem direct_pump_terminates:
  assumes "endpoint_started a0" "endpoint_started b0" "list_all call_typed as" "list_all call_typed bs"
  shows "\<exists>r l a b. pump_run max_flits 0 (link, endpoint_run a0 as, endpoint_run b0 bs) = Some (r, l, a, b) \<and>
    pump_loop max_flits 0 (link, endpoint_run a0 as, endpoint_run b0 bs) = (r, l, a, b) \<and>
    r \<noteq> Panic \<and> endpoint_ok a \<and> endpoint_ok b \<and> (\<forall>n. r = Ok n \<longrightarrow> n < max_flits)"
proof -
  let ?st = "(link, endpoint_run a0 as, endpoint_run b0 bs)"
  have "pair_ok ?st" using assms by (simp add: run_safe started_ok)
  note safe = pump_loop_safe[OF this, of max_flits 0]
  obtain r l a b where p: "pump_loop max_flits 0 ?st = (r, l, a, b)" by (cases "pump_loop max_flits 0 ?st") auto
  show ?thesis using p safe pump_run_eq[of max_flits 0 ?st] by auto
qed

theorem direct_pump_terminates_witness:
  "\<exists>e r l a b. endpoint_new 0x10 (endpoint_config_new 64) = Ok e \<and>
    pump_run 8 0 (direct_link_new, endpoint_run e [CTick 5], endpoint_run e []) = Some (r, l, a, b) \<and> r \<noteq> Panic"
proof -
  obtain e where e: "endpoint_new 0x10 (endpoint_config_new 64) = Ok e"
    by (simp add: endpoint_new_def endpoint_config_validate_def endpoint_config_new_def make_link_local_def link_local_suffix_mask_def
        endpoint_build_def endpoint_dlp_config_def dlp_config_new_def dlp_new_def)
  have "endpoint_started e" using e by (rule endpoint_started.static)
  then have "\<exists>r l a b. pump_run 8 0 (direct_link_new, endpoint_run e [CTick 5], endpoint_run e []) = Some (r, l, a, b) \<and> r \<noteq> Panic"
    using direct_pump_terminates[of e e "[CTick 5]" "[]" 8 direct_link_new] by (simp, blast)
  then show ?thesis using e by blast
qed

end
