(* ===== verification/Spec2Isabelle.thy ===== *)
theory Spec2Isabelle
  imports Crc_Vectors Css Gdp Ring_Buffer Packet_Buffer Message_Pool Sockets Routing Gts_Packet Gctl Router_Rib Router_Adjacency Egress_Scheduler
    Gts_Transfer Bounded_Gts Dynamic_Router Static_Switch Dlp_Attach P4_Plane P4_Gts Trace Runtime Endpoint_Total
begin

text \<open>
  A verification of smolgnet, a Rust implementation of the GNet protocol suite.

  \<^bold>\<open>The program.\<close> An endpoint speaks three layers. DLP moves 32-bit flits and frames over one link under credit flow
  control. GDP is the datagram layer: a header with a CRC-8, sixteen payload sizes, global and local addresses; control
  messages (GCTL) and the transport are its payloads. GTS is the transport: tunnels between two endpoints with up to 256
  streams each, reliable or not. Around the endpoint stand the link control that negotiates a link before data flows, the
  caller-owned stores and a heapless variant of the transport socket, a small routing table, a scheduler-facing runtime, and
  the routers and the switch, whose forwarding planes are P4 programs compiled by the build.

  \<^bold>\<open>Conventions.\<close> All theories share \<open>Gnet_Prelude\<close>. A Rust \<open>Result\<close> is the type \<open>result\<close> with values \<open>Ok\<close>, \<open>Err\<close> and a third,
  \<open>Panic\<close>, for \<open>expect\<close>, \<open>unwrap\<close>, indexing out of range and arithmetic overflow of a checked build. A method that takes
  \<open>&mut self\<close> returns the pair of its result and the state it leaves, also when it fails: what the code changed before an early
  return stays changed. Structures are records, enumerations datatypes, \<open>u8\<close> to \<open>u64\<close> words of that width, so that wrapping
  and saturating operations are those of the code; \<open>usize\<close> is \<open>nat\<close>. A \<open>BTreeMap\<close> is the ordered list of \<open>Btree_Map\<close>, a slice
  \<open>bytes\<close>. Loops are structural recursion or \<open>function\<close>s with a measure, so that every operation is total; the bounded loops of the
  code (512 rounds when a link is attached, the flit limit of a pump, the number of hosts tried for a lease) keep their bounds,
  and there is no other fuel in the model.

  \<^bold>\<open>Theories and sources\<close> (paths below src/src unless they begin with p4-).
  \<^item> \<open>Gnet_Prelude\<close>: error.rs, the result type, slices, big-endian codecs; \<open>Gnet_Time\<close>: time.rs; \<open>Btree_Map\<close>: the ordered maps,
    behind the locale \<open>ordered_map\<close>.
  \<^item> \<open>Crc\<close>, \<open>Crc_Vectors\<close>: wire/crc.rs. One locale, \<open>crc_engine\<close>, serves both checksums: table and bit-serial update agree, and
    the CRC-32 detects every burst of up to 32 bits.
  \<^item> \<open>Css\<close>: wire/css.rs. \<open>Gdp\<close>: wire/gdp_common.rs, wire/gdp_handwritten.rs, wire/gdp.rs. \<open>Gctl\<close>: wire/gctl.rs, each body codec an
    instance of \<open>gctl_body_codec\<close>. \<open>Dynamic_Routing\<close>: dynamic_routing.rs, wire/gctl_routing.rs. \<open>Gts_Wire\<close>, \<open>Gts_Packet\<close>: wire/gts.rs,
    wire/gts_handwritten.rs, wire/gts_tx.rs, where the locale \<open>gts_lower_codec\<close> is the contract of the two traits of a lower codec and
    holds the round trip and totality of the packet codec over any of them. Shown: round trips or bijections for every format, total
    decoders, corruption that the checksums catch.
  \<^item> \<open>P4_Gdp\<close>, \<open>P4_Gts\<close>: p4_gdp.rs, p4_gts.rs, p4-common: the second backends over generated parsers, and the builds that compare
    them with the first; all builds are one codec. \<open>P4_Plane\<close>: p4-gdp/src/lib.rs, p4-gdp/p4/gdp.p4: the stand-alone exact-match plane.
  \<^item> \<open>Ring_Buffer\<close>, \<open>Packet_Buffer\<close>, \<open>Message_Pool\<close>: storage.rs; \<open>Sockets\<close>: socket.rs. The stores refine lists and finite maps; the
    locales \<open>bounded_fifo\<close> and \<open>handle_store\<close> are the contracts their users see.
  \<^item> \<open>Routing\<close>: routing.rs, the longest-prefix table.
  \<^item> \<open>Dlp\<close>, \<open>Dlp_Link\<close>, \<open>Dlp_Transfer\<close>: dlp.rs, dlp_v01.rs, dlp_gdp.rs. The packet port trait is the locale \<open>gdp_packet_port\<close>.
    \<open>Dlp_Transfer\<close> joins two endpoints by a wire, as a step relation: packets arrive intact and in order, and the receiver's buffer is
    never overrun.
  \<^item> \<open>Dlp_Control\<close>, \<open>Dlp_Negotiation\<close>, \<open>Dlp_Bringup\<close>, \<open>Dlp_Attach\<close>: dlp_control.rs. The frames are in bijection with the accepted words; no
    control bytes from a peer take an endpoint outside its own capabilities, and the data link runs in the negotiated mode within the
    negotiated credit as long as packets come by the wrapper's own receive methods; two endpoints on a cable agree on a profile, exchange
    their windows flit by flit and come up, if their configurations agree on the wire format and the local prefix.
  \<^item> \<open>Egress_Scheduler\<close>: egress_scheduler.rs, refined to a round robin over queues.
  \<^item> \<open>Gts_Stream\<close>, \<open>Gts_Transfer\<close>: gts.rs. Over a network that loses, duplicates and reorders, the receiver gets a prefix of what was
    sent, for fewer than \<open>2 ^ 32\<close> messages (the sequence numbers then come round); a retransmission round completes the transfer.
    \<open>Bounded_Gts\<close>: bounded_gts.rs.
  \<^item> \<open>Endpoint_Core\<close>, \<open>Endpoint_Gts\<close>, \<open>Endpoint\<close>: endpoint/core.rs, endpoint/link_api.rs, endpoint.rs, every handler with all the state it
    changes. \<open>Endpoint_Safety\<close> shows what all sequences of calls keep: leases are unique and stay, managed credit stays
    within the limit, frames stay on the channels of the mode.
    \<open>Endpoint_Total\<close> shows that no call ever panics, whatever arrives, and that the pump of a direct link ends.
  \<^item> \<open>Runtime\<close>: runtime.rs, deadlines and wake-ups; \<open>Trace\<close>: qdx.rs, trace.rs, the transparent tracer.
  \<^item> \<open>Router_Rib\<close>, \<open>Router_Adjacency\<close>: router_rib.rs, router_adjacency.rs: selection is the optimum of an order, updates bring a neighbour
    in line, the hello exchange as a step relation. \<open>Static_Router\<close>, \<open>Router_P4\<close>: static_router.rs, p4-static-router/p4/router.p4:
    forwarding is longest-prefix match. \<open>Dynamic_Router\<close>: dynamic_router.rs and cycle_router.rs: the forwarding plane follows the selected
    routes. \<open>Static_Switch\<close>: static_switch.rs, p4-static-switch/p4/switch.p4.
  \<^item> This theory composes them: a transport packet from one endpoint to another over a path of routers.

  \<^bold>\<open>Parameters.\<close> The build compiles the P4 programs to Rust that is not part of the sources. The generated pipelines, parsers and header
  structures are arguments of the definitions (\<open>p4_ops\<close>, \<open>gts_header_ops\<close> and parser functions). What the code relies on are the
  hypotheses \<open>runs_router_p4\<close>, \<open>runs_switch_p4\<close>, \<open>runs_gdp_p4\<close>, \<open>runs_gdp_parser\<close>, \<open>runs_gts_parser\<close> and \<open>runs_gts_headers\<close>: the generated code
  runs the P4 program, which is modelled from its text. Concrete instances over lists of entries satisfy them, and the witnesses use
  these. The size limits of P4 tables are not modelled. Frame devices and trace sinks, which are traits without an implementation in
  the library, and the test \<open>will_wake\<close> of the task library are arguments too.

  \<^bold>\<open>What modelling showed.\<close> Some theorems state behaviour the code does not mean to have: \<open>packet_buffer_overwrites_oldest\<close>,
  \<open>egress_failed_packet_strands_flow\<close>, \<open>data_end_overtakes_message\<close>, \<open>credit_overcommit_stalls\<close>, \<open>bounded_gap_acknowledges_everything\<close>,
  \<open>own_address_advertisement_freezes_forwarding\<close>, \<open>duplicate_hello_kills_link\<close>, \<open>p4_plane_revives_local_hops\<close>,
  \<open>poll_spins_at_expiry\<close>, \<open>pruning_restores_direct_delivery\<close> and \<open>unchecked_authority_panics\<close>. Two wrappers hand out the endpoint inside by
  \<open>DerefMut\<close>, and calls made on it go around what they guarantee: \<open>managed_link_within_profile\<close> excludes its receive methods, and
  \<open>receiver_wakeup_not_lost\<close> states that they wake nobody.

  \<^bold>\<open>Not modelled.\<close> lib.rs and wire/mod.rs hold module declarations and re-exports only. \<open>RouterId::random\<close> draws from the system's random
  source. Read-only accessors, \<open>Display\<close> texts, \<open>GdpPipeline::table_ids\<close> and the flit device trait, which nothing implements or calls,
  have no behaviour to state. Test modules, the tests directory and benchmarks are not part of the program. The P4 crates for the GTS
  format, the router and the switch have no Rust code of their own; their programs are modelled where their users are.
\<close>

section \<open>A transport packet on a routed path\<close>

text \<open>A packet on a path of routers: each takes it in at its port and hands it to the next one, or the packet is gone.\<close>

fun forward_path :: "'p p4_ops \<Rightarrow> ('p StaticP4Router \<times> RouterPortId) list \<Rightarrow> GdpPacket \<Rightarrow> GdpPacket option" where
  "forward_path ops [] pk = Some pk"
| "forward_path ops ((r, ingress) # path) pk = (case fst (router_process ops r ingress pk) of
      Ok (Forward _ pk') \<Rightarrow> forward_path ops path pk'
    | _ \<Rightarrow> None)"

text \<open>A started router that sends packets for \<open>d\<close> which arrive at the port \<open>ingress\<close> on, by another port.\<close>

definition carries :: "'p p4_ops \<Rightarrow> GdpAddress \<Rightarrow> 'p StaticP4Router \<Rightarrow> RouterPortId \<Rightarrow> bool" where
  "carries ops d r ingress \<longleftrightarrow> ingress < router_port_count \<and> (\<exists>startup. startup_wf startup \<and> router_new ops startup = Ok r) \<and>
    (\<exists>e port. fib_hit (spr_fib r) d e \<and> fe_egress_port e = Some port \<and> port \<noteq> ingress)"

lemma carries_step:
  assumes "runs_router_p4 ops" "carries ops d r ingress" "gdp_packet_wf pk" "addresses (pkt_header pk) = AddrGlobal d s"
  shows "\<exists>port. fst (router_process ops r ingress pk) =
    Ok (if hop_limit (pkt_header pk) \<le> 1 then Drop else Forward port (with_hop pk (hop_limit (pkt_header pk) - 1)))"
proof -
  obtain startup e port where c: "ingress < router_port_count" "startup_wf startup" "router_new ops startup = Ok r"
    "fib_hit (spr_fib r) d e" "fe_egress_port e = Some port" "port \<noteq> ingress" using assms(2) by (auto simp: carries_def)
  have "distinct (map fe_prefix (spr_fib r))" "list_all entry_ok (spr_fib r)" using router_new_build[OF c(3,2)] by blast+
  then have "e' = e" if "fib_hit (spr_fib r) d e'" for e' using fib_hit_unique that c(4) by blast
  then have "fst (router_process ops r ingress pk) = Ok (decide ingress pk e)"
    using router_process_global[OF assms(1) c(3,2) assms(3,4) c(1)] c(4) by metis
  then show ?thesis using c(5,6) by (auto simp: decide_def)
qed

lemma with_hop_simps [simp]:
  "addresses (pkt_header (with_hop pk n)) = addresses (pkt_header pk)" "hop_limit (pkt_header (with_hop pk n)) = n"
  "with_hop (with_hop pk n) m = with_hop pk m" "pkt_payload (with_hop pk n) = pkt_payload pk"
  "size_class (pkt_header (with_hop pk n)) = size_class (pkt_header pk)" "packet_type (pkt_header (with_hop pk n)) = packet_type (pkt_header pk)"
  "gdp_version (pkt_header (with_hop pk n)) = gdp_version (pkt_header pk)"
  by (simp_all add: with_hop_def)

lemma with_hop_self: "with_hop pk (hop_limit (pkt_header pk)) = pk"
  by (simp add: with_hop_def)

lemma forward_path_hops:
  assumes "runs_router_p4 ops"
  shows "list_all (\<lambda>(r, ingress). carries ops d r ingress) path \<Longrightarrow> gdp_packet_wf pk \<Longrightarrow> addresses (pkt_header pk) = AddrGlobal d s \<Longrightarrow>
    0 < hop_limit (pkt_header pk) \<Longrightarrow>
    forward_path ops path pk = (if length path < unat (hop_limit (pkt_header pk))
      then Some (with_hop pk (hop_limit (pkt_header pk) - of_nat (length path))) else None)"
proof (induction path arbitrary: pk)
  case (Cons step path)
  obtain r ingress where step: "step = (r, ingress)" by (cases step)
  let ?h = "hop_limit (pkt_header pk)"
  have "carries ops d r ingress" using Cons.prems(1) step by simp
  then obtain port where p: "fst (router_process ops r ingress pk) = Ok (if ?h \<le> 1 then Drop else Forward port (with_hop pk (?h - 1)))"
    using carries_step[OF assms] Cons.prems by blast
  show ?case
  proof (cases "?h \<le> 1")
    case True
    then show ?thesis using p step by (auto simp: word_le_nat_alt)
  next
    case False
    then have h: "unat (?h - 1) = unat ?h - 1" "1 < unat ?h" by (auto simp: word_le_nat_alt unat_sub)
    have "gdp_packet_wf (with_hop pk (?h - 1))" using Cons.prems(2,3) by (simp add: gdp_packet_wf_def gdp_header_wf_def)
    moreover have "0 < ?h - 1" using h by (simp add: word_less_nat_alt)
    ultimately have "forward_path ops path (with_hop pk (?h - 1)) = (if length path < unat (?h - 1)
      then Some (with_hop pk (?h - 1 - of_nat (length path))) else None)"
      using Cons.IH[of "with_hop pk (?h - 1)"] Cons.prems(1,3) by simp
    then show ?thesis using p False step h by (auto simp: algebra_simps)
  qed
qed (simp add: with_hop_self word_less_nat_alt)

lemma gts_packet_out_shape:
  assumes "gts_packet_out a d g profile = Ok pk" "gdp_form (addresses (pkt_header pk)) = FormGlobal"
  shows "\<exists>cls. pkt_header pk = gdp_header_global Gts cls 64 (en_primary_address a) d \<and> gdp_packet_wf pk \<and>
    encode_packet g \<lparr>ctx_gdp_version = 0, ctx_size_class = cls, ctx_source = en_primary_address a, ctx_destination = d\<rparr> profile = Ok (pkt_payload pk)"
proof -
  obtain cls h where h: "make_gdp_header a Gts cls (en_primary_address a) d = Ok h"
    "encode_packet g \<lparr>ctx_gdp_version = 0, ctx_size_class = cls, ctx_source = en_primary_address a, ctx_destination = d\<rparr> profile = Ok (pkt_payload pk)"
    "pkt_header pk = h" "length (pkt_payload pk) = size_class_bytes (size_class h)"
    using assms(1) by (auto simp: gts_packet_out_def gdp_packet_new_def result_simps Let_def split: if_splits)
  have "gdp_form (addresses h) = FormGlobal" using assms(2) h(3) by simp
  then have "h = gdp_header_global Gts cls 64 (en_primary_address a) d"
    using h(1) by (auto simp: make_gdp_header_def gdp_header_local_def Let_def split: if_splits option.splits)
  then show ?thesis using h by (auto simp: gdp_packet_wf_def gdp_header_wf_def gdp_header_global_def)
qed

lemma gts_profile_for_form [simp]: "gts_profile_for (b\<lparr>en_last_rx_address_form := f\<rparr>) payload = gts_profile_for b payload"
  by (simp add: gts_profile_for_def cong: if_cong)

text \<open>C2. End to end: a transport packet that one endpoint sends to the address of another, over any path of started routers whose
  forwarding tables lead towards that address, arrives as it was sent. On a path of fewer than 64 routers the
  datagram leaves the last one with a hop limit reduced by one for each of them, and the receiving endpoint, when it knows the
  stream's profile, hands exactly the packet that was sent to the transport handler; on a longer path the datagram is dropped.\<close>

theorem transport_packet_crosses_routers:
  assumes "runs_router_p4 ops" "list_all (\<lambda>(r, ingress). carries ops (en_primary_address b) r ingress) path"
    and "gts_packet_wf g" "gts_packet_out a (en_primary_address b) g profile = Ok pk" "gdp_form (addresses (pkt_header pk)) = FormGlobal"
    and "en_primary_address b \<noteq> bootstrap_address" "gts_profile_for b (pkt_payload pk) = Ok profile"
  shows "if length path < 64
    then \<exists>pk'. forward_path ops path pk = Some pk' \<and> hop_limit (pkt_header pk') = 64 - of_nat (length path) \<and>
      handle_gdp b pk' = dispatch_gts (b\<lparr>en_last_rx_address_form := Some FormGlobal\<rparr>) (en_primary_address a) (size_class (pkt_header pk)) g
    else forward_path ops path pk = None"
proof -
  obtain cls where pk: "pkt_header pk = gdp_header_global Gts cls 64 (en_primary_address a) (en_primary_address b)" "gdp_packet_wf pk"
    "encode_packet g \<lparr>ctx_gdp_version = 0, ctx_size_class = cls, ctx_source = en_primary_address a, ctx_destination = en_primary_address b\<rparr> profile
      = Ok (pkt_payload pk)"
    using gts_packet_out_shape[OF assms(4,5)] by blast
  have dec: "decode_packet (pkt_payload pk) \<lparr>ctx_gdp_version = 0, ctx_size_class = cls, ctx_source = en_primary_address a,
      ctx_destination = en_primary_address b\<rparr> profile = Ok g"
    using handwritten.encode_decode[OF _ assms(3)] pk(3) by (simp add: encode_packet_def decode_packet_def)
  have a: "addresses (pkt_header pk) = AddrGlobal (en_primary_address b) (en_primary_address a)" "hop_limit (pkt_header pk) = 64"
    "packet_type (pkt_header pk) = Gts" "size_class (pkt_header pk) = cls" "gdp_version (pkt_header pk) = 0"
    by (simp_all add: pk(1) gdp_header_global_def)
  have "handle_gdp b (with_hop pk n) = dispatch_gts (b\<lparr>en_last_rx_address_form := Some FormGlobal\<rparr>) (en_primary_address a) cls g" for n
    unfolding handle_gdp_def handle_gts_def Let_def
    by (simp add: a assms(6,7) dec accepts_destination_def gdp_source_def gdp_destination_def lift_r_def)
  moreover have "forward_path ops path pk = (if length path < 64 then Some (with_hop pk (64 - of_nat (length path))) else None)"
    using forward_path_hops[OF assms(1,2) pk(2) a(1)] unfolding a(2) by simp
  ultimately show ?thesis by (simp add: a(4))
qed

lemma tunnel_close_encodes:
  assumes "ctx_size_class c = Ctrl32"
  shows "\<exists>out. encode_packet (PTunnelClose 7 True) c None = Ok out \<and> length out = 32 \<and> out ! 0 = 0x0b"
proof -
  have "prepare_encode (PTunnelClose 7 True) c None = Ok \<lparr>plan_lower = LTunnelClose 7 True, plan_tail = replicate 23 0, plan_crc_coverage_end = 28\<rparr>"
    using assms by (simp add: prepare_encode_def checked_sub_def plain_plan_def zero_tail_def size_class_bytes_def)
  moreover obtain v where "compute_crc c (lower_bytes (LTunnelClose 7 True) @ replicate 23 0) = Ok v" using compute_crc_Ok by blast
  ultimately show ?thesis
    using assms encode_lower_eq[of "LTunnelClose 7 True"] lower_bytes_length[of "LTunnelClose 7 True"]
    by (auto simp: encode_packet_def encode_with_def finish_encode_def checked_sub_def size_class_bytes_def lower_wf_def nth_append lower_bytes_def)
qed

lemma sample_endpoints: "\<exists>e. endpoint_new x (endpoint_config_new 64) = Ok e \<and> en_primary_address e = x \<and> \<not> ec_prefer_local_gdp (en_config e)"
  by (auto simp: endpoint_new_def endpoint_config_validate_def endpoint_config_new_def make_link_local_def link_local_suffix_mask_def
      endpoint_build_def endpoint_dlp_config_def dlp_config_new_def dlp_new_def Let_def)

theorem transport_packet_crosses_routers_witness:
  "\<exists>r a b pk pk'. router_new list_pipeline sample_startup = Ok r \<and> endpoint_new 0x99 (endpoint_config_new 64) = Ok a \<and>
    endpoint_new 0x1122000000000077 (endpoint_config_new 64) = Ok b \<and> gts_packet_out a (en_primary_address b) (PTunnelClose 7 True) None = Ok pk \<and>
    forward_path list_pipeline [(r, 0)] pk = Some pk' \<and> hop_limit (pkt_header pk') = 63 \<and>
    handle_gdp b pk' = dispatch_gts (b\<lparr>en_last_rx_address_form := Some FormGlobal\<rparr>) 0x99 Ctrl32 (PTunnelClose 7 True)"
proof -
  obtain r where r: "router_new list_pipeline sample_startup = Ok r" "spr_fib r = sample_fib" using sample_router_new by blast
  obtain a b where e: "endpoint_new 0x99 (endpoint_config_new 64) = Ok a" "en_primary_address a = 0x99" "\<not> ec_prefer_local_gdp (en_config a)"
    "endpoint_new 0x1122000000000077 (endpoint_config_new 64) = Ok b" "en_primary_address b = 0x1122000000000077"
    using sample_endpoints[of "0x99"] sample_endpoints[of "0x1122000000000077"] by blast
  have "fe_egress_port (sample_fib ! 4) = Some 1" by (simp add: sample_fib_def)
  then have path: "list_all (\<lambda>(r, ingress). carries list_pipeline (en_primary_address b) r ingress) [(r, 0)]"
    using sample_fib_hit sample_startup_wf r e(5) unfolding carries_def by (simp add: router_port_count_def) (metis zero_neq_one)
  obtain out where out: "encode_packet (PTunnelClose 7 True) \<lparr>ctx_gdp_version = 0, ctx_size_class = Ctrl32, ctx_source = 0x99,
      ctx_destination = 0x1122000000000077\<rparr> None = Ok out" "length out = 32" "out ! 0 = 0x0b"
    using tunnel_close_encodes[of "\<lparr>ctx_gdp_version = 0, ctx_size_class = Ctrl32, ctx_source = 0x99, ctx_destination = 0x1122000000000077\<rparr>"] by auto
  define pk where "pk = \<lparr>pkt_header = gdp_header_global Gts Ctrl32 64 0x99 0x1122000000000077, pkt_payload = out\<rparr>"
  have "choose_size_class (PTunnelClose 7 True) None = Ok Ctrl32" by code_simp
  then have send: "gts_packet_out a (en_primary_address b) (PTunnelClose 7 True) None = Ok pk"
    using out e(2,3,5) by (simp add: gts_packet_out_def make_gdp_header_def gdp_packet_new_def pk_def gdp_header_global_def size_class_bytes_def)
  have "gts_type_from_wire 0x0b = Ok TyTunnelCloseAck" by code_simp
  then have prof: "gts_profile_for b (pkt_payload pk) = Ok None"
    using out(2,3) by (auto simp: gts_profile_for_def pk_def stream_scoped_def idx_def)
  have h: "gts_packet_wf (PTunnelClose 7 True)" "gdp_form (addresses (pkt_header pk)) = FormGlobal" "en_primary_address b \<noteq> bootstrap_address"
    "size_class (pkt_header pk) = Ctrl32"
    using e(5) by (simp_all add: gts_packet_wf_def pk_def gdp_header_global_def bootstrap_address_def link_local_prefix_def)
  show ?thesis
    using transport_packet_crosses_routers[OF list_pipeline_runs path h(1) send h(2,3) prof] r(1) e h(4) send by auto
qed

end
